(* ===== verification/Prelude.thy ===== *)
theory Prelude
  imports Main "HOL-Library.Word" "HOL-Library.Monad_Syntax"
begin

text \<open>
  Shared vocabulary of the development.  Rust's fixed-width integers are HOL words of the same
  width (an \<open>i64\<close> is the 64-bit word read by \<^const>\<open>sint\<close>), \<open>usize\<close> is a natural number whose
  conversions to \<open>u64\<close> are written out, and \<open>Result\<close> is the sum type with the error on the left.
  Functions that thread a mutable object through fallible calls (a reader, a decoder) have type
  \<open>'s \<Rightarrow> 'e + ('a \<times> 's)\<close>; \<open>bindM\<close> is their sequencing and stands for Rust's \<open>?\<close> operator.
\<close>

unbundle bit_operations_syntax

type_synonym u8 = "8 word"
type_synonym u32 = "32 word"
type_synonym u64 = "64 word"
type_synonym i64 = "64 word"
type_synonym usize = nat

type_synonym ('s, 'e, 'a) stm = "'s \<Rightarrow> 'e + ('a \<times> 's)"

named_theorems codec_laws "decoding laws of wire codecs, stated per encoder"
named_theorems result_simps "evaluation of the result and state combinators"

subsection \<open>Results\<close>

definition rbind :: "'e + 'a \<Rightarrow> ('a \<Rightarrow> 'e + 'b) \<Rightarrow> 'e + 'b" where
  "rbind m f = (case m of Inl e \<Rightarrow> Inl e | Inr x \<Rightarrow> f x)"

definition map_err :: "('e \<Rightarrow> 'f) \<Rightarrow> 'e + 'a \<Rightarrow> 'f + 'a" where
  "map_err g m = (case m of Inl e \<Rightarrow> Inl (g e) | Inr x \<Rightarrow> Inr x)"

lemma rbind_simps [simp, result_simps]:
  "rbind (Inl e) f = Inl e"
  "rbind (Inr x) f = f x"
  by (simp_all add: rbind_def)

lemma map_err_simps [simp, result_simps]:
  "map_err g (Inl e) = Inl (g e)"
  "map_err g (Inr x) = Inr x"
  by (simp_all add: map_err_def)

lemma rbind_eq_Inr: "rbind m f = Inr y \<longleftrightarrow> (\<exists>x. m = Inr x \<and> f x = Inr y)"
  by (cases m) auto

lemma map_err_eq_Inr [simp]: "map_err g m = Inr x \<longleftrightarrow> m = Inr x"
  by (cases m) auto

subsection \<open>Fallible state transformers\<close>

definition returnM :: "'a \<Rightarrow> ('s, 'e, 'a) stm" where
  "returnM x = (\<lambda>s. Inr (x, s))"

definition failM :: "'e \<Rightarrow> ('s, 'e, 'a) stm" where
  "failM e = (\<lambda>s. Inl e)"

definition bindM :: "('s, 'e, 'a) stm \<Rightarrow> ('a \<Rightarrow> ('s, 'e, 'b) stm) \<Rightarrow> ('s, 'e, 'b) stm" where
  "bindM m f = (\<lambda>s. case m s of Inl e \<Rightarrow> Inl e | Inr (x, t) \<Rightarrow> f x t)"

definition liftR :: "'e + 'a \<Rightarrow> ('s, 'e, 'a) stm" where
  "liftR m = (\<lambda>s. case m of Inl e \<Rightarrow> Inl e | Inr x \<Rightarrow> Inr (x, s))"

text \<open>A \<open>for _ in 0..n\<close> loop that pushes one decoded element per round.\<close>

primrec repeatM :: "nat \<Rightarrow> ('s, 'e, 'a) stm \<Rightarrow> ('s, 'e, 'a list) stm" where
  "repeatM 0 m = returnM []"
| "repeatM (Suc n) m = bindM m (\<lambda>x. bindM (repeatM n m) (\<lambda>xs. returnM (x # xs)))"

lemma returnM_apply [simp, result_simps]: "returnM x s = Inr (x, s)"
  by (simp add: returnM_def)

lemma failM_apply [simp, result_simps]: "failM e s = Inl e"
  by (simp add: failM_def)

lemma bindM_Inr [simp, result_simps]: "m s = Inr (x, t) \<Longrightarrow> bindM m f s = f x t"
  by (simp add: bindM_def)

lemma bindM_Inl [simp, result_simps]: "m s = Inl e \<Longrightarrow> bindM m f s = Inl e"
  by (simp add: bindM_def)

lemma liftR_simps [simp, result_simps]:
  "liftR (Inr x) s = Inr (x, s)"
  "liftR (Inl e) s = Inl e"
  by (simp_all add: liftR_def)

lemma bindM_eq_Inr:
  "bindM m f s = Inr z \<longleftrightarrow> (\<exists>x t. m s = Inr (x, t) \<and> f x t = Inr z)"
  by (auto simp: bindM_def split: sum.splits)

lemma liftR_eq_Inr: "liftR m s = Inr (x, t) \<longleftrightarrow> m = Inr x \<and> t = s"
  by (cases m) auto

lemma failM_not_Inr [simp]: "failM e s \<noteq> Inr z"
  by simp

lemmas stm_elims = bindM_eq_Inr liftR_eq_Inr

lemma repeatM_length: "repeatM n m s = Inr (xs, t) \<Longrightarrow> length xs = n"
  by (induction n arbitrary: s xs t) (auto simp: bindM_eq_Inr)

text \<open>A property that every decoded element has and that does not depend on the state.\<close>

lemma repeatM_all:
  assumes "repeatM n m s = Inr (xs, t)"
    and "\<And>s x t. m s = Inr (x, t) \<Longrightarrow> P x"
  shows "\<forall>x \<in> set xs. P x"
  using assms(1) by (induction n arbitrary: s xs t) (auto simp: bindM_eq_Inr dest: assms(2))

subsection \<open>Optional results: sequencing over a list\<close>

fun traverse :: "('a \<Rightarrow> 'b option) \<Rightarrow> 'a list \<Rightarrow> 'b list option" where
  "traverse f [] = Some []"
| "traverse f (x # xs) = do { y \<leftarrow> f x; ys \<leftarrow> traverse f xs; Some (y # ys) }"

lemma traverse_total: "(\<And>x. x \<in> set xs \<Longrightarrow> \<exists>y. f x = Some y) \<Longrightarrow> \<exists>ys. traverse f xs = Some ys"
  by (induction xs) fastforce+

lemma traverse_SomeD: "traverse f xs = Some ys \<Longrightarrow> list_all2 (\<lambda>x y. f x = Some y) xs ys"
  by (induction xs arbitrary: ys) (auto split: bind_splits)

lemma traverse_cong [fundef_cong]:
  "xs = ys \<Longrightarrow> (\<And>x. x \<in> set ys \<Longrightarrow> f x = g x) \<Longrightarrow> traverse f xs = traverse g ys"
  by (induction ys arbitrary: xs) auto

subsection \<open>Sorting by a key\<close>

lemma map_insort_key:
  "(\<And>x. f (g x) = f x) \<Longrightarrow> map g (insort_key f x xs) = insort_key f (g x) (map g xs)"
  by (induction xs) auto

lemma map_sort_key: "(\<And>x. f (g x) = f x) \<Longrightarrow> map g (sort_key f xs) = sort_key f (map g xs)"
  by (induction xs) (auto simp: map_insort_key)

lemma size_list_insort_key: "size_list f (insort_key g x xs) = Suc (f x + size_list f xs)"
  by (induction xs) auto

lemma size_list_sort_key [simp]: "size_list f (sort_key g xs) = size_list f xs"
  by (induction xs) (auto simp: size_list_insort_key)

subsection \<open>Words\<close>

lemma unat_of_nat_u64 [simp]: "n < 2 ^ 64 \<Longrightarrow> unat (of_nat n :: u64) = n"
  by (simp add: unat_of_nat)

lemma unat_less_u64: "unat (v :: u64) < 2 ^ 64"
  using unsigned_less [of v] by simp

end
