(* ===== verification/Varint.thy ===== *)
theory Varint
  imports Prelude
begin

text \<open>
  \<^verbatim>\<open>src/ir/compact/v2/varint.rs\<close>: ULEB128 and zigzag.  The writers return the bytes they
  append to the sink.  The readers are generic over \<open>R: Read\<close> in the source; the model passes
  the trait's \<open>read\<close> method as an argument \<open>rd\<close>, and \<open>read_exact\<close> is the standard library's
  default method over it.  The locale \<open>byte_source\<close> is the contract of \<open>Read\<close> the decoders rely on.
\<close>

datatype io_error =
    UnexpectedEof
  | InvalidData string

type_synonym 'r read = "'r \<Rightarrow> usize \<Rightarrow> io_error + (u8 list \<times> 'r)"

text \<open>\<open>std::io::Read::read_exact\<close>: call \<open>read\<close> until the buffer is full; an empty read is EOF.\<close>

function read_exact :: "'r read \<Rightarrow> usize \<Rightarrow> ('r, io_error, u8 list) stm" where
  "read_exact rd n r =
     (if n = 0 then Inr ([], r)
      else case rd r n of
        Inl e \<Rightarrow> Inl e
      | Inr (bs, r') \<Rightarrow>
          (if bs = [] then Inl UnexpectedEof
           else rbind (read_exact rd (n - length bs) r') (\<lambda>(cs, r''). Inr (bs @ cs, r''))))"
  by pat_completeness auto
termination
  by (relation "measure (\<lambda>(rd, n, r). n)") auto

declare read_exact.simps [simp del]

lemma read_exact_0 [simp]: "read_exact rd 0 r = Inr ([], r)"
  by (simp add: read_exact.simps)

definition read_u8 :: "'r read \<Rightarrow> ('r, io_error, u8) stm" where
  "read_u8 rd = bindM (read_exact rd 1) (\<lambda>buf. returnM (hd buf))"

subsection \<open>ULEB128\<close>

definition MAX_ULEB128_BYTES :: usize where
  "MAX_ULEB128_BYTES = 10"

lemma unat_drop_bit_less: "drop_bit 7 v \<noteq> (0::u64) \<Longrightarrow> unat (drop_bit 7 v) < unat v"
proof -
  assume "drop_bit 7 v \<noteq> 0"
  then have "v \<noteq> 0" by auto
  then have "0 < unat v" by (simp add: unat_gt_0)
  then show ?thesis by (simp add: drop_bit_eq_div unat_div)
qed

function uleb128_write :: "u64 \<Rightarrow> u8 list" where
  "uleb128_write value =
     (let byte = ucast (value AND 0x7F) :: u8;
          value' = drop_bit 7 value
      in (if value' \<noteq> 0 then byte OR 0x80 else byte)
         # (if value' = 0 then [] else uleb128_write value'))"
  by pat_completeness auto
termination
  by (relation "measure unat") (simp_all add: unat_drop_bit_less)

declare uleb128_write.simps [simp del]

fun uleb128_read_loop :: "'r read \<Rightarrow> nat \<Rightarrow> u64 \<Rightarrow> nat \<Rightarrow> ('r, io_error, u64) stm" where
  "uleb128_read_loop rd 0 result shift = failM (InvalidData ''ULEB128 too long (> 10 bytes)'')"
| "uleb128_read_loop rd (Suc i) result shift =
     bindM (read_u8 rd) (\<lambda>byte.
       let value = ucast (byte AND 0x7F) :: u64 in
       if shift \<ge> 64 \<or> (shift = 63 \<and> value > 1)
       then failM (InvalidData ''ULEB128 overflow'')
       else let result' = result OR push_bit shift value in
         if byte AND 0x80 = 0 then returnM result'
         else uleb128_read_loop rd i result' (shift + 7))"

definition uleb128_read :: "'r read \<Rightarrow> ('r, io_error, u64) stm" where
  "uleb128_read rd = uleb128_read_loop rd MAX_ULEB128_BYTES 0 0"

text \<open>The loop of the minimal reader also carries the iteration index \<open>i\<close>.\<close>

fun uleb128_read_minimal_loop ::
  "'r read \<Rightarrow> nat \<Rightarrow> nat \<Rightarrow> u64 \<Rightarrow> nat \<Rightarrow> ('r, io_error, u64) stm" where
  "uleb128_read_minimal_loop rd 0 i result shift =
     failM (InvalidData ''ULEB128 too long (> 10 bytes)'')"
| "uleb128_read_minimal_loop rd (Suc k) i result shift =
     bindM (read_u8 rd) (\<lambda>byte.
       let value = ucast (byte AND 0x7F) :: u64 in
       if shift \<ge> 64 \<or> (shift = 63 \<and> value > 1)
       then failM (InvalidData ''ULEB128 overflow'')
       else let result' = result OR push_bit shift value in
         if byte AND 0x80 = 0
         then (if byte = 0 \<and> i > 0
               then failM (InvalidData ''ULEB128 non-minimal (zero-padded) encoding'')
               else returnM result')
         else uleb128_read_minimal_loop rd k (Suc i) result' (shift + 7))"

definition uleb128_read_minimal :: "'r read \<Rightarrow> ('r, io_error, u64) stm" where
  "uleb128_read_minimal rd = uleb128_read_minimal_loop rd MAX_ULEB128_BYTES 0 0 0"

function uleb128_size :: "u64 \<Rightarrow> usize" where
  "uleb128_size value =
     (let value' = drop_bit 7 value in if value' = 0 then 1 else 1 + uleb128_size value')"
  by pat_completeness auto
termination
  by (relation "measure unat") (simp_all add: unat_drop_bit_less)

declare uleb128_size.simps [simp del]

subsection \<open>Zigzag\<close>

definition zigzag_encode :: "i64 \<Rightarrow> u64" where
  "zigzag_encode value = push_bit 1 value XOR signed_drop_bit 63 value"

definition zigzag_decode :: "u64 \<Rightarrow> i64" where
  "zigzag_decode encoded = drop_bit 1 encoded XOR (- (encoded AND 1))"

definition sleb128_write :: "i64 \<Rightarrow> u8 list" where
  "sleb128_write value = uleb128_write (zigzag_encode value)"

definition sleb128_read :: "'r read \<Rightarrow> ('r, io_error, i64) stm" where
  "sleb128_read rd = bindM (uleb128_read rd) (\<lambda>v. returnM (zigzag_decode v))"

subsection \<open>Bit-level facts of the 7-bit groups\<close>

lemma bit_7F: "bit (0x7F :: int) n \<longleftrightarrow> n < 7"
proof -
  have "bit (mask 7 :: int) n \<longleftrightarrow> n < 7" by (simp only: bit_mask_iff possible_bit_int) simp
  then show ?thesis by (simp add: mask_eq_exp_minus_1)
qed

lemma bit_80: "bit (0x80 :: int) n \<longleftrightarrow> n = 7"
proof -
  have "bit (2 ^ 7 :: int) n \<longleftrightarrow> n = 7" by (auto simp only: bit_exp_iff possible_bit_int)
  then show ?thesis by simp
qed

lemmas group_bits = bit_simps bit_7F bit_80 not_less

lemma group_split: "take_bit 7 v OR push_bit 7 (drop_bit 7 v) = (v :: u64)"
proof (rule bit_word_eqI)
  fix n assume "n < LENGTH(64)"
  then show "bit (take_bit 7 v OR push_bit 7 (drop_bit 7 v)) n = bit v n"
    by (cases "n < 7") (auto simp: group_bits)
qed

lemma and_7F_u64: "v AND 0x7F = take_bit 7 (v :: u64)"
  by (rule bit_word_eqI) (auto simp: group_bits)

lemma payload_last: "ucast ((ucast (take_bit 7 v) :: u8) AND 0x7F) = take_bit 7 (v :: u64)"
  by (rule bit_word_eqI) (auto simp: group_bits)

lemma payload_more: "ucast (((ucast (take_bit 7 v) :: u8) OR 0x80) AND 0x7F) = take_bit 7 (v :: u64)"
  by (rule bit_word_eqI) (auto simp: group_bits)

lemma flag_last: "(ucast (take_bit 7 (v :: u64)) :: u8) AND 0x80 = 0"
  by (rule bit_word_eqI) (auto simp: group_bits)

lemma flag_more: "((b :: u8) OR 0x80) AND 0x80 \<noteq> 0"
proof -
  have "bit ((b OR 0x80) AND 0x80) 7" by (simp add: group_bits)
  then show ?thesis by auto
qed

lemma byte_terminal: "b AND 0x80 = 0 \<Longrightarrow> ucast (take_bit 7 (ucast b :: u64)) = (b :: u8)"
proof (rule bit_word_eqI)
  fix n assume "b AND 0x80 = 0" and n: "n < LENGTH(8)"
  then have "\<not> bit (b AND 0x80) 7" by simp
  then have "\<not> bit b 7" by (simp add: group_bits)
  with n show "bit (ucast (take_bit 7 (ucast b :: u64)) :: u8) n = bit b n"
    by (cases "n = 7") (auto simp: group_bits)
qed

lemma byte_continued: "b AND 0x80 \<noteq> 0 \<Longrightarrow> ucast (take_bit 7 (ucast b :: u64)) OR 0x80 = (b :: u8)"
proof (rule bit_word_eqI)
  fix n assume nz: "b AND 0x80 \<noteq> 0" and n: "n < LENGTH(8)"
  have "bit b 7"
  proof (rule ccontr)
    assume "\<not> bit b 7"
    then have "b AND 0x80 = 0" by (intro bit_word_eqI) (auto simp: group_bits)
    with nz show False by simp
  qed
  with n show "bit (ucast (take_bit 7 (ucast b :: u64)) OR 0x80 :: u8) n = bit b n"
    by (cases "n = 7") (auto simp: group_bits)
qed

lemma payload_u8: "ucast ((b :: u8) AND 0x7F) = take_bit 7 (ucast b :: u64)"
  by (rule bit_word_eqI) (auto simp: group_bits)

text \<open>
  The bits of \<open>v\<close> below position \<open>64 - s\<close> are the ones that survive \<open>push_bit s\<close>; the write
  loop's remaining value always fits.
\<close>

lemma push_group: "push_bit s (take_bit 7 v) OR push_bit (s + 7) (drop_bit 7 v) = push_bit s (v :: u64)"
proof -
  have "push_bit s (take_bit 7 v) OR push_bit (s + 7) (drop_bit 7 v)
      = push_bit s (take_bit 7 v OR push_bit 7 (drop_bit 7 v))"
    by (simp add: push_bit_or add.commute)
  then show ?thesis by (simp add: group_split)
qed

lemma group_join_take: "take_bit 7 (take_bit 7 t OR push_bit 7 w) = take_bit 7 (t :: u64)"
  by (rule bit_word_eqI) (auto simp: group_bits)

lemma group_join_drop:
  assumes "unat w < 2 ^ 57"
  shows "drop_bit 7 (take_bit 7 t OR push_bit 7 w) = (w :: u64)"
proof -
  have "take_bit 57 w = w"
    using assms by (simp add: word_unat_eq_iff take_bit_eq_mod unat_mod)
  then have "bit w n \<Longrightarrow> n < 57" for n by (metis bit_take_bit_iff)
  then show ?thesis by (intro bit_word_eqI) (auto simp: group_bits)
qed

lemma unat_group_less:
  assumes "unat (drop_bit 7 v) < 2 ^ m" shows "unat (v :: u64) < 2 ^ (m + 7)"
proof -
  have "unat v div 128 < 2 ^ m" using assms by (simp add: drop_bit_eq_div unat_div)
  then have "unat v < 2 ^ m * 128" by (simp add: div_less_iff_less_mult)
  then show ?thesis by (simp add: power_add)
qed

subsection \<open>What a decoder does on the bytes of an encoder\<close>

text \<open>
  \<open>decodes pd gd m bs c x\<close>: started in a state whose pending input begins with \<open>bs\<close> and which
  has \<open>c\<close> units of budget to spare, \<open>m\<close> returns \<open>x\<close> and consumes exactly \<open>bs\<close> and those units.
  The law composes along \<^const>\<open>bindM\<close>, which is how every codec below is verified.
\<close>

definition decodes ::
  "('s \<Rightarrow> u8 list) \<Rightarrow> (nat \<Rightarrow> 's \<Rightarrow> bool) \<Rightarrow> ('s, 'e, 'a) stm \<Rightarrow> u8 list \<Rightarrow> nat \<Rightarrow> 'a \<Rightarrow> bool" where
  "decodes pd gd m bs c x \<longleftrightarrow>
     (\<forall>s rest c'. gd (c + c') s \<and> pd s = bs @ rest \<longrightarrow>
        (\<exists>t. m s = Inr (x, t) \<and> gd c' t \<and> pd t = rest))"

lemma decodesI:
  assumes "\<And>s rest c'. gd (c + c') s \<Longrightarrow> pd s = bs @ rest \<Longrightarrow>
    \<exists>t. m s = Inr (x, t) \<and> gd c' t \<and> pd t = rest"
  shows "decodes pd gd m bs c x"
  using assms by (auto simp: decodes_def)

lemma decodesD:
  assumes "decodes pd gd m bs c x" "gd (c + c') s" "pd s = bs @ rest"
  obtains t where "m s = Inr (x, t)" "gd c' t" "pd t = rest"
  using assms unfolding decodes_def by blast

lemma decodes_returnM [codec_laws]: "decodes pd gd (returnM x) [] 0 x"
  by (rule decodesI) auto

lemma decodes_bindM:
  assumes "decodes pd gd m bs c x" "decodes pd gd (f x) bs' c' y"
  shows "decodes pd gd (bindM m f) (bs @ bs') (c + c') y"
proof (rule decodesI)
  fix s rest d assume g: "gd (c + c' + d) s" and p: "pd s = (bs @ bs') @ rest"
  obtain t where t: "m s = Inr (x, t)" "gd (c' + d) t" "pd t = bs' @ rest"
    using decodesD [OF assms(1), of "c' + d" s "bs' @ rest"] g p by (auto simp: add.assoc)
  obtain u where "f x t = Inr (y, u)" "gd d u" "pd u = rest"
    using decodesD [OF assms(2) t(2,3)] by blast
  with t(1) show "\<exists>t. bindM m f s = Inr (y, t) \<and> gd d t \<and> pd t = rest" by simp
qed

lemma decodes_bindI:
  assumes "decodes pd gd m bsa ca x" "decodes pd gd (f x) bsb cb y"
    and "bs = bsa @ bsb" "c = ca + cb"
  shows "decodes pd gd (bindM m f) bs c y"
  using decodes_bindM [of pd gd m bsa ca x f bsb cb y] assms by simp

lemma decodes_map: "decodes pd gd m bs c x \<Longrightarrow> decodes pd gd (bindM m (\<lambda>x. returnM (h x))) bs c (h x)"
  using decodes_bindM [of pd gd m bs c x "\<lambda>x. returnM (h x)" "[]" 0] by (simp add: decodes_returnM)

lemma decodes_repeatM:
  assumes "list_all2 (\<lambda>x bs. decodes pd gd m bs (cost x) x) xs bss"
  shows "decodes pd gd (repeatM (length xs) m) (concat bss) (sum_list (map cost xs)) xs"
  using assms
proof (induction xs bss rule: list_all2_induct)
  case Nil
  show ?case by (auto intro: decodesI)
next
  case (Cons x xs bs bss)
  show ?case unfolding length_Cons repeatM.simps
    by (rule decodes_bindI, rule Cons(1), rule decodes_map, rule Cons(3)) simp_all
qed

subsection \<open>The contract of \<open>Read\<close>\<close>

locale byte_source =
  fixes rd :: "'r read"
    and pending :: "'r \<Rightarrow> u8 list"
    and good :: "'r \<Rightarrow> bool"
  assumes rd_some: "good r \<Longrightarrow> 0 < n \<Longrightarrow> pending r \<noteq> [] \<Longrightarrow>
      \<exists>bs r'. rd r n = Inr (bs, r') \<and> bs \<noteq> [] \<and> length bs \<le> n \<and> pending r = bs @ pending r' \<and> good r'"
    and rd_none: "good r \<Longrightarrow> 0 < n \<Longrightarrow> pending r = [] \<Longrightarrow> \<exists>r'. rd r n = Inr ([], r')"
begin

lemma read_exact_ok:
  "good r \<Longrightarrow> n \<le> length (pending r) \<Longrightarrow>
     \<exists>r'. read_exact rd n r = Inr (take n (pending r), r') \<and> pending r' = drop n (pending r) \<and> good r'"
proof (induction n arbitrary: r rule: less_induct)
  case (less n)
  show ?case
  proof (cases "n = 0")
    case True
    with less.prems show ?thesis by (simp add: read_exact.simps [of rd n r])
  next
    case False
    with less.prems obtain bs r1 where r1: "rd r n = Inr (bs, r1)" "bs \<noteq> []" "length bs \<le> n"
      "pending r = bs @ pending r1" "good r1"
      using rd_some [of r n] by fastforce
    have "n - length bs < n" using r1(2) False by simp
    moreover have "n - length bs \<le> length (pending r1)" using less.prems(2) r1(4) by simp
    ultimately obtain r2 where
      "read_exact rd (n - length bs) r1 = Inr (take (n - length bs) (pending r1), r2)"
      "pending r2 = drop (n - length bs) (pending r1)" "good r2"
      using less.IH [OF _ r1(5)] by blast
    with r1 False show ?thesis by (simp add: read_exact.simps [of rd n r])
  qed
qed

lemma read_exact_eof:
  "good r \<Longrightarrow> length (pending r) < n \<Longrightarrow> read_exact rd n r = Inl UnexpectedEof"
proof (induction n arbitrary: r rule: less_induct)
  case (less n)
  then have n: "0 < n" by auto
  show ?case
  proof (cases "pending r = []")
    case True
    with rd_none [OF less.prems(1) n True] n show ?thesis
      by (auto simp: read_exact.simps [of rd n r])
  next
    case False
    obtain bs r1 where r1: "rd r n = Inr (bs, r1)" "bs \<noteq> []" "length bs \<le> n"
      "pending r = bs @ pending r1" "good r1"
      using rd_some [OF less.prems(1) n False] by blast
    have "read_exact rd (n - length bs) r1 = Inl UnexpectedEof"
      using less.IH [of "n - length bs" r1] r1 less.prems(2) n by auto
    with r1 n show ?thesis by (simp add: read_exact.simps [of rd n r])
  qed
qed

lemma decodes_read_exact: "decodes pending (\<lambda>_. good) (read_exact rd (length bs)) bs 0 bs"
proof (rule decodesI)
  fix r rest assume "good r" "pending r = bs @ rest"
  then show "\<exists>t. read_exact rd (length bs) r = Inr (bs, t) \<and> good t \<and> pending t = rest"
    using read_exact_ok [of r "length bs"] by auto
qed

lemma decodes_read_u8: "decodes pending (\<lambda>_. good) (read_u8 rd) [b] 0 b"
  using decodes_map [OF decodes_read_exact [of "[b]"], of hd] by (simp add: read_u8_def)

lemma read_u8_inv:
  assumes "good r" "read_u8 rd r = Inr (b, r')"
  shows "pending r = b # pending r' \<and> good r'"
proof (cases "pending r")
  case Nil
  then have "read_exact rd 1 r = Inl UnexpectedEof" using assms(1) by (simp add: read_exact_eof)
  with assms(2) show ?thesis by (simp add: read_u8_def)
next
  case (Cons c cs)
  then obtain t where "read_u8 rd r = Inr (c, t)" "good t" "pending t = cs"
    using decodes_read_u8 [of c] assms(1) unfolding decodes_def by auto
  with Cons assms(2) show ?thesis by simp
qed

lemma minimal_loop_law:
  assumes "k + i = 10" "0 < k" "unat v < 2 ^ (64 - 7 * i)" "0 < i \<longrightarrow> v \<noteq> 0"
  shows "decodes pending (\<lambda>_. good) (uleb128_read_minimal_loop rd k i res (7 * i)) (uleb128_write v) 0
    (res OR push_bit (7 * i) v)"
  using assms
proof (induction k arbitrary: v res i)
  case 0
  then show ?case by simp
next
  case (Suc k)
  let ?b = "ucast (take_bit 7 v) :: u8" and ?v' = "drop_bit 7 v"
  have i: "i \<le> 9" using Suc.prems(1) by simp
  have ov: "\<not> (7 * i \<ge> 64 \<or> 7 * i = 63 \<and> take_bit 7 v > 1)"
    using Suc.prems(3) i by (cases "i = 9") (auto simp: word_less_nat_alt take_bit_eq_mod unat_mod)
  show ?case
  proof (cases "?v' = 0")
    case True
    then have e: "res OR push_bit (7 * i) v = res OR push_bit (7 * i) (take_bit 7 v)"
      using group_split [of v] by simp
    have nz: "\<not> (?b = 0 \<and> 0 < i)"
      using Suc.prems(4) payload_last [of v] group_split [of v] True by auto
    from True have w: "uleb128_write v = [?b]" by (simp add: uleb128_write.simps [of v] and_7F_u64)
    show ?thesis unfolding w e uleb128_read_minimal_loop.simps
      by (rule decodes_bindI [OF decodes_read_u8, where bsb = "[]" and cb = 0])
        (use ov nz in \<open>auto simp: payload_last flag_last Let_def intro: decodesI\<close>)
  next
    case False
    let ?c = "?b OR 0x80" and ?r = "res OR push_bit (7 * i) (take_bit 7 v)"
    have w: "uleb128_write v = ?c # uleb128_write ?v'"
      using False by (simp add: uleb128_write.simps [of v] and_7F_u64)
    have "128 \<le> unat v"
      using False by (simp add: drop_bit_eq_div unat_div unat_0_iff [symmetric] del: unat_0_iff)
    then have "\<not> 64 - 7 * i \<le> 7"
      using Suc.prems(3) power_increasing [of "64 - 7 * i" 7 "2::nat"] by auto
    then have "7 < 64 - 7 * i" by simp
    have k: "0 < k" "k + Suc i = 10" using \<open>7 < 64 - 7 * i\<close> Suc.prems(1) by auto
    have "unat ?v' < 2 ^ (64 - 7 * Suc i)"
    proof -
      have "unat v < 2 ^ (64 - 7 * Suc i) * 128"
        using Suc.prems(3) \<open>7 < 64 - 7 * i\<close> power_add [of "2::nat" "64 - 7 * Suc i" 7] by simp
      then show ?thesis by (simp add: drop_bit_eq_div unat_div less_mult_imp_div_less)
    qed
    from Suc.IH [OF k(2,1) this, of ?r] False
    have ih: "decodes pending (\<lambda>_. good) (uleb128_read_minimal_loop rd k (Suc i) ?r (7 * i + 7)) (uleb128_write ?v') 0
        (res OR push_bit (7 * i) v)"
      using push_group [of "7 * i" v] by (simp add: or.assoc add.commute)
    show ?thesis unfolding w uleb128_read_minimal_loop.simps
      by (rule decodes_bindI [OF decodes_read_u8, where bsb = "uleb128_write ?v'" and cb = 0])
        (use ih ov in \<open>auto simp: payload_more flag_more Let_def\<close>)
  qed
qed

lemma minimal_loop_accepts:
  "uleb128_read_minimal_loop rd k i res sh r = Inr z \<Longrightarrow> uleb128_read_loop rd k res sh r = Inr z"
  by (induction k arbitrary: i res sh r) (auto simp: bindM_eq_Inr Let_def split: if_splits)

lemma decodes_uleb128_read_minimal:
  "decodes pending (\<lambda>_. good) (uleb128_read_minimal rd) (uleb128_write v) 0 v"
  using minimal_loop_law [of 10 0 v 0] unat_less_u64 [of v]
  by (simp add: uleb128_read_minimal_def MAX_ULEB128_BYTES_def)

lemma decodes_uleb128_read: "decodes pending (\<lambda>_. good) (uleb128_read rd) (uleb128_write v) 0 v"
proof (rule decodesI)
  fix r rest assume "good r" "pending r = uleb128_write v @ rest"
  then obtain t where "uleb128_read_minimal rd r = Inr (v, t)" "good t" "pending t = rest"
    using decodes_uleb128_read_minimal unfolding decodes_def by blast
  then show "\<exists>t. uleb128_read rd r = Inr (v, t) \<and> good t \<and> pending t = rest"
    unfolding uleb128_read_def uleb128_read_minimal_def by (blast dest: minimal_loop_accepts)
qed

lemma minimal_loop_inv:
  assumes "k + i = 10" "good r"
    and "uleb128_read_minimal_loop rd k i res (7 * i) r = Inr (v, r')"
  shows "\<exists>w. v = res OR push_bit (7 * i) w \<and> pending r = uleb128_write w @ pending r' \<and> good r'
    \<and> (0 < i \<longrightarrow> w \<noteq> 0) \<and> unat w < 2 ^ (64 - 7 * i)"
  using assms
proof (induction k arbitrary: i res r)
  case 0
  then show ?case by simp
next
  case (Suc k)
  have i: "i \<le> 9" using Suc.prems(1) by simp
  obtain b r1 where b: "read_u8 rd r = Inr (b, r1)"
    using Suc.prems(3) by (auto simp: bindM_eq_Inr)
  then have p: "pending r = b # pending r1" and g: "good r1"
    using read_u8_inv [OF Suc.prems(2)] by auto
  let ?t = "take_bit 7 (ucast b) :: u64" and ?r = "res OR push_bit (7 * i) (take_bit 7 (ucast b))"
  have ov: "\<not> (7 * i = 63 \<and> ?t > 1)"
    using Suc.prems(3) b by (auto simp: payload_u8 Let_def)
  have t: "unat ?t < 2 ^ (64 - 7 * i)"
  proof (cases "i = 9")
    case True
    with ov show ?thesis by (simp add: word_less_nat_alt)
  next
    case False
    with i have "unat ?t < 2 ^ 7" "7 \<le> 64 - 7 * i"
      by (simp_all add: take_bit_eq_mod unat_mod)
    then show ?thesis by (meson less_le_trans one_le_numeral power_increasing)
  qed
  show ?case
  proof (cases "b AND 0x80 = 0")
    case True
    with Suc.prems(3) b ov have v: "v = ?r" "r' = r1" "\<not> (b = 0 \<and> 0 < i)"
      by (auto simp: payload_u8 Let_def split: if_splits)
    have "uleb128_write ?t = [b]"
      using byte_terminal [OF True] by (simp add: uleb128_write.simps [of ?t] and_7F_u64 drop_bit_take_bit)
    moreover have "0 < i \<longrightarrow> ?t \<noteq> 0" using v(3) byte_terminal [OF True] by auto
    ultimately show ?thesis using v p g t by auto
  next
    case False
    with Suc.prems(3) b ov i have "uleb128_read_minimal_loop rd k (Suc i) ?r (7 * Suc i) r1 = Inr (v, r')"
      by (auto simp: payload_u8 Let_def add.commute split: if_splits)
    from Suc.IH [OF _ g this] Suc.prems(1) obtain w where w: "v = ?r OR push_bit (7 * Suc i) w"
      "pending r1 = uleb128_write w @ pending r'" "good r'" "w \<noteq> 0" "unat w < 2 ^ (64 - 7 * Suc i)"
      by auto
    let ?w = "?t OR push_bit 7 w"
    have "i \<noteq> 9" using w(4,5) by (auto simp: unat_0_iff)
    with i have i8: "64 - 7 * i = (64 - 7 * Suc i) + 7" by simp
    have "unat w < 2 ^ 57" using w(5) power_increasing [of "57 - 7 * i" 57 "2::nat"] by simp
    then have d: "drop_bit 7 ?w = w" and tk: "take_bit 7 ?w = ?t"
      using group_join_drop [of w "ucast b"] group_join_take [of "ucast b" w] by simp_all
    have "uleb128_write ?w = b # uleb128_write w"
      using byte_continued [OF False] d tk w(4)
      by (simp add: uleb128_write.simps [of ?w] and_7F_u64)
    moreover have "v = res OR push_bit (7 * i) ?w"
      using w(1) by (simp add: push_bit_or or.assoc add.commute)
    moreover have "unat ?w < 2 ^ (64 - 7 * i)"
      unfolding i8 by (rule unat_group_less) (use d w(5) in simp)
    moreover have "?w \<noteq> 0" using d w(4) by (metis drop_bit_of_0)
    ultimately show ?thesis using p w(2,3) by (intro exI [of _ ?w]) simp
  qed
qed

lemma minimal_canonical:
  assumes "good r" "uleb128_read_minimal rd r = Inr (v, r')"
  shows "pending r = uleb128_write v @ pending r' \<and> good r'"
  using minimal_loop_inv [of 10 0 r 0 v r'] assms
  by (auto simp: uleb128_read_minimal_def MAX_ULEB128_BYTES_def)

end

subsection \<open>Sizes and zigzag\<close>

lemma uleb128_write_nonempty [simp]: "uleb128_write v \<noteq> []"
  by (simp add: uleb128_write.simps [of v] Let_def)

lemma length_uleb128_write: "length (uleb128_write v) = uleb128_size v"
proof (induction v rule: uleb128_size.induct)
  case (1 v)
  then show ?case by (simp add: uleb128_write.simps [of v] uleb128_size.simps [of v] Let_def)
qed

lemma unat_drop_7: "unat (drop_bit 7 (v :: u64)) = unat v div 128"
  by (simp add: drop_bit_eq_div unat_div)

lemma length_uleb128_write_le: "unat v < 128 ^ Suc k \<Longrightarrow> length (uleb128_write v) \<le> Suc k"
proof (induction k arbitrary: v)
  case 0
  then have "unat (drop_bit 7 v) = 0" by (simp only: unat_drop_7) simp
  then have "drop_bit 7 v = 0" by (simp only: unat_0_iff)
  then show ?case by (simp add: uleb128_write.simps [of v])
next
  case (Suc k)
  then have "unat (drop_bit 7 v) < 128 ^ Suc k"
    by (simp only: unat_drop_7) (simp add: less_mult_imp_div_less mult.commute)
  from Suc.IH [OF this] show ?case by (simp add: uleb128_write.simps [of v] Let_def)
qed

lemma neg_low_bit: "- (u AND 1) = (if bit u 0 then - 1 else (0 :: u64))"
  by (cases "odd u") (simp_all add: and_one_eq bit_0 odd_iff_mod_2_eq_one even_iff_mod_2_eq_zero)

lemma bit_zigzag_encode:
  "bit (zigzag_encode v) n \<longleftrightarrow> n < 64 \<and> ((0 < n \<and> bit v (n - 1)) \<noteq> bit v 63)"
  by (simp only: zigzag_encode_def bit_xor_iff bit_push_bit_iff bit_signed_drop_bit_iff possible_bit_word)
    (cases n; auto dest: bit_imp_le_length)

lemma bit_zigzag_decode: "bit (zigzag_decode u) n \<longleftrightarrow> n < 64 \<and> (bit u (Suc n) \<noteq> bit u 0)"
  by (simp only: zigzag_decode_def bit_xor_iff neg_low_bit bit_drop_bit_eq)
    (auto simp: bit_simps dest: bit_imp_le_length)

lemma zigzag_decode_encode: "zigzag_decode (zigzag_encode v) = v"
proof (rule bit_word_eqI)
  fix n assume "n < LENGTH(64)"
  then show "bit (zigzag_decode (zigzag_encode v)) n = bit v n"
    by (cases "n = 63") (auto simp: bit_zigzag_decode bit_zigzag_encode)
qed

lemma zigzag_encode_decode: "zigzag_encode (zigzag_decode u) = u"
proof (rule bit_word_eqI)
  fix n assume "n < LENGTH(64)"
  moreover have "\<not> bit u 64" by (auto dest: bit_imp_le_length)
  ultimately show "bit (zigzag_encode (zigzag_decode u)) n = bit u n"
    by (cases n) (auto simp: bit_zigzag_decode bit_zigzag_encode)
qed

lemma uint_zigzag_encode:
  "uint (zigzag_encode v) = (if 0 \<le> sint v then 2 * sint v else - 2 * sint v - 1)"
proof (cases "0 \<le> sint v")
  case True
  then have "\<not> bit v 63" using bit_last_iff [of v] by simp
  then have "zigzag_encode v = push_bit 1 v"
    by (intro bit_word_eqI) (auto simp: bit_zigzag_encode bit_push_bit_iff possible_bit_word
        simp del: push_bit_Suc)
  then have "zigzag_encode v = word_of_int (2 * sint v)" by (simp add: push_bit_eq_mult)
  then have "uint (zigzag_encode v) = (2 * sint v) mod 2 ^ 64" by (simp only: uint_word_of_int) simp
  with True sint_lt [of v] show ?thesis by simp
next
  case False
  then have "bit v 63" using bit_last_iff [of v] by simp
  then have "zigzag_encode v = NOT (push_bit 1 v)"
    by (intro bit_word_eqI) (auto simp: bit_zigzag_encode bit_push_bit_iff bit_not_iff possible_bit_word
        simp del: push_bit_Suc)
  then have "zigzag_encode v = word_of_int (- 2 * sint v - 1)"
    by (simp add: push_bit_eq_mult not_eq_complement)
  then have "uint (zigzag_encode v) = (- 2 * sint v - 1) mod 2 ^ 64"
    by (simp only: uint_word_of_int) simp
  with False sint_ge [of v] show ?thesis by simp
qed

context byte_source
begin

lemma decodes_sleb128_read: "decodes pending (\<lambda>_. good) (sleb128_read rd) (sleb128_write v) 0 v"
  using decodes_map [OF decodes_uleb128_read [of "zigzag_encode v"], of zigzag_decode]
  by (simp add: sleb128_read_def sleb128_write_def zigzag_decode_encode)

end

subsection \<open>Reading from a byte slice\<close>

text \<open>\<open>impl Read for &[u8]\<close>: hand over as many bytes as fit and keep the rest.\<close>

definition slice_read :: "u8 list read" where
  "slice_read r n = Inr (take n r, drop n r)"

interpretation slice: byte_source slice_read "\<lambda>r. r" "\<lambda>_. True"
  by unfold_locales (auto simp: slice_read_def)

end
