(* ===== verification/Rust_Text.thy ===== *)
theory Rust_Text
  imports Prelude "HOL-Library.List_Lexorder"
begin

text \<open>
  The parts of Rust's string library the source uses.  A Rust \<open>String\<close> is its UTF-8 byte
  sequence; the model is a HOL \<open>string\<close> (a list of 8-bit characters) holding those bytes, so
  \<open>len()\<close> is the list's length.  Decimal printing and parsing of \<open>usize\<close> and \<open>i64\<close> are here
  because both the text format and the operation codes use them.
\<close>

definition as_bytes :: "string \<Rightarrow> u8 list" where
  "as_bytes s = map (\<lambda>c. of_nat (of_char c)) s"

definition string_of_bytes :: "u8 list \<Rightarrow> string" where
  "string_of_bytes bs = map (\<lambda>b. char_of (unat b)) bs"

lemma length_as_bytes [simp]: "length (as_bytes s) = length s"
  by (simp add: as_bytes_def)

lemma unat_of_char [simp]: "unat (of_nat (of_char c) :: u8) = of_char c"
  by (simp add: unat_of_nat)

lemma string_of_as_bytes [simp]: "string_of_bytes (as_bytes s) = s"
  by (simp add: as_bytes_def string_of_bytes_def map_idI)

lemma as_bytes_of_string [simp]: "as_bytes (string_of_bytes bs) = bs"
proof -
  have "unat b < 2 ^ LENGTH(8)" for b :: u8 by (rule unsigned_less)
  then have "unat b mod 256 = unat b" for b :: u8 by simp
  then have "of_nat (of_char (char_of (unat b) :: char)) = b" for b :: u8
    by simp
  then show ?thesis by (simp add: as_bytes_def string_of_bytes_def map_idI)
qed

lemma as_bytes_inj [simp]: "as_bytes s = as_bytes t \<longleftrightarrow> s = t"
  by (metis string_of_as_bytes)

subsection \<open>UTF-8 validity: what \<open>String::from_utf8\<close> accepts\<close>

definition cont_byte :: "u8 \<Rightarrow> bool" where
  "cont_byte b \<longleftrightarrow> 0x80 \<le> b \<and> b \<le> 0xBF"

text \<open>
  The well-formed byte sequences of the Unicode standard (table 3-7): no overlong forms, no
  surrogates, nothing above U+10FFFF.
\<close>

fun utf8_valid :: "u8 list \<Rightarrow> bool" where
  "utf8_valid [] = True"
| "utf8_valid (a # bs) =
     (if a \<le> 0x7F then utf8_valid bs
      else case bs of
        b # cs \<Rightarrow>
          (if 0xC2 \<le> a \<and> a \<le> 0xDF then cont_byte b \<and> utf8_valid cs
           else case cs of
             c # ds \<Rightarrow>
               (if a = 0xE0 then 0xA0 \<le> b \<and> b \<le> 0xBF \<and> cont_byte c \<and> utf8_valid ds
                else if a = 0xED then 0x80 \<le> b \<and> b \<le> 0x9F \<and> cont_byte c \<and> utf8_valid ds
                else if 0xE1 \<le> a \<and> a \<le> 0xEF then cont_byte b \<and> cont_byte c \<and> utf8_valid ds
                else case ds of
                  d # es \<Rightarrow>
                    (if a = 0xF0 then 0x90 \<le> b \<and> b \<le> 0xBF \<and> cont_byte c \<and> cont_byte d \<and> utf8_valid es
                     else if 0xF1 \<le> a \<and> a \<le> 0xF3
                       then cont_byte b \<and> cont_byte c \<and> cont_byte d \<and> utf8_valid es
                     else if a = 0xF4 then 0x80 \<le> b \<and> b \<le> 0x8F \<and> cont_byte c \<and> cont_byte d \<and> utf8_valid es
                     else False)
                | [] \<Rightarrow> False)
           | [] \<Rightarrow> False)
      | [] \<Rightarrow> False)"

definition from_utf8 :: "u8 list \<Rightarrow> string option" where
  "from_utf8 bs = (if utf8_valid bs then Some (string_of_bytes bs) else None)"

definition valid_string :: "string \<Rightarrow> bool" where
  "valid_string s \<longleftrightarrow> utf8_valid (as_bytes s)"

lemma from_utf8_as_bytes [simp]: "valid_string s \<Longrightarrow> from_utf8 (as_bytes s) = Some s"
  by (simp add: from_utf8_def valid_string_def)

lemma from_utf8_SomeD: "from_utf8 bs = Some s \<Longrightarrow> valid_string s \<and> as_bytes s = bs"
  by (auto simp: from_utf8_def valid_string_def split: if_splits)

subsection \<open>ASCII classes and splitting\<close>

definition is_ascii_alphabetic :: "char \<Rightarrow> bool" where
  "is_ascii_alphabetic c =
     (let n = of_char c :: nat in (65 \<le> n \<and> n \<le> 90) \<or> (97 \<le> n \<and> n \<le> 122))"

definition is_ascii_alphanumeric :: "char \<Rightarrow> bool" where
  "is_ascii_alphanumeric c \<longleftrightarrow>
     is_ascii_alphabetic c \<or> (let n = of_char c :: nat in 48 \<le> n \<and> n \<le> 57)"

text \<open>\<open>str::split(c)\<close> for an ASCII separator: always at least one segment.\<close>

fun split_on :: "char \<Rightarrow> string \<Rightarrow> string list" where
  "split_on sep [] = [[]]"
| "split_on sep (c # cs) =
     (if c = sep then [] # split_on sep cs
      else case split_on sep cs of [] \<Rightarrow> [[c]] | s # ss \<Rightarrow> (c # s) # ss)"

fun join_with :: "char \<Rightarrow> string list \<Rightarrow> string" where
  "join_with sep [] = []"
| "join_with sep [s] = s"
| "join_with sep (s # ss) = s @ sep # join_with sep ss"

lemma split_on_nonempty [simp]: "split_on sep s \<noteq> []"
  by (cases s) (auto split: list.splits)

lemma join_split: "join_with sep (split_on sep s) = s"
proof (induction s)
  case (Cons c s)
  then show ?case
    by (cases "split_on sep s" rule: list.exhaust; cases "tl (split_on sep s)") auto
qed simp

lemma split_join: "ss \<noteq> [] \<Longrightarrow> \<forall>s \<in> set ss. sep \<notin> set s \<Longrightarrow> split_on sep (join_with sep ss) = ss"
proof (induction sep ss rule: join_with.induct)
  case (2 sep s)
  have "sep \<notin> set s \<Longrightarrow> split_on sep s = [s]" by (induction s) auto
  with 2 show ?case by simp
next
  case (3 sep s t ss)
  have "sep \<notin> set s \<Longrightarrow> split_on sep (s @ sep # r) = s # split_on sep r" for r by (induction s) auto
  with 3 show ?case by simp
qed simp

subsection \<open>Decimal numbers\<close>

definition digit_char :: "nat \<Rightarrow> char" where
  "digit_char d = char_of (48 + d)"

definition digit_val :: "char \<Rightarrow> nat option" where
  "digit_val c = (let n = of_char c in if 48 \<le> n \<and> n \<le> 57 then Some (n - 48) else None)"

fun show_nat :: "nat \<Rightarrow> string" where
  "show_nat n = (if n < 10 then [digit_char n] else show_nat (n div 10) @ [digit_char (n mod 10)])"

declare show_nat.simps [simp del]

definition show_i64 :: "i64 \<Rightarrow> string" where
  "show_i64 v = (if sint v < 0 then CHR ''-'' # show_nat (nat (- sint v)) else show_nat (nat (sint v)))"

fun digits_val :: "nat \<Rightarrow> string \<Rightarrow> nat option" where
  "digits_val acc [] = Some acc"
| "digits_val acc (c # cs) =
     (case digit_val c of None \<Rightarrow> None | Some d \<Rightarrow> digits_val (10 * acc + d) cs)"

definition parse_digits :: "string \<Rightarrow> nat option" where
  "parse_digits s = (if s = [] then None else digits_val 0 s)"

text \<open>\<open>str::parse::<usize>()\<close>: an optional plus sign, digits, at most \<open>u64::MAX\<close>.\<close>

definition parse_usize :: "string \<Rightarrow> usize option" where
  "parse_usize s =
     (let ds = (case s of c # cs \<Rightarrow> if c = CHR ''+'' then cs else s | [] \<Rightarrow> s) in
      case parse_digits ds of
        Some n \<Rightarrow> if n < 2 ^ 64 then Some n else None
      | None \<Rightarrow> None)"

text \<open>\<open>str::parse::<i64>()\<close>: an optional sign, digits, in the signed range.\<close>

definition parse_i64 :: "string \<Rightarrow> i64 option" where
  "parse_i64 s =
     (let (neg, ds) = (case s of
          c # cs \<Rightarrow> if c = CHR ''-'' then (True, cs) else if c = CHR ''+'' then (False, cs) else (False, s)
        | [] \<Rightarrow> (False, s)) in
      case parse_digits ds of
        Some n \<Rightarrow>
          if neg then (if n \<le> 2 ^ 63 then Some (word_of_int (- int n)) else None)
          else (if n < 2 ^ 63 then Some (word_of_int (int n)) else None)
      | None \<Rightarrow> None)"

lemma of_char_digit_char: "d < 10 \<Longrightarrow> of_char (digit_char d) = (48 + d :: nat)"
  by (simp add: digit_char_def)

lemma digit_val_digit_char [simp]: "d < 10 \<Longrightarrow> digit_val (digit_char d) = Some d"
  by (simp add: digit_val_def of_char_digit_char)

lemma digits_val_append: "digits_val acc (xs @ ys) = Option.bind (digits_val acc xs) (\<lambda>a. digits_val a ys)"
  by (induction xs arbitrary: acc) (auto split: option.splits)

lemma digits_val_show_nat: "digits_val 0 (show_nat n) = Some n"
proof (induction n rule: show_nat.induct)
  case (1 n)
  then show ?case by (cases "n < 10") (simp_all add: show_nat.simps [of n] digits_val_append)
qed

lemma show_nat_nonempty [simp]: "show_nat n \<noteq> []"
  by (simp add: show_nat.simps [of n])

lemma show_nat_digits: "c \<in> set (show_nat n) \<Longrightarrow> \<exists>d < 10. c = digit_char d"
proof (induction n rule: show_nat.induct)
  case (1 n)
  then show ?case by (cases "n < 10") (force simp: show_nat.simps [of n])+
qed

lemma digit_char_neq: "d < 10 \<Longrightarrow> of_char c \<notin> {48..<58 :: nat} \<Longrightarrow> digit_char d \<noteq> c"
  using of_char_digit_char by fastforce

lemma hd_show_nat: "of_char c \<notin> {48..<58 :: nat} \<Longrightarrow> hd (show_nat n) \<noteq> c"
  using show_nat_digits [of "hd (show_nat n)" n] digit_char_neq by fastforce

lemma parse_digits_show_nat [simp]: "parse_digits (show_nat n) = Some n"
  by (simp add: parse_digits_def digits_val_show_nat)

lemma parse_usize_show_nat: "n < 2 ^ 64 \<Longrightarrow> parse_usize (show_nat n) = Some n"
  using hd_show_nat [of "CHR ''+''" n] show_nat_nonempty [of n] parse_digits_show_nat [of n]
  by (cases "show_nat n") (auto simp: parse_usize_def)

lemma parse_i64_show_i64: "parse_i64 (show_i64 v) = Some v"
proof (cases "sint v < 0")
  case True
  then have "nat (- sint v) \<le> 2 ^ 63" using sint_ge [of v] by simp
  with True show ?thesis by (simp add: parse_i64_def show_i64_def)
next
  case False
  then have "nat (sint v) < 2 ^ 63" using sint_lt [of v] by simp
  with False hd_show_nat [of "CHR ''+''" "nat (sint v)"] hd_show_nat [of "CHR ''-''" "nat (sint v)"]
    show_nat_nonempty [of "nat (sint v)"] parse_digits_show_nat [of "nat (sint v)"]
  show ?thesis by (cases "show_nat (nat (sint v))") (auto simp: parse_i64_def show_i64_def)
qed

end
