(* ===== verification/Mic2_Types.thy ===== *)
theory Mic2_Types
  imports Rust_Text "HOL-Library.Multiset"
begin

text \<open>
  \<^verbatim>\<open>src/ir/compact/v2/types.rs\<close>: the data model of the mic@2 graph format shared by its text
  and binary serialisations -- element types, tensor types, operation codes, values, the
  metadata map and the graph with its validator.
\<close>

text \<open>Magic number and version byte of the binary form (\<^verbatim>\<open>src/ir/compact/v2/mod.rs\<close>).\<close>

definition MICB_MAGIC :: "u8 list" where
  "MICB_MAGIC = [0x4D, 0x49, 0x43, 0x42]"

definition MICB_VERSION :: u8 where
  "MICB_VERSION = 0x02"

subsection \<open>Element types\<close>

datatype dtype = F16 | F32 | F64 | BF16 | I8 | I16 | I32 | I64 | U8 | U16 | U32 | U64 | Bool

definition dtype_parse :: "string \<Rightarrow> dtype option" where
  "dtype_parse s =
     (if s = ''f16'' then Some F16
      else if s = ''f32'' then Some F32
      else if s = ''f64'' then Some F64
      else if s = ''bf16'' then Some BF16
      else if s = ''i8'' then Some I8
      else if s = ''i16'' then Some I16
      else if s = ''i32'' then Some I32
      else if s = ''i64'' then Some I64
      else if s = ''u8'' then Some U8
      else if s = ''u16'' then Some U16
      else if s = ''u32'' then Some U32
      else if s = ''u64'' then Some U64
      else if s = ''bool'' then Some Bool
      else None)"

fun dtype_as_str :: "dtype \<Rightarrow> string" where
  "dtype_as_str F16 = ''f16''"
| "dtype_as_str F32 = ''f32''"
| "dtype_as_str F64 = ''f64''"
| "dtype_as_str BF16 = ''bf16''"
| "dtype_as_str I8 = ''i8''"
| "dtype_as_str I16 = ''i16''"
| "dtype_as_str I32 = ''i32''"
| "dtype_as_str I64 = ''i64''"
| "dtype_as_str U8 = ''u8''"
| "dtype_as_str U16 = ''u16''"
| "dtype_as_str U32 = ''u32''"
| "dtype_as_str U64 = ''u64''"
| "dtype_as_str Bool = ''bool''"

fun dtype_to_byte :: "dtype \<Rightarrow> u8" where
  "dtype_to_byte F16 = 0"
| "dtype_to_byte F32 = 1"
| "dtype_to_byte F64 = 2"
| "dtype_to_byte BF16 = 3"
| "dtype_to_byte I8 = 4"
| "dtype_to_byte I16 = 5"
| "dtype_to_byte I32 = 6"
| "dtype_to_byte I64 = 7"
| "dtype_to_byte U8 = 8"
| "dtype_to_byte U16 = 9"
| "dtype_to_byte U32 = 10"
| "dtype_to_byte U64 = 11"
| "dtype_to_byte Bool = 12"

definition dtype_from_byte :: "u8 \<Rightarrow> dtype option" where
  "dtype_from_byte b =
     (if b = 0 then Some F16
      else if b = 1 then Some F32
      else if b = 2 then Some F64
      else if b = 3 then Some BF16
      else if b = 4 then Some I8
      else if b = 5 then Some I16
      else if b = 6 then Some I32
      else if b = 7 then Some I64
      else if b = 8 then Some U8
      else if b = 9 then Some U16
      else if b = 10 then Some U32
      else if b = 11 then Some U64
      else if b = 12 then Some Bool
      else None)"

subsection \<open>Tensor types, operation codes, values\<close>

record tensor_type =
  tt_dtype :: dtype
  tt_shape :: "string list"

definition tensor_type_new :: "dtype \<Rightarrow> string list \<Rightarrow> tensor_type" where
  "tensor_type_new d shape = \<lparr>tt_dtype = d, tt_shape = shape\<rparr>"

definition tensor_type_scalar :: "dtype \<Rightarrow> tensor_type" where
  "tensor_type_scalar d = \<lparr>tt_dtype = d, tt_shape = []\<rparr>"

definition tensor_rank :: "tensor_type \<Rightarrow> usize" where
  "tensor_rank t = length (tt_shape t)"

datatype opcode =
    OpMatmul | OpAdd | OpSub | OpMul | OpDiv | OpRelu
  | OpSoftmax i64
  | OpSigmoid | OpTanh | OpGelu | OpLayerNorm
  | OpTranspose "i64 list"
  | OpReshape
  | OpSum "i64 list"
  | OpMean "i64 list"
  | OpMax "i64 list"
  | OpConcat i64
  | OpSplit i64 usize
  | OpGather i64
  | OpCustom string

text \<open>\<open>params.get(i).and_then(|s| s.parse().ok()).unwrap_or(d)\<close>\<close>

definition param_or :: "(string \<Rightarrow> 'a option) \<Rightarrow> string list \<Rightarrow> nat \<Rightarrow> 'a \<Rightarrow> 'a" where
  "param_or parse params i d =
     (if i < length params then (case parse (params ! i) of Some v \<Rightarrow> v | None \<Rightarrow> d) else d)"

definition opcode_parse :: "string \<Rightarrow> string list \<Rightarrow> opcode option" where
  "opcode_parse tok params =
     (if tok = ''m'' then Some OpMatmul
      else if tok = ''+'' then Some OpAdd
      else if tok = ''-'' then Some OpSub
      else if tok = ''*'' then Some OpMul
      else if tok = ''/'' then Some OpDiv
      else if tok = ''r'' then Some OpRelu
      else if tok = ''s'' then Some (OpSoftmax (param_or parse_i64 params 0 (-1)))
      else if tok = ''sig'' then Some OpSigmoid
      else if tok = ''th'' then Some OpTanh
      else if tok = ''gelu'' then Some OpGelu
      else if tok = ''ln'' then Some OpLayerNorm
      else if tok = ''t'' then Some (OpTranspose (List.map_filter parse_i64 params))
      else if tok = ''rshp'' then Some OpReshape
      else if tok = ''sum'' then Some (OpSum (List.map_filter parse_i64 params))
      else if tok = ''mean'' then Some (OpMean (List.map_filter parse_i64 params))
      else if tok = ''max'' then Some (OpMax (List.map_filter parse_i64 params))
      else if tok = ''cat'' then Some (OpConcat (param_or parse_i64 params 0 0))
      else if tok = ''split''
        then Some (OpSplit (param_or parse_i64 params 0 0) (param_or parse_usize params 1 2))
      else if tok = ''gth'' then Some (OpGather (param_or parse_i64 params 0 0))
      else None)"

fun opcode_as_token :: "opcode \<Rightarrow> string" where
  "opcode_as_token OpMatmul = ''m''"
| "opcode_as_token OpAdd = ''+''"
| "opcode_as_token OpSub = ''-''"
| "opcode_as_token OpMul = ''*''"
| "opcode_as_token OpDiv = ''/''"
| "opcode_as_token OpRelu = ''r''"
| "opcode_as_token (OpSoftmax _) = ''s''"
| "opcode_as_token OpSigmoid = ''sig''"
| "opcode_as_token OpTanh = ''th''"
| "opcode_as_token OpGelu = ''gelu''"
| "opcode_as_token OpLayerNorm = ''ln''"
| "opcode_as_token (OpTranspose _) = ''t''"
| "opcode_as_token OpReshape = ''rshp''"
| "opcode_as_token (OpSum _) = ''sum''"
| "opcode_as_token (OpMean _) = ''mean''"
| "opcode_as_token (OpMax _) = ''max''"
| "opcode_as_token (OpConcat _) = ''cat''"
| "opcode_as_token (OpSplit _ _) = ''split''"
| "opcode_as_token (OpGather _) = ''gth''"
| "opcode_as_token (OpCustom name) = name"

fun opcode_arity :: "opcode \<Rightarrow> usize option" where
  "opcode_arity OpMatmul = Some 2"
| "opcode_arity OpAdd = Some 2"
| "opcode_arity OpSub = Some 2"
| "opcode_arity OpMul = Some 2"
| "opcode_arity OpDiv = Some 2"
| "opcode_arity OpRelu = Some 1"
| "opcode_arity OpSigmoid = Some 1"
| "opcode_arity OpTanh = Some 1"
| "opcode_arity OpGelu = Some 1"
| "opcode_arity (OpSoftmax _) = Some 1"
| "opcode_arity OpLayerNorm = Some 1"
| "opcode_arity (OpTranspose _) = Some 1"
| "opcode_arity OpReshape = Some 1"
| "opcode_arity (OpSum _) = Some 1"
| "opcode_arity (OpMean _) = Some 1"
| "opcode_arity (OpMax _) = Some 1"
| "opcode_arity (OpConcat _) = None"
| "opcode_arity (OpSplit _ _) = Some 1"
| "opcode_arity (OpGather _) = Some 2"
| "opcode_arity (OpCustom _) = None"

fun opcode_to_byte :: "opcode \<Rightarrow> u8" where
  "opcode_to_byte OpMatmul = 0"
| "opcode_to_byte OpAdd = 1"
| "opcode_to_byte OpSub = 2"
| "opcode_to_byte OpMul = 3"
| "opcode_to_byte OpDiv = 4"
| "opcode_to_byte OpRelu = 5"
| "opcode_to_byte (OpSoftmax _) = 6"
| "opcode_to_byte OpSigmoid = 7"
| "opcode_to_byte OpTanh = 8"
| "opcode_to_byte OpGelu = 9"
| "opcode_to_byte OpLayerNorm = 10"
| "opcode_to_byte (OpTranspose _) = 11"
| "opcode_to_byte OpReshape = 12"
| "opcode_to_byte (OpSum _) = 13"
| "opcode_to_byte (OpMean _) = 14"
| "opcode_to_byte (OpMax _) = 15"
| "opcode_to_byte (OpConcat _) = 16"
| "opcode_to_byte (OpSplit _ _) = 17"
| "opcode_to_byte (OpGather _) = 18"
| "opcode_to_byte (OpCustom _) = 255"

datatype mic_value =
    VArg string usize
  | VParam string usize
  | VNode opcode "usize list"

fun value_tag :: "mic_value \<Rightarrow> u8" where
  "value_tag (VArg _ _) = 0"
| "value_tag (VParam _ _) = 1"
| "value_tag (VNode _ _) = 2"

subsection \<open>The metadata map\<close>

datatype map_value =
    MapString string
  | MapInt i64
  | MapBytes "u8 list"
  | MapNested "(string \<times> map_value) list"

type_synonym mic_map = "(string \<times> map_value) list"

definition map_new :: mic_map where
  "map_new = []"

definition map_is_empty :: "mic_map \<Rightarrow> bool" where
  "map_is_empty m \<longleftrightarrow> m = []"

definition map_len :: "mic_map \<Rightarrow> usize" where
  "map_len m = length m"

definition insert_unique :: "mic_map \<Rightarrow> string \<Rightarrow> map_value \<Rightarrow> string + mic_map" where
  "insert_unique m k v =
     (if list_ex (\<lambda>(ek, _). ek = k) m then Inl (''duplicate MAP key: '' @ k) else Inr (m @ [(k, v)]))"

text \<open>\<open>Map::insert\<close> panics on a duplicate key: \<^const>\<open>None\<close>.\<close>

definition map_insert :: "mic_map \<Rightarrow> string \<Rightarrow> map_value \<Rightarrow> mic_map option" where
  "map_insert m k v = (case insert_unique m k v of Inl _ \<Rightarrow> None | Inr m' \<Rightarrow> Some m')"

definition iter_canonical :: "mic_map \<Rightarrow> (string \<times> map_value) list" where
  "iter_canonical m = sort_key (\<lambda>e. as_bytes (fst e)) m"

fun canonical_value :: "map_value \<Rightarrow> map_value"
  and canonical_entries :: "mic_map \<Rightarrow> mic_map" where
  "canonical_value (MapNested es) = MapNested (sort_key (\<lambda>e. as_bytes (fst e)) (canonical_entries es))"
| "canonical_value (MapString s) = MapString s"
| "canonical_value (MapInt i) = MapInt i"
| "canonical_value (MapBytes b) = MapBytes b"
| "canonical_entries [] = []"
| "canonical_entries ((k, v) # es) = (k, canonical_value v) # canonical_entries es"

definition canonicalize :: "mic_map \<Rightarrow> mic_map" where
  "canonicalize m = sort_key (\<lambda>e. as_bytes (fst e)) (canonical_entries m)"

fun value_entry_count :: "map_value \<Rightarrow> nat"
  and recursive_entry_count :: "mic_map \<Rightarrow> nat" where
  "value_entry_count (MapNested es) = recursive_entry_count es"
| "value_entry_count (MapString s) = 0"
| "value_entry_count (MapInt i) = 0"
| "value_entry_count (MapBytes b) = 0"
| "recursive_entry_count [] = 0"
| "recursive_entry_count ((k, v) # es) = 1 + value_entry_count v + recursive_entry_count es"

subsection \<open>Graphs\<close>

record graph =
  g_symbols :: "string list"
  g_types :: "tensor_type list"
  g_values :: "mic_value list"
  g_output :: usize
  g_map :: mic_map

definition graph_new :: graph where
  "graph_new = \<lparr>g_symbols = [], g_types = [], g_values = [], g_output = 0, g_map = map_new\<rparr>"

definition add_symbol :: "graph \<Rightarrow> string \<Rightarrow> graph" where
  "add_symbol g name = g\<lparr>g_symbols := g_symbols g @ [name]\<rparr>"

definition add_type :: "graph \<Rightarrow> tensor_type \<Rightarrow> usize \<times> graph" where
  "add_type g t = (length (g_types g), g\<lparr>g_types := g_types g @ [t]\<rparr>)"

definition add_value :: "graph \<Rightarrow> mic_value \<Rightarrow> usize \<times> graph" where
  "add_value g v = (length (g_values g), g\<lparr>g_values := g_values g @ [v]\<rparr>)"

definition set_output :: "graph \<Rightarrow> usize \<Rightarrow> graph" where
  "set_output g i = g\<lparr>g_output := i\<rparr>"

datatype graph_error =
    InvalidTypeRef usize usize
  | ForwardReference usize usize
  | InvalidOutput usize usize

definition validate_value :: "usize \<Rightarrow> usize \<Rightarrow> mic_value \<Rightarrow> graph_error + unit" where
  "validate_value n_types vid v =
     (case v of
        VArg _ tid \<Rightarrow> if tid \<ge> n_types then Inl (InvalidTypeRef vid tid) else Inr ()
      | VParam _ tid \<Rightarrow> if tid \<ge> n_types then Inl (InvalidTypeRef vid tid) else Inr ()
      | VNode _ inputs \<Rightarrow>
          (case find (\<lambda>inp. inp \<ge> vid) inputs of
             None \<Rightarrow> Inr ()
           | Some inp \<Rightarrow> Inl (ForwardReference vid inp)))"

fun validate_values :: "usize \<Rightarrow> usize \<Rightarrow> mic_value list \<Rightarrow> graph_error + unit" where
  "validate_values n_types vid [] = Inr ()"
| "validate_values n_types vid (v # vs) =
     rbind (validate_value n_types vid v) (\<lambda>_. validate_values n_types (Suc vid) vs)"

definition validate :: "graph \<Rightarrow> graph_error + unit" where
  "validate g =
     rbind (validate_values (length (g_types g)) 0 (g_values g)) (\<lambda>_.
       if g_output g \<ge> length (g_values g)
       then Inl (InvalidOutput (g_output g) (length (g_values g) - 1))
       else Inr ())"

text \<open>The fixture \<open>Graph::residual_block\<close>: \<open>relu(X @ W + b) + X\<close>.\<close>

definition residual_block :: graph where
  "residual_block =
     (let g = graph_new;
          g = snd (add_type g (tensor_type_new F16 [''128'', ''128'']));
          g = snd (add_type g (tensor_type_new F16 [''128'']));
          g = snd (add_value g (VArg ''X'' 0));
          g = snd (add_value g (VParam ''W'' 0));
          g = snd (add_value g (VParam ''b'' 1));
          g = snd (add_value g (VNode OpMatmul [0, 1]));
          g = snd (add_value g (VNode OpAdd [3, 2]));
          g = snd (add_value g (VNode OpRelu [4]));
          g = snd (add_value g (VNode OpAdd [5, 0]))
      in set_output g 6)"

definition graph_eq :: "graph \<Rightarrow> graph \<Rightarrow> bool" where
  "graph_eq g h \<longleftrightarrow>
     (if g_symbols g \<noteq> g_symbols h then False
      else if length (g_types g) \<noteq> length (g_types h) then False
      else if list_ex (\<lambda>(a, b). a \<noteq> b) (zip (g_types g) (g_types h)) then False
      else if length (g_values g) \<noteq> length (g_values h) then False
      else if list_ex (\<lambda>(a, b). a \<noteq> b) (zip (g_values g) (g_values h)) then False
      else if g_output g \<noteq> g_output h then False
      else g_map g = g_map h)"

subsection \<open>Codes of element types and operations\<close>

lemma dtype_from_to_byte [simp]: "dtype_from_byte (dtype_to_byte d) = Some d"
  by (cases d) (simp_all add: dtype_from_byte_def)

lemma dtype_to_from_byte: "dtype_from_byte b = Some d \<Longrightarrow> dtype_to_byte d = b"
  by (auto simp: dtype_from_byte_def split: if_splits)

lemma dtype_parse_as_str [simp]: "dtype_parse (dtype_as_str d) = Some d"
  by (cases d) (simp_all add: dtype_parse_def)

lemma dtype_as_str_parse: "dtype_parse s = Some d \<Longrightarrow> dtype_as_str d = s"
  by (auto simp: dtype_parse_def split: if_splits)

lemma opcode_parse_token:
  assumes "\<nexists>name. op = OpCustom name"
  shows "\<exists>op'. opcode_parse (opcode_as_token op) params = Some op' \<and>
    opcode_to_byte op' = opcode_to_byte op \<and> opcode_arity op' = opcode_arity op"
  using assms by (cases op) (simp_all add: opcode_parse_def)

subsection \<open>The map in canonical order\<close>

abbreviation key_bytes :: "string \<times> map_value \<Rightarrow> u8 list" where
  "key_bytes e \<equiv> as_bytes (fst e)"

lemma canonical_entries_map: "canonical_entries es = map (\<lambda>(k, v). (k, canonical_value v)) es"
  by (induction es) auto

lemma fst_canonical_entries [simp]: "map fst (canonical_entries es) = map fst es"
  by (induction es) auto

lemma canonical_entries_sort:
  "canonical_entries (sort_key key_bytes es) = sort_key key_bytes (canonical_entries es)"
  unfolding canonical_entries_map by (rule map_sort_key) auto

lemma canonical_idem:
  "canonical_value (canonical_value v) = canonical_value v"
  "canonical_entries (canonical_entries es) = canonical_entries es"
proof (induction v and es rule: canonical_value_canonical_entries.induct)
  case (1 es)
  then show ?case by (simp add: canonical_entries_sort sort_key_id_if_sorted)
qed auto

lemma canonicalize_idem: "canonicalize (canonicalize m) = canonicalize m"
  by (simp add: canonicalize_def canonical_entries_sort canonical_idem sort_key_id_if_sorted)

lemma canonicalize_sorted: "sorted (map key_bytes (canonicalize m))"
  by (simp add: canonicalize_def)

lemma canonicalize_keys: "mset (map fst (canonicalize m)) = mset (map fst m)"
proof -
  have "mset (map fst (canonicalize m)) = image_mset fst (mset (canonical_entries m))"
    by (simp add: canonicalize_def)
  also have "\<dots> = mset (map fst (canonical_entries m))" by (simp only: mset_map)
  finally show ?thesis by simp
qed

lemma length_canonicalize [simp]: "length (canonicalize m) = length m"
  using arg_cong [OF canonicalize_keys, of size m] by simp

lemma iter_canonical_canonicalize [simp]: "iter_canonical (canonicalize m) = canonicalize m"
  by (simp add: iter_canonical_def canonicalize_def sort_key_id_if_sorted)

text \<open>
  Two maps are equivalent when they differ only in the insertion order of their entries, at any
  nesting level.  The canonical form is a normal form of this equivalence on maps without
  duplicate keys.
\<close>

inductive map_equiv :: "mic_map \<Rightarrow> mic_map \<Rightarrow> bool" where
  perm: "mset es = mset es' \<Longrightarrow> map_equiv es es'"
| nested: "map_equiv xs ys \<Longrightarrow>
    map_equiv (es @ (k, MapNested xs) # fs) (es @ (k, MapNested ys) # fs)"
| trans: "map_equiv xs ys \<Longrightarrow> map_equiv ys zs \<Longrightarrow> map_equiv xs zs"

fun distinct_keys_value :: "map_value \<Rightarrow> bool"
  and distinct_keys_entries :: "mic_map \<Rightarrow> bool" where
  "distinct_keys_value (MapNested es) \<longleftrightarrow> distinct (map fst es) \<and> distinct_keys_entries es"
| "distinct_keys_value (MapString s) \<longleftrightarrow> True"
| "distinct_keys_value (MapInt i) \<longleftrightarrow> True"
| "distinct_keys_value (MapBytes b) \<longleftrightarrow> True"
| "distinct_keys_entries [] \<longleftrightarrow> True"
| "distinct_keys_entries ((k, v) # es) \<longleftrightarrow> distinct_keys_value v \<and> distinct_keys_entries es"

definition distinct_keys :: "mic_map \<Rightarrow> bool" where
  "distinct_keys m \<longleftrightarrow> distinct (map fst m) \<and> distinct_keys_entries m"

lemma distinct_keys_entries_all: "distinct_keys_entries es \<longleftrightarrow> (\<forall>(k, v) \<in> set es. distinct_keys_value v)"
  by (induction es) auto

lemma sort_key_perm:
  assumes "mset xs = mset ys" "distinct (map fst xs)"
  shows "sort_key key_bytes xs = sort_key key_bytes (ys :: mic_map)"
proof (rule map_sorted_distinct_set_unique)
  have "mset (map fst xs) = mset (map fst ys)" using assms(1) by simp
  then have dy: "distinct (map fst ys)" using assms(2) mset_eq_imp_distinct_iff by blast
  have k: "map key_bytes zs = map as_bytes (map fst zs)" for zs :: mic_map by simp
  have d: "distinct (map key_bytes (sort_key key_bytes zs))" if "distinct (map fst zs)" for zs :: mic_map
  proof -
    have "distinct (map key_bytes zs)" using that by (simp only: k distinct_map) (auto intro: inj_onI)
    moreover have "mset (map key_bytes (sort_key key_bytes zs)) = mset (map key_bytes zs)" by simp
    ultimately show ?thesis using mset_eq_imp_distinct_iff by blast
  qed
  show "distinct (map key_bytes (sort_key key_bytes xs))" "distinct (map key_bytes (sort_key key_bytes ys))"
    using d assms(2) dy by blast+
  show "inj_on key_bytes (set (sort_key key_bytes xs) \<union> set (sort_key key_bytes ys))"
    using assms(2) mset_eq_setD [OF assms(1)] by (auto simp: inj_on_def distinct_map)
  show "set (sort_key key_bytes xs) = set (sort_key key_bytes ys)"
    using mset_eq_setD [OF assms(1)] by simp
qed simp_all

lemma map_equiv_canonical:
  "map_equiv es es' \<Longrightarrow> distinct_keys es \<Longrightarrow> canonicalize es = canonicalize es' \<and> distinct_keys es'"
proof (induction rule: map_equiv.induct)
  case (perm es es')
  have "mset (canonical_entries es) = mset (canonical_entries es')"
    using perm(1) by (simp add: canonical_entries_map)
  moreover have "distinct_keys es'"
    using perm mset_eq_setD [OF perm(1)] mset_eq_imp_distinct_iff [of "map fst es" "map fst es'"]
    by (simp add: distinct_keys_def distinct_keys_entries_all)
  moreover have "distinct (map fst (canonical_entries es))"
    using perm(2) by (simp add: distinct_keys_def)
  ultimately show ?case
    unfolding canonicalize_def using sort_key_perm by blast
next
  case (nested xs ys es k fs)
  then show ?case
    by (auto simp: canonicalize_def canonical_entries_map distinct_keys_def distinct_keys_entries_all)
next
  case (trans xs ys zs)
  then show ?case by simp
qed

lemma insert_unique_distinct:
  "insert_unique m k v = Inr m' \<Longrightarrow> distinct (map fst m) \<Longrightarrow> distinct (map fst m') \<and> m' = m @ [(k, v)]"
  by (force simp: insert_unique_def list_ex_iff split: if_splits)

subsection \<open>What \<open>validate\<close> accepts\<close>

text \<open>The declarative specification of a valid graph.\<close>

definition value_ok :: "usize \<Rightarrow> usize \<Rightarrow> mic_value \<Rightarrow> bool" where
  "value_ok n_types vid v =
     (case v of
        VArg _ tid \<Rightarrow> tid < n_types
      | VParam _ tid \<Rightarrow> tid < n_types
      | VNode _ inputs \<Rightarrow> (\<forall>inp \<in> set inputs. inp < vid))"

lemma validate_value_iff: "validate_value n vid v = Inr () \<longleftrightarrow> value_ok n vid v"
proof (cases v)
  case (VNode op inputs)
  show ?thesis
  proof (cases "find (\<lambda>inp. vid \<le> inp) inputs")
    case None
    then have "\<forall>inp \<in> set inputs. inp < vid" by (auto simp: find_None_iff)
    with VNode None show ?thesis by (simp add: validate_value_def value_ok_def)
  next
    case (Some i)
    then have "i \<in> set inputs" "vid \<le> i" by (auto simp: find_Some_iff)
    then have "\<not> (\<forall>inp \<in> set inputs. inp < vid)" by (auto simp: not_less)
    with VNode Some show ?thesis by (simp add: validate_value_def value_ok_def)
  qed
qed (auto simp: validate_value_def value_ok_def)

lemma validate_values_iff:
  "validate_values n vid vs = Inr () \<longleftrightarrow> (\<forall>i < length vs. value_ok n (vid + i) (vs ! i))"
proof (induction vs arbitrary: vid)
  case Nil
  then show ?case by simp
next
  case (Cons v vs)
  show ?case
    by (simp add: rbind_eq_Inr validate_value_iff Cons All_less_Suc2)
qed

lemma validate_iff:
  "validate g = Inr () \<longleftrightarrow>
     (\<forall>i < length (g_values g). value_ok (length (g_types g)) i (g_values g ! i)) \<and>
     g_output g < length (g_values g)"
  by (auto simp: validate_def rbind_eq_Inr validate_values_iff)

lemma zip_no_diff:
  "length xs = length ys \<Longrightarrow> \<not> list_ex (\<lambda>(a, b). a \<noteq> b) (zip xs ys) \<longleftrightarrow> xs = ys"
  by (induction xs ys rule: list_induct2) auto

lemma graph_eq_iff: "graph_eq g h \<longleftrightarrow> (g :: graph) = h"
proof -
  have "graph_eq g h \<longleftrightarrow> g_symbols g = g_symbols h \<and> g_types g = g_types h \<and>
      g_values g = g_values h \<and> g_output g = g_output h \<and> g_map g = g_map h"
    unfolding graph_eq_def using zip_no_diff by (metis (mono_tags, lifting))
  then show ?thesis by auto
qed

end
