(* ===== verification/Micb_Encode.thy ===== *)
theory Micb_Encode
  imports Varint Mic2_Types
begin

text \<open>
  \<^verbatim>\<open>src/ir/compact/v2/binary.rs\<close>, the MIC-B v2 encoder: a string table is interned in a fixed
  order, then every table is written with ULEB128 indices into it.  The sink is an in-memory
  buffer, so writing never fails; the indexing \<open>self.string_map[s]\<close> panics on a missing key, and
  \<^const>\<open>None\<close> is that panic.
\<close>

record encoder =
  enc_strings :: "string list"
  enc_string_map :: "string \<rightharpoonup> usize"

definition encoder_new :: encoder where
  "encoder_new = \<lparr>enc_strings = [], enc_string_map = Map.empty\<rparr>"

definition intern :: "encoder \<Rightarrow> string \<Rightarrow> usize \<times> encoder" where
  "intern e s =
     (case enc_string_map e s of
        Some idx \<Rightarrow> (idx, e)
      | None \<Rightarrow>
          (let idx = length (enc_strings e)
           in (idx, e\<lparr>enc_strings := enc_strings e @ [s],
                      enc_string_map := (enc_string_map e)(s \<mapsto> idx)\<rparr>)))"

definition intern_all :: "string list \<Rightarrow> encoder \<Rightarrow> encoder" where
  "intern_all ss e = fold (\<lambda>s e. snd (intern e s)) ss e"

text \<open>\<open>intern_map_strings\<close>: keys and string values, level by level in canonical order.\<close>

function intern_map_value :: "encoder \<Rightarrow> map_value \<Rightarrow> encoder"
  and intern_map_entries :: "encoder \<Rightarrow> (string \<times> map_value) list \<Rightarrow> encoder" where
  "intern_map_value e (MapString s) = snd (intern e s)"
| "intern_map_value e (MapNested inner) = intern_map_entries e (iter_canonical inner)"
| "intern_map_value e (MapInt i) = e"
| "intern_map_value e (MapBytes b) = e"
| "intern_map_entries e [] = e"
| "intern_map_entries e ((k, v) # es) = intern_map_entries (intern_map_value (snd (intern e k)) v) es"
  by pat_completeness auto
termination
  by (relation "measure (\<lambda>x. case x of Inl (e, v) \<Rightarrow> size v
      | Inr (e, es) \<Rightarrow> size_list (size_prod (\<lambda>_. 0) size) es)")
    (auto simp: iter_canonical_def)

definition intern_map_strings :: "encoder \<Rightarrow> mic_map \<Rightarrow> encoder" where
  "intern_map_strings e m = intern_map_entries e (iter_canonical m)"

definition value_name :: "mic_value \<Rightarrow> string option" where
  "value_name v = (case v of
     VArg name _ \<Rightarrow> Some name
   | VParam name _ \<Rightarrow> Some name
   | VNode (OpCustom name) _ \<Rightarrow> Some name
   | _ \<Rightarrow> None)"

definition build_string_table :: "graph \<Rightarrow> encoder \<Rightarrow> encoder" where
  "build_string_table g e =
     (let e = intern_all (g_symbols g) e;
          e = fold (\<lambda>t. intern_all (tt_shape t)) (g_types g) e;
          e = intern_all (List.map_filter value_name (g_values g)) e;
          canonical_map = canonicalize (g_map g)
      in if \<not> map_is_empty canonical_map then intern_map_strings e canonical_map else e)"

subsection \<open>Tables\<close>

definition encode_index :: "(string \<rightharpoonup> usize) \<Rightarrow> string \<Rightarrow> u8 list option" where
  "encode_index smap s = do { idx \<leftarrow> smap s; Some (uleb128_write (of_nat idx)) }"

definition encode_count :: "usize \<Rightarrow> u8 list" where
  "encode_count n = uleb128_write (of_nat n)"

definition encode_string :: "string \<Rightarrow> u8 list" where
  "encode_string s = encode_count (length (as_bytes s)) @ as_bytes s"

definition encode_axes :: "i64 list \<Rightarrow> u8 list" where
  "encode_axes axes = encode_count (length axes) @ concat (map sleb128_write axes)"

fun encode_opcode_params :: "(string \<rightharpoonup> usize) \<Rightarrow> opcode \<Rightarrow> u8 list option" where
  "encode_opcode_params smap (OpSoftmax axis) = Some (sleb128_write axis)"
| "encode_opcode_params smap (OpTranspose perm) = Some (encode_axes perm)"
| "encode_opcode_params smap (OpSum axes) = Some (encode_axes axes)"
| "encode_opcode_params smap (OpMean axes) = Some (encode_axes axes)"
| "encode_opcode_params smap (OpMax axes) = Some (encode_axes axes)"
| "encode_opcode_params smap (OpConcat axis) = Some (sleb128_write axis)"
| "encode_opcode_params smap (OpSplit axis n) = Some (sleb128_write axis @ uleb128_write (of_nat n))"
| "encode_opcode_params smap (OpGather axis) = Some (sleb128_write axis)"
| "encode_opcode_params smap (OpCustom name) = encode_index smap name"
| "encode_opcode_params smap _ = Some []"

definition encode_opcode :: "(string \<rightharpoonup> usize) \<Rightarrow> opcode \<Rightarrow> u8 list option" where
  "encode_opcode smap op = do { ps \<leftarrow> encode_opcode_params smap op; Some (opcode_to_byte op # ps) }"

fun encode_value :: "(string \<rightharpoonup> usize) \<Rightarrow> mic_value \<Rightarrow> u8 list option" where
  "encode_value smap (VArg name type_idx) =
     do { n \<leftarrow> encode_index smap name; Some (0 # n @ uleb128_write (of_nat type_idx)) }"
| "encode_value smap (VParam name type_idx) =
     do { n \<leftarrow> encode_index smap name; Some (1 # n @ uleb128_write (of_nat type_idx)) }"
| "encode_value smap (VNode op inputs) =
     do { ob \<leftarrow> encode_opcode smap op;
          Some (2 # ob @ encode_count (length inputs) @ concat (map (\<lambda>i. uleb128_write (of_nat i)) inputs)) }"

definition encode_type :: "(string \<rightharpoonup> usize) \<Rightarrow> tensor_type \<Rightarrow> u8 list option" where
  "encode_type smap t =
     do { ds \<leftarrow> traverse (encode_index smap) (tt_shape t);
          Some (dtype_to_byte (tt_dtype t) # encode_count (length (tt_shape t)) @ concat ds) }"

text \<open>\<open>encode_map_entries\<close> writes the count, then the entries in canonical order.\<close>

function encode_map_value :: "(string \<rightharpoonup> usize) \<Rightarrow> map_value \<Rightarrow> u8 list option"
  and encode_map_loop :: "(string \<rightharpoonup> usize) \<Rightarrow> (string \<times> map_value) list \<Rightarrow> u8 list option" where
  "encode_map_value smap (MapString s) = do { i \<leftarrow> encode_index smap s; Some (0 # i) }"
| "encode_map_value smap (MapInt i) = Some (1 # sleb128_write i)"
| "encode_map_value smap (MapBytes b) = Some (2 # encode_count (length b) @ b)"
| "encode_map_value smap (MapNested inner) =
     do { es \<leftarrow> encode_map_loop smap (iter_canonical inner);
          Some (3 # encode_count (map_len inner) @ es) }"
| "encode_map_loop smap [] = Some []"
| "encode_map_loop smap ((k, v) # es) =
     do { i \<leftarrow> encode_index smap k; b \<leftarrow> encode_map_value smap v; bs \<leftarrow> encode_map_loop smap es;
          Some (i @ b @ bs) }"
  by pat_completeness auto
termination
  by (relation "measure (\<lambda>x. case x of Inl (e, v) \<Rightarrow> size v
      | Inr (e, es) \<Rightarrow> size_list (size_prod (\<lambda>_. 0) size) es)")
    (auto simp: iter_canonical_def)

definition encode_map_entries :: "(string \<rightharpoonup> usize) \<Rightarrow> mic_map \<Rightarrow> u8 list option" where
  "encode_map_entries smap m =
     do { es \<leftarrow> encode_map_loop smap (iter_canonical m); Some (encode_count (map_len m) @ es) }"

definition encode :: "graph \<Rightarrow> u8 list option" where
  "encode g =
     (let e = build_string_table g encoder_new;
          smap = enc_string_map e;
          canonical_map = canonicalize (g_map g)
      in do {
        symbols \<leftarrow> traverse (encode_index smap) (g_symbols g);
        types \<leftarrow> traverse (encode_type smap) (g_types g);
        values \<leftarrow> traverse (encode_value smap) (g_values g);
        map_section \<leftarrow> (if \<not> map_is_empty canonical_map
          then do { es \<leftarrow> encode_map_entries smap canonical_map; Some (uleb128_write 0x4D @ es) }
          else Some []);
        Some (MICB_MAGIC @ [MICB_VERSION] @
          encode_count (length (enc_strings e)) @ concat (map encode_string (enc_strings e)) @
          encode_count (length (g_symbols g)) @ concat symbols @
          encode_count (length (g_types g)) @ concat types @
          encode_count (length (g_values g)) @ concat values @
          uleb128_write (of_nat (g_output g)) @ map_section)
      })"

definition emit_micb :: "graph \<Rightarrow> u8 list option" where
  "emit_micb g = encode g"

subsection \<open>The string table\<close>

text \<open>
  Interface: an interning table hands out indices that stay valid while it grows.  \<open>index\<close> is its
  lookup, \<open>names\<close> the table the indices point into.
\<close>

locale interner =
  fixes add :: "'t \<Rightarrow> string \<Rightarrow> 't"
    and index :: "'t \<Rightarrow> string \<Rightarrow> usize option"
    and names :: "'t \<Rightarrow> string list"
    and inv :: "'t \<Rightarrow> bool"
  assumes inv_add: "inv t \<Longrightarrow> inv (add t s)"
    and index_add: "inv t \<Longrightarrow> \<exists>i. index (add t s) s = Some i"
    and index_stable: "inv t \<Longrightarrow> index t u = Some i \<Longrightarrow> index (add t s) u = Some i"
    and index_names: "inv t \<Longrightarrow> index t u = Some i \<Longrightarrow> i < length (names t) \<and> names t ! i = u"
    and names_distinct: "inv t \<Longrightarrow> distinct (names t)"
    and names_grow: "inv t \<Longrightarrow> set (names (add t s)) = insert s (set (names t))"
begin

definition knows :: "'t \<Rightarrow> string set \<Rightarrow> bool" where
  "knows t S \<longleftrightarrow> inv t \<and> (\<forall>s \<in> S. \<exists>i. index t s = Some i)"

lemma knows_mono: "knows t S \<Longrightarrow> T \<subseteq> S \<Longrightarrow> knows t T"
  by (auto simp: knows_def)

lemma knows_add: "knows t S \<Longrightarrow> knows (add t s) (insert s S)"
  unfolding knows_def using inv_add index_add index_stable by blast

text \<open>\<open>tracks t S\<close>: the table knows exactly the strings of \<open>S\<close>.\<close>

definition tracks :: "'t \<Rightarrow> string set \<Rightarrow> bool" where
  "tracks t S \<longleftrightarrow> knows t S \<and> set (names t) = S"

lemma tracks_knows: "tracks t S \<Longrightarrow> knows t S"
  by (simp add: tracks_def)

lemma tracks_add: "tracks t S \<Longrightarrow> tracks (add t s) (insert s S)"
  unfolding tracks_def using knows_add names_grow by (auto simp: knows_def)

lemma tracks_fold: "tracks t S \<Longrightarrow> tracks (fold (\<lambda>s t. add t s) ss t) (S \<union> set ss)"
proof (induction ss arbitrary: t S)
  case (Cons s ss)
  from Cons.IH [OF tracks_add [OF Cons.prems, of s]] show ?case by simp
qed simp

end

definition encoder_inv :: "encoder \<Rightarrow> bool" where
  "encoder_inv e \<longleftrightarrow>
     distinct (enc_strings e) \<and>
     (\<forall>s i. enc_string_map e s = Some i \<longleftrightarrow> i < length (enc_strings e) \<and> enc_strings e ! i = s)"

lemma encoder_inv_new [simp]: "encoder_inv encoder_new"
  by (simp add: encoder_inv_def encoder_new_def)

lemma encoder_inv_None: "encoder_inv e \<Longrightarrow> enc_string_map e s = None \<longleftrightarrow> s \<notin> set (enc_strings e)"
  unfolding encoder_inv_def in_set_conv_nth by (metis not_None_eq option.discI)

lemma encoder_inv_intern: "encoder_inv e \<Longrightarrow> encoder_inv (snd (intern e s))"
proof (cases "enc_string_map e s")
  case None
  assume inv: "encoder_inv e"
  with None have "s \<notin> set (enc_strings e)" by (simp add: encoder_inv_None)
  with inv None show ?thesis
    by (auto simp: encoder_inv_def intern_def Let_def nth_append less_Suc_eq in_set_conv_nth)
qed (simp add: intern_def)

interpretation enc: interner "\<lambda>e s. snd (intern e s)" enc_string_map enc_strings encoder_inv
proof
  fix e :: encoder and s u i assume inv: "encoder_inv e"
  show "encoder_inv (snd (intern e s))" by (rule encoder_inv_intern [OF inv])
  show "\<exists>i. enc_string_map (snd (intern e s)) s = Some i"
    by (cases "enc_string_map e s") (simp_all add: intern_def Let_def)
  show "enc_string_map e u = Some i \<Longrightarrow> enc_string_map (snd (intern e s)) u = Some i"
    by (cases "enc_string_map e s") (auto simp: intern_def Let_def)
  show "enc_string_map e u = Some i \<Longrightarrow> i < length (enc_strings e) \<and> enc_strings e ! i = u"
    using inv by (simp add: encoder_inv_def)
  show "distinct (enc_strings e)" using inv by (simp add: encoder_inv_def)
  show "set (enc_strings (snd (intern e s))) = insert s (set (enc_strings e))"
    using encoder_inv_None [OF inv, of s] by (cases "enc_string_map e s") (auto simp: intern_def Let_def)
qed

subsection \<open>The table knows every string of the graph\<close>

fun map_value_strings :: "map_value \<Rightarrow> string list"
  and map_strings :: "mic_map \<Rightarrow> string list" where
  "map_value_strings (MapString s) = [s]"
| "map_value_strings (MapNested es) = map_strings es"
| "map_value_strings (MapInt i) = []"
| "map_value_strings (MapBytes b) = []"
| "map_strings [] = []"
| "map_strings ((k, v) # es) = k # map_value_strings v @ map_strings es"

definition graph_strings :: "graph \<Rightarrow> string set" where
  "graph_strings g =
     set (g_symbols g) \<union> (\<Union>t \<in> set (g_types g). set (tt_shape t)) \<union>
     set (List.map_filter value_name (g_values g)) \<union> set (map_strings (canonicalize (g_map g)))"

lemma set_map_strings: "set (map_strings es) = (\<Union>(k, v) \<in> set es. insert k (set (map_value_strings v)))"
  by (induction es) auto

lemma set_map_strings_iter [simp]: "set (map_strings (iter_canonical es)) = set (map_strings es)"
  by (simp add: set_map_strings iter_canonical_def)

lemma tracks_intern_all: "enc.tracks e S \<Longrightarrow> enc.tracks (intern_all ss e) (S \<union> set ss)"
  unfolding intern_all_def by (rule enc.tracks_fold)

lemma tracks_intern_shapes:
  "enc.tracks e S \<Longrightarrow> enc.tracks (fold (\<lambda>t. intern_all (tt_shape t)) ts e) (S \<union> (\<Union>t \<in> set ts. set (tt_shape t)))"
proof (induction ts arbitrary: e S)
  case (Cons t ts)
  from Cons.IH [OF tracks_intern_all [OF Cons.prems, of "tt_shape t"]] show ?case
    by (simp add: Un_assoc)
qed simp

lemma tracks_intern_map:
  "enc.tracks e S \<Longrightarrow> enc.tracks (intern_map_value e v) (S \<union> set (map_value_strings v))"
  "enc.tracks e S \<Longrightarrow> enc.tracks (intern_map_entries e es) (S \<union> set (map_strings es))"
proof (induction e v and e es arbitrary: S and S rule: intern_map_value_intern_map_entries.induct)
  case (1 e s)
  then show ?case using enc.tracks_add by simp
next
  case (2 e inner)
  from "2.IH" [OF "2.prems"] show ?case by simp
next
  case (6 e k v es)
  from "6.IH"(2) [OF "6.IH"(1) [OF enc.tracks_add [OF "6.prems", of k]]]
  show ?case by (simp add: Un_assoc)
qed simp_all

lemma tracks_build_string_table:
  "enc.tracks (build_string_table g encoder_new) (graph_strings g)"
proof -
  have "enc.tracks encoder_new {}" by (simp add: enc.tracks_def enc.knows_def) (simp add: encoder_new_def)
  from tracks_intern_all [OF tracks_intern_shapes [OF tracks_intern_all [OF this]]]
  have "enc.tracks (intern_all (List.map_filter value_name (g_values g))
      (fold (\<lambda>t. intern_all (tt_shape t)) (g_types g) (intern_all (g_symbols g) encoder_new)))
      (set (g_symbols g) \<union> (\<Union>t \<in> set (g_types g). set (tt_shape t)) \<union>
        set (List.map_filter value_name (g_values g)))" by simp
  from this tracks_intern_map(2) [OF this, of "iter_canonical (canonicalize (g_map g))"]
  show ?thesis
    by (auto simp: build_string_table_def Let_def graph_strings_def map_is_empty_def intern_map_strings_def)
qed

lemma encode_index_total: "enc.knows e S \<Longrightarrow> s \<in> S \<Longrightarrow> \<exists>bs. encode_index (enc_string_map e) s = Some bs"
  by (auto simp: enc.knows_def encode_index_def)

lemma encode_value_total:
  assumes "enc.knows e S" "\<And>s. value_name v = Some s \<Longrightarrow> s \<in> S"
  shows "\<exists>bs. encode_value (enc_string_map e) v = Some bs"
proof -
  have ix: "\<exists>bs. encode_index (enc_string_map e) s = Some bs" if "value_name v = Some s" for s
    using assms encode_index_total that by blast
  show ?thesis
  proof (cases v)
    case (VArg name t)
    with ix [of name] show ?thesis by (auto simp: value_name_def)
  next
    case (VParam name t)
    with ix [of name] show ?thesis by (auto simp: value_name_def)
  next
    case (VNode op inputs)
    have "\<exists>ps. encode_opcode_params (enc_string_map e) op = Some ps"
      using ix VNode by (cases op) (auto simp: value_name_def)
    with VNode show ?thesis by (auto simp: encode_opcode_def)
  qed
qed

lemma encode_map_total:
  "enc.knows e (set (map_value_strings v)) \<Longrightarrow> \<exists>bs. encode_map_value (enc_string_map e) v = Some bs"
  "enc.knows e (set (map_strings es)) \<Longrightarrow> \<exists>bs. encode_map_loop (enc_string_map e) es = Some bs"
proof (induction "enc_string_map e" v and "enc_string_map e" es
    rule: encode_map_value_encode_map_loop.induct)
  case (1 s)
  then show ?case using encode_index_total by fastforce
next
  case (4 inner)
  then show ?case by auto
next
  case (6 k v es)
  have "enc.knows e (set (map_value_strings v))" "enc.knows e (set (map_strings es))" "enc.knows e {k}"
    using 6(3) by (auto elim: enc.knows_mono)
  note ks = this
  obtain i where i: "encode_index (enc_string_map e) k = Some i"
    using encode_index_total [OF ks(3)] by auto
  obtain b where b: "encode_map_value (enc_string_map e) v = Some b"
    using 6(1) [OF i ks(1)] by auto
  obtain bs where "encode_map_loop (enc_string_map e) es = Some bs"
    using 6(2) [OF i b ks(2)] by auto
  with i b show ?case by simp
qed auto

lemma encode_total: "\<exists>bs. encode g = Some bs"
proof -
  let ?e = "build_string_table g encoder_new" and ?m = "canonicalize (g_map g)"
  note k = enc.tracks_knows [OF tracks_build_string_table [of g]]
  have ks: "enc.knows ?e S" if "S \<subseteq> graph_strings g" for S using k that by (rule enc.knows_mono)
  have "\<exists>ys. traverse (encode_index (enc_string_map ?e)) (g_symbols g) = Some ys"
    by (rule traverse_total, rule encode_index_total [OF k]) (simp add: graph_strings_def)
  moreover have "\<exists>ys. traverse (encode_type (enc_string_map ?e)) (g_types g) = Some ys"
  proof (rule traverse_total)
    fix t assume "t \<in> set (g_types g)"
    then have "\<exists>ys. traverse (encode_index (enc_string_map ?e)) (tt_shape t) = Some ys"
      by (intro traverse_total encode_index_total [OF k]) (auto simp: graph_strings_def)
    then show "\<exists>y. encode_type (enc_string_map ?e) t = Some y" by (auto simp: encode_type_def)
  qed
  moreover have "\<exists>ys. traverse (encode_value (enc_string_map ?e)) (g_values g) = Some ys"
  proof (rule traverse_total, rule encode_value_total [OF k])
    fix v s assume "v \<in> set (g_values g)" "value_name v = Some s"
    then have "s \<in> set (List.map_filter value_name (g_values g))" by (force simp: List.map_filter_def)
    then show "s \<in> graph_strings g" by (simp add: graph_strings_def)
  qed
  moreover have "\<exists>bs. encode_map_loop (enc_string_map ?e) ?m = Some bs"
    by (rule encode_map_total(2), rule ks) (simp add: graph_strings_def)
  ultimately show ?thesis by (auto simp: encode_def encode_map_entries_def Let_def)
qed

end
