(* ===== verification/Map_Limits.thy ===== *)
theory Map_Limits
  imports Mic2_Types
begin

text \<open>
  \<^verbatim>\<open>src/ir/compact/v2/map_limits.rs\<close>: the key grammar and the size bounds of the metadata
  map, checked by both parsers.  Diagnostics are constructors that carry the offending datum
  instead of formatted text.
\<close>

definition MAX_MAP_KEY_BYTES :: usize where "MAX_MAP_KEY_BYTES = 256"
definition MAX_MAP_KEY_SEGMENTS :: usize where "MAX_MAP_KEY_SEGMENTS = 8"
definition MAX_MAP_ENTRIES :: usize where "MAX_MAP_ENTRIES = 4096"
definition MAX_MAP_NESTING :: usize where "MAX_MAP_NESTING = 4"
definition MAX_MAP_STRING_BYTES :: usize where "MAX_MAP_STRING_BYTES = 64 * 1024"
definition MAX_MAP_BYTES :: usize where "MAX_MAP_BYTES = 1024 * 1024"

datatype key_syntax_error =
    KeyEmpty
  | SegmentEmpty
  | BadSegmentStart string
  | BadSegmentChar string

datatype map_limit_error =
    InvalidMapKey string key_syntax_error
  | MapKeyTooLong usize string
  | MapKeyTooDeep string
  | MapEntryCountExceeded
  | MapNestingExceeded
  | MapStringTooLong usize
  | MapBytesTooLong usize

definition check_segment :: "string \<Rightarrow> key_syntax_error + unit" where
  "check_segment segment =
     (case segment of
        [] \<Rightarrow> Inl SegmentEmpty
      | c # cs \<Rightarrow>
          if is_ascii_alphabetic c \<or> c = CHR ''_'' then
            (if list_ex (\<lambda>c. \<not> is_ascii_alphanumeric c \<and> c \<noteq> CHR ''_'') cs
             then Inl (BadSegmentChar segment) else Inr ())
          else Inl (BadSegmentStart segment))"

fun check_segments :: "string list \<Rightarrow> key_syntax_error + unit" where
  "check_segments [] = Inr ()"
| "check_segments (s # ss) = rbind (check_segment s) (\<lambda>_. check_segments ss)"

definition validate_map_key_syntax :: "string \<Rightarrow> key_syntax_error + unit" where
  "validate_map_key_syntax key =
     (if key = [] then Inl KeyEmpty else check_segments (split_on CHR ''.'' key))"

definition check_map_key :: "string \<Rightarrow> map_limit_error + unit" where
  "check_map_key key =
     rbind (map_err (InvalidMapKey key) (validate_map_key_syntax key)) (\<lambda>_.
       if length key > MAX_MAP_KEY_BYTES then Inl (MapKeyTooLong (length key) key)
       else if length (split_on CHR ''.'' key) > MAX_MAP_KEY_SEGMENTS then Inl (MapKeyTooDeep key)
       else Inr ())"

definition check_map_entry_count :: "usize \<Rightarrow> map_limit_error + unit" where
  "check_map_entry_count n = (if n > MAX_MAP_ENTRIES then Inl MapEntryCountExceeded else Inr ())"

definition check_map_nesting_depth :: "usize \<Rightarrow> map_limit_error + unit" where
  "check_map_nesting_depth depth = (if depth \<ge> MAX_MAP_NESTING then Inl MapNestingExceeded else Inr ())"

definition check_map_string_len :: "usize \<Rightarrow> map_limit_error + unit" where
  "check_map_string_len len = (if len > MAX_MAP_STRING_BYTES then Inl (MapStringTooLong len) else Inr ())"

definition check_map_bytes_len :: "usize \<Rightarrow> map_limit_error + unit" where
  "check_map_bytes_len len = (if len > MAX_MAP_BYTES then Inl (MapBytesTooLong len) else Inr ())"

subsection \<open>The key grammar, declaratively\<close>

text \<open>\<open>map_key = ident ("." ident)*\<close> with \<open>ident = [A-Za-z_][A-Za-z0-9_]*\<close>.\<close>

definition map_ident :: "string \<Rightarrow> bool" where
  "map_ident s \<longleftrightarrow>
     s \<noteq> [] \<and> (is_ascii_alphabetic (hd s) \<or> hd s = CHR ''_'') \<and>
     (\<forall>c \<in> set (tl s). is_ascii_alphanumeric c \<or> c = CHR ''_'')"

definition map_key_ok :: "string \<Rightarrow> bool" where
  "map_key_ok k \<longleftrightarrow>
     length k \<le> 256 \<and>
     (\<exists>segs. segs \<noteq> [] \<and> length segs \<le> 8 \<and> (\<forall>s \<in> set segs. map_ident s) \<and> k = join_with CHR ''.'' segs)"

lemma check_segment_iff: "check_segment s = Inr () \<longleftrightarrow> map_ident s"
  by (cases s) (auto simp: check_segment_def map_ident_def list_ex_iff)

lemma check_segments_iff: "check_segments ss = Inr () \<longleftrightarrow> (\<forall>s \<in> set ss. map_ident s)"
  by (induction ss) (auto simp: rbind_eq_Inr check_segment_iff)

lemma map_ident_chars: "map_ident s \<Longrightarrow> c \<in> set s \<Longrightarrow> is_ascii_alphanumeric c \<or> c = CHR ''_''"
  by (cases s) (auto simp: map_ident_def is_ascii_alphanumeric_def)

lemma map_ident_no_dot: "map_ident s \<Longrightarrow> CHR ''.'' \<notin> set s"
  using map_ident_chars [of s "CHR ''.''"]
  by (auto simp: is_ascii_alphanumeric_def is_ascii_alphabetic_def)

lemma check_map_key_iff: "check_map_key k = Inr () \<longleftrightarrow> map_key_ok k"
proof
  assume "check_map_key k = Inr ()"
  then have "\<forall>s \<in> set (split_on CHR ''.'' k). map_ident s" "length k \<le> 256"
    "length (split_on CHR ''.'' k) \<le> 8"
    by (auto simp: check_map_key_def rbind_eq_Inr validate_map_key_syntax_def check_segments_iff
        MAX_MAP_KEY_BYTES_def MAX_MAP_KEY_SEGMENTS_def split: if_splits)
  then show "map_key_ok k"
    unfolding map_key_ok_def using join_split [of "CHR ''.''" k] split_on_nonempty by metis
next
  assume "map_key_ok k"
  then obtain segs where segs: "length k \<le> 256" "segs \<noteq> []" "length segs \<le> 8"
    "\<forall>s \<in> set segs. map_ident s" "k = join_with CHR ''.'' segs"
    by (auto simp: map_key_ok_def)
  then have sp: "split_on CHR ''.'' k = segs" using split_join map_ident_no_dot by simp
  have "k \<noteq> []" using segs by (cases segs; cases "tl segs") (auto simp: map_ident_def)
  moreover have "check_segments segs = Inr ()" using segs(4) by (simp add: check_segments_iff)
  ultimately show "check_map_key k = Inr ()"
    using segs sp by (simp add: check_map_key_def validate_map_key_syntax_def MAX_MAP_KEY_BYTES_def MAX_MAP_KEY_SEGMENTS_def)
qed

lemma map_key_ok_chars:
  assumes "map_key_ok k" "c \<in> set k"
  shows "is_ascii_alphanumeric c \<or> c = CHR ''_'' \<or> c = CHR ''.''"
proof -
  have "c \<in> set (join_with sep ss) \<Longrightarrow> c = sep \<or> (\<exists>s \<in> set ss. c \<in> set s)" for sep ss
    by (induction sep ss rule: join_with.induct) auto
  with assms map_ident_chars show ?thesis by (fastforce simp: map_key_ok_def)
qed

text \<open>A key made of ASCII identifiers is valid UTF-8.\<close>

lemma utf8_valid_ascii: "\<forall>b \<in> set bs. b \<le> 0x7F \<Longrightarrow> utf8_valid bs"
  by (induction bs) auto

lemma map_key_ok_valid: "map_key_ok k \<Longrightarrow> valid_string k"
proof -
  assume k: "map_key_ok k"
  have "of_char c \<le> (127 :: nat)" if "c \<in> set k" for c
    using map_key_ok_chars [OF k that]
    by (auto simp: is_ascii_alphanumeric_def is_ascii_alphabetic_def Let_def)
  then have "\<forall>b \<in> set (as_bytes k). b \<le> 0x7F"
    by (auto simp: as_bytes_def word_le_nat_alt)
  then show ?thesis by (simp add: valid_string_def utf8_valid_ascii)
qed

end
