(* ===== verification/Micb_Decode.thy ===== *)
theory Micb_Decode
  imports Varint Map_Limits
begin

text \<open>
  \<^verbatim>\<open>src/ir/compact/v2/binary.rs\<close>, the MIC-B v2 decoder.  The state of a decode is the reader
  and the remaining string-clone budget (\<open>MicbDecoder::clone_budget\<close>); the string table is an
  argument once it has been read.  Every error of the source is a constructor of \<open>micb_error\<close>.
\<close>

datatype micb_error =
    MicbIo io_error
  | InvalidMagic "u8 list"
  | UnsupportedVersion u8
  | ElementCountTooLarge usize
  | InvalidUtf8StringTable
  | StringIndexOutOfBounds usize
  | CloneBudgetExceeded usize usize usize
  | SymbolIndexOutOfBounds usize
  | UnknownDtypeByte u8
  | TypeDimIndexOutOfBounds usize
  | ValueNameIndexOutOfBounds usize
  | ValueTypeIndexOutOfBounds usize
  | ForwardReferenceInput usize usize
  | UnknownValueTag u8
  | OutputOutOfBounds usize usize
  | UnexpectedByteAfterOutput u8
  | MapKeyIndexOutOfBounds usize
  | MapStringIndexOutOfBounds usize
  | MapLimit map_limit_error
  | MapDuplicateKey string
  | UnknownMapTag u8
  | UnknownOpcodeByte u8
  | CustomNameIndexOutOfBounds usize

definition MAX_MICB_ELEMENTS :: usize where "MAX_MICB_ELEMENTS = 16000000"
definition MAX_MICB_INPUT :: usize where "MAX_MICB_INPUT = 10 * 1024 * 1024"
definition MICB_CLONE_AMPLIFICATION_FACTOR :: usize where "MICB_CLONE_AMPLIFICATION_FACTOR = 64"
definition MICB_MIN_CLONE_BUDGET :: usize where "MICB_MIN_CLONE_BUDGET = 64 * 1024 * 1024"

type_synonym 'r dstate = "'r \<times> usize"

subsection \<open>The capped reader\<close>

record 'r limited_reader =
  lr_inner :: 'r
  lr_consumed :: usize

definition limited_reader_new :: "'r \<Rightarrow> 'r limited_reader" where
  "limited_reader_new r = \<lparr>lr_inner = r, lr_consumed = 0\<rparr>"

definition limited_read :: "'r read \<Rightarrow> 'r limited_reader read" where
  "limited_read rd l n =
     (let remaining = MAX_MICB_INPUT - lr_consumed l in
      if remaining = 0 then
        (if n = 0 then Inr ([], l)
         else case rd (lr_inner l) 1 of
           Inl e \<Rightarrow> Inl e
         | Inr (probe, r') \<Rightarrow>
             (if probe = [] then Inr ([], l\<lparr>lr_inner := r'\<rparr>)
              else Inl (InvalidData ''MIC-B input too large: exceeds MAX_MICB_INPUT'')))
      else
        (let cap = min n remaining in
         case rd (lr_inner l) cap of
           Inl e \<Rightarrow> Inl e
         | Inr (bs, r') \<Rightarrow> Inr (bs, \<lparr>lr_inner = r', lr_consumed = lr_consumed l + length bs\<rparr>)))"

subsection \<open>Primitive decoders\<close>

definition io :: "('r, io_error, 'a) stm \<Rightarrow> ('r dstate, micb_error, 'a) stm" where
  "io m = (\<lambda>(r, b). case m r of Inl e \<Rightarrow> Inl (MicbIo e) | Inr (x, r') \<Rightarrow> Inr (x, (r', b)))"

definition read_bounded_count :: "'r read \<Rightarrow> ('r dstate, micb_error, usize) stm" where
  "read_bounded_count rd =
     bindM (io (uleb128_read rd)) (\<lambda>v.
       let n = unat v in
       if n > MAX_MICB_ELEMENTS then failM (ElementCountTooLarge n) else returnM n)"

definition read_usize :: "'r read \<Rightarrow> ('r dstate, micb_error, usize) stm" where
  "read_usize rd = bindM (io (uleb128_read rd)) (\<lambda>v. returnM (unat v))"

definition clone_string :: "string list \<Rightarrow> usize \<Rightarrow> ('r dstate, micb_error, string) stm" where
  "clone_string strings idx = (\<lambda>(r, budget).
     if idx \<ge> length strings then Inl (StringIndexOutOfBounds idx)
     else let s = strings ! idx in
       if length s \<le> budget then Inr (s, (r, budget - length s))
       else Inl (CloneBudgetExceeded idx (length s) budget))"

text \<open>The call sites that check the index themselves, with their own diagnostic.\<close>

definition checked_clone :: "(usize \<Rightarrow> micb_error) \<Rightarrow> string list \<Rightarrow> usize \<Rightarrow> ('r dstate, micb_error, string) stm" where
  "checked_clone err strings idx =
     (if idx \<ge> length strings then failM (err idx) else clone_string strings idx)"

definition decode_string :: "'r read \<Rightarrow> ('r dstate, micb_error, string) stm" where
  "decode_string rd =
     bindM (read_bounded_count rd) (\<lambda>len.
     bindM (io (read_exact rd len)) (\<lambda>buf.
       case from_utf8 buf of None \<Rightarrow> failM InvalidUtf8StringTable | Some s \<Rightarrow> returnM s))"

definition clone_budget :: "string list \<Rightarrow> usize" where
  "clone_budget strings =
     (let strings_bytes = sum_list (map length strings)
      in max (min (strings_bytes * MICB_CLONE_AMPLIFICATION_FACTOR) (2 ^ 64 - 1)) MICB_MIN_CLONE_BUDGET)"

definition set_clone_budget :: "string list \<Rightarrow> ('r dstate, micb_error, unit) stm" where
  "set_clone_budget strings = (\<lambda>(r, _). Inr ((), (r, clone_budget strings)))"

definition decode_type :: "'r read \<Rightarrow> string list \<Rightarrow> ('r dstate, micb_error, tensor_type) stm" where
  "decode_type rd strings =
     bindM (io (read_u8 rd)) (\<lambda>dtype_byte.
       case dtype_from_byte dtype_byte of
         None \<Rightarrow> failM (UnknownDtypeByte dtype_byte)
       | Some d \<Rightarrow>
           bindM (read_bounded_count rd) (\<lambda>rank.
           bindM (repeatM rank (bindM (read_usize rd) (checked_clone TypeDimIndexOutOfBounds strings))) (\<lambda>shape.
             returnM (tensor_type_new d shape))))"

definition decode_axes :: "'r read \<Rightarrow> ('r dstate, micb_error, i64 list) stm" where
  "decode_axes rd = bindM (read_bounded_count rd) (\<lambda>n. repeatM n (io (sleb128_read rd)))"

definition decode_opcode :: "'r read \<Rightarrow> string list \<Rightarrow> ('r dstate, micb_error, opcode) stm" where
  "decode_opcode rd strings =
     bindM (io (read_u8 rd)) (\<lambda>b.
       if b = 0 then returnM OpMatmul
       else if b = 1 then returnM OpAdd
       else if b = 2 then returnM OpSub
       else if b = 3 then returnM OpMul
       else if b = 4 then returnM OpDiv
       else if b = 5 then returnM OpRelu
       else if b = 6 then bindM (io (sleb128_read rd)) (\<lambda>axis. returnM (OpSoftmax axis))
       else if b = 7 then returnM OpSigmoid
       else if b = 8 then returnM OpTanh
       else if b = 9 then returnM OpGelu
       else if b = 10 then returnM OpLayerNorm
       else if b = 11 then bindM (decode_axes rd) (\<lambda>perm. returnM (OpTranspose perm))
       else if b = 12 then returnM OpReshape
       else if b = 13 then bindM (decode_axes rd) (\<lambda>axes. returnM (OpSum axes))
       else if b = 14 then bindM (decode_axes rd) (\<lambda>axes. returnM (OpMean axes))
       else if b = 15 then bindM (decode_axes rd) (\<lambda>axes. returnM (OpMax axes))
       else if b = 16 then bindM (io (sleb128_read rd)) (\<lambda>axis. returnM (OpConcat axis))
       else if b = 17 then
         bindM (io (sleb128_read rd)) (\<lambda>axis. bindM (read_usize rd) (\<lambda>n. returnM (OpSplit axis n)))
       else if b = 18 then bindM (io (sleb128_read rd)) (\<lambda>axis. returnM (OpGather axis))
       else if b = 255 then
         bindM (read_usize rd) (\<lambda>idx.
         bindM (checked_clone CustomNameIndexOutOfBounds strings idx) (\<lambda>name. returnM (OpCustom name)))
       else failM (UnknownOpcodeByte b))"

definition decode_input :: "'r read \<Rightarrow> usize \<Rightarrow> ('r dstate, micb_error, usize) stm" where
  "decode_input rd current_id =
     bindM (read_usize rd) (\<lambda>inp.
       if inp \<ge> current_id then failM (ForwardReferenceInput inp current_id) else returnM inp)"

definition decode_value :: "'r read \<Rightarrow> string list \<Rightarrow> usize \<Rightarrow> usize \<Rightarrow> ('r dstate, micb_error, mic_value) stm" where
  "decode_value rd strings current_id n_types =
     bindM (io (read_u8 rd)) (\<lambda>tag.
       if tag = 0 \<or> tag = 1 then
         bindM (read_usize rd) (\<lambda>name_idx.
         bindM (read_usize rd) (\<lambda>type_idx.
           if name_idx \<ge> length strings then failM (ValueNameIndexOutOfBounds name_idx)
           else if type_idx \<ge> n_types then failM (ValueTypeIndexOutOfBounds type_idx)
           else bindM (clone_string strings name_idx) (\<lambda>name.
             returnM (if tag = 0 then VArg name type_idx else VParam name type_idx))))
       else if tag = 2 then
         bindM (decode_opcode rd strings) (\<lambda>op.
         bindM (read_bounded_count rd) (\<lambda>n_inputs.
         bindM (repeatM n_inputs (decode_input rd current_id)) (\<lambda>inputs. returnM (VNode op inputs))))
       else failM (UnknownValueTag tag))"

fun decode_values :: "'r read \<Rightarrow> string list \<Rightarrow> usize \<Rightarrow> usize \<Rightarrow> nat \<Rightarrow> ('r dstate, micb_error, mic_value list) stm" where
  "decode_values rd strings n_types vid 0 = returnM []"
| "decode_values rd strings n_types vid (Suc n) =
     bindM (decode_value rd strings vid n_types) (\<lambda>v.
     bindM (decode_values rd strings n_types (Suc vid) n) (\<lambda>vs. returnM (v # vs)))"

subsection \<open>The metadata map\<close>

function decode_map_entries :: "'r read \<Rightarrow> string list \<Rightarrow> usize \<Rightarrow> ('r dstate, micb_error, mic_map) stm"
  and decode_map_loop :: "'r read \<Rightarrow> string list \<Rightarrow> usize \<Rightarrow> nat \<Rightarrow> mic_map \<Rightarrow> ('r dstate, micb_error, mic_map) stm"
  and decode_map_value :: "'r read \<Rightarrow> string list \<Rightarrow> usize \<Rightarrow> ('r dstate, micb_error, map_value) stm" where
  "decode_map_entries rd strings depth =
     bindM (read_bounded_count rd) (\<lambda>n.
     bindM (liftR (map_err MapLimit (check_map_entry_count n))) (\<lambda>_.
       decode_map_loop rd strings depth n map_new))"
| "decode_map_loop rd strings depth 0 m = returnM m"
| "decode_map_loop rd strings depth (Suc n) m =
     bindM (liftR (map_err MapLimit (check_map_entry_count (recursive_entry_count m + 1)))) (\<lambda>_.
     bindM (read_usize rd) (\<lambda>key_idx.
       if key_idx \<ge> length strings then failM (MapKeyIndexOutOfBounds key_idx)
       else
         bindM (liftR (map_err MapLimit (check_map_key (strings ! key_idx)))) (\<lambda>_.
         bindM (clone_string strings key_idx) (\<lambda>key.
         bindM (decode_map_value rd strings depth) (\<lambda>value.
         bindM (liftR (map_err (\<lambda>_. MapDuplicateKey key) (insert_unique m key value))) (\<lambda>m'.
           decode_map_loop rd strings depth n m'))))))"
| "decode_map_value rd strings depth =
     bindM (io (read_u8 rd)) (\<lambda>tag.
       if tag = 0 then
         bindM (read_usize rd) (\<lambda>idx.
           if idx \<ge> length strings then failM (MapStringIndexOutOfBounds idx)
           else bindM (liftR (map_err MapLimit (check_map_string_len (length (strings ! idx))))) (\<lambda>_.
             bindM (clone_string strings idx) (\<lambda>s. returnM (MapString s))))
       else if tag = 1 then bindM (io (sleb128_read rd)) (\<lambda>i. returnM (MapInt i))
       else if tag = 2 then
         bindM (read_bounded_count rd) (\<lambda>len.
         bindM (liftR (map_err MapLimit (check_map_bytes_len len))) (\<lambda>_.
         bindM (io (read_exact rd len)) (\<lambda>buf. returnM (MapBytes buf))))
       else if tag = 3 then
         (case check_map_nesting_depth depth of
            Inl e \<Rightarrow> failM (MapLimit e)
          | Inr _ \<Rightarrow> bindM (decode_map_entries rd strings (depth + 1)) (\<lambda>inner. returnM (MapNested inner)))
       else failM (UnknownMapTag tag))"
  by pat_completeness auto
termination
  by (relation "measures
    [\<lambda>x. case x of Inl (rd, ss, d) \<Rightarrow> MAX_MAP_NESTING - d
       | Inr (Inl (rd, ss, d, n, m)) \<Rightarrow> MAX_MAP_NESTING - d
       | Inr (Inr (rd, ss, d)) \<Rightarrow> MAX_MAP_NESTING - d,
     \<lambda>x. case x of Inl _ \<Rightarrow> 2 | Inr (Inl _) \<Rightarrow> 1 | Inr (Inr _) \<Rightarrow> (0::nat),
     \<lambda>x. case x of Inr (Inl (rd, ss, d, n, m)) \<Rightarrow> n | _ \<Rightarrow> 0]")
    (auto simp: check_map_nesting_depth_def split: if_splits)

declare decode_map_entries.simps [simp del] decode_map_value.simps [simp del]

text \<open>EOF after the output varint means there is no map; any byte but the marker is an error.\<close>

definition decode_map_section :: "'r read \<Rightarrow> string list \<Rightarrow> ('r dstate, micb_error, mic_map) stm" where
  "decode_map_section rd strings = (\<lambda>(r, b).
     case read_u8 rd r of
       Inl e \<Rightarrow> if e = UnexpectedEof then Inr (map_new, (r, b)) else Inl (MicbIo e)
     | Inr (sentinel, r') \<Rightarrow>
         if sentinel \<noteq> 0x4D then Inl (UnexpectedByteAfterOutput sentinel)
         else decode_map_entries rd strings 0 (r', b))"

subsection \<open>The whole artifact\<close>

definition decode_body :: "'r read \<Rightarrow> string list \<Rightarrow> ('r dstate, micb_error, graph) stm" where
  "decode_body rd strings =
     bindM (set_clone_budget strings) (\<lambda>_.
     bindM (read_bounded_count rd) (\<lambda>n_symbols.
     bindM (repeatM n_symbols (bindM (read_usize rd) (checked_clone SymbolIndexOutOfBounds strings))) (\<lambda>symbols.
     bindM (read_bounded_count rd) (\<lambda>n_types.
     bindM (repeatM n_types (decode_type rd strings)) (\<lambda>types.
     bindM (read_bounded_count rd) (\<lambda>n_values.
     bindM (decode_values rd strings (length types) 0 n_values) (\<lambda>values.
     bindM (read_usize rd) (\<lambda>output.
       if output \<ge> length values \<and> values \<noteq> [] then failM (OutputOutOfBounds output (length values - 1))
       else bindM (decode_map_section rd strings) (\<lambda>m.
         returnM \<lparr>g_symbols = symbols, g_types = types, g_values = values, g_output = output, g_map = m\<rparr>)))))))))"

definition decode :: "'r read \<Rightarrow> ('r dstate, micb_error, graph) stm" where
  "decode rd =
     bindM (io (read_exact rd 4)) (\<lambda>magic.
       if magic \<noteq> MICB_MAGIC then failM (InvalidMagic magic)
       else bindM (io (read_u8 rd)) (\<lambda>version.
         if version \<noteq> MICB_VERSION then failM (UnsupportedVersion version)
         else bindM (read_bounded_count rd) (\<lambda>n_strings.
           bindM (repeatM n_strings (decode_string rd)) (\<lambda>strings. decode_body rd strings))))"

definition parse_micb :: "'r read \<Rightarrow> 'r \<Rightarrow> micb_error + graph" where
  "parse_micb rd r =
     rbind (decode (limited_read rd) (limited_reader_new r, MICB_MIN_CLONE_BUDGET)) (\<lambda>(g, _). Inr g)"

end
