(* ===== verification/Micb_Roundtrip.thy ===== *)
theory Micb_Roundtrip
  imports Micb_Encode Micb_Decode
begin

text \<open>
  The MIC-B decoder inverts the encoder.  Each decoder of \<^verbatim>\<open>binary.rs\<close> is shown to consume
  exactly the bytes of its encoder and to charge the clone budget by the strings it copies; the
  laws are proved once for any reader that meets \<open>byte_source\<close> and then used for the capped reader.
\<close>

abbreviation wire ::
  "('r \<Rightarrow> u8 list) \<Rightarrow> ('r \<Rightarrow> bool) \<Rightarrow> ('r dstate, micb_error, 'a) stm \<Rightarrow> u8 list \<Rightarrow> nat \<Rightarrow> 'a \<Rightarrow> bool" where
  "wire pending good \<equiv> decodes (\<lambda>(r, b). pending r) (\<lambda>c (r, b). good r \<and> c \<le> b)"

definition coherent :: "(string \<rightharpoonup> usize) \<Rightarrow> string list \<Rightarrow> bool" where
  "coherent smap strings \<longleftrightarrow>
     length strings < 2 ^ 64 \<and> (\<forall>s i. smap s = Some i \<longrightarrow> i < length strings \<and> strings ! i = s)"

lemma decodes_cong_cost: "decodes pd gd m bs c x \<Longrightarrow> bs = bs' \<Longrightarrow> c = c' \<Longrightarrow> decodes pd gd m bs' c' x"
  by simp

lemma wire_io: "decodes pending (\<lambda>_. good) m bs 0 x \<Longrightarrow> wire pending good (io m) bs 0 x"
proof (rule decodesI, clarsimp)
  fix r and b :: usize and rest c' assume "decodes pending (\<lambda>_. good) m bs 0 x" "good r" "pending r = bs @ rest" "c' \<le> b"
  then obtain t where "m r = Inr (x, t)" "good t" "pending t = rest"
    unfolding decodes_def by fastforce
  with \<open>c' \<le> b\<close> show "\<exists>r' b'. io m (r, b) = Inr (x, r', b') \<and> good r' \<and> c' \<le> b' \<and> pending r' = rest"
    by (simp add: io_def)
qed

lemma wire_liftR: "m = Inr x \<Longrightarrow> wire pending good (liftR m) [] 0 x"
  by (rule decodesI) auto

lemma wire_lift: "m = Inr x \<Longrightarrow> wire pending good (f x) bs c y \<Longrightarrow> wire pending good (bindM (liftR m) f) bs c y"
  by (rule decodes_bindI [OF wire_liftR]) simp_all

lemma wire_clone_string:
  "i < length strings \<Longrightarrow> strings ! i = s \<Longrightarrow> wire pending good (clone_string strings i) [] (length s) s"
  by (rule decodesI) (auto simp: clone_string_def)

lemma wire_checked_clone:
  "i < length strings \<Longrightarrow> strings ! i = s \<Longrightarrow> wire pending good (checked_clone err strings i) [] (length s) s"
  by (simp add: checked_clone_def wire_clone_string not_le)

lemma MAX_MICB_ELEMENTS_u64: "n \<le> MAX_MICB_ELEMENTS \<Longrightarrow> n < 2 ^ 64"
  by (simp add: MAX_MICB_ELEMENTS_def)

lemma unat_count [simp]: "n \<le> MAX_MICB_ELEMENTS \<Longrightarrow> unat (of_nat n :: u64) = n"
  by (rule unat_of_nat_u64, rule MAX_MICB_ELEMENTS_u64)

lemma length_concat_ge: "\<forall>bs \<in> set bss. bs \<noteq> [] \<Longrightarrow> length bss \<le> length (concat bss)"
  by (induction bss) (auto simp: Suc_le_eq simp flip: length_greater_0_conv)

lemma traverse_length_le:
  assumes "traverse f xs = Some bss" "\<And>x bs. f x = Some bs \<Longrightarrow> bs \<noteq> []"
  shows "length xs \<le> length (concat bss)"
proof -
  have "list_all2 (\<lambda>x bs. f x = Some bs) xs bss" by (rule traverse_SomeD [OF assms(1)])
  then have "length bss = length xs" "\<forall>bs \<in> set bss. bs \<noteq> []"
    using assms(2) by (auto simp: list_all2_conv_all_nth in_set_conv_nth) (metis)
  with length_concat_ge show ?thesis by metis
qed

lemma encode_nonempty:
  "encode_index smap s = Some bs \<Longrightarrow> bs \<noteq> []"
  "encode_type smap t = Some bs \<Longrightarrow> bs \<noteq> []"
  "encode_value smap v = Some bs \<Longrightarrow> bs \<noteq> []"
  by (auto simp: encode_index_def encode_type_def split: bind_splits) (cases v; auto split: bind_splits)

lemma sleb128_write_nonempty [simp]: "sleb128_write v \<noteq> []"
  by (simp add: sleb128_write_def)

context byte_source
begin

lemma wire_read_u8: "wire pending good (io (read_u8 rd)) [b] 0 b"
  by (rule wire_io [OF decodes_read_u8])

lemma wire_tag: "wire pending good (f b) bs c y \<Longrightarrow> wire pending good (bindM (io (read_u8 rd)) f) (b # bs) c y"
  by (rule decodes_bindI [OF wire_read_u8]) simp_all

lemma wire_read_bounded_count:
  "n \<le> MAX_MICB_ELEMENTS \<Longrightarrow> wire pending good (read_bounded_count rd) (encode_count n) 0 n"
  unfolding read_bounded_count_def encode_count_def
  by (rule decodes_bindI [OF wire_io [OF decodes_uleb128_read], where bsb = "[]" and cb = 0])
    (auto simp: Let_def intro: decodesI)

lemma wire_read_usize: "n < 2 ^ 64 \<Longrightarrow> wire pending good (read_usize rd) (uleb128_write (of_nat n)) 0 n"
  using decodes_map [OF wire_io [OF decodes_uleb128_read [of "of_nat n"]], of unat] by (simp add: read_usize_def)

lemma wire_sleb128: "wire pending good (io (sleb128_read rd)) (sleb128_write v) 0 v"
  by (rule wire_io [OF decodes_sleb128_read])

lemma wire_index:
  assumes "coherent smap strings" "encode_index smap s = Some bs"
    and "\<And>i. i < length strings \<Longrightarrow> strings ! i = s \<Longrightarrow> wire pending good (f i) bs' c y"
    and "bs'' = bs @ bs'"
  shows "wire pending good (bindM (read_usize rd) f) bs'' c y"
proof -
  obtain i where i: "smap s = Some i" "bs = uleb128_write (of_nat i)"
    using assms(2) by (auto simp: encode_index_def split: bind_splits)
  then have "i < length strings" "strings ! i = s" "i < 2 ^ 64"
    using assms(1) by (auto simp: coherent_def intro: less_trans)
  with i assms(3,4) show ?thesis by (intro decodes_bindI [OF wire_read_usize]) auto
qed

lemma wire_index_clone:
  assumes "coherent smap strings" "encode_index smap s = Some bs"
  shows "wire pending good (bindM (read_usize rd) (checked_clone err strings)) bs (length s) s"
  using assms by (rule wire_index) (auto intro: wire_checked_clone)

lemma wire_indices_clone:
  assumes "coherent smap strings" "traverse (encode_index smap) ss = Some bss"
  shows "wire pending good (repeatM (length ss) (bindM (read_usize rd) (checked_clone err strings)))
    (concat bss) (sum_list (map length ss)) ss"
  by (rule decodes_repeatM, rule list_all2_mono [OF traverse_SomeD [OF assms(2)]])
    (rule wire_index_clone [OF assms(1)])

lemma wire_decode_string:
  assumes "valid_string s" "length s \<le> MAX_MICB_ELEMENTS"
  shows "wire pending good (decode_string rd) (encode_string s) 0 s"
  unfolding decode_string_def encode_string_def
proof (rule decodes_bindI [OF wire_read_bounded_count, where bsb = "as_bytes s" and cb = 0])
  have "wire pending good (io (read_exact rd (length s))) (as_bytes s) 0 (as_bytes s)"
    using wire_io [OF decodes_read_exact [of "as_bytes s"]] by simp
  then show "wire pending good (bindM (io (read_exact rd (length (as_bytes s))))
      (\<lambda>buf. case from_utf8 buf of None \<Rightarrow> failM InvalidUtf8StringTable | Some s \<Rightarrow> returnM s)) (as_bytes s) 0 s"
    by (intro decodes_bindI [where bsb = "[]" and cb = 0]) (auto simp: assms(1) intro: decodesI)
qed (simp_all add: assms(2))

lemma wire_decode_axes:
  assumes "length (encode_axes axes) \<le> MAX_MICB_ELEMENTS"
  shows "wire pending good (decode_axes rd) (encode_axes axes) 0 axes"
proof -
  have "length axes \<le> length (concat (map sleb128_write axes))"
    using length_concat_ge [of "map sleb128_write axes"] by simp
  then have n: "length axes \<le> MAX_MICB_ELEMENTS" using assms by (simp add: encode_axes_def)
  have "wire pending good (repeatM (length axes) (io (sleb128_read rd))) (concat (map sleb128_write axes))
      (sum_list (map (\<lambda>_. 0) axes)) axes"
    by (rule decodes_repeatM) (simp add: list_all2_conv_all_nth wire_sleb128)
  then show ?thesis unfolding decode_axes_def encode_axes_def
    by (intro decodes_bindI [OF wire_read_bounded_count [OF n]]) auto
qed

end

subsection \<open>Operations, values, types\<close>

definition opcode_cost :: "opcode \<Rightarrow> nat" where
  "opcode_cost op = (case op of OpCustom name \<Rightarrow> length name | _ \<Rightarrow> 0)"

definition opcode_wire_ok :: "opcode \<Rightarrow> bool" where
  "opcode_wire_ok op = (case op of OpSplit _ n \<Rightarrow> n < 2 ^ 64 | _ \<Rightarrow> True)"

definition value_cost :: "mic_value \<Rightarrow> nat" where
  "value_cost v = (case value_name v of Some s \<Rightarrow> length s | None \<Rightarrow> 0)"

definition value_wire_ok :: "mic_value \<Rightarrow> bool" where
  "value_wire_ok v = (case v of VNode op _ \<Rightarrow> opcode_wire_ok op | _ \<Rightarrow> True)"

definition type_cost :: "tensor_type \<Rightarrow> nat" where
  "type_cost t = sum_list (map length (tt_shape t))"

context byte_source
begin

lemma wire_decode_opcode:
  assumes "coherent smap strings" "encode_opcode smap op = Some bs"
    and "length bs \<le> MAX_MICB_ELEMENTS" "opcode_wire_ok op"
  shows "wire pending good (decode_opcode rd strings) bs (opcode_cost op) op"
proof -
  obtain ps where ps: "encode_opcode_params smap op = Some ps" "bs = opcode_to_byte op # ps"
    using assms(2) by (auto simp: encode_opcode_def split: bind_splits)
  have axis: "wire pending good (bindM (io (sleb128_read rd)) (\<lambda>axis. returnM (h axis))) (sleb128_write a) 0 (h a)"
    for a and h :: "i64 \<Rightarrow> opcode"
    by (rule decodes_map, rule wire_sleb128)
  have axes: "wire pending good (bindM (decode_axes rd) (\<lambda>axes. returnM (h axes))) (encode_axes a) 0 (h a)"
    if "length (encode_axes a) \<le> MAX_MICB_ELEMENTS" for a and h :: "i64 list \<Rightarrow> opcode"
    using that by (intro decodes_map wire_decode_axes)
  have split: "wire pending good
      (bindM (io (sleb128_read rd)) (\<lambda>axis. bindM (read_usize rd) (\<lambda>n. returnM (OpSplit axis n))))
      (sleb128_write a @ uleb128_write (of_nat n)) 0 (OpSplit a n)" if "n < 2 ^ 64" for a n
    by (rule decodes_bindI [OF wire_sleb128 decodes_map [OF wire_read_usize [OF that]]]) simp_all
  have custom: "wire pending good (bindM (read_usize rd) (\<lambda>idx.
      bindM (checked_clone CustomNameIndexOutOfBounds strings idx) (\<lambda>name. returnM (OpCustom name))))
      ps (length name) (OpCustom name)" if "encode_index smap name = Some ps" for name
    by (rule wire_index [OF assms(1) that decodes_map [OF wire_checked_clone]]) simp_all
  have len: "length ps \<le> MAX_MICB_ELEMENTS" using assms(3) ps by simp
  show ?thesis unfolding decode_opcode_def ps(2)
    by (rule wire_tag)
      (use ps len assms(4) in \<open>cases op;
        auto simp: opcode_cost_def opcode_wire_ok_def decodes_returnM axis [of OpSoftmax] axis [of OpConcat]
          axis [of OpGather] axes [of _ OpTranspose] axes [of _ OpSum] axes [of _ OpMean] axes [of _ OpMax]
          split custom simp del: returnM_apply\<close>)
qed

lemma wire_decode_inputs:
  assumes "\<forall>i \<in> set inputs. i < current_id" "current_id \<le> 2 ^ 64"
  shows "wire pending good (repeatM (length inputs) (decode_input rd current_id))
    (concat (map (\<lambda>i. uleb128_write (of_nat i)) inputs)) 0 inputs"
proof -
  have "wire pending good (decode_input rd current_id) (uleb128_write (of_nat i)) 0 i" if "i < current_id" for i
    unfolding decode_input_def using that assms(2)
    by (intro decodes_bindI [OF wire_read_usize, where bsb = "[]" and cb = 0]) (auto intro: decodesI)
  then have "wire pending good (repeatM (length inputs) (decode_input rd current_id))
    (concat (map (\<lambda>i. uleb128_write (of_nat i)) inputs)) (sum_list (map (\<lambda>_. 0) inputs)) inputs"
    using assms(1) by (intro decodes_repeatM) (simp add: list_all2_conv_all_nth)
  then show ?thesis by simp
qed

lemma wire_decode_named:
  assumes "coherent smap strings" "encode_index smap name = Some n" "t < n_types" "n_types < 2 ^ 64"
  shows "wire pending good (bindM (read_usize rd) (\<lambda>name_idx.
         bindM (read_usize rd) (\<lambda>type_idx.
           if name_idx \<ge> length strings then failM (ValueNameIndexOutOfBounds name_idx)
           else if type_idx \<ge> n_types then failM (ValueTypeIndexOutOfBounds type_idx)
           else bindM (clone_string strings name_idx) (\<lambda>name. returnM (mk name type_idx)))))
      (n @ uleb128_write (of_nat t)) (length name) (mk name t)"
  using assms(1,2)
proof (rule wire_index)
  fix i assume i: "i < length strings" "strings ! i = name"
  have "t < 2 ^ 64" using assms(3,4) by (rule less_trans)
  then show "wire pending good (bindM (read_usize rd) (\<lambda>type_idx.
           if i \<ge> length strings then failM (ValueNameIndexOutOfBounds i)
           else if type_idx \<ge> n_types then failM (ValueTypeIndexOutOfBounds type_idx)
           else bindM (clone_string strings i) (\<lambda>name. returnM (mk name type_idx))))
         (uleb128_write (of_nat t)) (length name) (mk name t)"
    by (rule decodes_bindI [OF wire_read_usize, where bsb = "[]" and cb = "length name"])
      (use i assms(3) in \<open>auto intro: decodes_map wire_clone_string simp del: returnM_apply\<close>)
qed simp

lemma wire_decode_value:
  assumes "coherent smap strings" "encode_value smap v = Some bs" "length bs \<le> MAX_MICB_ELEMENTS"
    and "value_ok n_types vid v" "n_types < 2 ^ 64" "vid \<le> 2 ^ 64" "value_wire_ok v"
  shows "wire pending good (decode_value rd strings vid n_types) bs (value_cost v) v"
proof (cases v)
  case (VNode op inputs)
  let ?ins = "concat (map (\<lambda>i. uleb128_write (of_nat i)) inputs)"
  obtain ob where ob: "encode_opcode smap op = Some ob" "bs = 2 # ob @ encode_count (length inputs) @ ?ins"
    using assms(2) VNode by (auto split: bind_splits)
  have "length inputs \<le> length ?ins"
    using length_concat_ge [of "map (\<lambda>i. uleb128_write (of_nat i)) inputs"] by simp
  then have n: "length inputs \<le> MAX_MICB_ELEMENTS" "length ob \<le> MAX_MICB_ELEMENTS"
    using assms(3) ob(2) by auto
  have ins: "\<forall>i \<in> set inputs. i < vid" using assms(4) VNode by (simp add: value_ok_def)
  have "wire pending good (bindM (decode_opcode rd strings) (\<lambda>op.
      bindM (read_bounded_count rd) (\<lambda>n_inputs.
      bindM (repeatM n_inputs (decode_input rd vid)) (\<lambda>inputs. returnM (VNode op inputs)))))
    (ob @ encode_count (length inputs) @ ?ins) (opcode_cost op) (VNode op inputs)"
    by (rule decodes_bindI [OF wire_decode_opcode [OF assms(1) ob(1) n(2)]],
        (use assms(7) VNode in \<open>simp add: value_wire_ok_def\<close>),
        rule decodes_bindI [OF wire_read_bounded_count [OF n(1)]],
        rule decodes_map [OF wire_decode_inputs [OF ins assms(6)]]) simp_all
  moreover have "value_cost v = opcode_cost op"
    using VNode by (cases op) (simp_all add: value_cost_def opcode_cost_def value_name_def)
  ultimately show ?thesis unfolding decode_value_def ob(2)
    using VNode by (intro wire_tag) auto
next
  case (VArg name t)
  then obtain n where n: "encode_index smap name = Some n" "bs = 0 # n @ uleb128_write (of_nat t)"
    using assms(2) by (auto split: bind_splits)
  from wire_decode_named [OF assms(1) n(1) _ assms(5), of t VArg] VArg assms(4)
  show ?thesis unfolding decode_value_def n(2)
    by (intro wire_tag) (auto simp: value_ok_def value_cost_def value_name_def cong: if_cong)
next
  case (VParam name t)
  then obtain n where n: "encode_index smap name = Some n" "bs = 1 # n @ uleb128_write (of_nat t)"
    using assms(2) by (auto split: bind_splits)
  from wire_decode_named [OF assms(1) n(1) _ assms(5), of t VParam] VParam assms(4)
  show ?thesis unfolding decode_value_def n(2)
    by (intro wire_tag) (auto simp: value_ok_def value_cost_def value_name_def cong: if_cong)
qed

lemma wire_decode_values:
  assumes "coherent smap strings" "traverse (encode_value smap) vs = Some bss"
    and "length (concat bss) \<le> MAX_MICB_ELEMENTS" "n_types < 2 ^ 64" "vid + length vs \<le> 2 ^ 64"
    and "\<forall>i < length vs. value_ok n_types (vid + i) (vs ! i)" "\<forall>v \<in> set vs. value_wire_ok v"
  shows "wire pending good (decode_values rd strings n_types vid (length vs)) (concat bss)
    (sum_list (map value_cost vs)) vs"
  using assms(2-)
proof (induction vs arbitrary: vid bss)
  case Nil
  then show ?case by (auto intro: decodesI)
next
  case (Cons v vs)
  obtain b bss' where b: "encode_value smap v = Some b" "traverse (encode_value smap) vs = Some bss'"
    "bss = b # bss'" using Cons.prems(1) by (auto split: bind_splits)
  have v: "wire pending good (decode_value rd strings vid n_types) b (value_cost v) v"
    using wire_decode_value [OF assms(1) b(1)] Cons.prems b by fastforce
  have vs: "wire pending good (decode_values rd strings n_types (Suc vid) (length vs)) (concat bss')
      (sum_list (map value_cost vs)) vs"
    using Cons.prems b by (intro Cons.IH) auto
  show ?case unfolding length_Cons decode_values.simps
    by (rule decodes_bindI [OF v decodes_map [OF vs]]) (simp_all add: b)
qed

lemma wire_decode_type:
  assumes "coherent smap strings" "encode_type smap t = Some bs" "length bs \<le> MAX_MICB_ELEMENTS"
  shows "wire pending good (decode_type rd strings) bs (type_cost t) t"
proof -
  obtain ds where ds: "traverse (encode_index smap) (tt_shape t) = Some ds"
    "bs = dtype_to_byte (tt_dtype t) # encode_count (length (tt_shape t)) @ concat ds"
    using assms(2) by (auto simp: encode_type_def split: bind_splits)
  have n: "length (tt_shape t) \<le> MAX_MICB_ELEMENTS"
    using traverse_length_le [OF ds(1)] encode_nonempty(1) [of smap] assms(3) ds(2) by fastforce
  have "wire pending good (bindM (read_bounded_count rd) (\<lambda>rank.
      bindM (repeatM rank (bindM (read_usize rd) (checked_clone TypeDimIndexOutOfBounds strings)))
        (\<lambda>shape. returnM (tensor_type_new (tt_dtype t) shape))))
    (encode_count (length (tt_shape t)) @ concat ds) (type_cost t) (tensor_type_new (tt_dtype t) (tt_shape t))"
    by (rule decodes_bindI [OF wire_read_bounded_count [OF n]],
        rule decodes_map [OF wire_indices_clone [OF assms(1) ds(1)]]) (simp_all add: type_cost_def)
  moreover have "tensor_type_new (tt_dtype t) (tt_shape t) = t" by (simp add: tensor_type_new_def)
  ultimately show ?thesis unfolding decode_type_def ds(2) by (intro wire_tag) simp
qed

end

subsection \<open>The metadata map\<close>

text \<open>The documented limits: keys, sizes and nesting of every entry, and the recursive entry count.\<close>

fun map_value_within :: "usize \<Rightarrow> map_value \<Rightarrow> bool"
  and map_entries_within :: "usize \<Rightarrow> mic_map \<Rightarrow> bool" where
  "map_value_within depth (MapString s) \<longleftrightarrow> length s \<le> MAX_MAP_STRING_BYTES"
| "map_value_within depth (MapInt i) \<longleftrightarrow> True"
| "map_value_within depth (MapBytes b) \<longleftrightarrow> length b \<le> MAX_MAP_BYTES"
| "map_value_within depth (MapNested es) \<longleftrightarrow>
     depth < MAX_MAP_NESTING \<and> distinct (map fst es) \<and> map_entries_within (Suc depth) es"
| "map_entries_within depth [] \<longleftrightarrow> True"
| "map_entries_within depth ((k, v) # es) \<longleftrightarrow>
     map_key_ok k \<and> map_value_within depth v \<and> map_entries_within depth es"

definition map_within :: "mic_map \<Rightarrow> bool" where
  "map_within m \<longleftrightarrow> recursive_entry_count m \<le> MAX_MAP_ENTRIES \<and> distinct (map fst m) \<and> map_entries_within 0 m"

definition map_cost :: "mic_map \<Rightarrow> nat" where
  "map_cost m = sum_list (map length (map_strings m))"

definition map_value_cost :: "map_value \<Rightarrow> nat" where
  "map_value_cost v = sum_list (map length (map_value_strings v))"

lemma map_cost_simps [simp]:
  "map_cost [] = 0"
  "map_cost ((k, v) # es) = length k + map_value_cost v + map_cost es"
  by (simp_all add: map_cost_def map_value_cost_def)

lemma map_value_cost_simps [simp]:
  "map_value_cost (MapString s) = length s"
  "map_value_cost (MapInt i) = 0"
  "map_value_cost (MapBytes b) = 0"
  "map_value_cost (MapNested es) = map_cost es"
  by (simp_all add: map_cost_def map_value_cost_def)

lemma map_entries_within_all:
  "map_entries_within d es \<longleftrightarrow> (\<forall>(k, v) \<in> set es. map_key_ok k \<and> map_value_within d v)"
  by (induction es) auto

lemma map_cost_sum: "map_cost es = sum_list (map (\<lambda>(k, v). length k + map_value_cost v) es)"
  by (induction es) auto

lemma recursive_entry_count_sum: "recursive_entry_count es = sum_list (map (\<lambda>(k, v). 1 + value_entry_count v) es)"
  by (induction es) auto

lemma sum_list_sort_key [simp]: "sum_list (map f (sort_key g xs)) = (sum_list (map f xs) :: nat)"
  by (metis mset_map mset_sort sum_mset_sum_list)

lemma iter_canonical_laws [simp]:
  "map_cost (iter_canonical es) = map_cost es"
  "recursive_entry_count (iter_canonical es) = recursive_entry_count es"
  "map_entries_within d (iter_canonical es) = map_entries_within d es"
  "length (iter_canonical es) = length es"
  by (simp_all add: iter_canonical_def map_cost_sum recursive_entry_count_sum map_entries_within_all)

lemma distinct_iter_canonical [simp]: "distinct (map fst (iter_canonical es)) \<longleftrightarrow> distinct (map fst es)"
  by (rule mset_eq_imp_distinct_iff) (simp add: iter_canonical_def)

lemma length_le_recursive: "length es \<le> recursive_entry_count es"
  by (induction es) auto

lemma recursive_entry_count_append [simp]:
  "recursive_entry_count (es @ fs) = recursive_entry_count es + recursive_entry_count fs"
  by (simp add: recursive_entry_count_sum)

lemma canonical_entry_count [simp]:
  "value_entry_count (canonical_value v) = value_entry_count v"
  "recursive_entry_count (canonical_entries es) = recursive_entry_count es"
proof (induction v and es rule: canonical_value_canonical_entries.induct)
  case (1 es)
  then show ?case using iter_canonical_laws(2) [of "canonical_entries es"] by (simp add: iter_canonical_def)
qed auto

lemma check_count_Inr: "n \<le> MAX_MAP_ENTRIES \<Longrightarrow> map_err f (check_map_entry_count n) = Inr ()"
  by (simp add: check_map_entry_count_def)

lemma insert_unique_Inr: "k \<notin> fst ` set m \<Longrightarrow> map_err f (insert_unique m k v) = Inr (m @ [(k, v)])"
  by (force simp: insert_unique_def list_ex_iff)

context byte_source
begin

lemma wire_decode_map_entries:
  assumes "wire pending good (decode_map_loop rd strings depth n map_new) bs c m"
    and "n \<le> MAX_MAP_ENTRIES"
  shows "wire pending good (decode_map_entries rd strings depth) (encode_count n @ bs) c m"
proof -
  have "n \<le> MAX_MICB_ELEMENTS" using assms(2) by (simp add: MAX_MAP_ENTRIES_def MAX_MICB_ELEMENTS_def)
  then show ?thesis unfolding decode_map_entries.simps
    by (rule decodes_bindI [OF wire_read_bounded_count])
      (rule decodes_bindI [OF wire_liftR [OF check_count_Inr [OF assms(2)]] assms(1)], simp_all)
qed

lemma wire_map_string:
  assumes "coherent smap strings" "encode_index smap s = Some i" "length s \<le> MAX_MAP_STRING_BYTES"
  shows "wire pending good (decode_map_value rd strings depth) (0 # i) (length s) (MapString s)"
proof -
  have "wire pending good (bindM (read_usize rd) (\<lambda>idx.
           if idx \<ge> length strings then failM (MapStringIndexOutOfBounds idx)
           else bindM (liftR (map_err MapLimit (check_map_string_len (length (strings ! idx))))) (\<lambda>_.
             bindM (clone_string strings idx) (\<lambda>s. returnM (MapString s))))) i (length s) (MapString s)"
    using assms(1,2)
  proof (rule wire_index)
    fix j assume j: "j < length strings" "strings ! j = s"
    have "wire pending good (bindM (clone_string strings j) (\<lambda>s. returnM (MapString s))) [] (length s) (MapString s)"
      by (rule decodes_map, rule wire_clone_string [OF j])
    moreover have "check_map_string_len (length (strings ! j)) = Inr ()"
      using assms(3) j by (simp add: check_map_string_len_def)
    ultimately show "wire pending good (if j \<ge> length strings then failM (MapStringIndexOutOfBounds j)
           else bindM (liftR (map_err MapLimit (check_map_string_len (length (strings ! j))))) (\<lambda>_.
             bindM (clone_string strings j) (\<lambda>s. returnM (MapString s)))) [] (length s) (MapString s)"
      using j by (simp add: wire_lift del: returnM_apply)
  qed simp
  then show ?thesis unfolding decode_map_value.simps by (intro wire_tag) simp
qed

text \<open>One round of the entry loop.\<close>

lemma wire_map_step:
  assumes "coherent smap strings" "encode_index smap k = Some i"
    and "map_key_ok k" "k \<notin> fst ` set acc" "recursive_entry_count acc + 1 \<le> MAX_MAP_ENTRIES"
    and v: "wire pending good (decode_map_value rd strings depth) b cv v"
    and es: "wire pending good (decode_map_loop rd strings depth n (acc @ [(k, v)])) cs ces m"
  shows "wire pending good (decode_map_loop rd strings depth (Suc n) acc) (i @ b @ cs) (length k + cv + ces) m"
proof -
  note cnt = check_count_Inr [OF assms(5), of MapLimit]
    and ins = insert_unique_Inr [OF assms(4), of "\<lambda>_. MapDuplicateKey k" v]
  have key: "map_err MapLimit (check_map_key k) = Inr ()" using assms(3) by (simp add: check_map_key_iff)
  have rest: "wire pending good (bindM (clone_string strings j) (\<lambda>key.
         bindM (decode_map_value rd strings depth) (\<lambda>value.
         bindM (liftR (map_err (\<lambda>_. MapDuplicateKey key) (insert_unique acc key value))) (\<lambda>m'.
           decode_map_loop rd strings depth n m')))) (b @ cs) (length k + cv + ces) m"
    if "j < length strings" "strings ! j = k" for j
    by (rule decodes_bindI [OF wire_clone_string [OF that]], rule decodes_bindI [OF v],
        rule wire_lift [OF ins], rule es) simp_all
  have "wire pending good (bindM (read_usize rd) (\<lambda>key_idx.
       if key_idx \<ge> length strings then failM (MapKeyIndexOutOfBounds key_idx)
       else
         bindM (liftR (map_err MapLimit (check_map_key (strings ! key_idx)))) (\<lambda>_.
         bindM (clone_string strings key_idx) (\<lambda>key.
         bindM (decode_map_value rd strings depth) (\<lambda>value.
         bindM (liftR (map_err (\<lambda>_. MapDuplicateKey key) (insert_unique acc key value))) (\<lambda>m'.
           decode_map_loop rd strings depth n m')))))) (i @ b @ cs) (length k + cv + ces) m"
    using assms(1,2)
  proof (rule wire_index)
    fix j assume j: "j < length strings" "strings ! j = k"
    from wire_lift [where f = "\<lambda>_. _", OF key rest [OF j]] j
    show "wire pending good (if j \<ge> length strings then failM (MapKeyIndexOutOfBounds j)
       else
         bindM (liftR (map_err MapLimit (check_map_key (strings ! j)))) (\<lambda>_.
         bindM (clone_string strings j) (\<lambda>key.
         bindM (decode_map_value rd strings depth) (\<lambda>value.
         bindM (liftR (map_err (\<lambda>_. MapDuplicateKey key) (insert_unique acc key value))) (\<lambda>m'.
           decode_map_loop rd strings depth n m'))))) (b @ cs) (length k + cv + ces) m" by simp
  qed simp
  then show ?thesis unfolding decode_map_loop.simps by (rule wire_lift [OF cnt])
qed

lemma wire_map:
  "coherent smap strings \<Longrightarrow> encode_map_value smap v = Some bs \<Longrightarrow> map_value_within depth v \<Longrightarrow>
      value_entry_count v \<le> MAX_MAP_ENTRIES \<Longrightarrow>
      wire pending good (decode_map_value rd strings depth) bs (map_value_cost v) (canonical_value v)"
  "coherent smap strings \<Longrightarrow> encode_map_loop smap es = Some bs \<Longrightarrow> map_entries_within depth es \<Longrightarrow>
      distinct (map fst (acc @ es)) \<Longrightarrow> recursive_entry_count (acc @ es) \<le> MAX_MAP_ENTRIES \<Longrightarrow>
      wire pending good (decode_map_loop rd strings depth (length es) acc) bs (map_cost es)
        (acc @ canonical_entries es)"
proof (induction smap v and smap es arbitrary: depth bs and depth bs acc
    rule: encode_map_value_encode_map_loop.induct)
  case (1 smap s)
  then show ?case by (auto simp: map_value_cost_def intro: wire_map_string split: bind_splits)
next
  case (2 smap i)
  have "wire pending good (bindM (io (sleb128_read rd)) (\<lambda>i. returnM (MapInt i))) (sleb128_write i) 0 (MapInt i)"
    by (rule decodes_map, rule wire_sleb128)
  moreover have "bs = 1 # sleb128_write i" using 2 by simp
  ultimately show ?case unfolding decode_map_value.simps by (simp add: wire_tag del: returnM_apply)
next
  case (3 smap b)
  have n: "length b \<le> MAX_MICB_ELEMENTS" "map_err MapLimit (check_map_bytes_len (length b)) = Inr ()"
    using "3.prems"(3) by (simp_all add: MAX_MAP_BYTES_def MAX_MICB_ELEMENTS_def check_map_bytes_len_def)
  have "wire pending good (bindM (read_bounded_count rd) (\<lambda>len.
         bindM (liftR (map_err MapLimit (check_map_bytes_len len))) (\<lambda>_.
         bindM (io (read_exact rd len)) (\<lambda>buf. returnM (MapBytes buf))))) (encode_count (length b) @ b) 0 (MapBytes b)"
    by (rule decodes_bindI [OF wire_read_bounded_count [OF n(1)]], rule decodes_bindI [OF wire_liftR [OF n(2)]],
        rule decodes_map, rule wire_io [OF decodes_read_exact]) simp_all
  moreover have "bs = 2 # encode_count (length b) @ b" using 3 by simp
  ultimately show ?case unfolding decode_map_value.simps by (simp add: wire_tag del: returnM_apply)
next
  case (4 smap inner)
  let ?es = "iter_canonical inner"
  obtain eb where eb: "encode_map_loop smap ?es = Some eb" "bs = 3 # encode_count (length inner) @ eb"
    using "4.prems"(2) by (auto simp: map_len_def split: bind_splits)
  have "length inner \<le> MAX_MAP_ENTRIES" using "4.prems"(4) length_le_recursive [of inner] by simp
  moreover have "wire pending good (decode_map_loop rd strings (Suc depth) (length inner) map_new) eb
      (map_cost inner) (canonical_entries ?es)"
    using "4.IH" [OF "4.prems"(1) eb(1), of "Suc depth" "[]"] "4.prems"(3,4) by (simp add: map_new_def)
  ultimately have "wire pending good (decode_map_entries rd strings (depth + 1)) (encode_count (length inner) @ eb)
      (map_cost inner) (canonical_entries ?es)"
    by (simp add: wire_decode_map_entries)
  from decodes_map [OF this, of MapNested] "4.prems"(3) show ?case
    unfolding decode_map_value.simps eb(2)
    by (simp add: wire_tag check_map_nesting_depth_def iter_canonical_def canonical_entries_sort not_le
        del: returnM_apply)
next
  case (5 smap)
  then show ?case by (auto intro: decodesI)
next
  case (6 smap k v es)
  obtain i b cs where bs: "encode_index smap k = Some i" "encode_map_value smap v = Some b"
    "encode_map_loop smap es = Some cs" "bs = i @ b @ cs"
    using "6.prems"(2) by (auto split: bind_splits)
  have "wire pending good (decode_map_value rd strings depth) b (map_value_cost v) (canonical_value v)"
    using "6.prems" by (intro "6.IH"(1) [OF bs(1) _ bs(2)]) auto
  moreover have "wire pending good (decode_map_loop rd strings depth (length es) (acc @ [(k, canonical_value v)]))
      cs (map_cost es) ((acc @ [(k, canonical_value v)]) @ canonical_entries es)"
    using "6.prems" by (intro "6.IH"(2) [OF bs(1,2) _ bs(3)]) auto
  ultimately show ?case
    using wire_map_step [OF "6.prems"(1) bs(1)] "6.prems"(3-5) bs(4) by auto
qed

end

subsection \<open>The whole artifact\<close>

text \<open>A decoder that runs to the end of the input.\<close>

definition finishes ::
  "('s \<Rightarrow> u8 list) \<Rightarrow> (nat \<Rightarrow> 's \<Rightarrow> bool) \<Rightarrow> ('s, 'e, 'a) stm \<Rightarrow> u8 list \<Rightarrow> nat \<Rightarrow> 'a \<Rightarrow> bool" where
  "finishes pd gd m bs c x \<longleftrightarrow> (\<forall>s. gd c s \<and> pd s = bs \<longrightarrow> (\<exists>t. m s = Inr (x, t)))"

lemma finishesI: "(\<And>s. gd c s \<Longrightarrow> pd s = bs \<Longrightarrow> \<exists>t. m s = Inr (x, t)) \<Longrightarrow> finishes pd gd m bs c x"
  by (simp add: finishes_def)

lemma finishesD: "finishes pd gd m bs c x \<Longrightarrow> gd c s \<Longrightarrow> pd s = bs \<Longrightarrow> \<exists>t. m s = Inr (x, t)"
  by (simp add: finishes_def)

lemma decodes_finishes: "decodes pd gd m bs c x \<Longrightarrow> finishes pd gd m bs c x"
proof (rule finishesI)
  fix s assume d: "decodes pd gd m bs c x" and s: "gd c s" "pd s = bs"
  obtain t where "m s = Inr (x, t)" by (rule decodesD [OF d, of 0 s "[]"]) (use s in simp_all)
  then show "\<exists>t. m s = Inr (x, t)" ..
qed

lemma finishes_bind:
  assumes "decodes pd gd m bsa ca x" "finishes pd gd (f x) bsb cb y" "bs = bsa @ bsb" "c = ca + cb"
  shows "finishes pd gd (bindM m f) bs c y"
proof (rule finishesI)
  fix s assume "gd c s" "pd s = bs"
  then obtain t where "m s = Inr (x, t)" "gd cb t" "pd t = bsb"
    using decodesD [OF assms(1), of cb s bsb] assms(3,4) by auto
  with assms(2) show "\<exists>t. bindM m f s = Inr (y, t)" by (simp add: finishes_def)
qed

lemma finishes_map: "finishes pd gd m bs c x \<Longrightarrow> finishes pd gd (bindM m (\<lambda>x. returnM (h x))) bs c (h x)"
  by (fastforce simp: finishes_def)

abbreviation finishes_wire ::
  "('r \<Rightarrow> u8 list) \<Rightarrow> ('r \<Rightarrow> bool) \<Rightarrow> ('r dstate, micb_error, 'a) stm \<Rightarrow> u8 list \<Rightarrow> nat \<Rightarrow> 'a \<Rightarrow> bool" where
  "finishes_wire pending good \<equiv> finishes (\<lambda>(r, b). pending r) (\<lambda>c (r, b). good r \<and> c \<le> b)"

definition clone_cost :: "graph \<Rightarrow> nat" where
  "clone_cost g =
     sum_list (map length (g_symbols g)) + sum_list (map type_cost (g_types g)) +
     sum_list (map value_cost (g_values g)) + map_cost (canonicalize (g_map g))"

text \<open>
  What the Rust types of a graph guarantee: strings are UTF-8, \<open>usize\<close> fields are 64 bits wide.
\<close>

definition rust_graph :: "graph \<Rightarrow> bool" where
  "rust_graph g \<longleftrightarrow>
     (\<forall>s \<in> graph_strings g. valid_string s) \<and> (\<forall>v \<in> set (g_values g). value_wire_ok v) \<and> g_output g < 2 ^ 64"

lemma canonical_within [simp]:
  "map_value_within d (canonical_value v) = map_value_within d v"
  "map_entries_within d (canonical_entries es) = map_entries_within d es"
proof (induction d v and d es rule: map_value_within_map_entries_within.induct)
  case (4 d es)
  then show ?case
    using iter_canonical_laws(3) [of "Suc d" "canonical_entries es"]
      distinct_iter_canonical [of "canonical_entries es"]
    by (simp add: iter_canonical_def)
qed auto

lemma map_within_canonicalize [simp]: "map_within (canonicalize m) = map_within m"
  using iter_canonical_laws(2) [of "canonical_entries m"] iter_canonical_laws(3) [of 0 "canonical_entries m"]
    distinct_iter_canonical [of "canonical_entries m"]
  by (simp add: map_within_def canonicalize_def iter_canonical_def)

lemma canonical_entries_canonicalize [simp]: "canonical_entries (canonicalize m) = canonicalize m"
  by (simp add: canonicalize_def canonical_entries_sort canonical_idem)

lemma map_is_empty_canonicalize [simp]: "map_is_empty (canonicalize m) \<longleftrightarrow> m = []"
  using length_canonicalize [of m] by (simp add: map_is_empty_def flip: length_0_conv)

lemma coherent_build: "encoder_inv e \<Longrightarrow> length (enc_strings e) < 2 ^ 64 \<Longrightarrow> coherent (enc_string_map e) (enc_strings e)"
  by (simp add: coherent_def encoder_inv_def)

context byte_source
begin

lemma finishes_map_section:
  assumes "coherent smap strings" "map_within m"
    and "(if \<not> map_is_empty (canonicalize m)
          then do { es \<leftarrow> encode_map_entries smap (canonicalize m); Some (uleb128_write 0x4D @ es) }
          else Some []) = Some bs"
  shows "finishes_wire pending good (decode_map_section rd strings) bs (map_cost (canonicalize m)) (canonicalize m)"
proof (cases "m = []")
  case True
  then have bs: "bs = []" and m: "canonicalize m = []"
    using assms(3) by (auto simp: canonicalize_def map_is_empty_def)
  show ?thesis unfolding bs m
    by (rule finishesI)
      (auto simp: decode_map_section_def read_u8_def read_exact_eof map_new_def)
next
  case False
  have w: "uleb128_write 0x4D = [0x4D]" by (simp add: uleb128_write.simps)
  obtain es where es: "encode_map_loop smap (canonicalize m) = Some es" "bs = 0x4D # encode_count (length m) @ es"
    using assms(3) False by (auto simp: encode_map_entries_def map_len_def w split: bind_splits if_splits)
  have wi: "map_within (canonicalize m)" using assms(2) by simp
  have "wire pending good (decode_map_loop rd strings 0 (length m) map_new) es (map_cost (canonicalize m)) (canonicalize m)"
    using wire_map(2) [OF assms(1) es(1), of 0 "[]"] wi by (simp add: map_within_def map_new_def)
  moreover have "length m \<le> MAX_MAP_ENTRIES"
    using assms(2) length_le_recursive [of m] by (simp add: map_within_def)
  ultimately have "wire pending good (decode_map_entries rd strings 0) (encode_count (length m) @ es)
      (map_cost (canonicalize m)) (canonicalize m)" by (rule wire_decode_map_entries)
  note entries = this
  show ?thesis unfolding es(2)
  proof (rule finishesI, clarify)
    fix r and b :: usize
    assume r: "good r" "map_cost (canonicalize m) \<le> b" "pending r = 0x4D # encode_count (length m) @ es"
    obtain t where t: "read_u8 rd r = Inr (0x4D, t)" "good t" "pending t = encode_count (length m) @ es"
      using decodesD [OF decodes_read_u8 [of "0x4D"], where s = r] r by auto
    obtain u where "decode_map_entries rd strings 0 (t, b) = Inr (canonicalize m, u)"
      using finishesD [OF decodes_finishes [OF entries], of "(t, b)"] t r(2) by auto
    with t(1) show "\<exists>t. decode_map_section rd strings (r, b) = Inr (canonicalize m, t)"
      by (auto simp: decode_map_section_def)
  qed
qed

lemma finishes_set_clone_budget:
  "finishes_wire pending good (f ()) bs c y \<Longrightarrow> c \<le> clone_budget strings \<Longrightarrow>
     finishes_wire pending good (bindM (set_clone_budget strings) f) bs 0 y"
  by (auto simp: finishes_def set_clone_budget_def bindM_def)

lemma wire_decode_types:
  assumes "coherent smap strings" "traverse (encode_type smap) ts = Some bss" "length (concat bss) \<le> MAX_MICB_ELEMENTS"
  shows "wire pending good (repeatM (length ts) (decode_type rd strings)) (concat bss) (sum_list (map type_cost ts)) ts"
proof (rule decodes_repeatM)
  have "\<forall>bs \<in> set bss. length bs \<le> length (concat bss)"
    by (simp add: length_concat member_le_sum_list)
  with traverse_SomeD [OF assms(2)] assms(3)
  show "list_all2 (\<lambda>t bs. wire pending good (decode_type rd strings) bs (type_cost t) t) ts bss"
    by (auto simp: list_all2_conv_all_nth intro!: wire_decode_type [OF assms(1)] elim: order_trans)
qed

lemma finishes_decode_body:
  assumes coh: "coherent smap strings"
    and sb: "traverse (encode_index smap) (g_symbols g) = Some sb"
    and tb: "traverse (encode_type smap) (g_types g) = Some tb"
    and vb: "traverse (encode_value smap) (g_values g) = Some vb"
    and mb: "(if \<not> map_is_empty (canonicalize (g_map g))
          then do { es \<leftarrow> encode_map_entries smap (canonicalize (g_map g)); Some (uleb128_write 0x4D @ es) }
          else Some []) = Some mb"
    and len: "length (concat sb) + length (concat tb) + length (concat vb) \<le> MAX_MICB_ELEMENTS"
    and ok: "\<forall>i < length (g_values g). value_ok (length (g_types g)) i (g_values g ! i)"
      "g_values g \<noteq> [] \<longrightarrow> g_output g < length (g_values g)" "rust_graph g" "map_within (g_map g)"
      "clone_cost g \<le> clone_budget strings"
  shows "finishes_wire pending good (decode_body rd strings)
    (encode_count (length (g_symbols g)) @ concat sb @ encode_count (length (g_types g)) @ concat tb @
     encode_count (length (g_values g)) @ concat vb @ uleb128_write (of_nat (g_output g)) @ mb) 0
    (g\<lparr>g_map := canonicalize (g_map g)\<rparr>)"
proof -
  have "length (g_symbols g) \<le> length (concat sb)" "length (g_types g) \<le> length (concat tb)"
    "length (g_values g) \<le> length (concat vb)"
    using traverse_length_le [OF sb] traverse_length_le [OF tb] traverse_length_le [OF vb] encode_nonempty
    by blast+
  then have n: "length (g_symbols g) \<le> MAX_MICB_ELEMENTS" "length (g_types g) \<le> MAX_MICB_ELEMENTS"
    "length (g_values g) \<le> MAX_MICB_ELEMENTS" "length (concat tb) \<le> MAX_MICB_ELEMENTS"
    "length (concat vb) \<le> MAX_MICB_ELEMENTS"
    using len by linarith+
  have vals: "wire pending good (decode_values rd strings (length (g_types g)) 0 (length (g_values g)))
      (concat vb) (sum_list (map value_cost (g_values g))) (g_values g)"
    using ok n MAX_MICB_ELEMENTS_u64 [OF n(2)] MAX_MICB_ELEMENTS_u64 [OF n(3)]
    by (intro wire_decode_values [OF coh vb n(5)]) (auto simp: rust_graph_def)
  have out: "g_output g < 2 ^ 64" using ok(3) by (simp add: rust_graph_def)
  let ?mk = "\<lambda>m. \<lparr>g_symbols = g_symbols g, g_types = g_types g, g_values = g_values g, g_output = g_output g, g_map = m\<rparr>"
  have fin: "finishes_wire pending good (if g_output g \<ge> length (g_values g) \<and> g_values g \<noteq> []
        then failM (OutputOutOfBounds (g_output g) (length (g_values g) - 1))
        else bindM (decode_map_section rd strings) (\<lambda>m. returnM (?mk m)))
      mb (map_cost (canonicalize (g_map g))) (?mk (canonicalize (g_map g)))"
    using finishes_map [OF finishes_map_section [OF coh ok(4) mb], of ?mk] ok(2)
    by (auto simp del: returnM_apply)
  have g: "g\<lparr>g_map := canonicalize (g_map g)\<rparr> = ?mk (canonicalize (g_map g))" by simp
  show ?thesis unfolding decode_body_def g
    apply (rule finishes_set_clone_budget [OF _ ok(5)])
    apply (rule finishes_bind [OF wire_read_bounded_count [OF n(1)]])
    apply (rule finishes_bind [OF wire_indices_clone [OF coh sb]])
    apply (rule finishes_bind [OF wire_read_bounded_count [OF n(2)]])
    apply (rule finishes_bind [OF wire_decode_types [OF coh tb n(4)]])
    apply (rule finishes_bind [OF wire_read_bounded_count [OF n(3)]])
    apply (rule finishes_bind [OF vals])
    apply (rule finishes_bind [OF wire_read_usize [OF out]])
    apply (rule fin)
    apply (simp_all add: clone_cost_def)
    done
qed

lemma decode_emit:
  assumes "emit_micb g = Some bs" "length bs \<le> MAX_MICB_INPUT"
    and ok: "\<forall>i < length (g_values g). value_ok (length (g_types g)) i (g_values g ! i)"
      "g_values g \<noteq> [] \<longrightarrow> g_output g < length (g_values g)" "rust_graph g" "map_within (g_map g)"
      "clone_cost g \<le> clone_budget (enc_strings (build_string_table g encoder_new))"
  shows "finishes_wire pending good (decode rd) bs 0 (g\<lparr>g_map := canonicalize (g_map g)\<rparr>)"
proof -
  let ?e = "build_string_table g encoder_new"
  obtain sb tb vb mb where enc: "traverse (encode_index (enc_string_map ?e)) (g_symbols g) = Some sb"
      "traverse (encode_type (enc_string_map ?e)) (g_types g) = Some tb"
      "traverse (encode_value (enc_string_map ?e)) (g_values g) = Some vb"
      "(if \<not> map_is_empty (canonicalize (g_map g))
          then do { es \<leftarrow> encode_map_entries (enc_string_map ?e) (canonicalize (g_map g)); Some (uleb128_write 0x4D @ es) }
          else Some []) = Some mb"
    and bs: "bs = MICB_MAGIC @ [MICB_VERSION] @
          encode_count (length (enc_strings ?e)) @ concat (map encode_string (enc_strings ?e)) @
          encode_count (length (g_symbols g)) @ concat sb @ encode_count (length (g_types g)) @ concat tb @
          encode_count (length (g_values g)) @ concat vb @ uleb128_write (of_nat (g_output g)) @ mb"
    using assms(1) unfolding emit_micb_def encode_def Let_def by (auto split: bind_splits)
  have tr: "encoder_inv ?e" "set (enc_strings ?e) = graph_strings g"
    using tracks_build_string_table [of g] by (simp_all add: enc.tracks_def enc.knows_def)
  have lim: "length bs \<le> MAX_MICB_ELEMENTS" using assms(2) by (simp add: MAX_MICB_INPUT_def MAX_MICB_ELEMENTS_def)
  have "length (enc_strings ?e) \<le> length (concat (map encode_string (enc_strings ?e)))"
    using length_concat_ge [of "map encode_string (enc_strings ?e)"]
    by (simp add: encode_string_def encode_count_def)
  then have ns: "length (enc_strings ?e) \<le> MAX_MICB_ELEMENTS" using lim bs by simp
  have coh: "coherent (enc_string_map ?e) (enc_strings ?e)"
    by (rule coherent_build [OF tr(1) MAX_MICB_ELEMENTS_u64 [OF ns]])
  have str: "wire pending good (decode_string rd) (encode_string s) 0 s" if "s \<in> set (enc_strings ?e)" for s
  proof (rule wire_decode_string)
    show "valid_string s" using that tr(2) ok(3) by (simp add: rust_graph_def)
    have "length (encode_string s) \<le> length (concat (map encode_string (enc_strings ?e)))"
      using that by (simp add: length_concat member_le_sum_list)
    then show "length s \<le> MAX_MICB_ELEMENTS" using lim bs by (simp add: encode_string_def)
  qed
  have strs: "wire pending good (repeatM (length (enc_strings ?e)) (decode_string rd))
      (concat (map encode_string (enc_strings ?e))) (sum_list (map (\<lambda>_. 0) (enc_strings ?e))) (enc_strings ?e)"
    by (rule decodes_repeatM) (simp add: list_all2_conv_all_nth str)
  have magic: "wire pending good (io (read_exact rd 4)) MICB_MAGIC 0 MICB_MAGIC"
    using wire_io [OF decodes_read_exact [of MICB_MAGIC]] by (simp add: MICB_MAGIC_def numeral_eq_Suc)
  have body: "finishes_wire pending good (decode_body rd (enc_strings ?e))
    (encode_count (length (g_symbols g)) @ concat sb @ encode_count (length (g_types g)) @ concat tb @
     encode_count (length (g_values g)) @ concat vb @ uleb128_write (of_nat (g_output g)) @ mb) 0
    (g\<lparr>g_map := canonicalize (g_map g)\<rparr>)"
    by (rule finishes_decode_body [OF coh enc _ ok]) (use lim bs in simp)
  have "finishes_wire pending good (bindM (read_bounded_count rd) (\<lambda>n_strings.
           bindM (repeatM n_strings (decode_string rd)) (\<lambda>strings. decode_body rd strings)))
     (drop 5 bs) 0 (g\<lparr>g_map := canonicalize (g_map g)\<rparr>)"
    by (rule finishes_bind [OF wire_read_bounded_count [OF ns]], rule finishes_bind [OF strs], rule body)
      (simp_all add: bs MICB_MAGIC_def)
  note tables = this
  show ?thesis unfolding decode_def
    by (rule finishes_bind [OF magic], simp, rule finishes_bind [OF wire_read_u8 [of MICB_VERSION]], simp, rule tables)
      (simp_all add: bs MICB_MAGIC_def)
qed

lemma limited_byte_source:
  "byte_source (limited_read rd) (\<lambda>l. pending (lr_inner l))
     (\<lambda>l. good (lr_inner l) \<and> lr_consumed l + length (pending (lr_inner l)) \<le> MAX_MICB_INPUT)"
proof
  fix l :: "'r limited_reader" and n :: nat
  assume g: "good (lr_inner l) \<and> lr_consumed l + length (pending (lr_inner l)) \<le> MAX_MICB_INPUT" and n: "0 < n"
  let ?cap = "min n (MAX_MICB_INPUT - lr_consumed l)"
  {
    assume p: "pending (lr_inner l) \<noteq> []"
    then have rem: "0 < MAX_MICB_INPUT - lr_consumed l" using g by (cases "pending (lr_inner l)") auto
    then obtain bs r' where r: "rd (lr_inner l) ?cap = Inr (bs, r')" "bs \<noteq> []" "length bs \<le> ?cap"
        "pending (lr_inner l) = bs @ pending r'" "good r'"
      using rd_some [of "lr_inner l" ?cap] g n p by auto
    then show "\<exists>bs l'. limited_read rd l n = Inr (bs, l') \<and> bs \<noteq> [] \<and> length bs \<le> n \<and>
        pending (lr_inner l) = bs @ pending (lr_inner l') \<and>
        good (lr_inner l') \<and> lr_consumed l' + length (pending (lr_inner l')) \<le> MAX_MICB_INPUT"
      using rem g by (simp add: limited_read_def Let_def)
  next
    assume p: "pending (lr_inner l) = []"
    show "\<exists>l'. limited_read rd l n = Inr ([], l')"
    proof (cases "MAX_MICB_INPUT - lr_consumed l = 0")
      case True
      obtain r' where "rd (lr_inner l) 1 = Inr ([], r')" using rd_none [OF conjunct1 [OF g] _ p, of 1] by auto
      with True n show ?thesis by (simp add: limited_read_def)
    next
      case False
      then obtain r' where "rd (lr_inner l) ?cap = Inr ([], r')"
        using rd_none [OF conjunct1 [OF g] _ p, of ?cap] n by auto
      with False show ?thesis by (simp add: limited_read_def Let_def)
    qed
  }
qed

lemma parse_emit:
  assumes "good r" "pending r = bs" "emit_micb g = Some bs" "length bs \<le> MAX_MICB_INPUT"
    and "\<forall>i < length (g_values g). value_ok (length (g_types g)) i (g_values g ! i)"
      "g_values g \<noteq> [] \<longrightarrow> g_output g < length (g_values g)" "rust_graph g" "map_within (g_map g)"
      "clone_cost g \<le> clone_budget (enc_strings (build_string_table g encoder_new))"
  shows "parse_micb rd r = Inr (g\<lparr>g_map := canonicalize (g_map g)\<rparr>)"
proof -
  have "\<exists>t. decode (limited_read rd) (limited_reader_new r, MICB_MIN_CLONE_BUDGET)
      = Inr (g\<lparr>g_map := canonicalize (g_map g)\<rparr>, t)"
    using finishesD [OF byte_source.decode_emit [OF limited_byte_source assms(3-)],
        of "(limited_reader_new r, MICB_MIN_CLONE_BUDGET)"] assms(1,2,4)
    by (simp add: limited_reader_new_def)
  then show ?thesis by (auto simp: parse_micb_def)
qed

end

end
