(* ===== verification/Micb_Safety.thy ===== *)
theory Micb_Safety
  imports Micb_Roundtrip
begin

text \<open>
  What the MIC-B decoder guarantees on untrusted input, whatever the reader hands it: the graph it
  returns passes the validator, its metadata map obeys \<open>map_result_ok\<close>, and the strings it copies
  are paid for from the clone budget.
\<close>

subsection \<open>A reader never returns more than it was asked for\<close>

locale bounded_read =
  fixes rd :: "'r read"
  assumes rd_le: "rd r n = Inr (bs, r') \<Longrightarrow> length bs \<le> n"
begin

lemma read_exact_length: "read_exact rd n r = Inr (bs, r') \<Longrightarrow> length bs = n"
proof (induction n arbitrary: r bs r' rule: less_induct)
  case (less n)
  show ?case
  proof (cases "n = 0")
    case True
    with less.prems show ?thesis by simp
  next
    case False
    then obtain cs r1 ds where c: "rd r n = Inr (cs, r1)" "cs \<noteq> []"
        "read_exact rd (n - length cs) r1 = Inr (ds, r')" "bs = cs @ ds"
      using less.prems by (auto simp: read_exact.simps [of rd n] rbind_eq_Inr split: sum.splits if_splits)
    with less.IH [OF _ c(3)] rd_le [OF c(1)] False show ?thesis by auto
  qed
qed

lemma io_read_exact: "io (read_exact rd n) s = Inr (bs, t) \<Longrightarrow> length bs = n \<and> snd t = snd s"
  by (auto simp: io_def split: prod.splits sum.splits dest: read_exact_length)

lemma bounded_limited_read: "bounded_read (limited_read rd)"
  by unfold_locales (auto simp: limited_read_def Let_def split: if_splits sum.splits dest!: rd_le)

end

interpretation slice_bounded: bounded_read slice_read
  by unfold_locales (auto simp: slice_read_def)

subsection \<open>Values\<close>

lemma decode_input_less: "decode_input rd vid s = Inr (i, t) \<Longrightarrow> i < vid"
  by (auto simp: decode_input_def bindM_eq_Inr split: if_splits)

lemma decode_value_ok: "decode_value rd strings vid n s = Inr (v, t) \<Longrightarrow> value_ok n vid v"
  by (auto simp: decode_value_def bindM_eq_Inr value_ok_def split: if_splits
      dest: repeatM_all [where P = "\<lambda>i. i < vid", OF _ decode_input_less])

lemma decode_values_ok:
  "decode_values rd strings n vid k s = Inr (vs, t) \<Longrightarrow>
     length vs = k \<and> (\<forall>i < k. value_ok n (vid + i) (vs ! i))"
proof (induction k arbitrary: vid s vs)
  case (Suc k)
  then obtain v s1 us where v: "decode_value rd strings vid n s = Inr (v, s1)"
    "decode_values rd strings n (Suc vid) k s1 = Inr (us, t)" "vs = v # us"
    by (auto simp: bindM_eq_Inr)
  from Suc.IH [OF v(2)] decode_value_ok [OF v(1)] v(3) show ?case by (simp add: All_less_Suc2)
qed simp

subsection \<open>The map stays within its limits\<close>

lemma map_entries_within_append [simp]:
  "map_entries_within d (es @ fs) \<longleftrightarrow> map_entries_within d es \<and> map_entries_within d fs"
  by (auto simp: map_entries_within_all)

lemma map_cost_append [simp]: "map_cost (es @ fs) = map_cost es + map_cost fs"
  by (simp add: map_cost_sum)

text \<open>Reading does not touch the clone budget; cloning charges it by the length of the string.\<close>

lemma io_budget: "io m s = Inr (x, t) \<Longrightarrow> snd t = snd s"
  by (auto simp: io_def split: prod.splits sum.splits)

lemma read_budget:
  "read_usize rd s = Inr (i, t) \<Longrightarrow> snd t = snd s"
  "read_bounded_count rd s = Inr (i, t) \<Longrightarrow> snd t = snd s"
  by (auto simp: read_usize_def read_bounded_count_def Let_def bindM_eq_Inr split: if_splits dest: io_budget)

lemma clone_string_budget:
  "clone_string strings i s = Inr (x, t) \<Longrightarrow> snd t + length x = snd s \<and> i < length strings \<and> x = strings ! i"
  by (auto simp: clone_string_def Let_def split: prod.splits if_splits)

lemma checked_clone_budget: "checked_clone err strings i s = Inr (x, t) \<Longrightarrow> snd t + length x = snd s"
  by (auto simp: checked_clone_def split: if_splits dest: clone_string_budget)

lemmas budget_dests = io_budget read_budget clone_string_budget checked_clone_budget

lemma decode_map_entries_inv:
  assumes "decode_map_entries rd strings d s = Inr (m, t)"
  obtains n s' where "decode_map_loop rd strings d n [] s' = Inr (m, t)" "snd s' = snd s"
  using assms by (auto simp: decode_map_entries.simps [of rd] stm_elims map_new_def dest: budget_dests)

lemma decode_map_loop_inv:
  assumes "decode_map_loop rd strings d (Suc n) acc s = Inr (m, t)"
  obtains k v s1 s2 where "recursive_entry_count acc + 1 \<le> MAX_MAP_ENTRIES" "map_key_ok k"
    "k \<notin> fst ` set acc" "snd s1 + length k = snd s" "decode_map_value rd strings d s1 = Inr (v, s2)"
    "decode_map_loop rd strings d n (acc @ [(k, v)]) s2 = Inr (m, t)" "strings \<noteq> []"
proof -
  obtain i s0 s0' k s1 v s2 acc' where r: "check_map_entry_count (recursive_entry_count acc + 1) = Inr ()"
      "read_usize rd s = Inr (i, s0)" "check_map_key (strings ! i) = Inr ()"
      "clone_string strings i s0 = Inr (k, s1)" "decode_map_value rd strings d s1 = Inr (v, s2)"
      "insert_unique acc k v = Inr acc'" "decode_map_loop rd strings d n acc' s2 = Inr (m, t)"
    using assms by (auto simp: stm_elims split: if_splits)
  have "k \<notin> fst ` set acc" "acc' = acc @ [(k, v)]"
    using r(6) by (force simp: insert_unique_def list_ex_iff split: if_splits)+
  moreover have "snd s1 + length k = snd s" "map_key_ok k" "strings \<noteq> []"
    using read_budget(1) [OF r(2)] clone_string_budget [OF r(4)] r(3) by (auto simp: check_map_key_iff)
  ultimately show thesis
    using r that by (simp add: check_map_entry_count_def split: if_splits)
qed

text \<open>
  What the readers enforce on a map at depth \<open>d\<close>.  The count of a map is checked before each of its entries and
  never after a nested map is added, so the entries counted recursively are bounded by 4096 for each depth that
  is left, not by the 4096 that \<^verbatim>\<open>map_limits.rs\<close> documents for the whole map.
\<close>

definition map_result_ok :: "usize \<Rightarrow> mic_map \<Rightarrow> bool" where
  "map_result_ok d m \<longleftrightarrow> distinct (map fst m) \<and> map_entries_within d m \<and>
     recursive_entry_count m \<le> MAX_MAP_ENTRIES * (MAX_MAP_NESTING + 1 - d)"

context bounded_read
begin

lemma decode_map_value_inv:
  assumes "decode_map_value rd strings d s = Inr (v, t)"
  obtains
    (str) x where "v = MapString x" "length x \<le> MAX_MAP_STRING_BYTES" "snd t + length x = snd s"
  | (int) i where "v = MapInt i" "snd t = snd s"
  | (bytes) b where "v = MapBytes b" "length b \<le> MAX_MAP_BYTES" "snd t = snd s"
  | (nested) m s' where "v = MapNested m" "d < MAX_MAP_NESTING" "snd s' = snd s"
      "decode_map_entries rd strings (d + 1) s' = Inr (m, t)"
proof -
  obtain tag s0 where tag: "io (read_u8 rd) s = Inr (tag, s0)"
    using assms by (auto simp: decode_map_value.simps [of rd] bindM_eq_Inr)
  then have b: "snd s0 = snd s" by (rule io_budget)
  consider "tag = 0" | "tag = 1" | "tag = 2" | "tag = 3"
    using assms tag by (auto simp: decode_map_value.simps [of rd] split: if_splits)
  then show thesis
  proof cases
    case 1
    then show thesis using assms tag b
      by (auto simp: decode_map_value.simps [of rd] stm_elims check_map_string_len_def split: if_splits
          dest!: budget_dests intro!: str)
  next
    case 2
    then show thesis using assms tag b
      by (auto simp: decode_map_value.simps [of rd] stm_elims dest!: io_budget intro!: int)
  next
    case 3
    then show thesis using assms tag b
      by (auto simp: decode_map_value.simps [of rd] stm_elims check_map_bytes_len_def split: if_splits
          dest!: io_read_exact dest: budget_dests intro!: bytes)
  next
    case 4
    then show thesis using assms tag b
      by (auto simp: decode_map_value.simps [of rd] stm_elims check_map_nesting_depth_def split: if_splits
          intro!: nested)
  qed
qed

end

lemma decode_map_ok:
  "bounded_read rd \<Longrightarrow> decode_map_entries rd strings d s = Inr (m, t) \<Longrightarrow> d \<le> MAX_MAP_NESTING \<Longrightarrow>
     map_result_ok d m \<and> snd t + map_cost m = snd s"
  "bounded_read rd \<Longrightarrow> decode_map_loop rd strings d n acc s = Inr (m, t) \<Longrightarrow> d \<le> MAX_MAP_NESTING \<Longrightarrow> map_result_ok d acc \<Longrightarrow>
     map_result_ok d m \<and> snd t + map_cost m = snd s + map_cost acc"
  "bounded_read rd \<Longrightarrow> decode_map_value rd strings d s = Inr (v, t) \<Longrightarrow>
     map_value_within d v \<and> value_entry_count v \<le> MAX_MAP_ENTRIES * (MAX_MAP_NESTING - d) \<and>
     snd t + map_value_cost v = snd s"
proof (induction rd strings d and rd strings d n acc and rd strings d
    arbitrary: s m t and s m t and s v t
    rule: decode_map_entries_decode_map_loop_decode_map_value.induct)
  case (1 rd strings d)
  obtain n s' where "decode_map_loop rd strings d n [] s' = Inr (m, t)" "snd s' = snd s"
    using decode_map_entries_inv [OF "1.prems"(2)] .
  with "1.IH" [of n s' m t] "1.prems"(1,3) show ?case by (simp add: map_result_ok_def map_new_def)
next
  case (3 rd strings d n acc)
  obtain k v s1 s2 where k: "recursive_entry_count acc + 1 \<le> MAX_MAP_ENTRIES" "map_key_ok k"
    "k \<notin> fst ` set acc" "snd s1 + length k = snd s" "decode_map_value rd strings d s1 = Inr (v, s2)"
    "decode_map_loop rd strings d n (acc @ [(k, v)]) s2 = Inr (m, t)" "strings \<noteq> []"
    using decode_map_loop_inv [OF "3.prems"(2)] .
  have v: "map_value_within d v" "value_entry_count v \<le> MAX_MAP_ENTRIES * (MAX_MAP_NESTING - d)"
    "snd s2 + map_value_cost v = snd s1"
    using "3.IH"(1) [of 0, OF _ "3.prems"(1) k(5)] k(7) by simp_all
  have "recursive_entry_count (acc @ [(k, v)]) \<le> MAX_MAP_ENTRIES + MAX_MAP_ENTRIES * (MAX_MAP_NESTING - d)"
    using k(1) v(2) by simp
  also have "\<dots> = MAX_MAP_ENTRIES * (MAX_MAP_NESTING + 1 - d)"
    using "3.prems"(3) by (simp add: Suc_diff_le)
  finally have "map_result_ok d (acc @ [(k, v)])"
    using "3.prems"(4) k(2,3) v(1) by (auto simp: map_result_ok_def)
  with "3.IH"(2) [of 0, OF _ "3.prems"(1) k(6) "3.prems"(3)] k(4,7) v(3) show ?case by simp
next
  case (4 rd strings d)
  from "4.prems" show ?case
  proof (cases rule: bounded_read.decode_map_value_inv [consumes 2, case_names str int bytes nested])
    case (nested m s')
    have "map_result_ok (d + 1) m \<and> snd t + map_cost m = snd s'"
      using "4.IH" [of 3, OF _ _ _ _ _ "4.prems"(1) nested(4)] nested(2) by (simp add: check_map_nesting_depth_def)
    with nested show ?thesis by (simp add: map_result_ok_def)
  qed auto
qed auto

subsection \<open>Everything that is cloned is charged\<close>

lemma repeatM_budget:
  assumes "repeatM n m s = Inr (xs, t)"
    and "\<And>s x t. m s = Inr (x, t) \<Longrightarrow> snd t + cost x = (snd s :: nat)"
  shows "snd t + sum_list (map cost xs) = snd s"
  using assms(1)
proof (induction n arbitrary: s xs)
  case (Suc n)
  then obtain x s1 ys where x: "m s = Inr (x, s1)" "repeatM n m s1 = Inr (ys, t)" "xs = x # ys"
    by (auto simp: bindM_eq_Inr)
  from Suc.IH [OF x(2)] assms(2) [OF x(1)] x(3) show ?case by simp
qed simp

lemma decode_index_budget:
  "bindM (read_usize rd) (checked_clone err strings) s = Inr (x, t) \<Longrightarrow> snd t + length x = snd s"
  by (auto simp: bindM_eq_Inr dest!: budget_dests)

lemma decode_type_budget: "decode_type rd strings s = Inr (x, t) \<Longrightarrow> snd t + type_cost x = snd s"
  by (auto simp: decode_type_def bindM_eq_Inr type_cost_def tensor_type_new_def split: option.splits
      dest!: repeatM_budget [where cost = length, OF _ decode_index_budget] budget_dests)

lemma decode_axes_budget: "decode_axes rd s = Inr (x, t) \<Longrightarrow> snd t = snd s"
  by (auto simp: decode_axes_def bindM_eq_Inr dest!: read_budget
      repeatM_budget [where cost = "\<lambda>_. 0"] dest: io_budget)

lemma decode_opcode_budget: "decode_opcode rd strings s = Inr (x, t) \<Longrightarrow> snd t + opcode_cost x = snd s"
  by (auto simp: decode_opcode_def bindM_eq_Inr opcode_cost_def split: if_splits
      dest!: budget_dests decode_axes_budget)

lemma decode_input_budget: "decode_input rd vid s = Inr (i, t) \<Longrightarrow> snd t + 0 = snd s"
  by (auto simp: decode_input_def bindM_eq_Inr split: if_splits dest!: read_budget)

lemma value_cost_simps [simp]:
  "value_cost (VArg name i) = length name"
  "value_cost (VParam name i) = length name"
  "value_cost (VNode op is) = opcode_cost op"
  by (simp_all add: value_cost_def value_name_def opcode_cost_def split: opcode.split)

lemma decode_value_budget: "decode_value rd strings vid n s = Inr (x, t) \<Longrightarrow> snd t + value_cost x = snd s"
  by (auto simp: decode_value_def bindM_eq_Inr split: if_splits
      dest!: budget_dests decode_opcode_budget repeatM_budget [where cost = "\<lambda>_. 0", OF _ decode_input_budget])

lemma decode_values_budget:
  "decode_values rd strings n vid k s = Inr (vs, t) \<Longrightarrow> snd t + sum_list (map value_cost vs) = snd s"
  by (induction k arbitrary: vid s vs) (fastforce simp: bindM_eq_Inr dest: decode_value_budget)+

lemma map_cost_canonical:
  "map_value_cost (canonical_value v) = map_value_cost v"
  "map_cost (canonical_entries es) = map_cost es"
proof (induction v and es rule: canonical_value_canonical_entries.induct)
  case (1 es)
  then show ?case using iter_canonical_laws(1) [of "canonical_entries es"] by (simp add: iter_canonical_def)
qed auto

lemma map_cost_canonicalize [simp]: "map_cost (canonicalize m) = map_cost m"
  using iter_canonical_laws(1) [of "canonical_entries m"]
  by (simp add: canonicalize_def iter_canonical_def map_cost_canonical)

lemma decode_map_section_ok:
  assumes "bounded_read rd" "decode_map_section rd strings s = Inr (m, t)"
  shows "map_result_ok 0 m \<and> snd t + map_cost m = snd s"
proof -
  obtain r b where s: "s = (r, b)" by (cases s)
  from assms(2) consider "m = []" "snd t = b"
    | r' where "decode_map_entries rd strings 0 (r', b) = Inr (m, t)"
    by (auto simp: decode_map_section_def s map_new_def split: sum.splits if_splits)
  then show ?thesis
  proof cases
    case 1
    then show ?thesis by (simp add: s map_result_ok_def)
  next
    case 2
    with decode_map_ok(1) [OF assms(1) 2] show ?thesis by (simp add: s)
  qed
qed

text \<open>The postcondition of a decode: well-formed values and output, map in its limits, strings paid for.\<close>

definition decoded_ok :: "string list \<Rightarrow> graph \<Rightarrow> bool" where
  "decoded_ok strings g \<longleftrightarrow>
     (\<forall>i < length (g_values g). value_ok (length (g_types g)) i (g_values g ! i)) \<and>
     (g_values g \<noteq> [] \<longrightarrow> g_output g < length (g_values g)) \<and>
     map_result_ok 0 (g_map g) \<and> clone_cost g \<le> clone_budget strings"

lemma decode_body_ok:
  assumes rd: "bounded_read rd" and "decode_body rd strings s = Inr (g, t)"
  shows "decoded_ok strings g"
proof -
  obtain s0 nsym s1 syms s2 nty s3 tys s4 nv s5 vs s6 out s7 m s8 where
    r: "set_clone_budget strings s = Inr ((), s0)" "read_bounded_count rd s0 = Inr (nsym, s1)"
      "repeatM nsym (bindM (read_usize rd) (checked_clone SymbolIndexOutOfBounds strings)) s1 = Inr (syms, s2)"
      "read_bounded_count rd s2 = Inr (nty, s3)" "repeatM nty (decode_type rd strings) s3 = Inr (tys, s4)"
      "read_bounded_count rd s4 = Inr (nv, s5)" "decode_values rd strings (length tys) 0 nv s5 = Inr (vs, s6)"
      "read_usize rd s6 = Inr (out, s7)" "vs \<noteq> [] \<longrightarrow> out < length vs" "decode_map_section rd strings s7 = Inr (m, s8)"
    and g: "g = \<lparr>g_symbols = syms, g_types = tys, g_values = vs, g_output = out, g_map = m\<rparr>"
    using assms(2) unfolding decode_body_def bindM_eq_Inr by (auto simp: bindM_eq_Inr not_le split: if_splits)
  have "snd s0 = clone_budget strings" using r(1) by (auto simp: set_clone_budget_def split: prod.splits)
  moreover have "snd s2 + sum_list (map length syms) = snd s1"
    by (rule repeatM_budget [OF r(3)]) (rule decode_index_budget)
  moreover have "snd s4 + sum_list (map type_cost tys) = snd s3"
    by (rule repeatM_budget [OF r(5)]) (rule decode_type_budget)
  moreover note read_budget(2) [OF r(2)] read_budget(2) [OF r(4)] read_budget(2) [OF r(6)] decode_values_budget [OF r(7)]
    read_budget(1) [OF r(8)] conjunct2 [OF decode_map_section_ok [OF rd r(10)]]
  ultimately have "snd s8 + clone_cost g = clone_budget strings" by (simp add: clone_cost_def g)
  with decode_values_ok [OF r(7)] r(9) decode_map_section_ok [OF rd r(10)] show ?thesis
    by (simp add: decoded_ok_def g)
qed

subsection \<open>The capped reader\<close>

text \<open>
  \<open>uses s n t\<close>: between the states at least \<open>n\<close> bytes were consumed, and the cap still holds.
\<close>

definition uses :: "'r limited_reader \<Rightarrow> nat \<Rightarrow> 'r limited_reader \<Rightarrow> bool" where
  "uses l n l' \<longleftrightarrow> (lr_consumed l \<le> MAX_MICB_INPUT \<longrightarrow> lr_consumed l + n \<le> lr_consumed l' \<and> lr_consumed l' \<le> MAX_MICB_INPUT)"

lemma uses_trans: "uses l m l1 \<Longrightarrow> uses l1 n l2 \<Longrightarrow> uses l (m + n) l2"
  by (auto simp: uses_def)

lemma uses_mono: "uses l m l1 \<Longrightarrow> n \<le> m \<Longrightarrow> uses l n l1"
  by (auto simp: uses_def)

lemma uses_refl [simp]: "uses l 0 l"
  by (simp add: uses_def)

context bounded_read
begin

lemma limited_read_uses: "limited_read rd l n = Inr (bs, l') \<Longrightarrow> uses l (length bs) l' \<and> length bs \<le> n"
  by (auto simp: limited_read_def uses_def Let_def split: if_splits sum.splits dest!: rd_le)

lemma read_exact_uses: "read_exact (limited_read rd) n l = Inr (bs, l') \<Longrightarrow> uses l n l'"
proof (induction n arbitrary: l bs l' rule: less_induct)
  case (less n)
  show ?case
  proof (cases "n = 0")
    case True
    with less.prems show ?thesis by simp
  next
    case False
    then obtain cs l1 ds where c: "limited_read rd l n = Inr (cs, l1)" "cs \<noteq> []"
        "read_exact (limited_read rd) (n - length cs) l1 = Inr (ds, l')"
      using less.prems by (auto simp: read_exact.simps [of _ n] rbind_eq_Inr split: sum.splits if_splits)
    with limited_read_uses [OF c(1)] less.IH [OF _ c(3)] False
    show ?thesis using uses_trans [of l "length cs" l1 "n - length cs" l'] by auto
  qed
qed

lemma read_u8_uses: "read_u8 (limited_read rd) l = Inr (b, l') \<Longrightarrow> uses l 0 l'"
  by (auto simp: read_u8_def bindM_eq_Inr dest!: read_exact_uses elim: uses_mono)

lemma uleb128_read_uses: "uleb128_read_loop (limited_read rd) k res sh l = Inr (v, l') \<Longrightarrow> uses l 0 l'"
proof (induction k arbitrary: res sh l)
  case (Suc k)
  then obtain b l1 where b: "read_u8 (limited_read rd) l = Inr (b, l1)" by (auto simp: bindM_eq_Inr)
  with Suc.prems Suc.IH read_u8_uses [OF b] show ?case
    using uses_trans [of l 0 l1 0 l'] by (auto simp: Let_def split: if_splits)
qed simp

lemma decode_string_uses:
  assumes "decode_string (limited_read rd) s = Inr (x, t)"
  shows "uses (fst s) (length x) (fst t)"
proof -
  obtain n s1 bs where n: "read_bounded_count (limited_read rd) s = Inr (n, s1)"
      "io (read_exact (limited_read rd) n) s1 = Inr (bs, t)" "from_utf8 bs = Some x"
    using assms by (auto simp: decode_string_def bindM_eq_Inr split: option.splits)
  have "uses (fst s) 0 (fst s1)"
    using n(1) by (auto simp: read_bounded_count_def bindM_eq_Inr io_def uleb128_read_def Let_def
        split: prod.splits sum.splits if_splits dest: uleb128_read_uses)
  moreover have "uses (fst s1) n (fst t)"
    using n(2) by (auto simp: io_def split: prod.splits sum.splits dest: read_exact_uses)
  moreover have "length x = n"
    using bounded_read.io_read_exact [OF bounded_limited_read n(2)] from_utf8_SomeD [OF n(3)]
    by (metis length_as_bytes)
  ultimately show ?thesis using uses_trans by fastforce
qed

lemma decode_strings_uses:
  "repeatM n (decode_string (limited_read rd)) s = Inr (xs, t) \<Longrightarrow> uses (fst s) (sum_list (map length xs)) (fst t)"
proof (induction n arbitrary: s xs)
  case (Suc n)
  then obtain x s1 ys where x: "decode_string (limited_read rd) s = Inr (x, s1)"
      "repeatM n (decode_string (limited_read rd)) s1 = Inr (ys, t)" "xs = x # ys"
    by (auto simp: bindM_eq_Inr)
  from uses_trans [OF decode_string_uses [OF x(1)] Suc.IH [OF x(2)]] x(3) show ?case by simp
qed simp

lemma parse_decoded_ok:
  assumes "parse_micb rd r = Inr g"
  obtains strings where "decoded_ok strings g" "sum_list (map length strings) \<le> MAX_MICB_INPUT"
proof -
  obtain s1 mg s2 ver s3 n s4 strings t where
    r: "io (read_exact (limited_read rd) 4) (limited_reader_new r, MICB_MIN_CLONE_BUDGET) = Inr (mg, s1)"
      "io (read_u8 (limited_read rd)) s1 = Inr (ver, s2)" "read_bounded_count (limited_read rd) s2 = Inr (n, s3)"
      "repeatM n (decode_string (limited_read rd)) s3 = Inr (strings, s4)"
      "decode_body (limited_read rd) strings s4 = Inr (g, t)"
    using assms by (auto simp: parse_micb_def decode_def rbind_eq_Inr bindM_eq_Inr split: if_splits)
  have "uses (limited_reader_new r) 4 (fst s1)"
    using r(1) by (auto simp: io_def split: prod.splits sum.splits dest: read_exact_uses)
  moreover have "uses (fst s1) 0 (fst s2)"
    using r(2) by (auto simp: io_def split: prod.splits sum.splits dest: read_u8_uses)
  moreover have "uses (fst s2) 0 (fst s3)"
    using r(3) by (auto simp: read_bounded_count_def bindM_eq_Inr io_def uleb128_read_def Let_def
        split: prod.splits sum.splits if_splits dest: uleb128_read_uses)
  ultimately have "uses (limited_reader_new r) (sum_list (map length strings)) (fst s4)"
    using uses_trans [OF _ decode_strings_uses [OF r(4)]] uses_trans by (metis add_0 uses_mono le_add2)
  then have "sum_list (map length strings) \<le> MAX_MICB_INPUT"
    by (auto simp: uses_def limited_reader_new_def)
  with decode_body_ok [OF bounded_limited_read r(5)] that show thesis by blast
qed

lemma parse_clone_bound: "parse_micb rd r = Inr g \<Longrightarrow> clone_cost g \<le> MICB_CLONE_AMPLIFICATION_FACTOR * MAX_MICB_INPUT"
  by (erule parse_decoded_ok)
    (auto simp: decoded_ok_def clone_budget_def Let_def MICB_CLONE_AMPLIFICATION_FACTOR_def MAX_MICB_INPUT_def
      MICB_MIN_CLONE_BUDGET_def)

end

end
