(* ===== verification/Float64.thy ===== *)
theory Float64
  imports Prelude
begin

text \<open>
  Rust's \<open>f64\<close>: IEEE 754 binary64 with round-to-nearest-even, computed on its 64-bit pattern.  A
  pattern is unpacked to sign, integer mantissa and exponent; the operations compute exactly on
  those and round once.  Every NaN result is the quiet NaN \<open>0x7FF8000000000000\<close> (Rust leaves the
  payload unspecified).
\<close>

type_synonym f64 = "64 word"

datatype f64_class =
    FNan
  | FInf bool
  | FFin bool nat int

definition f64_decode :: "f64 \<Rightarrow> f64_class" where
  "f64_decode w =
     (let s = bit w 63; ex = unat w div 2 ^ 52 mod 2 ^ 11; fr = unat w mod 2 ^ 52
      in if ex = 2047 then (if fr = 0 then FInf s else FNan)
         else if ex = 0 then FFin s fr (-1074)
         else FFin s (fr + 2 ^ 52) (int ex - 1075))"

definition f64_pack :: "bool \<Rightarrow> nat \<Rightarrow> nat \<Rightarrow> f64" where
  "f64_pack s ex fr = of_nat ((if s then 2 ^ 63 else 0) + ex * 2 ^ 52 + fr)"

definition f64_nan :: f64 where "f64_nan = 0x7FF8000000000000"
definition f64_inf :: "bool \<Rightarrow> f64" where "f64_inf s = f64_pack s 2047 0"
definition f64_zero :: "bool \<Rightarrow> f64" where "f64_zero s = f64_pack s 0 0"
definition f64_one :: f64 where "f64_one = 0x3FF0000000000000"

fun bit_length :: "nat \<Rightarrow> nat" where
  "bit_length n = (if n = 0 then 0 else Suc (bit_length (n div 2)))"

declare bit_length.simps [simp del]

text \<open>
  \<open>f64_round s m e sticky\<close>: the double nearest to \<open>\<plusminus> m * 2 ^ e\<close>, ties to even; \<open>sticky\<close> says that
  the exact value lies strictly between \<open>m\<close> and \<open>m + 1\<close>.
\<close>

definition f64_round :: "bool \<Rightarrow> nat \<Rightarrow> int \<Rightarrow> bool \<Rightarrow> f64" where
  "f64_round s m e sticky =
     (if m = 0 then f64_zero s
      else let e' = max (e + int (bit_length m) - 53) (-1074);
               k = nat (e' - e); j = nat (e - e');
               q = m * 2 ^ j div 2 ^ k; r = m * 2 ^ j mod 2 ^ k; half = 2 ^ k div 2;
               up = 0 < k \<and> (half < r \<or> half = r \<and> (sticky \<or> odd q));
               m1 = (if up then q + 1 else q);
               (m2, e2) = (if m1 = 2 ^ 53 then (2 ^ 52, e' + 1) else (m1, e'))
           in if m2 < 2 ^ 52 then f64_pack s 0 m2
              else if 2047 \<le> e2 + 1075 then f64_inf s
              else f64_pack s (nat (e2 + 1075)) (m2 - 2 ^ 52))"

definition f64_neg :: "f64 \<Rightarrow> f64" where
  "f64_neg w = w XOR 2 ^ 63"

definition signed :: "bool \<Rightarrow> nat \<Rightarrow> int" where
  "signed s m = (if s then - int m else int m)"

definition sign_mul :: "bool \<Rightarrow> bool \<Rightarrow> bool" where
  "sign_mul s t \<longleftrightarrow> s \<noteq> t"

definition f64_add :: "f64 \<Rightarrow> f64 \<Rightarrow> f64" where
  "f64_add x y =
     (case (f64_decode x, f64_decode y) of
        (FNan, _) \<Rightarrow> f64_nan
      | (_, FNan) \<Rightarrow> f64_nan
      | (FInf s, FInf t) \<Rightarrow> if s = t then f64_inf s else f64_nan
      | (FInf s, FFin _ _ _) \<Rightarrow> f64_inf s
      | (FFin _ _ _, FInf t) \<Rightarrow> f64_inf t
      | (FFin s m e, FFin t n f) \<Rightarrow>
          (let g = min e f; v = signed s m * 2 ^ nat (e - g) + signed t n * 2 ^ nat (f - g)
           in if v = 0 then f64_zero (s \<and> t) else f64_round (v < 0) (nat \<bar>v\<bar>) g False))"

definition f64_sub :: "f64 \<Rightarrow> f64 \<Rightarrow> f64" where
  "f64_sub x y = f64_add x (f64_neg y)"

definition f64_mul :: "f64 \<Rightarrow> f64 \<Rightarrow> f64" where
  "f64_mul x y =
     (case (f64_decode x, f64_decode y) of
        (FNan, _) \<Rightarrow> f64_nan
      | (_, FNan) \<Rightarrow> f64_nan
      | (FInf s, FInf t) \<Rightarrow> f64_inf (sign_mul s t)
      | (FInf s, FFin t n _) \<Rightarrow> if n = 0 then f64_nan else f64_inf (sign_mul s t)
      | (FFin s m _, FInf t) \<Rightarrow> if m = 0 then f64_nan else f64_inf (sign_mul s t)
      | (FFin s m e, FFin t n f) \<Rightarrow> f64_round (sign_mul s t) (m * n) (e + f) False)"

definition f64_div :: "f64 \<Rightarrow> f64 \<Rightarrow> f64" where
  "f64_div x y =
     (case (f64_decode x, f64_decode y) of
        (FNan, _) \<Rightarrow> f64_nan
      | (_, FNan) \<Rightarrow> f64_nan
      | (FInf _, FInf _) \<Rightarrow> f64_nan
      | (FInf s, FFin t _ _) \<Rightarrow> f64_inf (sign_mul s t)
      | (FFin s _ _, FInf t) \<Rightarrow> f64_zero (sign_mul s t)
      | (FFin s m e, FFin t n f) \<Rightarrow>
          (if n = 0 then (if m = 0 then f64_nan else f64_inf (sign_mul s t))
           else f64_round (sign_mul s t) (m * 2 ^ 120 div n) (e - f - 120) (m * 2 ^ 120 mod n \<noteq> 0)))"

text \<open>\<open>%\<close>: the remainder with the sign of the dividend (\<open>fmod\<close>), always exact.\<close>

definition f64_rem :: "f64 \<Rightarrow> f64 \<Rightarrow> f64" where
  "f64_rem x y =
     (case (f64_decode x, f64_decode y) of
        (FNan, _) \<Rightarrow> f64_nan
      | (_, FNan) \<Rightarrow> f64_nan
      | (FInf _, _) \<Rightarrow> f64_nan
      | (FFin _ _ _, FInf _) \<Rightarrow> x
      | (FFin s m e, FFin t n f) \<Rightarrow>
          (if n = 0 then f64_nan
           else let g = min e f
             in f64_round s (m * 2 ^ nat (e - g) mod (n * 2 ^ nat (f - g))) g False))"

text \<open>The order; a comparison with a NaN is false.\<close>

definition f64_cmp :: "(int \<Rightarrow> int \<Rightarrow> bool) \<Rightarrow> f64 \<Rightarrow> f64 \<Rightarrow> bool" where
  "f64_cmp R x y =
     (case (f64_decode x, f64_decode y) of
        (FNan, _) \<Rightarrow> False
      | (_, FNan) \<Rightarrow> False
      | (FInf s, FInf t) \<Rightarrow> R (signed s 1) (signed t 1)
      | (FInf s, FFin _ _ _) \<Rightarrow> R (signed s 1) 0
      | (FFin _ _ _, FInf t) \<Rightarrow> R 0 (signed t 1)
      | (FFin s m e, FFin t n f) \<Rightarrow>
          (let g = min e f in R (signed s m * 2 ^ nat (e - g)) (signed t n * 2 ^ nat (f - g))))"

definition f64_lt :: "f64 \<Rightarrow> f64 \<Rightarrow> bool" where "f64_lt = f64_cmp (<)"
definition f64_le :: "f64 \<Rightarrow> f64 \<Rightarrow> bool" where "f64_le = f64_cmp (\<le>)"
definition f64_eq :: "f64 \<Rightarrow> f64 \<Rightarrow> bool" where "f64_eq = f64_cmp (=)"

definition f64_is_nan :: "f64 \<Rightarrow> bool" where
  "f64_is_nan x = (f64_decode x = FNan)"

text \<open>\<open>f64::max\<close>: a NaN argument is ignored.\<close>

definition f64_max :: "f64 \<Rightarrow> f64 \<Rightarrow> f64" where
  "f64_max x y = (if f64_is_nan x then y else if f64_is_nan y then x else if f64_lt x y then y else x)"

definition f64_of_i64 :: "i64 \<Rightarrow> f64" where
  "f64_of_i64 v = f64_round (sint v < 0) (nat \<bar>sint v\<bar>) 0 False"

definition f64_of_bool :: "bool \<Rightarrow> f64" where
  "f64_of_bool b = (if b then f64_one else f64_zero False)"

subsection \<open>Commutativity\<close>

lemma f64_add_commute: "f64_add x y = f64_add y x"
  by (cases "f64_decode x"; cases "f64_decode y")
    (simp_all add: f64_add_def Let_def min.commute add.commute conj_commute)

lemma sign_mul_commute: "sign_mul s t = sign_mul t s"
  by (auto simp: sign_mul_def)

lemma f64_mul_commute: "f64_mul x y = f64_mul y x"
  by (cases "f64_decode x"; cases "f64_decode y")
    (simp_all add: f64_mul_def mult.commute add.commute sign_mul_commute)

lemma f64_eq_commute: "f64_eq x y = f64_eq y x"
  by (cases "f64_decode x"; cases "f64_decode y")
    (auto simp: f64_eq_def f64_cmp_def Let_def min.commute)

end
