(* ===== verification/Ir.thy ===== *)
theory Ir
  imports Rust_Text Float64
begin

text \<open>
  \<^verbatim>\<open>src/ir/mod.rs\<close> and the types it carries (\<^verbatim>\<open>src/types/mod.rs\<close>,
  \<^verbatim>\<open>src/types/canonical_types.rs\<close>): the core SSA instruction set in the default build
  (feature \<open>std-surface\<close> on), modules, and the two functions every pass is built on --
  \<open>instruction_dst\<close>, the value an instruction defines, and \<open>for_each_operand\<close>, the values it reads.
\<close>

type_synonym value_id = usize

subsection \<open>Types carried by instructions\<close>

datatype ir_dtype = TI32 | TI64 | TF32 | TF64 | TBF16 | TF16 | TQ16

datatype shape_dim =
    Known usize
  | Sym string

datatype conv_padding = Valid | Same

datatype sparse_layout = Csr | Csc | Coo | Bsr

datatype call_conv = CallC | CallSysV | CallWin64 | CallAapcs

datatype scalar_type =
    ScI32 | ScI64 | ScU32 | ScF32 | ScF64 | ScBool | ScBF16 | ScF16 | ScQ16

record schema_identity =
  si_owner :: string
  si_name :: string
  si_type_args :: "string list"

datatype semantic_type =
    Scalar scalar_type
  | RecordRef schema_identity
  | FixedArray semantic_type u64
  | DynamicArray semantic_type

record function_identity =
  fi_owner :: string
  fi_name :: string
  fi_type_args :: "string list"

record function_semantic_types =
  fst_identity :: function_identity
  fst_values :: "(value_id \<times> semantic_type) list"

record function_signature =
  fs_params :: "semantic_type list"
  fs_return_type :: "semantic_type option"

datatype function_kind = Local | External | Intrinsic

record function_declaration =
  fd_identity :: function_identity
  fd_kind :: function_kind
  fd_signature :: function_signature

record canonical_field =
  cf_name :: string
  cf_ty :: semantic_type

record canonical_schema =
  cs_id :: u32
  cs_identity :: schema_identity
  cs_fields :: "canonical_field list"

record canonical_module_types =
  cmt_schemas :: "canonical_schema list"
  cmt_module_values :: "(value_id \<times> semantic_type) list"
  cmt_functions :: "(function_identity \<times> function_declaration) list"

definition canonical_is_empty :: "canonical_module_types \<Rightarrow> bool" where
  "canonical_is_empty b \<longleftrightarrow> cmt_schemas b = [] \<and> cmt_module_values b = [] \<and> cmt_functions b = []"

datatype array_size =
    Fixed u64
  | Dynamic

record array_type =
  at_elem_dtype :: ir_dtype
  at_size :: array_size

record slice_spec =
  ss_axis :: i64
  ss_start :: i64
  ss_end :: "i64 option"
  ss_stride :: i64

record index_spec =
  ix_axis :: i64
  ix_index :: i64

datatype binop =
    BAdd | BSub | BMul | BDiv | BMod | BLt | BLe | BGt | BGe | BEq | BNe
  | BBitAnd | BBitOr | BBitXor | BShl | BShr

subsection \<open>Instructions\<close>

text \<open>
  The fields are in the order of the source; \<open>[usize; 4]\<close> is a 4-tuple, \<open>BTreeMap\<close> its sorted
  list of pairs, and an \<open>f64\<close> its bit pattern.
\<close>

datatype (plugins only: code size) instr =
    ConstI64 value_id i64
  | ConstF64 value_id f64
  | ConstTensor value_id ir_dtype "shape_dim list" "f64 option"
  | ConstDenseTensor value_id ir_dtype "shape_dim list" "u64 list"
  | BinOp value_id binop value_id value_id
  | SumOp value_id value_id "i64 list" bool
  | MeanOp value_id value_id "i64 list" bool
  | Relu value_id value_id
  | ReluGrad value_id value_id value_id
  | Reshape value_id value_id "shape_dim list"
  | ExpandDims value_id value_id i64
  | Squeeze value_id value_id "i64 list"
  | Transpose value_id value_id "i64 list"
  | Dot value_id value_id value_id
  | MatMul value_id value_id value_id
  | Conv2d value_id value_id value_id usize usize conv_padding
  | Conv2dGradInput value_id value_id value_id "usize \<times> usize \<times> usize \<times> usize" usize usize conv_padding
  | Conv2dGradFilter value_id value_id value_id "usize \<times> usize \<times> usize \<times> usize" usize usize conv_padding
  | Index value_id value_id "index_spec list"
  | Slice value_id value_id "slice_spec list"
  | Gather value_id value_id value_id i64
  | Output value_id
  | SparseAttr value_id value_id sparse_layout
  | FnDef string "(string \<times> value_id) list" "value_id option" "instr list" "f64 option"
      "function_semantic_types option" "(value_id \<times> array_type) list"
  | Call value_id string "value_id list" "function_identity option"
  | Return "value_id option"
  | Param value_id string usize
  | ConstArray value_id "string option" "i64 list"
  | ArrayLoad value_id value_id value_id
  | ArrayStore value_id value_id value_id value_id
  | While value_id "instr list" "instr list" "(string \<times> value_id) list" "value_id list" "value_id list"
  | Break "(string \<times> value_id) list"
  | Continue "(string \<times> value_id) list"
  | IfInstr value_id "instr list" "instr list" value_id "instr list" value_id value_id
      "(string \<times> value_id) list" "(value_id \<times> value_id \<times> value_id) list"
  | VecLoad value_id value_id value_id usize
  | VecFma value_id value_id value_id value_id usize
  | VecReduceAdd value_id value_id usize
  | VecStore value_id value_id value_id usize
  | VecLoadI32 value_id value_id value_id usize
  | VecMulAddQ16 value_id value_id value_id value_id usize
  | VecReduceAddI64 value_id value_id usize
  | Region "instr list" value_id value_id value_id "value_id list"
  | ExternFnDecl string "string list" "string option" bool "string list" call_conv

text \<open>
  A module; the side tables the modelled passes never look at are the record's extension.
\<close>

record ir_module =
  instrs :: "instr list"
  next_id :: usize
  exports :: "string set"
  canonical_types :: "canonical_module_types option"

definition fresh :: "'x ir_module_scheme \<Rightarrow> value_id \<times> 'x ir_module_scheme" where
  "fresh m = (next_id m, m\<lparr>next_id := next_id m + 1\<rparr>)"

fun instruction_dst :: "instr \<Rightarrow> value_id option" where
  "instruction_dst (ConstI64 dst _) = Some dst"
| "instruction_dst (ConstF64 dst _) = Some dst"
| "instruction_dst (ConstTensor dst _ _ _) = Some dst"
| "instruction_dst (ConstDenseTensor dst _ _ _) = Some dst"
| "instruction_dst (BinOp dst _ _ _) = Some dst"
| "instruction_dst (SumOp dst _ _ _) = Some dst"
| "instruction_dst (MeanOp dst _ _ _) = Some dst"
| "instruction_dst (Relu dst _) = Some dst"
| "instruction_dst (ReluGrad dst _ _) = Some dst"
| "instruction_dst (Reshape dst _ _) = Some dst"
| "instruction_dst (ExpandDims dst _ _) = Some dst"
| "instruction_dst (Squeeze dst _ _) = Some dst"
| "instruction_dst (Transpose dst _ _) = Some dst"
| "instruction_dst (Dot dst _ _) = Some dst"
| "instruction_dst (MatMul dst _ _) = Some dst"
| "instruction_dst (Conv2d dst _ _ _ _ _) = Some dst"
| "instruction_dst (Conv2dGradInput dst _ _ _ _ _ _) = Some dst"
| "instruction_dst (Conv2dGradFilter dst _ _ _ _ _ _) = Some dst"
| "instruction_dst (Index dst _ _) = Some dst"
| "instruction_dst (Slice dst _ _) = Some dst"
| "instruction_dst (Gather dst _ _ _) = Some dst"
| "instruction_dst (Call dst _ _ _) = Some dst"
| "instruction_dst (Param dst _ _) = Some dst"
| "instruction_dst (SparseAttr src dst _) = Some dst"
| "instruction_dst (Output _) = None"
| "instruction_dst (FnDef _ _ _ _ _ _ _) = None"
| "instruction_dst (Return _) = None"
| "instruction_dst (ExternFnDecl _ _ _ _ _ _) = None"
| "instruction_dst (While _ _ _ _ _ _) = None"
| "instruction_dst (Break _) = None"
| "instruction_dst (Continue _) = None"
| "instruction_dst (ConstArray dst _ _) = Some dst"
| "instruction_dst (ArrayLoad dst _ _) = Some dst"
| "instruction_dst (ArrayStore dst _ _ _) = Some dst"
| "instruction_dst (IfInstr _ _ _ _ _ _ dst _ _) = Some dst"
| "instruction_dst (VecLoad dst _ _ _) = Some dst"
| "instruction_dst (VecFma dst _ _ _ _) = Some dst"
| "instruction_dst (VecReduceAdd dst _ _) = Some dst"
| "instruction_dst (VecStore _ _ _ _) = None"
| "instruction_dst (VecLoadI32 dst _ _ _) = Some dst"
| "instruction_dst (VecMulAddQ16 dst _ _ _ _) = Some dst"
| "instruction_dst (VecReduceAddI64 dst _ _) = Some dst"
| "instruction_dst (Region _ result _ _ _) = Some result"

text \<open>\<open>for_each_operand\<close> as the list of operands in the order the callback sees them.\<close>

fun instruction_operands :: "instr \<Rightarrow> value_id list" where
  "instruction_operands (ConstI64 _ _) = []"
| "instruction_operands (ConstF64 _ _) = []"
| "instruction_operands (ConstTensor _ _ _ _) = []"
| "instruction_operands (ConstDenseTensor _ _ _ _) = []"
| "instruction_operands (BinOp _ _ lhs rhs) = [lhs, rhs]"
| "instruction_operands (SumOp _ src _ _) = [src]"
| "instruction_operands (MeanOp _ src _ _) = [src]"
| "instruction_operands (Relu _ src) = [src]"
| "instruction_operands (Reshape _ src _) = [src]"
| "instruction_operands (ExpandDims _ src _) = [src]"
| "instruction_operands (Squeeze _ src _) = [src]"
| "instruction_operands (Transpose _ src _) = [src]"
| "instruction_operands (Index _ src _) = [src]"
| "instruction_operands (Slice _ src _) = [src]"
| "instruction_operands (SparseAttr src _ _) = [src]"
| "instruction_operands (Dot _ a b) = [a, b]"
| "instruction_operands (MatMul _ a b) = [a, b]"
| "instruction_operands (Conv2d _ inp filt _ _ _) = [inp, filt]"
| "instruction_operands (Conv2dGradInput _ dy filt _ _ _ _) = [dy, filt]"
| "instruction_operands (Conv2dGradFilter _ inp dy _ _ _ _) = [inp, dy]"
| "instruction_operands (ReluGrad _ grad src) = [grad, src]"
| "instruction_operands (Gather _ src indices _) = [src, indices]"
| "instruction_operands (Output v) = [v]"
| "instruction_operands (Call _ _ args _) = args"
| "instruction_operands (Return value) = (case value of Some v \<Rightarrow> [v] | None \<Rightarrow> [])"
| "instruction_operands (Param _ _ _) = []"
| "instruction_operands (FnDef _ _ _ _ _ _ _) = []"
| "instruction_operands (ConstArray _ _ _) = []"
| "instruction_operands (ArrayStore _ base index value) = [base, index, value]"
| "instruction_operands (ArrayLoad _ base index) = [base, index]"
| "instruction_operands (While _ _ _ _ init_ids _) = init_ids"
| "instruction_operands (IfInstr _ _ _ _ _ _ _ _ merges) = concat (map (\<lambda>(_, t, e). [t, e]) merges)"
| "instruction_operands (VecLoad _ base offset _) = [base, offset]"
| "instruction_operands (VecLoadI32 _ base offset _) = [base, offset]"
| "instruction_operands (VecFma _ a b acc _) = [a, b, acc]"
| "instruction_operands (VecMulAddQ16 _ a b acc _) = [a, b, acc]"
| "instruction_operands (VecReduceAdd _ src _) = [src]"
| "instruction_operands (VecReduceAddI64 _ src _) = [src]"
| "instruction_operands (VecStore src base offset _) = [src, base, offset]"
| "instruction_operands (ExternFnDecl _ _ _ _ _ _) = []"
| "instruction_operands (Region _ _ _ _ _) = []"
| "instruction_operands (Break live) = map snd live"
| "instruction_operands (Continue live) = map snd live"

end
