(* ===== verification/Rust_Int.thy ===== *)
theory Rust_Int
  imports Prelude "HOL-Library.Signed_Division"
begin

text \<open>
  Rust's \<open>i64\<close> operators on 64-bit words.  The flag \<open>oc\<close> says whether the build checks arithmetic
  overflow (the \<open>dev\<close> and \<open>test\<close> profiles do, \<open>release\<close> wraps); \<^const>\<open>None\<close> is a panic.  Division and
  remainder truncate towards zero and panic on a zero divisor and on \<open>i64::MIN / -1\<close> in every build.
\<close>

definition i64_fits :: "int \<Rightarrow> bool" where
  "i64_fits v \<longleftrightarrow> - (2 ^ 63) \<le> v \<and> v < 2 ^ 63"

definition i64_MIN :: i64 where "i64_MIN = word_of_int (- (2 ^ 63))"

definition checked_add :: "i64 \<Rightarrow> i64 \<Rightarrow> i64 option" where
  "checked_add a b = (if i64_fits (sint a + sint b) then Some (a + b) else None)"

definition checked_sub :: "i64 \<Rightarrow> i64 \<Rightarrow> i64 option" where
  "checked_sub a b = (if i64_fits (sint a - sint b) then Some (a - b) else None)"

definition checked_mul :: "i64 \<Rightarrow> i64 \<Rightarrow> i64 option" where
  "checked_mul a b = (if i64_fits (sint a * sint b) then Some (a * b) else None)"

definition arith_add :: "bool \<Rightarrow> i64 \<Rightarrow> i64 \<Rightarrow> i64 option" where
  "arith_add oc a b = (if oc then checked_add a b else Some (a + b))"

definition arith_sub :: "bool \<Rightarrow> i64 \<Rightarrow> i64 \<Rightarrow> i64 option" where
  "arith_sub oc a b = (if oc then checked_sub a b else Some (a - b))"

definition arith_mul :: "bool \<Rightarrow> i64 \<Rightarrow> i64 \<Rightarrow> i64 option" where
  "arith_mul oc a b = (if oc then checked_mul a b else Some (a * b))"

definition div_defined :: "i64 \<Rightarrow> i64 \<Rightarrow> bool" where
  "div_defined a b \<longleftrightarrow> b \<noteq> 0 \<and> \<not> (a = i64_MIN \<and> b = -1)"

definition trunc_div :: "i64 \<Rightarrow> i64 \<Rightarrow> i64" where
  "trunc_div a b = word_of_int (sint a sdiv sint b)"

definition trunc_rem :: "i64 \<Rightarrow> i64 \<Rightarrow> i64" where
  "trunc_rem a b = word_of_int (sint a smod sint b)"

definition arith_div :: "i64 \<Rightarrow> i64 \<Rightarrow> i64 option" where
  "arith_div a b = (if div_defined a b then Some (trunc_div a b) else None)"

definition arith_rem :: "i64 \<Rightarrow> i64 \<Rightarrow> i64 option" where
  "arith_rem a b = (if div_defined a b then Some (trunc_rem a b) else None)"

text \<open>\<open>a >> b\<close>: with overflow checks the amount must be in \<open>0..64\<close>; without, it is masked.\<close>

definition arith_shr :: "bool \<Rightarrow> i64 \<Rightarrow> i64 \<Rightarrow> i64 option" where
  "arith_shr oc a b =
     (if oc \<and> \<not> (0 \<le> sint b \<and> sint b < 64) then None else Some (signed_drop_bit (unat b mod 64) a))"

definition wrapping_shl :: "i64 \<Rightarrow> i64 \<Rightarrow> i64" where
  "wrapping_shl a b = push_bit (unat b mod 64) a"

definition i64_of_bool :: "bool \<Rightarrow> i64" where
  "i64_of_bool b = (if b then 1 else 0)"

lemma sint_of_fits: "i64_fits v \<Longrightarrow> sint (word_of_int v :: i64) = v"
  by (simp add: i64_fits_def signed_of_int signed_take_bit_int_eq_self)

lemma checked_add_exact: "checked_add a b = Some c \<Longrightarrow> sint c = sint a + sint b"
proof -
  assume "checked_add a b = Some c"
  then have "i64_fits (sint a + sint b)" "c = word_of_int (sint a + sint b)"
    by (auto simp: checked_add_def split: if_splits)
  then show ?thesis using sint_of_fits by blast
qed

lemma checked_sub_exact: "checked_sub a b = Some c \<Longrightarrow> sint c = sint a - sint b"
proof -
  assume "checked_sub a b = Some c"
  then have "i64_fits (sint a - sint b)" "c = word_of_int (sint a - sint b)"
    by (auto simp: checked_sub_def split: if_splits)
  then show ?thesis using sint_of_fits by blast
qed

lemma checked_mul_exact: "checked_mul a b = Some c \<Longrightarrow> sint c = sint a * sint b"
proof -
  assume "checked_mul a b = Some c"
  then have "i64_fits (sint a * sint b)" "c = word_of_int (sint a * sint b)"
    by (auto simp: checked_mul_def split: if_splits)
  then show ?thesis using sint_of_fits by blast
qed

lemma arith_commute:
  "arith_add oc a b = arith_add oc b a"
  "arith_mul oc a b = arith_mul oc b a"
  by (simp_all add: arith_add_def arith_mul_def checked_add_def checked_mul_def add.commute mult.commute)

end
