(* ===== verification/Ir_Canonical.thy ===== *)
theory Ir_Canonical
  imports Ir Rust_Int
begin

text \<open>
  \<^verbatim>\<open>src/opt/ir_canonical.rs\<close>: the canonicalisation pass over the core IR -- dead-expert
  tombstoning, dead-code elimination over a dense bit set, operand ordering, constant folding
  and the recomputation of \<open>next_id\<close>.  \<^const>\<open>None\<close> is a panic of the pass itself.
\<close>

subsection \<open>Dead experts\<close>

definition has_populated_canonical :: "'x ir_module_scheme \<Rightarrow> bool" where
  "has_populated_canonical m =
     (case canonical_types m of None \<Rightarrow> False | Some b \<Rightarrow> \<not> canonical_is_empty b)"

definition is_reap_fn :: "instr \<Rightarrow> bool" where
  "is_reap_fn i = (case i of FnDef _ _ _ _ (Some _) _ _ \<Rightarrow> True | _ \<Rightarrow> False)"

definition is_plain_fn :: "instr \<Rightarrow> bool" where
  "is_plain_fn i = (case i of FnDef _ _ _ _ None _ _ \<Rightarrow> True | _ \<Rightarrow> False)"

definition module_has_reap_threshold :: "'x ir_module_scheme \<Rightarrow> bool" where
  "module_has_reap_threshold m = list_ex is_reap_fn (instrs m)"

definition call_name :: "instr \<Rightarrow> string option" where
  "call_name i = (case i of Call _ name _ _ \<Rightarrow> Some name | _ \<Rightarrow> None)"

definition called_names :: "instr \<Rightarrow> string list" where
  "called_names i =
     (case i of
        Call _ name _ _ \<Rightarrow> [name]
      | FnDef _ _ _ body _ _ _ \<Rightarrow> List.map_filter call_name body
      | _ \<Rightarrow> [])"

definition usize_MAX :: usize where "usize_MAX = 2 ^ 64 - 1"

definition tombstone :: "string list \<Rightarrow> instr \<Rightarrow> instr" where
  "tombstone all_called i =
     (case i of
        FnDef name params ret_id body (Some t) st vt \<Rightarrow>
          if name \<notin> set all_called
          then FnDef name params ret_id
            [ConstI64 (case ret_id of Some r \<Rightarrow> r | None \<Rightarrow> usize_MAX) 0] (Some t) st vt
          else i
      | _ \<Rightarrow> i)"

definition prune_dead_experts :: "'x ir_module_scheme \<Rightarrow> 'x ir_module_scheme" where
  "prune_dead_experts m =
     (let all_called = concat (map called_names (instrs m))
      in if list_ex is_plain_fn (instrs m) then m
         else m\<lparr>instrs := map (tombstone all_called) (instrs m)\<rparr>)"

subsection \<open>Dead code\<close>

definition is_used :: "bool list \<Rightarrow> value_id \<Rightarrow> bool" where
  "is_used used v \<longleftrightarrow> v < length used \<and> used ! v"

definition mark :: "bool list \<Rightarrow> value_id \<Rightarrow> bool list" where
  "mark used v = used[v := True]"

definition dst_used :: "bool list \<Rightarrow> instr \<Rightarrow> bool" where
  "dst_used used i = (case instruction_dst i of None \<Rightarrow> True | Some d \<Rightarrow> is_used used d)"

definition mark_instr :: "bool list \<Rightarrow> instr \<Rightarrow> bool list" where
  "mark_instr used i =
     (let other = (if dst_used used i then fold (\<lambda>v u. mark u v) (instruction_operands i) used else used)
      in case i of
           Output v \<Rightarrow> mark used v
         | _ \<Rightarrow> other)"

definition used_set :: "instr list \<Rightarrow> usize \<Rightarrow> bool list" where
  "used_set is n = fold (\<lambda>i u. mark_instr u i) (rev is) (replicate n False)"

definition prune_dead :: "instr list \<Rightarrow> usize \<Rightarrow> instr list" where
  "prune_dead is n = filter (dst_used (used_set is n)) is"

subsection \<open>Operand order and constant folding\<close>

definition reorder_instr :: "instr \<Rightarrow> instr" where
  "reorder_instr i =
     (case i of
        BinOp dst op lhs rhs \<Rightarrow>
          if (op = BAdd \<or> op = BMul) \<and> rhs < lhs then BinOp dst op rhs lhs else i
      | _ \<Rightarrow> i)"

definition reorder_commutative_ops :: "instr list \<Rightarrow> instr list" where
  "reorder_commutative_ops is = map reorder_instr is"

datatype fold_outcome =
    Folded i64
  | Skip

fun fold_binop :: "bool \<Rightarrow> binop \<Rightarrow> i64 \<Rightarrow> i64 \<Rightarrow> fold_outcome option" where
  "fold_binop oc BAdd l r = Some (case checked_add l r of Some v \<Rightarrow> Folded v | None \<Rightarrow> Skip)"
| "fold_binop oc BSub l r = Some (case checked_sub l r of Some v \<Rightarrow> Folded v | None \<Rightarrow> Skip)"
| "fold_binop oc BMul l r = Some (case checked_mul l r of Some v \<Rightarrow> Folded v | None \<Rightarrow> Skip)"
| "fold_binop oc BDiv l r =
     (if r = 0 \<or> (l = i64_MIN \<and> r = -1) then Some Skip else map_option Folded (arith_div l r))"
| "fold_binop oc BMod l r =
     (if r = 0 \<or> (l = i64_MIN \<and> r = -1) then Some Skip else map_option Folded (arith_rem l r))"
| "fold_binop oc BLt l r = Some (Folded (i64_of_bool (sint l < sint r)))"
| "fold_binop oc BLe l r = Some (Folded (i64_of_bool (sint l \<le> sint r)))"
| "fold_binop oc BGt l r = Some (Folded (i64_of_bool (sint l > sint r)))"
| "fold_binop oc BGe l r = Some (Folded (i64_of_bool (sint l \<ge> sint r)))"
| "fold_binop oc BEq l r = Some (Folded (i64_of_bool (l = r)))"
| "fold_binop oc BNe l r = Some (Folded (i64_of_bool (l \<noteq> r)))"
| "fold_binop oc BBitAnd l r = Some (Folded (l AND r))"
| "fold_binop oc BBitOr l r = Some (Folded (l OR r))"
| "fold_binop oc BBitXor l r = Some (Folded (l XOR r))"
| "fold_binop oc BShl l r = Some (Folded (wrapping_shl l r))"
| "fold_binop oc BShr l r = map_option Folded (arith_shr oc l r)"

definition lookup_const :: "i64 option list \<Rightarrow> value_id \<Rightarrow> i64 option" where
  "lookup_const constants v = (if v < length constants then constants ! v else None)"

text \<open>One round of the loop: the instruction left in place and the new table.\<close>

definition fold_instr :: "bool \<Rightarrow> i64 option list \<Rightarrow> instr \<Rightarrow> (instr \<times> i64 option list) option" where
  "fold_instr oc constants i =
     (let other = Some (i, case instruction_dst i of Some d \<Rightarrow> constants[d := None] | None \<Rightarrow> constants)
      in case i of
        ConstI64 v n \<Rightarrow> Some (i, constants[v := Some n])
      | BinOp dst op lhs rhs \<Rightarrow>
          (case (lookup_const constants lhs, lookup_const constants rhs) of
             (Some l, Some r) \<Rightarrow>
               (case fold_binop oc op l r of
                  None \<Rightarrow> None
                | Some Skip \<Rightarrow> Some (i, constants)
                | Some (Folded v) \<Rightarrow> Some (ConstI64 dst v, constants[dst := Some v]))
           | _ \<Rightarrow> Some (i, constants[dst := None]))
      | _ \<Rightarrow> other)"

fun constant_fold_loop :: "bool \<Rightarrow> i64 option list \<Rightarrow> instr list \<Rightarrow> instr list option" where
  "constant_fold_loop oc constants [] = Some []"
| "constant_fold_loop oc constants (i # is) =
     do { (j, constants') \<leftarrow> fold_instr oc constants i;
          js \<leftarrow> constant_fold_loop oc constants' is;
          Some (j # js) }"

definition constant_fold :: "bool \<Rightarrow> instr list \<Rightarrow> usize \<Rightarrow> instr list option" where
  "constant_fold oc is n = constant_fold_loop oc (replicate n None) is"

subsection \<open>The identifier bound and the whole pass\<close>

definition instruction_id_bound :: "instr \<Rightarrow> usize" where
  "instruction_id_bound i =
     (let bound = (case instruction_dst i of None \<Rightarrow> 0 | Some d \<Rightarrow> d + 1);
          bound = fold (\<lambda>v b. max b (v + 1)) (instruction_operands i) bound
      in case i of
           While _ _ _ _ _ exit_ids \<Rightarrow> fold (\<lambda>e b. max b (e + 1)) exit_ids bound
         | IfInstr _ _ _ _ _ _ dst branch_bindings merges \<Rightarrow>
             (let bound = max bound (dst + 1);
                  bound = fold (\<lambda>(m, t, e) b. max (max (max b (m + 1)) (t + 1)) (e + 1)) merges bound
              in fold (\<lambda>(_, v) b. max b (v + 1)) branch_bindings bound)
         | _ \<Rightarrow> bound)"

definition next_sequential_id :: "'x ir_module_scheme \<Rightarrow> usize" where
  "next_sequential_id m = fold max (map instruction_id_bound (instrs m)) 0"

definition canonicalize_module :: "bool \<Rightarrow> 'x ir_module_scheme \<Rightarrow> 'x ir_module_scheme option" where
  "canonicalize_module oc m =
     (if has_populated_canonical m then Some m
      else let m = (if module_has_reap_threshold m then prune_dead_experts m else m);
               n = next_id m;
               is1 = prune_dead (instrs m) n;
               is2 = reorder_commutative_ops is1
           in do { is3 \<leftarrow> constant_fold oc is2 n;
                   let is4 = prune_dead is3 n;
                   let m' = m\<lparr>instrs := is4\<rparr>;
                   Some (m'\<lparr>next_id := next_sequential_id m'\<rparr>) })"

subsection \<open>Liveness as sets\<close>

text \<open>
  The reference for dead-code elimination: the values an instruction stream reads, computed
  backwards, where an instruction with an unread result contributes nothing.
\<close>

definition kept :: "value_id set \<Rightarrow> instr \<Rightarrow> bool" where
  "kept L i \<longleftrightarrow> (\<forall>d. instruction_dst i = Some d \<longrightarrow> d \<in> L)"

fun live :: "instr list \<Rightarrow> value_id set" where
  "live [] = {}"
| "live (i # is) =
     live is \<union> (if kept (live is) i then set (instruction_operands i) else {})"

definition defs :: "instr list \<Rightarrow> value_id set" where
  "defs is = {d. \<exists>i \<in> set is. instruction_dst i = Some d}"

text \<open>Straight-line SSA form: no instruction reads what it or a later instruction defines.\<close>

fun def_before_use :: "instr list \<Rightarrow> bool" where
  "def_before_use [] \<longleftrightarrow> True"
| "def_before_use (i # is) \<longleftrightarrow> (\<forall>v \<in> set (instruction_operands i). v \<notin> defs (i # is)) \<and> def_before_use is"

definition operands_below :: "usize \<Rightarrow> instr list \<Rightarrow> bool" where
  "operands_below n is \<longleftrightarrow> (\<forall>i \<in> set is. \<forall>v \<in> set (instruction_operands i). v < n)"

lemma defs_simps [simp]:
  "defs [] = {}"
  "defs (i # is) = (case instruction_dst i of None \<Rightarrow> defs is | Some d \<Rightarrow> insert d (defs is))"
  by (auto simp: defs_def split: option.splits)

lemma operands_below_Cons [simp]:
  "operands_below n [] = True"
  "operands_below n (i # is) \<longleftrightarrow> (\<forall>v \<in> set (instruction_operands i). v < n) \<and> operands_below n is"
  by (auto simp: operands_below_def)

lemma mark_instr_eq:
  "mark_instr used i = (if dst_used used i then fold (\<lambda>v u. mark u v) (instruction_operands i) used else used)"
proof (cases i)
  case (Output v)
  then show ?thesis by (simp add: mark_instr_def dst_used_def)
qed (simp_all add: mark_instr_def)

lemma is_used_fold_mark:
  "is_used (fold (\<lambda>v u. mark u v) vs used) w \<longleftrightarrow> is_used used w \<or> (w \<in> set vs \<and> w < length used)"
proof (induction vs arbitrary: used)
  case (Cons v vs)
  have "is_used (mark used v) w \<longleftrightarrow> is_used used w \<or> (w = v \<and> w < length used)"
    by (cases "v = w") (auto simp: is_used_def mark_def)
  moreover have "length (mark used v) = length used" by (simp add: mark_def)
  ultimately show ?case using Cons.IH [of "mark used v"] by auto
qed simp

lemma length_mark [simp]: "length (fold (\<lambda>v u. mark u v) vs used) = length used"
  by (induction vs arbitrary: used) (auto simp: mark_def)

lemma used_set_simps [simp]:
  "used_set [] n = replicate n False"
  "used_set (i # is) n = mark_instr (used_set is n) i"
  by (simp_all add: used_set_def)

lemma length_used_set [simp]: "length (used_set is n) = n"
  by (induction "is") (simp_all add: mark_instr_eq)

lemma is_used_used_set: "operands_below n is \<Longrightarrow> is_used (used_set is n) v \<longleftrightarrow> v \<in> live is"
proof (induction "is" arbitrary: v)
  case Nil
  then show ?case by (simp add: is_used_def)
next
  case (Cons i "is")
  then show ?case by (auto simp: mark_instr_eq is_used_fold_mark dst_used_def kept_def split: option.splits)
qed

text \<open>\<open>prune_dead\<close> keeps the instructions without a result and those whose result is live.\<close>

lemma prune_dead_live: "operands_below n is \<Longrightarrow> prune_dead is n = filter (kept (live is)) is"
  unfolding prune_dead_def
  by (rule filter_cong) (auto simp: dst_used_def kept_def is_used_used_set split: option.splits)

lemma kept_Cons:
  assumes "def_before_use (i # is)" "j \<in> set (i # is)"
  shows "kept (live (i # is)) j \<longleftrightarrow> kept (live is) j"
proof -
  have "d \<notin> set (instruction_operands i)" if "instruction_dst j = Some d" for d
    using assms that by (auto simp: defs_def)
  then show ?thesis by (auto simp: live.simps(2) kept_def)
qed

lemma filter_kept_Cons:
  assumes "def_before_use (i # is)"
  shows "filter (kept (live (i # is))) (i # is) =
    (if kept (live is) i then [i] else []) @ filter (kept (live is)) is"
proof -
  have "filter (kept (live (i # is))) is = filter (kept (live is)) is"
    by (rule filter_cong) (use kept_Cons [OF assms] in auto)
  with kept_Cons [OF assms, of i] show ?thesis by (simp del: live.simps)
qed

lemma live_filter_kept: "def_before_use is \<Longrightarrow> live (filter (kept (live is)) is) = live is"
proof (induction "is")
  case (Cons i "is")
  then have "live (filter (kept (live is)) is) = live is" by simp
  then show ?case unfolding filter_kept_Cons [OF Cons.prems] by simp
qed simp

lemma operands_live:
  assumes "def_before_use is" "i \<in> set is" "kept (live is) i"
  shows "set (instruction_operands i) \<subseteq> live is"
  using assms
proof (induction "is")
  case (Cons j "is")
  from kept_Cons [OF Cons.prems(1,2)] Cons.prems(3) have k: "kept (live is) i" by simp
  show ?case
  proof (cases "i = j")
    case True
    with k show ?thesis by (simp add: live.simps(2))
  next
    case False
    with Cons k have "set (instruction_operands i) \<subseteq> live is" by simp
    then show ?thesis by (auto simp: live.simps(2))
  qed
qed simp

lemma def_before_use_filter: "def_before_use is \<Longrightarrow> def_before_use (filter P is)"
proof (induction "is")
  case (Cons i "is")
  have "defs (filter P xs) \<subseteq> defs xs" for xs by (auto simp: defs_def)
  with Cons show ?case by (auto split: option.splits)
qed simp

lemma operands_below_filter: "operands_below n is \<Longrightarrow> operands_below n (filter P is)"
  by (auto simp: operands_below_def)

lemma prune_dead_idem:
  assumes "def_before_use is" "operands_below n is"
  shows "prune_dead (prune_dead is n) n = prune_dead is n"
  using assms by (simp add: prune_dead_live operands_below_filter live_filter_kept)

lemma prune_dead_closed:
  assumes "def_before_use is" "operands_below n is"
    and "i \<in> set (prune_dead is n)" "v \<in> set (instruction_operands i)"
    and "j \<in> set is" "instruction_dst j = Some v"
  shows "j \<in> set (prune_dead is n)"
  using assms operands_live [OF assms(1), of i] by (auto simp: prune_dead_live kept_def)

lemma prune_dead_keeps_effects: "i \<in> set is \<Longrightarrow> instruction_dst i = None \<Longrightarrow> i \<in> set (prune_dead is n)"
  by (simp add: prune_dead_def dst_used_def)

end
