(* ===== verification/Ir_Interp.thy ===== *)
theory Ir_Interp
  imports Ir Rust_Int
begin

text \<open>
  \<^verbatim>\<open>src/eval/ir_interp.rs\<close>: the constant-fill preview evaluator \<open>eval_ir\<close> over the core IR, with
  the values of \<^verbatim>\<open>src/eval/value.rs\<close> (default build, without \<open>cpu-buffers\<close>).  The environment
  is the source's hash map; an undefined operand reads as \<open>Int(0)\<close>.  \<^const>\<open>None\<close> is a panic.
\<close>

record tensor_val =
  tv_dtype :: ir_dtype
  tv_shape :: "shape_dim list"
  tv_fill :: "f64 option"

definition tensor_val_new :: "ir_dtype \<Rightarrow> shape_dim list \<Rightarrow> f64 option \<Rightarrow> tensor_val" where
  "tensor_val_new d s f = \<lparr>tv_dtype = d, tv_shape = s, tv_fill = f\<rparr>"

datatype ir_value =
    VInt i64
  | VFloat f64
  | VStr string
  | VTuple "ir_value list"
  | VTensor tensor_val
  | VGradMap "(string \<times> tensor_val) list"
  | VEnum string "ir_value list"
  | VStruct string "(string \<times> ir_value) list"

subsection \<open>Binary operations\<close>

fun eval_int_binop :: "bool \<Rightarrow> binop \<Rightarrow> i64 \<Rightarrow> i64 \<Rightarrow> i64 option" where
  "eval_int_binop oc BAdd a b = arith_add oc a b"
| "eval_int_binop oc BSub a b = arith_sub oc a b"
| "eval_int_binop oc BMul a b = arith_mul oc a b"
| "eval_int_binop oc BDiv a b = arith_div a b"
| "eval_int_binop oc BMod a b = (if b = 0 then Some 0 else arith_rem a b)"
| "eval_int_binop oc BLt a b = Some (i64_of_bool (sint a < sint b))"
| "eval_int_binop oc BLe a b = Some (i64_of_bool (sint a \<le> sint b))"
| "eval_int_binop oc BGt a b = Some (i64_of_bool (sint a > sint b))"
| "eval_int_binop oc BGe a b = Some (i64_of_bool (sint a \<ge> sint b))"
| "eval_int_binop oc BEq a b = Some (i64_of_bool (a = b))"
| "eval_int_binop oc BNe a b = Some (i64_of_bool (a \<noteq> b))"
| "eval_int_binop oc BBitAnd a b = Some (a AND b)"
| "eval_int_binop oc BBitOr a b = Some (a OR b)"
| "eval_int_binop oc BBitXor a b = Some (a XOR b)"
| "eval_int_binop oc BShl a b = Some (wrapping_shl a b)"
| "eval_int_binop oc BShr a b = arith_shr oc a b"

definition scalar_fill :: "binop \<Rightarrow> f64 \<Rightarrow> f64 \<Rightarrow> bool \<Rightarrow> f64" where
  "scalar_fill op f scalar tensor_left =
     (case op of
        BAdd \<Rightarrow> f64_add f scalar
      | BSub \<Rightarrow> if tensor_left then f64_sub f scalar else f64_sub scalar f
      | BMul \<Rightarrow> f64_mul f scalar
      | BDiv \<Rightarrow> if tensor_left then f64_div f scalar else f64_div scalar f
      | BMod \<Rightarrow> if tensor_left then f64_rem f scalar else f64_rem scalar f
      | BLt \<Rightarrow> f64_of_bool (tensor_left \<and> f64_lt f scalar \<or> \<not> tensor_left \<and> f64_lt scalar f)
      | BLe \<Rightarrow> f64_of_bool (tensor_left \<and> f64_le f scalar \<or> \<not> tensor_left \<and> f64_le scalar f)
      | BGt \<Rightarrow> f64_of_bool (tensor_left \<and> f64_lt scalar f \<or> \<not> tensor_left \<and> f64_lt f scalar)
      | BGe \<Rightarrow> f64_of_bool (tensor_left \<and> f64_le scalar f \<or> \<not> tensor_left \<and> f64_le f scalar)
      | BEq \<Rightarrow> f64_of_bool (f64_eq f scalar)
      | BNe \<Rightarrow> f64_of_bool (\<not> f64_eq f scalar)
      | _ \<Rightarrow> f64_zero False)"

definition tensor_scalar :: "binop \<Rightarrow> tensor_val \<Rightarrow> f64 \<Rightarrow> bool \<Rightarrow> ir_value" where
  "tensor_scalar op t scalar tensor_left =
     VTensor (tensor_val_new (tv_dtype t) (tv_shape t)
       (map_option (\<lambda>f. scalar_fill op f scalar tensor_left) (tv_fill t)))"

definition tensor_fill :: "binop \<Rightarrow> f64 \<Rightarrow> f64 \<Rightarrow> f64" where
  "tensor_fill op x y =
     (case op of
        BAdd \<Rightarrow> f64_add x y
      | BSub \<Rightarrow> f64_sub x y
      | BMul \<Rightarrow> f64_mul x y
      | BDiv \<Rightarrow> f64_div x y
      | BMod \<Rightarrow> f64_rem x y
      | BLt \<Rightarrow> f64_of_bool (f64_lt x y)
      | BLe \<Rightarrow> f64_of_bool (f64_le x y)
      | BGt \<Rightarrow> f64_of_bool (f64_lt y x)
      | BGe \<Rightarrow> f64_of_bool (f64_le y x)
      | BEq \<Rightarrow> f64_of_bool (f64_eq x y)
      | BNe \<Rightarrow> f64_of_bool (\<not> f64_eq x y)
      | _ \<Rightarrow> f64_zero False)"

definition both :: "(f64 \<Rightarrow> f64 \<Rightarrow> f64) \<Rightarrow> f64 option \<Rightarrow> f64 option \<Rightarrow> f64 option" where
  "both h x y = (case (x, y) of (Some a, Some b) \<Rightarrow> Some (h a b) | _ \<Rightarrow> None)"

definition tensor_tensor :: "binop \<Rightarrow> tensor_val \<Rightarrow> tensor_val \<Rightarrow> ir_value" where
  "tensor_tensor op a b =
     VTensor (tensor_val_new (tv_dtype a) (tv_shape a) (both (tensor_fill op) (tv_fill a) (tv_fill b)))"

fun eval_binop :: "bool \<Rightarrow> binop \<Rightarrow> ir_value \<Rightarrow> ir_value \<Rightarrow> ir_value option" where
  "eval_binop oc op (VInt a) (VInt b) = map_option VInt (eval_int_binop oc op a b)"
| "eval_binop oc op (VTensor t) (VInt s) = Some (tensor_scalar op t (f64_of_i64 s) True)"
| "eval_binop oc op (VInt s) (VTensor t) = Some (tensor_scalar op t (f64_of_i64 s) False)"
| "eval_binop oc op (VTensor a) (VTensor b) = Some (tensor_tensor op a b)"
| "eval_binop oc op other _ = Some other"

subsection \<open>Instructions\<close>

text \<open>The tensor operations: what the source's match does to a tensor; other values pass through.\<close>

definition on_tensor :: "(tensor_val \<Rightarrow> tensor_val) \<Rightarrow> ir_value \<Rightarrow> ir_value" where
  "on_tensor h v = (case v of VTensor t \<Rightarrow> VTensor (h t) | _ \<Rightarrow> v)"

definition relu_grad_value :: "ir_value \<Rightarrow> ir_value \<Rightarrow> ir_value" where
  "relu_grad_value grad src =
     (case (grad, src) of
        (VTensor g, VTensor s) \<Rightarrow>
          VTensor (tensor_val_new (tv_dtype g) (tv_shape g)
            (both (\<lambda>gf sf. if f64_lt (f64_zero False) sf then gf else f64_zero False) (tv_fill g) (tv_fill s)))
      | _ \<Rightarrow> grad)"

definition expand_dims :: "i64 \<Rightarrow> tensor_val \<Rightarrow> tensor_val" where
  "expand_dims axis t =
     (let shape = tv_shape t; k = nat (max 0 (min (sint axis) (int (length shape))))
      in tensor_val_new (tv_dtype t) (take k shape @ Known 1 # drop k shape) (tv_fill t))"

definition squeeze_dims :: "i64 list \<Rightarrow> tensor_val \<Rightarrow> tensor_val" where
  "squeeze_dims axes t =
     tensor_val_new (tv_dtype t)
       (map snd (filter (\<lambda>(i, _). \<not> list_ex (\<lambda>axis. unat axis = i) axes) (enumerate 0 (tv_shape t))))
       (tv_fill t)"

definition broadcast_matmul_shape :: "shape_dim list \<Rightarrow> shape_dim list \<Rightarrow> shape_dim list" where
  "broadcast_matmul_shape a b = a @ b"

definition contract :: "(shape_dim list \<Rightarrow> shape_dim list \<Rightarrow> shape_dim list) \<Rightarrow> ir_value \<Rightarrow> ir_value \<Rightarrow> ir_value" where
  "contract shape l r =
     (case (l, r) of
        (VTensor a, VTensor b) \<Rightarrow>
          VTensor (tensor_val_new (tv_dtype a) (shape (tv_shape a) (tv_shape b)) (both f64_mul (tv_fill a) (tv_fill b)))
      | _ \<Rightarrow> VInt 0)"

definition grad_tensor :: "usize \<times> usize \<times> usize \<times> usize \<Rightarrow> ir_value" where
  "grad_tensor s = (case s of (a, b, c, d) \<Rightarrow>
     VTensor (tensor_val_new TF32 [Known a, Known b, Known c, Known d] None))"

type_synonym ir_env = "value_id \<rightharpoonup> ir_value"

definition read_val :: "ir_env \<Rightarrow> value_id \<Rightarrow> ir_value" where
  "read_val vals v = (case vals v of Some x \<Rightarrow> x | None \<Rightarrow> VInt 0)"

text \<open>
  What one instruction contributes: nothing, a definition that leaves \<open>last\<close> alone, a definition
  that also becomes \<open>last\<close>, or (for \<open>Output\<close>) a new \<open>last\<close> only.
\<close>

datatype effect =
    Nop
  | Define value_id ir_value
  | DefineLast value_id ir_value
  | Emit ir_value

definition eval_effect :: "bool \<Rightarrow> ir_env \<Rightarrow> instr \<Rightarrow> effect option" where
  "eval_effect oc vals i =
     (case i of
        ConstI64 v n \<Rightarrow> Some (Define v (VInt n))
      | ConstTensor v dtype shape fill \<Rightarrow> Some (Define v (VTensor (tensor_val_new dtype shape fill)))
      | BinOp dst op lhs rhs \<Rightarrow>
          map_option (DefineLast dst) (eval_binop oc op (read_val vals lhs) (read_val vals rhs))
      | SumOp dst src _ _ \<Rightarrow>
          Some (DefineLast dst (on_tensor (\<lambda>t. tensor_val_new (tv_dtype t) [] (tv_fill t)) (read_val vals src)))
      | MeanOp dst src _ _ \<Rightarrow>
          Some (DefineLast dst (on_tensor (\<lambda>t. tensor_val_new (tv_dtype t) [] (tv_fill t)) (read_val vals src)))
      | Relu dst src \<Rightarrow>
          Some (DefineLast dst (on_tensor (\<lambda>t. tensor_val_new (tv_dtype t) (tv_shape t)
            (map_option (\<lambda>f. f64_max f (f64_zero False)) (tv_fill t))) (read_val vals src)))
      | ReluGrad dst grad src \<Rightarrow>
          Some (DefineLast dst (relu_grad_value (read_val vals grad) (read_val vals src)))
      | Reshape dst src new_shape \<Rightarrow>
          Some (DefineLast dst (on_tensor (\<lambda>t. tensor_val_new (tv_dtype t) new_shape (tv_fill t)) (read_val vals src)))
      | ExpandDims dst src axis \<Rightarrow> Some (DefineLast dst (on_tensor (expand_dims axis) (read_val vals src)))
      | Squeeze dst src axes \<Rightarrow> Some (DefineLast dst (on_tensor (squeeze_dims axes) (read_val vals src)))
      | Transpose dst src _ \<Rightarrow> Some (DefineLast dst (read_val vals src))
      | Dot dst a b \<Rightarrow> Some (DefineLast dst (contract (\<lambda>_ _. []) (read_val vals a) (read_val vals b)))
      | MatMul dst a b \<Rightarrow>
          Some (DefineLast dst (contract broadcast_matmul_shape (read_val vals a) (read_val vals b)))
      | Conv2d dst inp _ _ _ _ \<Rightarrow> Some (DefineLast dst (read_val vals inp))
      | Conv2dGradInput dst _ _ input_shape _ _ _ \<Rightarrow> Some (DefineLast dst (grad_tensor input_shape))
      | Conv2dGradFilter dst _ _ filter_shape _ _ _ \<Rightarrow> Some (DefineLast dst (grad_tensor filter_shape))
      | Index dst src _ \<Rightarrow> Some (DefineLast dst (read_val vals src))
      | Slice dst src _ \<Rightarrow> Some (DefineLast dst (read_val vals src))
      | Gather dst src _ _ \<Rightarrow> Some (DefineLast dst (read_val vals src))
      | Output v \<Rightarrow> Some (case vals v of Some x \<Rightarrow> Emit x | None \<Rightarrow> Nop)
      | _ \<Rightarrow> Some Nop)"

fun apply_effect :: "effect \<Rightarrow> ir_env \<times> ir_value \<Rightarrow> ir_env \<times> ir_value" where
  "apply_effect Nop s = s"
| "apply_effect (Define v x) (vals, lst) = (vals(v \<mapsto> x), lst)"
| "apply_effect (DefineLast v x) (vals, lst) = (vals(v \<mapsto> x), x)"
| "apply_effect (Emit x) (vals, lst) = (vals, x)"

fun eval_instrs :: "bool \<Rightarrow> instr list \<Rightarrow> ir_env \<times> ir_value \<Rightarrow> (ir_env \<times> ir_value) option" where
  "eval_instrs oc [] s = Some s"
| "eval_instrs oc (i # is) s = do { e \<leftarrow> eval_effect oc (fst s) i; eval_instrs oc is (apply_effect e s) }"

definition eval_ir :: "bool \<Rightarrow> 'x ir_module_scheme \<Rightarrow> ir_value option" where
  "eval_ir oc m = map_option snd (eval_instrs oc (instrs m) (Map.empty, VInt 0))"

end
