(* ===== verification/Ir_Sound.thy ===== *)
theory Ir_Sound
  imports Ir_Canonical Ir_Interp
begin

text \<open>
  Canonicalisation preserves what \<open>eval_ir\<close> reports: each sub-pass is related to the evaluator, and
  the whole pass is their composition.
\<close>

subsection \<open>Effects\<close>

fun effect_def :: "effect \<Rightarrow> (value_id \<times> ir_value) option" where
  "effect_def Nop = None"
| "effect_def (Define v x) = Some (v, x)"
| "effect_def (DefineLast v x) = Some (v, x)"
| "effect_def (Emit x) = None"

lemma eval_effect_cong:
  "(\<And>v. v \<in> set (instruction_operands i) \<Longrightarrow> vals v = vals' v) \<Longrightarrow> eval_effect oc vals i = eval_effect oc vals' i"
  by (cases i) (simp_all add: eval_effect_def read_val_def)

lemma eval_effect_dst: "eval_effect oc vals i = Some e \<Longrightarrow> effect_def e = Some (v, x) \<Longrightarrow> instruction_dst i = Some v"
  by (cases i) (auto simp: eval_effect_def split: option.splits)

lemma fst_apply_effect:
  "fst (apply_effect e s) = (case effect_def e of None \<Rightarrow> fst s | Some (v, x) \<Rightarrow> (fst s)(v \<mapsto> x))"
  by (cases e; cases s) simp_all

subsection \<open>Dead-code elimination\<close>

lemma eval_filter_kept:
  assumes "eval_instrs oc is (vals, l) = Some (vals1, l1)"
    and "\<forall>i \<in> set is. kept L i \<longrightarrow> set (instruction_operands i) \<subseteq> L"
    and "\<forall>v \<in> L. vals v = vals' v"
  shows "\<exists>vals1' l1'. eval_instrs oc (filter (kept L) is) (vals', l') = Some (vals1', l1') \<and> (\<forall>v \<in> L. vals1 v = vals1' v)"
  using assms
proof (induction "is" arbitrary: vals l vals' l')
  case (Cons i "is")
  obtain e where e: "eval_effect oc vals i = Some e" "eval_instrs oc is (apply_effect e (vals, l)) = Some (vals1, l1)"
    using Cons.prems(1) by (auto split: bind_splits)
  obtain v1 k1 where s1: "apply_effect e (vals, l) = (v1, k1)" by fastforce
  show ?case
  proof (cases "kept L i")
    case True
    have e': "eval_effect oc vals' i = Some e"
      using e(1) eval_effect_cong [of i vals vals' oc] True Cons.prems(2,3) by (simp add: subset_iff)
    obtain v1' k1' where s1': "apply_effect e (vals', l') = (v1', k1')" by fastforce
    have "\<forall>v \<in> L. v1 v = v1' v"
      using fst_apply_effect [of e "(vals, l)"] fst_apply_effect [of e "(vals', l')"] s1 s1' Cons.prems(3)
      by (auto split: option.splits)
    with Cons.IH [of v1 k1 v1' k1'] e(2) s1 e' s1' True Cons.prems(2) show ?thesis by auto
  next
    case False
    then obtain d where d: "instruction_dst i = Some d" "d \<notin> L" by (auto simp: kept_def)
    have "\<forall>v \<in> L. v1 v = vals' v"
      using fst_apply_effect [of e "(vals, l)"] s1 eval_effect_dst [OF e(1)] d Cons.prems(3)
      by (auto split: option.splits)
    with Cons.IH [of v1 k1 vals' l'] e(2) s1 False Cons.prems(2) show ?thesis by auto
  qed
qed auto

subsection \<open>Constant folding\<close>

lemma fold_binop_sound: "fold_binop oc op l r = Some (Folded v) \<Longrightarrow> eval_int_binop oc op l r = Some v"
  by (cases op) (auto simp: arith_add_def arith_sub_def arith_mul_def checked_add_def checked_sub_def
      checked_mul_def split: if_splits option.splits)

lemma fold_binop_total: "eval_int_binop oc op l r = Some w \<Longrightarrow> \<exists>out. fold_binop oc op l r = Some out"
  by (cases op) (auto simp: arith_div_def arith_rem_def div_defined_def)

fun distinct_defs :: "instr list \<Rightarrow> bool" where
  "distinct_defs [] \<longleftrightarrow> True"
| "distinct_defs (i # is) \<longleftrightarrow> (\<forall>d. instruction_dst i = Some d \<longrightarrow> d \<notin> defs is) \<and> distinct_defs is"

lemma lookup_const_update:
  "lookup_const (c[d := x]) v = (if v = d \<and> d < length c then x else lookup_const c v)"
  by (simp add: lookup_const_def nth_list_update)

text \<open>The table only holds values the environment has, and nothing that is still to be defined.\<close>

definition table_ok :: "i64 option list \<Rightarrow> ir_env \<Rightarrow> instr list \<Rightarrow> bool" where
  "table_ok c vals is \<longleftrightarrow>
     (\<forall>v k. lookup_const c v = Some k \<longrightarrow> vals v = Some (VInt k)) \<and> (\<forall>v \<in> defs is. lookup_const c v = None)"

lemma fold_instr_BinOp:
  "fold_instr oc c (BinOp d op l r) =
     (case (lookup_const c l, lookup_const c r) of
        (Some a, Some b) \<Rightarrow>
          (case fold_binop oc op a b of
             None \<Rightarrow> None
           | Some Skip \<Rightarrow> Some (BinOp d op l r, c)
           | Some (Folded v) \<Rightarrow> Some (ConstI64 d v, c[d := Some v]))
      | _ \<Rightarrow> Some (BinOp d op l r, c[d := None]))"
  by (simp add: fold_instr_def)

lemma fold_instr_ConstI64: "fold_instr oc c (ConstI64 d v) = Some (ConstI64 d v, c[d := Some v])"
  by (simp add: fold_instr_def)

lemma fold_instr_other:
  assumes "\<nexists>d v. i = ConstI64 d v" "\<nexists>d op l r. i = BinOp d op l r"
  shows "fold_instr oc c i = Some (i, case instruction_dst i of Some d \<Rightarrow> c[d := None] | None \<Rightarrow> c)"
  using assms by (cases i) (simp_all add: fold_instr_def)

lemma eval_effect_ConstI64 [simp]: "eval_effect oc vals (ConstI64 d v) = Some (Define d (VInt v))"
  by (simp add: eval_effect_def)

lemma eval_effect_BinOp [simp]:
  "eval_effect oc vals (BinOp d op l r) = map_option (DefineLast d) (eval_binop oc op (read_val vals l) (read_val vals r))"
  by (simp add: eval_effect_def)

lemma table_ok_update:
  assumes "table_ok c vals (i # is)" "distinct_defs (i # is)" "instruction_dst i = Some d"
    and "\<And>k. x = Some k \<Longrightarrow> y = VInt k"
  shows "table_ok (c[d := x]) (vals(d \<mapsto> y)) is"
  using assms by (auto simp: table_ok_def lookup_const_update split: if_splits)

lemma table_ok_keep:
  assumes "table_ok c vals (i # is)" "instruction_dst i = Some d"
  shows "table_ok c (vals(d \<mapsto> y)) is"
  using assms by (auto simp: table_ok_def)

lemma table_ok_clear: "table_ok c vals (i # is) \<Longrightarrow> table_ok (c[d := None]) vals is \<and> table_ok c vals is"
  by (auto simp: table_ok_def lookup_const_update split: if_splits option.splits)

lemma fold_BinOp_step:
  assumes tab: "table_ok c vals (BinOp d op l r # is)" and dist: "distinct_defs (BinOp d op l r # is)"
    and e: "eval_binop oc op (read_val vals l) (read_val vals r) = Some y"
  shows "\<exists>j c' e'. fold_instr oc c (BinOp d op l r) = Some (j, c') \<and> eval_effect oc vals j = Some e' \<and>
    effect_def e' = Some (d, y) \<and> table_ok c' (vals(d \<mapsto> y)) is"
proof (cases "lookup_const c l = None \<or> lookup_const c r = None")
  case True
  then have "fold_instr oc c (BinOp d op l r) = Some (BinOp d op l r, c[d := None])"
    by (auto simp: fold_instr_BinOp split: option.splits)
  with e table_ok_update [OF tab dist, of d None y] show ?thesis by simp
next
  case False
  then obtain a b where ab: "lookup_const c l = Some a" "lookup_const c r = Some b" by auto
  then have "read_val vals l = VInt a" "read_val vals r = VInt b"
    using tab by (auto simp: table_ok_def read_val_def)
  then obtain w where w: "eval_int_binop oc op a b = Some w" "y = VInt w" using e by auto
  obtain out where out: "fold_binop oc op a b = Some out" using fold_binop_total [OF w(1)] by blast
  show ?thesis
  proof (cases out)
    case Skip
    with ab out e table_ok_keep [OF tab, of d y] show ?thesis by (simp add: fold_instr_BinOp)
  next
    case (Folded v)
    then have "v = w" using fold_binop_sound [of oc op a b v] out w(1) by simp
    with Folded ab out w table_ok_update [OF tab dist, of d "Some w" y] show ?thesis
      by (simp add: fold_instr_BinOp)
  qed
qed

lemma table_ok_step:
  assumes tab: "table_ok c vals (i # is)" and dist: "distinct_defs (i # is)"
    and e: "eval_effect oc vals i = Some e"
  shows "\<exists>j c' e'. fold_instr oc c i = Some (j, c') \<and> eval_effect oc vals j = Some e' \<and>
    effect_def e' = effect_def e \<and> table_ok c' (fst (apply_effect e (vals, l))) is"
proof (cases "\<exists>d op a b. i = BinOp d op a b")
  case True
  with fold_BinOp_step tab dist e show ?thesis by (fastforce simp: fst_apply_effect)
next
  case nb: False
  show ?thesis
  proof (cases "\<exists>d n. i = ConstI64 d n")
    case True
    then obtain d n where i: "i = ConstI64 d n" by blast
    with e table_ok_update [OF tab dist, of d "Some n" "VInt n"] show ?thesis
      by (auto simp: fold_instr_ConstI64 fst_apply_effect)
  next
    case False
    note f = fold_instr_other [OF False nb, of oc c]
    show ?thesis
    proof (cases "effect_def e")
      case None
      with f e table_ok_clear [OF tab] show ?thesis by (auto simp: fst_apply_effect split: option.splits)
    next
      case (Some vx)
      then obtain d y where y: "effect_def e = Some (d, y)" by (cases vx) auto
      then have "instruction_dst i = Some d" using eval_effect_dst [OF e] by simp
      with f e y table_ok_update [OF tab dist, of d None y] show ?thesis by (simp add: fst_apply_effect)
    qed
  qed
qed

lemma eval_constant_fold_loop:
  assumes "eval_instrs oc is (vals, l) = Some (vals1, l1)" "table_ok c vals is" "distinct_defs is"
  shows "\<exists>js l1'. constant_fold_loop oc c is = Some js \<and> eval_instrs oc js (vals, l') = Some (vals1, l1')"
  using assms
proof (induction "is" arbitrary: vals l c l')
  case (Cons i "is")
  obtain e where e: "eval_effect oc vals i = Some e" "eval_instrs oc is (apply_effect e (vals, l)) = Some (vals1, l1)"
    using Cons.prems(1) by (auto split: bind_splits)
  obtain j c' e' where j: "fold_instr oc c i = Some (j, c')" "eval_effect oc vals j = Some e'"
    "effect_def e' = effect_def e" "table_ok c' (fst (apply_effect e (vals, l))) is"
    using table_ok_step [OF Cons.prems(2,3) e(1)] by blast
  obtain v1 k1 k1' where s1: "apply_effect e (vals, l) = (v1, k1)" "apply_effect e' (vals, l') = (v1, k1')"
    using fst_apply_effect [of e "(vals, l)"] fst_apply_effect [of e' "(vals, l')"] j(3)
    by (metis fst_conv prod.collapse)
  from Cons.IH [of v1 k1 c' k1'] e(2) s1 j Cons.prems(3) show ?case by fastforce
qed simp

subsection \<open>Operand order\<close>

text \<open>A module without tensor sources only ever computes integers.\<close>

definition scalar_instr :: "instr \<Rightarrow> bool" where
  "scalar_instr i =
     (case i of ConstTensor _ _ _ _ \<Rightarrow> False | Conv2dGradInput _ _ _ _ _ _ _ \<Rightarrow> False
      | Conv2dGradFilter _ _ _ _ _ _ _ \<Rightarrow> False | _ \<Rightarrow> True)"

definition scalar_env :: "ir_env \<Rightarrow> bool" where
  "scalar_env vals \<longleftrightarrow> (\<forall>v x. vals v = Some x \<longrightarrow> (\<exists>n. x = VInt n))"

lemma read_val_scalar: "scalar_env vals \<Longrightarrow> \<exists>n. read_val vals v = VInt n"
  by (cases "vals v") (auto simp: read_val_def scalar_env_def)

lemma eval_effect_scalar:
  assumes "scalar_env vals" "scalar_instr i" "eval_effect oc vals i = Some e" "effect_def e = Some (v, x)"
  shows "\<exists>n. x = VInt n"
proof (cases "\<exists>d op l r. i = BinOp d op l r")
  case True
  then obtain d op l r where i: "i = BinOp d op l r" by blast
  obtain a b where "read_val vals l = VInt a" "read_val vals r = VInt b" using read_val_scalar [OF assms(1)] by metis
  with assms(3,4) i show ?thesis by auto
next
  case False
  have r: "on_tensor h (read_val vals w) = read_val vals w" "contract sh (read_val vals w) z = VInt 0"
    "relu_grad_value (read_val vals w) z = read_val vals w" for h sh w z
    using read_val_scalar [OF assms(1), of w]
    by (auto simp: on_tensor_def contract_def relu_grad_value_def split: ir_value.splits)
  show ?thesis using False assms(2-4) read_val_scalar [OF assms(1)]
    by (cases i) (auto simp: eval_effect_def scalar_instr_def r split: option.splits)
qed

lemma reorder_BinOp:
  "reorder_instr (BinOp d op l r) = (if (op = BAdd \<or> op = BMul) \<and> r < l then BinOp d op r l else BinOp d op l r)"
  by (simp add: reorder_instr_def)

lemma reorder_other: "\<nexists>d op l r. i = BinOp d op l r \<Longrightarrow> reorder_instr i = i"
  by (cases i) (simp_all add: reorder_instr_def)

lemma eval_reorder_instr:
  assumes "scalar_env vals"
  shows "eval_effect oc vals (reorder_instr i) = eval_effect oc vals i"
proof (cases "\<exists>d op l r. i = BinOp d op l r")
  case True
  then obtain d op l r where i: "i = BinOp d op l r" by blast
  obtain a b where "read_val vals l = VInt a" "read_val vals r = VInt b" using read_val_scalar [OF assms] by metis
  then show ?thesis unfolding i reorder_BinOp using arith_commute by auto
qed (simp add: reorder_other)

lemma eval_reorder:
  assumes "scalar_env vals" "\<forall>i \<in> set is. scalar_instr i"
  shows "eval_instrs oc (reorder_commutative_ops is) (vals, l) = eval_instrs oc is (vals, l)"
  using assms
proof (induction "is" arbitrary: vals l)
  case (Cons i "is")
  show ?case
  proof (cases "eval_effect oc vals i")
    case None
    with eval_reorder_instr [OF Cons.prems(1)] show ?thesis by (simp add: reorder_commutative_ops_def)
  next
    case (Some e)
    obtain v1 k1 where s1: "apply_effect e (vals, l) = (v1, k1)" by fastforce
    have "scalar_env v1"
      using fst_apply_effect [of e "(vals, l)"] s1 eval_effect_scalar [OF Cons.prems(1) _ Some] Cons.prems
      by (auto simp: scalar_env_def split: option.splits if_splits)
    with Cons.IH [of v1 k1] Cons.prems(2) Some s1 eval_reorder_instr [OF Cons.prems(1)] show ?thesis
      by (simp add: reorder_commutative_ops_def)
  qed
qed (simp add: reorder_commutative_ops_def)

subsection \<open>What the rewrites keep\<close>

text \<open>Same destination, no new operands, and an \<open>Output\<close> stays as it is.\<close>

definition refines_instr :: "instr \<Rightarrow> instr \<Rightarrow> bool" where
  "refines_instr i j \<longleftrightarrow> instruction_dst j = instruction_dst i \<and>
     set (instruction_operands j) \<subseteq> set (instruction_operands i) \<and>
     (\<forall>v. i = Output v \<longrightarrow> j = i)"

lemma refinesD:
  "refines_instr i j \<Longrightarrow> instruction_dst j = instruction_dst i"
  "refines_instr i j \<Longrightarrow> v \<in> set (instruction_operands j) \<Longrightarrow> v \<in> set (instruction_operands i)"
  by (auto simp: refines_instr_def)

lemma refines_refl [simp]: "refines_instr i i"
  by (simp add: refines_instr_def)

lemma refines_reorder: "refines_instr i (reorder_instr i)"
  by (cases "\<exists>d op l r. i = BinOp d op l r") (auto simp: refines_instr_def reorder_BinOp reorder_other split: if_splits)

lemma refines_fold: "fold_instr oc c i = Some (j, c') \<Longrightarrow> refines_instr i j"
proof (cases "\<exists>d op l r. i = BinOp d op l r")
  case True
  moreover assume "fold_instr oc c i = Some (j, c')"
  ultimately show ?thesis
    by (auto simp: fold_instr_BinOp refines_instr_def split: option.splits fold_outcome.splits)
next
  case False
  assume "fold_instr oc c i = Some (j, c')"
  with False have "j = i"
    by (cases "\<exists>d v. i = ConstI64 d v") (auto simp: fold_instr_ConstI64 fold_instr_other)
  then show ?thesis by simp
qed

lemma refines_fold_loop: "constant_fold_loop oc c is = Some js \<Longrightarrow> list_all2 refines_instr is js"
  by (induction "is" arbitrary: c js) (auto split: bind_splits dest: refines_fold)

lemma refines_defs: "list_all2 refines_instr is js \<Longrightarrow> defs js = defs is"
  by (induction rule: list_all2_induct) (simp_all add: refinesD(1) split: option.split)

lemma refines_ssa:
  "list_all2 refines_instr is js \<Longrightarrow> def_before_use is \<Longrightarrow> def_before_use js"
  "list_all2 refines_instr is js \<Longrightarrow> operands_below n is \<Longrightarrow> operands_below n js"
  "list_all2 refines_instr is js \<Longrightarrow> distinct_defs is \<Longrightarrow> distinct_defs js"
proof -
  show "list_all2 refines_instr is js \<Longrightarrow> def_before_use is \<Longrightarrow> def_before_use js"
  proof (induction rule: list_all2_induct)
    case (Cons i "is" j js)
    then have "defs (j # js) = defs (i # is)" by (intro refines_defs) simp
    with Cons refinesD(2) [OF Cons(1)] show ?case by (auto simp del: defs_simps)
  qed simp
  show "list_all2 refines_instr is js \<Longrightarrow> operands_below n is \<Longrightarrow> operands_below n js"
    by (induction rule: list_all2_induct) (auto dest: refinesD(2))
  show "list_all2 refines_instr is js \<Longrightarrow> distinct_defs is \<Longrightarrow> distinct_defs js"
    by (induction rule: list_all2_induct) (auto simp: refinesD(1) refines_defs)
qed

lemma distinct_defs_filter: "distinct_defs is \<Longrightarrow> distinct_defs (filter P is)"
proof (induction "is")
  case (Cons i "is")
  have "defs (filter P is) \<subseteq> defs is" by (auto simp: defs_def)
  with Cons show ?case by auto
qed simp

subsection \<open>The whole pass\<close>

text \<open>The instructions \<open>eval_ir\<close> gives a value to.\<close>

definition evaluated :: "instr \<Rightarrow> bool" where
  "evaluated i \<longleftrightarrow> (\<forall>vals oc e. eval_effect oc vals i = Some e \<longrightarrow> effect_def e \<noteq> None)"

definition ssa_stream :: "usize \<Rightarrow> instr list \<Rightarrow> bool" where
  "ssa_stream n is \<longleftrightarrow> def_before_use is \<and> operands_below n is \<and> distinct_defs is"

lemma eval_instrs_append:
  "eval_instrs oc (is @ js) s = Option.bind (eval_instrs oc is s) (eval_instrs oc js)"
  by (induction "is" arbitrary: s) (auto split: bind_splits)

lemma eval_instrs_dom: "eval_instrs oc is s = Some t \<Longrightarrow> fst s v \<noteq> None \<Longrightarrow> fst t v \<noteq> None"
proof (induction "is" arbitrary: s)
  case (Cons i "is")
  then obtain e where e: "eval_instrs oc is (apply_effect e s) = Some t" by (auto split: bind_splits)
  have "fst (apply_effect e s) v \<noteq> None" using Cons.prems(2) by (auto simp: fst_apply_effect split: option.splits)
  from Cons.IH [OF e this] show ?case .
qed simp

lemma eval_instrs_defines:
  "eval_instrs oc is s = Some t \<Longrightarrow> i \<in> set is \<Longrightarrow> evaluated i \<Longrightarrow> instruction_dst i = Some v \<Longrightarrow> fst t v \<noteq> None"
proof (induction "is" arbitrary: s)
  case (Cons j "is")
  then obtain e where e: "eval_effect oc (fst s) j = Some e" "eval_instrs oc is (apply_effect e s) = Some t"
    by (auto split: bind_splits)
  show ?case
  proof (cases "i = j")
    case True
    obtain w x where "effect_def e = Some (w, x)" using Cons.prems(3) e(1) True by (fastforce simp: evaluated_def)
    moreover from this have "w = v" using eval_effect_dst [OF e(1)] Cons.prems(4) True by simp
    ultimately show ?thesis using eval_instrs_dom [OF e(2)] by (simp add: fst_apply_effect)
  next
    case False
    with Cons.IH [OF e(2)] Cons.prems show ?thesis by simp
  qed
qed simp

text \<open>
  The result of a stream that ends in \<open>Output v\<close> is the value of \<open>v\<close>, so two runs that agree on \<open>v\<close>
  report the same.
\<close>

lemma eval_output:
  assumes "eval_instrs oc is s = Some (vals, l)" "vals v = Some x"
  shows "eval_instrs oc (is @ [Output v]) s = Some (vals, x)"
  using assms by (simp add: eval_instrs_append eval_effect_def)

lemma refines_butlast:
  assumes "list_all2 refines_instr (is @ [Output v]) js"
  obtains js' where "js = js' @ [Output v]" "list_all2 refines_instr is js'"
  using assms by (auto simp: list_all2_append1 list_all2_Cons1 refines_instr_def)

lemma filter_kept_Output: "filter (kept L) (is @ [Output v]) = filter (kept L) is @ [Output v]"
  by (simp add: kept_def)

lemma eval_prune_dead:
  assumes "ssa_stream n (is @ [Output v])" "eval_instrs oc is (Map.empty, VInt 0) = Some (vals, l)"
  obtains ks vals' l' where "prune_dead (is @ [Output v]) n = ks @ [Output v]"
    "eval_instrs oc ks (Map.empty, VInt 0) = Some (vals', l')" "vals' v = vals v" "set ks \<subseteq> set is"
    "ssa_stream n (ks @ [Output v])"
proof -
  let ?js = "is @ [Output v]" let ?L = "live ?js" let ?ks = "filter (kept ?L) is"
  have dbu: "def_before_use ?js" and below: "operands_below n ?js" using assms(1) by (auto simp: ssa_stream_def)
  have ops: "\<forall>i \<in> set ?js. kept ?L i \<longrightarrow> set (instruction_operands i) \<subseteq> ?L"
    using operands_live [OF dbu] by blast
  have "v \<in> ?L" using ops by (auto simp: kept_def)
  moreover obtain vals' l' where
    "eval_instrs oc ?ks (Map.empty, VInt 0) = Some (vals', l')" "\<forall>w \<in> ?L. vals w = vals' w"
    using eval_filter_kept [OF assms(2), of ?L Map.empty "VInt 0"] ops by auto
  moreover have "prune_dead ?js n = ?ks @ [Output v]"
    unfolding prune_dead_live [OF below] by (rule filter_kept_Output)
  moreover have "ssa_stream n (?ks @ [Output v])"
    using assms(1) def_before_use_filter [of ?js] operands_below_filter [of n ?js] distinct_defs_filter [of ?js]
    unfolding ssa_stream_def filter_kept_Output [symmetric] by blast
  ultimately show thesis using that [of ?ks vals' l'] by auto
qed

lemma tombstone_other: "\<nexists>n p r b t st vt. i = FnDef n p r b t st vt \<Longrightarrow> tombstone cs i = i"
  by (cases i) (simp_all add: tombstone_def)

lemma tombstone_FnDef: "\<exists>b'. tombstone cs (FnDef n p r b t st vt) = FnDef n p r b' t st vt"
  by (cases t) (auto simp: tombstone_def)

lemma tombstone_laws:
  "refines_instr i (tombstone cs i)"
  "eval_effect oc vals (tombstone cs i) = eval_effect oc vals i"
  "scalar_instr (tombstone cs i) = scalar_instr i"
proof -
  have "refines_instr i (tombstone cs i) \<and> eval_effect oc vals (tombstone cs i) = eval_effect oc vals i \<and>
    scalar_instr (tombstone cs i) = scalar_instr i"
  proof (cases "\<exists>n p r b t st vt. i = FnDef n p r b t st vt")
    case True
    then obtain n p r b t st vt where i: "i = FnDef n p r b t st vt" by blast
    obtain b' where "tombstone cs i = FnDef n p r b' t st vt" unfolding i using tombstone_FnDef by blast
    with i show ?thesis by (simp add: refines_instr_def eval_effect_def scalar_instr_def)
  qed (simp add: tombstone_other)
  then show "refines_instr i (tombstone cs i)" "eval_effect oc vals (tombstone cs i) = eval_effect oc vals i"
    "scalar_instr (tombstone cs i) = scalar_instr i" by blast+
qed

lemma eval_tombstone: "eval_instrs oc (map (tombstone cs) is) s = eval_instrs oc is s"
  by (induction "is" arbitrary: s) (auto simp: tombstone_laws(2))

text \<open>The stream after the expert pass.\<close>

definition after_experts :: "'x ir_module_scheme \<Rightarrow> 'x ir_module_scheme" where
  "after_experts m = (if module_has_reap_threshold m then prune_dead_experts m else m)"

lemma after_experts_cases:
  obtains "after_experts m = m" | cs where "after_experts m = m\<lparr>instrs := map (tombstone cs) (instrs m)\<rparr>"
  by (cases "module_has_reap_threshold m \<and> \<not> list_ex is_plain_fn (instrs m)")
    (auto simp: after_experts_def prune_dead_experts_def Let_def)

lemma after_experts_laws:
  assumes "instrs m = is @ [Output v]" "ssa_stream (next_id m) (instrs m)" "\<forall>i \<in> set is. scalar_instr i"
  obtains js where "instrs (after_experts m) = js @ [Output v]" "ssa_stream (next_id m) (js @ [Output v])"
    "\<forall>i \<in> set js. scalar_instr i" "\<And>s. eval_instrs oc js s = eval_instrs oc is s"
    "next_id (after_experts m) = next_id m"
proof (cases rule: after_experts_cases [of m])
  case 1
  with assms that [of "is"] show thesis by simp
next
  case (2 cs)
  have out: "tombstone cs (Output v) = Output v" by (simp add: tombstone_other)
  have "list_all2 refines_instr (instrs m) (map (tombstone cs) (instrs m))"
    by (simp add: list_all2_conv_all_nth tombstone_laws(1))
  then have "ssa_stream (next_id m) (map (tombstone cs) (instrs m))"
    using assms(2) refines_ssa unfolding ssa_stream_def by blast
  with 2 assms out that [of "map (tombstone cs) is"] show thesis
    by (simp add: eval_tombstone tombstone_laws(3))
qed

lemma canonicalize_module_eq:
  "canonicalize_module oc m =
     (if has_populated_canonical m then Some m
      else map_option (\<lambda>is3. let m' = (after_experts m)\<lparr>instrs := prune_dead is3 (next_id (after_experts m))\<rparr>
          in m'\<lparr>next_id := next_sequential_id m'\<rparr>)
        (constant_fold oc (reorder_commutative_ops
          (prune_dead (instrs (after_experts m)) (next_id (after_experts m)))) (next_id (after_experts m))))"
  by (cases "constant_fold oc (reorder_commutative_ops
          (prune_dead (instrs (after_experts m)) (next_id (after_experts m)))) (next_id (after_experts m))")
    (auto simp: canonicalize_module_def after_experts_def Let_def)

lemma scalar_env_empty [simp]: "scalar_env Map.empty"
  by (simp add: scalar_env_def)

lemma eval_reorder_fold:
  assumes ssa: "ssa_stream n (ks @ [Output v])" and sc: "\<forall>i \<in> set ks. scalar_instr i"
    and run: "eval_instrs oc ks (Map.empty, VInt 0) = Some (vals, l)" "vals v = Some y"
  obtains gs vals' l' where
    "constant_fold oc (reorder_commutative_ops (ks @ [Output v])) n = Some (gs @ [Output v])"
    "eval_instrs oc gs (Map.empty, VInt 0) = Some (vals', l')" "vals' v = Some y" "ssa_stream n (gs @ [Output v])"
proof -
  let ?rs = "reorder_commutative_ops ks" and ?s0 = "(Map.empty, VInt 0) :: ir_env \<times> ir_value"
  have r: "reorder_commutative_ops (ks @ [Output v]) = ?rs @ [Output v]"
    by (simp add: reorder_commutative_ops_def reorder_other)
  have "eval_instrs oc ?rs ?s0 = Some (vals, l)" using eval_reorder [of Map.empty ks oc "VInt 0"] run(1) sc by simp
  then have re: "eval_instrs oc (?rs @ [Output v]) ?s0 = Some (vals, y)" using run(2) by (rule eval_output)
  have "list_all2 refines_instr (ks @ [Output v]) (?rs @ [Output v])"
    by (simp add: reorder_commutative_ops_def list_all2_conv_all_nth refines_reorder nth_append)
  then have rssa: "ssa_stream n (?rs @ [Output v])" using ssa refines_ssa unfolding ssa_stream_def by blast
  have "table_ok (replicate n None) Map.empty (?rs @ [Output v])"
    by (simp add: table_ok_def lookup_const_def)
  then obtain fs l2 where fs: "constant_fold oc (?rs @ [Output v]) n = Some fs" "eval_instrs oc fs ?s0 = Some (vals, l2)"
    using eval_constant_fold_loop [OF re] rssa unfolding ssa_stream_def constant_fold_def by metis
  have rf: "list_all2 refines_instr (?rs @ [Output v]) fs"
    using fs(1) refines_fold_loop unfolding constant_fold_def by blast
  then obtain gs where gs: "fs = gs @ [Output v]" by (rule refines_butlast)
  moreover have "ssa_stream n fs" using rssa refines_ssa [OF rf] unfolding ssa_stream_def by blast
  moreover obtain vals2 l3 where "eval_instrs oc gs ?s0 = Some (vals2, l3)" "vals2 v = Some y"
    using fs(2) gs run(2) by (auto simp: eval_instrs_append eval_effect_def split: bind_splits option.splits)
  ultimately show thesis using that fs(1) r by simp
qed

lemma canonicalize_module_eval:
  assumes m: "instrs m = is @ [Output v]" and ssa: "ssa_stream (next_id m) (instrs m)"
    and sc: "\<forall>i \<in> set is. scalar_instr i"
    and def_v: "\<exists>i \<in> set is. evaluated i \<and> instruction_dst i = Some v"
    and ev: "eval_ir oc m = Some x"
  shows "\<exists>m'. canonicalize_module oc m = Some m' \<and> eval_ir oc m' = Some x"
proof (cases "has_populated_canonical m")
  case True
  with ev show ?thesis by (simp add: canonicalize_module_def)
next
  case False
  let ?n = "next_id m" and ?s0 = "(Map.empty, VInt 0) :: ir_env \<times> ir_value"
  obtain vals l where run: "eval_instrs oc is ?s0 = Some (vals, l)"
    using ev by (auto simp: eval_ir_def m eval_instrs_append split: bind_splits)
  obtain y where y: "vals v = Some y" using eval_instrs_defines [OF run] def_v by fastforce
  have "x = y" using ev eval_output [OF run y] by (simp add: eval_ir_def m)
  obtain js where js: "instrs (after_experts m) = js @ [Output v]" "ssa_stream ?n (js @ [Output v])"
    "\<forall>i \<in> set js. scalar_instr i" "\<And>s. eval_instrs oc js s = eval_instrs oc is s" "next_id (after_experts m) = ?n"
    using after_experts_laws [OF m ssa sc, where thesis = thesis] by blast
  obtain ks vals1 l1 where ks: "prune_dead (js @ [Output v]) ?n = ks @ [Output v]"
    "eval_instrs oc ks ?s0 = Some (vals1, l1)" "vals1 v = vals v" "set ks \<subseteq> set js" "ssa_stream ?n (ks @ [Output v])"
    using eval_prune_dead [OF js(2) run [folded js(4)]] .
  have sc': "\<forall>i \<in> set ks. scalar_instr i" and v1: "vals1 v = Some y" using ks(3,4) js(3) y by auto
  obtain gs vals2 l2 where gs: "constant_fold oc (reorder_commutative_ops (ks @ [Output v])) ?n = Some (gs @ [Output v])"
    "eval_instrs oc gs ?s0 = Some (vals2, l2)" "vals2 v = Some y" "ssa_stream ?n (gs @ [Output v])"
    using eval_reorder_fold [OF ks(5) sc' ks(2) v1] .
  obtain hs vals3 l3 where hs: "prune_dead (gs @ [Output v]) ?n = hs @ [Output v]"
    "eval_instrs oc hs ?s0 = Some (vals3, l3)" "vals3 v = vals2 v"
    using eval_prune_dead [OF gs(4,2)] by metis
  have "eval_instrs oc (hs @ [Output v]) ?s0 = Some (vals3, y)" using eval_output [OF hs(2)] hs(3) gs(3) by simp
  then show ?thesis
    using False js(1,5) ks(1) gs(1) hs(1) \<open>x = y\<close> by (simp add: canonicalize_module_eq eval_ir_def Let_def)
qed

subsection \<open>Idempotence\<close>

lemma reorder_idem: "reorder_instr (reorder_instr i) = reorder_instr i"
  by (cases "\<exists>d op l r. i = BinOp d op l r") (auto simp: reorder_BinOp reorder_other)

lemma fold_keeps_order:
  assumes "fold_instr oc c i = Some (j, c')" "reorder_instr i = i" shows "reorder_instr j = j"
proof (cases "\<exists>d op l r. i = BinOp d op l r")
  case True
  then have "j = i \<or> (\<exists>d v. j = ConstI64 d v)"
    using assms(1) by (auto simp: fold_instr_BinOp split: option.splits fold_outcome.splits)
  with assms(2) show ?thesis by (auto simp: reorder_other)
next
  case False
  then have "j = i" using assms(1)
    by (cases "\<exists>d v. i = ConstI64 d v") (auto simp: fold_instr_ConstI64 fold_instr_other)
  with assms(2) show ?thesis by simp
qed

text \<open>
  Folding a folded stream again, from a table that knows no more and after dropping instructions,
  changes nothing.
\<close>

definition sub_table :: "i64 option list \<Rightarrow> i64 option list \<Rightarrow> bool" where
  "sub_table c' c \<longleftrightarrow> (\<forall>v k. lookup_const c' v = Some k \<longrightarrow> lookup_const c v = Some k)"

lemma sub_table_lookup: "sub_table c' c \<Longrightarrow> lookup_const c v = None \<Longrightarrow> lookup_const c' v = None"
  by (metis not_None_eq option.discI sub_table_def)

lemma sub_table_const:
  assumes "sub_table c' c" "lookup_const c d = None" "d < length c"
  shows "sub_table (c'[d := Some v]) (c[d := Some v])" "sub_table c' (c[d := Some v])"
  using assms unfolding sub_table_def lookup_const_update by (metis option.discI)+

lemma sub_table_None:
  assumes "sub_table c' c" "lookup_const c d = None"
  shows "sub_table (c'[d := None]) (c[d := None])" "sub_table c' (c[d := None])" "sub_table (c'[d := None]) c"
  using assms unfolding sub_table_def lookup_const_update by (metis option.discI)+

lemma refold_instr:
  assumes fi: "fold_instr oc c i = Some (j, c1)" and sub: "sub_table c' c"
    and fresh: "\<forall>d. instruction_dst i = Some d \<longrightarrow> lookup_const c d = None \<and> d < length c"
  shows "\<exists>c1'. fold_instr oc c' j = Some (j, c1') \<and> sub_table c1' c1 \<and> sub_table c' c1"
proof (cases "\<exists>d op l r. i = BinOp d op l r")
  case True
  then obtain d op l r where i: "i = BinOp d op l r" by blast
  then have d: "lookup_const c d = None" "d < length c" using fresh by auto
  show ?thesis
  proof (cases "lookup_const c l = None \<or> lookup_const c r = None")
    case True
    then have "lookup_const c' l = None \<or> lookup_const c' r = None"
      by (elim disjE) (simp_all add: sub_table_lookup [OF sub])
    then have "fold_instr oc c' i = Some (i, c'[d := None])" "j = i" "c1 = c[d := None]"
      using True fi by (auto simp: i fold_instr_BinOp split: option.splits)
    with sub_table_None [OF sub d(1)] show ?thesis by blast
  next
    case False
    then obtain a b where ab: "lookup_const c l = Some a" "lookup_const c r = Some b" by auto
    show ?thesis
    proof (cases "fold_binop oc op a b = Some Skip")
      case True
      with fi ab have j: "j = i" "c1 = c" by (auto simp: i fold_instr_BinOp)
      have "\<exists>c1'. fold_instr oc c' i = Some (i, c1') \<and> (c1' = c' \<or> c1' = c'[d := None])"
        using True ab sub by (auto simp: i fold_instr_BinOp sub_table_def split: option.splits)
      with j sub sub_table_None [OF sub d(1)] show ?thesis by blast
    next
      case False
      then obtain v where "j = ConstI64 d v" "c1 = c[d := Some v]"
        using fi ab by (auto simp: i fold_instr_BinOp split: option.splits fold_outcome.splits)
      with sub_table_const [OF sub d] show ?thesis by (simp add: fold_instr_ConstI64)
    qed
  qed
next
  case nb: False
  show ?thesis
  proof (cases "\<exists>d v. i = ConstI64 d v")
    case True
    with fi fresh sub_table_const [OF sub] show ?thesis by (auto simp: fold_instr_ConstI64)
  next
    case False
    with fi nb fresh sub sub_table_None [OF sub] show ?thesis
      by (auto simp: fold_instr_other split: option.splits)
  qed
qed

lemma fold_instr_fresh:
  assumes "fold_instr oc c i = Some (j, c1)"
    and "instruction_dst i \<noteq> Some v" "lookup_const c v = None"
  shows "lookup_const c1 v = None \<and> length c1 = length c"
proof (cases "\<exists>d op l r. i = BinOp d op l r")
  case True
  with assms show ?thesis
    by (auto simp: fold_instr_BinOp lookup_const_update split: option.splits fold_outcome.splits if_splits)
next
  case nb: False
  with assms show ?thesis
    by (cases "\<exists>d v. i = ConstI64 d v")
      (auto simp: fold_instr_ConstI64 fold_instr_other lookup_const_update split: option.splits if_splits)
qed

lemma refold_loop:
  assumes "constant_fold_loop oc c is = Some js" "sub_table c' c" "distinct_defs is"
    and "\<forall>v \<in> defs is. lookup_const c v = None \<and> v < length c"
  shows "constant_fold_loop oc c' (filter P js) = Some (filter P js)"
  using assms
proof (induction "is" arbitrary: c c' js)
  case (Cons i "is")
  obtain j c1 js' where j: "fold_instr oc c i = Some (j, c1)" "constant_fold_loop oc c1 is = Some js'" "js = j # js'"
    using Cons.prems(1) by (auto split: bind_splits)
  obtain c1' where c1': "fold_instr oc c' j = Some (j, c1')" "sub_table c1' c1" "sub_table c' c1"
    using refold_instr [OF j(1) Cons.prems(2)] Cons.prems(4) by (auto split: option.splits)
  have "lookup_const c1 v = None \<and> v < length c1" if "v \<in> defs is" for v
  proof -
    have "instruction_dst i \<noteq> Some v" "lookup_const c v = None" "v < length c"
      using Cons.prems(3,4) that by (auto split: option.splits)
    then show ?thesis using fold_instr_fresh [OF j(1), of v] by simp
  qed
  with Cons.IH [OF j(2)] c1' j(3) Cons.prems(3) show ?case by simp
qed simp

lemma fold_loop_all:
  assumes "constant_fold_loop oc c is = Some js" "\<forall>i \<in> set is. P i"
    and "\<And>c i j c1. fold_instr oc c i = Some (j, c1) \<Longrightarrow> P i \<Longrightarrow> P j"
  shows "\<forall>j \<in> set js. P j"
  using assms(1,2)
proof (induction "is" arbitrary: c js)
  case (Cons i "is")
  obtain j c1 js' where j: "fold_instr oc c i = Some (j, c1)" "constant_fold_loop oc c1 is = Some js'" "js = j # js'"
    using Cons.prems(1) by (auto split: bind_splits)
  with Cons.IH [OF j(2)] assms(3) [OF j(1)] Cons.prems(2) show ?case by simp
qed simp

lemma reap_reorder: "is_reap_fn (reorder_instr i) \<Longrightarrow> is_reap_fn i"
  by (cases "\<exists>d op l r. i = BinOp d op l r") (auto simp: reorder_BinOp reorder_other is_reap_fn_def split: if_splits)

lemma reap_fold: "fold_instr oc c i = Some (j, c1) \<Longrightarrow> is_reap_fn j \<Longrightarrow> is_reap_fn i"
proof (cases "\<exists>d op l r. i = BinOp d op l r")
  case True
  assume "fold_instr oc c i = Some (j, c1)" "is_reap_fn j"
  with True show ?thesis
    by (auto simp: fold_instr_BinOp is_reap_fn_def split: option.splits fold_outcome.splits)
next
  case False
  assume "fold_instr oc c i = Some (j, c1)" "is_reap_fn j"
  with False show ?thesis
    by (cases "\<exists>d v. i = ConstI64 d v") (auto simp: fold_instr_ConstI64 fold_instr_other)
qed

subsection \<open>The identifier bound\<close>

lemma fold_max_ge: "b \<le> fold (\<lambda>v b. max b (h v)) vs (b :: nat)"
proof (induction vs arbitrary: b)
  case (Cons v vs)
  have "b \<le> max b (h v)" by simp
  also have "\<dots> \<le> fold (\<lambda>v b. max b (h v)) vs (max b (h v))" by (rule Cons.IH)
  finally show ?case by simp
qed simp

lemma fold_max_mem: "v \<in> set vs \<Longrightarrow> h v \<le> fold (\<lambda>v b. max b (h v)) vs (b :: nat)"
proof (induction vs arbitrary: b)
  case (Cons w vs)
  have "h w \<le> max b (h w)" by simp
  also have "\<dots> \<le> fold (\<lambda>v b. max b (h v)) vs (max b (h w))" by (rule fold_max_ge)
  finally show ?case using Cons by auto
qed simp

text \<open>Every value an instruction defines or reads in its own stream is below its bound.\<close>

definition stream_ids :: "instr \<Rightarrow> value_id set" where
  "stream_ids i =
     {d. instruction_dst i = Some d} \<union> set (instruction_operands i) \<union>
     (case i of
        While _ _ _ _ _ exit_ids \<Rightarrow> set exit_ids
      | IfInstr _ _ _ _ _ _ _ branch_bindings merges \<Rightarrow> fst ` set merges \<union> snd ` set branch_bindings
      | _ \<Rightarrow> {})"

definition base_bound :: "instr \<Rightarrow> usize" where
  "base_bound i =
     fold (\<lambda>v b. max b (v + 1)) (instruction_operands i) (case instruction_dst i of None \<Rightarrow> 0 | Some d \<Rightarrow> d + 1)"

lemma base_bound_mem: "instruction_dst i = Some v \<or> v \<in> set (instruction_operands i) \<Longrightarrow> v < base_bound i"
  using fold_max_ge [of "Suc v" Suc "instruction_operands i"] fold_max_mem [of v "instruction_operands i" Suc]
  by (auto simp: base_bound_def Suc_le_eq)

lemma instruction_id_bound_other:
  assumes "\<nexists>a b c d e f. i = While a b c d e f" "\<nexists>a b c d e f g h k. i = IfInstr a b c d e f g h k"
  shows "instruction_id_bound i = base_bound i" "stream_ids i = {d. instruction_dst i = Some d} \<union> set (instruction_operands i)"
  using assms by (cases i; simp add: instruction_id_bound_def base_bound_def stream_ids_def)+

lemma id_bound_mem:
  assumes "v \<in> stream_ids i"
  shows "v < instruction_id_bound i"
proof (cases "\<exists>a b c d e f. i = While a b c d e f")
  case True
  then obtain a b c d e f where i: "i = While a b c d e f" by blast
  have eq: "instruction_id_bound i = fold (\<lambda>v b. max b (Suc v)) f (base_bound i)"
    by (simp add: i instruction_id_bound_def base_bound_def)
  have "base_bound i \<le> instruction_id_bound i" unfolding eq by (rule fold_max_ge)
  moreover have "x \<in> set f \<Longrightarrow> Suc x \<le> instruction_id_bound i" for x unfolding eq by (rule fold_max_mem)
  ultimately show ?thesis using assms base_bound_mem [of i v] by (auto simp: stream_ids_def i Suc_le_eq)
next
  case nw: False
  show ?thesis
  proof (cases "\<exists>a b c d e f g h k. i = IfInstr a b c d e f g h k")
    case True
    then obtain a b c d e f g bb ms where i: "i = IfInstr a b c d e f g bb ms" by blast
    let ?h = "\<lambda>(m, t, e). max (max (Suc m) (Suc t)) (Suc e)"
    let ?b1 = "fold (\<lambda>x b. max b (?h x)) ms (max (base_bound i) (Suc g))"
    have "(\<lambda>(m, t, e) b. max (max (max b (m + 1)) (t + 1)) (e + 1)) = (\<lambda>x b. max b (?h x))"
      by (auto simp: fun_eq_iff max.assoc)
    then have eq: "instruction_id_bound i = fold (\<lambda>x b. max b (Suc (snd x))) bb ?b1"
      by (simp add: i instruction_id_bound_def base_bound_def case_prod_beta')
    have b1: "?b1 \<le> instruction_id_bound i" unfolding eq by (rule fold_max_ge)
    have "base_bound i \<le> ?b1" using fold_max_ge [of "max (base_bound i) (Suc g)" ?h ms] by simp
    moreover have "x \<in> set ms \<Longrightarrow> Suc (fst x) \<le> ?b1" for x
      using fold_max_mem [of x ms ?h "max (base_bound i) (Suc g)"] by (cases x) auto
    moreover have "x \<in> set bb \<Longrightarrow> Suc (snd x) \<le> instruction_id_bound i" for x
      unfolding eq using fold_max_mem [of x bb "\<lambda>x. Suc (snd x)"] by auto
    ultimately show ?thesis using assms base_bound_mem [of i v] b1
      by (fastforce simp: stream_ids_def i Suc_le_eq)
  next
    case False
    with instruction_id_bound_other [OF nw False] assms base_bound_mem [of i v] show ?thesis by auto
  qed
qed

lemma next_sequential_bound:
  assumes "i \<in> set (instrs m)" "v \<in> stream_ids i"
  shows "v < next_sequential_id m"
proof -
  have "instruction_id_bound i \<le> fold (\<lambda>x b. max b (id x)) (map instruction_id_bound (instrs m)) 0"
    using assms(1) fold_max_mem [of "instruction_id_bound i" "map instruction_id_bound (instrs m)" id] by simp
  moreover have "fold max xs (0::nat) = fold (\<lambda>x b. max b (id x)) xs 0" for xs
    by (rule fold_cong) (auto simp: fun_eq_iff max.commute)
  ultimately show ?thesis using id_bound_mem [OF assms(2)] unfolding next_sequential_id_def by simp
qed

subsection \<open>Running the pass twice\<close>

lemma live_operands: "v \<in> live is \<Longrightarrow> \<exists>i \<in> set is. v \<in> set (instruction_operands i)"
  by (induction "is") (auto split: if_splits)

lemma kept_defs_below:
  assumes "operands_below n is" "v \<in> defs (filter (kept (live is)) is)"
  shows "v < n"
  using assms live_operands [of v "is"] by (auto simp: defs_def kept_def operands_below_def)

text \<open>The stream the rewrites produce is a fixed point of each of them.\<close>

lemma rewritten_stream:
  fixes "is"
  defines "is1 \<equiv> filter (kept (live is)) is"
  assumes ssa: "ssa_stream n is" and is3: "constant_fold oc (reorder_commutative_ops is1) n = Some is3"
  shows "ssa_stream n is3"
    and "reorder_commutative_ops (filter P is3) = filter P is3"
    and "constant_fold oc (filter P is3) n' = Some (filter P is3)"
    and "\<forall>i \<in> set is. \<not> is_reap_fn i \<Longrightarrow> \<forall>j \<in> set is3. \<not> is_reap_fn j"
proof -
  let ?is2 = "reorder_commutative_ops is1"
  have s0: "def_before_use is" "operands_below n is" "distinct_defs is" using ssa by (auto simp: ssa_stream_def)
  have loop: "constant_fold_loop oc (replicate n None) ?is2 = Some is3" using is3 by (simp add: constant_fold_def)
  have r12: "list_all2 refines_instr is1 ?is2"
    by (simp add: reorder_commutative_ops_def list_all2_conv_all_nth refines_reorder)
  note r23 = refines_fold_loop [OF loop]
  have s1: "ssa_stream n is1"
    unfolding is1_def ssa_stream_def using s0 def_before_use_filter operands_below_filter distinct_defs_filter by blast
  then have s2: "ssa_stream n ?is2" using refines_ssa [OF r12] by (simp add: ssa_stream_def)
  then show "ssa_stream n is3" using refines_ssa [OF r23] by (simp add: ssa_stream_def)
  have "\<forall>j \<in> set is3. reorder_instr j = j"
    by (rule fold_loop_all [OF loop])
      (auto simp: reorder_commutative_ops_def reorder_idem dest: fold_keeps_order)
  then show "reorder_commutative_ops (filter P is3) = filter P is3"
    unfolding reorder_commutative_ops_def by (intro map_idI) auto
  have "\<forall>v \<in> defs ?is2. lookup_const (replicate n None) v = None \<and> v < length (replicate n (None :: i64 option))"
    using kept_defs_below [OF s0(2)] refines_defs [OF r12] by (auto simp: lookup_const_def is1_def)
  moreover have "sub_table (replicate n' None) (replicate n None)"
    by (simp add: sub_table_def lookup_const_def)
  ultimately show "constant_fold oc (filter P is3) n' = Some (filter P is3)"
    using refold_loop [OF loop] s2 unfolding constant_fold_def ssa_stream_def by blast
  assume "\<forall>i \<in> set is. \<not> is_reap_fn i"
  then show "\<forall>j \<in> set is3. \<not> is_reap_fn j"
    by (intro fold_loop_all [OF loop, of "\<lambda>j. \<not> is_reap_fn j"])
      (auto simp: reorder_commutative_ops_def is1_def dest: reap_reorder reap_fold)
qed

lemma canonicalize_module_idem:
  assumes reap: "\<not> module_has_reap_threshold m" and ssa: "ssa_stream (next_id m) (instrs m)"
    and m': "canonicalize_module oc m = Some m'"
  shows "canonicalize_module oc m' = Some m'"
proof (cases "has_populated_canonical m")
  case True
  with m' show ?thesis by (simp add: canonicalize_module_def)
next
  case False
  let ?n = "next_id m" let ?is1 = "filter (kept (live (instrs m))) (instrs m)"
  have e: "after_experts m = m" using reap by (simp add: after_experts_def)
  have "prune_dead (instrs m) ?n = ?is1" using ssa by (intro prune_dead_live) (simp add: ssa_stream_def)
  then obtain is3 where is3: "constant_fold oc (reorder_commutative_ops ?is1) ?n = Some is3"
    and mm: "m' = m\<lparr>instrs := prune_dead is3 ?n, next_id := next_sequential_id (m\<lparr>instrs := prune_dead is3 ?n\<rparr>)\<rparr>"
    using m' False by (auto simp: canonicalize_module_eq e Let_def)
  note rs = rewritten_stream [OF ssa is3]
  let ?is4 = "filter (kept (live is3)) is3"
  have p3: "prune_dead is3 ?n = ?is4" using rs(1) by (intro prune_dead_live) (simp add: ssa_stream_def)
  have i': "instrs m' = ?is4" "next_id m' = next_sequential_id (m\<lparr>instrs := ?is4\<rparr>)" using mm p3 by simp_all
  have "operands_below (next_id m') ?is4"
    unfolding operands_below_def i'(2) by (auto intro!: next_sequential_bound simp: stream_ids_def)
  then have p4: "prune_dead ?is4 (next_id m') = ?is4"
    using prune_dead_live live_filter_kept [of is3] rs(1) by (simp add: ssa_stream_def)
  have "\<forall>j \<in> set is3. \<not> is_reap_fn j" using rs(4) reap by (simp add: module_has_reap_threshold_def list_ex_iff)
  then have e': "after_experts m' = m'"
    by (auto simp: after_experts_def module_has_reap_threshold_def list_ex_iff i'(1))
  have "\<not> has_populated_canonical m'" using False mm by (simp add: has_populated_canonical_def)
  then have c: "canonicalize_module oc m' = Some (m'\<lparr>instrs := ?is4, next_id := next_sequential_id (m'\<lparr>instrs := ?is4\<rparr>)\<rparr>)"
    using p4 rs(2,3) i'(1) by (simp add: canonicalize_module_eq e' Let_def)
  have "next_sequential_id (m'\<lparr>instrs := ?is4\<rparr>) = next_id m'" by (simp add: i'(2) next_sequential_id_def)
  moreover have "m'\<lparr>instrs := ?is4, next_id := next_id m'\<rparr> = m'" using i'(1) by simp
  ultimately show ?thesis using c by simp
qed

end
