(* ===== verification/Phf.thy ===== *)
theory Phf
  imports Rust_Text
begin

text \<open>
  \<^verbatim>\<open>src/phf/mod.rs\<close>: the seedless perfect-hash builder for enum string tables.  Its \<open>i64\<close> values
  are \<^typ>\<open>int\<close> and \<^typ>\<open>nat\<close> here; the lemmas on \<open>mix\<close> show that the accumulator stays far below the
  64-bit range, so no operation of the source wraps.  The unclaimed-slot marker \<open>usize::MAX\<close> of the
  slot table is \<^const>\<open>None\<close>.
\<close>

definition MULT_A :: nat where "MULT_A = 33"
definition MULT_B :: nat where "MULT_B = 131"
definition MOD31 :: nat where "MOD31 = 2147483648"
definition MAX_KEYS :: usize where "MAX_KEYS = 128"
definition MAX_TOTAL_BYTES :: usize where "MAX_TOTAL_BYTES = 16384"
definition MAX_DISP :: nat where "MAX_DISP = 4096"
definition MAX_SLOT_CHECKS :: nat where "MAX_SLOT_CHECKS = 524288"
definition ORD_EMPTY :: int where "ORD_EMPTY = 255"

definition mix :: "u8 list \<Rightarrow> nat \<Rightarrow> nat" where
  "mix key mult = fold (\<lambda>b h. (h * mult + unat b) mod MOD31) key 0"

definition hash_a :: "u8 list \<Rightarrow> nat" where "hash_a key = mix key MULT_A"
definition hash_b :: "u8 list \<Rightarrow> nat" where "hash_b key = mix key MULT_B"

record phf_plan =
  pp_n :: usize
  pp_m :: usize
  pp_np :: usize
  pp_disp :: "nat list"
  pp_slot_ord :: "int list"
  pp_slot_len :: "usize list"
  pp_slot_off :: "usize list"
  pp_pool :: "u8 list"

datatype phf_outcome =
    Built phf_plan
  | Fallback

subsection \<open>The emitted tables\<close>

definition enc_byte :: "u8 \<Rightarrow> string" where
  "enc_byte v = [char_of (65 + unat (drop_bit 4 v)), char_of (65 + unat (v AND 0x0F))]"

definition disp_table :: "phf_plan \<Rightarrow> string" where
  "disp_table p = concat (map (\<lambda>d. enc_byte (of_nat d) @ enc_byte (of_nat (d div 256))) (pp_disp p))"

definition meta_table :: "phf_plan \<Rightarrow> string" where
  "meta_table p =
     concat (map (\<lambda>slot.
       enc_byte (of_int (pp_slot_ord p ! slot)) @ enc_byte (of_nat (pp_slot_len p ! slot)) @
       enc_byte (of_nat (pp_slot_off p ! slot)) @ enc_byte (of_nat (pp_slot_off p ! slot div 256))) [0..<pp_np p])"

definition pool_table :: "phf_plan \<Rightarrow> string" where
  "pool_table p = concat (map enc_byte (pp_pool p))"

subsection \<open>Lookup\<close>

text \<open>\<^const>\<open>None\<close> is a panic: a remainder by zero or an index out of range.\<close>

definition lookup :: "phf_plan \<Rightarrow> u8 list \<Rightarrow> int option" where
  "lookup p key =
     (if pp_m p = 0 then None
      else let bucket = hash_a key mod pp_m p in
        if length (pp_disp p) \<le> bucket \<or> pp_np p = 0 then None
        else let slot = (hash_b key + pp_disp p ! bucket) mod pp_np p in
          if length (pp_slot_ord p) \<le> slot then None
          else if pp_slot_ord p ! slot = ORD_EMPTY then Some (-1)
          else if length (pp_slot_len p) \<le> slot then None
          else if pp_slot_len p ! slot \<noteq> length key then Some (-1)
          else if length (pp_slot_off p) \<le> slot then None
          else let off = pp_slot_off p ! slot in
            if length (pp_pool p) < off + length key then None
            else if take (length key) (drop off (pp_pool p)) \<noteq> key then Some (-1)
            else Some (pp_slot_ord p ! slot))"

subsection \<open>Construction\<close>

definition has_duplicate :: "u8 list list \<Rightarrow> bool" where
  "has_duplicate ks = (let s = sort ks in list_ex (\<lambda>(a, b). a = b) (zip s (tl s)))"

definition make_buckets :: "(int \<times> u8 list) list \<Rightarrow> usize \<Rightarrow> usize list list" where
  "make_buckets keys m =
     fold (\<lambda>ki buckets. let b = hash_a (snd (keys ! ki)) mod m in buckets[b := buckets ! b @ [ki]])
       [0..<length keys] (replicate m [])"

definition bucket_order :: "usize list list \<Rightarrow> usize list" where
  "bucket_order buckets = sort_key (\<lambda>b. - int (length (buckets ! b))) [0..<length buckets]"

datatype trial_result =
    TrialBudget
  | TrialBad nat
  | TrialGood "usize list" nat

fun try_disp :: "(int \<times> u8 list) list \<Rightarrow> usize \<Rightarrow> usize option list \<Rightarrow> nat \<Rightarrow> usize list \<Rightarrow> usize list \<Rightarrow> nat \<Rightarrow> trial_result" where
  "try_disp keys np occupied d [] trial checks = TrialGood trial checks"
| "try_disp keys np occupied d (ki # bs) trial checks =
     (let checks = checks + 1 in
      if checks > MAX_SLOT_CHECKS then TrialBudget
      else let slot = (hash_b (snd (keys ! ki)) + d) mod np in
        if occupied ! slot \<noteq> None \<or> slot \<in> set trial then TrialBad checks
        else try_disp keys np occupied d bs (trial @ [slot]) checks)"

datatype place_result =
    PlaceBudget
  | PlaceFailed nat
  | Placed nat "usize list" nat

text \<open>The loop \<open>while d <= MAX_DISP\<close>; \<open>k\<close> is the number of displacements left.\<close>

fun place_bucket :: "(int \<times> u8 list) list \<Rightarrow> usize \<Rightarrow> usize option list \<Rightarrow> usize list \<Rightarrow> nat \<Rightarrow> nat \<Rightarrow> nat \<Rightarrow> place_result" where
  "place_bucket keys np occupied bucket d 0 checks = PlaceFailed checks"
| "place_bucket keys np occupied bucket d (Suc k) checks =
     (case try_disp keys np occupied d bucket [] checks of
        TrialBudget \<Rightarrow> PlaceBudget
      | TrialGood trial checks' \<Rightarrow> Placed d trial checks'
      | TrialBad checks' \<Rightarrow> place_bucket keys np occupied bucket (d + 1) k checks')"

datatype rung_result =
    RungBudget
  | RungFailed nat
  | RungOk "usize option list" "nat list"

definition claim :: "usize list \<Rightarrow> usize list \<Rightarrow> usize option list \<Rightarrow> usize option list" where
  "claim bucket trial occupied = fold (\<lambda>(slot, ki) occ. occ[slot := Some ki]) (zip trial bucket) occupied"

fun place_all :: "(int \<times> u8 list) list \<Rightarrow> usize \<Rightarrow> usize list list \<Rightarrow> usize list \<Rightarrow> usize option list \<Rightarrow> nat list \<Rightarrow> nat \<Rightarrow> rung_result" where
  "place_all keys np buckets [] occupied disp checks = RungOk occupied disp"
| "place_all keys np buckets (bi # order) occupied disp checks =
     (if buckets ! bi = [] then place_all keys np buckets order occupied (disp[bi := 0]) checks
      else case place_bucket keys np occupied (buckets ! bi) 0 (MAX_DISP + 1) checks of
        PlaceBudget \<Rightarrow> RungBudget
      | PlaceFailed checks' \<Rightarrow> RungFailed checks'
      | Placed d trial checks' \<Rightarrow>
          place_all keys np buckets order (claim (buckets ! bi) trial occupied) (disp[bi := d]) checks')"

definition materialise_slot :: "(int \<times> u8 list) list \<Rightarrow> usize \<times> usize option \<Rightarrow> phf_plan \<Rightarrow> phf_plan" where
  "materialise_slot keys e p =
     (case e of
        (_, None) \<Rightarrow> p
      | (slot, Some ki) \<Rightarrow>
          (case keys ! ki of (ord, k) \<Rightarrow>
            p\<lparr>pp_slot_ord := (pp_slot_ord p)[slot := ord],
              pp_slot_len := (pp_slot_len p)[slot := length k],
              pp_slot_off := (pp_slot_off p)[slot := length (pp_pool p)],
              pp_pool := pp_pool p @ k\<rparr>))"

definition materialise :: "(int \<times> u8 list) list \<Rightarrow> usize \<Rightarrow> usize \<Rightarrow> usize option list \<Rightarrow> nat list \<Rightarrow> phf_plan" where
  "materialise keys n np occupied disp =
     fold (materialise_slot keys) (enumerate 0 occupied)
       \<lparr>pp_n = n, pp_m = n, pp_np = np, pp_disp = disp,
        pp_slot_ord = replicate np ORD_EMPTY, pp_slot_len = replicate np 0, pp_slot_off = replicate np 0,
        pp_pool = []\<rparr>"

text \<open>The escalation ladder \<open>while np <= np_max\<close>; \<open>k\<close> is the number of rungs left.\<close>

fun ladder :: "(int \<times> u8 list) list \<Rightarrow> usize list list \<Rightarrow> usize list \<Rightarrow> usize \<Rightarrow> nat \<Rightarrow> nat \<Rightarrow> phf_outcome" where
  "ladder keys buckets order np 0 checks = Fallback"
| "ladder keys buckets order np (Suc k) checks =
     (case place_all keys np buckets order (replicate np None) (replicate (length buckets) 0) checks of
        RungBudget \<Rightarrow> Fallback
      | RungOk occupied disp \<Rightarrow> Built (materialise keys (length keys) np occupied disp)
      | RungFailed checks' \<Rightarrow> ladder keys buckets order (np + 1) k checks')"

definition build :: "(int \<times> u8 list) list \<Rightarrow> phf_outcome" where
  "build keys =
     (let n = length keys in
      if n = 0 \<or> n > MAX_KEYS then Fallback
      else if sum_list (map (\<lambda>(_, k). length k) keys) > MAX_TOTAL_BYTES then Fallback
      else if list_ex (\<lambda>(ord, k). length k > 255 \<or> ord < 0 \<or> ord \<ge> ORD_EMPTY) keys then Fallback
      else if has_duplicate (map snd keys) then Fallback
      else let buckets = make_buckets keys n; np_max = 4 * n + 8
        in ladder keys buckets (bucket_order buckets) n (np_max + 1 - n) 0)"

subsection \<open>The mixers stay in range\<close>

lemma mix_less: "mix key mult < MOD31"
proof -
  have "h < MOD31 \<Longrightarrow> fold (\<lambda>b h. (h * mult + unat b) mod MOD31) key h < MOD31" for h
    by (induction key arbitrary: h) (simp_all add: MOD31_def)
  then show ?thesis by (simp add: mix_def MOD31_def)
qed

lemma mix_step_no_overflow:
  assumes "mult \<le> MULT_B"
  shows "mix key mult * mult + unat (b :: u8) < 2 ^ 39"
proof -
  have "mix key mult * mult \<le> (MOD31 - 1) * MULT_B"
    using mix_less [of key mult] assms by (intro mult_le_mono) (auto simp: MOD31_def)
  moreover have "unat b < 256" using unsigned_less [of b] by simp
  ultimately show ?thesis by (simp add: MOD31_def MULT_B_def)
qed

subsection \<open>Buckets\<close>

definition bucket_of :: "(int \<times> u8 list) list \<Rightarrow> usize \<Rightarrow> usize \<Rightarrow> usize" where
  "bucket_of keys m ki = hash_a (snd (keys ! ki)) mod m"

definition slot_for :: "(int \<times> u8 list) list \<Rightarrow> usize \<Rightarrow> nat \<Rightarrow> usize \<Rightarrow> usize" where
  "slot_for keys np d ki = (hash_b (snd (keys ! ki)) + d) mod np"

lemma make_buckets_law:
  assumes "0 < m"
  shows "length (make_buckets keys m) = m"
    and "b < m \<Longrightarrow> make_buckets keys m ! b = filter (\<lambda>ki. bucket_of keys m ki = b) [0..<length keys]"
proof -
  let ?step = "\<lambda>ki buckets. let b = hash_a (snd (keys ! ki)) mod m in buckets[b := buckets ! b @ [ki]]"
  have "length (fold ?step [0..<j] (replicate m [])) = m \<and>
      (\<forall>b < m. fold ?step [0..<j] (replicate m []) ! b = filter (\<lambda>ki. bucket_of keys m ki = b) [0..<j])" for j
    by (induction j) (use assms in \<open>auto simp: Let_def nth_list_update bucket_of_def\<close>)
  then show "length (make_buckets keys m) = m"
    "b < m \<Longrightarrow> make_buckets keys m ! b = filter (\<lambda>ki. bucket_of keys m ki = b) [0..<length keys]"
    by (simp_all add: make_buckets_def)
qed

lemma bucket_order_set: "set (bucket_order buckets) = {..<length buckets}" "distinct (bucket_order buckets)"
  by (auto simp: bucket_order_def)

lemma try_disp_good:
  assumes "try_disp keys np occupied d bs trial c = TrialGood t c'" "distinct trial"
  shows "t = trial @ map (slot_for keys np d) bs \<and> distinct t \<and> (\<forall>ki \<in> set bs. occupied ! slot_for keys np d ki = None)"
  using assms
proof (induction bs arbitrary: trial c)
  case (Cons ki bs)
  let ?s = "slot_for keys np d ki"
  have "\<not> (occupied ! ?s \<noteq> None \<or> ?s \<in> set trial)"
    and rec: "try_disp keys np occupied d bs (trial @ [?s]) (c + 1) = TrialGood t c'"
    using Cons.prems(1) by (simp_all add: Let_def slot_for_def split: if_splits)
  moreover from this have "distinct (trial @ [?s])" using Cons.prems(2) by simp
  ultimately have ih: "t = (trial @ [?s]) @ map (slot_for keys np d) bs" "distinct t" "occupied ! ?s = None"
    "\<forall>ki \<in> set bs. occupied ! slot_for keys np d ki = None"
    using Cons.IH [OF rec] by blast+
  then show ?case by (intro conjI) (simp, assumption, simp)
qed simp

lemma place_bucket_placed:
  "place_bucket keys np occupied bucket d k c = Placed d' t c' \<Longrightarrow>
     t = map (slot_for keys np d') bucket \<and> distinct t \<and> (\<forall>ki \<in> set bucket. occupied ! slot_for keys np d' ki = None)"
proof (induction k arbitrary: d c)
  case (Suc k)
  then show ?case using try_disp_good [of keys np occupied d bucket "[]" c]
    by (auto split: trial_result.splits)
qed simp

lemma claim_law:
  assumes "distinct (map f bucket)" "\<forall>ki \<in> set bucket. f ki < length occ"
  shows "length (claim bucket (map f bucket) occ) = length occ"
    and "ki \<in> set bucket \<Longrightarrow> claim bucket (map f bucket) occ ! f ki = Some ki"
    and "s \<notin> f ` set bucket \<Longrightarrow> claim bucket (map f bucket) occ ! s = occ ! s"
proof -
  have "length (claim bucket (map f bucket) occ) = length occ \<and>
    (\<forall>ki \<in> set bucket. claim bucket (map f bucket) occ ! f ki = Some ki) \<and>
    (\<forall>s. s \<notin> f ` set bucket \<longrightarrow> claim bucket (map f bucket) occ ! s = occ ! s)"
    using assms
  proof (induction bucket arbitrary: occ)
    case (Cons k bucket)
    have c: "claim (k # bucket) (map f (k # bucket)) occ = claim bucket (map f bucket) (occ[f k := Some k])"
      by (simp add: claim_def)
    from Cons.IH [of "occ[f k := Some k]"] Cons.prems show ?case unfolding c
      by (auto simp: nth_list_update)
  qed (simp add: claim_def)
  then show "length (claim bucket (map f bucket) occ) = length occ"
    "ki \<in> set bucket \<Longrightarrow> claim bucket (map f bucket) occ ! f ki = Some ki"
    "s \<notin> f ` set bucket \<Longrightarrow> claim bucket (map f bucket) occ ! s = occ ! s" by blast+
qed

subsection \<open>The slot assignment\<close>

definition slots_ok :: "(int \<times> u8 list) list \<Rightarrow> usize \<Rightarrow> usize \<Rightarrow> usize set \<Rightarrow> usize option list \<Rightarrow> nat list \<Rightarrow> bool" where
  "slots_ok keys m np B occ disp \<longleftrightarrow>
     length occ = np \<and> length disp = m \<and>
     (\<forall>ki < length keys. bucket_of keys m ki \<in> B \<longrightarrow>
        occ ! slot_for keys np (disp ! bucket_of keys m ki) ki = Some ki) \<and>
     (\<forall>s < np. \<forall>ki. occ ! s = Some ki \<longrightarrow> ki < length keys)"

lemma slots_ok_step:
  assumes ok: "slots_ok keys m np B occ disp" and b: "bi < m" "bi \<notin> B" and np: "0 < np"
    and bucket: "bucket = filter (\<lambda>ki. bucket_of keys m ki = bi) [0..<length keys]"
    and t: "t = map (slot_for keys np d) bucket" "distinct t" "\<forall>ki \<in> set bucket. occ ! slot_for keys np d ki = None"
  shows "slots_ok keys m np (insert bi B) (claim bucket t occ) (disp[bi := d])"
proof -
  let ?f = "slot_for keys np d" and ?occ' = "claim bucket t occ"
  have len: "length occ = np" "length disp = m" using ok by (auto simp: slots_ok_def)
  have lt: "slot_for keys np e ki < np" for e ki using np by (simp add: slot_for_def)
  have d: "distinct (map ?f bucket)" "\<forall>ki \<in> set bucket. ?f ki < length occ" using t(1,2) lt len by auto
  note cl = claim_law [OF d, folded t(1)]
  have "?occ' ! slot_for keys np (disp[bi := d] ! bucket_of keys m ki) ki = Some ki"
    if ki: "ki < length keys" "bucket_of keys m ki \<in> insert bi B" for ki
  proof (cases "bucket_of keys m ki = bi")
    case True
    then have "ki \<in> set bucket" using ki(1) bucket by simp
    with True b(1) len cl(2) show ?thesis by simp
  next
    case False
    then have o: "occ ! slot_for keys np (disp ! bucket_of keys m ki) ki = Some ki"
      using ok ki by (auto simp: slots_ok_def)
    then have "slot_for keys np (disp ! bucket_of keys m ki) ki \<notin> ?f ` set bucket" using t(3) by fastforce
    with False o cl(3) show ?thesis by simp
  qed
  moreover have "ki < length keys" if "s < np" "?occ' ! s = Some ki" for s ki
  proof (cases "s \<in> ?f ` set bucket")
    case True
    then obtain kj where "kj \<in> set bucket" "s = ?f kj" by blast
    with cl(2) that(2) bucket show ?thesis by auto
  next
    case False
    with cl(3) that ok show ?thesis by (auto simp: slots_ok_def)
  qed
  ultimately show ?thesis using len cl(1) by (simp add: slots_ok_def)
qed

lemma place_all_ok:
  assumes "place_all keys np buckets order occ disp c = RungOk occ' disp'"
    and "slots_ok keys m np B occ disp" "0 < np" "0 < m" "distinct order" "set order \<subseteq> {..<m}" "B \<inter> set order = {}"
    and "buckets = make_buckets keys m"
  shows "slots_ok keys m np (B \<union> set order) occ' disp'"
  using assms
proof (induction order arbitrary: occ disp c B)
  case (Cons bi order)
  have b: "bi < m" "bi \<notin> B" using Cons.prems by auto
  have bk: "buckets ! bi = filter (\<lambda>ki. bucket_of keys m ki = bi) [0..<length keys]"
    using make_buckets_law(2) [OF Cons.prems(4) b(1)] Cons.prems(8) by simp
  obtain d t c' where step: "place_all keys np buckets order (claim (buckets ! bi) t occ) (disp[bi := d]) c' = RungOk occ' disp'"
    "t = map (slot_for keys np d) (buckets ! bi)" "distinct t" "\<forall>ki \<in> set (buckets ! bi). occ ! slot_for keys np d ki = None"
  proof (cases "buckets ! bi = []")
    case True
    with Cons.prems(1) that [of "[]" 0 c] show ?thesis by (simp add: claim_def)
  next
    case False
    with Cons.prems(1) that place_bucket_placed [of keys np occ "buckets ! bi" 0 "MAX_DISP + 1" c] show ?thesis
      by (auto split: place_result.splits)
  qed
  from Cons.IH [OF step(1) slots_ok_step [OF Cons.prems(2) b Cons.prems(3) bk step(2-4)]] Cons.prems
  show ?case by auto
qed simp

subsection \<open>The tables hold the assignment\<close>

definition slot_entry_ok :: "(int \<times> u8 list) list \<Rightarrow> phf_plan \<Rightarrow> usize \<Rightarrow> usize option \<Rightarrow> bool" where
  "slot_entry_ok keys p s e =
     (case e of
        None \<Rightarrow> pp_slot_ord p ! s = ORD_EMPTY
      | Some ki \<Rightarrow>
          pp_slot_ord p ! s = fst (keys ! ki) \<and> pp_slot_len p ! s = length (snd (keys ! ki)) \<and>
          (\<exists>pre post. pp_pool p = pre @ snd (keys ! ki) @ post \<and> length pre = pp_slot_off p ! s))"

definition tables_ok :: "(int \<times> u8 list) list \<Rightarrow> usize \<Rightarrow> usize option list \<Rightarrow> phf_plan \<Rightarrow> bool" where
  "tables_ok keys np occ p \<longleftrightarrow>
     length (pp_slot_ord p) = np \<and> length (pp_slot_len p) = np \<and> length (pp_slot_off p) = np \<and>
     (\<forall>s < np. slot_entry_ok keys p s (if s < length occ then occ ! s else None))"

lemma materialise_slot_ok:
  assumes "tables_ok keys np occ p" "length occ < np"
  shows "tables_ok keys np (occ @ [e]) (materialise_slot keys (length occ, e) p)"
proof (cases e)
  case None
  have "slot_entry_ok keys p s (if s < length (occ @ [None]) then (occ @ [None]) ! s else None) \<longleftrightarrow>
      slot_entry_ok keys p s (if s < length occ then occ ! s else None)" for s
    by (simp add: nth_append)
  with assms show ?thesis by (simp add: None materialise_slot_def tables_ok_def del: nth_append)
next
  case (Some ki)
  obtain ord k where k: "keys ! ki = (ord, k)" by fastforce
  let ?p = "materialise_slot keys (length occ, Some ki) p"
  have p: "?p = p\<lparr>pp_slot_ord := (pp_slot_ord p)[length occ := ord], pp_slot_len := (pp_slot_len p)[length occ := length k],
      pp_slot_off := (pp_slot_off p)[length occ := length (pp_pool p)], pp_pool := pp_pool p @ k\<rparr>"
    by (simp add: materialise_slot_def Some k)
  have "slot_entry_ok keys ?p s (if s < length (occ @ [Some ki]) then (occ @ [Some ki]) ! s else None)"
    if s: "s < np" for s
  proof (cases "s = length occ")
    case True
    have "\<exists>pre post. pp_pool p @ k = pre @ k @ post \<and> length pre = length (pp_pool p)" by (metis append_Nil2)
    with True assms show ?thesis by (simp add: p k slot_entry_ok_def tables_ok_def)
  next
    case False
    have old: "slot_entry_ok keys p s (if s < length occ then occ ! s else None)"
      using assms(1) s by (simp add: tables_ok_def)
    have "slot_entry_ok keys ?p s x" if "slot_entry_ok keys p s x" for x
      using that False by (force simp: p slot_entry_ok_def split: option.splits)
    with old False show ?thesis by (auto simp: nth_append less_Suc_eq)
  qed
  with assms show ?thesis unfolding Some by (simp add: tables_ok_def p)
qed

lemma materialise_fixed:
  "pp_m (materialise keys n np occ disp) = n" "pp_np (materialise keys n np occ disp) = np"
  "pp_disp (materialise keys n np occ disp) = disp"
proof -
  have "pp_m (fold (materialise_slot keys) es p) = pp_m p \<and> pp_np (fold (materialise_slot keys) es p) = pp_np p \<and>
      pp_disp (fold (materialise_slot keys) es p) = pp_disp p" for es p
    by (induction es arbitrary: p) (auto simp: materialise_slot_def split: prod.splits option.splits)
  then show "pp_m (materialise keys n np occ disp) = n" "pp_np (materialise keys n np occ disp) = np"
    "pp_disp (materialise keys n np occ disp) = disp" by (simp_all add: materialise_def)
qed

lemma materialise_ok:
  assumes "length occ = np"
  shows "tables_ok keys np occ (materialise keys n np occ disp)"
proof -
  let ?p0 = "\<lparr>pp_n = n, pp_m = n, pp_np = np, pp_disp = disp, pp_slot_ord = replicate np ORD_EMPTY,
    pp_slot_len = replicate np 0, pp_slot_off = replicate np 0, pp_pool = []\<rparr>"
  have "length xs \<le> np \<Longrightarrow> tables_ok keys np xs (fold (materialise_slot keys) (enumerate 0 xs) ?p0)" for xs
  proof (induction xs rule: rev_induct)
    case Nil
    then show ?case by (simp add: tables_ok_def slot_entry_ok_def)
  next
    case (snoc x xs)
    then show ?case using materialise_slot_ok [of keys np xs _ x] by (simp add: enumerate_append_eq)
  qed
  with assms show ?thesis by (simp add: materialise_def)
qed

subsection \<open>The plan is a perfect hash\<close>

lemma lookup_law:
  assumes s: "slots_ok keys n np {..<n} occ disp" and n: "0 < n" "n = length keys" and np: "0 < np"
    and ords: "\<forall>(ord, k) \<in> set keys. ord \<noteq> ORD_EMPTY"
  shows "\<forall>(ord, k) \<in> set keys. lookup (materialise keys n np occ disp) k = Some ord"
    and "key \<notin> snd ` set keys \<Longrightarrow> lookup (materialise keys n np occ disp) key = Some (-1)"
proof -
  let ?p = "materialise keys n np occ disp"
  have t: "tables_ok keys np occ ?p" using s by (intro materialise_ok) (simp add: slots_ok_def)
  have len: "length occ = np" "length disp = n" using s by (auto simp: slots_ok_def)
  have look: "lookup ?p key = (let slot = (hash_b key + disp ! (hash_a key mod n)) mod np in
      case occ ! slot of None \<Rightarrow> Some (-1)
      | Some ki \<Rightarrow> if snd (keys ! ki) = key then Some (fst (keys ! ki)) else Some (-1))" for key
  proof -
    define slot where "slot = (hash_b key + disp ! (hash_a key mod n)) mod np"
    have sl: "slot < np" using np by (simp add: slot_def)
    then have e: "slot_entry_ok keys ?p slot (occ ! slot)" using t len by (simp add: tables_ok_def)
    have tl: "length (pp_slot_ord ?p) = np" "length (pp_slot_len ?p) = np" "length (pp_slot_off ?p) = np"
      using t by (simp_all add: tables_ok_def)
    have bd: "\<not> n \<le> hash_a key mod n" using n(1) by (simp add: not_le)
    show ?thesis
    proof (cases "occ ! slot")
      case None
      with e sl tl bd n(1) np len show ?thesis
        by (simp add: lookup_def materialise_fixed Let_def slot_def [symmetric] slot_entry_ok_def)
    next
      case (Some ki)
      then have "ki < length keys" using s sl by (simp add: slots_ok_def)
      then have "fst (keys ! ki) \<noteq> ORD_EMPTY" using ords nth_mem [of ki keys] by (cases "keys ! ki") auto
      obtain pre post where "pp_pool ?p = pre @ snd (keys ! ki) @ post" "length pre = pp_slot_off ?p ! slot"
        using e Some by (auto simp: slot_entry_ok_def)
      note pool = this
      have ol: "pp_slot_ord ?p ! slot = fst (keys ! ki)" "pp_slot_len ?p ! slot = length (snd (keys ! ki))"
        using e Some by (simp_all add: slot_entry_ok_def)
      let ?k = "snd (keys ! ki)"
      have "lookup ?p key = (if length ?k \<noteq> length key then Some (-1)
          else if length (pp_pool ?p) < length pre + length key then None
          else if take (length key) (drop (length pre) (pp_pool ?p)) \<noteq> key then Some (-1) else Some (fst (keys ! ki)))"
        using ol sl tl bd n(1) np len(2) \<open>fst (keys ! ki) \<noteq> ORD_EMPTY\<close>
        by (simp add: lookup_def materialise_fixed Let_def slot_def [symmetric] pool(2))
      also have "\<dots> = (if ?k = key then Some (fst (keys ! ki)) else Some (-1))"
        unfolding pool(1) by (cases "length ?k = length key") auto
      finally show ?thesis by (simp add: Let_def slot_def [symmetric] Some)
    qed
  qed
  show "\<forall>(ord, k) \<in> set keys. lookup ?p k = Some ord"
  proof clarify
    fix ord k assume "(ord, k) \<in> set keys"
    then obtain ki where ki: "ki < length keys" "keys ! ki = (ord, k)" by (metis in_set_conv_nth)
    have "bucket_of keys n ki < n" using n(1) by (simp add: bucket_of_def)
    then have "occ ! slot_for keys np (disp ! bucket_of keys n ki) ki = Some ki"
      using s ki(1) by (simp add: slots_ok_def)
    with ki show "lookup ?p k = Some ord" by (simp add: look Let_def slot_for_def bucket_of_def)
  qed
  assume key: "key \<notin> snd ` set keys"
  have other: "snd (keys ! ki) \<noteq> key" if "slot < np" "occ ! slot = Some ki" for slot ki
    using that s key by (auto simp: slots_ok_def)
  have "snd (keys ! ki) \<noteq> key" if "occ ! ((hash_b key + disp ! (hash_a key mod n)) mod np) = Some ki" for ki
    using other [OF mod_less_divisor that] np by simp
  then show "lookup ?p key = Some (-1)" by (simp add: look Let_def split: option.split)
qed

lemma ladder_built:
  assumes "ladder keys buckets order np k c = Built p" "buckets = make_buckets keys n" "n = length keys" "0 < n" "0 < np"
    and "order = bucket_order buckets"
  obtains np' occ disp where "p = materialise keys n np' occ disp" "slots_ok keys n np' {..<n} occ disp" "0 < np'"
proof -
  have "\<exists>np' occ disp. p = materialise keys n np' occ disp \<and> slots_ok keys n np' {..<n} occ disp \<and> 0 < np'"
    using assms
  proof (induction k arbitrary: np c)
    case (Suc k)
    have lb: "length buckets = n" using make_buckets_law(1) Suc.prems(2,4) by simp
    show ?case
    proof (cases "place_all keys np buckets order (replicate np None) (replicate (length buckets) 0) c")
      case (RungOk occ disp)
      have "slots_ok keys n np {} (replicate np None) (replicate (length buckets) 0)" by (simp add: slots_ok_def lb)
      from place_all_ok [OF RungOk this] Suc.prems bucket_order_set [of buckets] lb
      have "slots_ok keys n np {..<n} occ disp" by simp
      with RungOk Suc.prems show ?thesis by auto
    next
      case (RungFailed c')
      with Suc.prems Suc.IH [of "np + 1" c'] show ?thesis by simp
    qed (use Suc.prems in simp)
  qed simp
  with that show thesis by blast
qed

lemma build_correct:
  assumes "build keys = Built p"
  shows "(\<forall>(ord, k) \<in> set keys. lookup p k = Some ord) \<and> (\<forall>key. key \<notin> snd ` set keys \<longrightarrow> lookup p key = Some (-1))"
proof -
  let ?n = "length keys"
  have n: "0 < ?n" and ords: "\<forall>(ord, k) \<in> set keys. ord \<noteq> ORD_EMPTY"
    and l: "ladder keys (make_buckets keys ?n) (bucket_order (make_buckets keys ?n)) ?n (4 * ?n + 8 + 1 - ?n) 0 = Built p"
    using assms by (auto simp: build_def Let_def list_ex_iff split: if_splits)
  obtain np occ disp where "p = materialise keys ?n np occ disp" "slots_ok keys ?n np {..<?n} occ disp" "0 < np"
    using ladder_built [OF l refl refl n n refl] .
  with lookup_law [of keys ?n np occ disp] n ords show ?thesis by blast
qed

end
