(* ===== verification/Regalloc.thy ===== *)
theory Regalloc
  imports Ir "HOL-Library.Product_Lexorder"
begin

text \<open>
  \<^verbatim>\<open>src/opt/regalloc_dtk.rs\<close>: the deterministic top-\<open>K\<close> register planner.  It counts the uses of
  every value of a module, ranks the defined values by (use count descending, id ascending), and
  gives the first \<open>K\<close> a callee-saved register.  The use counters are the source's \<open>u64\<close> entries of a
  \<open>BTreeMap\<close>, here a map to \<^typ>\<open>nat\<close> (a counter is bounded by the number of operands in memory).
\<close>

definition CALLEE_SAVED :: "string list" where
  "CALLEE_SAVED = [''rbx'', ''r12'', ''r13'', ''r14'', ''r15'']"

datatype slot = Reg string | Spill

record dtk_plan =
  assignment :: "value_id \<rightharpoonup> slot"
  ranked :: "value_id list"

definition slot_of :: "dtk_plan \<Rightarrow> value_id \<Rightarrow> slot" where
  "slot_of p v = (case assignment p v of Some s \<Rightarrow> s | None \<Rightarrow> Spill)"

subsection \<open>Definitions and uses\<close>

fun record_def :: "instr \<Rightarrow> value_id set \<Rightarrow> value_id set" where
  "record_def (ConstI64 dst _) defs = insert dst defs"
| "record_def (ConstF64 dst _) defs = insert dst defs"
| "record_def (ConstTensor dst _ _ _) defs = insert dst defs"
| "record_def (ConstDenseTensor dst _ _ _) defs = insert dst defs"
| "record_def (BinOp dst _ _ _) defs = insert dst defs"
| "record_def (SumOp dst _ _ _) defs = insert dst defs"
| "record_def (MeanOp dst _ _ _) defs = insert dst defs"
| "record_def (Relu dst _) defs = insert dst defs"
| "record_def (ReluGrad dst _ _) defs = insert dst defs"
| "record_def (Reshape dst _ _) defs = insert dst defs"
| "record_def (ExpandDims dst _ _) defs = insert dst defs"
| "record_def (Squeeze dst _ _) defs = insert dst defs"
| "record_def (Transpose dst _ _) defs = insert dst defs"
| "record_def (Dot dst _ _) defs = insert dst defs"
| "record_def (MatMul dst _ _) defs = insert dst defs"
| "record_def (Index dst _ _) defs = insert dst defs"
| "record_def (Slice dst _ _) defs = insert dst defs"
| "record_def (Gather dst _ _ _) defs = insert dst defs"
| "record_def (Call dst _ _ _) defs = insert dst defs"
| "record_def (IfInstr _ _ _ _ _ _ dst _ _) defs = insert dst defs"
| "record_def (Param _ _ _) defs = defs"
| "record_def _ defs = defs"

type_synonym use_counts = "value_id \<rightharpoonup> nat"

definition bump :: "value_id \<Rightarrow> use_counts \<Rightarrow> use_counts" where
  "bump v uses = uses(v \<mapsto> (case uses v of Some n \<Rightarrow> n | None \<Rightarrow> 0) + 1)"

fun record_uses :: "instr \<Rightarrow> use_counts \<Rightarrow> use_counts" where
  "record_uses (BinOp _ _ lhs rhs) uses = bump rhs (bump lhs uses)"
| "record_uses (SumOp _ src _ _) uses = bump src uses"
| "record_uses (MeanOp _ src _ _) uses = bump src uses"
| "record_uses (Relu _ src) uses = bump src uses"
| "record_uses (Reshape _ src _) uses = bump src uses"
| "record_uses (ExpandDims _ src _) uses = bump src uses"
| "record_uses (Squeeze _ src _) uses = bump src uses"
| "record_uses (Transpose _ src _) uses = bump src uses"
| "record_uses (Index _ src _) uses = bump src uses"
| "record_uses (Slice _ src _) uses = bump src uses"
| "record_uses (Output src) uses = bump src uses"
| "record_uses (ReluGrad _ grad src) uses = bump src (bump grad uses)"
| "record_uses (Dot _ a b) uses = bump b (bump a uses)"
| "record_uses (MatMul _ a b) uses = bump b (bump a uses)"
| "record_uses (Gather _ src indices _) uses = bump indices (bump src uses)"
| "record_uses (Call _ _ args _) uses = fold bump args uses"
| "record_uses (Return (Some v)) uses = bump v uses"
| "record_uses (IfInstr cond_id _ _ then_result _ else_result _ _ _) uses =
     bump else_result (bump then_result (bump cond_id uses))"
| "record_uses (While cond_id _ _ _ init_ids _) uses = fold bump init_ids (bump cond_id uses)"
| "record_uses _ uses = uses"

subsection \<open>The walk and the plan\<close>

fun accumulate_instr :: "instr \<Rightarrow> use_counts \<times> value_id set \<Rightarrow> use_counts \<times> value_id set"
  and accumulate :: "instr list \<Rightarrow> use_counts \<times> value_id set \<Rightarrow> use_counts \<times> value_id set" where
  "accumulate_instr i (uses, defs) =
     (let st = (record_uses i uses, record_def i defs) in
      case i of
        FnDef _ _ _ body _ _ _ \<Rightarrow> accumulate body st
      | While _ cond_instrs body _ _ _ \<Rightarrow> accumulate body (accumulate cond_instrs st)
      | IfInstr _ cond_instrs then_instrs _ else_instrs _ _ _ _ \<Rightarrow>
          accumulate else_instrs (accumulate then_instrs (accumulate cond_instrs st))
      | Region body _ _ _ _ \<Rightarrow> accumulate body st
      | _ \<Rightarrow> st)"
| "accumulate [] st = st"
| "accumulate (i # is) st = accumulate is (accumulate_instr i st)"

definition use_count :: "use_counts \<Rightarrow> value_id \<Rightarrow> nat" where
  "use_count uses v = (case uses v of Some n \<Rightarrow> n | None \<Rightarrow> 0)"

text \<open>The comparator \<open>ub.cmp(&ua).then_with(|| a.cmp(b))\<close>, as the key of a stable sort.\<close>

definition rank_key :: "use_counts \<Rightarrow> value_id \<Rightarrow> int \<times> value_id" where
  "rank_key uses v = (- int (use_count uses v), v)"

definition plan_module_k :: "'x ir_module_scheme \<Rightarrow> usize \<Rightarrow> dtk_plan" where
  "plan_module_k m k =
     (case accumulate (instrs m) (Map.empty, {}) of (uses, defs) \<Rightarrow>
        let ranked = sort_key (rank_key uses) (sorted_list_of_set defs);
            cap = min k (length CALLEE_SAVED)
        in \<lparr>assignment = fold (\<lambda>(i, v) a. a(v \<mapsto> (if i < cap then Reg (CALLEE_SAVED ! i) else Spill)))
              (enumerate 0 ranked) Map.empty,
            ranked = ranked\<rparr>)"

definition plan_module :: "'x ir_module_scheme \<Rightarrow> dtk_plan" where
  "plan_module m = plan_module_k m (length CALLEE_SAVED)"

subsection \<open>The walk is a flat count\<close>

text \<open>The instructions the walk visits, in its order.\<close>

fun visited_instr :: "instr \<Rightarrow> instr list" and visited :: "instr list \<Rightarrow> instr list" where
  "visited_instr i =
     i # (let other = [] in case i of
        FnDef _ _ _ body _ _ _ \<Rightarrow> visited body
      | While _ cond_instrs body _ _ _ \<Rightarrow> visited cond_instrs @ visited body
      | IfInstr _ cond_instrs then_instrs _ else_instrs _ _ _ _ \<Rightarrow>
          visited cond_instrs @ visited then_instrs @ visited else_instrs
      | Region body _ _ _ _ \<Rightarrow> visited body
      | _ \<Rightarrow> other)"
| "visited [] = []"
| "visited (i # is) = visited_instr i @ visited is"

text \<open>The values an instruction defines and the operands it counts.\<close>

definition counted_def :: "instr \<Rightarrow> value_id list" where
  "counted_def i = (if record_def i {} = {} then [] else case instruction_dst i of Some d \<Rightarrow> [d] | None \<Rightarrow> [])"

definition counted_uses :: "instr \<Rightarrow> value_id list" where
  "counted_uses i = (let other = [] in case i of
      IfInstr c _ _ t _ e _ _ _ \<Rightarrow> [c, t, e]
    | While c _ _ _ init_ids _ \<Rightarrow> c # init_ids
    | BinOp _ _ _ _ \<Rightarrow> instruction_operands i
    | SumOp _ _ _ _ \<Rightarrow> instruction_operands i
    | MeanOp _ _ _ _ \<Rightarrow> instruction_operands i
    | Relu _ _ \<Rightarrow> instruction_operands i
    | Reshape _ _ _ \<Rightarrow> instruction_operands i
    | ExpandDims _ _ _ \<Rightarrow> instruction_operands i
    | Squeeze _ _ _ \<Rightarrow> instruction_operands i
    | Transpose _ _ _ \<Rightarrow> instruction_operands i
    | Index _ _ _ \<Rightarrow> instruction_operands i
    | Slice _ _ _ \<Rightarrow> instruction_operands i
    | Output _ \<Rightarrow> instruction_operands i
    | ReluGrad _ _ _ \<Rightarrow> instruction_operands i
    | Dot _ _ _ \<Rightarrow> instruction_operands i
    | MatMul _ _ _ \<Rightarrow> instruction_operands i
    | Gather _ _ _ _ \<Rightarrow> instruction_operands i
    | Call _ _ _ _ \<Rightarrow> instruction_operands i
    | Return _ \<Rightarrow> instruction_operands i
    | _ \<Rightarrow> other)"

lemma record_def_counted: "record_def i defs = defs \<union> set (counted_def i)"
  by (cases i) (simp_all add: counted_def_def)

lemma record_uses_counted: "record_uses i uses = fold bump (counted_uses i) uses"
  by (cases i) (simp_all add: counted_uses_def split: option.splits)

lemma accumulate_flat:
  "accumulate_instr i (uses, defs) = (fold bump (concat (map counted_uses (visited_instr i))) uses,
     defs \<union> set (concat (map counted_def (visited_instr i))))"
  "accumulate is (uses, defs) = (fold bump (concat (map counted_uses (visited is))) uses,
     defs \<union> set (concat (map counted_def (visited is))))"
proof (induction i and "is" arbitrary: uses defs and uses defs rule: visited_instr_visited.induct)
  case (1 i)
  then show ?case
    by (cases i) (simp_all add: record_def_counted record_uses_counted Un_assoc)
next
  case (3 i "is")
  then show ?case by (simp add: Un_assoc)
qed simp

lemma use_count_fold: "use_count (fold bump vs uses) v = use_count uses v + count_list vs v"
  by (induction vs arbitrary: uses) (auto simp: bump_def use_count_def split: option.splits)

definition module_defs :: "'x ir_module_scheme \<Rightarrow> value_id set" where
  "module_defs m = set (concat (map counted_def (visited (instrs m))))"

definition module_uses :: "'x ir_module_scheme \<Rightarrow> value_id \<Rightarrow> nat" where
  "module_uses m v = count_list (concat (map counted_uses (visited (instrs m)))) v"

definition assign :: "(usize \<Rightarrow> slot) \<Rightarrow> value_id list \<Rightarrow> value_id \<rightharpoonup> slot" where
  "assign f vs = fold (\<lambda>(i, v) a. a(v \<mapsto> f i)) (enumerate 0 vs) Map.empty"

lemma assign_snoc: "assign f (vs @ [v]) = (assign f vs)(v \<mapsto> f (length vs))"
  by (simp add: assign_def enumerate_append_eq)

lemma dom_assign: "dom (assign f vs) = set vs"
proof (induction vs rule: rev_induct)
  case Nil
  then show ?case by (simp add: assign_def)
next
  case (snoc v vs)
  then show ?case by (simp add: assign_snoc dom_fun_upd del: fun_upd_apply)
qed

lemma assign_nth: "distinct vs \<Longrightarrow> j < length vs \<Longrightarrow> assign f vs (vs ! j) = Some (f j)"
  by (induction vs rule: rev_induct) (auto simp: assign_snoc nth_append less_Suc_eq)

lemma plan_ranked:
  "ranked (plan_module_k m k) = sort_key (\<lambda>v. (- int (module_uses m v), v)) (sorted_list_of_set (module_defs m))"
  "assignment (plan_module_k m k) =
     assign (\<lambda>i. if i < min k (length CALLEE_SAVED) then Reg (CALLEE_SAVED ! i) else Spill) (ranked (plan_module_k m k))"
proof -
  have "rank_key (fold bump vs Map.empty) = (\<lambda>v. (- int (count_list vs v), v))" for vs
    by (rule ext) (simp add: rank_key_def use_count_fold, simp add: use_count_def)
  then show "ranked (plan_module_k m k) = sort_key (\<lambda>v. (- int (module_uses m v), v)) (sorted_list_of_set (module_defs m))"
    by (simp add: plan_module_k_def accumulate_flat module_uses_def module_defs_def Let_def)
  show "assignment (plan_module_k m k) =
     assign (\<lambda>i. if i < min k (length CALLEE_SAVED) then Reg (CALLEE_SAVED ! i) else Spill) (ranked (plan_module_k m k))"
    by (simp add: plan_module_k_def accumulate_flat Let_def assign_def)
qed

lemma ranked_law:
  "set (ranked (plan_module_k m k)) = module_defs m" "distinct (ranked (plan_module_k m k))"
  "sorted (map (\<lambda>v. (- int (module_uses m v), v)) (ranked (plan_module_k m k)))"
proof -
  have "finite (module_defs m)" by (simp add: module_defs_def)
  then show "set (ranked (plan_module_k m k)) = module_defs m" "distinct (ranked (plan_module_k m k))"
    by (simp_all add: plan_ranked(1))
  show "sorted (map (\<lambda>v. (- int (module_uses m v), v)) (ranked (plan_module_k m k)))"
    by (simp add: plan_ranked(1))
qed

text \<open>The home of a value is decided by its rank, and every register belongs to one rank.\<close>

lemma slot_of_rank:
  assumes "j < length (ranked (plan_module_k m k))"
  shows "slot_of (plan_module_k m k) (ranked (plan_module_k m k) ! j) =
    (if j < min k (length CALLEE_SAVED) then Reg (CALLEE_SAVED ! j) else Spill)"
  using assms by (simp add: slot_of_def plan_ranked(2) assign_nth ranked_law(2))

lemma slot_of_undefined: "v \<notin> module_defs m \<Longrightarrow> slot_of (plan_module_k m k) v = Spill"
proof -
  assume "v \<notin> module_defs m"
  then have "v \<notin> dom (assignment (plan_module_k m k))" by (simp add: plan_ranked(2) dom_assign ranked_law(1))
  then show ?thesis by (simp add: slot_of_def domIff)
qed

lemma slot_of_reg:
  "slot_of (plan_module_k m k) v = Reg r \<longleftrightarrow>
    (\<exists>j < min k (length CALLEE_SAVED). j < length (ranked (plan_module_k m k)) \<and>
       v = ranked (plan_module_k m k) ! j \<and> r = CALLEE_SAVED ! j)" (is "?L \<longleftrightarrow> ?R")
proof
  assume L: ?L
  then have "v \<in> set (ranked (plan_module_k m k))" using slot_of_undefined ranked_law(1) by fastforce
  then obtain j where "j < length (ranked (plan_module_k m k))" "v = ranked (plan_module_k m k) ! j"
    by (metis in_set_conv_nth)
  with L slot_of_rank [of j m k] show ?R by (auto split: if_splits)
qed (auto simp: slot_of_rank)

lemma callee_saved_distinct: "distinct CALLEE_SAVED" by (simp add: CALLEE_SAVED_def)

lemma register_injective:
  assumes "slot_of (plan_module_k m k) v = Reg r" "slot_of (plan_module_k m k) w = Reg r"
  shows "v = w"
  using assms callee_saved_distinct by (auto simp: slot_of_reg nth_eq_iff_index_eq)

lemma sorted_nth_key: "sorted (map f xs) \<Longrightarrow> i \<le> j \<Longrightarrow> j < length xs \<Longrightarrow> f (xs ! i) \<le> f (xs ! j)"
  using sorted_nth_mono [of "map f xs" i j] by simp

text \<open>A value in a register is at least as hot as every defined value left on the stack; among
  equally hot ones it has the smaller id.\<close>

lemma register_hottest:
  assumes "slot_of (plan_module_k m k) v = Reg r" "w \<in> module_defs m" "slot_of (plan_module_k m k) w = Spill"
  shows "module_uses m w < module_uses m v \<or> module_uses m w = module_uses m v \<and> v < w"
proof -
  let ?p = "plan_module_k m k" and ?c = "min k (length CALLEE_SAVED)"
  obtain i where i: "i < ?c" "i < length (ranked ?p)" "v = ranked ?p ! i" using assms(1) slot_of_reg by blast
  obtain j where j: "j < length (ranked ?p)" "w = ranked ?p ! j"
    using assms(2) ranked_law(1) by (metis in_set_conv_nth)
  have "\<not> j < ?c" using assms(3) j slot_of_rank [of j m k] by (auto split: if_splits)
  with i(1) have "i < j" by linarith
  with i j ranked_law(2) [of m k] have "v \<noteq> w" by (simp add: nth_eq_iff_index_eq)
  moreover have "(- int (module_uses m v), v) \<le> (- int (module_uses m w), w)"
    unfolding i(3) j(2) using \<open>i < j\<close> j(1) ranked_law(3) [of m k]
    by (intro sorted_nth_key [where f = "\<lambda>v. (- int (module_uses m v), v)"]) auto
  ultimately show ?thesis by (auto simp: less_eq_prod_def)
qed

text \<open>The registers handed out are a prefix of the table, as long as the values last.\<close>

lemma registers_used:
  "{r. \<exists>v. slot_of (plan_module_k m k) v = Reg r} = set (take (min k (card (module_defs m))) CALLEE_SAVED)"
proof -
  have "length (ranked (plan_module_k m k)) = card (module_defs m)"
    using ranked_law(1,2) distinct_card by metis
  then show ?thesis by (fastforce simp: slot_of_reg in_set_conv_nth)
qed

end
