(* ===== verification/Broadcast.thy ===== *)
theory Broadcast
  imports Prelude
begin

text \<open>
  Right-aligned broadcasting, the rule every tensor component of the compiler implements on its
  own (\<^verbatim>\<open>src/shapes/engine.rs\<close>, \<^verbatim>\<open>src/shapes/mod.rs\<close>, \<^verbatim>\<open>src/linalg.rs\<close>,
  \<^verbatim>\<open>src/eval/mod.rs\<close>, \<^verbatim>\<open>src/type_checker/mod.rs\<close>).  The locale states what combining two
  extents must satisfy, its lemmas are the algebra of whole shapes, and each implementation is an
  interpretation.  \<open>broadcast_loop\<close> is the two-index loop four of the five share.
\<close>

definition ok :: "'e + 'a \<Rightarrow> 'a option" where
  "ok r = (case r of Inl _ \<Rightarrow> None | Inr x \<Rightarrow> Some x)"

lemma ok_simps [simp]: "ok (Inl e) = None" "ok (Inr x) = Some x"
  by (simp_all add: ok_def)

lemma ok_eq_Some [simp]: "ok r = Some x \<longleftrightarrow> r = Inr x"
  by (cases r) simp_all

lemma ok_eq_None: "ok r = None \<longleftrightarrow> (\<exists>e. r = Inl e)"
  by (cases r) simp_all

function broadcast_loop ::
  "('d \<Rightarrow> 'd \<Rightarrow> 'e + 'd) \<Rightarrow> 'd \<Rightarrow> 'd list \<Rightarrow> 'd list \<Rightarrow> int \<Rightarrow> int \<Rightarrow> 'd list \<Rightarrow> 'e + 'd list" where
  "broadcast_loop merge one lhs rhs i j out =
     (if i \<ge> 0 \<or> j \<ge> 0
      then let da = (if i \<ge> 0 then lhs ! nat i else one);
               db = (if j \<ge> 0 then rhs ! nat j else one)
           in case merge da db of
                Inl e \<Rightarrow> Inl e
              | Inr dim \<Rightarrow> broadcast_loop merge one lhs rhs (i - 1) (j - 1) (out @ [dim])
      else Inr (rev out))"
  by pat_completeness auto
termination
  by (relation "measure (\<lambda>(_, _, _, _, i, j, _). nat (max (i + 1) (j + 1)))") auto

declare broadcast_loop.simps [simp del]

text \<open>The reference: extents paired from the right, a missing extent counting as \<open>one\<close>.\<close>

fun align :: "('d \<Rightarrow> 'd \<Rightarrow> 'd option) \<Rightarrow> 'd \<Rightarrow> 'd list \<Rightarrow> 'd list \<Rightarrow> 'd list option" where
  "align join one [] [] = Some []"
| "align join one (x # xs) [] = do { d \<leftarrow> join x one; ds \<leftarrow> align join one xs []; Some (d # ds) }"
| "align join one [] (y # ys) = do { d \<leftarrow> join one y; ds \<leftarrow> align join one [] ys; Some (d # ds) }"
| "align join one (x # xs) (y # ys) = do { d \<leftarrow> join x y; ds \<leftarrow> align join one xs ys; Some (d # ds) }"

definition broadcast :: "('d \<Rightarrow> 'd \<Rightarrow> 'd option) \<Rightarrow> 'd \<Rightarrow> 'd list \<Rightarrow> 'd list \<Rightarrow> 'd list option" where
  "broadcast join one xs ys = map_option rev (align join one (rev xs) (rev ys))"

lemma rev_take_step: "0 \<le> i \<Longrightarrow> i < int (length xs) \<Longrightarrow> rev (take (nat (i + 1)) xs) = xs ! nat i # rev (take (nat i) xs)"
  by (simp add: nat_add_distrib take_Suc_conv_app_nth)

lemma broadcast_loop_align:
  assumes "i < int (length lhs)" "j < int (length rhs)"
  shows "ok (broadcast_loop merge one lhs rhs i j out) =
    map_option (\<lambda>ds. rev (out @ ds))
      (align (\<lambda>a b. ok (merge a b)) one (rev (take (nat (i + 1)) lhs)) (rev (take (nat (j + 1)) rhs)))"
  using assms
proof (induction merge one lhs rhs i j out rule: broadcast_loop.induct)
  case (1 merge one lhs rhs i j out)
  let ?a = "if i \<ge> 0 then lhs ! nat i else one" and ?b = "if j \<ge> 0 then rhs ! nat j else one"
  show ?case
  proof (cases "i \<ge> 0 \<or> j \<ge> 0")
    case True
    have split: "align f one (rev (take (nat (i + 1)) lhs)) (rev (take (nat (j + 1)) rhs)) =
        do { d \<leftarrow> f ?a ?b; ds \<leftarrow> align f one (rev (take (nat i) lhs)) (rev (take (nat j) rhs)); Some (d # ds) }" for f
      using True 1(2,3) by (auto simp: rev_take_step not_le)
    show ?thesis
    proof (cases "merge ?a ?b")
      case (Inl e)
      then show ?thesis using True by (subst broadcast_loop.simps) (simp add: split Let_def)
    next
      case (Inr d)
      then have "broadcast_loop merge one lhs rhs i j out = broadcast_loop merge one lhs rhs (i - 1) (j - 1) (out @ [d])"
        using True by (subst broadcast_loop.simps) (simp add: Let_def)
      moreover have "ok (broadcast_loop merge one lhs rhs (i - 1) (j - 1) (out @ [d])) =
          map_option (\<lambda>ds. rev ((out @ [d]) @ ds))
            (align (\<lambda>a b. ok (merge a b)) one (rev (take (nat i) lhs)) (rev (take (nat j) rhs)))"
        using 1(1) [OF True refl refl Inr] 1(2,3) by simp
      ultimately show ?thesis
        by (simp add: split Inr map_option_case split: option.split bind_split)
    qed
  next
    case False
    then show ?thesis by (subst broadcast_loop.simps) simp
  qed
qed

lemma broadcast_loop_correct:
  "ok (broadcast_loop merge one lhs rhs (int (length lhs) - 1) (int (length rhs) - 1) []) =
    broadcast (\<lambda>a b. ok (merge a b)) one lhs rhs"
  by (simp add: broadcast_loop_align broadcast_def)

lemma broadcast_loop_error:
  assumes "\<forall>a b e. merge a b = Inl e \<longrightarrow> e = e0" "broadcast_loop merge one lhs rhs i j out = Inl e"
  shows "e = e0"
  using assms
proof (induction merge one lhs rhs i j out rule: broadcast_loop.induct)
  case (1 merge one lhs rhs i j out)
  show ?case
  proof (cases "i \<ge> 0 \<or> j \<ge> 0")
    case True
    show ?thesis
    proof (cases "merge (if i \<ge> 0 then lhs ! nat i else one) (if j \<ge> 0 then rhs ! nat j else one)")
      case (Inl e')
      then show ?thesis using 1(3) 1(2) True by (subst (asm) broadcast_loop.simps) (simp add: Let_def)
    next
      case (Inr d)
      then have "broadcast_loop merge one lhs rhs (i - 1) (j - 1) (out @ [d]) = Inl e"
        using 1(3) True by (subst (asm) broadcast_loop.simps) (simp add: Let_def)
      then show ?thesis using 1(1) [OF True refl refl Inr 1(2)] by blast
    qed
  next
    case False
    then show ?thesis using 1(3) by (simp add: broadcast_loop.simps)
  qed
qed

subsection \<open>The algebra of shapes\<close>

locale extent_join =
  fixes join :: "'d \<Rightarrow> 'd \<Rightarrow> 'd option" and one :: 'd
  assumes join_same: "join a a = Some a"
    and join_commute: "join a b = join b a"
    and join_one: "join one a = Some a"
    and join_assoc: "join a b \<bind> (\<lambda>d. join d c) = join b c \<bind> (\<lambda>d. join a d)"
begin

lemma align_commute: "align join one xs ys = align join one ys xs"
proof (induction xs arbitrary: ys)
  case Nil
  then show ?case by (induction ys) (simp_all add: join_commute)
next
  case (Cons x xs)
  then show ?case by (cases ys) (simp_all add: join_commute)
qed

lemma align_Nil: "align join one [] xs = Some xs" "align join one xs [] = Some xs"
proof -
  show left: "align join one [] xs = Some xs" for xs by (induction xs) (simp_all add: join_one)
  show "align join one xs [] = Some xs" by (subst align_commute) (rule left)
qed

lemma align_same: "align join one xs xs = Some xs"
  by (induction xs) (simp_all add: join_same)

lemma align_length: "align join one xs ys = Some zs \<Longrightarrow> length zs = max (length xs) (length ys)"
  by (induction join one xs ys arbitrary: zs rule: align.induct) (auto simp: bind_eq_Some_conv)

lemma align_assoc:
  "align join one xs ys \<bind> (\<lambda>d. align join one d zs) = align join one ys zs \<bind> (\<lambda>d. align join one xs d)"
proof (induction xs arbitrary: ys zs)
  case Nil
  then show ?case by (cases "align join one ys zs") (simp_all add: align_Nil)
next
  case (Cons x xs)
  show ?case
  proof (cases "ys = [] \<or> zs = []")
    case True
    then show ?thesis by (auto simp: align_Nil simp del: align.simps)
  next
    case False
    then obtain y ys' z zs' where yz: "ys = y # ys'" "zs = z # zs'" by (meson neq_Nil_conv)
    let ?pair = "\<lambda>h t. h \<bind> (\<lambda>d. t \<bind> (\<lambda>ds. Some (d # ds)))"
    have "align join one (x # xs) ys \<bind> (\<lambda>d. align join one d zs) =
        ?pair (join x y \<bind> (\<lambda>d. join d z)) (align join one xs ys' \<bind> (\<lambda>d. align join one d zs'))"
      unfolding yz by (cases "join x y"; cases "align join one xs ys'") simp_all
    also have "\<dots> = ?pair (join y z \<bind> (\<lambda>d. join x d)) (align join one ys' zs' \<bind> (\<lambda>d. align join one xs d))"
      by (simp only: join_assoc Cons.IH)
    also have "\<dots> = align join one ys zs \<bind> (\<lambda>d. align join one (x # xs) d)"
      unfolding yz by (cases "join y z"; cases "align join one ys' zs'") simp_all
    finally show ?thesis .
  qed
qed

lemma broadcast_commute: "broadcast join one xs ys = broadcast join one ys xs"
  by (simp add: broadcast_def align_commute)

lemma broadcast_same: "broadcast join one xs xs = Some xs"
  by (simp add: broadcast_def align_same)

lemma broadcast_scalar: "broadcast join one [] xs = Some xs" "broadcast join one xs [] = Some xs"
  by (simp_all add: broadcast_def align_Nil)

lemma broadcast_length: "broadcast join one xs ys = Some zs \<Longrightarrow> length zs = max (length xs) (length ys)"
  by (auto simp: broadcast_def dest: align_length)

lemma broadcast_assoc:
  "broadcast join one xs ys \<bind> (\<lambda>d. broadcast join one d zs) = broadcast join one ys zs \<bind> (\<lambda>d. broadcast join one xs d)"
  using align_assoc [of "rev xs" "rev ys" "rev zs"]
  by (cases "align join one (rev xs) (rev ys)"; cases "align join one (rev ys) (rev zs)")
     (auto simp: broadcast_def)

text \<open>The result is a common shape: broadcasting an operand with it again gives it back.\<close>

lemma broadcast_absorb: "broadcast join one xs ys = Some zs \<Longrightarrow> broadcast join one xs zs = Some zs"
  using broadcast_assoc [of xs xs ys] by (simp add: broadcast_same)

lemma broadcast_least:
  assumes "broadcast join one xs zs = Some zs" "broadcast join one ys zs = Some zs"
  shows "\<exists>ws. broadcast join one xs ys = Some ws \<and> broadcast join one ws zs = Some zs"
  using broadcast_assoc [of xs ys zs] assms by (auto simp: bind_eq_Some_conv)

end

end
