(* ===== verification/Linalg.thy ===== *)
theory Linalg
  imports Broadcast Ir "HOL-Library.Monad_Syntax"
begin

text \<open>
  \<^verbatim>\<open>src/linalg.rs\<close>: symbolic-extent arithmetic for matrix products, permutations and
  convolutions.  The messages of the source's \<open>String\<close> errors are constructors of \<open>linalg_error\<close>, one
  per \<open>format!\<close> call with its arguments.  An \<open>i32\<close> axis is a 32-bit word and \<open>rank as i32\<close> its truncation.
\<close>

type_synonym i32 = "32 word"

datatype linalg_error =
    BroadcastDims usize usize
  | BroadcastSyms string string
  | BroadcastDimSym usize string
  | AxisRange i32 usize
  | PermutationLength usize usize
  | PermutationDuplicate i32
  | StrideNotPositive
  | KernelNotPositive
  | KernelExceedsInput usize usize
  | InputNotPositive
  | MatmulRank
  | ContractionMismatch string string

definition format_dim :: "shape_dim \<Rightarrow> string" where
  "format_dim dim = (case dim of Known n \<Rightarrow> show_nat n | Sym s \<Rightarrow> s)"

fun dims_equal :: "shape_dim \<Rightarrow> shape_dim \<Rightarrow> bool" where
  "dims_equal (Known x) (Known y) \<longleftrightarrow> x = y"
| "dims_equal (Sym sa) (Sym sb) \<longleftrightarrow> sa = sb"
| "dims_equal _ _ \<longleftrightarrow> False"

fun merge_dims :: "shape_dim \<Rightarrow> shape_dim \<Rightarrow> linalg_error + shape_dim" where
  "merge_dims (Known x) (Known y) =
     (if x = y then Inr (Known x) else if x = 1 then Inr (Known y) else if y = 1 then Inr (Known x)
      else Inl (BroadcastDims x y))"
| "merge_dims (Sym sa) (Sym sb) = (if sa = sb then Inr (Sym sa) else Inl (BroadcastSyms sa sb))"
| "merge_dims (Sym s) (Known other) = (if other = 1 then Inr (Sym s) else Inl (BroadcastDimSym other s))"
| "merge_dims (Known other) (Sym s) = (if other = 1 then Inr (Sym s) else Inl (BroadcastDimSym other s))"

definition broadcast_leading :: "shape_dim list \<Rightarrow> shape_dim list \<Rightarrow> linalg_error + shape_dim list" where
  "broadcast_leading lhs rhs =
     broadcast_loop merge_dims (Known 1) lhs rhs (int (length lhs) - 1) (int (length rhs) - 1) []"

subsection \<open>Axes and permutations\<close>

definition axis_index :: "i32 \<Rightarrow> i32 \<Rightarrow> i32" where
  "axis_index axis rank = (if sint axis < 0 then rank + axis else axis)"

definition normalize_axis :: "i32 \<Rightarrow> usize \<Rightarrow> linalg_error + usize" where
  "normalize_axis axis rank =
     (let rank_i32 = of_nat rank; idx = axis_index axis rank_i32 in
      if sint idx < 0 \<or> sint idx \<ge> sint rank_i32 then Inl (AxisRange axis rank) else Inr (nat (sint idx)))"

text \<open>The loop of \<open>normalize_permutation\<close>: \<open>seen\<close> is the vector of flags.\<close>

fun normalize_permutation_loop :: "i32 list \<Rightarrow> usize \<Rightarrow> bool list \<Rightarrow> usize list \<Rightarrow> linalg_error + usize list" where
  "normalize_permutation_loop [] rank seen perm = Inr perm"
| "normalize_permutation_loop (axis # axes) rank seen perm =
     rbind (normalize_axis axis rank) (\<lambda>idx.
       if seen ! idx then Inl (PermutationDuplicate axis)
       else normalize_permutation_loop axes rank (seen[idx := True]) (perm @ [idx]))"

definition normalize_permutation :: "i32 list \<Rightarrow> usize \<Rightarrow> linalg_error + usize list" where
  "normalize_permutation axes rank =
     (if length axes \<noteq> rank then Inl (PermutationLength (length axes) rank)
      else normalize_permutation_loop axes rank (replicate rank False) [])"

definition default_transpose :: "usize \<Rightarrow> usize list" where
  "default_transpose rank = rev [0..<rank]"

text \<open>\<^const>\<open>None\<close> is a panic: an index out of range.\<close>

fun permute_shape :: "shape_dim list \<Rightarrow> usize list \<Rightarrow> shape_dim list option" where
  "permute_shape shape [] = Some []"
| "permute_shape shape (idx # perm) =
     (if idx < length shape then map_option ((#) (shape ! idx)) (permute_shape shape perm) else None)"

fun invert_loop :: "usize \<Rightarrow> usize list \<Rightarrow> usize list \<Rightarrow> usize list option" where
  "invert_loop idx [] invs = Some invs"
| "invert_loop idx (axis # perm) invs =
     (if axis < length invs then invert_loop (idx + 1) perm (invs[axis := idx]) else None)"

definition invert_permutation :: "usize list \<Rightarrow> usize list option" where
  "invert_permutation perm = invert_loop 0 perm (replicate (length perm) 0)"

definition known_dim_value :: "shape_dim \<Rightarrow> usize option" where
  "known_dim_value dim = (case dim of Known n \<Rightarrow> Some n | Sym _ \<Rightarrow> None)"

subsection \<open>Convolution extents\<close>

definition conv_output_dim_valid :: "usize option \<Rightarrow> usize option \<Rightarrow> usize \<Rightarrow> linalg_error + usize option" where
  "conv_output_dim_valid inp kern stride =
     (if stride = 0 then Inl StrideNotPositive
      else if kern = Some 0 then Inl KernelNotPositive
      else case (inp, kern) of
        (Some h, Some k) \<Rightarrow>
          if h < k then Inl (KernelExceedsInput k h) else Inr (Some ((h - k) div stride + 1))
      | _ \<Rightarrow> Inr None)"

definition div_ceil :: "usize \<Rightarrow> usize \<Rightarrow> usize" where
  "div_ceil a b = (if a mod b > 0 then a div b + 1 else a div b)"

definition conv_output_dim_same :: "usize option \<Rightarrow> usize \<Rightarrow> linalg_error + usize option" where
  "conv_output_dim_same inp stride =
     (if stride = 0 then Inl StrideNotPositive
      else case inp of
        Some h \<Rightarrow> if h = 0 then Inl InputNotPositive else Inr (Some (div_ceil h stride))
      | None \<Rightarrow> Inr None)"

subsection \<open>Matrix products\<close>

record matmul_shape_info =
  mm_a_shape :: "shape_dim list"
  mm_b_shape :: "shape_dim list"
  mm_broadcast_shape :: "shape_dim list"
  mm_result_shape :: "shape_dim list"
  mm_a_was_vec :: bool
  mm_b_was_vec :: bool
  mm_m_dim :: shape_dim
  mm_n_dim :: shape_dim
  mm_k_dim :: shape_dim

definition compute_matmul_shape_info :: "shape_dim list \<Rightarrow> shape_dim list \<Rightarrow> linalg_error + matmul_shape_info" where
  "compute_matmul_shape_info a_shape b_shape =
     (if a_shape = [] \<or> b_shape = [] then Inl MatmulRank
      else let a_was_vec = (length a_shape = 1);
               b_was_vec = (length b_shape = 1);
               a_adj = (if a_was_vec then [Known 1, a_shape ! 0] else a_shape);
               b_adj = (if b_was_vec then b_shape @ [Known 1] else b_shape)
        in if length a_adj < 2 \<or> length b_adj < 2 then Inl MatmulRank
        else rbind (broadcast_leading (take (length a_adj - 2) a_adj) (take (length b_adj - 2) b_adj))
          (\<lambda>broadcast_shape.
            let m_dim = a_adj ! (length a_adj - 2);
                k_left = a_adj ! (length a_adj - 1);
                k_right = b_adj ! (length b_adj - 2);
                n_dim = b_adj ! (length b_adj - 1)
            in if \<not> dims_equal k_left k_right
               then Inl (ContractionMismatch (format_dim k_left) (format_dim k_right))
               else Inr \<lparr>mm_a_shape = broadcast_shape @ [m_dim] @ [k_left],
                      mm_b_shape = broadcast_shape @ [k_right] @ [n_dim],
                      mm_broadcast_shape = broadcast_shape,
                      mm_result_shape = broadcast_shape @ (if a_was_vec then [] else [m_dim]) @
                        (if b_was_vec then [] else [n_dim]),
                      mm_a_was_vec = a_was_vec, mm_b_was_vec = b_was_vec,
                      mm_m_dim = m_dim, mm_n_dim = n_dim, mm_k_dim = k_left\<rparr>))"

subsection \<open>Extents of shapes form an extent join\<close>

definition dim_join :: "shape_dim \<Rightarrow> shape_dim \<Rightarrow> shape_dim option" where
  "dim_join a b = (if a = b then Some a else if a = Known 1 then Some b else if b = Known 1 then Some a else None)"

interpretation dims: extent_join dim_join "Known 1"
  by unfold_locales (auto simp: dim_join_def)

lemma merge_dims_join: "ok (merge_dims a b) = dim_join a b"
  by (cases a; cases b) (auto simp: dim_join_def)

lemma broadcast_leading_spec: "ok (broadcast_leading lhs rhs) = broadcast dim_join (Known 1) lhs rhs"
  by (simp add: broadcast_leading_def broadcast_loop_correct merge_dims_join)

lemma dims_equal_iff [simp]: "dims_equal a b \<longleftrightarrow> a = b"
  by (cases a; cases b) auto

subsection \<open>Axes\<close>

lemma axis_index_exact:
  assumes "rank < 2 ^ 31"
  shows "sint (of_nat rank :: i32) = int rank"
    and "sint (axis_index axis (of_nat rank)) = (if sint axis < 0 then int rank + sint axis else sint axis)"
proof -
  show r: "sint (of_nat rank :: i32) = int rank"
    using assms by (simp add: signed_of_nat signed_take_bit_int_eq_self)
  have "- (2 ^ 31) \<le> sint axis" "sint axis < 2 ^ 31"
    using sint_ge [of axis] sint_lt [of axis] by simp_all
  with assms r show "sint (axis_index axis (of_nat rank)) = (if sint axis < 0 then int rank + sint axis else sint axis)"
    by (auto simp: axis_index_def sint_word_ariths(1) signed_take_bit_int_eq_self)
qed

lemma normalize_axis_spec:
  assumes "rank < 2 ^ 31"
  shows "normalize_axis axis rank =
    (if - int rank \<le> sint axis \<and> sint axis < int rank then Inr (nat (sint axis mod int rank)) else Inl (AxisRange axis rank))"
proof -
  have "(int rank + sint axis) = sint axis mod int rank" if "- int rank \<le> sint axis" "sint axis < 0"
    using that mod_pos_pos_trivial [of "int rank + sint axis" "int rank"] by simp
  then show ?thesis
    by (auto simp: normalize_axis_def Let_def axis_index_exact [OF assms] mod_pos_pos_trivial)
qed

lemma normalize_axis_bound: "rank < 2 ^ 31 \<Longrightarrow> normalize_axis axis rank = Inr i \<Longrightarrow> i < rank"
  by (auto simp: normalize_axis_spec nat_less_iff split: if_splits)

lemma normalize_permutation_loop_spec:
  assumes "rank < 2 ^ 31" "normalize_permutation_loop axes rank seen perm = Inr p" "length seen = rank"
    and "\<forall>i < rank. seen ! i \<longleftrightarrow> i \<in> set perm" "distinct perm" "set perm \<subseteq> {..<rank}"
  shows "distinct p \<and> set p \<subseteq> {..<rank} \<and> length p = length perm + length axes"
  using assms(2-)
proof (induction axes arbitrary: seen perm)
  case (Cons axis axes)
  obtain i where i: "normalize_axis axis rank = Inr i" "\<not> seen ! i"
    and rec: "normalize_permutation_loop axes rank (seen[i := True]) (perm @ [i]) = Inr p"
    using Cons.prems(1) by (auto simp: rbind_eq_Inr split: if_splits)
  have "i < rank" using normalize_axis_bound assms(1) i(1) .
  with i Cons.prems Cons.IH [OF rec] show ?case by (auto simp: nth_list_update)
qed simp

definition is_permutation :: "usize list \<Rightarrow> usize \<Rightarrow> bool" where
  "is_permutation perm rank \<longleftrightarrow> length perm = rank \<and> distinct perm \<and> set perm = {..<rank}"

lemma is_permutationI: "length perm = rank \<Longrightarrow> distinct perm \<Longrightarrow> set perm \<subseteq> {..<rank} \<Longrightarrow> is_permutation perm rank"
  using card_subset_eq [of "{..<rank}" "set perm"] by (auto simp: is_permutation_def distinct_card)

lemma normalize_permutation_is_permutation:
  "rank < 2 ^ 31 \<Longrightarrow> normalize_permutation axes rank = Inr perm \<Longrightarrow> is_permutation perm rank"
  using normalize_permutation_loop_spec [of rank axes "replicate rank False" "[]" perm]
  by (auto simp: normalize_permutation_def split: if_splits intro!: is_permutationI)

lemma default_transpose_is_permutation: "is_permutation (default_transpose rank) rank"
  by (auto simp: is_permutation_def default_transpose_def)

lemma permute_shape_spec:
  "permute_shape shape perm = (if set perm \<subseteq> {..<length shape} then Some (map ((!) shape) perm) else None)"
  by (induction perm) auto

lemma invert_loop_spec:
  assumes "set perm \<subseteq> {..<length invs}" "distinct perm"
  shows "\<exists>r. invert_loop idx perm invs = Some r \<and> length r = length invs \<and>
    (\<forall>i < length perm. r ! (perm ! i) = idx + i) \<and> (\<forall>a < length invs. a \<notin> set perm \<longrightarrow> r ! a = invs ! a)"
  using assms
proof (induction perm arbitrary: idx invs)
  case (Cons axis perm)
  then obtain r where "invert_loop (idx + 1) perm (invs[axis := idx]) = Some r" "length r = length invs"
    "\<forall>i < length perm. r ! (perm ! i) = idx + 1 + i"
    "\<forall>a < length invs. a \<notin> set perm \<longrightarrow> r ! a = invs[axis := idx] ! a"
    using Cons.IH [of "invs[axis := idx]" "idx + 1"] by auto
  with Cons.prems show ?case by (auto simp: nth_Cons nth_list_update split: nat.split)
qed simp

lemma invert_permutation_spec:
  assumes "is_permutation perm rank"
  obtains r where "invert_permutation perm = Some r" "is_permutation r rank" "\<forall>i < rank. r ! (perm ! i) = i"
    "\<forall>a < rank. perm ! (r ! a) = a"
proof -
  obtain r where r: "invert_permutation perm = Some r" "length r = rank" "\<forall>i < rank. r ! (perm ! i) = i"
    using invert_loop_spec [of perm "replicate rank 0" 0] assms
    by (auto simp: is_permutation_def invert_permutation_def)
  have hit: "\<exists>i < rank. perm ! i = a" if "a < rank" for a
    using that assms unfolding is_permutation_def by (metis in_set_conv_nth lessThan_iff)
  have rinv: "\<forall>a < rank. perm ! (r ! a) = a" using hit r(3) by metis
  then have "distinct r" using r(2) unfolding distinct_conv_nth by metis
  moreover have "set r \<subseteq> {..<rank}" using hit r(2,3) by (metis in_set_conv_nth lessThan_iff subsetI)
  ultimately show thesis using that r rinv is_permutationI by blast
qed

lemma permute_invert:
  assumes "is_permutation perm (length s)" "permute_shape s perm = Some t" "invert_permutation perm = Some r"
  shows "permute_shape t r = Some s"
proof -
  obtain r' where r: "invert_permutation perm = Some r'" "is_permutation r' (length s)" "\<forall>a < length s. perm ! (r' ! a) = a"
    using invert_permutation_spec [OF assms(1)] .
  have p: "length perm = length s" "set perm = {..<length s}" using assms(1) by (simp_all add: is_permutation_def)
  then have t: "t = map ((!) s) perm" using assms(2) by (simp add: permute_shape_spec)
  then have lt: "length t = length s" using p by simp
  have rr: "r = r'" "length r = length s" "set r = {..<length s}" using r assms(3) by (auto simp: is_permutation_def)
  have "map ((!) t) r = s"
  proof (rule nth_equalityI)
    fix a assume "a < length (map ((!) t) r)"
    then have "a < length s" using rr(2) by simp
    moreover from this have "r ! a < length s" using rr(2,3) nth_mem [of a r] by simp
    ultimately show "map ((!) t) r ! a = s ! a" using r(3) rr t p by simp
  qed (simp add: rr(2))
  then show ?thesis using rr(3) lt by (simp add: permute_shape_spec)
qed

subsection \<open>Convolution windows\<close>

lemma count_multiples: "0 < s \<Longrightarrow> card {p :: nat. p * s \<le> d} = d div s + 1"
proof -
  assume "0 < s"
  then have "{p. p * s \<le> d} = {..d div s}" by (auto simp: less_eq_div_iff_mult_less_eq)
  then show ?thesis by simp
qed

lemma conv_valid_windows:
  "conv_output_dim_valid (Some h) (Some k) stride = Inr (Some out) \<Longrightarrow> out = card {p. p * stride + k \<le> h}"
proof -
  assume a: "conv_output_dim_valid (Some h) (Some k) stride = Inr (Some out)"
  then have "0 < stride" "k \<le> h" "out = (h - k) div stride + 1"
    by (auto simp: conv_output_dim_valid_def split: if_splits)
  moreover from this have "{p. p * stride + k \<le> h} = {p. p * stride \<le> h - k}" by auto
  ultimately show ?thesis by (simp add: count_multiples)
qed

lemma div_ceil_pred: "0 < h \<Longrightarrow> 0 < s \<Longrightarrow> div_ceil h s = (h - 1) div s + 1"
proof -
  assume "0 < h" "0 < s"
  then have "h div s = (if h mod s = 0 then (h - 1) div s + 1 else (h - 1) div s)"
    using div_Suc [of "h - 1" s] mod_Suc [of "h - 1" s] by (auto split: if_splits)
  then show ?thesis by (simp add: div_ceil_def)
qed

lemma conv_same_windows:
  "conv_output_dim_same (Some h) stride = Inr (Some out) \<Longrightarrow> out = card {p. p * stride < h}"
proof -
  assume a: "conv_output_dim_same (Some h) stride = Inr (Some out)"
  then have "0 < stride" "0 < h" "out = div_ceil h stride"
    by (auto simp: conv_output_dim_same_def split: if_splits)
  moreover from this have "{p. p * stride < h} = {p. p * stride \<le> h - 1}" by auto
  ultimately show ?thesis by (simp add: count_multiples div_ceil_pred)
qed

subsection \<open>Matrix products\<close>

lemma matmul_matrix:
  "ok (compute_matmul_shape_info (as @ [m, k]) (bs @ [k', n])) =
    (if k = k' then map_option (\<lambda>z. \<lparr>mm_a_shape = z @ [m, k], mm_b_shape = z @ [k, n], mm_broadcast_shape = z,
        mm_result_shape = z @ [m, n], mm_a_was_vec = False, mm_b_was_vec = False,
        mm_m_dim = m, mm_n_dim = n, mm_k_dim = k\<rparr>) (broadcast dim_join (Known 1) as bs)
     else None)"
proof -
  have spec: "broadcast dim_join (Known (Suc 0)) as bs = ok (broadcast_leading as bs)"
    by (simp add: broadcast_leading_spec)
  show ?thesis
    by (cases "broadcast_leading as bs") (auto simp: compute_matmul_shape_info_def Let_def nth_append spec)
qed

lemma matmul_vector:
  "ok (compute_matmul_shape_info [k] (bs @ [k', n])) = (if k = k' then Some
     \<lparr>mm_a_shape = bs @ [Known 1, k], mm_b_shape = bs @ [k, n], mm_broadcast_shape = bs,
      mm_result_shape = bs @ [n], mm_a_was_vec = True, mm_b_was_vec = False,
      mm_m_dim = Known 1, mm_n_dim = n, mm_k_dim = k\<rparr> else None)"
  "ok (compute_matmul_shape_info (as @ [m, k]) [k']) = (if k = k' then Some
     \<lparr>mm_a_shape = as @ [m, k], mm_b_shape = as @ [k, Known 1], mm_broadcast_shape = as,
      mm_result_shape = as @ [m], mm_a_was_vec = False, mm_b_was_vec = True,
      mm_m_dim = m, mm_n_dim = Known 1, mm_k_dim = k\<rparr> else None)"
  "ok (compute_matmul_shape_info [k] [k']) = (if k = k' then Some
     \<lparr>mm_a_shape = [Known 1, k], mm_b_shape = [k, Known 1], mm_broadcast_shape = [],
      mm_result_shape = [], mm_a_was_vec = True, mm_b_was_vec = True,
      mm_m_dim = Known 1, mm_n_dim = Known 1, mm_k_dim = k\<rparr> else None)"
proof -
  have "broadcast_leading [] zs = Inr zs" "broadcast_leading zs [] = Inr zs" for zs
    using broadcast_leading_spec [of "[]" zs] broadcast_leading_spec [of zs "[]"]
    by (simp_all add: dims.broadcast_scalar del: One_nat_def)
  then show
    "ok (compute_matmul_shape_info [k] (bs @ [k', n])) = (if k = k' then Some
       \<lparr>mm_a_shape = bs @ [Known 1, k], mm_b_shape = bs @ [k, n], mm_broadcast_shape = bs,
        mm_result_shape = bs @ [n], mm_a_was_vec = True, mm_b_was_vec = False,
        mm_m_dim = Known 1, mm_n_dim = n, mm_k_dim = k\<rparr> else None)"
    "ok (compute_matmul_shape_info (as @ [m, k]) [k']) = (if k = k' then Some
       \<lparr>mm_a_shape = as @ [m, k], mm_b_shape = as @ [k, Known 1], mm_broadcast_shape = as,
        mm_result_shape = as @ [m], mm_a_was_vec = False, mm_b_was_vec = True,
        mm_m_dim = m, mm_n_dim = Known 1, mm_k_dim = k\<rparr> else None)"
    "ok (compute_matmul_shape_info [k] [k']) = (if k = k' then Some
       \<lparr>mm_a_shape = [Known 1, k], mm_b_shape = [k, Known 1], mm_broadcast_shape = [],
        mm_result_shape = [], mm_a_was_vec = True, mm_b_was_vec = True,
        mm_m_dim = Known 1, mm_n_dim = Known 1, mm_k_dim = k\<rparr> else None)"
    by (auto simp: compute_matmul_shape_info_def Let_def nth_append)
qed

end
