(* ===== verification/Shapes.thy ===== *)
theory Shapes
  imports Linalg Rust_Int
begin

text \<open>
  \<^verbatim>\<open>src/shapes/mod.rs\<close>: the shape rules of the tensor operations over symbolic extents, with the
  copies of the broadcasting rule in \<^verbatim>\<open>src/eval/mod.rs\<close> and \<^verbatim>\<open>src/type_checker/mod.rs\<close>.
  Axes are \<open>i32\<close> words; the arithmetic on them and on the \<open>i64\<close> slice bounds wraps as in a release
  build, and the lemmas give the exact integer meaning for ranks below \<open>2 ^ 31\<close> and extents below
  \<open>2 ^ 62\<close>, where nothing wraps.  The process-wide symbol counter is an argument and a result of
  the operations that make symbols.  \<open>normalize_axis\<close> yields indices below the rank, so the
  indexing of the operations stays inside the shape.
\<close>

datatype shape_error =
    RankMismatch usize usize
  | AxisOutOfRange i32 usize
  | DuplicateAxis i32
  | BroadcastIncompatible "shape_dim list" "shape_dim list"
  | SizeMismatch usize usize
  | ElementCountMismatch usize usize
  | InvalidPermutation usize usize
  | InvalidSliceBounds
  | InvalidStride
  | ConvChannelMismatch shape_dim shape_dim
  | ConvInputRank usize
  | ConvFilterRank usize
  | ConvKernelEmpty

definition fresh_symbol :: "string \<Rightarrow> usize \<Rightarrow> string \<times> usize" where
  "fresh_symbol prefix counter = (prefix @ show_nat counter, (counter + 1) mod 2 ^ 64)"

definition dim_len :: "shape_dim \<Rightarrow> usize option" where
  "dim_len dim = (case dim of Known n \<Rightarrow> Some n | Sym _ \<Rightarrow> None)"

definition shape_normalize_axis :: "i32 \<Rightarrow> usize \<Rightarrow> shape_error + usize" where
  "shape_normalize_axis axis rank =
     (let rank_i = of_nat rank; idx = (if sint axis < 0 then rank_i + axis else axis) in
      if sint idx < 0 \<or> sint idx \<ge> sint rank_i then Inl (AxisOutOfRange axis rank) else Inr (nat (sint idx)))"

fun normalize_axes_loop :: "i32 list \<Rightarrow> usize \<Rightarrow> usize set \<Rightarrow> usize list \<Rightarrow> shape_error + usize list" where
  "normalize_axes_loop [] rank seen normalized = Inr normalized"
| "normalize_axes_loop (axis # axes) rank seen normalized =
     rbind (shape_normalize_axis axis rank) (\<lambda>idx.
       if idx \<in> seen then Inl (DuplicateAxis axis)
       else normalize_axes_loop axes rank (insert idx seen) (normalized @ [idx]))"

definition normalize_axes_list :: "i32 list \<Rightarrow> usize \<Rightarrow> shape_error + usize list" where
  "normalize_axes_list axes rank = rbind (normalize_axes_loop axes rank {} []) (\<lambda>normalized. Inr (sort normalized))"

subsection \<open>Broadcasting\<close>

fun broadcast_dim :: "shape_dim list \<Rightarrow> shape_dim list \<Rightarrow> shape_dim \<Rightarrow> shape_dim \<Rightarrow> shape_error + shape_dim" where
  "broadcast_dim lhs rhs (Known x) (Known y) =
     (if x = y then Inr (Known x) else if x = 1 then Inr (Known y) else if y = 1 then Inr (Known x)
      else Inl (BroadcastIncompatible lhs rhs))"
| "broadcast_dim lhs rhs (Sym s1) (Sym s2) = (if s1 = s2 then Inr (Sym s1) else Inl (BroadcastIncompatible lhs rhs))"
| "broadcast_dim lhs rhs (Sym s) (Known n) = (if n = 1 then Inr (Sym s) else Inl (BroadcastIncompatible lhs rhs))"
| "broadcast_dim lhs rhs (Known n) (Sym s) = (if n = 1 then Inr (Sym s) else Inl (BroadcastIncompatible lhs rhs))"

definition broadcast_shapes :: "shape_dim list \<Rightarrow> shape_dim list \<Rightarrow> shape_error + shape_dim list" where
  "broadcast_shapes lhs rhs =
     broadcast_loop (broadcast_dim lhs rhs) (Known 1) lhs rhs (int (length lhs) - 1) (int (length rhs) - 1) []"

text \<open>\<^verbatim>\<open>src/eval/mod.rs\<close>; the error \<open>()\<close> is the source's \<open>None\<close>.\<close>

definition eval_broadcast_dim :: "shape_dim \<Rightarrow> shape_dim \<Rightarrow> unit + shape_dim" where
  "eval_broadcast_dim da db =
     (case (da, db) of
        (Known x, Known y) \<Rightarrow>
          if x = y then Inr (Known x) else if x = 1 then Inr (Known y) else if y = 1 then Inr (Known x) else Inl ()
      | (Sym s1, Sym s2) \<Rightarrow> if s1 = s2 then Inr (Sym s1) else Inl ()
      | (Sym s, Known n) \<Rightarrow> if n = 1 then Inr (Sym s) else Inl ()
      | (Known n, Sym s) \<Rightarrow> if n = 1 then Inr (Sym s) else Inl ())"

definition eval_broadcast_shapes :: "shape_dim list \<Rightarrow> shape_dim list \<Rightarrow> shape_dim list option" where
  "eval_broadcast_shapes a b =
     ok (broadcast_loop eval_broadcast_dim (Known 1) a b (int (length a) - 1) (int (length b) - 1) [])"

text \<open>\<^verbatim>\<open>src/eval/autodiff.rs\<close>.\<close>

definition can_broadcast_to :: "shape_dim list \<Rightarrow> shape_dim list \<Rightarrow> bool" where
  "can_broadcast_to frm to = (case eval_broadcast_shapes frm to of Some result \<Rightarrow> result = to | None \<Rightarrow> False)"

text \<open>\<^verbatim>\<open>src/type_checker/mod.rs\<close>.\<close>

fun checker_broadcast_dim :: "shape_dim \<Rightarrow> shape_dim \<Rightarrow> unit + shape_dim" where
  "checker_broadcast_dim (Known x) (Known y) =
     (if x = y then Inr (Known x) else if x = 1 then Inr (Known y) else if y = 1 then Inr (Known x) else Inl ())"
| "checker_broadcast_dim (Sym s1) (Sym s2) = (if s1 = s2 then Inr (Sym s1) else Inl ())"
| "checker_broadcast_dim (Sym s) (Known n) = (if n = 1 then Inr (Sym s) else Inl ())"
| "checker_broadcast_dim (Known n) (Sym s) = (if n = 1 then Inr (Sym s) else Inl ())"

definition checker_broadcast_shapes :: "shape_dim list \<Rightarrow> shape_dim list \<Rightarrow> shape_dim list option" where
  "checker_broadcast_shapes a b =
     ok (broadcast_loop checker_broadcast_dim (Known 1) a b (int (length a) - 1) (int (length b) - 1) [])"

subsection \<open>Reductions and reshapes\<close>

definition drop_axes :: "usize set \<Rightarrow> shape_dim list \<Rightarrow> shape_dim list" where
  "drop_axes axis_set shape = map snd (filter (\<lambda>(idx, _). idx \<notin> axis_set) (enumerate 0 shape))"

definition reduce_shape :: "shape_dim list \<Rightarrow> i32 list \<Rightarrow> bool \<Rightarrow> shape_error + shape_dim list" where
  "reduce_shape inp axes keepdims =
     (let axes = (if axes = [] then map of_nat [0..<nat (sint (of_nat (length inp) :: i32))] else axes) in
      rbind (normalize_axes_list axes (length inp)) (\<lambda>normalized.
        if keepdims then Inr (fold (\<lambda>axis out. out[axis := Known 1]) normalized inp)
        else Inr (drop_axes (set normalized) inp)))"

fun known_product_loop :: "shape_dim list \<Rightarrow> usize \<Rightarrow> usize option" where
  "known_product_loop [] tot = Some tot"
| "known_product_loop (Known n # shape) tot =
     (if tot * n < 2 ^ 64 then known_product_loop shape (tot * n) else None)"
| "known_product_loop (Sym _ # shape) tot = None"

definition known_product :: "shape_dim list \<Rightarrow> usize option" where
  "known_product shape = known_product_loop shape 1"

definition reshape_shape :: "shape_dim list \<Rightarrow> shape_dim list \<Rightarrow> shape_error + shape_dim list" where
  "reshape_shape inp new_dims =
     (case (known_product inp, known_product new_dims) of
        (Some old, Some new) \<Rightarrow> if old \<noteq> new then Inl (ElementCountMismatch old new) else Inr new_dims
      | _ \<Rightarrow> Inr new_dims)"

fun first_duplicate :: "usize list \<Rightarrow> usize set \<Rightarrow> usize option" where
  "first_duplicate [] seen = None"
| "first_duplicate (axis # perm) seen = (if axis \<in> seen then Some axis else first_duplicate perm (insert axis seen))"

text \<open>The outer \<^const>\<open>None\<close> is a panic of \<open>permute_shape\<close>.\<close>

definition transpose_shape :: "shape_dim list \<Rightarrow> usize list \<Rightarrow> (shape_error + shape_dim list) option" where
  "transpose_shape inp perm =
     (if length perm \<noteq> length inp then Some (Inl (InvalidPermutation (length inp) (length perm)))
      else if perm \<noteq> [] \<and> Max (set perm) \<ge> length inp
           then Some (Inl (AxisOutOfRange (of_nat (Max (set perm))) (length inp)))
      else case first_duplicate perm {} of
        Some axis \<Rightarrow> Some (Inl (DuplicateAxis (of_nat axis)))
      | None \<Rightarrow> map_option Inr (permute_shape inp perm))"

definition insert_at :: "usize \<Rightarrow> 'a \<Rightarrow> 'a list \<Rightarrow> 'a list" where
  "insert_at i x xs = take i xs @ x # drop i xs"

definition expand_dims_shape :: "shape_dim list \<Rightarrow> i32 \<Rightarrow> shape_error + shape_dim list" where
  "expand_dims_shape inp axis =
     (let rank = length inp; extended = rank + 1;
          idx = (if sint axis < 0 then of_nat extended + axis else axis)
      in if sint idx < 0 \<or> sint idx \<ge> sint (of_nat extended :: i32) then Inl (AxisOutOfRange axis rank)
         else Inr (insert_at (nat (sint idx)) (Known 1) inp))"

text \<open>The validation loop of \<open>squeeze_shape\<close>; the source's \<open>axis_set\<close> ends up holding every axis.\<close>

definition dim_at :: "shape_dim list \<Rightarrow> usize \<Rightarrow> shape_dim option" where
  "dim_at inp axis = (if axis < length inp then Some (inp ! axis) else None)"

fun squeeze_check :: "shape_dim list \<Rightarrow> usize list \<Rightarrow> usize set \<Rightarrow> shape_error + usize set" where
  "squeeze_check inp [] axis_set = Inr axis_set"
| "squeeze_check inp (axis # axes) axis_set =
     (if dim_at inp axis \<noteq> Some (Known 1)
      then Inl (SizeMismatch 1 (case dim_at inp axis of Some (Known n) \<Rightarrow> n | _ \<Rightarrow> 0))
      else squeeze_check inp axes (insert axis axis_set))"

definition squeeze_shape :: "shape_dim list \<Rightarrow> i32 list \<Rightarrow> shape_error + shape_dim list" where
  "squeeze_shape inp axes =
     rbind (if axes = [] then Inr (map fst (filter (\<lambda>(_, dim). dim = Known 1) (enumerate 0 inp)))
            else normalize_axes_list axes (length inp)) (\<lambda>axes_to_remove.
     rbind (squeeze_check inp axes_to_remove {}) (\<lambda>axis_set.
       Inr (drop_axes axis_set inp)))"

definition remove_at :: "usize \<Rightarrow> 'a list \<Rightarrow> 'a list" where
  "remove_at i xs = take i xs @ drop (i + 1) xs"

definition index_shape :: "shape_dim list \<Rightarrow> i32 \<Rightarrow> shape_error + shape_dim list" where
  "index_shape inp axis =
     (if inp = [] then Inl (RankMismatch 1 0)
      else rbind (shape_normalize_axis axis (length inp)) (\<lambda>axis. Inr (remove_at axis inp)))"

definition gather_shape :: "shape_dim list \<Rightarrow> i32 \<Rightarrow> shape_dim list \<Rightarrow> shape_error + shape_dim list" where
  "gather_shape inp axis idx_shape =
     rbind (shape_normalize_axis axis (length inp)) (\<lambda>axis.
       Inr (take axis inp @ idx_shape @ (if axis < length inp then drop (axis + 1) inp else [])))"

subsection \<open>Slices\<close>

definition slice_len :: "i32 \<Rightarrow> i32 \<Rightarrow> usize option" where
  "slice_len start ennd =
     (if sint start < 0 \<or> sint ennd < sint start then None else Some (nat (sint (ennd - start) mod 2 ^ 64)))"

text \<open>\<open>wrap64\<close> is the value of an \<open>i64\<close> operation in a build without overflow checks.\<close>

definition wrap64 :: "int \<Rightarrow> int" where
  "wrap64 v = sint (word_of_int v :: i64)"

definition as_usize :: "int \<Rightarrow> usize" where
  "as_usize v = nat (v mod 2 ^ 64)"

definition clamp_up :: "int \<Rightarrow> int \<Rightarrow> int" where
  "clamp_up len_i v =
     (let v = (if v < 0 then wrap64 (v + len_i) else v);
          v = (if v < 0 then 0 else v)
      in if v > len_i then len_i else v)"

definition clamp_down :: "int \<Rightarrow> int \<Rightarrow> int" where
  "clamp_down len_i v =
     (let v = (if v < 0 then wrap64 (v + len_i) else v);
          v = (if v < -1 then -1 else v)
      in if v \<ge> len_i then wrap64 (len_i - 1) else v)"

definition slice_len_with_step :: "usize option \<Rightarrow> i32 \<Rightarrow> i32 \<Rightarrow> i32 \<Rightarrow> usize option" where
  "slice_len_with_step len start ennd step =
     (if step = 0 then None
      else do {
        len \<leftarrow> len;
        let len_i = wrap64 (int len);
        let step_i = sint step;
        if step_i > 0 then
          (let start_i = clamp_up len_i (sint start); end_i = clamp_up len_i (sint ennd) in
           if start_i \<ge> end_i then Some 0
           else let diff = wrap64 (end_i - start_i) in
             Some (as_usize (wrap64 (wrap64 (diff + \<bar>step_i\<bar>) - 1) sdiv \<bar>step_i\<bar>)))
        else if len = 0 then Some 0
        else
          (let start_i = clamp_down len_i (sint start); end_i = clamp_down len_i (sint ennd) in
           if start_i \<le> end_i then Some 0
           else let diff = wrap64 (start_i - end_i) in
             Some (as_usize (wrap64 (wrap64 (diff + (- step_i)) - 1) sdiv (- step_i))))
      })"

definition slice_shape :: "shape_dim list \<Rightarrow> i32 \<Rightarrow> i32 \<Rightarrow> i32 \<Rightarrow> usize \<Rightarrow> (shape_error + shape_dim list) \<times> usize" where
  "slice_shape inp axis start ennd counter =
     (if sint start < 0 \<or> sint ennd < sint start then (Inl InvalidSliceBounds, counter)
      else case shape_normalize_axis axis (length inp) of
        Inl e \<Rightarrow> (Inl e, counter)
      | Inr axis \<Rightarrow>
          (case (dim_len (inp ! axis), slice_len start ennd) of
             (Some _, Some len) \<Rightarrow> (Inr (inp[axis := Known len]), counter)
           | _ \<Rightarrow> (case fresh_symbol ''_slice'' counter of (s, counter') \<Rightarrow> (Inr (inp[axis := Sym s]), counter'))))"

definition slice_stride_shape ::
  "shape_dim list \<Rightarrow> i32 \<Rightarrow> i32 \<Rightarrow> i32 \<Rightarrow> i32 \<Rightarrow> usize \<Rightarrow> (shape_error + shape_dim list) \<times> usize" where
  "slice_stride_shape inp axis start ennd step counter =
     (if step = 0 then (Inl InvalidStride, counter)
      else case shape_normalize_axis axis (length inp) of
        Inl e \<Rightarrow> (Inl e, counter)
      | Inr axis \<Rightarrow>
          (case dim_len (inp ! axis) of
             Some len \<Rightarrow>
               (case slice_len_with_step (Some len) start ennd step of
                  None \<Rightarrow> (Inl InvalidSliceBounds, counter)
                | Some result_len \<Rightarrow> (Inr (inp[axis := Known result_len]), counter))
           | None \<Rightarrow>
               if sint step > 0 \<and> sint start \<ge> sint ennd \<or> sint step < 0 \<and> sint start \<le> sint ennd
               then (Inr (inp[axis := Known 0]), counter)
               else (case fresh_symbol ''_slice_stride'' counter of (s, counter') \<Rightarrow>
                 (Inr (inp[axis := Sym s]), counter'))))"

subsection \<open>Convolution\<close>

definition known_or_fresh :: "string \<Rightarrow> linalg_error + usize option \<Rightarrow> usize \<Rightarrow> (shape_error + shape_dim) \<times> usize" where
  "known_or_fresh prefix r counter =
     (case r of
        Inr (Some v) \<Rightarrow> (Inr (Known v), counter)
      | Inr None \<Rightarrow> (case fresh_symbol prefix counter of (s, counter') \<Rightarrow> (Inr (Sym s), counter'))
      | Inl _ \<Rightarrow> (Inl ConvKernelEmpty, counter))"

definition check_channels :: "shape_dim \<Rightarrow> shape_dim \<Rightarrow> shape_error option" where
  "check_channels in_channels kernel_channels =
     (case (in_channels, kernel_channels) of
        (Known a, Known b) \<Rightarrow>
          if a \<noteq> b then Some (ConvChannelMismatch in_channels kernel_channels)
          else if a = 0 \<or> b = 0 then Some ConvKernelEmpty else None
      | (Sym a, Sym b) \<Rightarrow> if a \<noteq> b then Some (ConvChannelMismatch in_channels kernel_channels) else None
      | (Known a, Sym _) \<Rightarrow> if a = 0 then Some ConvKernelEmpty else None
      | (Sym _, Known b) \<Rightarrow> if b = 0 then Some ConvKernelEmpty else None)"

definition bind_dim :: "(shape_error + 'a) \<times> usize \<Rightarrow> ('a \<Rightarrow> usize \<Rightarrow> (shape_error + 'b) \<times> usize) \<Rightarrow> (shape_error + 'b) \<times> usize" where
  "bind_dim m f = (case m of (Inl e, c) \<Rightarrow> (Inl e, c) | (Inr x, c) \<Rightarrow> f x c)"

definition conv2d_shape ::
  "shape_dim list \<Rightarrow> shape_dim list \<Rightarrow> usize \<Rightarrow> usize \<Rightarrow> conv_padding \<Rightarrow> usize \<Rightarrow> (shape_error + shape_dim \<times> shape_dim) \<times> usize" where
  "conv2d_shape inp filt stride_h stride_w padding counter =
     (if length inp \<noteq> 4 then (Inl (ConvInputRank (length inp)), counter)
      else if length filt \<noteq> 4 then (Inl (ConvFilterRank (length filt)), counter)
      else case check_channels (inp ! 3) (filt ! 2) of
        Some e \<Rightarrow> (Inl e, counter)
      | None \<Rightarrow>
          bind_dim (known_or_fresh ''_conv'' (conv_output_dim_valid (dim_len (inp ! 1)) (dim_len (filt ! 0)) stride_h) counter)
          (\<lambda>out_h counter.
          bind_dim (known_or_fresh ''_conv'' (conv_output_dim_valid (dim_len (inp ! 2)) (dim_len (filt ! 1)) stride_w) counter)
          (\<lambda>out_w counter.
            case padding of
              Valid \<Rightarrow> (Inr (out_h, out_w), counter)
            | Same \<Rightarrow>
                bind_dim (known_or_fresh ''_conv_h'' (conv_output_dim_same (dim_len (inp ! 1)) stride_h) counter)
                (\<lambda>out_h counter.
                bind_dim (known_or_fresh ''_conv_w'' (conv_output_dim_same (dim_len (inp ! 2)) stride_w) counter)
                (\<lambda>out_w counter. (Inr (out_h, out_w), counter))))))"

subsection \<open>One broadcasting rule\<close>

lemma broadcast_dim_join:
  "ok (broadcast_dim lhs rhs a b) = dim_join a b" "ok (eval_broadcast_dim a b) = dim_join a b"
  "ok (checker_broadcast_dim a b) = dim_join a b"
  by (cases a; cases b; auto simp: dim_join_def eval_broadcast_dim_def)+

lemma broadcast_shapes_spec:
  "ok (broadcast_shapes lhs rhs) = broadcast dim_join (Known 1) lhs rhs"
  "eval_broadcast_shapes lhs rhs = broadcast dim_join (Known 1) lhs rhs"
  "checker_broadcast_shapes lhs rhs = broadcast dim_join (Known 1) lhs rhs"
  by (simp_all add: broadcast_shapes_def eval_broadcast_shapes_def checker_broadcast_shapes_def
      broadcast_loop_correct broadcast_dim_join)

lemma broadcast_dim_error: "broadcast_dim lhs rhs a b = Inl e \<Longrightarrow> e = BroadcastIncompatible lhs rhs"
  by (cases a; cases b) (auto split: if_splits)

lemma broadcast_shapes_error: "broadcast_shapes lhs rhs = Inl e \<Longrightarrow> e = BroadcastIncompatible lhs rhs"
  unfolding broadcast_shapes_def by (rule broadcast_loop_error [rotated]) (auto dest: broadcast_dim_error)

lemma broadcast_shapes_eq:
  "broadcast_shapes lhs rhs =
    (case broadcast dim_join (Known 1) lhs rhs of Some s \<Rightarrow> Inr s | None \<Rightarrow> Inl (BroadcastIncompatible lhs rhs))"
proof (cases "broadcast_shapes lhs rhs")
  case (Inl e)
  then show ?thesis
    using broadcast_shapes_error [OF Inl] broadcast_shapes_spec(1) [of lhs rhs] by (auto split: option.split)
next
  case (Inr s)
  then have "broadcast dim_join (Known 1) lhs rhs = Some s" using broadcast_shapes_spec(1) [of lhs rhs] by simp
  with Inr show ?thesis by simp
qed

subsection \<open>Axes\<close>

definition axis_ok :: "i32 \<Rightarrow> usize \<Rightarrow> bool" where
  "axis_ok axis rank \<longleftrightarrow> - int rank \<le> sint axis \<and> sint axis < int rank"

definition axis_pos :: "i32 \<Rightarrow> usize \<Rightarrow> usize" where
  "axis_pos axis rank = nat (sint axis mod int rank)"

lemma axis_pos_less: "axis_ok axis rank \<Longrightarrow> axis_pos axis rank < rank"
  by (auto simp: axis_ok_def axis_pos_def nat_less_iff)

lemma shape_normalize_axis_spec:
  assumes "rank < 2 ^ 31"
  shows "shape_normalize_axis axis rank = (if axis_ok axis rank then Inr (axis_pos axis rank) else Inl (AxisOutOfRange axis rank))"
  using normalize_axis_spec [OF assms, of axis]
  by (auto simp: shape_normalize_axis_def normalize_axis_def axis_index_def axis_ok_def axis_pos_def Let_def split: if_splits)

lemma normalize_axes_loop_spec:
  assumes "rank < 2 ^ 31" "set ns \<subseteq> seen" "seen \<subseteq> set ns"
  shows "normalize_axes_loop axes rank seen ns = Inr out \<longleftrightarrow>
    (\<forall>a \<in> set axes. axis_ok a rank) \<and> distinct (map (\<lambda>a. axis_pos a rank) axes) \<and>
    set (map (\<lambda>a. axis_pos a rank) axes) \<inter> seen = {} \<and> out = ns @ map (\<lambda>a. axis_pos a rank) axes"
  using assms(2,3)
proof (induction axes arbitrary: seen ns)
  case Nil
  then show ?case by auto
next
  case (Cons a axes)
  have "normalize_axes_loop axes rank (insert (axis_pos a rank) seen) (ns @ [axis_pos a rank]) = Inr out \<longleftrightarrow>
      (\<forall>a \<in> set axes. axis_ok a rank) \<and> distinct (map (\<lambda>a. axis_pos a rank) axes) \<and>
      set (map (\<lambda>a. axis_pos a rank) axes) \<inter> insert (axis_pos a rank) seen = {} \<and>
      out = (ns @ [axis_pos a rank]) @ map (\<lambda>a. axis_pos a rank) axes"
    by (rule Cons.IH) (use Cons.prems in auto)
  then show ?case by (auto simp: shape_normalize_axis_spec [OF assms(1)])
qed

lemma normalize_axes_list_spec:
  assumes "rank < 2 ^ 31"
  shows "normalize_axes_list axes rank = Inr out \<longleftrightarrow>
    (\<forall>a \<in> set axes. axis_ok a rank) \<and> distinct (map (\<lambda>a. axis_pos a rank) axes) \<and>
    out = sort (map (\<lambda>a. axis_pos a rank) axes)"
  by (auto simp: normalize_axes_list_def rbind_eq_Inr normalize_axes_loop_spec [OF assms])

lemma normalize_axes_list_bounds:
  "rank < 2 ^ 31 \<Longrightarrow> normalize_axes_list axes rank = Inr out \<Longrightarrow> set out \<subseteq> {..<rank}"
  by (auto simp: normalize_axes_list_spec axis_pos_less)

subsection \<open>Dropping and restoring axes\<close>

lemma drop_axes_snoc [simp]:
  "drop_axes A [] = []" "drop_axes A (s @ [d]) = drop_axes A s @ (if length s \<in> A then [] else [d])"
  by (simp_all add: drop_axes_def enumerate_append_eq)

lemma drop_axes_cong:
  "length s = length t \<Longrightarrow> \<forall>i < length s. i \<notin> A \<longrightarrow> s ! i = t ! i \<Longrightarrow> drop_axes A s = drop_axes A t"
proof (induction s arbitrary: t rule: rev_induct)
  case (snoc d s)
  then obtain t' e where t: "t = t' @ [e]" by (cases t rule: rev_cases) auto
  with snoc.prems have "drop_axes A s = drop_axes A t'" by (intro snoc.IH) (auto simp: nth_append split: if_splits)
  with snoc.prems t show ?case by (auto simp: nth_append)
qed simp

lemma drop_axes_all: "{..<length s} \<subseteq> A \<Longrightarrow> drop_axes A s = []"
  by (induction s rule: rev_induct) (auto simp: subset_iff)

lemma drop_axes_none: "A \<inter> {..<length s} = {} \<Longrightarrow> drop_axes A s = s"
  by (induction s rule: rev_induct) (auto simp: disjoint_iff less_Suc_eq)

lemma drop_axes_one: "i < length s \<Longrightarrow> drop_axes {i} s = remove_at i s"
proof (induction s rule: rev_induct)
  case (snoc d s)
  show ?case
  proof (cases "i = length s")
    case True
    have "drop_axes {length s} s = s" by (rule drop_axes_none) simp
    with True show ?thesis by (simp add: remove_at_def)
  next
    case False
    with snoc show ?thesis by (simp add: remove_at_def)
  qed
qed simp

lemma length_fold_set: "length (fold (\<lambda>a out. out[a := x]) as s) = length s"
  by (induction as arbitrary: s) auto

lemma nth_fold_set:
  "i < length s \<Longrightarrow> fold (\<lambda>a out. out[a := x]) as s ! i = (if i \<in> set as then x else s ! i)"
  by (induction as arbitrary: s) (auto simp: nth_list_update)

lemma squeeze_check_spec:
  "squeeze_check inp axes A = Inr B \<longleftrightarrow> (\<forall>a \<in> set axes. dim_at inp a = Some (Known 1)) \<and> B = A \<union> set axes"
  by (induction axes arbitrary: A) (auto split: if_splits)

text \<open>Reducing with \<open>keepdims\<close> and squeezing the same axes is reducing without.\<close>

lemma all_axes_ok:
  assumes "rank < 2 ^ 31"
  shows "normalize_axes_list (map of_nat [0..<nat (sint (of_nat rank :: i32))]) rank = Inr [0..<rank]"
proof -
  have r: "sint (of_nat rank :: i32) = int rank" by (rule axis_index_exact(1) [OF assms])
  have "axis_ok (of_nat k) rank \<and> axis_pos (of_nat k) rank = k" if "k < rank" for k
    using axis_index_exact(1) [of k] that assms by (simp add: axis_ok_def axis_pos_def)
  then have "map (\<lambda>a. axis_pos a rank) (map of_nat [0..<rank]) = [0..<rank]" "\<forall>k < rank. axis_ok (of_nat k) rank"
    by (auto intro!: map_idI)
  then show ?thesis unfolding normalize_axes_list_spec [OF assms] by (simp add: r)
qed

lemma reduce_squeeze:
  assumes "length inp < 2 ^ 31" "reduce_shape inp axes True = Inr t"
  shows "squeeze_shape t axes = reduce_shape inp axes False"
proof -
  let ?axes = "if axes = [] then map of_nat [0..<nat (sint (of_nat (length inp) :: i32))] else axes"
  obtain ns where ns: "normalize_axes_list ?axes (length inp) = Inr ns"
    and t: "t = fold (\<lambda>axis out. out[axis := Known 1]) ns inp"
    using assms(2) by (auto simp: reduce_shape_def Let_def rbind_eq_Inr)
  have len: "length t = length inp" by (simp add: t length_fold_set)
  have nth: "i < length inp \<Longrightarrow> t ! i = (if i \<in> set ns then Known 1 else inp ! i)" for i
    by (simp add: t nth_fold_set del: One_nat_def)
  have bnd: "set ns \<subseteq> {..<length inp}" using normalize_axes_list_bounds [OF assms(1) ns] .
  have red: "reduce_shape inp axes False = Inr (drop_axes (set ns) inp)"
    using ns by (simp add: reduce_shape_def Let_def)
  have same: "drop_axes (set ns) t = drop_axes (set ns) inp"
    by (rule drop_axes_cong) (use len nth in auto)
  show ?thesis
  proof (cases "axes = []")
    case True
    then have all: "ns = [0..<length inp]" using ns all_axes_ok [OF assms(1)] by simp
    let ?rm = "map fst (filter (\<lambda>(_, dim). dim = Known 1) (enumerate 0 t))"
    have "dim = Known 1" if "(i, dim) \<in> set (enumerate 0 t)" for i dim
      using that nth [of i] len all by (auto simp: in_set_enumerate_eq simp del: One_nat_def)
    then have "filter (\<lambda>(_, dim). dim = Known 1) (enumerate 0 t) = enumerate 0 t" by (auto intro!: filter_True)
    then have "set ?rm = {..<length inp}" using len by (simp only: list.set_map [symmetric] map_fst_enumerate) auto
    then have "squeeze_shape t axes = Inr (drop_axes {..<length inp} t)"
      using True nth all len by (auto simp: squeeze_shape_def rbind_eq_Inr squeeze_check_spec dim_at_def)
    with red all len show ?thesis by (simp add: drop_axes_all atLeast0LessThan)
  next
    case False
    have "squeeze_check t ns {} = Inr (set ns)"
      using bnd nth len by (auto simp: squeeze_check_spec dim_at_def)
    with False ns len red same show ?thesis by (simp add: squeeze_shape_def)
  qed
qed

text \<open>A new axis of extent one can be squeezed or indexed away.\<close>

lemma expand_dims_spec:
  assumes "length inp + 1 < 2 ^ 31" "expand_dims_shape inp axis = Inr t"
  shows "axis_ok axis (length inp + 1) \<and> t = insert_at (axis_pos axis (length inp + 1)) (Known 1) inp"
proof -
  let ?r = "length inp + 1"
  let ?idx = "axis_index axis (of_nat ?r)"
  have idx: "sint ?idx = (if sint axis < 0 then int ?r + sint axis else sint axis)" "sint (of_nat ?r :: i32) = int ?r"
    using axis_index_exact [OF assms(1)] by simp_all
  have r: "0 \<le> sint ?idx" "sint ?idx < int ?r" and t: "t = insert_at (nat (sint ?idx)) (Known 1) inp"
    using assms(2) idx(2) by (auto simp: expand_dims_shape_def Let_def axis_index_def split: if_splits)
  have "sint ?idx = sint axis mod int ?r"
    using r idx(1) mod_pos_pos_trivial [of "int ?r + sint axis" "int ?r"] mod_pos_pos_trivial [of "sint axis" "int ?r"]
    by (cases "sint axis < 0") auto
  with t have "t = insert_at (axis_pos axis ?r) (Known 1) inp" unfolding axis_pos_def by presburger
  moreover have "axis_ok axis ?r" using r idx(1) unfolding axis_ok_def by (cases "sint axis < 0") simp_all
  ultimately show ?thesis by blast
qed

lemma insert_at_laws:
  assumes "i \<le> length xs"
  shows "length (insert_at i x xs) = length xs + 1" "insert_at i x xs ! i = x" "remove_at i (insert_at i x xs) = xs"
  using assms by (auto simp: insert_at_def remove_at_def nth_append)

lemma expand_dims_inverse:
  assumes "length inp + 1 < 2 ^ 31" "expand_dims_shape inp axis = Inr t"
  shows "squeeze_shape t [axis] = Inr inp" "index_shape t axis = Inr inp"
proof -
  let ?i = "axis_pos axis (length inp + 1)"
  have a: "axis_ok axis (length inp + 1)" and t: "t = insert_at ?i (Known 1) inp" using expand_dims_spec [OF assms] by auto
  then have i: "?i \<le> length inp" using axis_pos_less [OF a] by simp
  note laws = insert_at_laws [OF i, of "Known 1", folded t]
  have n: "normalize_axes_list [axis] (length t) = Inr [?i]"
    using a assms(1) laws(1) by (simp add: normalize_axes_list_spec)
  have "squeeze_check t [?i] {} = Inr {?i}" using laws i by (simp add: squeeze_check_spec dim_at_def)
  with n laws i show "squeeze_shape t [axis] = Inr inp" by (simp add: squeeze_shape_def drop_axes_one)
  show "index_shape t axis = Inr inp"
    using a laws assms(1) by (auto simp: index_shape_def shape_normalize_axis_spec)
qed

subsection \<open>Transposition\<close>

lemma first_duplicate_None: "first_duplicate perm seen = None \<longleftrightarrow> distinct perm \<and> set perm \<inter> seen = {}"
  by (induction perm arbitrary: seen) auto

lemma transpose_shape_spec:
  "transpose_shape inp perm = Some (Inr t) \<longleftrightarrow> is_permutation perm (length inp) \<and> t = map ((!) inp) perm"
  "transpose_shape inp perm \<noteq> None"
proof -
  have below: "perm \<noteq> [] \<and> Max (set perm) \<ge> length inp \<longleftrightarrow> \<not> set perm \<subseteq> {..<length inp}"
  proof
    assume "perm \<noteq> [] \<and> Max (set perm) \<ge> length inp"
    moreover from this have "Max (set perm) \<in> set perm" by (intro Max_in) simp_all
    ultimately show "\<not> set perm \<subseteq> {..<length inp}" by (meson lessThan_iff not_less subsetD)
  next
    assume "\<not> set perm \<subseteq> {..<length inp}"
    then obtain a where "a \<in> set perm" "length inp \<le> a" by (meson lessThan_iff not_less subsetI)
    moreover from this have "a \<le> Max (set perm)" by (intro Max_ge) simp_all
    ultimately show "perm \<noteq> [] \<and> Max (set perm) \<ge> length inp" using le_trans by fastforce
  qed
  show "transpose_shape inp perm = Some (Inr t) \<longleftrightarrow> is_permutation perm (length inp) \<and> t = map ((!) inp) perm"
  proof (cases "first_duplicate perm {}")
    case None
    then have "distinct perm" by (simp add: first_duplicate_None)
    with None show ?thesis
      unfolding transpose_shape_def below by (auto simp: permute_shape_spec is_permutation_def dest: is_permutationI)
  next
    case (Some a)
    then have "\<not> distinct perm" using first_duplicate_None [of perm "{}"] by auto
    with Some show ?thesis unfolding transpose_shape_def below by (auto simp: is_permutation_def)
  qed
  show "transpose_shape inp perm \<noteq> None"
    unfolding transpose_shape_def below by (auto simp: permute_shape_spec split: option.splits)
qed

lemma transpose_inverse:
  assumes "transpose_shape inp perm = Some (Inr t)"
  shows "\<exists>r. invert_permutation perm = Some r \<and> transpose_shape t r = Some (Inr inp)"
proof -
  have p: "is_permutation perm (length inp)" and t: "t = map ((!) inp) perm"
    using assms by (simp_all add: transpose_shape_spec)
  obtain r where r: "invert_permutation perm = Some r" "is_permutation r (length inp)"
    using invert_permutation_spec [OF p] .
  have len: "length t = length inp" using p t by (simp add: is_permutation_def)
  have "permute_shape inp perm = Some t" using p t by (simp add: permute_shape_spec is_permutation_def)
  from permute_invert [OF p this r(1)] have "map ((!) t) r = inp"
    using r(2) len by (simp add: permute_shape_spec is_permutation_def)
  with r(2) len have "transpose_shape t r = Some (Inr inp)" by (simp add: transpose_shape_spec(1))
  with r(1) show ?thesis by blast
qed

subsection \<open>Element counts\<close>

fun element_count :: "shape_dim list \<Rightarrow> usize option" where
  "element_count [] = Some 1"
| "element_count (Known n # s) = map_option ((*) n) (element_count s)"
| "element_count (Sym _ # s) = None"

lemma known_product_loop_spec: "known_product_loop s a = Some p \<Longrightarrow> \<exists>c. element_count s = Some c \<and> p = a * c"
  by (induction s a rule: known_product_loop.induct) (auto split: if_splits)

lemma known_product_sound: "known_product s = Some p \<Longrightarrow> element_count s = Some p"
  using known_product_loop_spec [of s 1 p] by (auto simp: known_product_def)

lemma reshape_spec:
  "reshape_shape inp new = Inr out \<longleftrightarrow>
    out = new \<and> (\<forall>p q. known_product inp = Some p \<longrightarrow> known_product new = Some q \<longrightarrow> p = q)"
  by (auto simp: reshape_shape_def split: option.splits)

subsection \<open>Slices\<close>

lemma count_steps:
  fixes d t :: int
  assumes "0 < t" "0 < d"
  shows "int (card {k :: nat. int k * t < d}) = (d + t - 1) div t"
proof -
  let ?q = "(d + t - 1) div t"
  have q: "0 < ?q" using assms by (simp add: pos_imp_zdiv_pos_iff)
  have "int k * t < d \<longleftrightarrow> int k < ?q" for k
  proof -
    have x: "?q * t \<le> d + t - 1" "d + t - 1 < ?q * t + t"
      using div_mult_mod_eq [of "d + t - 1" t] pos_mod_sign [OF assms(1), of "d + t - 1"]
        pos_mod_bound [OF assms(1), of "d + t - 1"] by linarith+
    show ?thesis
    proof (cases "int k < ?q")
      case True
      then have "(int k + 1) * t \<le> ?q * t" using assms(1) by (intro mult_right_mono) auto
      with x(1) have "int k * t < d" by (simp add: distrib_right)
      with True show ?thesis by simp
    next
      case False
      then have "?q * t \<le> int k * t" using assms(1) by (intro mult_right_mono) auto
      with x(2) False show ?thesis by simp
    qed
  qed
  then have "{k :: nat. int k * t < d} = {..<nat ?q}" using q by (simp only: set_eq_iff mem_Collect_eq lessThan_iff zless_nat_eq_int_zless) simp
  then show ?thesis using q by simp
qed

lemma wrap64_id: "- (2 ^ 63) \<le> v \<Longrightarrow> v < 2 ^ 63 \<Longrightarrow> wrap64 v = v"
  unfolding wrap64_def by (rule sint_of_fits) (simp add: i64_fits_def)

lemma sint_i32_bounds: "- (2 ^ 31) \<le> sint (v :: i32)" "sint (v :: i32) < 2 ^ 31"
  using sint_ge [of v] sint_lt [of v] by simp_all

text \<open>The positions a slice visits, as Python's \<open>slice.indices\<close> defines them.\<close>

definition slice_start :: "int \<Rightarrow> int \<Rightarrow> int \<Rightarrow> int" where
  "slice_start len step v =
     (let v = (if v < 0 then v + len else v)
      in if step > 0 then max 0 (min v len) else max (-1) (min v (len - 1)))"

definition slice_positions :: "int \<Rightarrow> int \<Rightarrow> int \<Rightarrow> int \<Rightarrow> int set" where
  "slice_positions len start ennd step =
     {p. \<exists>k :: nat. p = slice_start len step start + int k * step \<and>
        (if step > 0 then p < slice_start len step ennd else p > slice_start len step ennd)}"

lemma clamp_up_exact:
  assumes "0 \<le> len" "len < 2 ^ 62"
  shows "clamp_up len (sint (v :: i32)) = (let v = (if sint v < 0 then sint v + len else sint v) in max 0 (min v len))"
  using assms sint_i32_bounds [of v] by (auto simp: clamp_up_def Let_def wrap64_id)

lemma clamp_down_exact:
  assumes "0 < len" "len < 2 ^ 62"
  shows "clamp_down len (sint (v :: i32)) = (let v = (if sint v < 0 then sint v + len else sint v) in max (-1) (min v (len - 1)))"
  using assms sint_i32_bounds [of v] by (auto simp: clamp_down_def Let_def wrap64_id)

lemma clamp_slice_start:
  assumes "0 \<le> len" "len < 2 ^ 62"
  shows "step > 0 \<Longrightarrow> clamp_up len (sint (v :: i32)) = slice_start len step (sint v)"
    and "step < 0 \<Longrightarrow> 0 < len \<Longrightarrow> clamp_down len (sint (v :: i32)) = slice_start len step (sint v)"
  using clamp_up_exact [OF assms, of v] clamp_down_exact [OF _ assms(2), of v] by (simp_all add: slice_start_def)

lemma card_slice_positions:
  assumes "step \<noteq> 0"
  shows "int (card (slice_positions len start ennd step)) =
    (let d = (if step > 0 then slice_start len step ennd - slice_start len step start
              else slice_start len step start - slice_start len step ennd)
     in if d \<le> 0 then 0 else (d + \<bar>step\<bar> - 1) div \<bar>step\<bar>)"
proof -
  let ?s = "slice_start len step start" and ?e = "slice_start len step ennd"
  let ?d = "if step > 0 then ?e - ?s else ?s - ?e"
  have "slice_positions len start ennd step = (\<lambda>k. ?s + int k * step) ` {k. int k * \<bar>step\<bar> < ?d}"
  proof -
    have "(if step > 0 then ?s + int k * step < ?e else ?s + int k * step > ?e) \<longleftrightarrow> int k * \<bar>step\<bar> < ?d" for k
      using assms by (cases "step > 0") (auto simp: abs_if algebra_simps)
    then show ?thesis unfolding slice_positions_def by (auto simp: image_iff)
  qed
  moreover have "inj_on (\<lambda>k. ?s + int k * step) {k. int k * \<bar>step\<bar> < ?d}" using assms by (auto intro: inj_onI)
  ultimately have c: "card (slice_positions len start ennd step) = card {k. int k * \<bar>step\<bar> < ?d}"
    by (simp add: card_image)
  show ?thesis
  proof (cases "?d \<le> 0")
    case True
    have "0 \<le> int k * \<bar>step\<bar>" for k by simp
    with True have "{k. int k * \<bar>step\<bar> < ?d} = {}" by (simp only: Collect_empty_eq not_less) (meson order_trans)
    with c True show ?thesis by simp
  next
    case False
    with count_steps [of "\<bar>step\<bar>" ?d] assms c show ?thesis by (simp only: Let_def if_False)
  qed
qed

lemma slice_start_range:
  assumes "0 \<le> len"
  shows "step > 0 \<Longrightarrow> 0 \<le> slice_start len step v \<and> slice_start len step v \<le> len"
    and "\<not> step > 0 \<Longrightarrow> 0 < len \<Longrightarrow> -1 \<le> slice_start len step v \<and> slice_start len step v < len"
  using assms by (auto simp: slice_start_def Let_def)

lemma div_le_dividend_int: "0 \<le> x \<Longrightarrow> 0 < t \<Longrightarrow> x div t \<le> (x :: int)"
  using zdiv_mono2 [of x 1 t] by simp

lemma slice_count_exact:
  assumes "0 < d" "d < 2 ^ 62" "0 < t" "t \<le> 2 ^ 31"
  shows "as_usize (wrap64 (wrap64 (wrap64 d + t) - 1) sdiv t) = nat ((d + t - 1) div t)"
proof -
  have q: "0 \<le> (d + t - 1) div t" "(d + t - 1) div t \<le> d + t - 1"
    using assms div_le_dividend_int [of "d + t - 1" t] by (auto simp: pos_imp_zdiv_nonneg_iff)
  have "wrap64 (wrap64 (wrap64 d + t) - 1) = d + t - 1" using assms by (simp add: wrap64_id)
  moreover have "(d + t - 1) sdiv t = (d + t - 1) div t" using assms by (simp add: signed_divide_int_def)
  ultimately show ?thesis using q assms by (simp add: as_usize_def)
qed

lemma slice_len_with_step_spec:
  assumes "len < 2 ^ 62" "step \<noteq> 0"
  shows "slice_len_with_step (Some len) start ennd step =
    Some (card (slice_positions (int len) (sint start) (sint ennd) (sint step)))"
proof -
  have s0: "sint step \<noteq> 0" using assms(2) by (metis signed_0 signed_word_eqI)
  have wl: "wrap64 (int len) = int len" using assms(1) by (simp add: wrap64_id)
  have st: "- (2 ^ 31) \<le> sint step" "sint step < 2 ^ 31" by (rule sint_i32_bounds)+
  note c = card_slice_positions [OF s0, of "int len" "sint start" "sint ennd"]
  have lb: "0 \<le> int len" "int len < 2 ^ 62" using assms(1) by simp_all
  show ?thesis
  proof (cases "sint step > 0")
    case True
    let ?s = "slice_start (int len) (sint step) (sint start)" and ?e = "slice_start (int len) (sint step) (sint ennd)"
    have b: "0 \<le> ?s" "?e \<le> int len" using slice_start_range(1) [OF lb(1) True] by blast+
    have "slice_len_with_step (Some len) start ennd step =
        (if ?s \<ge> ?e then Some 0 else Some (as_usize (wrap64 (wrap64 (wrap64 (?e - ?s) + sint step) - 1) sdiv sint step)))"
      using True assms(2) by (simp add: slice_len_with_step_def Let_def wl clamp_slice_start(1) [OF lb True])
    also have "\<dots> = Some (card (slice_positions (int len) (sint start) (sint ennd) (sint step)))"
      using c True slice_count_exact [of "?e - ?s" "sint step"] b lb st by (auto simp: Let_def)
    finally show ?thesis .
  next
    case False
    then have neg: "sint step < 0" using s0 by simp
    let ?s = "slice_start (int len) (sint step) (sint start)" and ?e = "slice_start (int len) (sint step) (sint ennd)"
    show ?thesis
    proof (cases "len = 0")
      case True
      then have "?s = -1" "?e = -1" using False by (auto simp: slice_start_def)
      with c True False assms(2) show ?thesis by (simp add: slice_len_with_step_def Let_def)
    next
      case l: False
      have b: "-1 \<le> ?e" "?s < int len" using slice_start_range(2) [OF lb(1) False] l by simp_all
      have "slice_len_with_step (Some len) start ennd step =
          (if ?s \<le> ?e then Some 0 else Some (as_usize (wrap64 (wrap64 (wrap64 (?s - ?e) + (- sint step)) - 1) sdiv (- sint step))))"
        using False l assms(2) by (simp add: slice_len_with_step_def Let_def wl clamp_slice_start(2) [OF lb neg])
      also have "\<dots> = Some (card (slice_positions (int len) (sint start) (sint ennd) (sint step)))"
        using c False neg slice_count_exact [of "?s - ?e" "- sint step"] b lb st by (auto simp: Let_def)
      finally show ?thesis .
    qed
  qed
qed

lemma slice_positions_range:
  assumes "0 \<le> len" "step \<noteq> 0" "p \<in> slice_positions len start ennd step"
  shows "0 \<le> p \<and> p < len"
proof -
  obtain k :: nat where p: "p = slice_start len step start + int k * step"
    "if step > 0 then p < slice_start len step ennd else p > slice_start len step ennd"
    using assms(3) by (auto simp: slice_positions_def)
  show ?thesis
  proof (cases "step > 0")
    case True
    then have "0 \<le> int k * step" by simp
    with p True slice_start_range(1) [OF assms(1) True, of start] slice_start_range(1) [OF assms(1) True, of ennd]
    show ?thesis by auto
  next
    case False
    then have k: "int k * step \<le> 0" using mult_nonneg_nonpos [of "int k" step] by simp
    show ?thesis
    proof (cases "len = 0")
      case True
      then have "slice_start len step v = -1" for v using False by (auto simp: slice_start_def)
      with p False k show ?thesis by simp
    next
      case l: False
      with assms(1) have l: "0 < len" by simp
      show ?thesis
        using p False k slice_start_range(2) [OF assms(1) False l, of start] slice_start_range(2) [OF assms(1) False l, of ennd]
        by auto
    qed
  qed
qed

lemma card_slice_le: "0 \<le> len \<Longrightarrow> step \<noteq> 0 \<Longrightarrow> card (slice_positions len start ennd step) \<le> nat len"
proof -
  assume "0 \<le> len" "step \<noteq> 0"
  then have "slice_positions len start ennd step \<subseteq> {0..<len}" using slice_positions_range by fastforce
  then have "card (slice_positions len start ennd step) \<le> card {0..<len}" by (intro card_mono) simp_all
  then show ?thesis by simp
qed

text \<open>The plain slice is the strided one with step 1 as long as it stays inside the extent.\<close>

lemma slice_len_exact:
  assumes "0 \<le> sint start" "sint start \<le> sint ennd"
  shows "slice_len start ennd = Some (nat (sint ennd - sint start))"
proof -
  have "sint (ennd - start) = sint ennd - sint start"
    using assms sint_i32_bounds [of ennd] sint_i32_bounds [of start]
    by (simp add: sint_word_ariths(2) signed_take_bit_int_eq_self)
  moreover have "sint ennd - sint start < 2 ^ 64" using assms sint_i32_bounds [of ennd] by simp
  ultimately show ?thesis using assms by (simp add: slice_len_def)
qed

lemma slice_stride_one:
  assumes "0 \<le> sint start" "sint start \<le> sint ennd" "sint ennd \<le> int len" "len < 2 ^ 62"
  shows "slice_len_with_step (Some len) start ennd 1 = Some (nat (sint ennd - sint start))"
proof -
  have "slice_start (int len) 1 (sint start) = sint start" "slice_start (int len) 1 (sint ennd) = sint ennd"
    using assms by (auto simp: slice_start_def)
  then have "int (card (slice_positions (int len) (sint start) (sint ennd) 1)) = sint ennd - sint start"
    using card_slice_positions [of 1 "int len" "sint start" "sint ennd"] assms(2) by (simp add: Let_def)
  then show ?thesis using slice_len_with_step_spec [OF assms(4), of 1 start ennd] by simp
qed

lemma slice_agrees:
  assumes "length inp < 2 ^ 31" "0 \<le> sint start" "sint start \<le> sint ennd" "axis_ok axis (length inp)"
    and "inp ! axis_pos axis (length inp) = Known len" "sint ennd \<le> int len" "len < 2 ^ 62"
  shows "slice_shape inp axis start ennd c = slice_stride_shape inp axis start ennd 1 c"
  using assms slice_len_exact [OF assms(2,3)] slice_stride_one [OF assms(2,3,6,7)]
  by (simp add: slice_shape_def slice_stride_shape_def shape_normalize_axis_spec dim_len_def)

subsection \<open>Fresh symbols\<close>

lemma show_nat_inj: "show_nat m = show_nat n \<Longrightarrow> m = n"
  by (metis digits_val_show_nat option.inject)

lemma fresh_symbol_inj: "fst (fresh_symbol prefix c) = fst (fresh_symbol prefix c') \<Longrightarrow> c = c'"
  by (auto simp: fresh_symbol_def simp del: show_nat.simps dest: show_nat_inj)

subsection \<open>Convolutions\<close>

lemma check_channels_Known: "check_channels (Known a) (Known b) = None \<longleftrightarrow> a = b \<and> 0 < a"
  by (auto simp: check_channels_def)

text \<open>The static case: the number of window positions per axis, and no symbol is made.\<close>

lemma conv_valid_static: "conv_output_dim_valid (Some h) (Some k) s = Inr r \<Longrightarrow> \<exists>v. r = Some v"
  by (auto simp: conv_output_dim_valid_def split: if_splits)

lemma known_or_fresh_valid:
  "known_or_fresh prefix (conv_output_dim_valid (Some h) (Some k) s) ctr = (Inr d, ctr') \<Longrightarrow>
    d = Known (card {p. p * s + k \<le> h}) \<and> ctr' = ctr"
proof -
  assume a: "known_or_fresh prefix (conv_output_dim_valid (Some h) (Some k) s) ctr = (Inr d, ctr')"
  then obtain v where v: "conv_output_dim_valid (Some h) (Some k) s = Inr (Some v)"
    using conv_valid_static [of h k s] by (cases "conv_output_dim_valid (Some h) (Some k) s") (force simp: known_or_fresh_def)+
  with a have "d = Known v" "ctr' = ctr" by (simp_all add: known_or_fresh_def)
  with conv_valid_windows [OF v] show ?thesis by simp
qed

lemma bind_dim_Inr: "bind_dim m f = (Inr y, c') \<longleftrightarrow> (\<exists>x c. m = (Inr x, c) \<and> f x c = (Inr y, c'))"
  by (cases m; cases "fst m") (auto simp: bind_dim_def)

lemma conv2d_valid_eq:
  "conv2d_shape [n, Known h, Known w, Known c] [Known kh, Known kw, Known c', f] sh sw Valid ctr =
    (case check_channels (Known c) (Known c') of
       Some e \<Rightarrow> (Inl e, ctr)
     | None \<Rightarrow>
         bind_dim (known_or_fresh ''_conv'' (conv_output_dim_valid (Some h) (Some kh) sh) ctr) (\<lambda>out_h ctr.
         bind_dim (known_or_fresh ''_conv'' (conv_output_dim_valid (Some w) (Some kw) sw) ctr) (\<lambda>out_w ctr.
           (Inr (out_h, out_w), ctr))))"
  by (simp add: conv2d_shape_def dim_len_def cong: option.case_cong)

lemma conv2d_valid:
  assumes "conv2d_shape [n, Known h, Known w, Known c] [Known kh, Known kw, Known c', f] sh sw Valid ctr = (Inr (oh, ow), ctr')"
  shows "oh = Known (card {p. p * sh + kh \<le> h}) \<and> ow = Known (card {p. p * sw + kw \<le> w}) \<and> c = c' \<and> ctr' = ctr"
proof (cases "check_channels (Known c) (Known c')")
  case None
  let ?v = "\<lambda>a k s ctr. known_or_fresh ''_conv'' (conv_output_dim_valid (Some a) (Some k) s) ctr"
  obtain oh' ctr1 ow' ctr2 where v: "?v h kh sh ctr = (Inr oh', ctr1)" "?v w kw sw ctr1 = (Inr ow', ctr2)"
    and e: "oh' = oh" "ow' = ow" "ctr2 = ctr'"
    using assms unfolding conv2d_valid_eq None option.case bind_dim_Inr by blast
  show ?thesis
    using known_or_fresh_valid [OF v(1)] known_or_fresh_valid [OF v(2)] check_channels_Known [of c c'] None e by simp
next
  case (Some e)
  then show ?thesis using assms unfolding conv2d_valid_eq by simp
qed

text \<open>With \<open>Same\<close> padding a kernel larger than its input is refused, although the extent is defined.\<close>

lemma conv2d_same_large_kernel:
  assumes "0 < h" "h < kh" "0 < sh" "0 < c"
  shows "conv2d_shape [n, Known h, w, Known c] [Known kh, kw, Known c, f] sh sw Same ctr = (Inl ConvKernelEmpty, ctr)"
    and "conv_output_dim_same (Some h) sh = Inr (Some (card {p. p * sh < h}))"
proof -
  show "conv2d_shape [n, Known h, w, Known c] [Known kh, kw, Known c, f] sh sw Same ctr = (Inl ConvKernelEmpty, ctr)"
    using assms by (simp add: conv2d_shape_def check_channels_def dim_len_def bind_dim_def known_or_fresh_def
        conv_output_dim_valid_def numeral_eq_Suc)
  have "conv_output_dim_same (Some h) sh = Inr (Some (div_ceil h sh))"
    using assms by (simp add: conv_output_dim_same_def)
  with conv_same_windows [OF this] show "conv_output_dim_same (Some h) sh = Inr (Some (card {p. p * sh < h}))" by simp
qed

end
