(* ===== verification/Shape_Engine.thy ===== *)
theory Shape_Engine
  imports Shapes
begin

text \<open>
  \<^verbatim>\<open>src/shapes/engine.rs\<close>: shape inference of the Core v1 operators over concrete extents.
\<close>

type_synonym shape = "usize list"

datatype shape_rule_kind = ElementwiseUnary | ElementwiseBinary | ReduceAll | MatMul2D

datatype engine_error_kind =
    UnknownOp
  | EngineRankMismatch string shape "shape option"
  | BroadcastError shape shape

record engine_error =
  ee_op :: string
  ee_kind :: engine_error_kind

definition rule_for_op :: "string \<Rightarrow> shape_rule_kind option" where
  "rule_for_op op =
     (if op \<in> {''tensor.relu'', ''tensor.neg'', ''tensor.exp'', ''tensor.log''} then Some ElementwiseUnary
      else if op \<in> {''tensor.add'', ''tensor.sub'', ''tensor.mul'', ''tensor.div''} then Some ElementwiseBinary
      else if op = ''tensor.sum_all'' then Some ReduceAll
      else if op = ''tensor.matmul'' then Some MatMul2D
      else None)"

definition is_elementwise :: "string \<Rightarrow> bool" where
  "is_elementwise op = (rule_for_op op = Some ElementwiseUnary \<or> rule_for_op op = Some ElementwiseBinary)"

text \<open>\<open>usize::wrapping_sub\<close> and the bounds-checked \<open>slice::get\<close>.\<close>

definition wrapping_sub :: "usize \<Rightarrow> usize \<Rightarrow> usize" where
  "wrapping_sub a b = (a + 2 ^ 64 - b) mod 2 ^ 64"

definition get_or_one :: "shape \<Rightarrow> usize \<Rightarrow> usize" where
  "get_or_one s i = (if i < length s then s ! i else 1)"

fun engine_broadcast_loop :: "shape \<Rightarrow> shape \<Rightarrow> usize list \<Rightarrow> shape \<Rightarrow> engine_error_kind + shape" where
  "engine_broadcast_loop lhs rhs [] result = Inr (rev result)"
| "engine_broadcast_loop lhs rhs (i # is) result =
     (let a = get_or_one lhs (wrapping_sub (wrapping_sub (length lhs) 1) i);
          b = get_or_one rhs (wrapping_sub (wrapping_sub (length rhs) 1) i)
      in if a = b \<or> a = 1 then engine_broadcast_loop lhs rhs is (result @ [b])
         else if b = 1 then engine_broadcast_loop lhs rhs is (result @ [a])
         else Inl (BroadcastError lhs rhs))"

definition engine_broadcast_shapes :: "shape \<Rightarrow> shape \<Rightarrow> engine_error_kind + shape" where
  "engine_broadcast_shapes lhs rhs = engine_broadcast_loop lhs rhs [0..<max (length lhs) (length rhs)] []"

definition input_or_scalar :: "shape list \<Rightarrow> nat \<Rightarrow> shape" where
  "input_or_scalar inputs k = (if k < length inputs then inputs ! k else [])"

definition infer_output_shape :: "string \<Rightarrow> shape list \<Rightarrow> engine_error + shape" where
  "infer_output_shape op inputs =
     (case rule_for_op op of
        None \<Rightarrow> Inl \<lparr>ee_op = op, ee_kind = UnknownOp\<rparr>
      | Some ElementwiseUnary \<Rightarrow>
          (case inputs of
             [] \<Rightarrow> Inl \<lparr>ee_op = op, ee_kind = EngineRankMismatch ''one input tensor'' [] None\<rparr>
           | lhs # _ \<Rightarrow> Inr lhs)
      | Some ElementwiseBinary \<Rightarrow>
          map_err (\<lambda>kind. \<lparr>ee_op = op, ee_kind = kind\<rparr>)
            (engine_broadcast_shapes (input_or_scalar inputs 0) (input_or_scalar inputs 1))
      | Some ReduceAll \<Rightarrow> Inr []
      | Some MatMul2D \<Rightarrow>
          (let lhs = input_or_scalar inputs 0; rhs = input_or_scalar inputs 1 in
           if length lhs \<noteq> 2 \<or> length rhs \<noteq> 2
           then Inl \<lparr>ee_op = op, ee_kind = EngineRankMismatch ''two rank-2 tensors'' lhs (Some rhs)\<rparr>
           else if lhs ! 1 \<noteq> rhs ! 0
           then Inl \<lparr>ee_op = op,
             ee_kind = EngineRankMismatch ''matmul requires lhs.shape[1] == rhs.shape[0]'' lhs (Some rhs)\<rparr>
           else Inr [lhs ! 0, rhs ! 1]))"

subsection \<open>Broadcasting\<close>

definition size_join :: "usize \<Rightarrow> usize \<Rightarrow> usize option" where
  "size_join a b = (if a = b \<or> a = 1 then Some b else if b = 1 then Some a else None)"

interpretation sizes: extent_join size_join 1
  by unfold_locales (auto simp: size_join_def)

lemma wrapping_sub_ge: "b \<le> a \<Longrightarrow> a < 2 ^ 64 \<Longrightarrow> wrapping_sub a b = a - b"
proof -
  assume ab: "b \<le> a" "a < 2 ^ 64"
  then have "a + 2 ^ 64 - b = (a - b) + 2 ^ 64" by simp
  then have "wrapping_sub a b = (a - b) mod 2 ^ 64" unfolding wrapping_sub_def by (simp only: mod_add_self2)
  with ab show ?thesis by simp
qed

lemma wrapping_sub_less: "a < b \<Longrightarrow> b \<le> 2 ^ 64 \<Longrightarrow> wrapping_sub a b = a + 2 ^ 64 - b"
  unfolding wrapping_sub_def by (rule mod_less) simp

lemma from_right:
  assumes "length s < 2 ^ 63" "i < 2 ^ 63"
  shows "get_or_one s (wrapping_sub (wrapping_sub (length s) 1) i) = (if i < length s then rev s ! i else 1)"
proof (cases "length s = 0")
  case False
  then have w: "wrapping_sub (length s) 1 = length s - 1" using assms(1) by (intro wrapping_sub_ge) (simp_all add: Suc_le_eq)
  show ?thesis
  proof (cases "i < length s")
    case True
    then have "wrapping_sub (length s - 1) i = length s - Suc i" using assms(1) by (subst wrapping_sub_ge) simp_all
    moreover have "length s - Suc i < length s" using True by linarith
    ultimately show ?thesis using True w by (simp add: get_or_one_def rev_nth)
  next
    case out: False
    then have "wrapping_sub (length s - 1) i = length s - 1 + 2 ^ 64 - i"
      using False assms(2) by (intro wrapping_sub_less) (linarith, simp)
    moreover have "length s \<le> length s - 1 + 2 ^ 64 - i" using assms(2) False by simp
    ultimately show ?thesis using out w by (simp add: get_or_one_def)
  qed
qed (simp add: get_or_one_def)

lemma align_pad:
  "align size_join 1 (drop i xs) (drop i ys) =
    (if i < max (length xs) (length ys)
     then do { d \<leftarrow> size_join (if i < length xs then xs ! i else 1) (if i < length ys then ys ! i else 1);
               ds \<leftarrow> align size_join 1 (drop (Suc i) xs) (drop (Suc i) ys); Some (d # ds) }
     else Some [])"
  by (cases "i < length xs"; cases "i < length ys")
     (simp_all add: Cons_nth_drop_Suc [symmetric] not_less less_max_iff_disj)

lemma engine_loop_align:
  assumes "length lhs < 2 ^ 63" "length rhs < 2 ^ 63" "i \<le> max (length lhs) (length rhs)"
  shows "engine_broadcast_loop lhs rhs [i..<max (length lhs) (length rhs)] out =
    (case align size_join 1 (drop i (rev lhs)) (drop i (rev rhs)) of
       Some ds \<Rightarrow> Inr (rev (out @ ds)) | None \<Rightarrow> Inl (BroadcastError lhs rhs))"
  using assms(3)
proof (induction "max (length lhs) (length rhs) - i" arbitrary: i out)
  case 0
  then show ?case using align_pad [of i "rev lhs" "rev rhs"] by simp
next
  case (Suc k)
  let ?n = "max (length lhs) (length rhs)"
  have i: "i < ?n" using Suc.hyps(2) by linarith
  then have "i < 2 ^ 63" using assms(1,2) by linarith
  note g = from_right [OF assms(1) this] from_right [OF assms(2) this]
  let ?a = "if i < length lhs then rev lhs ! i else 1" and ?b = "if i < length rhs then rev rhs ! i else 1"
  have IH: "engine_broadcast_loop lhs rhs [Suc i..<?n] out' =
    (case align size_join 1 (drop (Suc i) (rev lhs)) (drop (Suc i) (rev rhs)) of
       Some ds \<Rightarrow> Inr (rev (out' @ ds)) | None \<Rightarrow> Inl (BroadcastError lhs rhs))" for out'
    using Suc.hyps(1) [of "Suc i" out'] Suc.hyps(2) i by simp
  have up: "[i..<?n] = i # [Suc i..<?n]" using i by (rule upt_conv_Cons)
  have al: "align size_join 1 (drop i (rev lhs)) (drop i (rev rhs)) =
      do { d \<leftarrow> size_join ?a ?b; ds \<leftarrow> align size_join 1 (drop (Suc i) (rev lhs)) (drop (Suc i) (rev rhs)); Some (d # ds) }"
    using align_pad [of i "rev lhs" "rev rhs"] i by simp
  show ?case unfolding up al engine_broadcast_loop.simps g Let_def IH
    by (auto simp: size_join_def split: option.split)
qed

lemma engine_broadcast_eq:
  assumes "length lhs < 2 ^ 63" "length rhs < 2 ^ 63"
  shows "engine_broadcast_shapes lhs rhs =
    (case broadcast size_join 1 lhs rhs of Some s \<Rightarrow> Inr s | None \<Rightarrow> Inl (BroadcastError lhs rhs))"
  using engine_loop_align [OF assms, of 0 "[]"]
  by (simp add: engine_broadcast_shapes_def broadcast_def split: option.split)

text \<open>Concrete extents are the symbolic rule restricted to known ones.\<close>

lemma align_Known:
  "align dim_join (Known 1) (map Known xs) (map Known ys) = map_option (map Known) (align size_join 1 xs ys)"
proof -
  have join: "dim_join (Known a) (Known b) = map_option Known (size_join a b)" for a b
    by (auto simp: dim_join_def size_join_def)
  show ?thesis
    by (induction size_join "1 :: usize" xs ys rule: align.induct)
       (auto simp: join option.map_comp comp_def map_option_case simp del: One_nat_def split: bind_split option.splits)
qed

lemma broadcast_Known:
  "broadcast dim_join (Known 1) (map Known xs) (map Known ys) = map_option (map Known) (broadcast size_join 1 xs ys)"
  by (simp add: broadcast_def rev_map align_Known option.map_comp comp_def del: One_nat_def)

end
