(* ===== verification/Ast.thy ===== *)
theory Ast
  imports Shape_Engine Ir_Interp
begin

text \<open>
  The part of \<^verbatim>\<open>src/ast/mod.rs\<close> the tensor fragment of the type checker and of the evaluator works
  on: literals, binary operators, parentheses and the tensor operations.  Every other kind of node is
  \<open>Other\<close>, with its payload as the type parameter.
\<close>

record ast_span =
  sp_start :: usize
  sp_end :: usize

datatype literal =
    LInt i64
  | LFloat f64
  | LStr string
  | LIdent string

datatype ast_binop = AstAdd | AstSub | AstMul | AstDiv | AstMod | AstLt | AstLe | AstGt | AstGe | AstEq | AstNe

datatype tensor_elem_op = ElemAdd | ElemSub | ElemMul | ElemDiv

datatype 'x node =
    Lit literal ast_span
  | Binary ast_binop "'x node" "'x node" ast_span
  | Paren "'x node" ast_span
  | CallTensorSum "'x node" "i32 list" bool ast_span
  | CallTensorMean "'x node" "i32 list" bool ast_span
  | CallReshape "'x node" "string list" ast_span
  | CallExpandDims "'x node" i32 ast_span
  | CallSqueeze "'x node" "i32 list" ast_span
  | CallTranspose "'x node" "i32 list option" ast_span
  | CallIndex "'x node" i32 i32 ast_span
  | CallSlice "'x node" i32 i32 i32 ast_span
  | CallSliceStride "'x node" i32 i32 i32 i32 ast_span
  | CallGather "'x node" i32 "'x node" ast_span
  | CallDot "'x node" "'x node" ast_span
  | CallMatMul "'x node" "'x node" ast_span
  | TensorMatmul "'x node" "'x node" ast_span
  | TensorElemwise tensor_elem_op "'x node" "'x node" ast_span
  | CallTensorRelu "'x node" ast_span
  | CallTensorRand "usize list" ast_span
  | CallTensorConv2d "'x node" "'x node" usize usize conv_padding ast_span
  | Other 'x ast_span

fun node_span :: "'x node \<Rightarrow> ast_span" where
  "node_span (Lit _ span) = span"
| "node_span (Binary _ _ _ span) = span"
| "node_span (Paren _ span) = span"
| "node_span (CallTensorSum _ _ _ span) = span"
| "node_span (CallTensorMean _ _ _ span) = span"
| "node_span (CallReshape _ _ span) = span"
| "node_span (CallExpandDims _ _ span) = span"
| "node_span (CallSqueeze _ _ span) = span"
| "node_span (CallTranspose _ _ span) = span"
| "node_span (CallIndex _ _ _ span) = span"
| "node_span (CallSlice _ _ _ _ span) = span"
| "node_span (CallSliceStride _ _ _ _ _ span) = span"
| "node_span (CallGather _ _ _ span) = span"
| "node_span (CallDot _ _ span) = span"
| "node_span (CallMatMul _ _ span) = span"
| "node_span (TensorMatmul _ _ span) = span"
| "node_span (TensorElemwise _ _ _ span) = span"
| "node_span (CallTensorRelu _ span) = span"
| "node_span (CallTensorRand _ span) = span"
| "node_span (CallTensorConv2d _ _ _ _ _ span) = span"
| "node_span (Other _ span) = span"

text \<open>\<^verbatim>\<open>src/types/mod.rs\<close> and \<^verbatim>\<open>src/types/value.rs\<close>.\<close>

record tensor_ty =
  ty_dtype :: ir_dtype
  ty_shape :: "shape_dim list"

definition tensor_ty_new :: "ir_dtype \<Rightarrow> shape_dim list \<Rightarrow> tensor_ty" where
  "tensor_ty_new dtype shape = \<lparr>ty_dtype = dtype, ty_shape = shape\<rparr>"

lemma tensor_ty_new_fields [simp]: "ty_dtype (tensor_ty_new d s) = d" "ty_shape (tensor_ty_new d s) = s"
  by (simp_all add: tensor_ty_new_def)

datatype value_type =
    ScalarI32
  | ScalarI64
  | ScalarF32
  | ScalarF64
  | ScalarBool
  | TensorTy tensor_ty
  | GradMapTy "(string \<times> tensor_ty) list"

end
