(* ===== verification/Rust_Lines.thy ===== *)
theory Rust_Lines
  imports Rust_Text
begin

text \<open>
  The text processing of Rust's \<open>str\<close> the mic@2 parser and emitter use, on the UTF-8 bytes of a
  string: \<open>lines\<close>, \<open>trim\<close>, \<open>split_whitespace\<close> over the Unicode \<open>White_Space\<close> characters, \<open>chars\<close>, and the
  hexadecimal formats.  The bytes that start a white-space character never occur inside another
  character of a valid string, so scanning byte by byte finds exactly the white-space characters.
\<close>

abbreviation newline_ch :: char where "newline_ch \<equiv> CHR 0x0A"
abbreviation return_ch :: char where "return_ch \<equiv> CHR 0x0D"
abbreviation quote_ch :: char where "quote_ch \<equiv> CHR 0x22"
abbreviation backslash_ch :: char where "backslash_ch \<equiv> CHR 0x5C"
abbreviation space_ch :: char where "space_ch \<equiv> CHR 0x20"
abbreviation byte_of :: "char \<Rightarrow> nat" where "byte_of c \<equiv> of_char c"

definition starts_with :: "string \<Rightarrow> string \<Rightarrow> bool" where
  "starts_with p s \<longleftrightarrow> take (length p) s = p"

definition strip_prefix :: "string \<Rightarrow> string \<Rightarrow> string option" where
  "strip_prefix p s = (if starts_with p s then Some (drop (length p) s) else None)"

definition strip_suffix_char :: "char \<Rightarrow> string \<Rightarrow> string option" where
  "strip_suffix_char c s = (if s \<noteq> [] \<and> last s = c then Some (butlast s) else None)"

text \<open>\<open>str::find(c)\<close> for an ASCII character.\<close>

fun find_char :: "char \<Rightarrow> string \<Rightarrow> usize option" where
  "find_char c [] = None"
| "find_char c (d # ds) = (if d = c then Some 0 else map_option Suc (find_char c ds))"

subsection \<open>Lines\<close>

definition strip_cr :: "string \<Rightarrow> string" where
  "strip_cr l = (if l \<noteq> [] \<and> last l = return_ch then butlast l else l)"

text \<open>\<open>str::lines\<close>: a line ends at \<open>\n\<close> or \<open>\r\n\<close>; what follows the last line end is a line unless empty.\<close>

definition str_lines :: "string \<Rightarrow> string list" where
  "str_lines s =
     (let segs = split_on newline_ch s in
      map strip_cr (butlast segs) @ (if last segs = [] then [] else [last segs]))"

subsection \<open>White space\<close>

text \<open>The length in bytes of the white-space character at the head of a string, 0 if there is none.\<close>

definition ws_len :: "string \<Rightarrow> nat" where
  "ws_len s =
     (case s of
        [] \<Rightarrow> 0
      | c # cs \<Rightarrow>
          let a = byte_of c in
          if 9 \<le> a \<and> a \<le> 13 \<or> a = 32 then 1
          else case cs of
            [] \<Rightarrow> 0
          | d # ds \<Rightarrow>
              let b = byte_of d in
              if a = 0xC2 \<and> (b = 0x85 \<or> b = 0xA0) then 2
              else case ds of
                [] \<Rightarrow> 0
              | e # _ \<Rightarrow>
                  let x = byte_of e in
                  if a = 0xE1 \<and> b = 0x9A \<and> x = 0x80
                    \<or> a = 0xE2 \<and> b = 0x80 \<and> (0x80 \<le> x \<and> x \<le> 0x8A \<or> x = 0xA8 \<or> x = 0xA9 \<or> x = 0xAF)
                    \<or> a = 0xE2 \<and> b = 0x81 \<and> x = 0x9F
                    \<or> a = 0xE3 \<and> b = 0x80 \<and> x = 0x80
                  then 3 else 0)"

lemma ws_len_Nil [simp]: "ws_len [] = 0"
  by (simp add: ws_len_def)

function trim_start :: "string \<Rightarrow> string" where
  "trim_start s = (if ws_len s = 0 then s else trim_start (drop (ws_len s) s))"
  by pat_completeness auto

termination
proof (relation "measure length")
  fix s :: string
  assume "ws_len s \<noteq> 0"
  moreover from this have "s \<noteq> []" by auto
  ultimately show "(drop (ws_len s) s, s) \<in> measure length" by simp
qed simp

declare trim_start.simps [simp del]

fun trim_end :: "string \<Rightarrow> string" where
  "trim_end [] = []"
| "trim_end (c # cs) = (if trim_start (c # cs) = [] then [] else c # trim_end cs)"

definition trim :: "string \<Rightarrow> string" where
  "trim s = trim_end (trim_start s)"

text \<open>The bytes up to the next white-space character, and the rest.\<close>

fun take_word :: "string \<Rightarrow> string \<times> string" where
  "take_word [] = ([], [])"
| "take_word (c # cs) =
     (if ws_len (c # cs) > 0 then ([], c # cs) else let (w, r) = take_word cs in (c # w, r))"

lemma length_take_word: "take_word s = (w, r) \<Longrightarrow> length r \<le> length s"
  by (induction s arbitrary: w r) (auto split: if_splits prod.splits)

lemma length_trim_start: "length (trim_start s) \<le> length s"
proof (induction s rule: trim_start.induct)
  case (1 s)
  then show ?case by (subst trim_start.simps) (fastforce intro: le_trans)
qed

function split_whitespace :: "string \<Rightarrow> string list" where
  "split_whitespace s =
     (case trim_start s of [] \<Rightarrow> [] | c # cs \<Rightarrow> let (w, r) = take_word cs in (c # w) # split_whitespace r)"
  by pat_completeness auto

termination
proof (relation "measure length")
  fix s :: string and c cs p w r
  assume "trim_start s = c # cs" and "p = take_word cs" and "(w, r) = p"
  then have "length r \<le> length cs" "Suc (length cs) \<le> length s"
    using length_take_word [of cs w r] length_trim_start [of s] by simp_all
  then show "(r, s) \<in> measure length" by simp
qed simp

declare split_whitespace.simps [simp del]

subsection \<open>Characters\<close>

definition utf8_width :: "char \<Rightarrow> nat" where
  "utf8_width c = (let a = byte_of c in if a < 0x80 then 1 else if a < 0xE0 then 2 else if a < 0xF0 then 3 else 4)"

text \<open>\<open>str::chars\<close>: each character as its bytes.\<close>

fun chars :: "string \<Rightarrow> string list" where
  "chars [] = []"
| "chars (c # cs) = (c # take (utf8_width c - 1) cs) # chars (drop (utf8_width c - 1) cs)"

text \<open>The scalar value of a character, and a character from its scalar value (\<open>char::from_u32\<close>).\<close>

fun char_code :: "string \<Rightarrow> nat" where
  "char_code [a] = byte_of a"
| "char_code [a, b] = (byte_of a - 0xC0) * 64 + (byte_of b - 0x80)"
| "char_code [a, b, c] = (byte_of a - 0xE0) * 4096 + (byte_of b - 0x80) * 64 + (byte_of c - 0x80)"
| "char_code [a, b, c, d] =
     (byte_of a - 0xF0) * 262144 + (byte_of b - 0x80) * 4096 + (byte_of c - 0x80) * 64 + (byte_of d - 0x80)"
| "char_code _ = 0"

definition utf8_encode :: "nat \<Rightarrow> string" where
  "utf8_encode n =
     (if n < 0x80 then [char_of n]
      else if n < 0x800 then [char_of (0xC0 + n div 64), char_of (0x80 + n mod 64)]
      else if n < 0x10000
        then [char_of (0xE0 + n div 4096), char_of (0x80 + n div 64 mod 64), char_of (0x80 + n mod 64)]
      else [char_of (0xF0 + n div 262144), char_of (0x80 + n div 4096 mod 64),
        char_of (0x80 + n div 64 mod 64), char_of (0x80 + n mod 64)])"

definition char_from_u32 :: "nat \<Rightarrow> string option" where
  "char_from_u32 n =
     (if n > 0x10FFFF \<or> 0xD800 \<le> n \<and> n \<le> 0xDFFF then None else Some (utf8_encode n))"

text \<open>\<open>char::is_control\<close>: the general category \<open>Cc\<close>.\<close>

definition is_control :: "string \<Rightarrow> bool" where
  "is_control ch \<longleftrightarrow> (let n = char_code ch in n < 0x20 \<or> 0x7F \<le> n \<and> n \<le> 0x9F)"

definition is_ascii :: "string \<Rightarrow> bool" where
  "is_ascii ch \<longleftrightarrow> char_code ch < 0x80"

definition encode_utf16 :: "string \<Rightarrow> nat list" where
  "encode_utf16 ch =
     (let n = char_code ch in
      if n < 0x10000 then [n] else [0xD800 + (n - 0x10000) div 1024, 0xDC00 + (n - 0x10000) mod 1024])"

subsection \<open>Hexadecimal\<close>

definition hex_upper :: "nat \<Rightarrow> char" where
  "hex_upper d = (if d < 10 then char_of (48 + d) else char_of (55 + d))"

definition hex_lower :: "nat \<Rightarrow> char" where
  "hex_lower d = (if d < 10 then char_of (48 + d) else char_of (87 + d))"

text \<open>\<open>{:04X}\<close> of a 16-bit number and \<open>{:02x}\<close> of a byte.\<close>

definition format_04X :: "nat \<Rightarrow> string" where
  "format_04X n =
     [hex_upper (n div 4096 mod 16), hex_upper (n div 256 mod 16), hex_upper (n div 16 mod 16), hex_upper (n mod 16)]"

definition format_02x :: "u8 \<Rightarrow> string" where
  "format_02x b = [hex_lower (unat b div 16), hex_lower (unat b mod 16)]"

definition hex_digit_val :: "char \<Rightarrow> nat option" where
  "hex_digit_val c =
     (let n = byte_of c in
      if 48 \<le> n \<and> n \<le> 57 then Some (n - 48)
      else if 97 \<le> n \<and> n \<le> 102 then Some (n - 87)
      else if 65 \<le> n \<and> n \<le> 70 then Some (n - 55)
      else None)"

fun hex_val :: "nat \<Rightarrow> string \<Rightarrow> nat option" where
  "hex_val acc [] = Some acc"
| "hex_val acc (c # cs) = (case hex_digit_val c of None \<Rightarrow> None | Some d \<Rightarrow> hex_val (16 * acc + d) cs)"

text \<open>\<open>u32::from_str_radix(s, 16)\<close>: an optional plus sign, hexadecimal digits, at most \<open>u32::MAX\<close>.\<close>

definition u32_from_hex :: "string \<Rightarrow> nat option" where
  "u32_from_hex s =
     (let ds = (case s of c # cs \<Rightarrow> if c = CHR ''+'' then cs else s | [] \<Rightarrow> s) in
      if ds = [] then None
      else case hex_val 0 ds of Some n \<Rightarrow> if n < 2 ^ 32 then Some n else None | None \<Rightarrow> None)"


subsection \<open>Searching and joining\<close>

lemma starts_with_append [simp]: "starts_with p (p @ s)"
  by (simp add: starts_with_def)

lemma find_char_first: "c \<notin> set k \<Longrightarrow> find_char c (k @ c # r) = Some (length k)"
  by (induction k) auto

lemma join_with_Cons: "ss \<noteq> [] \<Longrightarrow> join_with sep (s # ss) = s @ sep # join_with sep ss"
  by (cases ss) simp_all

lemma str_lines_join:
  assumes "ls \<noteq> []" "last ls \<noteq> []" "\<forall>l \<in> set ls. newline_ch \<notin> set l \<and> return_ch \<notin> set l"
  shows "str_lines (join_with newline_ch ls) = ls"
proof -
  have "split_on newline_ch (join_with newline_ch ls) = ls" using assms by (intro split_join) auto
  moreover have "map strip_cr (butlast ls) = butlast ls"
  proof (rule map_idI)
    fix l
    assume "l \<in> set (butlast ls)"
    then have "return_ch \<notin> set l" using assms(3) in_set_butlastD by fast
    then show "strip_cr l = l" using last_in_set by (fastforce simp: strip_cr_def)
  qed
  ultimately show ?thesis using assms(1,2) by (simp add: str_lines_def Let_def)
qed

subsection \<open>Words of a line\<close>

text \<open>A word: not empty, and no white-space character starts in it.\<close>

definition text_token :: "string \<Rightarrow> bool" where
  "text_token s \<longleftrightarrow> s \<noteq> [] \<and> (\<forall>i < length s. ws_len (drop i s) = 0)"

lemma text_token_Cons: "text_token (c # s) \<longleftrightarrow> ws_len (c # s) = 0 \<and> (s = [] \<or> text_token s)"
  by (auto simp: text_token_def All_less_Suc2)

lemma ws_len_space [simp]: "ws_len (space_ch # s) = Suc 0"
  by (simp add: ws_len_def)

lemma ws_len_before_space: "y \<noteq> [] \<Longrightarrow> ws_len (y @ space_ch # s) = ws_len y"
  by (cases y; cases "tl y"; cases "tl (tl y)"; cases s) (auto simp: ws_len_def Let_def)

lemma ws_len_le: "ws_len s \<le> length s"
  by (cases s; cases "tl s"; cases "tl (tl s)") (auto simp: ws_len_def Let_def)

lemma trim_start_token [simp]: "ws_len s = 0 \<Longrightarrow> trim_start s = s"
  by (simp add: trim_start.simps)

lemma trim_start_space [simp]: "trim_start (space_ch # s) = trim_start s"
  by (subst trim_start.simps) simp

lemma trim_start_before_space:
  "trim_start (y @ space_ch # s) = (if trim_start y = [] then trim_start s else trim_start y @ space_ch # s)"
proof (induction y rule: trim_start.induct)
  case (1 y)
  show ?case
  proof (cases "ws_len y = 0")
    case True
    then show ?thesis by (cases "y = []") (simp_all add: ws_len_before_space)
  next
    case False
    then have "y \<noteq> []" by auto
    then have "trim_start (y @ space_ch # s) = trim_start (drop (ws_len y) y @ space_ch # s)"
      using False ws_len_le [of y] by (subst trim_start.simps) (simp add: ws_len_before_space)
    moreover have "trim_start y = trim_start (drop (ws_len y) y)" using False by (subst trim_start.simps) simp
    ultimately show ?thesis using 1 [OF False] by simp
  qed
qed

text \<open>Bytes that can be part of a white-space character; a line that ends in another byte ends in no white space.\<close>

definition ws_byte :: "char \<Rightarrow> bool" where
  "ws_byte c \<longleftrightarrow> (let a = byte_of c in 9 \<le> a \<and> a \<le> 13 \<or> a = 32 \<or> 128 \<le> a)"

lemma ws_len_bytes: "c \<in> set (take (ws_len s) s) \<Longrightarrow> ws_byte c"
  by (cases s; cases "tl s"; cases "tl (tl s)") (auto simp: ws_len_def ws_byte_def Let_def split: if_splits)

lemma ws_len_not_ws: "s \<noteq> [] \<Longrightarrow> \<not> ws_byte (hd s) \<Longrightarrow> ws_len s = 0"
  using ws_len_bytes [of "hd s" s] by (cases s; cases "ws_len s") auto

lemma trim_start_bytes: "trim_start s = [] \<Longrightarrow> c \<in> set s \<Longrightarrow> ws_byte c"
proof (induction s rule: trim_start.induct)
  case (1 s)
  show ?case
  proof (cases "ws_len s = 0")
    case False
    then have "trim_start (drop (ws_len s) s) = []" using 1(2) by (subst (asm) trim_start.simps) simp
    moreover have "c \<in> set (take (ws_len s) s) \<or> c \<in> set (drop (ws_len s) s)"
      using 1(3) by (metis UnE append_take_drop_id set_append)
    ultimately show ?thesis using 1(1) [OF False] ws_len_bytes by blast
  qed (use 1 in simp)
qed

lemma trim_end_id: "(\<And>i. i < length s \<Longrightarrow> trim_start (drop i s) \<noteq> []) \<Longrightarrow> trim_end s = s"
proof (induction s)
  case (Cons c s)
  have "trim_end s = s" using Cons.prems [of "Suc _"] by (intro Cons.IH) simp
  moreover have "trim_start (c # s) \<noteq> []" using Cons.prems [of 0] by simp
  ultimately show ?case by simp
qed simp

lemma trim_end_ascii: "s \<noteq> [] \<Longrightarrow> \<not> ws_byte (last s) \<Longrightarrow> trim_end s = s"
proof (rule trim_end_id)
  fix i
  assume "s \<noteq> []" "\<not> ws_byte (last s)" "i < length s"
  then have "last s \<in> set (drop i s)" by (metis drop_eq_Nil last_drop last_in_set not_le)
  with \<open>\<not> ws_byte (last s)\<close> show "trim_start (drop i s) \<noteq> []" using trim_start_bytes by blast
qed

lemma trim_end_space: "trim_end (s @ [space_ch]) = trim_end s"
proof (induction s)
  case (Cons c s)
  have "trim_start (c # s @ [space_ch]) = [] \<longleftrightarrow> trim_start (c # s) = []"
    using trim_start_before_space [of "c # s" "[]"] by auto
  with Cons show ?case by simp
qed simp

lemma trim_ascii:
  assumes "s \<noteq> []" "\<not> ws_byte (hd s)" "\<not> ws_byte (last s)"
  shows "trim s = s" "trim (s @ [space_ch]) = s" "trim (space_ch # s) = s"
proof -
  have "ws_len s = 0" "ws_len (s @ [space_ch]) = 0" using assms ws_len_not_ws [of s] ws_len_before_space [of s "[]"] by auto
  then show "trim s = s" "trim (s @ [space_ch]) = s" "trim (space_ch # s) = s"
    using assms by (simp_all add: trim_def trim_end_ascii trim_end_space)
qed

lemma trim_spaces: "trim (concat (replicate n ''  '') @ s) = trim s"
  by (induction n) (simp_all add: trim_def)

lemma text_token_drop: "text_token s \<Longrightarrow> i < length s \<Longrightarrow> text_token (drop i s)"
  by (auto simp: text_token_def)

lemma trim_start_drop_token: "text_token s \<Longrightarrow> i < length s \<Longrightarrow> trim_start (drop i s) \<noteq> []"
  by (simp add: text_token_def)

lemma trim_end_token: "text_token s \<Longrightarrow> trim_end s = s"
  by (intro trim_end_id) (rule trim_start_drop_token)

lemma trim_end_last_token:
  assumes "text_token s"
  shows "trim_end (y @ space_ch # s) = y @ space_ch # s"
proof (rule trim_end_id)
  fix i
  assume i: "i < length (y @ space_ch # s)"
  have s: "trim_start s \<noteq> []" using trim_start_drop_token [OF assms, of 0] assms by (simp add: text_token_def)
  show "trim_start (drop i (y @ space_ch # s)) \<noteq> []"
  proof (cases "i \<le> length y")
    case True
    then show ?thesis using s by (simp add: trim_start_before_space)
  next
    case False
    then obtain j where "i = Suc (length y + j)" by (metis less_imp_Suc_add not_le add_Suc_right)
    with i trim_start_drop_token [OF assms, of j] show ?thesis by simp
  qed
qed

lemma ws_len_token: "text_token s \<Longrightarrow> ws_len s = 0 \<and> ws_len (s @ space_ch # r) = 0"
  by (cases "s = []") (auto simp: ws_len_before_space text_token_def dest: spec [of _ 0])

lemma trim_words:
  assumes "ws \<noteq> []" "\<forall>w \<in> set ws. text_token w"
  shows "trim (join_with space_ch ws) = join_with space_ch ws"
proof -
  have "trim_start (join_with space_ch ws) = join_with space_ch ws"
    using assms ws_len_token by (cases ws rule: list.exhaust; cases "tl ws") (auto simp: join_with_Cons)
  moreover have "trim_end (join_with space_ch ws) = join_with space_ch ws"
  proof (cases "butlast ws = []")
    case True
    then obtain w where "ws = [w]" using assms(1) by (cases ws rule: rev_cases) auto
    then show ?thesis using assms(2) by (simp add: trim_end_token)
  next
    case False
    have "join_with space_ch (us @ [w]) = join_with space_ch us @ space_ch # w" if "us \<noteq> []" for us w
      using that by (induction us rule: induct_list012) (auto simp: join_with_Cons)
    then have "join_with space_ch ws = join_with space_ch (butlast ws) @ space_ch # last ws"
      using False assms(1) by (metis append_butlast_last_id)
    then show ?thesis using trim_end_last_token assms last_in_set by metis
  qed
  ultimately show ?thesis by (simp add: trim_def)
qed

lemma take_word_token: "text_token (c # w) \<Longrightarrow> take_word w = (w, []) \<and> take_word (w @ space_ch # r) = (w, space_ch # r)"
proof (induction w arbitrary: c)
  case (Cons d w)
  then have "text_token (d # w)" by (simp add: text_token_Cons)
  with Cons.IH [OF this] ws_len_token [OF this] show ?case by simp
qed simp

lemma split_words:
  assumes "\<forall>w \<in> set ws. text_token w"
  shows "split_whitespace (join_with space_ch ws) = ws"
  using assms
proof (induction ws)
  case Nil
  then show ?case by (simp add: split_whitespace.simps)
next
  case (Cons w ws)
  obtain c v where w: "w = c # v" using Cons.prems by (cases w) (auto simp: text_token_def)
  have t: "text_token (c # v)" using Cons.prems w by simp
  show ?case
  proof (cases "ws = []")
    case True
    then show ?thesis using t ws_len_token [OF t] take_word_token [OF t]
      by (subst split_whitespace.simps) (simp add: w split_whitespace.simps [of "[]"])
  next
    case False
    have "split_whitespace (space_ch # s) = split_whitespace s" for s
      by (subst (1 2) split_whitespace.simps) simp
    then show ?thesis using False t ws_len_token [OF t] take_word_token [OF t] Cons
      by (subst split_whitespace.simps) (simp add: w join_with_Cons)
  qed
qed


subsection \<open>Characters of a valid string\<close>

text \<open>The bytes of one character; the restrictions on the first continuation byte exclude longer forms than needed.\<close>

abbreviation cont_ch :: "char \<Rightarrow> bool" where
  "cont_ch c \<equiv> 0x80 \<le> byte_of c \<and> byte_of c \<le> 0xBF"

fun utf8_char :: "string \<Rightarrow> bool" where
  "utf8_char [a] \<longleftrightarrow> byte_of a < 0x80"
| "utf8_char [a, b] \<longleftrightarrow> 0xC2 \<le> byte_of a \<and> byte_of a \<le> 0xDF \<and> cont_ch b"
| "utf8_char [a, b, c] \<longleftrightarrow> 0xE0 \<le> byte_of a \<and> byte_of a \<le> 0xEF \<and> (byte_of a = 0xE0 \<longrightarrow> 0xA0 \<le> byte_of b) \<and>
     cont_ch b \<and> cont_ch c"
| "utf8_char [a, b, c, d] \<longleftrightarrow> 0xF0 \<le> byte_of a \<and> byte_of a \<le> 0xF4 \<and> (byte_of a = 0xF0 \<longrightarrow> 0x90 \<le> byte_of b) \<and>
     cont_ch b \<and> cont_ch c \<and> cont_ch d"
| "utf8_char _ \<longleftrightarrow> False"

lemma utf8_width_pos [simp]: "0 < utf8_width c"
  by (simp add: utf8_width_def Let_def)

lemma concat_chars [simp]: "concat (chars s) = s"
  by (induction s rule: chars.induct) auto

lemma chars_append: "utf8_char ch \<Longrightarrow> chars (ch @ s) = ch # chars s"
  by (cases ch rule: utf8_char.cases) (auto simp: utf8_width_def)

lemma chars_ascii: "byte_of c < 0x80 \<Longrightarrow> chars (c # s) = [c] # chars s"
  by (simp add: utf8_width_def)

lemma chars_ascii_append: "\<forall>c \<in> set s. byte_of c < 0x80 \<Longrightarrow> chars (s @ t) = map (\<lambda>c. [c]) s @ chars t"
  by (induction s) (auto simp: utf8_width_def)

lemma byte_of_string [simp]: "byte_of (char_of (unat (b :: u8))) = unat b"
proof -
  have "unat b < 2 ^ LENGTH(8)" by (rule unsigned_less)
  then show ?thesis by simp
qed

lemma string_of_bytes_nil [simp]: "string_of_bytes bs = [] \<longleftrightarrow> bs = []"
  by (simp add: string_of_bytes_def)

lemma utf8_valid_char:
  assumes "utf8_valid (a # bs)"
  obtains "unat a < 0x80" "utf8_valid bs"
  | b cs where "bs = b # cs" "utf8_valid cs" "utf8_char (string_of_bytes [a, b])"
  | b c ds where "bs = b # c # ds" "utf8_valid ds" "utf8_char (string_of_bytes [a, b, c])"
  | b c d es where "bs = b # c # d # es" "utf8_valid es" "utf8_char (string_of_bytes [a, b, c, d])"
proof (cases "unat a < 0x80")
  case False
  then obtain b cs where bs: "bs = b # cs" using assms by (cases bs) (auto simp: word_le_nat_alt)
  consider "unat a \<le> 0xDF" | "0xDF < unat a" "unat a \<le> 0xEF" | "0xEF < unat a" by linarith
  then show thesis
  proof cases
    case 1
    with False assms bs that(2) show ?thesis
      by (auto simp: word_le_nat_alt word_unat_eq_iff cont_byte_def string_of_bytes_def split: if_splits list.splits)
  next
    case 2
    then obtain c ds where "cs = c # ds" using False assms bs
      by (cases cs) (auto simp: word_le_nat_alt word_unat_eq_iff split: if_splits)
    with 2 False assms bs that(3) show ?thesis
      by (auto simp: word_le_nat_alt word_unat_eq_iff cont_byte_def string_of_bytes_def split: if_splits list.splits)
  next
    case 3
    then obtain c d es where "cs = c # d # es" using False assms bs
      by (cases cs; cases "tl cs") (auto simp: word_le_nat_alt word_unat_eq_iff split: if_splits)
    with 3 False assms bs that(4) show ?thesis
      by (auto simp: word_le_nat_alt word_unat_eq_iff cont_byte_def string_of_bytes_def split: if_splits list.splits)
  qed
qed (use assms that(1) in \<open>auto simp: word_le_nat_alt\<close>)

lemma chars_valid: "valid_string s \<Longrightarrow> ch \<in> set (chars s) \<Longrightarrow> utf8_char ch"
proof (induction "length s" arbitrary: s rule: less_induct)
  case less
  have split: "s = string_of_bytes (as_bytes s)" by simp
  show ?case
  proof (cases "as_bytes s")
    case Nil
    then show ?thesis using less split by (simp add: string_of_bytes_def)
  next
    case (Cons a bs)
    have step: ?thesis if "as_bytes s = u @ v" "utf8_char (string_of_bytes u)" "utf8_valid v" for u v
    proof -
      have s: "s = string_of_bytes u @ string_of_bytes v" using split that(1) by (simp add: string_of_bytes_def)
      moreover have "u \<noteq> []" using that(2) by (auto simp: string_of_bytes_def)
      ultimately have "length (string_of_bytes v) < length s" by simp
      then have "ch \<in> set (chars (string_of_bytes v)) \<Longrightarrow> utf8_char ch"
        using less(1) that(3) by (simp add: valid_string_def)
      then show ?thesis using chars_append [OF that(2), of "string_of_bytes v"] less(3) that(2) s by auto
    qed
    have "utf8_valid (a # bs)" using less(2) Cons by (simp add: valid_string_def)
    then show ?thesis
    proof (cases rule: utf8_valid_char)
      case 1
      then show ?thesis using step [of "[a]" bs] Cons by (simp add: string_of_bytes_def)
    next
      case (2 b cs)
      then show ?thesis using step [of "[a, b]" cs] Cons by simp
    next
      case (3 b c ds)
      then show ?thesis using step [of "[a, b, c]" ds] Cons by simp
    next
      case (4 b c d es)
      then show ?thesis using step [of "[a, b, c, d]" es] Cons by simp
    qed
  qed
qed

lemma char_code_three:
  assumes "utf8_char [a, b, c]"
  shows "0x800 \<le> char_code [a, b, c]"
proof (cases "byte_of a = 0xE0")
  case False
  then have "0xE0 < byte_of a" using assms by simp
  then have "1 \<le> byte_of a - 0xE0" by linarith
  then show ?thesis unfolding char_code.simps by linarith
next
  case True
  then have "0xA0 \<le> byte_of b" using assms by simp
  then have "0x20 \<le> byte_of b - 0x80" by linarith
  then show ?thesis unfolding char_code.simps by linarith
qed

lemma char_code_four:
  assumes "utf8_char [a, b, c, d]"
  shows "0x10000 \<le> char_code [a, b, c, d]"
proof (cases "byte_of a = 0xF0")
  case False
  then have "0xF0 < byte_of a" using assms by simp
  then have "1 \<le> byte_of a - 0xF0" by linarith
  then show ?thesis unfolding char_code.simps by linarith
next
  case True
  then have "0x90 \<le> byte_of b" using assms by simp
  then have "0x10 \<le> byte_of b - 0x80" by linarith
  then show ?thesis unfolding char_code.simps by linarith
qed

lemma utf8_char_cases [consumes 1, case_names ascii wide]:
  assumes "utf8_char ch"
  obtains c where "ch = [c]" "byte_of c < 0x80"
  | "\<forall>c \<in> set ch. 0x80 \<le> byte_of c" "0x80 \<le> char_code ch" "char_code ch < 0x800 \<Longrightarrow> utf8_encode (char_code ch) = ch"
proof (cases ch rule: utf8_char.cases)
  case (2 a b)
  define x y where "x = byte_of a - 0xC0" "y = byte_of b - 0x80"
  have xy: "byte_of a = 0xC0 + x" "byte_of b = 0x80 + y" "y < 64" "2 \<le> x" "x < 32"
    using assms 2 by (auto simp: x_y_def)
  then have "char_code ch = x * 64 + y" by (simp add: 2)
  moreover have "a = char_of (0xC0 + x)" "b = char_of (0x80 + y)" using xy by (metis char_of_char)+
  ultimately have "0x80 \<le> char_code ch" "utf8_encode (char_code ch) = ch"
    using xy by (auto simp: utf8_encode_def 2)
  with that(2) assms 2 show thesis by simp
next
  case (3 a b c)
  have "\<forall>c \<in> set ch. 0x80 \<le> byte_of c" using assms 3 by auto
  then show thesis using that(2) char_code_three [OF assms [unfolded 3]] unfolding 3 by linarith
next
  case (4 a b c d)
  have "\<forall>c \<in> set ch. 0x80 \<le> byte_of c" using assms 4 by auto
  then show thesis using that(2) char_code_four [OF assms [unfolded 4]] unfolding 4 by linarith
qed (use assms that(1) in auto)

subsection \<open>Hexadecimal numbers\<close>

lemma hex_digit_upper: "d < 16 \<Longrightarrow> hex_digit_val (hex_upper d) = Some d"
  by (auto simp: hex_digit_val_def hex_upper_def Let_def)

lemma hex_digit_lower: "d < 16 \<Longrightarrow> hex_digit_val (hex_lower d) = Some d"
  by (auto simp: hex_digit_val_def hex_lower_def Let_def)

lemma hex_upper_ascii: "d < 16 \<Longrightarrow> byte_of (hex_upper d) < 0x80 \<and> 0x30 \<le> byte_of (hex_upper d)"
  by (auto simp: hex_upper_def)

lemma u32_from_format:
  assumes "n < 0x10000"
  shows "u32_from_hex (format_04X n) = Some n"
proof -
  have "hex_upper (n div 4096 mod 16) \<noteq> CHR ''+''"
    using hex_upper_ascii [of "n div 4096 mod 16"] by auto
  moreover have "16 * (16 * (16 * (n div 4096 mod 16) + n div 256 mod 16) + n div 16 mod 16) + n mod 16 = n"
  proof -
    have "n div 4096 < 16" using assms by (simp add: less_mult_imp_div_less)
    moreover have "n div 256 = 16 * (n div 4096) + n div 256 mod 16" "n div 16 = 16 * (n div 256) + n div 16 mod 16"
      "n = 16 * (n div 16) + n mod 16"
      using mult_div_mod_eq [of 16 "n div 256"] mult_div_mod_eq [of 16 "n div 16"] mult_div_mod_eq [of 16 n]
      by (simp_all flip: div_mult2_eq)
    ultimately show ?thesis by simp
  qed
  ultimately show ?thesis
    using assms by (simp add: u32_from_hex_def format_04X_def hex_digit_upper)
qed

lemma format_04X_ascii: "\<forall>c \<in> set (format_04X n). byte_of c < 0x80 \<and> 0x30 \<le> byte_of c"
  by (simp add: format_04X_def hex_upper_ascii)

end
