(* ===== verification/Suggest.thy ===== *)
theory Suggest
  imports Rust_Lines "HOL-Library.List_Lexorder" "HOL-Library.Char_ord" "HOL-Library.Multiset"
begin

text \<open>
  \<open>levenshtein\<close> and \<open>closest_identifier\<close> of \<^verbatim>\<open>src/type_checker/mod.rs\<close>: the edit distance behind
  the \<open>did you mean\<close> hints and the choice of the suggestion.  The two rows of the dynamic program are
  lists updated by index; the keys of the environment come as a list in the hash map's iteration order.
  The distance is proved to be the least number of single-character edits, and the suggestion to
  depend only on the set of keys.
\<close>

subsection \<open>The code\<close>

definition lev_cell :: "'a \<Rightarrow> 'a list \<Rightarrow> nat list \<Rightarrow> nat \<Rightarrow> nat list \<Rightarrow> nat list" where
  "lev_cell x b prev j cur =
     (let cost = (if x \<noteq> b ! (j - 1) then 1 else 0)
      in cur[j := min (min (prev ! j + 1) (cur ! (j - 1) + 1)) (prev ! (j - 1) + cost)])"

definition lev_row :: "'a list \<Rightarrow> 'a list \<Rightarrow> nat \<Rightarrow> nat list \<times> nat list \<Rightarrow> nat list \<times> nat list" where
  "lev_row a b i rows =
     (case rows of (prev, cur) \<Rightarrow> (fold (lev_cell (a ! (i - 1)) b prev) [1..<length b + 1] (cur[0 := i]), prev))"

definition lev_table :: "'a list \<Rightarrow> 'a list \<Rightarrow> nat" where
  "lev_table a b =
     fst (fold (lev_row a b) [1..<length a + 1] ([0..<length b + 1], replicate (length b + 1) 0)) ! length b"

definition levenshtein :: "string \<Rightarrow> string \<Rightarrow> usize" where
  "levenshtein a b = lev_table (chars a) (chars b)"

definition better :: "string \<Rightarrow> usize \<Rightarrow> (usize \<times> string) option \<Rightarrow> bool" where
  "better known d best = (case best of None \<Rightarrow> True | Some (bd, bk) \<Rightarrow> d < bd \<or> d = bd \<and> known < bk)"

definition consider_key :: "string \<Rightarrow> usize \<Rightarrow> string \<Rightarrow> (usize \<times> string) option \<Rightarrow> (usize \<times> string) option" where
  "consider_key name max_dist known best =
     (let d = levenshtein name known in
      if d = 0 \<or> d > max_dist then best else if better known d best then Some (d, known) else best)"

definition suggestion_radius :: "string \<Rightarrow> usize" where
  "suggestion_radius name = max 1 (min 2 (length (chars name) div 2))"

definition closest_identifier :: "string \<Rightarrow> string list \<Rightarrow> string option" where
  "closest_identifier name keys =
     map_option snd (fold (consider_key name (suggestion_radius name)) keys None)"

subsection \<open>Edit scripts\<close>

text \<open>One edit inserts, deletes or replaces one element.\<close>

inductive edit1 :: "'a list \<Rightarrow> 'a list \<Rightarrow> bool" where
  insertion: "edit1 (us @ vs) (us @ x # vs)"
| deletion: "edit1 (us @ x # vs) (us @ vs)"
| replacement: "edit1 (us @ x # vs) (us @ y # vs)"

inductive script :: "'a list \<Rightarrow> 'a list \<Rightarrow> nat \<Rightarrow> bool" where
  empty: "script [] [] 0"
| keep: "script xs ys n \<Longrightarrow> script (x # xs) (x # ys) n"
| ins: "script xs ys n \<Longrightarrow> script xs (y # ys) (Suc n)"
| del: "script xs ys n \<Longrightarrow> script (x # xs) ys (Suc n)"
| sub: "script xs ys n \<Longrightarrow> script (x # xs) (y # ys) (Suc n)"

inductive_cases script_NilE: "script [] ys n"
inductive_cases script_Nil2E: "script xs [] n"
inductive_cases script_ConsE: "script (x # xs) (y # ys) n"

fun distance :: "'a list \<Rightarrow> 'a list \<Rightarrow> nat" where
  "distance [] ys = length ys"
| "distance xs [] = length xs"
| "distance (x # xs) (y # ys) =
     min (min (distance xs (y # ys) + 1) (distance (x # xs) ys + 1)) (distance xs ys + (if x \<noteq> y then 1 else 0))"

lemma script_refl: "script xs xs 0"
  by (induction xs) (auto intro: script.intros)

lemma script_Nil_iff: "script [] ys n \<longleftrightarrow> n = length ys" "script ys [] n \<longleftrightarrow> n = length ys"
proof -
  show "script [] ys n \<longleftrightarrow> n = length ys"
    by (induction ys arbitrary: n) (auto elim: script_NilE intro: script.intros)
  show "script ys [] n \<longleftrightarrow> n = length ys"
    by (induction ys arbitrary: n) (auto elim: script_Nil2E intro: script.intros)
qed

lemma distance_Nil [simp]: "distance xs [] = length xs"
  by (cases xs) simp_all

lemma script_distance: "script xs ys (distance xs ys)"
proof (induction xs ys rule: distance.induct)
  case (3 x xs y ys)
  let ?c = "if x \<noteq> y then 1 else 0 :: nat"
  have d: "script (x # xs) (y # ys) (distance xs (y # ys) + 1)" using 3(1) by (auto intro: script.del)
  have i: "script (x # xs) (y # ys) (distance (x # xs) ys + 1)" using 3(2) by (auto intro: script.ins)
  have s: "script (x # xs) (y # ys) (distance xs ys + ?c)" using 3(3) by (auto intro: script.keep script.sub)
  show ?case using d i s by (simp add: min_def del: One_nat_def)
qed (simp_all add: script_Nil_iff)

lemma distance_Cons: "distance xs (y # ys) \<le> Suc (distance xs ys)" "distance (x # xs) ys \<le> Suc (distance xs ys)"
  by (cases xs, simp_all, cases ys, simp_all)

lemma distance_least: "script xs ys n \<Longrightarrow> distance xs ys \<le> n"
proof (induction xs ys n rule: script.induct)
  case (ins xs ys n y)
  then show ?case using distance_Cons(1) [of xs y ys] by linarith
next
  case (del xs ys n x)
  then show ?case using distance_Cons(2) [of x xs ys] by linarith
qed auto

text \<open>Scripts read from the right.\<close>

lemma script_snoc:
  "script xs ys n \<Longrightarrow> script (xs @ [x]) (ys @ [x]) n"
  "script xs ys n \<Longrightarrow> script xs (ys @ [y]) (Suc n)"
  "script xs ys n \<Longrightarrow> script (xs @ [x]) ys (Suc n)"
  "script xs ys n \<Longrightarrow> script (xs @ [x]) (ys @ [y]) (Suc n)"
  by (induction xs ys n rule: script.induct) (auto intro: script.intros)

lemma script_rev: "script xs ys n \<Longrightarrow> script (rev xs) (rev ys) n"
  by (induction xs ys n rule: script.induct) (auto intro: script.intros script_snoc)

lemma distance_rev: "distance (rev xs) (rev ys) = distance xs ys"
proof (rule antisym)
  show "distance (rev xs) (rev ys) \<le> distance xs ys" by (intro distance_least script_rev script_distance)
  show "distance xs ys \<le> distance (rev xs) (rev ys)"
    using script_rev [OF script_distance [of "rev xs" "rev ys"]] by (auto intro: distance_least)
qed

text \<open>The distance is the least length of a chain of edits.\<close>

lemma edit1_ConsI: "edit1 xs ys \<Longrightarrow> edit1 (x # xs) (x # ys)"
proof (induction rule: edit1.induct)
  case (insertion us vs y) then show ?case using edit1.insertion [of "x # us" vs y] by simp
next
  case (deletion us y vs) then show ?case using edit1.deletion [of "x # us" y vs] by simp
next
  case (replacement us y vs z) then show ?case using edit1.replacement [of "x # us" y vs z] by simp
qed

lemma edits_ConsI: "(edit1 ^^ n) xs ys \<Longrightarrow> (edit1 ^^ n) (x # xs) (x # ys)"
  by (induction n arbitrary: ys) (auto intro: edit1_ConsI)

lemma script_edits: "script xs ys n \<Longrightarrow> (edit1 ^^ n) xs ys"
proof (induction xs ys n rule: script.induct)
  case (keep xs ys n x)
  then show ?case by (simp add: edits_ConsI)
next
  case (ins xs ys n y)
  then show ?case using edit1.insertion [of "[]" ys y] by auto
next
  case (del xs ys n x)
  then show ?case using edit1.deletion [of "[]" x xs] by (intro relpowp_Suc_I2) simp_all
next
  case (sub xs ys n x y)
  have "edit1 (x # xs) (y # xs)" using edit1.replacement [of "[]" x xs y] by simp
  with sub.IH show ?case by (blast intro: relpowp_Suc_I2 edits_ConsI)
qed auto

lemma script_prefix: "script xs (us @ vs) n \<Longrightarrow> \<exists>xs1 xs2 n1 n2. xs = xs1 @ xs2 \<and> n = n1 + n2 \<and> script xs1 us n1 \<and> script xs2 vs n2"
proof (induction xs "us @ vs" n arbitrary: us rule: script.induct)
  case empty
  then show ?case by (auto intro: script.intros)
next
  case (keep xs ys n x)
  show ?case
  proof (cases us)
    case Nil
    then have "script (x # xs) vs n" using keep by (auto intro: script.keep)
    then show ?thesis using Nil script.empty
      by (intro exI [of _ "[]"] exI [of _ "x # xs"] exI [of _ 0] exI [of _ "n"]) simp
  next
    case (Cons u us')
    then obtain xs1 xs2 n1 n2 where "xs = xs1 @ xs2" "n = n1 + n2" "script xs1 us' n1" "script xs2 vs n2" "u = x"
      using keep by auto
    then show ?thesis using Cons script.keep [of xs1 us' n1 x] by (metis append_Cons)
  qed
next
  case (ins xs ys n y)
  show ?case
  proof (cases us)
    case Nil
    then have "script xs vs (Suc n)" using ins by (auto intro: script.ins)
    then show ?thesis using Nil script.empty
      by (intro exI [of _ "[]"] exI [of _ "xs"] exI [of _ 0] exI [of _ "Suc n"]) simp
  next
    case (Cons u us')
    then obtain xs1 xs2 n1 n2 where "xs = xs1 @ xs2" "n = n1 + n2" "script xs1 us' n1" "script xs2 vs n2"
      using ins by auto
    then show ?thesis using Cons script.ins [of xs1 us' n1 u] by (metis add_Suc)
  qed
next
  case (del xs n x)
  then obtain xs1 xs2 n1 n2 where "xs = xs1 @ xs2" "n = n1 + n2" "script xs1 us n1" "script xs2 vs n2" by blast
  then show ?case using script.del [of xs1 us n1 x] by (metis append_Cons add_Suc)
next
  case (sub xs ys n x y)
  show ?case
  proof (cases us)
    case Nil
    then have "script (x # xs) vs (Suc n)" using sub by (auto intro: script.sub)
    then show ?thesis using Nil script.empty
      by (intro exI [of _ "[]"] exI [of _ "x # xs"] exI [of _ 0] exI [of _ "Suc n"]) simp
  next
    case (Cons u us')
    then obtain xs1 xs2 n1 n2 where "xs = xs1 @ xs2" "n = n1 + n2" "script xs1 us' n1" "script xs2 vs n2"
      using sub by auto
    then show ?thesis using Cons script.sub [of xs1 us' n1 x u] by (metis append_Cons add_Suc)
  qed
qed

lemma script_append: "script xs1 us n1 \<Longrightarrow> script xs2 vs n2 \<Longrightarrow> script (xs1 @ xs2) (us @ vs) (n1 + n2)"
  by (induction xs1 us n1 rule: script.induct) (auto intro: script.intros)

lemma script_drop: "script xs (x # vs) n \<Longrightarrow> \<exists>m \<le> Suc n. script xs vs m"
proof (induction xs "x # vs" n rule: script.induct)
  case (del xs n y)
  then show ?case by (meson Suc_le_mono script.del)
qed (auto intro: script.intros le_SucI)

lemma script_replace: "script xs (x # vs) n \<Longrightarrow> \<exists>m \<le> Suc n. script xs (y # vs) m"
proof (induction xs "x # vs" n rule: script.induct)
  case (del xs n z)
  then show ?case by (meson Suc_le_mono script.del)
qed (auto intro: script.intros le_SucI)

lemma script_step:
  assumes "script xs ys n" "edit1 ys zs"
  shows "\<exists>m \<le> Suc n. script xs zs m"
proof -
  have part: "\<exists>m \<le> Suc n. script xs (us @ ws) m"
    if pre: "script xs (us @ vs) n" and tl: "\<And>ys k. script ys vs k \<Longrightarrow> \<exists>m \<le> Suc k. script ys ws m" for us vs ws
  proof -
    obtain xs1 xs2 n1 n2 where p: "xs = xs1 @ xs2" "n = n1 + n2" "script xs1 us n1" "script xs2 vs n2"
      using script_prefix [OF pre] by blast
    obtain m where "m \<le> Suc n2" "script xs2 ws m" using tl [OF p(4)] by blast
    then have "n1 + m \<le> Suc n" "script xs (us @ ws) (n1 + m)" using p script_append by auto
    then show ?thesis by blast
  qed
  from assms(2,1) show ?thesis
  proof cases
    case (insertion us vs x)
    then show ?thesis using assms(1) by (auto intro!: part intro: script.ins)
  next
    case (deletion us x vs)
    then show ?thesis using assms(1) by (auto intro!: part dest: script_drop)
  next
    case (replacement us x vs y)
    then show ?thesis using assms(1) by (auto intro!: part dest: script_replace)
  qed
qed

lemma edits_script: "(edit1 ^^ n) xs ys \<Longrightarrow> \<exists>m \<le> n. script xs ys m"
proof (induction n arbitrary: ys)
  case 0
  then show ?case by (auto intro: script_refl)
next
  case (Suc n)
  from Suc.prems obtain zs where zs: "(edit1 ^^ n) xs zs" "edit1 zs ys" by auto
  then obtain m where m: "m \<le> n" "script xs zs m" using Suc.IH by blast
  with script_step [OF m(2) zs(2)] show ?case by (meson Suc_le_mono le_trans)
qed

lemma distance_edits: "(edit1 ^^ distance xs ys) xs ys \<and> (\<forall>n. (edit1 ^^ n) xs ys \<longrightarrow> distance xs ys \<le> n)"
  using script_edits [OF script_distance] edits_script distance_least le_trans by blast

subsection \<open>The table computes the distance\<close>

definition prefix_distance :: "'a list \<Rightarrow> 'a list \<Rightarrow> nat \<Rightarrow> nat \<Rightarrow> nat" where
  "prefix_distance a b i j = distance (rev (take i a)) (rev (take j b))"

lemma prefix_distance_0: "i \<le> length a \<Longrightarrow> prefix_distance a b i 0 = i" "j \<le> length b \<Longrightarrow> prefix_distance a b 0 j = j"
  by (simp_all add: prefix_distance_def)

lemma prefix_distance_Suc:
  "i < length a \<Longrightarrow> j < length b \<Longrightarrow> prefix_distance a b (Suc i) (Suc j) =
    min (min (prefix_distance a b i (Suc j) + 1) (prefix_distance a b (Suc i) j + 1))
      (prefix_distance a b i j + (if a ! i \<noteq> b ! j then 1 else 0))"
  by (simp add: prefix_distance_def take_Suc_conv_app_nth)

lemma lev_cells_spec:
  assumes "i < length a" "length prev = length b + 1" "\<forall>j \<le> length b. prev ! j = prefix_distance a b i j"
    and "length cur = length b + 1" "cur ! 0 = Suc i" "k \<le> length b"
  shows "length (fold (lev_cell (a ! i) b prev) [1..<k + 1] cur) = length b + 1 \<and>
    (\<forall>j \<le> k. fold (lev_cell (a ! i) b prev) [1..<k + 1] cur ! j = prefix_distance a b (Suc i) j)"
  using assms(6)
proof (induction k)
  case 0
  then show ?case using assms by (simp add: prefix_distance_0)
next
  case (Suc k)
  then have IH: "length (fold (lev_cell (a ! i) b prev) [1..<k + 1] cur) = length b + 1"
      "\<forall>j \<le> k. fold (lev_cell (a ! i) b prev) [1..<k + 1] cur ! j = prefix_distance a b (Suc i) j" by simp_all
  let ?c = "fold (lev_cell (a ! i) b prev) [1..<k + 1] cur"
  have "fold (lev_cell (a ! i) b prev) [1..<Suc k + 1] cur = lev_cell (a ! i) b prev (Suc k) ?c" by simp
  moreover have "lev_cell (a ! i) b prev (Suc k) ?c = ?c[Suc k := prefix_distance a b (Suc i) (Suc k)]"
    using IH assms(1-3) Suc.prems prefix_distance_Suc [of i a k b] by (simp add: lev_cell_def)
  ultimately show ?case using IH Suc.prems by (auto simp: nth_list_update le_Suc_eq)
qed

lemma lev_rows_spec:
  assumes "i \<le> length a"
  shows "case fold (lev_row a b) [1..<i + 1] ([0..<length b + 1], replicate (length b + 1) 0) of (prev, cur) \<Rightarrow>
    length prev = length b + 1 \<and> length cur = length b + 1 \<and> (\<forall>j \<le> length b. prev ! j = prefix_distance a b i j)"
  using assms
proof (induction i)
  case 0
  then show ?case by (auto simp: prefix_distance_0 simp del: upt_Suc replicate_Suc)
next
  case (Suc i)
  obtain prev cur where r: "fold (lev_row a b) [1..<i + 1] ([0..<length b + 1], replicate (length b + 1) 0) = (prev, cur)"
    by fastforce
  then have IH: "length prev = length b + 1" "length cur = length b + 1"
      "\<forall>j \<le> length b. prev ! j = prefix_distance a b i j" using Suc by auto
  have "fold (lev_row a b) [1..<Suc i + 1] ([0..<length b + 1], replicate (length b + 1) 0) = lev_row a b (Suc i) (prev, cur)"
    using r by simp
  also have "\<dots> = (fold (lev_cell (a ! i) b prev) [1..<length b + 1] (cur[0 := Suc i]), prev)"
    by (simp add: lev_row_def)
  finally show ?case
    using lev_cells_spec [of i a prev b "cur[0 := Suc i]" "length b"] IH Suc.prems by auto
qed

lemma lev_table_distance: "lev_table a b = distance a b"
  using lev_rows_spec [of "length a" a b]
  by (auto simp: lev_table_def prefix_distance_def distance_rev simp del: upt_Suc replicate_Suc split: prod.splits)

lemma chars_inj: "chars s = chars t \<longleftrightarrow> s = t"
  using concat_chars by metis

lemma levenshtein_edits:
  "(edit1 ^^ levenshtein a b) (chars a) (chars b) \<and> (\<forall>n. (edit1 ^^ n) (chars a) (chars b) \<longrightarrow> levenshtein a b \<le> n)"
  unfolding levenshtein_def lev_table_distance by (rule distance_edits)

lemma levenshtein_0: "levenshtein a b = 0 \<longleftrightarrow> a = b"
proof
  assume "levenshtein a b = 0"
  then show "a = b" using levenshtein_edits [of a b] by (simp add: chars_inj)
next
  assume "a = b"
  then have "(edit1 ^^ 0) (chars a) (chars b)" by simp
  then show "levenshtein a b = 0" using levenshtein_edits [of a b] by fastforce
qed

subsection \<open>The suggestion\<close>

definition candidates :: "string \<Rightarrow> string set \<Rightarrow> (usize \<times> string) set" where
  "candidates name K =
     {(d, k) | d k. k \<in> K \<and> d = levenshtein name k \<and> d \<noteq> 0 \<and> d \<le> suggestion_radius name}"

definition precedes :: "usize \<times> string \<Rightarrow> usize \<times> string \<Rightarrow> bool" where
  "precedes p q \<longleftrightarrow> fst p < fst q \<or> fst p = fst q \<and> snd p \<le> snd q"

lemma precedes_order: "precedes p p" "precedes p q \<Longrightarrow> precedes q r \<Longrightarrow> precedes p r"
    "precedes p q \<Longrightarrow> precedes q p \<Longrightarrow> p = q" "precedes p q \<or> precedes q p"
  by (auto simp: precedes_def prod_eq_iff)

definition is_best :: "(usize \<times> string) set \<Rightarrow> (usize \<times> string) option \<Rightarrow> bool" where
  "is_best C best = (case best of None \<Rightarrow> C = {} | Some p \<Rightarrow> p \<in> C \<and> (\<forall>q \<in> C. precedes p q))"

lemma is_best_unique: "is_best C p \<Longrightarrow> is_best C q \<Longrightarrow> p = q"
  by (auto simp: is_best_def split: option.splits dest: precedes_order(3))

lemma consider_best:
  assumes "is_best (candidates name K) best"
  shows "is_best (candidates name (insert known K)) (consider_key name (suggestion_radius name) known best)"
proof -
  let ?d = "levenshtein name known"
  have C: "candidates name (insert known K) =
      (if ?d = 0 \<or> ?d > suggestion_radius name then {} else {(?d, known)}) \<union> candidates name K"
    by (auto simp: candidates_def)
  show ?thesis
  proof (cases best)
    case None
    then show ?thesis using assms unfolding C by (auto simp: is_best_def consider_key_def better_def precedes_def)
  next
    case (Some p)
    obtain bd bk where p: "p = (bd, bk)" by fastforce
    have b: "p \<in> candidates name K" "\<forall>q \<in> candidates name K. precedes p q" using assms Some by (auto simp: is_best_def)
    have new: "better known ?d best \<Longrightarrow> precedes (?d, known) p" "\<not> better known ?d best \<Longrightarrow> precedes p (?d, known)"
      by (auto simp: better_def precedes_def Some p)
    show ?thesis
    proof (cases "?d = 0 \<or> ?d > suggestion_radius name")
      case True
      then show ?thesis using assms unfolding C by (auto simp: consider_key_def Let_def)
    next
      case False
      then have C': "candidates name (insert known K) = insert (?d, known) (candidates name K)" unfolding C by auto
      show ?thesis
      proof (cases "better known ?d best")
        case True
        have "\<forall>q \<in> candidates name K. precedes (?d, known) q" using b(2) new(1) [OF True] precedes_order(2) by blast
        then show ?thesis using False True unfolding C' by (simp add: is_best_def consider_key_def precedes_order)
      next
        case old: False
        then show ?thesis using False b new(2) unfolding C' by (simp add: is_best_def consider_key_def Some)
      qed
    qed
  qed
qed

lemma closest_fold: "is_best (candidates name (set keys)) (fold (consider_key name (suggestion_radius name)) keys None)"
proof -
  have "is_best (candidates name (K \<union> set keys)) (fold (consider_key name (suggestion_radius name)) keys best)"
    if "is_best (candidates name K) best" for K best
    using that
  proof (induction keys arbitrary: K best)
    case (Cons known keys)
    from Cons.IH [OF consider_best [OF Cons.prems]] show ?case by simp
  qed simp
  from this [of "{}" None] show ?thesis by (simp add: is_best_def candidates_def)
qed

lemma closest_identifier_order: "set keys = set keys' \<Longrightarrow> closest_identifier name keys = closest_identifier name keys'"
  using is_best_unique [OF closest_fold [of name keys]] closest_fold [of name keys']
  by (simp add: closest_identifier_def)

lemma closest_identifier_Some:
  "closest_identifier name keys = Some k \<longleftrightarrow>
    k \<in> set keys \<and> k \<noteq> name \<and> levenshtein name k \<le> suggestion_radius name \<and>
    (\<forall>k' \<in> set keys. k' \<noteq> name \<longrightarrow> levenshtein name k < levenshtein name k' \<or> levenshtein name k = levenshtein name k' \<and> k \<le> k')"
    (is "_ \<longleftrightarrow> ?R")
proof -
  let ?C = "candidates name (set keys)"
  have mem: "(d, k) \<in> ?C \<longleftrightarrow> k \<in> set keys \<and> d = levenshtein name k \<and> k \<noteq> name \<and> d \<le> suggestion_radius name" for d k
    by (auto simp: candidates_def levenshtein_0 simp flip: neq0_conv)
  have "closest_identifier name keys = Some k \<longleftrightarrow> is_best ?C (Some (levenshtein name k, k))"
  proof
    assume "closest_identifier name keys = Some k"
    then obtain d where d: "fold (consider_key name (suggestion_radius name)) keys None = Some (d, k)"
      by (auto simp: closest_identifier_def)
    with closest_fold [of name keys] have "is_best ?C (Some (d, k))" by simp
    then show "is_best ?C (Some (levenshtein name k, k))" using mem by (auto simp: is_best_def)
  next
    assume "is_best ?C (Some (levenshtein name k, k))"
    from is_best_unique [OF closest_fold [of name keys] this] show "closest_identifier name keys = Some k"
      by (simp add: closest_identifier_def)
  qed
  also have "\<dots> \<longleftrightarrow> ?R"
  proof -
    have "(\<forall>q \<in> ?C. precedes (levenshtein name k, k) q) \<longleftrightarrow>
      (\<forall>k' \<in> set keys. k' \<noteq> name \<longrightarrow> levenshtein name k < levenshtein name k' \<or> levenshtein name k = levenshtein name k' \<and> k \<le> k')"
      if r: "levenshtein name k \<le> suggestion_radius name"
    proof (intro iffI ballI impI)
      fix k' assume a: "\<forall>q \<in> ?C. precedes (levenshtein name k, k) q" "k' \<in> set keys" "k' \<noteq> name"
      show "levenshtein name k < levenshtein name k' \<or> levenshtein name k = levenshtein name k' \<and> k \<le> k'"
      proof (cases "levenshtein name k' \<le> suggestion_radius name")
        case True
        then have "(levenshtein name k', k') \<in> ?C" using a mem by blast
        with a(1) show ?thesis by (auto simp: precedes_def)
      qed (use r in simp)
    qed (auto simp: precedes_def mem)
    then show ?thesis by (auto simp: is_best_def mem)
  qed
  finally show ?thesis .
qed

end
