(* ===== verification/Checker.thy ===== *)
theory Checker
  imports Ast Suggest
begin

text \<open>
  The tensor fragment of \<^verbatim>\<open>src/type_checker/mod.rs\<close>: \<open>infer_expr\<close> on literals, identifiers, binary
  operators and the tensor operations, with the helpers they use.  The environment is the hash map as
  the association list of its entries in iteration order.  An error message is a constructor of
  \<open>type_msg\<close>, one per \<open>format!\<close> of the source with its arguments, and \<open>TypePanic\<close> stands for a panic,
  which unwinds past every caller as an error does.  Two things are parameters of \<open>infer_expr\<close>: whether
  a name is a variant of the registered enums, and the inference of the node kinds that are not part
  of the fragment.  The build is the default one, without \<open>cross-module-imports\<close>.
\<close>

type_synonym type_env = "(string \<times> value_type) list"

datatype type_msg =
    UnknownIdentifier string "string option"
  | AxisRangeFor i32 string usize
  | DuplicateAxisIn i32 string
  | LinalgMsg string linalg_error
  | TransposeAxes usize usize
  | ConvMsg linalg_error string
  | ExpandAxisRange i32 usize
  | SqueezeNotOne usize
  | SqueezeRange usize
  | RequiresTensor string
  | ReshapeRuntimeValue string value_type
  | ReshapeRank usize usize
  | ReshapeCount usize usize
  | IndexRank
  | IndexBounds i32 usize usize
  | SliceOrder i32 i32
  | SliceEnd i32 usize usize
  | StrideZero
  | StrideBounds
  | GatherIdxDtype
  | GatherIdxTensor
  | DtypeMismatch string tensor_ty tensor_ty
  | EngineMsg string engine_error
  | MatmulInner usize usize
  | MatmulShape linalg_error
  | ElemwiseShape "shape_dim list" "shape_dim list"
  | ElemwiseOperands
  | ConvStrides
  | ConvWeights value_type
  | ConvInput value_type
  | ConvInputLayout
  | ConvFilterLayout
  | ConvChannels shape_dim shape_dim
  | ConvKernelHeight
  | ConvKernelWidth
  | ConvDtypes ir_dtype ir_dtype
  | CannotBroadcast "shape_dim list" "shape_dim list" ast_binop
  | BinaryDtypes ast_binop tensor_ty tensor_ty
  | ScalarPromotion ast_binop ir_dtype
  | ScalarOperands ast_binop ir_dtype
  | IncompatibleTypes
  | TypePanic

record type_err_span =
  te_msg :: type_msg
  te_span :: ast_span

abbreviation type_err :: "type_msg \<Rightarrow> ast_span \<Rightarrow> type_err_span + 'a" where
  "type_err msg span \<equiv> Inl \<lparr>te_msg = msg, te_span = span\<rparr>"

subsection \<open>Helpers\<close>

definition checker_fresh_symbol :: "string \<Rightarrow> ast_span \<Rightarrow> string" where
  "checker_fresh_symbol prefix span = prefix @ ''_'' @ show_nat (sp_start span) @ ''_'' @ show_nat (sp_end span)"

fun shape_op_for_binop :: "ast_binop \<Rightarrow> string" where
  "shape_op_for_binop AstAdd = ''tensor.add''"
| "shape_op_for_binop AstSub = ''tensor.sub''"
| "shape_op_for_binop AstMul = ''tensor.mul''"
| "shape_op_for_binop AstDiv = ''tensor.div''"
| "shape_op_for_binop AstMod = ''tensor.mod''"
| "shape_op_for_binop AstLt = ''tensor.lt''"
| "shape_op_for_binop AstLe = ''tensor.le''"
| "shape_op_for_binop AstGt = ''tensor.gt''"
| "shape_op_for_binop AstGe = ''tensor.ge''"
| "shape_op_for_binop AstEq = ''tensor.eq''"
| "shape_op_for_binop AstNe = ''tensor.ne''"

fun binop_display :: "ast_binop \<Rightarrow> string" where
  "binop_display AstAdd = ''+''"
| "binop_display AstSub = ''-''"
| "binop_display AstMul = ''*''"
| "binop_display AstDiv = ''/''"
| "binop_display AstMod = ''%''"
| "binop_display AstLt = ''<''"
| "binop_display AstLe = ''<=''"
| "binop_display AstGt = ''>''"
| "binop_display AstGe = ''>=''"
| "binop_display AstEq = ''==''"
| "binop_display AstNe = ''!=''"

fun concrete_shape :: "shape_dim list \<Rightarrow> usize list option" where
  "concrete_shape [] = Some []"
| "concrete_shape (Known n # shape) = map_option ((#) n) (concrete_shape shape)"
| "concrete_shape (Sym _ # shape) = None"

definition shape_from_usize :: "usize list \<Rightarrow> shape_dim list" where
  "shape_from_usize shape = map Known shape"

definition shape_from_dims :: "string list \<Rightarrow> shape_dim list" where
  "shape_from_dims dims = map (\<lambda>d. case parse_usize d of Some n \<Rightarrow> Known n | None \<Rightarrow> Sym d) dims"

definition promote_scalar_to :: "ir_dtype \<Rightarrow> value_type option" where
  "promote_scalar_to dtype = (case dtype of TF32 \<Rightarrow> Some ScalarI32 | TI32 \<Rightarrow> Some ScalarI32 | _ \<Rightarrow> None)"

fun combine_dtypes :: "value_type \<Rightarrow> value_type \<Rightarrow> ir_dtype option" where
  "combine_dtypes (TensorTy ta) (TensorTy tb) = (if ty_dtype ta = ty_dtype tb then Some (ty_dtype ta) else None)"
| "combine_dtypes (TensorTy t) ScalarI32 =
     (if ty_dtype t = TF32 then map_option (\<lambda>_. TF32) (promote_scalar_to (ty_dtype t)) else None)"
| "combine_dtypes ScalarI32 (TensorTy t) =
     (if ty_dtype t = TF32 then map_option (\<lambda>_. TF32) (promote_scalar_to (ty_dtype t)) else None)"
| "combine_dtypes (TensorTy t) ScalarF32 =
     (if ty_dtype t = TF32 then map_option (\<lambda>_. TF32) (promote_scalar_to (ty_dtype t)) else None)"
| "combine_dtypes ScalarF32 (TensorTy t) =
     (if ty_dtype t = TF32 then map_option (\<lambda>_. TF32) (promote_scalar_to (ty_dtype t)) else None)"
| "combine_dtypes ScalarF32 ScalarF32 = Some TF32"
| "combine_dtypes ScalarF64 ScalarF64 = Some TF32"
| "combine_dtypes ScalarF64 ScalarI64 = Some TF32"
| "combine_dtypes ScalarI64 ScalarF64 = Some TF32"
| "combine_dtypes ScalarF32 ScalarI32 = Some TF32"
| "combine_dtypes ScalarI32 ScalarF32 = Some TF32"
| "combine_dtypes _ _ = None"

definition checker_normalize_axis :: "i32 \<Rightarrow> usize \<Rightarrow> ast_span \<Rightarrow> string \<Rightarrow> type_err_span + usize" where
  "checker_normalize_axis axis rank span op =
     (let rank_i32 = of_nat rank; idx = (if sint axis < 0 then rank_i32 + axis else axis) in
      if sint idx < 0 \<or> sint idx \<ge> sint rank_i32 then type_err (AxisRangeFor axis op rank) span else Inr (nat (sint idx)))"

text \<open>\<open>dim_len\<close>, \<open>slice_len\<close>, \<open>slice_len_with_step\<close> and \<open>known_product\<close> are letter-for-letter the
  functions of \<^verbatim>\<open>src/shapes/mod.rs\<close>.\<close>

definition checker_slice_len :: "i32 \<Rightarrow> i32 \<Rightarrow> usize option" where
  "checker_slice_len = slice_len"

definition checker_slice_len_with_step :: "usize option \<Rightarrow> i32 \<Rightarrow> i32 \<Rightarrow> i32 \<Rightarrow> usize option" where
  "checker_slice_len_with_step = slice_len_with_step"

definition checker_known_product :: "shape_dim list \<Rightarrow> usize option" where
  "checker_known_product = known_product"

fun conv_channels_compatible :: "shape_dim \<Rightarrow> shape_dim \<Rightarrow> bool" where
  "conv_channels_compatible (Known x) (Known y) \<longleftrightarrow> x = y"
| "conv_channels_compatible (Sym sa) (Sym sb) \<longleftrightarrow> sa = sb"
| "conv_channels_compatible _ _ \<longleftrightarrow> True"

definition checker_conv_output_dim ::
  "shape_dim \<Rightarrow> shape_dim option \<Rightarrow> usize \<Rightarrow> conv_padding \<Rightarrow> ast_span \<Rightarrow> string \<Rightarrow> type_err_span + shape_dim" where
  "checker_conv_output_dim inp ker stride padding span axis =
     (let input_known = dim_len inp; kernel_known = Option.bind ker dim_len;
          result = (case padding of
             Valid \<Rightarrow> conv_output_dim_valid input_known kernel_known stride
           | Same \<Rightarrow> conv_output_dim_same input_known stride)
      in case result of
           Inr (Some v) \<Rightarrow> Inr (Known v)
         | Inr None \<Rightarrow> Inr (Sym (checker_fresh_symbol (''_conv_'' @ axis) span))
         | Inl msg \<Rightarrow> type_err (ConvMsg msg axis) span)"

fun checker_axes_loop ::
  "i32 list \<Rightarrow> usize \<Rightarrow> ast_span \<Rightarrow> string \<Rightarrow> usize set \<Rightarrow> usize list \<Rightarrow> type_err_span + usize list" where
  "checker_axes_loop [] rank span op seen normalized = Inr normalized"
| "checker_axes_loop (axis # axes) rank span op seen normalized =
     rbind (checker_normalize_axis axis rank span op) (\<lambda>idx.
       if idx \<in> seen then type_err (DuplicateAxisIn axis op) span
       else checker_axes_loop axes rank span op (insert idx seen) (normalized @ [idx]))"

definition checker_normalize_axes_list :: "i32 list \<Rightarrow> usize \<Rightarrow> ast_span \<Rightarrow> string \<Rightarrow> type_err_span + usize list" where
  "checker_normalize_axes_list axes rank span op =
     rbind (checker_axes_loop axes rank span op {} []) (\<lambda>normalized. Inr (sort normalized))"

definition normalize_reduce_axes :: "i32 list \<Rightarrow> usize \<Rightarrow> ast_span \<Rightarrow> string \<Rightarrow> type_err_span + usize list" where
  "normalize_reduce_axes axes rank span op =
     (if axes = [] then Inr [0..<rank] else checker_normalize_axes_list axes rank span op)"

definition checker_reduce_shape :: "shape_dim list \<Rightarrow> usize list \<Rightarrow> bool \<Rightarrow> shape_dim list" where
  "checker_reduce_shape shape axes keepdims =
     (if keepdims then fold (\<lambda>axis out. if axis < length out then out[axis := Known 1] else out) axes shape
      else map snd (filter (\<lambda>(idx, _). idx \<notin> set axes) (enumerate 0 shape)))"

definition normalize_expand_axis :: "i32 \<Rightarrow> usize \<Rightarrow> ast_span \<Rightarrow> type_err_span + usize" where
  "normalize_expand_axis axis rank span =
     (let extended = rank + 1; idx = (if sint axis < 0 then of_nat extended + axis else axis) in
      if sint idx < 0 \<or> sint idx > sint (of_nat extended - 1 :: i32) then type_err (ExpandAxisRange axis rank) span
      else Inr (nat (sint idx)))"

fun squeeze_axes_check :: "shape_dim list \<Rightarrow> usize list \<Rightarrow> ast_span \<Rightarrow> type_err_span + unit" where
  "squeeze_axes_check shape [] span = Inr ()"
| "squeeze_axes_check shape (axis # axes) span =
     (case dim_at shape axis of
        Some (Known n) \<Rightarrow> if n = 1 then squeeze_axes_check shape axes span else type_err (SqueezeNotOne axis) span
      | Some _ \<Rightarrow> type_err (SqueezeNotOne axis) span
      | None \<Rightarrow> type_err (SqueezeRange axis) span)"

definition compute_squeeze_axes :: "shape_dim list \<Rightarrow> i32 list \<Rightarrow> ast_span \<Rightarrow> type_err_span + usize list" where
  "compute_squeeze_axes shape axes span =
     (if axes = [] then Inr (map fst (filter (\<lambda>(_, dim). dim = Known 1) (enumerate 0 shape)))
      else rbind (checker_normalize_axes_list axes (length shape) span ''tensor.squeeze'') (\<lambda>normalized.
        rbind (squeeze_axes_check shape normalized span) (\<lambda>_. Inr normalized)))"

subsection \<open>The arms of \<open>infer_expr\<close>\<close>

text \<open>Each arm gets the types of its operands, already inferred.\<close>

definition with_tensor ::
  "string \<Rightarrow> ast_span \<Rightarrow> value_type \<Rightarrow> (tensor_ty \<Rightarrow> type_err_span + 'a) \<Rightarrow> type_err_span + 'a" where
  "with_tensor op x_span ty f = (case ty of TensorTy tensor \<Rightarrow> f tensor | _ \<Rightarrow> type_err (RequiresTensor op) x_span)"

definition infer_reduce :: "string \<Rightarrow> value_type \<Rightarrow> ast_span \<Rightarrow> i32 list \<Rightarrow> bool \<Rightarrow> ast_span \<Rightarrow> type_err_span + value_type \<times> ast_span" where
  "infer_reduce op arg_ty x_span axes keepdims span =
     with_tensor op x_span arg_ty (\<lambda>tensor.
       rbind (normalize_reduce_axes axes (length (ty_shape tensor)) span op) (\<lambda>axes_norm.
         Inr (TensorTy (tensor_ty_new (ty_dtype tensor) (checker_reduce_shape (ty_shape tensor) axes_norm keepdims)), span)))"

fun reshape_runtime_dim :: "string list \<Rightarrow> type_env \<Rightarrow> (string \<times> value_type) option" where
  "reshape_runtime_dim [] env = None"
| "reshape_runtime_dim (dim # dims) env =
     (case (parse_usize dim, map_of env dim) of
        (None, Some vt) \<Rightarrow> Some (dim, vt)
      | _ \<Rightarrow> reshape_runtime_dim dims env)"

definition infer_reshape :: "type_env \<Rightarrow> value_type \<Rightarrow> ast_span \<Rightarrow> string list \<Rightarrow> ast_span \<Rightarrow> type_err_span + value_type \<times> ast_span" where
  "infer_reshape env arg_ty x_span dims span =
     with_tensor ''tensor.reshape'' x_span arg_ty (\<lambda>tensor.
       case reshape_runtime_dim dims env of
         Some (dim, vt) \<Rightarrow> type_err (ReshapeRuntimeValue dim vt) span
       | None \<Rightarrow>
           (let new_shape = shape_from_dims dims in
            if length new_shape \<noteq> length (ty_shape tensor)
            then type_err (ReshapeRank (length (ty_shape tensor)) (length new_shape)) span
            else case (checker_known_product (ty_shape tensor), checker_known_product new_shape) of
              (Some old, Some new) \<Rightarrow>
                if old \<noteq> new then type_err (ReshapeCount old new) span
                else Inr (TensorTy (tensor_ty_new (ty_dtype tensor) new_shape), span)
            | _ \<Rightarrow> Inr (TensorTy (tensor_ty_new (ty_dtype tensor) new_shape), span)))"

definition infer_expand_dims :: "value_type \<Rightarrow> ast_span \<Rightarrow> i32 \<Rightarrow> ast_span \<Rightarrow> type_err_span + value_type \<times> ast_span" where
  "infer_expand_dims arg_ty x_span axis span =
     with_tensor ''tensor.expand_dims'' x_span arg_ty (\<lambda>tensor.
       rbind (normalize_expand_axis axis (length (ty_shape tensor)) span) (\<lambda>axis.
         Inr (TensorTy (tensor_ty_new (ty_dtype tensor) (insert_at axis (Known 1) (ty_shape tensor))), span)))"

definition infer_squeeze :: "value_type \<Rightarrow> ast_span \<Rightarrow> i32 list \<Rightarrow> ast_span \<Rightarrow> type_err_span + value_type \<times> ast_span" where
  "infer_squeeze arg_ty x_span axes span =
     with_tensor ''tensor.squeeze'' x_span arg_ty (\<lambda>tensor.
       rbind (compute_squeeze_axes (ty_shape tensor) axes span) (\<lambda>axes_to_remove.
         Inr (TensorTy (tensor_ty_new (ty_dtype tensor)
           (map snd (filter (\<lambda>(idx, _). idx \<notin> set axes_to_remove) (enumerate 0 (ty_shape tensor))))), span)))"

definition infer_transpose :: "value_type \<Rightarrow> ast_span \<Rightarrow> i32 list option \<Rightarrow> ast_span \<Rightarrow> type_err_span + value_type \<times> ast_span" where
  "infer_transpose arg_ty x_span axes span =
     with_tensor ''tensor.transpose'' x_span arg_ty (\<lambda>tensor.
       let rank = length (ty_shape tensor) in
       rbind (case axes of
           Some lst \<Rightarrow> map_err (\<lambda>msg. \<lparr>te_msg = LinalgMsg ''tensor.transpose'' msg, te_span = span\<rparr>) (normalize_permutation lst rank)
         | None \<Rightarrow> Inr (default_transpose rank)) (\<lambda>perm.
       if length perm \<noteq> rank then type_err (TransposeAxes rank (length perm)) span
       else case permute_shape (ty_shape tensor) perm of
         Some shape \<Rightarrow> Inr (TensorTy (tensor_ty_new (ty_dtype tensor) shape), span)
       | None \<Rightarrow> type_err TypePanic span))"

definition infer_index :: "value_type \<Rightarrow> ast_span \<Rightarrow> i32 \<Rightarrow> i32 \<Rightarrow> ast_span \<Rightarrow> type_err_span + value_type \<times> ast_span" where
  "infer_index arg_ty x_span axis i span =
     with_tensor ''tensor.index'' x_span arg_ty (\<lambda>tensor.
       if ty_shape tensor = [] then type_err IndexRank span
       else rbind (checker_normalize_axis axis (length (ty_shape tensor)) span ''tensor.index'') (\<lambda>axis_norm.
         case dim_len (ty_shape tensor ! axis_norm) of
           Some len \<Rightarrow>
             if sint i < 0 \<or> nat (sint i) \<ge> len then type_err (IndexBounds i axis_norm len) span
             else Inr (TensorTy (tensor_ty_new (ty_dtype tensor) (remove_at axis_norm (ty_shape tensor))), span)
         | None \<Rightarrow> Inr (TensorTy (tensor_ty_new (ty_dtype tensor) (remove_at axis_norm (ty_shape tensor))), span)))"

definition infer_slice :: "value_type \<Rightarrow> ast_span \<Rightarrow> i32 \<Rightarrow> i32 \<Rightarrow> i32 \<Rightarrow> ast_span \<Rightarrow> type_err_span + value_type \<times> ast_span" where
  "infer_slice arg_ty x_span axis start ennd span =
     with_tensor ''tensor.slice'' x_span arg_ty (\<lambda>tensor.
       if sint start < 0 \<or> sint ennd < sint start then type_err (SliceOrder start ennd) span
       else rbind (checker_normalize_axis axis (length (ty_shape tensor)) span ''tensor.slice'') (\<lambda>axis_norm.
         let dim = ty_shape tensor ! axis_norm;
             new_dim = (case (dim_len dim, checker_slice_len start ennd) of
                 (Some _, Some len) \<Rightarrow> Known len
               | _ \<Rightarrow> Sym (checker_fresh_symbol ''_slice'' span));
             result = Inr (TensorTy (tensor_ty_new (ty_dtype tensor) ((ty_shape tensor)[axis_norm := new_dim])), span)
         in case dim_len dim of
              Some len \<Rightarrow> if nat (sint ennd) > len then type_err (SliceEnd ennd axis_norm len) span else result
            | None \<Rightarrow> result))"

definition infer_slice_stride :: "value_type \<Rightarrow> ast_span \<Rightarrow> i32 \<Rightarrow> i32 \<Rightarrow> i32 \<Rightarrow> i32 \<Rightarrow> ast_span \<Rightarrow> type_err_span + value_type \<times> ast_span" where
  "infer_slice_stride arg_ty x_span axis start ennd step span =
     with_tensor ''tensor.slice_stride'' x_span arg_ty (\<lambda>tensor.
       rbind (checker_normalize_axis axis (length (ty_shape tensor)) span ''tensor.slice_stride'') (\<lambda>axis_norm.
       rbind (case dim_len (ty_shape tensor ! axis_norm) of
           Some len \<Rightarrow>
             (case checker_slice_len_with_step (Some len) start ennd step of
                None \<Rightarrow> type_err StrideBounds span
              | Some result_len \<Rightarrow> Inr (Known result_len))
         | None \<Rightarrow>
             if sint step > 0 \<and> sint start \<ge> sint ennd \<or> sint step < 0 \<and> sint start \<le> sint ennd then Inr (Known 0)
             else Inr (Sym (checker_fresh_symbol ''_slice_stride'' span))) (\<lambda>new_dim.
       Inr (TensorTy (tensor_ty_new (ty_dtype tensor) ((ty_shape tensor)[axis_norm := new_dim])), span))))"

definition infer_gather ::
  "value_type \<Rightarrow> ast_span \<Rightarrow> i32 \<Rightarrow> value_type \<Rightarrow> ast_span \<Rightarrow> ast_span \<Rightarrow> ast_span \<Rightarrow> type_err_span + value_type \<times> ast_span" where
  "infer_gather x_ty x_span axis idx_ty idx_node_span idx_span span =
     (case (x_ty, idx_ty) of
        (TensorTy tensor, TensorTy idx_tensor) \<Rightarrow>
          if ty_dtype idx_tensor \<noteq> TI32 then type_err GatherIdxDtype idx_node_span
          else rbind (checker_normalize_axis axis (length (ty_shape tensor)) span ''tensor.gather'') (\<lambda>axis_norm.
            Inr (TensorTy (tensor_ty_new (ty_dtype tensor) (take axis_norm (ty_shape tensor) @ ty_shape idx_tensor @
              (if axis_norm < length (ty_shape tensor) then drop (axis_norm + 1) (ty_shape tensor) else []))), span))
      | (TensorTy _, _) \<Rightarrow> type_err GatherIdxTensor idx_span
      | _ \<Rightarrow> type_err (RequiresTensor ''tensor.gather'') x_span)"

definition infer_dot :: "value_type \<Rightarrow> value_type \<Rightarrow> ast_span \<Rightarrow> type_err_span + value_type \<times> ast_span" where
  "infer_dot lt rt span =
     (case (lt, rt) of
        (TensorTy ta, TensorTy tb) \<Rightarrow>
          if ty_dtype ta \<noteq> ty_dtype tb then type_err (DtypeMismatch ''tensor.dot'' ta tb) span
          else (case compute_matmul_shape_info (ty_shape ta) (ty_shape tb) of
             Inl msg \<Rightarrow> type_err (LinalgMsg ''tensor.dot'' msg) span
           | Inr info \<Rightarrow> Inr (TensorTy (tensor_ty_new (ty_dtype ta) (mm_result_shape info)), span))
      | _ \<Rightarrow> type_err (RequiresTensor ''tensor.dot'') span)"

definition infer_matmul :: "value_type \<Rightarrow> value_type \<Rightarrow> ast_span \<Rightarrow> type_err_span + value_type \<times> ast_span" where
  "infer_matmul lt rt span =
     (case (lt, rt) of
        (TensorTy ta, TensorTy tb) \<Rightarrow>
          if ty_dtype ta \<noteq> ty_dtype tb then type_err (DtypeMismatch ''tensor.matmul'' ta tb) span
          else (case (concrete_shape (ty_shape ta), concrete_shape (ty_shape tb)) of
             (Some lhs, Some rhs) \<Rightarrow>
               (case infer_output_shape ''tensor.matmul'' [lhs, rhs] of
                  Inr out \<Rightarrow> Inr (TensorTy (tensor_ty_new (ty_dtype ta) (shape_from_usize out)), span)
                | Inl e \<Rightarrow> type_err (EngineMsg ''tensor.matmul'' e) span)
           | _ \<Rightarrow>
               (case compute_matmul_shape_info (ty_shape ta) (ty_shape tb) of
                  Inl msg \<Rightarrow> type_err (LinalgMsg ''tensor.matmul'' msg) span
                | Inr info \<Rightarrow> Inr (TensorTy (tensor_ty_new (ty_dtype ta) (mm_result_shape info)), span)))
      | _ \<Rightarrow> type_err (RequiresTensor ''tensor.matmul'') span)"

text \<open>The error path of the operator indexes \<open>lhs_shape[0]\<close> and \<open>rhs_shape[0]\<close>, which panics on rank 0.\<close>

definition infer_tensor_matmul :: "value_type \<Rightarrow> value_type \<Rightarrow> ast_span \<Rightarrow> type_err_span + value_type \<times> ast_span" where
  "infer_tensor_matmul lt rt span =
     (case (lt, rt) of
        (TensorTy ta, TensorTy tb) \<Rightarrow>
          if ty_dtype ta \<noteq> ty_dtype tb then type_err (DtypeMismatch ''@'' ta tb) span
          else (case (concrete_shape (ty_shape ta), concrete_shape (ty_shape tb)) of
             (Some lhs, Some rhs) \<Rightarrow>
               (case infer_output_shape ''tensor.matmul'' [lhs, rhs] of
                  Inr out \<Rightarrow> Inr (TensorTy (tensor_ty_new (ty_dtype ta) (shape_from_usize out)), span)
                | Inl _ \<Rightarrow>
                    if lhs = [] \<or> rhs = [] then type_err TypePanic span
                    else type_err (MatmulInner (if 1 < length lhs then lhs ! 1 else lhs ! 0) (rhs ! 0)) span)
           | _ \<Rightarrow>
               (case compute_matmul_shape_info (ty_shape ta) (ty_shape tb) of
                  Inl msg \<Rightarrow> type_err (MatmulShape msg) span
                | Inr info \<Rightarrow> Inr (TensorTy (tensor_ty_new (ty_dtype ta) (mm_result_shape info)), span)))
      | _ \<Rightarrow> type_err (RequiresTensor ''@'') span)"

definition elem_scalar :: "value_type \<Rightarrow> bool" where
  "elem_scalar ty \<longleftrightarrow> ty \<in> {ScalarI32, ScalarI64, ScalarF32, ScalarF64}"

definition infer_elemwise :: "value_type \<Rightarrow> value_type \<Rightarrow> ast_span \<Rightarrow> type_err_span + value_type \<times> ast_span" where
  "infer_elemwise lt rt span =
     (case (lt, rt) of
        (TensorTy ta, TensorTy tb) \<Rightarrow>
          if ty_dtype ta \<noteq> ty_dtype tb then type_err (DtypeMismatch ''elementwise operator'' ta tb) span
          else (case checker_broadcast_shapes (ty_shape ta) (ty_shape tb) of
             Some shape \<Rightarrow> Inr (TensorTy (tensor_ty_new (ty_dtype ta) shape), span)
           | None \<Rightarrow> type_err (ElemwiseShape (ty_shape ta) (ty_shape tb)) span)
      | (TensorTy t, _) \<Rightarrow> if elem_scalar rt then Inr (TensorTy t, span) else type_err ElemwiseOperands span
      | (_, TensorTy t) \<Rightarrow> if elem_scalar lt then Inr (TensorTy t, span) else type_err ElemwiseOperands span
      | _ \<Rightarrow> type_err ElemwiseOperands span)"

definition infer_relu :: "value_type \<Rightarrow> ast_span \<Rightarrow> ast_span \<Rightarrow> type_err_span + value_type \<times> ast_span" where
  "infer_relu arg_ty x_span span = with_tensor ''tensor.relu'' x_span arg_ty (\<lambda>tensor. Inr (TensorTy tensor, span))"

definition conv_result_dtype :: "ir_dtype \<Rightarrow> ir_dtype \<Rightarrow> ir_dtype option" where
  "conv_result_dtype dx dw = (if dx = dw then Some dx else if dx = TF32 \<or> dw = TF32 then Some TF32 else None)"

definition infer_conv2d ::
  "value_type \<Rightarrow> ast_span \<Rightarrow> value_type \<Rightarrow> ast_span \<Rightarrow> usize \<Rightarrow> usize \<Rightarrow> conv_padding \<Rightarrow> ast_span \<Rightarrow>
    type_err_span + value_type \<times> ast_span" where
  "infer_conv2d x_ty x_span w_ty w_span stride_h stride_w padding span =
     (case (x_ty, w_ty) of
        (TensorTy x, TensorTy w) \<Rightarrow>
          if length (ty_shape x) \<noteq> 4 then type_err ConvInputLayout x_span
          else if length (ty_shape w) \<noteq> 4 then type_err ConvFilterLayout w_span
          else if \<not> conv_channels_compatible (ty_shape x ! 3) (ty_shape w ! 2)
          then type_err (ConvChannels (ty_shape x ! 3) (ty_shape w ! 2)) span
          else if dim_len (ty_shape w ! 0) = Some 0 then type_err ConvKernelHeight w_span
          else if dim_len (ty_shape w ! 1) = Some 0 then type_err ConvKernelWidth w_span
          else (case conv_result_dtype (ty_dtype x) (ty_dtype w) of
             None \<Rightarrow> type_err (ConvDtypes (ty_dtype x) (ty_dtype w)) span
           | Some dtype \<Rightarrow>
               rbind (checker_conv_output_dim (ty_shape x ! 1) (Some (ty_shape w ! 0)) stride_h padding span ''h'') (\<lambda>out_h.
               rbind (checker_conv_output_dim (ty_shape x ! 2) (Some (ty_shape w ! 1)) stride_w padding span ''w'') (\<lambda>out_w.
               Inr (TensorTy (tensor_ty_new dtype [ty_shape x ! 0, out_h, out_w, ty_shape w ! 3]), span))))
      | (TensorTy _, other) \<Rightarrow> type_err (ConvWeights other) w_span
      | (other, _) \<Rightarrow> type_err (ConvInput other) x_span)"

definition infer_tensor_binary :: "ast_binop \<Rightarrow> tensor_ty \<Rightarrow> tensor_ty \<Rightarrow> ast_span \<Rightarrow> type_err_span + value_type \<times> ast_span" where
  "infer_tensor_binary op ta tb span =
     (case combine_dtypes (TensorTy ta) (TensorTy tb) of
        Some dtype \<Rightarrow>
          (case (concrete_shape (ty_shape ta), concrete_shape (ty_shape tb)) of
             (Some lhs, Some rhs) \<Rightarrow>
               (case infer_output_shape (shape_op_for_binop op) [lhs, rhs] of
                  Inr out \<Rightarrow> Inr (TensorTy (tensor_ty_new dtype (shape_from_usize out)), span)
                | Inl e \<Rightarrow> type_err (EngineMsg (binop_display op) e) span)
           | _ \<Rightarrow>
               (case checker_broadcast_shapes (ty_shape ta) (ty_shape tb) of
                  Some shape \<Rightarrow> Inr (TensorTy (tensor_ty_new dtype shape), span)
                | None \<Rightarrow> type_err (CannotBroadcast (ty_shape ta) (ty_shape tb) op) span))
      | None \<Rightarrow> type_err (BinaryDtypes op ta tb) span)"

definition infer_scalar_binary :: "ast_binop \<Rightarrow> value_type \<Rightarrow> value_type \<Rightarrow> tensor_ty \<Rightarrow> ast_span \<Rightarrow> type_err_span + value_type \<times> ast_span" where
  "infer_scalar_binary op lt rt t span =
     (case combine_dtypes lt rt of
        Some dtype \<Rightarrow> Inr (TensorTy (tensor_ty_new dtype (ty_shape t)), span)
      | None \<Rightarrow>
          (case promote_scalar_to (ty_dtype t) of
             Some _ \<Rightarrow> type_err (ScalarPromotion op (ty_dtype t)) span
           | None \<Rightarrow> type_err (ScalarOperands op (ty_dtype t)) span))"

definition infer_binary :: "ast_binop \<Rightarrow> value_type \<Rightarrow> value_type \<Rightarrow> ast_span \<Rightarrow> type_err_span + value_type \<times> ast_span" where
  "infer_binary op lt rt span =
     (case (lt, rt) of
        (ScalarI32, ScalarI32) \<Rightarrow> Inr (ScalarI32, span)
      | (ScalarI64, ScalarI64) \<Rightarrow> Inr (ScalarI64, span)
      | (ScalarF32, ScalarF32) \<Rightarrow> Inr (ScalarF32, span)
      | (ScalarF64, ScalarF64) \<Rightarrow> Inr (ScalarF64, span)
      | (ScalarBool, ScalarBool) \<Rightarrow> Inr (ScalarBool, span)
      | (TensorTy ta, TensorTy tb) \<Rightarrow> infer_tensor_binary op ta tb span
      | (TensorTy t, ScalarI32) \<Rightarrow> infer_scalar_binary op lt rt t span
      | (ScalarI32, TensorTy t) \<Rightarrow> infer_scalar_binary op lt rt t span
      | _ \<Rightarrow> type_err IncompatibleTypes span)"

fun infer_literal :: "(string \<Rightarrow> bool) \<Rightarrow> type_env \<Rightarrow> literal \<Rightarrow> ast_span \<Rightarrow> type_err_span + value_type \<times> ast_span" where
  "infer_literal is_variant env (LInt _) span = Inr (ScalarI32, span)"
| "infer_literal is_variant env (LFloat _) span = Inr (ScalarF64, span)"
| "infer_literal is_variant env (LStr _) span = Inr (ScalarI32, span)"
| "infer_literal is_variant env (LIdent name) span =
     (case map_of env name of
        Some t \<Rightarrow> Inr (t, span)
      | None \<Rightarrow>
          if is_variant name then Inr (ScalarI64, span)
          else type_err (UnknownIdentifier name (closest_identifier name (map fst env))) span)"

fun infer_expr ::
  "(string \<Rightarrow> bool) \<Rightarrow> ('x \<Rightarrow> ast_span \<Rightarrow> type_env \<Rightarrow> type_err_span + value_type \<times> ast_span) \<Rightarrow> type_env \<Rightarrow> 'x node \<Rightarrow>
    type_err_span + value_type \<times> ast_span" where
  "infer_expr vs other env (Lit l span) = infer_literal vs env l span"
| "infer_expr vs other env (Paren inner span) = rbind (infer_expr vs other env inner) (\<lambda>(ty, _). Inr (ty, span))"
| "infer_expr vs other env (CallTensorSum x axes keepdims span) =
     rbind (infer_expr vs other env x) (\<lambda>(ty, _). infer_reduce ''tensor.sum'' ty (node_span x) axes keepdims span)"
| "infer_expr vs other env (CallTensorMean x axes keepdims span) =
     rbind (infer_expr vs other env x) (\<lambda>(ty, _). infer_reduce ''tensor.mean'' ty (node_span x) axes keepdims span)"
| "infer_expr vs other env (CallReshape x dims span) =
     rbind (infer_expr vs other env x) (\<lambda>(ty, _). infer_reshape env ty (node_span x) dims span)"
| "infer_expr vs other env (CallExpandDims x axis span) =
     rbind (infer_expr vs other env x) (\<lambda>(ty, _). infer_expand_dims ty (node_span x) axis span)"
| "infer_expr vs other env (CallSqueeze x axes span) =
     rbind (infer_expr vs other env x) (\<lambda>(ty, _). infer_squeeze ty (node_span x) axes span)"
| "infer_expr vs other env (CallTranspose x axes span) =
     rbind (infer_expr vs other env x) (\<lambda>(ty, _). infer_transpose ty (node_span x) axes span)"
| "infer_expr vs other env (CallIndex x axis i span) =
     rbind (infer_expr vs other env x) (\<lambda>(ty, _). infer_index ty (node_span x) axis i span)"
| "infer_expr vs other env (CallSlice x axis start ennd span) =
     rbind (infer_expr vs other env x) (\<lambda>(ty, _). infer_slice ty (node_span x) axis start ennd span)"
| "infer_expr vs other env (CallSliceStride x axis start ennd step span) =
     (if step = 0 then type_err StrideZero span
      else rbind (infer_expr vs other env x) (\<lambda>(ty, _). infer_slice_stride ty (node_span x) axis start ennd step span))"
| "infer_expr vs other env (CallGather x axis idx span) =
     rbind (infer_expr vs other env x) (\<lambda>(x_ty, _).
     rbind (infer_expr vs other env idx) (\<lambda>(idx_ty, idx_span).
       infer_gather x_ty (node_span x) axis idx_ty (node_span idx) idx_span span))"
| "infer_expr vs other env (CallDot a b span) =
     rbind (infer_expr vs other env a) (\<lambda>(lt, _). rbind (infer_expr vs other env b) (\<lambda>(rt, _). infer_dot lt rt span))"
| "infer_expr vs other env (CallMatMul a b span) =
     rbind (infer_expr vs other env a) (\<lambda>(lt, _). rbind (infer_expr vs other env b) (\<lambda>(rt, _). infer_matmul lt rt span))"
| "infer_expr vs other env (TensorMatmul a b span) =
     rbind (infer_expr vs other env a) (\<lambda>(lt, _). rbind (infer_expr vs other env b) (\<lambda>(rt, _). infer_tensor_matmul lt rt span))"
| "infer_expr vs other env (TensorElemwise op a b span) =
     rbind (infer_expr vs other env a) (\<lambda>(lt, _). rbind (infer_expr vs other env b) (\<lambda>(rt, _). infer_elemwise lt rt span))"
| "infer_expr vs other env (CallTensorRelu x span) =
     rbind (infer_expr vs other env x) (\<lambda>(ty, _). infer_relu ty (node_span x) span)"
| "infer_expr vs other env (CallTensorRand shape span) =
     Inr (TensorTy (tensor_ty_new TF32 (map Known shape)), span)"
| "infer_expr vs other env (CallTensorConv2d x w stride_h stride_w padding span) =
     (if stride_h = 0 \<or> stride_w = 0 then type_err ConvStrides span
      else rbind (infer_expr vs other env x) (\<lambda>(x_ty, _). rbind (infer_expr vs other env w) (\<lambda>(w_ty, _).
        infer_conv2d x_ty (node_span x) w_ty (node_span w) stride_h stride_w padding span)))"
| "infer_expr vs other env (Binary op a b span) =
     rbind (infer_expr vs other env a) (\<lambda>(lt, _). rbind (infer_expr vs other env b) (\<lambda>(rt, _). infer_binary op lt rt span))"
| "infer_expr vs other env (Other x span) = other x span env"

end
