(* ===== verification/Tensor_Eval.thy ===== *)
theory Tensor_Eval
  imports Ast
begin

text \<open>
  The tensor fragment of the evaluator: \<open>eval_value_expr_mode\<close> and the operators of
  \<^verbatim>\<open>src/eval/mod.rs\<close> with the shape previews of \<^verbatim>\<open>src/eval/stdlib/tensor.rs\<close>, in the default build
  (without \<open>cpu-buffers\<close>, so that the execution mode has no effect on tensors).  The process-wide symbol
  counter is the state that the evaluation threads; the thread-local tables (imported symbols,
  constants, \<open>u64\<close> variables, marshalled strings) and the node kinds outside the fragment are the fields
  of \<open>eval_ctx\<close>.  A panic is the error \<open>Panicked\<close>, which unwinds past every caller as an error does.
\<close>

datatype panic_cause = DivisionOverflow | CapacityOverflow | IndexOutOfRange

datatype eval_msg =
    NoImportedConstant string
  | StringRecordCompare ast_binop i64 i64
  | EvalConv linalg_error
  | EvalConvStrides
  | EvalConvInputLayout
  | EvalConvFilterLayout
  | EvalConvChannels shape_dim shape_dim
  | EvalConvKernelHeight
  | EvalConvKernelWidth
  | EvalConvDtypes ir_dtype ir_dtype
  | EvalDtypeMismatch string ir_dtype ir_dtype
  | EvalLinalg string linalg_error

datatype eval_error =
    Unsupported
  | UnsupportedMsg eval_msg
  | DivZero
  | UnknownVar string
  | OutOfBounds
  | OtherError
  | Panicked panic_cause

type_synonym eval_env = "string \<rightharpoonup> ir_value"
type_synonym 'a evaluation = "(usize, eval_error, 'a) stm"

record 'x eval_ctx =
  cx_overflow_checks :: bool
  cx_bound :: "ast_span \<Rightarrow> bool"
  cx_const :: "string \<Rightarrow> ast_span \<Rightarrow> eval_error + ir_value option"
  cx_u64_vars :: "string set"
  cx_other_u64 :: "'x \<Rightarrow> bool"
  cx_str_record :: "i64 \<Rightarrow> bool"
  cx_other :: "'x \<Rightarrow> ast_span \<Rightarrow> eval_env \<Rightarrow> ir_value evaluation"

subsection \<open>Scalar operators\<close>

definition guard_str_record_value_op :: "(i64 \<Rightarrow> bool) \<Rightarrow> ast_binop \<Rightarrow> i64 \<Rightarrow> i64 \<Rightarrow> eval_error + unit" where
  "guard_str_record_value_op is_str_record op l r =
     (let is_value_comparison = (op \<in> {AstEq, AstNe, AstLt, AstLe, AstGt, AstGe}) in
      if is_value_comparison \<and> is_str_record l \<and> is_str_record r
      then Inl (UnsupportedMsg (StringRecordCompare op l r)) else Inr ())"

definition or_panic :: "panic_cause \<Rightarrow> 'a option \<Rightarrow> eval_error + 'a" where
  "or_panic cause v = (case v of Some x \<Rightarrow> Inr x | None \<Rightarrow> Inl (Panicked cause))"

definition apply_int_op :: "(i64 \<Rightarrow> bool) \<Rightarrow> ast_binop \<Rightarrow> i64 \<Rightarrow> i64 \<Rightarrow> eval_error + i64" where
  "apply_int_op is_str_record op l r =
     rbind (guard_str_record_value_op is_str_record op l r) (\<lambda>_.
       case op of
         AstAdd \<Rightarrow> Inr (l + r)
       | AstSub \<Rightarrow> Inr (l - r)
       | AstMul \<Rightarrow> Inr (l * r)
       | AstDiv \<Rightarrow> if r = 0 then Inl DivZero else or_panic DivisionOverflow (arith_div l r)
       | AstMod \<Rightarrow> if r = 0 then Inl DivZero else or_panic DivisionOverflow (arith_rem l r)
       | AstLt \<Rightarrow> Inr (i64_of_bool (sint l < sint r))
       | AstLe \<Rightarrow> Inr (i64_of_bool (sint l \<le> sint r))
       | AstGt \<Rightarrow> Inr (i64_of_bool (sint l > sint r))
       | AstGe \<Rightarrow> Inr (i64_of_bool (sint l \<ge> sint r))
       | AstEq \<Rightarrow> Inr (i64_of_bool (l = r))
       | AstNe \<Rightarrow> Inr (i64_of_bool (l \<noteq> r)))"

definition apply_int_op_u64 :: "(i64 \<Rightarrow> bool) \<Rightarrow> ast_binop \<Rightarrow> i64 \<Rightarrow> i64 \<Rightarrow> eval_error + i64" where
  "apply_int_op_u64 is_str_record op l r =
     rbind (guard_str_record_value_op is_str_record op l r) (\<lambda>_.
       case op of
         AstDiv \<Rightarrow> Inr (if r = 0 then 0 else l div r)
       | AstMod \<Rightarrow> Inr (if r = 0 then 0 else l mod r)
       | AstLt \<Rightarrow> Inr (i64_of_bool (l < r))
       | AstLe \<Rightarrow> Inr (i64_of_bool (l \<le> r))
       | AstGt \<Rightarrow> Inr (i64_of_bool (l > r))
       | AstGe \<Rightarrow> Inr (i64_of_bool (l \<ge> r))
       | _ \<Rightarrow> apply_int_op is_str_record op l r)"

definition f64_is_zero :: "f64 \<Rightarrow> bool" where
  "f64_is_zero v = f64_eq v (f64_zero False)"

definition apply_float_op :: "ast_binop \<Rightarrow> f64 \<Rightarrow> f64 \<Rightarrow> eval_error + f64" where
  "apply_float_op op l r =
     (case op of
        AstAdd \<Rightarrow> Inr (f64_add l r)
      | AstSub \<Rightarrow> Inr (f64_sub l r)
      | AstMul \<Rightarrow> Inr (f64_mul l r)
      | AstDiv \<Rightarrow> if f64_is_zero r then Inl DivZero else Inr (f64_div l r)
      | AstMod \<Rightarrow> if f64_is_zero r then Inl DivZero else Inr (f64_rem l r)
      | AstLt \<Rightarrow> Inr (f64_of_bool (f64_lt l r))
      | AstLe \<Rightarrow> Inr (f64_of_bool (f64_le l r))
      | AstGt \<Rightarrow> Inr (f64_of_bool (f64_lt r l))
      | AstGe \<Rightarrow> Inr (f64_of_bool (f64_le r l))
      | AstEq \<Rightarrow> Inr (f64_of_bool (f64_eq l r))
      | AstNe \<Rightarrow> Inr (f64_of_bool (\<not> f64_eq l r)))"

subsection \<open>Tensor operators\<close>

definition tensor_scalar_fill :: "ast_binop \<Rightarrow> f64 \<Rightarrow> f64 \<Rightarrow> bool \<Rightarrow> f64" where
  "tensor_scalar_fill op f scalar tensor_on_left =
     (case op of
        AstAdd \<Rightarrow> f64_add f scalar
      | AstSub \<Rightarrow> if tensor_on_left then f64_sub f scalar else f64_sub scalar f
      | AstMul \<Rightarrow> f64_mul f scalar
      | AstDiv \<Rightarrow> if tensor_on_left then f64_div f scalar else f64_div scalar f
      | AstMod \<Rightarrow> if tensor_on_left then f64_rem f scalar else f64_rem scalar f
      | AstLt \<Rightarrow> f64_of_bool (tensor_on_left \<and> f64_lt f scalar \<or> \<not> tensor_on_left \<and> f64_lt scalar f)
      | AstLe \<Rightarrow> f64_of_bool (tensor_on_left \<and> f64_le f scalar \<or> \<not> tensor_on_left \<and> f64_le scalar f)
      | AstGt \<Rightarrow> f64_of_bool (tensor_on_left \<and> f64_lt scalar f \<or> \<not> tensor_on_left \<and> f64_lt f scalar)
      | AstGe \<Rightarrow> f64_of_bool (tensor_on_left \<and> f64_le scalar f \<or> \<not> tensor_on_left \<and> f64_le f scalar)
      | AstEq \<Rightarrow> f64_of_bool (f64_eq f scalar)
      | AstNe \<Rightarrow> f64_of_bool (\<not> f64_eq f scalar))"

definition apply_tensor_scalar :: "ast_binop \<Rightarrow> tensor_val \<Rightarrow> f64 \<Rightarrow> bool \<Rightarrow> eval_error + ir_value" where
  "apply_tensor_scalar op tensor scalar tensor_on_left =
     (if op = AstDiv \<and> tensor_on_left \<and> f64_is_zero scalar then Inl DivZero
      else case tv_fill tensor of
        Some f \<Rightarrow>
          if op = AstDiv \<and> \<not> tensor_on_left \<and> f64_is_zero f then Inl DivZero
          else Inr (VTensor (tensor_val_new (tv_dtype tensor) (tv_shape tensor)
                 (Some (tensor_scalar_fill op f scalar tensor_on_left))))
      | None \<Rightarrow> Inr (VTensor (tensor_val_new (tv_dtype tensor) (tv_shape tensor) None)))"

definition tensor_tensor_fill :: "ast_binop \<Rightarrow> f64 \<Rightarrow> f64 \<Rightarrow> f64" where
  "tensor_tensor_fill op a b =
     (case op of
        AstAdd \<Rightarrow> f64_add a b
      | AstSub \<Rightarrow> f64_sub a b
      | AstMul \<Rightarrow> f64_mul a b
      | AstDiv \<Rightarrow> f64_div a b
      | AstMod \<Rightarrow> f64_rem a b
      | AstLt \<Rightarrow> f64_of_bool (f64_lt a b)
      | AstLe \<Rightarrow> f64_of_bool (f64_le a b)
      | AstGt \<Rightarrow> f64_of_bool (f64_lt b a)
      | AstGe \<Rightarrow> f64_of_bool (f64_le b a)
      | AstEq \<Rightarrow> f64_of_bool (f64_eq a b)
      | AstNe \<Rightarrow> f64_of_bool (\<not> f64_eq a b))"

definition apply_tensor_tensor :: "ast_binop \<Rightarrow> tensor_val \<Rightarrow> tensor_val \<Rightarrow> eval_error + ir_value" where
  "apply_tensor_tensor op l r =
     (if tv_dtype l \<noteq> tv_dtype r then Inl Unsupported
      else case eval_broadcast_shapes (tv_shape l) (tv_shape r) of
        None \<Rightarrow> Inl Unsupported
      | Some shape \<Rightarrow>
          if op = AstDiv \<and> (case tv_fill r of Some fill \<Rightarrow> f64_is_zero fill | None \<Rightarrow> False) then Inl DivZero
          else Inr (VTensor (tensor_val_new (tv_dtype l) shape
            (case (tv_fill l, tv_fill r) of (Some a, Some b) \<Rightarrow> Some (tensor_tensor_fill op a b) | _ \<Rightarrow> None))))"

fun apply_binary :: "(i64 \<Rightarrow> bool) \<Rightarrow> ast_binop \<Rightarrow> ir_value \<Rightarrow> ir_value \<Rightarrow> eval_error + ir_value" where
  "apply_binary rec op (VInt l) (VInt r) = rbind (apply_int_op rec op l r) (\<lambda>v. Inr (VInt v))"
| "apply_binary rec op (VFloat l) (VFloat r) = rbind (apply_float_op op l r) (\<lambda>v. Inr (VFloat v))"
| "apply_binary rec op (VFloat l) (VInt r) = rbind (apply_float_op op l (f64_of_i64 r)) (\<lambda>v. Inr (VFloat v))"
| "apply_binary rec op (VInt l) (VFloat r) = rbind (apply_float_op op (f64_of_i64 l) r) (\<lambda>v. Inr (VFloat v))"
| "apply_binary rec op (VStr s) (VInt n) =
     (if op = AstMul then Inr (VStr (concat (replicate (nat (max (sint n) 0)) s))) else Inl Unsupported)"
| "apply_binary rec op (VTensor t) (VInt s) = apply_tensor_scalar op t (f64_of_i64 s) True"
| "apply_binary rec op (VInt s) (VTensor t) = apply_tensor_scalar op t (f64_of_i64 s) False"
| "apply_binary rec op (VTensor t) (VFloat s) = apply_tensor_scalar op t s True"
| "apply_binary rec op (VFloat s) (VTensor t) = apply_tensor_scalar op t s False"
| "apply_binary rec op (VTensor a) (VTensor b) = apply_tensor_tensor op a b"
| "apply_binary rec op _ _ = Inl Unsupported"

subsection \<open>Shape previews\<close>

definition eval_normalize_axis :: "i32 \<Rightarrow> usize \<Rightarrow> eval_error + usize" where
  "eval_normalize_axis axis rank =
     (let rank_i32 = of_nat rank; idx = (if sint axis < 0 then rank_i32 + axis else axis) in
      if sint idx < 0 \<or> sint idx \<ge> sint rank_i32 then Inl Unsupported else Inr (nat (sint idx)))"

fun eval_axes_loop :: "i32 list \<Rightarrow> usize \<Rightarrow> usize set \<Rightarrow> usize list \<Rightarrow> eval_error + usize list" where
  "eval_axes_loop [] rank seen normalized = Inr normalized"
| "eval_axes_loop (axis # axes) rank seen normalized =
     rbind (eval_normalize_axis axis rank) (\<lambda>idx.
       if idx \<in> seen then Inl Unsupported else eval_axes_loop axes rank (insert idx seen) (normalized @ [idx]))"

definition eval_normalize_axes_list :: "i32 list \<Rightarrow> usize \<Rightarrow> eval_error + usize list" where
  "eval_normalize_axes_list axes rank = rbind (eval_axes_loop axes rank {} []) (\<lambda>normalized. Inr (sort normalized))"

definition eval_normalize_reduce_axes :: "i32 list \<Rightarrow> usize \<Rightarrow> eval_error + usize list" where
  "eval_normalize_reduce_axes axes rank = (if axes = [] then Inr [0..<rank] else eval_normalize_axes_list axes rank)"

definition eval_reduce_shape :: "shape_dim list \<Rightarrow> usize list \<Rightarrow> bool \<Rightarrow> shape_dim list" where
  "eval_reduce_shape shape axes keepdims =
     (if keepdims then fold (\<lambda>axis out. if axis < length out then out[axis := Known 1] else out) axes shape
      else map snd (filter (\<lambda>(idx, _). idx \<notin> set axes) (enumerate 0 shape)))"

fun product_of_axes_loop :: "shape_dim list \<Rightarrow> usize list \<Rightarrow> usize \<Rightarrow> usize option" where
  "product_of_axes_loop shape [] tot = Some tot"
| "product_of_axes_loop shape (axis # axes) tot =
     (case dim_at shape axis of
        Some (Known n) \<Rightarrow> if tot * n < 2 ^ 64 then product_of_axes_loop shape axes (tot * n) else None
      | _ \<Rightarrow> None)"

definition product_of_axes :: "shape_dim list \<Rightarrow> usize list \<Rightarrow> usize option" where
  "product_of_axes shape axes = (if axes = [] then Some 1 else product_of_axes_loop shape axes 1)"

text \<open>Letter-for-letter the functions of \<^verbatim>\<open>src/shapes/mod.rs\<close>.\<close>

definition eval_known_product :: "shape_dim list \<Rightarrow> usize option" where
  "eval_known_product = known_product"

definition eval_slice_len_with_step :: "usize option \<Rightarrow> i32 \<Rightarrow> i32 \<Rightarrow> i32 \<Rightarrow> usize option" where
  "eval_slice_len_with_step = slice_len_with_step"

definition eval_normalize_expand_axis :: "i32 \<Rightarrow> usize \<Rightarrow> eval_error + usize" where
  "eval_normalize_expand_axis axis rank =
     (let extended = rank + 1; idx = (if sint axis < 0 then of_nat extended + axis else axis) in
      if sint idx < 0 \<or> sint idx > sint (of_nat extended - 1 :: i32) then Inl Unsupported else Inr (nat (sint idx)))"

definition eval_squeeze_axes :: "shape_dim list \<Rightarrow> i32 list \<Rightarrow> eval_error + usize list" where
  "eval_squeeze_axes shape axes =
     (if axes = [] then Inr (map fst (filter (\<lambda>(_, dim). dim = Known 1) (enumerate 0 shape)))
      else rbind (eval_normalize_axes_list axes (length shape)) (\<lambda>normalized.
        if list_all (\<lambda>axis. dim_at shape axis = Some (Known 1)) normalized then Inr normalized else Inl Unsupported))"

definition dims_from_strings :: "string list \<Rightarrow> shape_dim list" where
  "dims_from_strings dims = map (\<lambda>d. case parse_usize d of Some n \<Rightarrow> Known n | None \<Rightarrow> Sym d) dims"

definition f64_of_usize :: "usize \<Rightarrow> f64" where
  "f64_of_usize n = f64_round False n 0 False"

definition sum_tensor_preview :: "tensor_val \<Rightarrow> i32 list \<Rightarrow> bool \<Rightarrow> eval_error + tensor_val" where
  "sum_tensor_preview tensor axes keepdims =
     rbind (eval_normalize_reduce_axes axes (length (tv_shape tensor))) (\<lambda>axes_norm.
       Inr (tensor_val_new (tv_dtype tensor) (eval_reduce_shape (tv_shape tensor) axes_norm keepdims)
         (case (tv_fill tensor, product_of_axes (tv_shape tensor) axes_norm) of
            (Some fill, Some count) \<Rightarrow> Some (f64_mul fill (f64_of_usize count))
          | _ \<Rightarrow> None)))"

definition mean_tensor_preview :: "tensor_val \<Rightarrow> i32 list \<Rightarrow> bool \<Rightarrow> eval_error + tensor_val" where
  "mean_tensor_preview tensor axes keepdims =
     rbind (eval_normalize_reduce_axes axes (length (tv_shape tensor))) (\<lambda>axes_norm.
       Inr (tensor_val_new (tv_dtype tensor) (eval_reduce_shape (tv_shape tensor) axes_norm keepdims) (tv_fill tensor)))"

definition reshape_tensor_preview :: "tensor_val \<Rightarrow> string list \<Rightarrow> eval_error + tensor_val" where
  "reshape_tensor_preview tensor dims =
     (let new_shape = dims_from_strings dims in
      if length new_shape \<noteq> length (tv_shape tensor) then Inl Unsupported
      else case (eval_known_product (tv_shape tensor), eval_known_product new_shape) of
        (Some old, Some new) \<Rightarrow>
          if old \<noteq> new then Inl Unsupported else Inr (tensor_val_new (tv_dtype tensor) new_shape (tv_fill tensor))
      | _ \<Rightarrow> Inr (tensor_val_new (tv_dtype tensor) new_shape (tv_fill tensor)))"

definition expand_dims_tensor_preview :: "tensor_val \<Rightarrow> i32 \<Rightarrow> eval_error + tensor_val" where
  "expand_dims_tensor_preview tensor axis =
     rbind (eval_normalize_expand_axis axis (length (tv_shape tensor))) (\<lambda>axis.
       Inr (tensor_val_new (tv_dtype tensor) (insert_at axis (Known 1) (tv_shape tensor)) (tv_fill tensor)))"

definition squeeze_tensor_preview :: "tensor_val \<Rightarrow> i32 list \<Rightarrow> eval_error + tensor_val" where
  "squeeze_tensor_preview tensor axes =
     rbind (eval_squeeze_axes (tv_shape tensor) axes) (\<lambda>axes_to_remove.
       Inr (tensor_val_new (tv_dtype tensor)
         (map snd (filter (\<lambda>(idx, _). idx \<notin> set axes_to_remove) (enumerate 0 (tv_shape tensor)))) (tv_fill tensor)))"

definition transpose_tensor_preview :: "tensor_val \<Rightarrow> i32 list option \<Rightarrow> eval_error + tensor_val \<times> usize list" where
  "transpose_tensor_preview tensor axes =
     (let rank = length (tv_shape tensor) in
      rbind (case axes of
          Some spec \<Rightarrow> map_err (\<lambda>msg. UnsupportedMsg (EvalLinalg ''tensor.transpose'' msg)) (normalize_permutation spec rank)
        | None \<Rightarrow> Inr (default_transpose rank)) (\<lambda>perm.
      rbind (or_panic IndexOutOfRange (permute_shape (tv_shape tensor) perm)) (\<lambda>shape.
        Inr (tensor_val_new (tv_dtype tensor) shape (tv_fill tensor), perm))))"

definition index_tensor_preview :: "tensor_val \<Rightarrow> i32 \<Rightarrow> i32 \<Rightarrow> eval_error + tensor_val" where
  "index_tensor_preview tensor axis i =
     (let rank = length (tv_shape tensor) in
      if rank = 0 then Inl Unsupported
      else rbind (eval_normalize_axis axis rank) (\<lambda>axis.
        if (case tv_shape tensor ! axis of Known n \<Rightarrow> sint i < 0 \<or> nat (sint i) \<ge> n | Sym _ \<Rightarrow> False) then Inl OutOfBounds
        else Inr (tensor_val_new (tv_dtype tensor) (remove_at axis (tv_shape tensor)) (tv_fill tensor))))"

definition slice_tensor_preview :: "tensor_val \<Rightarrow> i32 \<Rightarrow> i32 \<Rightarrow> i32 \<Rightarrow> eval_error + tensor_val" where
  "slice_tensor_preview tensor axis start ennd =
     (if sint start < 0 \<or> sint ennd < sint start then Inl Unsupported
      else rbind (eval_normalize_axis axis (length (tv_shape tensor))) (\<lambda>axis.
        rbind (case tv_shape tensor ! axis of
            Known n \<Rightarrow> if nat (sint ennd) > n then Inl OutOfBounds else Inr (Known (nat (sint (ennd - start) mod 2 ^ 64)))
          | Sym s \<Rightarrow> Inr (Sym s)) (\<lambda>new_dim.
        Inr (tensor_val_new (tv_dtype tensor) ((tv_shape tensor)[axis := new_dim]) (tv_fill tensor)))))"

text \<open>The operations that make symbols thread the counter.\<close>

definition fresh_symbolM :: "string \<Rightarrow> string evaluation" where
  "fresh_symbolM prefix = (\<lambda>counter. Inr (fresh_symbol prefix counter))"

definition slice_stride_tensor_preview :: "tensor_val \<Rightarrow> i32 \<Rightarrow> i32 \<Rightarrow> i32 \<Rightarrow> i32 \<Rightarrow> tensor_val evaluation" where
  "slice_stride_tensor_preview tensor axis start ennd step =
     (if step = 0 then failM Unsupported
      else bindM (liftR (eval_normalize_axis axis (length (tv_shape tensor)))) (\<lambda>axis.
        bindM (case tv_shape tensor ! axis of
            Known n \<Rightarrow>
              (case eval_slice_len_with_step (Some n) start ennd step of
                 None \<Rightarrow> failM Unsupported
               | Some len \<Rightarrow> returnM (Known len))
          | Sym _ \<Rightarrow>
              if sint step > 0 \<and> sint start \<ge> sint ennd \<or> sint step < 0 \<and> sint start \<le> sint ennd then returnM (Known 0)
              else bindM (fresh_symbolM ''_slice_stride'') (\<lambda>s. returnM (Sym s))) (\<lambda>new_dim.
        returnM (tensor_val_new (tv_dtype tensor) ((tv_shape tensor)[axis := new_dim]) (tv_fill tensor)))))"

definition gather_tensor_preview :: "tensor_val \<Rightarrow> i32 \<Rightarrow> tensor_val \<Rightarrow> eval_error + tensor_val" where
  "gather_tensor_preview tensor axis idx =
     (if tv_dtype idx \<noteq> TI32 then Inl Unsupported
      else rbind (eval_normalize_axis axis (length (tv_shape tensor))) (\<lambda>axis.
        Inr (tensor_val_new (tv_dtype tensor) (take axis (tv_shape tensor) @ tv_shape idx @
          (if axis < length (tv_shape tensor) then drop (axis + 1) (tv_shape tensor) else [])) (tv_fill tensor))))"

definition eval_matmul_shape_info :: "tensor_val \<Rightarrow> tensor_val \<Rightarrow> string \<Rightarrow> eval_error + matmul_shape_info" where
  "eval_matmul_shape_info a b op =
     (if tv_dtype a \<noteq> tv_dtype b then Inl (UnsupportedMsg (EvalDtypeMismatch op (tv_dtype a) (tv_dtype b)))
      else map_err (\<lambda>msg. UnsupportedMsg (EvalLinalg op msg)) (compute_matmul_shape_info (tv_shape a) (tv_shape b)))"

definition matmul_fill :: "tensor_val \<Rightarrow> tensor_val \<Rightarrow> matmul_shape_info \<Rightarrow> f64 option" where
  "matmul_fill a b info =
     (case (tv_fill a, tv_fill b, known_dim_value (mm_k_dim info)) of
        (Some fa, Some fb, Some k) \<Rightarrow> Some (f64_mul (f64_mul fa fb) (f64_of_usize k))
      | _ \<Rightarrow> None)"

definition matmul_tensor_preview_with_info :: "tensor_val \<Rightarrow> tensor_val \<Rightarrow> eval_error + tensor_val \<times> matmul_shape_info" where
  "matmul_tensor_preview_with_info a b =
     rbind (eval_matmul_shape_info a b ''tensor.matmul'') (\<lambda>info.
       Inr (tensor_val_new (tv_dtype a) (mm_result_shape info) (matmul_fill a b info), info))"

definition matmul_tensor_preview :: "tensor_val \<Rightarrow> tensor_val \<Rightarrow> eval_error + tensor_val" where
  "matmul_tensor_preview a b = rbind (matmul_tensor_preview_with_info a b) (\<lambda>(t, _). Inr t)"

definition dot_tensor_preview_with_info :: "tensor_val \<Rightarrow> tensor_val \<Rightarrow> eval_error + tensor_val \<times> matmul_shape_info" where
  "dot_tensor_preview_with_info a b =
     rbind (eval_matmul_shape_info a b ''tensor.dot'') (\<lambda>info.
       Inr (tensor_val_new (tv_dtype a) (mm_result_shape info) (matmul_fill a b info), info))"

definition dot_tensor_preview :: "tensor_val \<Rightarrow> tensor_val \<Rightarrow> eval_error + tensor_val" where
  "dot_tensor_preview a b = rbind (dot_tensor_preview_with_info a b) (\<lambda>(t, _). Inr t)"

definition relu_fill :: "f64 option \<Rightarrow> f64 option" where
  "relu_fill fill = map_option (\<lambda>f. if f64_lt f (f64_zero False) then f64_zero False else f) fill"

definition relu_tensor :: "tensor_val \<Rightarrow> eval_error + tensor_val" where
  "relu_tensor tensor = Inr (tensor_val_new (tv_dtype tensor) (tv_shape tensor) (relu_fill (tv_fill tensor)))"

definition conv_dtype :: "ir_dtype \<Rightarrow> ir_dtype \<Rightarrow> ir_dtype option" where
  "conv_dtype dx dw = (if dx = dw then Some dx else if dx = TF32 \<or> dw = TF32 then Some TF32 else None)"

fun conv_channels_match :: "shape_dim \<Rightarrow> shape_dim \<Rightarrow> bool" where
  "conv_channels_match (Known x) (Known y) \<longleftrightarrow> x = y"
| "conv_channels_match (Sym sa) (Sym sb) \<longleftrightarrow> sa = sb"
| "conv_channels_match _ _ \<longleftrightarrow> True"

definition conv_output_dim_eval :: "shape_dim \<Rightarrow> shape_dim option \<Rightarrow> usize \<Rightarrow> conv_padding \<Rightarrow> shape_dim evaluation" where
  "conv_output_dim_eval inp ker stride padding =
     (let input_known = dim_len inp; kernel_known = Option.bind ker dim_len;
          res = (case padding of
             Valid \<Rightarrow> conv_output_dim_valid input_known kernel_known stride
           | Same \<Rightarrow> conv_output_dim_same input_known stride)
      in case res of
           Inr (Some v) \<Rightarrow> returnM (Known v)
         | Inr None \<Rightarrow> bindM (fresh_symbolM ''_conv'') (\<lambda>s. returnM (Sym s))
         | Inl msg \<Rightarrow> failM (UnsupportedMsg (EvalConv msg)))"

definition conv2d_tensor_preview :: "tensor_val \<Rightarrow> tensor_val \<Rightarrow> usize \<Rightarrow> usize \<Rightarrow> conv_padding \<Rightarrow> tensor_val evaluation" where
  "conv2d_tensor_preview x w stride_h stride_w padding =
     (let xs = tv_shape x; ws = tv_shape w in
      if stride_h = 0 \<or> stride_w = 0 then failM (UnsupportedMsg EvalConvStrides)
      else if length xs \<noteq> 4 then failM (UnsupportedMsg EvalConvInputLayout)
      else if length ws \<noteq> 4 then failM (UnsupportedMsg EvalConvFilterLayout)
      else if \<not> conv_channels_match (xs ! 3) (ws ! 2) then failM (UnsupportedMsg (EvalConvChannels (xs ! 3) (ws ! 2)))
      else if ws ! 0 = Known 0 then failM (UnsupportedMsg EvalConvKernelHeight)
      else if ws ! 1 = Known 0 then failM (UnsupportedMsg EvalConvKernelWidth)
      else case conv_dtype (tv_dtype x) (tv_dtype w) of
        None \<Rightarrow> failM (UnsupportedMsg (EvalConvDtypes (tv_dtype x) (tv_dtype w)))
      | Some dtype \<Rightarrow>
          bindM (conv_output_dim_eval (xs ! 1) (Some (ws ! 0)) stride_h padding) (\<lambda>out_h.
          bindM (conv_output_dim_eval (xs ! 2) (Some (ws ! 1)) stride_w padding) (\<lambda>out_w.
          returnM (tensor_val_new dtype [xs ! 0, out_h, out_w, ws ! 3] None))))"

text \<open>
  \<open>tensor.rand\<close> multiplies the extents (wrapping, or panicking in a build with overflow checks) and
  collects that many \<open>f32\<close>, which panics beyond \<open>isize::MAX\<close> bytes; the data itself is dropped.
\<close>

fun rand_count :: "bool \<Rightarrow> usize list \<Rightarrow> usize \<Rightarrow> usize option" where
  "rand_count oc [] acc = Some acc"
| "rand_count oc (d # ds) acc =
     (if oc \<and> acc * d \<ge> 2 ^ 64 then None else rand_count oc ds (acc * d mod 2 ^ 64))"

definition rand_tensor :: "bool \<Rightarrow> usize list \<Rightarrow> eval_error + tensor_val" where
  "rand_tensor oc shape =
     (case rand_count oc shape 1 of
        Some n \<Rightarrow>
          if n * 4 \<ge> 2 ^ 63 then Inl (Panicked CapacityOverflow) else Inr (tensor_val_new TF32 (map Known shape) None)
      | None \<Rightarrow> Inl (Panicked CapacityOverflow))"

subsection \<open>Expressions\<close>

fun contains_path_sep :: "string \<Rightarrow> bool" where
  "contains_path_sep (c # d # cs) \<longleftrightarrow> c = CHR '':'' \<and> d = CHR '':'' \<or> contains_path_sep (d # cs)"
| "contains_path_sep _ \<longleftrightarrow> False"

definition is_enum_unit_ctor :: "string \<Rightarrow> bool" where
  "is_enum_unit_ctor name \<longleftrightarrow> contains_path_sep name \<or> name = ''None''"

definition eval_ident :: "'x eval_ctx \<Rightarrow> eval_env \<Rightarrow> string \<Rightarrow> ast_span \<Rightarrow> eval_error + ir_value" where
  "eval_ident cx env name span =
     (if cx_bound cx span then
        rbind (cx_const cx name span) (\<lambda>v.
          case v of Some x \<Rightarrow> Inr x | None \<Rightarrow> Inl (UnsupportedMsg (NoImportedConstant name)))
      else case env name of
        Some v \<Rightarrow> Inr v
      | None \<Rightarrow>
          rbind (cx_const cx name span) (\<lambda>v.
            case v of
              Some x \<Rightarrow> Inr x
            | None \<Rightarrow> if is_enum_unit_ctor name then Inr (VEnum name []) else Inl (UnknownVar name)))"

fun interp_expr_is_u64 :: "'x eval_ctx \<Rightarrow> 'x node \<Rightarrow> bool" where
  "interp_expr_is_u64 cx (Lit (LIdent name) _) \<longleftrightarrow> name \<in> cx_u64_vars cx"
| "interp_expr_is_u64 cx (Other x _) \<longleftrightarrow> cx_other_u64 cx x"
| "interp_expr_is_u64 cx (Paren inner _) \<longleftrightarrow> interp_expr_is_u64 cx inner"
| "interp_expr_is_u64 cx _ \<longleftrightarrow> False"

definition on_tensorM :: "(tensor_val \<Rightarrow> tensor_val evaluation) \<Rightarrow> ir_value \<Rightarrow> ir_value evaluation" where
  "on_tensorM f v = (case v of VTensor t \<Rightarrow> bindM (f t) (\<lambda>r. returnM (VTensor r)) | _ \<Rightarrow> failM Unsupported)"

definition on_tensorsM :: "(tensor_val \<Rightarrow> tensor_val \<Rightarrow> tensor_val evaluation) \<Rightarrow> ir_value \<Rightarrow> ir_value \<Rightarrow> ir_value evaluation" where
  "on_tensorsM f v w =
     (case (v, w) of (VTensor a, VTensor b) \<Rightarrow> bindM (f a b) (\<lambda>r. returnM (VTensor r)) | _ \<Rightarrow> failM Unsupported)"

fun elem_binop :: "tensor_elem_op \<Rightarrow> ast_binop" where
  "elem_binop ElemAdd = AstAdd"
| "elem_binop ElemSub = AstSub"
| "elem_binop ElemMul = AstMul"
| "elem_binop ElemDiv = AstDiv"

definition eval_binary :: "'x eval_ctx \<Rightarrow> ast_binop \<Rightarrow> bool \<Rightarrow> ir_value \<Rightarrow> ir_value \<Rightarrow> eval_error + ir_value" where
  "eval_binary cx op is_u64 lv rv =
     (case (lv, rv) of
        (VInt a, VInt b) \<Rightarrow>
          if is_u64 then rbind (apply_int_op_u64 (cx_str_record cx) op a b) (\<lambda>v. Inr (VInt v))
          else apply_binary (cx_str_record cx) op lv rv
      | _ \<Rightarrow> apply_binary (cx_str_record cx) op lv rv)"

fun eval_value_expr_mode :: "'x eval_ctx \<Rightarrow> eval_env \<Rightarrow> 'x node \<Rightarrow> ir_value evaluation" where
  "eval_value_expr_mode cx env (Lit l span) =
     (case l of
        LInt n \<Rightarrow> returnM (VInt n)
      | LFloat f \<Rightarrow> returnM (VFloat f)
      | LStr s \<Rightarrow> returnM (VStr s)
      | LIdent name \<Rightarrow> liftR (eval_ident cx env name span))"
| "eval_value_expr_mode cx env (Paren inner _) = eval_value_expr_mode cx env inner"
| "eval_value_expr_mode cx env (CallTensorSum x axes keepdims _) =
     bindM (eval_value_expr_mode cx env x) (on_tensorM (\<lambda>t. liftR (sum_tensor_preview t axes keepdims)))"
| "eval_value_expr_mode cx env (CallTensorMean x axes keepdims _) =
     bindM (eval_value_expr_mode cx env x) (on_tensorM (\<lambda>t. liftR (mean_tensor_preview t axes keepdims)))"
| "eval_value_expr_mode cx env (CallReshape x dims _) =
     bindM (eval_value_expr_mode cx env x) (on_tensorM (\<lambda>t. liftR (reshape_tensor_preview t dims)))"
| "eval_value_expr_mode cx env (CallExpandDims x axis _) =
     bindM (eval_value_expr_mode cx env x) (on_tensorM (\<lambda>t. liftR (expand_dims_tensor_preview t axis)))"
| "eval_value_expr_mode cx env (CallSqueeze x axes _) =
     bindM (eval_value_expr_mode cx env x) (on_tensorM (\<lambda>t. liftR (squeeze_tensor_preview t axes)))"
| "eval_value_expr_mode cx env (CallTranspose x axes _) =
     bindM (eval_value_expr_mode cx env x) (on_tensorM (\<lambda>t. liftR (rbind (transpose_tensor_preview t axes) (\<lambda>(r, _). Inr r))))"
| "eval_value_expr_mode cx env (CallIndex x axis i _) =
     bindM (eval_value_expr_mode cx env x) (on_tensorM (\<lambda>t. liftR (index_tensor_preview t axis i)))"
| "eval_value_expr_mode cx env (CallSlice x axis start ennd _) =
     bindM (eval_value_expr_mode cx env x) (on_tensorM (\<lambda>t. liftR (slice_tensor_preview t axis start ennd)))"
| "eval_value_expr_mode cx env (CallSliceStride x axis start ennd step _) =
     bindM (eval_value_expr_mode cx env x) (on_tensorM (\<lambda>t. slice_stride_tensor_preview t axis start ennd step))"
| "eval_value_expr_mode cx env (CallGather x axis idx _) =
     bindM (eval_value_expr_mode cx env x) (\<lambda>base. bindM (eval_value_expr_mode cx env idx)
       (on_tensorsM (\<lambda>t i. liftR (gather_tensor_preview t axis i)) base))"
| "eval_value_expr_mode cx env (CallDot a b _) =
     bindM (eval_value_expr_mode cx env a) (\<lambda>l. bindM (eval_value_expr_mode cx env b)
       (on_tensorsM (\<lambda>x y. liftR (dot_tensor_preview x y)) l))"
| "eval_value_expr_mode cx env (CallMatMul a b _) =
     bindM (eval_value_expr_mode cx env a) (\<lambda>l. bindM (eval_value_expr_mode cx env b)
       (on_tensorsM (\<lambda>x y. liftR (matmul_tensor_preview x y)) l))"
| "eval_value_expr_mode cx env (TensorMatmul a b _) =
     bindM (eval_value_expr_mode cx env a) (\<lambda>l. bindM (eval_value_expr_mode cx env b)
       (on_tensorsM (\<lambda>x y. liftR (matmul_tensor_preview x y)) l))"
| "eval_value_expr_mode cx env (TensorElemwise op a b _) =
     bindM (eval_value_expr_mode cx env a) (\<lambda>lv. bindM (eval_value_expr_mode cx env b) (\<lambda>rv.
       liftR (eval_binary cx (elem_binop op) (interp_expr_is_u64 cx a \<or> interp_expr_is_u64 cx b) lv rv)))"
| "eval_value_expr_mode cx env (CallTensorRelu x _) =
     bindM (eval_value_expr_mode cx env x) (on_tensorM (\<lambda>t. liftR (relu_tensor t)))"
| "eval_value_expr_mode cx env (CallTensorRand shape _) =
     bindM (liftR (rand_tensor (cx_overflow_checks cx) shape)) (\<lambda>t. returnM (VTensor t))"
| "eval_value_expr_mode cx env (CallTensorConv2d x w stride_h stride_w padding _) =
     bindM (eval_value_expr_mode cx env x) (\<lambda>xv. bindM (eval_value_expr_mode cx env w)
       (on_tensorsM (\<lambda>a b. conv2d_tensor_preview a b stride_h stride_w padding) xv))"
| "eval_value_expr_mode cx env (Binary op a b _) =
     bindM (eval_value_expr_mode cx env a) (\<lambda>lv. bindM (eval_value_expr_mode cx env b) (\<lambda>rv.
       liftR (eval_binary cx op (interp_expr_is_u64 cx a \<or> interp_expr_is_u64 cx b) lv rv)))"
| "eval_value_expr_mode cx env (Other x span) = cx_other cx x span env"

end
