(* ===== verification/Tensor_Sound.thy ===== *)
theory Tensor_Sound
  imports Checker Tensor_Eval
begin

text \<open>
  The type checker against the evaluator on the tensor fragment.  A value conforms to the type that
  describes it exactly, dtype and symbolic shape included; the soundness lemma says that an
  expression the checker accepts evaluates to a value of the inferred type or stops with one of the
  arithmetic errors, never with an unsupported operation or an out-of-bounds access.
\<close>

fun conforms :: "ir_value \<Rightarrow> value_type \<Rightarrow> bool" where
  "conforms (VInt _) ScalarI32 \<longleftrightarrow> True"
| "conforms (VInt _) ScalarI64 \<longleftrightarrow> True"
| "conforms (VInt _) ScalarBool \<longleftrightarrow> True"
| "conforms (VFloat _) ScalarF32 \<longleftrightarrow> True"
| "conforms (VFloat _) ScalarF64 \<longleftrightarrow> True"
| "conforms (VTensor t) (TensorTy ty) \<longleftrightarrow> tv_dtype t = ty_dtype ty \<and> tv_shape t = ty_shape ty"
| "conforms (VGradMap _) (GradMapTy _) \<longleftrightarrow> True"
| "conforms _ _ \<longleftrightarrow> False"

definition arith_errors :: "eval_error set" where
  "arith_errors = {DivZero, Panicked DivisionOverflow, Panicked CapacityOverflow}"

definition safe :: "value_type \<Rightarrow> eval_error + ir_value \<times> usize \<Rightarrow> bool" where
  "safe ty r = (case r of Inl e \<Rightarrow> e \<in> arith_errors | Inr (v, _) \<Rightarrow> conforms v ty)"

definition env_conforms :: "eval_env \<Rightarrow> type_env \<Rightarrow> bool" where
  "env_conforms env \<Gamma> \<longleftrightarrow> (\<forall>x ty. map_of \<Gamma> x = Some ty \<longrightarrow> (\<exists>v. env x = Some v \<and> conforms v ty))"

text \<open>The thread-local tables are empty: no imported symbols, no marshalled strings.\<close>

definition plain_ctx :: "'x eval_ctx \<Rightarrow> bool" where
  "plain_ctx cx \<longleftrightarrow> (\<forall>span. \<not> cx_bound cx span) \<and> (\<forall>v. \<not> cx_str_record cx v)"

fun subnodes :: "'x node \<Rightarrow> 'x node list" where
  "subnodes (Lit l sp) = [Lit l sp]"
| "subnodes (Binary op a b sp) = Binary op a b sp # subnodes a @ subnodes b"
| "subnodes (Paren x sp) = Paren x sp # subnodes x"
| "subnodes (CallTensorSum x axes k sp) = CallTensorSum x axes k sp # subnodes x"
| "subnodes (CallTensorMean x axes k sp) = CallTensorMean x axes k sp # subnodes x"
| "subnodes (CallReshape x dims sp) = CallReshape x dims sp # subnodes x"
| "subnodes (CallExpandDims x axis sp) = CallExpandDims x axis sp # subnodes x"
| "subnodes (CallSqueeze x axes sp) = CallSqueeze x axes sp # subnodes x"
| "subnodes (CallTranspose x axes sp) = CallTranspose x axes sp # subnodes x"
| "subnodes (CallIndex x axis i sp) = CallIndex x axis i sp # subnodes x"
| "subnodes (CallSlice x axis s e sp) = CallSlice x axis s e sp # subnodes x"
| "subnodes (CallSliceStride x axis s e st sp) = CallSliceStride x axis s e st sp # subnodes x"
| "subnodes (CallGather x axis i sp) = CallGather x axis i sp # subnodes x @ subnodes i"
| "subnodes (CallDot a b sp) = CallDot a b sp # subnodes a @ subnodes b"
| "subnodes (CallMatMul a b sp) = CallMatMul a b sp # subnodes a @ subnodes b"
| "subnodes (TensorMatmul a b sp) = TensorMatmul a b sp # subnodes a @ subnodes b"
| "subnodes (TensorElemwise op a b sp) = TensorElemwise op a b sp # subnodes a @ subnodes b"
| "subnodes (CallTensorRelu x sp) = CallTensorRelu x sp # subnodes x"
| "subnodes (CallTensorRand s sp) = [CallTensorRand s sp]"
| "subnodes (CallTensorConv2d x w sh sw p sp) = CallTensorConv2d x w sh sw p sp # subnodes x @ subnodes w"
| "subnodes (Other x sp) = [Other x sp]"

definition known_shape :: "type_err_span + value_type \<times> ast_span \<Rightarrow> bool" where
  "known_shape r = (case r of Inr (TensorTy t, _) \<Rightarrow> concrete_shape (ty_shape t) \<noteq> None | _ \<Rightarrow> True)"

text \<open>
  What the exact agreement needs of a node: identifiers are bound, there is no string literal and no
  node outside the fragment, and where both sides would invent a symbol (slices and convolutions) the
  operand shapes are known.
\<close>

fun static_node :: "('x node \<Rightarrow> type_err_span + value_type \<times> ast_span) \<Rightarrow> type_env \<Rightarrow> 'x node \<Rightarrow> bool" where
  "static_node infer \<Gamma> (Lit (LStr _) _) \<longleftrightarrow> False"
| "static_node infer \<Gamma> (Lit (LIdent x) _) \<longleftrightarrow> map_of \<Gamma> x \<noteq> None"
| "static_node infer \<Gamma> (CallSlice x _ _ _ _) \<longleftrightarrow> known_shape (infer x)"
| "static_node infer \<Gamma> (CallSliceStride x _ _ _ _ _) \<longleftrightarrow> known_shape (infer x)"
| "static_node infer \<Gamma> (CallTensorConv2d x w _ _ _ _) \<longleftrightarrow> known_shape (infer x) \<and> known_shape (infer w)"
| "static_node infer \<Gamma> (Other _ _) \<longleftrightarrow> False"
| "static_node infer \<Gamma> _ \<longleftrightarrow> True"

text \<open>A Rust vector has fewer than \<open>2 ^ 63\<close> elements.\<close>

definition rank_fits :: "type_err_span + value_type \<times> ast_span \<Rightarrow> bool" where
  "rank_fits r = (case r of Inr (TensorTy t, _) \<Rightarrow> length (ty_shape t) < 2 ^ 63 | _ \<Rightarrow> True)"

definition static_expr :: "('x node \<Rightarrow> type_err_span + value_type \<times> ast_span) \<Rightarrow> type_env \<Rightarrow> 'x node \<Rightarrow> bool" where
  "static_expr infer \<Gamma> e \<longleftrightarrow> list_all (\<lambda>n. static_node infer \<Gamma> n \<and> rank_fits (infer n)) (subnodes e)"

subsection \<open>Sequencing\<close>

lemma safe_simps [simp]:
  "safe ty (Inr (v, c)) \<longleftrightarrow> conforms v ty" "safe ty (Inl e) \<longleftrightarrow> e \<in> arith_errors"
  by (simp_all add: safe_def)

lemma safe_bind: "safe tx (m c) \<Longrightarrow> (\<And>v c'. conforms v tx \<Longrightarrow> safe ty (f v c')) \<Longrightarrow> safe ty (bindM m f c)"
proof -
  assume m: "safe tx (m c)" and f: "\<And>v c'. conforms v tx \<Longrightarrow> safe ty (f v c')"
  show ?thesis
  proof (cases "m c")
    case (Inr p)
    then show ?thesis using m f by (cases p) (simp add: bindM_def)
  qed (use m in \<open>simp add: bindM_def\<close>)
qed

lemma conforms_TensorD: "conforms v (TensorTy t) \<Longrightarrow> \<exists>tv. v = VTensor tv \<and> tv_dtype tv = ty_dtype t \<and> tv_shape tv = ty_shape t"
  by (cases v) auto

lemma tensor_val_new_fields [simp]:
  "tv_dtype (tensor_val_new d s f) = d" "tv_shape (tensor_val_new d s f) = s" "tv_fill (tensor_val_new d s f) = f"
  by (simp_all add: tensor_val_new_def)

lemma with_tensor_Inr: "with_tensor op sp ty f = Inr y \<longleftrightarrow> (\<exists>t. ty = TensorTy t \<and> f t = Inr y)"
  by (cases ty) (auto simp: with_tensor_def)

text \<open>A preview that returns the tensor the checker predicts.\<close>

lemma safe_on_tensor:
  assumes "conforms v (TensorTy t)"
    and "\<And>tv. tv_dtype tv = ty_dtype t \<Longrightarrow> tv_shape tv = ty_shape t \<Longrightarrow>
      \<exists>r. f tv c = Inr (r, c) \<and> tv_dtype r = ty_dtype t' \<and> tv_shape r = ty_shape t'"
  shows "safe (TensorTy t') (on_tensorM f v c)"
  using conforms_TensorD [OF assms(1)] assms(2) by (fastforce simp: on_tensorM_def)

lemma safe_on_tensors:
  assumes "conforms v (TensorTy s)" "conforms w (TensorTy t)"
    and "\<And>a b. tv_dtype a = ty_dtype s \<Longrightarrow> tv_shape a = ty_shape s \<Longrightarrow> tv_dtype b = ty_dtype t \<Longrightarrow> tv_shape b = ty_shape t \<Longrightarrow>
      \<exists>r. f a b c = Inr (r, c) \<and> tv_dtype r = ty_dtype t' \<and> tv_shape r = ty_shape t'"
  shows "safe (TensorTy t') (on_tensorsM f v w c)"
  using conforms_TensorD [OF assms(1)] conforms_TensorD [OF assms(2)] assms(3) by (fastforce simp: on_tensorsM_def)

subsection \<open>The helpers agree\<close>

lemma axis_agree: "checker_normalize_axis axis rank sp op = Inr i \<longleftrightarrow> eval_normalize_axis axis rank = Inr i"
  by (simp add: checker_normalize_axis_def eval_normalize_axis_def Let_def)

lemma axes_loop_agree: "checker_axes_loop axes rank sp op seen acc = Inr out \<longleftrightarrow> eval_axes_loop axes rank seen acc = Inr out"
proof (induction axes arbitrary: seen acc)
  case (Cons axis axes)
  show ?case using axis_agree [of axis rank sp op] Cons.IH by (auto simp: rbind_eq_Inr)
qed simp

lemma axes_agree: "checker_normalize_axes_list axes rank sp op = Inr out \<longleftrightarrow> eval_normalize_axes_list axes rank = Inr out"
  by (simp add: checker_normalize_axes_list_def eval_normalize_axes_list_def rbind_eq_Inr axes_loop_agree)

lemma reduce_axes_agree: "normalize_reduce_axes axes rank sp op = Inr out \<longleftrightarrow> eval_normalize_reduce_axes axes rank = Inr out"
  by (simp add: normalize_reduce_axes_def eval_normalize_reduce_axes_def axes_agree)

lemma reduce_shape_agree: "checker_reduce_shape = eval_reduce_shape"
  by (simp add: fun_eq_iff checker_reduce_shape_def eval_reduce_shape_def)

lemma expand_axis_agree: "normalize_expand_axis axis rank sp = Inr i \<longleftrightarrow> eval_normalize_expand_axis axis rank = Inr i"
  by (simp add: normalize_expand_axis_def eval_normalize_expand_axis_def Let_def)

lemma squeeze_check_agree: "squeeze_axes_check shape axes sp = Inr u \<longleftrightarrow> list_all (\<lambda>axis. dim_at shape axis = Some (Known 1)) axes"
  by (induction axes) (auto split: option.splits shape_dim.splits)

lemma squeeze_agree: "compute_squeeze_axes shape axes sp = Inr out \<longleftrightarrow> eval_squeeze_axes shape axes = Inr out"
  by (auto simp: compute_squeeze_axes_def eval_squeeze_axes_def rbind_eq_Inr axes_agree squeeze_check_agree)

lemma dims_agree: "shape_from_dims = dims_from_strings"
  by (simp add: fun_eq_iff shape_from_dims_def dims_from_strings_def)

lemma channels_agree: "conv_channels_compatible a b = conv_channels_match a b"
  by (cases a; cases b) simp_all

lemma concrete_shape_Some: "concrete_shape s = Some xs \<longleftrightarrow> s = map Known xs"
  by (induction s arbitrary: xs rule: concrete_shape.induct) auto

lemma concrete_shape_nth: "concrete_shape s = Some xs \<Longrightarrow> i < length s \<Longrightarrow> s ! i = Known (xs ! i)"
  by (simp add: concrete_shape_Some)

lemma sint_of_nat_le: "sint (of_nat n :: i32) \<le> int n"
proof (cases "n < 2 ^ 31")
  case True
  then have "signed_take_bit 31 (int n) = int n" by (intro signed_take_bit_int_eq_self) simp_all
  then show ?thesis by (simp add: signed_of_nat)
next
  case False
  then have "signed_take_bit 31 (int n) \<le> int n - 2 ^ Suc 31" by (intro signed_take_bit_int_less_eq) simp
  then show ?thesis by (simp add: signed_of_nat)
qed

lemma axis_bound: "eval_normalize_axis axis rank = Inr i \<Longrightarrow> i < rank"
proof -
  assume "eval_normalize_axis axis rank = Inr i"
  then have "int i < sint (of_nat rank :: i32)"
    by (auto simp: eval_normalize_axis_def Let_def split: if_splits)
  then show "i < rank" using sint_of_nat_le [of rank] by linarith
qed


subsection \<open>The arms agree\<close>

lemma infer_tensor_Inr:
  "Inr (TensorTy (tensor_ty_new d s), sp) = Inr (ty, sp') \<longleftrightarrow> ty = TensorTy (tensor_ty_new d s) \<and> sp' = sp"
  by auto

lemmas arm_elims = with_tensor_Inr rbind_eq_Inr

lemma reduce_sound:
  assumes "infer_reduce op tx xs axes kd sp = Inr (ty, sp')" "conforms v tx"
  shows "safe ty (on_tensorM (\<lambda>t. liftR (sum_tensor_preview t axes kd)) v c)"
    and "safe ty (on_tensorM (\<lambda>t. liftR (mean_tensor_preview t axes kd)) v c)"
proof -
  obtain t an where t: "tx = TensorTy t" "normalize_reduce_axes axes (length (ty_shape t)) sp op = Inr an"
      "ty = TensorTy (tensor_ty_new (ty_dtype t) (checker_reduce_shape (ty_shape t) an kd))"
    using assms(1) by (auto simp: infer_reduce_def arm_elims)
  note c = assms(2) [unfolded t(1)]
  show "safe ty (on_tensorM (\<lambda>t. liftR (sum_tensor_preview t axes kd)) v c)"
    unfolding t(3) by (rule safe_on_tensor [OF c]) (use t(2) in \<open>simp add: reduce_axes_agree sum_tensor_preview_def reduce_shape_agree\<close>)
  show "safe ty (on_tensorM (\<lambda>t. liftR (mean_tensor_preview t axes kd)) v c)"
    unfolding t(3) by (rule safe_on_tensor [OF c]) (use t(2) in \<open>simp add: reduce_axes_agree mean_tensor_preview_def reduce_shape_agree\<close>)
qed

lemma reshape_sound:
  assumes "infer_reshape \<Gamma> tx xs dims sp = Inr (ty, sp')" "conforms v tx"
  shows "safe ty (on_tensorM (\<lambda>t. liftR (reshape_tensor_preview t dims)) v c)"
proof -
  let ?s = "shape_from_dims dims"
  obtain t where t: "tx = TensorTy t" "length ?s = length (ty_shape t)"
      "\<forall>p q. known_product (ty_shape t) = Some p \<longrightarrow> known_product ?s = Some q \<longrightarrow> p = q"
      "ty = TensorTy (tensor_ty_new (ty_dtype t) ?s)"
    using assms(1)
    by (auto simp: infer_reshape_def arm_elims checker_known_product_def Let_def split: option.splits if_splits)
  show ?thesis unfolding t(4)
    by (rule safe_on_tensor [OF assms(2) [unfolded t(1)]])
       (use t(2,3) in \<open>auto simp: reshape_tensor_preview_def dims_agree eval_known_product_def Let_def split: option.splits\<close>)
qed

lemma expand_dims_sound:
  assumes "infer_expand_dims tx xs axis sp = Inr (ty, sp')" "conforms v tx"
  shows "safe ty (on_tensorM (\<lambda>t. liftR (expand_dims_tensor_preview t axis)) v c)"
proof -
  obtain t i where t: "tx = TensorTy t" "normalize_expand_axis axis (length (ty_shape t)) sp = Inr i"
      "ty = TensorTy (tensor_ty_new (ty_dtype t) (insert_at i (Known 1) (ty_shape t)))"
    using assms(1) by (auto simp: infer_expand_dims_def arm_elims)
  show ?thesis unfolding t(3)
    by (rule safe_on_tensor [OF assms(2) [unfolded t(1)]])
       (use t(2) in \<open>simp add: expand_dims_tensor_preview_def expand_axis_agree\<close>)
qed

lemma squeeze_sound:
  assumes "infer_squeeze tx xs axes sp = Inr (ty, sp')" "conforms v tx"
  shows "safe ty (on_tensorM (\<lambda>t. liftR (squeeze_tensor_preview t axes)) v c)"
proof -
  obtain t r where t: "tx = TensorTy t" "compute_squeeze_axes (ty_shape t) axes sp = Inr r"
      "ty = TensorTy (tensor_ty_new (ty_dtype t) (map snd (filter (\<lambda>(idx, _). idx \<notin> set r) (enumerate 0 (ty_shape t)))))"
    using assms(1) by (auto simp: infer_squeeze_def arm_elims)
  show ?thesis unfolding t(3)
    by (rule safe_on_tensor [OF assms(2) [unfolded t(1)]])
       (use t(2) in \<open>simp add: squeeze_tensor_preview_def squeeze_agree\<close>)
qed

lemma transpose_sound:
  assumes "infer_transpose tx xs axes sp = Inr (ty, sp')" "conforms v tx"
  shows "safe ty (on_tensorM (\<lambda>t. liftR (rbind (transpose_tensor_preview t axes) (\<lambda>(r, _). Inr r))) v c)"
proof -
  obtain t perm shape where t: "tx = TensorTy t" "permute_shape (ty_shape t) perm = Some shape"
      "ty = TensorTy (tensor_ty_new (ty_dtype t) shape)"
      "case axes of Some spec \<Rightarrow> normalize_permutation spec (length (ty_shape t)) = Inr perm
         | None \<Rightarrow> perm = default_transpose (length (ty_shape t))"
    using assms(1) by (cases axes) (auto simp: infer_transpose_def arm_elims Let_def split: option.splits if_splits)
  show ?thesis unfolding t(3)
    by (rule safe_on_tensor [OF assms(2) [unfolded t(1)]])
       (use t(2,4) in \<open>auto simp: transpose_tensor_preview_def or_panic_def Let_def split: option.splits\<close>)
qed

lemma index_sound:
  assumes "infer_index tx xs axis i sp = Inr (ty, sp')" "conforms v tx"
  shows "safe ty (on_tensorM (\<lambda>t. liftR (index_tensor_preview t axis i)) v c)"
proof -
  obtain t a where t: "tx = TensorTy t" "ty_shape t \<noteq> []" "eval_normalize_axis axis (length (ty_shape t)) = Inr a"
      "\<forall>n. ty_shape t ! a = Known n \<longrightarrow> 0 \<le> sint i \<and> nat (sint i) < n"
      "ty = TensorTy (tensor_ty_new (ty_dtype t) (remove_at a (ty_shape t)))"
    using assms(1)
    by (auto simp: infer_index_def arm_elims axis_agree dim_len_def split: option.splits if_splits shape_dim.splits)
  show ?thesis unfolding t(5)
    by (rule safe_on_tensor [OF assms(2) [unfolded t(1)]])
       (use t(2-4) in \<open>auto simp: index_tensor_preview_def Let_def split: shape_dim.splits\<close>)
qed

lemma slice_sound:
  assumes "infer_slice tx xs axis start ennd sp = Inr (ty, sp')" "conforms v tx" "known_shape (Inr (tx, xs'))"
  shows "safe ty (on_tensorM (\<lambda>t. liftR (slice_tensor_preview t axis start ennd)) v c)"
proof -
  obtain t a where t: "tx = TensorTy t" "\<not> (sint start < 0 \<or> sint ennd < sint start)"
      "eval_normalize_axis axis (length (ty_shape t)) = Inr a"
    using assms(1) by (auto simp: infer_slice_def arm_elims axis_agree split: if_splits)
  obtain n where n: "ty_shape t ! a = Known n"
    using assms(3) t(1) concrete_shape_nth axis_bound [OF t(3)] by (auto simp: known_shape_def)
  have e: "nat (sint ennd) \<le> n"
      "ty = TensorTy (tensor_ty_new (ty_dtype t) ((ty_shape t)[a := Known (nat (sint (ennd - start) mod 2 ^ 64))]))"
    using assms(1) t n
    by (auto simp: infer_slice_def arm_elims axis_agree dim_len_def checker_slice_len_def slice_len_def Let_def split: if_splits)
  show ?thesis unfolding e(2)
    by (rule safe_on_tensor [OF assms(2) [unfolded t(1)]]) (use t(2,3) n e(1) in \<open>simp add: slice_tensor_preview_def\<close>)
qed

lemma slice_stride_sound:
  assumes "infer_slice_stride tx xs axis start ennd step sp = Inr (ty, sp')" "step \<noteq> 0" "conforms v tx" "known_shape (Inr (tx, xs'))"
  shows "safe ty (on_tensorM (\<lambda>t. slice_stride_tensor_preview t axis start ennd step) v c)"
proof -
  obtain t a where t: "tx = TensorTy t" "eval_normalize_axis axis (length (ty_shape t)) = Inr a"
    using assms(1) by (auto simp: infer_slice_stride_def arm_elims axis_agree)
  obtain n where n: "ty_shape t ! a = Known n"
    using assms(4) t(1) concrete_shape_nth axis_bound [OF t(2)] by (auto simp: known_shape_def)
  obtain len where e: "slice_len_with_step (Some n) start ennd step = Some len"
      "ty = TensorTy (tensor_ty_new (ty_dtype t) ((ty_shape t)[a := Known len]))"
    using assms(1) t n
    by (auto simp: infer_slice_stride_def arm_elims axis_agree dim_len_def checker_slice_len_with_step_def split: option.splits)
  show ?thesis unfolding e(2)
    by (rule safe_on_tensor [OF assms(3) [unfolded t(1)]])
       (use t(2) n e(1) assms(2) in \<open>simp add: slice_stride_tensor_preview_def eval_slice_len_with_step_def\<close>)
qed

lemma relu_sound:
  assumes "infer_relu tx xs sp = Inr (ty, sp')" "conforms v tx"
  shows "safe ty (on_tensorM (\<lambda>t. liftR (relu_tensor t)) v c)"
proof -
  obtain t where t: "tx = TensorTy t" "ty = TensorTy t" using assms(1) by (auto simp: infer_relu_def arm_elims)
  show ?thesis unfolding t(2) by (rule safe_on_tensor [OF assms(2) [unfolded t(1)]]) (simp add: relu_tensor_def)
qed

subsection \<open>Operators on two operands\<close>

lemma gather_sound:
  assumes "infer_gather tx xs axis ti ins isp sp = Inr (ty, sp')" "conforms v tx" "conforms w ti"
  shows "safe ty (on_tensorsM (\<lambda>t i. liftR (gather_tensor_preview t axis i)) v w c)"
proof -
  obtain t i a where t: "tx = TensorTy t" "ti = TensorTy i" "ty_dtype i = TI32"
      "eval_normalize_axis axis (length (ty_shape t)) = Inr a"
      "ty = TensorTy (tensor_ty_new (ty_dtype t) (take a (ty_shape t) @ ty_shape i @
        (if a < length (ty_shape t) then drop (a + 1) (ty_shape t) else [])))"
    using assms(1) by (auto simp: infer_gather_def rbind_eq_Inr axis_agree split: value_type.splits if_splits)
  show ?thesis unfolding t(5)
    by (rule safe_on_tensors [OF assms(2) [unfolded t(1)] assms(3) [unfolded t(2)]])
       (use t(3,4) in \<open>simp add: gather_tensor_preview_def\<close>)
qed

lemma dot_sound:
  assumes "infer_dot tx tw sp = Inr (ty, sp')" "conforms v tx" "conforms w tw"
  shows "safe ty (on_tensorsM (\<lambda>a b. liftR (dot_tensor_preview a b)) v w c)"
proof -
  obtain s t info where t: "tx = TensorTy s" "tw = TensorTy t" "ty_dtype s = ty_dtype t"
      "compute_matmul_shape_info (ty_shape s) (ty_shape t) = Inr info"
      "ty = TensorTy (tensor_ty_new (ty_dtype s) (mm_result_shape info))"
    using assms(1) by (auto simp: infer_dot_def split: value_type.splits if_splits sum.splits)
  show ?thesis unfolding t(5)
    by (rule safe_on_tensors [OF assms(2) [unfolded t(1)] assms(3) [unfolded t(2)]])
       (use t(3,4) in \<open>simp add: dot_tensor_preview_def dot_tensor_preview_with_info_def eval_matmul_shape_info_def\<close>)
qed

text \<open>On known shapes the checker asks the engine, the evaluator the linear algebra rule.\<close>

lemma engine_matmul_info:
  assumes "infer_output_shape ''tensor.matmul'' [xs, ys] = Inr out"
  shows "\<exists>info. compute_matmul_shape_info (map Known xs) (map Known ys) = Inr info \<and> mm_result_shape info = map Known out"
proof -
  have "length xs = 2" "length ys = 2" and k: "xs ! 1 = ys ! 0" "out = [xs ! 0, ys ! 1]"
    using assms by (auto simp: infer_output_shape_def rule_for_op_def input_or_scalar_def Let_def split: if_splits)
  then obtain m k k' n where xy: "xs = [m, k]" "ys = [k', n]" by (auto simp: numeral_2_eq_2 length_Suc_conv)
  have "ok (compute_matmul_shape_info ([] @ [Known m, Known k]) ([] @ [Known k', Known n])) \<noteq> None \<and>
      map_option mm_result_shape (ok (compute_matmul_shape_info ([] @ [Known m, Known k]) ([] @ [Known k', Known n]))) = Some [Known m, Known n]"
    using k(1) xy unfolding matmul_matrix by (simp add: dims.broadcast_scalar del: One_nat_def)
  then show ?thesis using k(2) xy by auto
qed

lemma matmul_sound_aux:
  assumes "tx = TensorTy s" "tw = TensorTy t" "ty_dtype s = ty_dtype t" "conforms v tx" "conforms w tw"
    and "compute_matmul_shape_info (ty_shape s) (ty_shape t) = Inr info" "mm_result_shape info = shape"
  shows "safe (TensorTy (tensor_ty_new (ty_dtype s) shape)) (on_tensorsM (\<lambda>a b. liftR (matmul_tensor_preview a b)) v w c)"
  by (rule safe_on_tensors [OF assms(4) [unfolded assms(1)] assms(5) [unfolded assms(2)]])
     (use assms(3,6,7) in \<open>simp add: matmul_tensor_preview_def matmul_tensor_preview_with_info_def eval_matmul_shape_info_def\<close>)

lemma matmul_type:
  assumes "infer_matmul tx tw sp = Inr (ty, sp') \<or> infer_tensor_matmul tx tw sp = Inr (ty, sp')"
  obtains s t info where "tx = TensorTy s" "tw = TensorTy t" "ty_dtype s = ty_dtype t"
    "compute_matmul_shape_info (ty_shape s) (ty_shape t) = Inr info"
    "ty = TensorTy (tensor_ty_new (ty_dtype s) (mm_result_shape info))"
proof -
  obtain s t where st: "tx = TensorTy s" "tw = TensorTy t" "ty_dtype s = ty_dtype t"
    using assms by (auto simp: infer_matmul_def infer_tensor_matmul_def split: value_type.splits if_splits)
  show thesis
  proof (cases "concrete_shape (ty_shape s) \<noteq> None \<and> concrete_shape (ty_shape t) \<noteq> None")
    case True
    then obtain xs ys where xy: "concrete_shape (ty_shape s) = Some xs" "concrete_shape (ty_shape t) = Some ys" by auto
    obtain out where o: "infer_output_shape ''tensor.matmul'' [xs, ys] = Inr out"
        "ty = TensorTy (tensor_ty_new (ty_dtype s) (shape_from_usize out))"
      using assms st xy by (auto simp: infer_matmul_def infer_tensor_matmul_def split: sum.splits if_splits)
    show thesis using engine_matmul_info [OF o(1)] o(2) st xy that
      by (auto simp: concrete_shape_Some shape_from_usize_def)
  next
    case False
    then show thesis using assms st that
      by (auto simp: infer_matmul_def infer_tensor_matmul_def split: sum.splits option.splits)
  qed
qed

lemma matmul_sound:
  assumes "infer_matmul tx tw sp = Inr (ty, sp') \<or> infer_tensor_matmul tx tw sp = Inr (ty, sp')" "conforms v tx" "conforms w tw"
  shows "safe ty (on_tensorsM (\<lambda>a b. liftR (matmul_tensor_preview a b)) v w c)"
  using matmul_type [OF assms(1)] matmul_sound_aux [OF _ _ _ assms(2,3) _ refl] by metis

lemma conv_dim_agree:
  assumes "checker_conv_output_dim (Known h) (Some (Known k)) stride padding sp axis = Inr d"
  shows "conv_output_dim_eval (Known h) (Some (Known k)) stride padding c = Inr (d, c)"
proof (cases padding)
  case Valid
  then show ?thesis using assms conv_valid_static [of h k stride]
    by (auto simp: checker_conv_output_dim_def conv_output_dim_eval_def dim_len_def split: sum.splits option.splits)
next
  case Same
  have "conv_output_dim_same (Some h) stride \<noteq> Inr None" by (simp add: conv_output_dim_same_def)
  then show ?thesis using assms Same
    by (auto simp: checker_conv_output_dim_def conv_output_dim_eval_def dim_len_def split: sum.splits option.splits)
qed

lemma conv2d_sound:
  assumes "infer_conv2d tx xs tw ws sh sw p sp = Inr (ty, sp')" "sh \<noteq> 0" "sw \<noteq> 0" "conforms v tx" "conforms w tw"
    and "known_shape (Inr (tx, xs'))" "known_shape (Inr (tw, ws'))"
  shows "safe ty (on_tensorsM (\<lambda>a b. conv2d_tensor_preview a b sh sw p) v w c)"
proof -
  obtain s t dt oh ow where t: "tx = TensorTy s" "tw = TensorTy t" "length (ty_shape s) = 4" "length (ty_shape t) = 4"
      "conv_channels_compatible (ty_shape s ! 3) (ty_shape t ! 2)" "dim_len (ty_shape t ! 0) \<noteq> Some 0" "dim_len (ty_shape t ! 1) \<noteq> Some 0"
      "conv_result_dtype (ty_dtype s) (ty_dtype t) = Some dt"
      "checker_conv_output_dim (ty_shape s ! 1) (Some (ty_shape t ! 0)) sh p sp ''h'' = Inr oh"
      "checker_conv_output_dim (ty_shape s ! 2) (Some (ty_shape t ! 1)) sw p sp ''w'' = Inr ow"
      "ty = TensorTy (tensor_ty_new dt [ty_shape s ! 0, oh, ow, ty_shape t ! 3])"
    using assms(1)
    by (auto simp: infer_conv2d_def rbind_eq_Inr split: value_type.splits if_splits option.splits)
  have k: "\<exists>n. ty_shape s ! i = Known n" "\<exists>n. ty_shape t ! i = Known n" if "i < 4" for i
    using assms(6,7) t(1-4) that concrete_shape_nth by (fastforce simp: known_shape_def)+
  obtain h kh w' kw where d: "ty_shape s ! 1 = Known h" "ty_shape t ! 0 = Known kh" "ty_shape s ! 2 = Known w'" "ty_shape t ! 1 = Known kw"
    using k(1) [of 1] k(2) [of 0] k(1) [of 2] k(2) [of 1] by auto
  note dims_ok = conv_dim_agree [OF t(9) [unfolded d]] conv_dim_agree [OF t(10) [unfolded d]]
  have dt: "conv_dtype (ty_dtype s) (ty_dtype t) = Some dt" using t(8) by (simp add: conv_dtype_def conv_result_dtype_def)
  show ?thesis unfolding t(11)
    by (rule safe_on_tensors [OF assms(4) [unfolded t(1)] assms(5) [unfolded t(2)]])
       (use t(3-7) d dims_ok assms(2,3) dt in \<open>simp add: conv2d_tensor_preview_def channels_agree dim_len_def Let_def\<close>)
qed

lemma safe_liftR: "safe ty (liftR r c) \<longleftrightarrow> (case r of Inl e \<Rightarrow> e \<in> arith_errors | Inr v \<Rightarrow> conforms v ty)"
  by (cases r) simp_all

lemma int_op_safe:
  assumes "\<forall>v. \<not> rec v"
  shows "apply_int_op rec op l r = Inl e \<Longrightarrow> e \<in> arith_errors" "apply_int_op_u64 rec op l r = Inl e \<Longrightarrow> e \<in> arith_errors"
proof -
  have g: "guard_str_record_value_op rec o' a b = Inr ()" for o' a b
    using assms by (simp add: guard_str_record_value_op_def)
  have s: "apply_int_op rec op l r = Inl e \<Longrightarrow> e \<in> arith_errors" for e
    by (cases op) (auto simp: apply_int_op_def g or_panic_def arith_errors_def split: if_splits option.splits)
  show "apply_int_op rec op l r = Inl e \<Longrightarrow> e \<in> arith_errors" by (rule s)
  show "apply_int_op_u64 rec op l r = Inl e \<Longrightarrow> e \<in> arith_errors"
    using s [of e] by (cases op) (auto simp: apply_int_op_u64_def g)
qed

lemma float_op_safe: "apply_float_op op l r = Inl e \<Longrightarrow> e \<in> arith_errors"
  by (cases op) (auto simp: apply_float_op_def arith_errors_def split: if_splits)

lemma tensor_scalar_safe:
  "tv_dtype t = ty_dtype ty \<Longrightarrow> tv_shape t = ty_shape ty \<Longrightarrow> safe (TensorTy ty) (liftR (apply_tensor_scalar op t x side) c)"
  by (auto simp: apply_tensor_scalar_def safe_liftR arith_errors_def split: option.splits if_splits)

lemma tensor_tensor_safe:
  assumes "tv_dtype a = tv_dtype b" "eval_broadcast_shapes (tv_shape a) (tv_shape b) = Some shape"
  shows "safe (TensorTy (tensor_ty_new (tv_dtype a) shape)) (liftR (apply_tensor_tensor op a b) c)"
  using assms by (auto simp: apply_tensor_tensor_def safe_liftR arith_errors_def split: option.splits if_splits)

lemma engine_elementwise:
  assumes "infer_output_shape (shape_op_for_binop op) [xs, ys] = Inr out" "length xs < 2 ^ 63" "length ys < 2 ^ 63"
  shows "eval_broadcast_shapes (map Known xs) (map Known ys) = Some (map Known out)"
proof -
  have "engine_broadcast_shapes xs ys = Inr out"
    using assms(1) by (cases op) (simp_all add: infer_output_shape_def rule_for_op_def input_or_scalar_def)
  then have "broadcast size_join 1 xs ys = Some out"
    unfolding engine_broadcast_eq [OF assms(2,3)] by (simp split: option.splits)
  then show ?thesis by (simp add: broadcast_shapes_spec broadcast_Known del: One_nat_def)
qed

lemma tensor_binary_type:
  assumes "infer_tensor_binary op s t sp = Inr (ty, sp')" "length (ty_shape s) < 2 ^ 63" "length (ty_shape t) < 2 ^ 63"
  obtains shape where "ty_dtype s = ty_dtype t" "eval_broadcast_shapes (ty_shape s) (ty_shape t) = Some shape"
    "ty = TensorTy (tensor_ty_new (ty_dtype s) shape)"
proof (cases "concrete_shape (ty_shape s) \<noteq> None \<and> concrete_shape (ty_shape t) \<noteq> None")
  case True
  then obtain xs ys where xy: "concrete_shape (ty_shape s) = Some xs" "concrete_shape (ty_shape t) = Some ys" by auto
  obtain out where o: "infer_output_shape (shape_op_for_binop op) [xs, ys] = Inr out"
      "ty = TensorTy (tensor_ty_new (ty_dtype s) (shape_from_usize out))" "ty_dtype s = ty_dtype t"
    using assms(1) xy by (auto simp: infer_tensor_binary_def split: sum.splits if_splits)
  have "length xs < 2 ^ 63" "length ys < 2 ^ 63" using assms(2,3) xy by (auto simp: concrete_shape_Some)
  from engine_elementwise [OF o(1) this] show thesis
    using o(2,3) xy that by (simp add: concrete_shape_Some shape_from_usize_def)
next
  case False
  then show thesis using assms(1) that
    by (auto simp: infer_tensor_binary_def broadcast_shapes_spec split: sum.splits option.splits if_splits)
qed

lemma conforms_scalarD:
  "conforms v ScalarI32 \<Longrightarrow> \<exists>n. v = VInt n" "conforms v ScalarI64 \<Longrightarrow> \<exists>n. v = VInt n" "conforms v ScalarBool \<Longrightarrow> \<exists>n. v = VInt n"
  "conforms v ScalarF32 \<Longrightarrow> \<exists>f. v = VFloat f" "conforms v ScalarF64 \<Longrightarrow> \<exists>f. v = VFloat f"
  by (cases v; simp)+

lemma eval_binary_ints:
  assumes "plain_ctx cx" "ty = ScalarI32 \<or> ty = ScalarI64 \<or> ty = ScalarBool"
  shows "safe ty (liftR (eval_binary cx op u (VInt a) (VInt b)) c)"
proof -
  have "\<forall>v. \<not> cx_str_record cx v" using assms(1) by (simp add: plain_ctx_def)
  note ops = int_op_safe [OF this]
  show ?thesis
    using assms(2) ops
    by (cases "apply_int_op (cx_str_record cx) op a b"; cases "apply_int_op_u64 (cx_str_record cx) op a b")
       (auto simp: eval_binary_def safe_liftR)
qed

lemma eval_binary_floats:
  assumes "ty = ScalarF32 \<or> ty = ScalarF64"
  shows "safe ty (liftR (eval_binary cx op u (VFloat a) (VFloat b)) c)"
  using assms float_op_safe [of op a b] by (cases "apply_float_op op a b") (auto simp: eval_binary_def safe_liftR)

lemma eval_binary_mixed:
  assumes "conforms v (TensorTy t)" "conforms w ts" "elem_scalar ts"
  shows "safe (TensorTy t) (liftR (eval_binary cx op u v w) c)" "safe (TensorTy t) (liftR (eval_binary cx op u w v) c)"
proof -
  obtain tv where tv: "v = VTensor tv" "tv_dtype tv = ty_dtype t" "tv_shape tv = ty_shape t"
    using conforms_TensorD [OF assms(1)] by blast
  have "(\<exists>n. w = VInt n) \<or> (\<exists>f. w = VFloat f)" using assms(2,3) by (cases w; cases ts) (auto simp: elem_scalar_def)
  then show "safe (TensorTy t) (liftR (eval_binary cx op u v w) c)" "safe (TensorTy t) (liftR (eval_binary cx op u w v) c)"
    using tensor_scalar_safe [OF tv(2,3)] tv(1) by (auto simp: eval_binary_def)
qed

lemma eval_binary_tensors:
  assumes "conforms v (TensorTy s)" "conforms w (TensorTy t)" "ty_dtype s = ty_dtype t"
    and "eval_broadcast_shapes (ty_shape s) (ty_shape t) = Some shape"
  shows "safe (TensorTy (tensor_ty_new (ty_dtype s) shape)) (liftR (eval_binary cx op u v w) c)"
proof -
  obtain a b where "v = VTensor a" "tv_dtype a = ty_dtype s" "tv_shape a = ty_shape s"
      "w = VTensor b" "tv_dtype b = ty_dtype t" "tv_shape b = ty_shape t"
    using conforms_TensorD [OF assms(1)] conforms_TensorD [OF assms(2)] by blast
  then show ?thesis using tensor_tensor_safe [of a b shape] assms(3,4) by (simp add: eval_binary_def)
qed

lemma binary_sound:
  assumes "infer_binary op tx tw sp = Inr (ty, sp')" "conforms v tx" "conforms w tw" "plain_ctx cx"
    and "rank_fits (Inr (tx, xs))" "rank_fits (Inr (tw, ws))"
  shows "safe ty (liftR (eval_binary cx op u v w) c)"
proof -
  consider (ints) "ty = ScalarI32 \<or> ty = ScalarI64 \<or> ty = ScalarBool" "tx = ty" "tw = ty"
    | (floats) "ty = ScalarF32 \<or> ty = ScalarF64" "tx = ty" "tw = ty"
    | (tensors) s t where "tx = TensorTy s" "tw = TensorTy t" "infer_tensor_binary op s t sp = Inr (ty, sp')"
    | (left) t where "tx = TensorTy t" "tw = ScalarI32" "infer_scalar_binary op tx tw t sp = Inr (ty, sp')"
    | (right) t where "tx = ScalarI32" "tw = TensorTy t" "infer_scalar_binary op tx tw t sp = Inr (ty, sp')"
    using assms(1) by (cases tx; cases tw) (auto simp: infer_binary_def)
  then show ?thesis
  proof cases
    case ints
    then obtain a b where "v = VInt a" "w = VInt b" using assms(2,3) conforms_scalarD by blast
    then show ?thesis using eval_binary_ints [OF assms(4) ints(1)] by simp
  next
    case floats
    then obtain a b where "v = VFloat a" "w = VFloat b" using assms(2,3) conforms_scalarD by blast
    then show ?thesis using eval_binary_floats [OF floats(1)] by simp
  next
    case tensors
    have "length (ty_shape s) < 2 ^ 63" "length (ty_shape t) < 2 ^ 63" using assms(5,6) tensors by (auto simp: rank_fits_def)
    from tensor_binary_type [OF tensors(3) this] show ?thesis
      using eval_binary_tensors assms(2,3) tensors(1,2) by metis
  next
    case left
    then have "ty = TensorTy t"
      by (auto simp: infer_scalar_binary_def promote_scalar_to_def tensor_ty_new_def split: option.splits if_splits)
    then show ?thesis using eval_binary_mixed(1) [of v t w ScalarI32] assms(2,3) left by (simp add: elem_scalar_def)
  next
    case right
    then have "ty = TensorTy t"
      by (auto simp: infer_scalar_binary_def promote_scalar_to_def tensor_ty_new_def split: option.splits if_splits)
    then show ?thesis using eval_binary_mixed(2) [of w t v ScalarI32] assms(2,3) right by (simp add: elem_scalar_def)
  qed
qed

lemma elemwise_sound:
  assumes "infer_elemwise tx tw sp = Inr (ty, sp')" "conforms v tx" "conforms w tw"
  shows "safe ty (liftR (eval_binary cx op u v w) c)"
proof -
  consider (tensors) s t shape where "tx = TensorTy s" "tw = TensorTy t" "ty_dtype s = ty_dtype t"
        "eval_broadcast_shapes (ty_shape s) (ty_shape t) = Some shape" "ty = TensorTy (tensor_ty_new (ty_dtype s) shape)"
    | (left) t where "tx = TensorTy t" "elem_scalar tw" "ty = TensorTy t"
    | (right) t where "tw = TensorTy t" "elem_scalar tx" "ty = TensorTy t"
    using assms(1)
    by (cases tx; cases tw) (auto simp: infer_elemwise_def broadcast_shapes_spec split: if_splits option.splits)
  then show ?thesis
    by cases (use assms(2,3) eval_binary_tensors eval_binary_mixed in \<open>simp_all, blast+\<close>)
qed

lemma rand_sound: "safe (TensorTy (tensor_ty_new TF32 (map Known shape))) (bindM (liftR (rand_tensor oc shape)) (\<lambda>t. returnM (VTensor t)) c)"
  by (auto simp: rand_tensor_def bindM_def arith_errors_def split: option.splits)

subsection \<open>Soundness\<close>

lemma subnodes_self: "e \<in> set (subnodes e)"
  by (cases e) simp_all

lemma static_rank: "static_expr infer \<Gamma> e \<Longrightarrow> rank_fits (infer e)"
  using subnodes_self [of e] by (auto simp: static_expr_def list_all_iff)

lemma literal_sound:
  assumes "infer_literal vs \<Gamma> l sp = Inr (ty, sp')" "plain_ctx cx" "env_conforms env \<Gamma>" "static_node infer \<Gamma> (Lit l sp)"
  shows "safe ty (eval_value_expr_mode cx env (Lit l sp) c)"
proof (cases l)
  case (LIdent x)
  then obtain tx where tx: "map_of \<Gamma> x = Some tx" using assms(4) by auto
  then obtain v where "env x = Some v" "conforms v tx" using assms(3) by (auto simp: env_conforms_def)
  then show ?thesis using assms(1,2) LIdent tx by (auto simp: eval_ident_def plain_ctx_def)
qed (use assms in auto)

lemma unary_sound:
  assumes "rbind ix (\<lambda>(ty, _). arm ty) = Inr (ty, sp)"
    and "\<And>tx s. ix = Inr (tx, s) \<Longrightarrow> safe tx (m c)"
    and "\<And>tx s v c. ix = Inr (tx, s) \<Longrightarrow> arm tx = Inr (ty, sp) \<Longrightarrow> conforms v tx \<Longrightarrow> safe ty (f v c)"
  shows "safe ty (bindM m f c)"
proof -
  obtain tx s where x: "ix = Inr (tx, s)" "arm tx = Inr (ty, sp)" using assms(1) by (auto simp: rbind_eq_Inr)
  show ?thesis by (rule safe_bind) (rule assms(2) [OF x(1)], rule assms(3) [OF x])
qed

lemma binop_sound:
  assumes "rbind ix (\<lambda>(s, _). rbind iy (\<lambda>(t, q). arm s t q)) = Inr (ty, sp)"
    and "\<And>tx s c. ix = Inr (tx, s) \<Longrightarrow> safe tx (m c)"
    and "\<And>tx s c. iy = Inr (tx, s) \<Longrightarrow> safe tx (n c)"
    and "\<And>tx s tw q v w c. ix = Inr (tx, s) \<Longrightarrow> iy = Inr (tw, q) \<Longrightarrow> arm tx tw q = Inr (ty, sp) \<Longrightarrow>
      conforms v tx \<Longrightarrow> conforms w tw \<Longrightarrow> safe ty (f v w c)"
  shows "safe ty (bindM m (\<lambda>v. bindM n (f v)) c)"
proof -
  obtain tx s tw q where x: "ix = Inr (tx, s)" "iy = Inr (tw, q)" "arm tx tw q = Inr (ty, sp)"
    using assms(1) by (auto simp: rbind_eq_Inr)
  show ?thesis
  proof (rule safe_bind)
    show "safe tx (m c)" by (rule assms(2) [OF x(1)])
    show "safe ty (bindM n (f v) c')" if "conforms v tx" for v c'
      by (rule safe_bind) (rule assms(3) [OF x(2)], rule assms(4) [OF x that])
  qed
qed

lemmas arm_sound = reduce_sound reshape_sound expand_dims_sound squeeze_sound transpose_sound index_sound
  slice_sound gather_sound dot_sound matmul_sound elemwise_sound relu_sound

lemma infer_expr_sound:
  assumes "plain_ctx cx" "env_conforms env \<Gamma>"
  shows "infer_expr vs other \<Gamma> e = Inr (ty, sp) \<Longrightarrow> static_expr (infer_expr vs other \<Gamma>) \<Gamma> e \<Longrightarrow>
    safe ty (eval_value_expr_mode cx env e c)"
proof (induction e arbitrary: ty sp c)
  case (Lit l s)
  then show ?case using literal_sound [OF _ assms] by (auto simp: static_expr_def simp del: eval_value_expr_mode.simps)
next
  case (Binary op x y s)
  then have st: "static_expr (infer_expr vs other \<Gamma>) \<Gamma> x" "static_expr (infer_expr vs other \<Gamma>) \<Gamma> y" by (simp_all add: static_expr_def)
  show ?case unfolding eval_value_expr_mode.simps
    by (rule binop_sound [OF Binary.prems(1) [unfolded infer_expr.simps]])
       (use Binary.IH st assms(1) static_rank [OF st(1)] static_rank [OF st(2)] in \<open>auto intro: binary_sound\<close>)
next
  case (Paren x s)
  then show ?case by (auto simp: rbind_eq_Inr static_expr_def)
next
  case (CallSliceStride x axis a b st s)
  have nz: "st \<noteq> 0" and p: "rbind (infer_expr vs other \<Gamma> x) (\<lambda>(ty, _). infer_slice_stride ty (node_span x) axis a b st s) = Inr (ty, sp)"
    using CallSliceStride.prems(1) by (auto split: if_splits)
  show ?case unfolding eval_value_expr_mode.simps
    by (rule unary_sound [OF p]) (use CallSliceStride nz in \<open>auto intro: slice_stride_sound simp: static_expr_def\<close>)
next
  case (CallTensorRand shape s)
  then show ?case using rand_sound by auto
next
  case (CallTensorConv2d x w sh sw p s)
  have nz: "sh \<noteq> 0" "sw \<noteq> 0" and q: "rbind (infer_expr vs other \<Gamma> x) (\<lambda>(tx, _). rbind (infer_expr vs other \<Gamma> w) (\<lambda>(tw, _).
        infer_conv2d tx (node_span x) tw (node_span w) sh sw p s)) = Inr (ty, sp)"
    using CallTensorConv2d.prems(1) by (auto split: if_splits)
  show ?case unfolding eval_value_expr_mode.simps
    by (rule binop_sound [OF q]) (use CallTensorConv2d nz in \<open>auto intro: conv2d_sound simp: static_expr_def\<close>)
next
  case (Other x s)
  then show ?case by (simp add: static_expr_def)
qed (unfold infer_expr.simps eval_value_expr_mode.simps,
    (erule binop_sound unary_sound; (auto intro: arm_sound simp: static_expr_def; fail))+)

end
