(* ===== verification/Ast_Fold.thy ===== *)
theory Ast_Fold
  imports Tensor_Eval
begin

text \<open>
  \<^verbatim>\<open>src/opt/fold.rs\<close>: folding of literal operands on the AST, bottom-up through binary operators and
  parentheses.  \<^const>\<open>None\<close> is a panic (\<open>i64::MIN / -1\<close>).  Integer arithmetic folds only when the exact result is
  representable; floating-point division folds unconditionally.
\<close>

datatype fold_result = FoldTo i64 | Leave

definition fold_checked :: "i64 option \<Rightarrow> fold_result option" where
  "fold_checked v = Some (case v of Some x \<Rightarrow> FoldTo x | None \<Rightarrow> Leave)"

definition fold_int :: "ast_binop \<Rightarrow> i64 \<Rightarrow> i64 \<Rightarrow> fold_result option" where
  "fold_int op a b =
     (case op of
        AstAdd \<Rightarrow> fold_checked (checked_add a b)
      | AstSub \<Rightarrow> fold_checked (checked_sub a b)
      | AstMul \<Rightarrow> fold_checked (checked_mul a b)
      | AstDiv \<Rightarrow> if b = 0 then Some Leave else map_option FoldTo (arith_div a b)
      | AstMod \<Rightarrow> if b = 0 then Some Leave else map_option FoldTo (arith_rem a b)
      | AstLt \<Rightarrow> Some (FoldTo (i64_of_bool (sint a < sint b)))
      | AstLe \<Rightarrow> Some (FoldTo (i64_of_bool (sint a \<le> sint b)))
      | AstGt \<Rightarrow> Some (FoldTo (i64_of_bool (sint a > sint b)))
      | AstGe \<Rightarrow> Some (FoldTo (i64_of_bool (sint a \<ge> sint b)))
      | AstEq \<Rightarrow> Some (FoldTo (i64_of_bool (a = b)))
      | AstNe \<Rightarrow> Some (FoldTo (i64_of_bool (a \<noteq> b))))"

definition fold_float :: "ast_binop \<Rightarrow> f64 \<Rightarrow> f64 \<Rightarrow> f64" where
  "fold_float op a b =
     (case op of
        AstAdd \<Rightarrow> f64_add a b
      | AstSub \<Rightarrow> f64_sub a b
      | AstMul \<Rightarrow> f64_mul a b
      | AstDiv \<Rightarrow> f64_div a b
      | AstMod \<Rightarrow> f64_rem a b
      | AstLt \<Rightarrow> f64_of_bool (f64_lt a b)
      | AstLe \<Rightarrow> f64_of_bool (f64_le a b)
      | AstGt \<Rightarrow> f64_of_bool (f64_lt b a)
      | AstGe \<Rightarrow> f64_of_bool (f64_le b a)
      | AstEq \<Rightarrow> f64_of_bool (f64_eq a b)
      | AstNe \<Rightarrow> f64_of_bool (\<not> f64_eq a b))"

definition fold_binary :: "ast_binop \<Rightarrow> 'x node \<Rightarrow> 'x node \<Rightarrow> ast_span \<Rightarrow> 'x node option" where
  "fold_binary op l r span =
     (case (l, r) of
        (Lit (LInt a) _, Lit (LInt b) _) \<Rightarrow>
          map_option (\<lambda>v. case v of FoldTo x \<Rightarrow> Lit (LInt x) span | Leave \<Rightarrow> Binary op l r span) (fold_int op a b)
      | (Lit (LFloat a) _, Lit (LFloat b) _) \<Rightarrow> Some (Lit (LFloat (fold_float op a b)) span)
      | _ \<Rightarrow> Some (Binary op l r span))"

fun fold_node :: "'x node \<Rightarrow> 'x node option" where
  "fold_node (Binary op left right span) = do { l \<leftarrow> fold_node left; r \<leftarrow> fold_node right; fold_binary op l r span }"
| "fold_node (Paren inner span) = do { f \<leftarrow> fold_node inner; Some (Paren f span) }"
| "fold_node other = Some other"

subsection \<open>Folding and evaluation\<close>

lemma fold_int_eval:
  assumes "apply_int_op rec op a b = Inr v"
  shows "fold_int op a b = Some (FoldTo v) \<or> fold_int op a b = Some Leave"
proof -
  have "(\<lambda>_. apply_int_op rec op a b) () = Inr v" using assms by simp
  then show ?thesis
    by (cases op)
       (auto simp: apply_int_op_def fold_int_def fold_checked_def checked_add_def checked_sub_def checked_mul_def
         or_panic_def rbind_eq_Inr split: option.splits if_splits)
qed

lemma fold_float_eval: "apply_float_op op a b = Inr v \<Longrightarrow> fold_float op a b = v"
  by (cases op) (auto simp: apply_float_op_def fold_float_def split: if_splits)

lemma fold_binary_cases:
  obtains (ints) a sa b sb where "l = Lit (LInt a) sa" "r = Lit (LInt b) sb"
  | (floats) a sa b sb where "l = Lit (LFloat a) sa" "r = Lit (LFloat b) sb"
  | (leave) "fold_binary op l r span = Some (Binary op l r span)"
proof -
  have "(\<exists>a sa b sb. l = Lit (LInt a) sa \<and> r = Lit (LInt b) sb) \<or> (\<exists>a sa b sb. l = Lit (LFloat a) sa \<and> r = Lit (LFloat b) sb) \<or>
      fold_binary op l r span = Some (Binary op l r span)"
    by (cases l; cases r) (auto simp: fold_binary_def split: literal.splits)
  then show thesis using ints floats leave by blast
qed

lemma fold_binary_u64:
  assumes "fold_binary op l r span = Some e"
  shows "\<not> interp_expr_is_u64 cx e"
proof (cases rule: fold_binary_cases [where l = l and r = r and op = op and span = span])
  case (ints a sa b sb)
  then obtain v where "e = (case v of FoldTo x \<Rightarrow> Lit (LInt x) span | Leave \<Rightarrow> Binary op l r span)"
    using assms by (auto simp: fold_binary_def)
  then show ?thesis by (cases v) simp_all
qed (use assms in \<open>auto simp: fold_binary_def\<close>)

lemma fold_node_u64: "fold_node e = Some e' \<Longrightarrow> interp_expr_is_u64 cx e' = interp_expr_is_u64 cx e"
  by (induction e arbitrary: e') (auto simp: bind_eq_Some_conv dest: fold_binary_u64)

lemma fold_binary_eval:
  assumes "eval_value_expr_mode cx env (Binary op l r span) c = Inr (v, c')"
  shows "\<exists>e. fold_binary op l r span = Some e \<and> eval_value_expr_mode cx env e c = Inr (v, c')"
proof (cases rule: fold_binary_cases [where l = l and r = r and op = op and span = span])
  case (ints a sa b sb)
    then obtain x where x: "apply_int_op (cx_str_record cx) op a b = Inr x" "v = VInt x" "c' = c"
      using assms by (auto simp: eval_binary_def liftR_eq_Inr rbind_eq_Inr)
    show ?thesis using fold_int_eval [OF x(1)] assms ints x(2,3) by (auto simp: fold_binary_def)
  next
  case (floats a sa b sb)
    then obtain x where "apply_float_op op a b = Inr x" "v = VFloat x" "c' = c"
      using assms by (auto simp: eval_binary_def liftR_eq_Inr rbind_eq_Inr)
    then show ?thesis using floats fold_float_eval by (auto simp: fold_binary_def)
  next
  case leave
    then show ?thesis using assms by simp
qed

lemma fold_node_eval:
  "eval_value_expr_mode cx env e c = Inr (v, c') \<Longrightarrow>
    \<exists>e'. fold_node e = Some e' \<and> eval_value_expr_mode cx env e' c = Inr (v, c')"
proof (induction e arbitrary: c v c')
  case (Binary op l r span)
  from Binary.prems obtain lv c1 rv c2 where ev: "eval_value_expr_mode cx env l c = Inr (lv, c1)"
      "eval_value_expr_mode cx env r c1 = Inr (rv, c2)" by (auto simp: bindM_eq_Inr)
  obtain l' r' where f: "fold_node l = Some l'" "eval_value_expr_mode cx env l' c = Inr (lv, c1)"
      "fold_node r = Some r'" "eval_value_expr_mode cx env r' c1 = Inr (rv, c2)"
    using Binary.IH(1) [OF ev(1)] Binary.IH(2) [OF ev(2)] by blast
  have "eval_value_expr_mode cx env (Binary op l' r' span) c = Inr (v, c')"
    using Binary.prems ev f fold_node_u64 [OF f(1)] fold_node_u64 [OF f(3)] by simp
  from fold_binary_eval [OF this] show ?case using f by simp
next
  case (Paren inner span)
  then show ?case by fastforce
qed (auto simp del: eval_value_expr_mode.simps)

end
