(* ===== verification/Mic2_Text.thy ===== *)
theory Mic2_Text
  imports Rust_Lines Map_Limits
begin

text \<open>
  \<^verbatim>\<open>src/ir/compact/v2/emit.rs\<close> and \<^verbatim>\<open>src/ir/compact/v2/parse.rs\<close>: the mic@2 text format.  The emitter's
  functions return the text they append to the output.  The parser's state is the record \<open>mic2_parser\<close>;
  the lines from \<open>line_num\<close> on are an argument of its loops.  An error carries the line number and the
  constructor of \<open>mic2_msg\<close> for its \<open>format!\<close> call.
\<close>

definition MIC2_HEADER :: string where "MIC2_HEADER = ''mic@2''"
definition MAX_INPUT_SIZE :: usize where "MAX_INPUT_SIZE = 10 * 1024 * 1024"
definition MAX_LINE_COUNT :: usize where "MAX_LINE_COUNT = 1000000"
definition MAX_VALUE_COUNT :: usize where "MAX_VALUE_COUNT = 100000"
definition MAX_SHAPE_DIMS :: usize where "MAX_SHAPE_DIMS = 32"

subsection \<open>The emitter\<close>

definition emit_param :: "i64 \<Rightarrow> string" where
  "emit_param a = space_ch # show_i64 a"

definition emit_opcode :: "opcode \<Rightarrow> string" where
  "emit_opcode op = opcode_as_token op @
     (case op of
        OpSoftmax axis \<Rightarrow> if axis \<noteq> -1 then emit_param axis else []
      | OpTranspose perm \<Rightarrow> concat (map emit_param perm)
      | OpSum axes \<Rightarrow> concat (map emit_param axes)
      | OpMean axes \<Rightarrow> concat (map emit_param axes)
      | OpMax axes \<Rightarrow> concat (map emit_param axes)
      | OpConcat axis \<Rightarrow> emit_param axis
      | OpSplit axis n \<Rightarrow> emit_param axis @ space_ch # show_nat n
      | OpGather axis \<Rightarrow> emit_param axis
      | _ \<Rightarrow> [])"

definition emit_value :: "mic_value \<Rightarrow> string" where
  "emit_value v =
     (case v of
        VArg name type_idx \<Rightarrow> ''a '' @ name @ '' T'' @ show_nat type_idx
      | VParam name type_idx \<Rightarrow> ''p '' @ name @ '' T'' @ show_nat type_idx
      | VNode op inputs \<Rightarrow> emit_opcode op @ concat (map (\<lambda>inp. space_ch # show_nat inp) inputs))"

definition is_printable_nonascii :: "string \<Rightarrow> bool" where
  "is_printable_nonascii ch \<longleftrightarrow> \<not> is_control ch"

definition escape_char :: "string \<Rightarrow> string" where
  "escape_char ch =
     (if ch = [quote_ch] then [backslash_ch, quote_ch]
      else if ch = [backslash_ch] then [backslash_ch, backslash_ch]
      else if ch = [newline_ch] then backslash_ch # ''n''
      else if ch = [CHR 0x09] then backslash_ch # ''t''
      else if is_ascii ch \<and> char_code ch < 0x20 then backslash_ch # CHR ''u'' # format_04X (char_code ch)
      else if \<not> is_ascii ch \<and> \<not> is_printable_nonascii ch
        then concat (map (\<lambda>u. backslash_ch # CHR ''u'' # format_04X u) (encode_utf16 ch))
      else ch)"

definition emit_map_string :: "string \<Rightarrow> string" where
  "emit_map_string s = quote_ch # concat (map escape_char (chars s)) @ [quote_ch]"

definition emit_map_bytes :: "u8 list \<Rightarrow> string" where
  "emit_map_bytes b = ''bytes(0x'' @ concat (map format_02x b) @ '')''"

definition indent :: "nat \<Rightarrow> string" where
  "indent depth = concat (replicate depth ''  '')"

function emit_map_value :: "map_value \<Rightarrow> nat \<Rightarrow> string"
  and emit_map_nested :: "(string \<times> map_value) list \<Rightarrow> nat \<Rightarrow> string" where
  "emit_map_value (MapString s) depth = emit_map_string s"
| "emit_map_value (MapInt i) depth = (let n = (if i = 0 then 0 else i) in show_i64 n)"
| "emit_map_value (MapBytes b) depth = emit_map_bytes b"
| "emit_map_value (MapNested inner) depth =
     ''{'' @ [newline_ch] @ emit_map_nested (iter_canonical inner) depth @ indent depth @ ''}''"
| "emit_map_nested [] depth = []"
| "emit_map_nested ((key, v) # es) depth =
     indent (depth + 1) @ key @ '' = '' @ emit_map_value v (depth + 1) @ [newline_ch] @ emit_map_nested es depth"
  by pat_completeness auto
termination
  by (relation "measure (\<lambda>x. case x of Inl (v, d) \<Rightarrow> size v
      | Inr (es, d) \<Rightarrow> size_list (size_prod (\<lambda>_. 0) size) es)")
    (auto simp: iter_canonical_def)

definition emit_map_block :: "mic_map \<Rightarrow> string" where
  "emit_map_block m =
     ''map {'' @ [newline_ch] @
     concat (map (\<lambda>(key, v). ''  '' @ key @ '' = '' @ emit_map_value v 1 @ [newline_ch]) (iter_canonical m)) @ ''}''"

definition emit_type :: "nat \<Rightarrow> tensor_type \<Rightarrow> string" where
  "emit_type i t =
     CHR ''T'' # show_nat i @ '' '' @ dtype_as_str (tt_dtype t) @ concat (map (\<lambda>dim. space_ch # dim) (tt_shape t)) @ [newline_ch]"

definition emit_mic2 :: "graph \<Rightarrow> string" where
  "emit_mic2 g =
     (let canonical_map = canonicalize (g_map g) in
      MIC2_HEADER @ [newline_ch] @
      concat (map (\<lambda>name. ''S '' @ name @ [newline_ch]) (g_symbols g)) @
      concat (map (\<lambda>(i, t). emit_type i t) (enumerate 0 (g_types g))) @
      concat (map (\<lambda>v. emit_value v @ [newline_ch]) (g_values g)) @
      ''O '' @ show_nat (g_output g) @
      (if \<not> map_is_empty canonical_map then [newline_ch] @ emit_map_block canonical_map else []))"

subsection \<open>Errors of the parser\<close>

datatype bytes_msg =
    ExpectedBytes string
  | OddHexLength usize
  | BytesLimit map_limit_error
  | NonHexChars string

datatype int_msg =
    ExpectedInteger string
  | LeadingZero string
  | BadInteger string

datatype escape_msg =
    IncompleteEscape
  | InvalidEscapeHex string
  | InvalidCodePoint nat
  | UnknownEscape string
  | TrailingBackslash

datatype mic2_msg =
    InputTooLarge usize
  | TooManyLines usize
  | UnsupportedVersion string
  | ExpectedHeader string
  | EmptyInput
  | MissingOutput
  | GraphInvalid graph_error
  | InvalidSymbolLine
  | InvalidTypeIndex string
  | NonSequentialType usize usize
  | TypeRequiresDtype
  | UnknownDtypeName string
  | TooManyShapeDims usize
  | InvalidArgLine
  | InvalidParamLine
  | NotYetDefined usize usize
  | UnknownOpcodeName string
  | WrongInputCount string usize usize
  | InvalidOutputLine
  | InvalidOutputId string
  | UndefinedOutput usize usize
  | ExpectedTypeRef string
  | BadTypeRef string
  | UndefinedType usize usize
  | TooManyValues usize
  | ExpectedMapOpen string
  | UnterminatedMap
  | MissingEquals string
  | MapLimitExceeded map_limit_error
  | BadBytes bytes_msg
  | BadInt int_msg
  | UnterminatedString string
  | BadEscape escape_msg
  | DuplicateMapKey string

record mic2_parse_error =
  pe_line :: usize
  pe_message :: mic2_msg

definition error_at :: "usize \<Rightarrow> mic2_msg \<Rightarrow> mic2_parse_error" where
  "error_at line msg = \<lparr>pe_line = line, pe_message = msg\<rparr>"

subsection \<open>Values of the metadata map\<close>

fun unescape_chars :: "string list \<Rightarrow> escape_msg + string" where
  "unescape_chars [] = Inr []"
| "unescape_chars (c # cs) =
     (if c = [backslash_ch] then
        (case cs of
           [] \<Rightarrow> Inl TrailingBackslash
         | d # ds \<Rightarrow>
             if d = [quote_ch] then map_sum id (append [quote_ch]) (unescape_chars ds)
             else if d = [backslash_ch] then map_sum id (append [backslash_ch]) (unescape_chars ds)
             else if d = ''n'' then map_sum id (append [newline_ch]) (unescape_chars ds)
             else if d = ''t'' then map_sum id (append [CHR 0x09]) (unescape_chars ds)
             else if d = ''r'' then map_sum id (append [return_ch]) (unescape_chars ds)
             else if d = ''u'' then
               (if length ds < 4 then Inl IncompleteEscape
                else let hex = concat (take 4 ds) in
                  case u32_from_hex hex of
                    None \<Rightarrow> Inl (InvalidEscapeHex hex)
                  | Some code \<Rightarrow>
                      (case char_from_u32 code of
                         None \<Rightarrow> Inl (InvalidCodePoint code)
                       | Some ch \<Rightarrow> map_sum id (append ch) (unescape_chars (drop 4 ds))))
             else Inl (UnknownEscape d))
      else map_sum id (append c) (unescape_chars cs))"

definition unescape_json_string :: "string \<Rightarrow> escape_msg + string" where
  "unescape_json_string s = unescape_chars (chars s)"

definition hex_nibble :: "u8 \<Rightarrow> u8 option" where
  "hex_nibble b =
     (if 0x30 \<le> b \<and> b \<le> 0x39 then Some (b - 0x30)
      else if 0x61 \<le> b \<and> b \<le> 0x66 then Some (b - 0x61 + 10)
      else if 0x41 \<le> b \<and> b \<le> 0x46 then Some (b - 0x41 + 10)
      else None)"

text \<open>\<open>as_bytes().chunks(2)\<close> with both nibbles unwrapped; the caller has checked length and digits.\<close>

fun decode_hex_pairs :: "u8 list \<Rightarrow> u8 list" where
  "decode_hex_pairs (a # b # cs) =
     or (push_bit 4 (the (hex_nibble a))) (the (hex_nibble b)) # decode_hex_pairs cs"
| "decode_hex_pairs _ = []"

definition parse_map_bytes_value :: "string \<Rightarrow> bytes_msg + map_value" where
  "parse_map_bytes_value raw =
     (case Option.bind (strip_prefix ''bytes(0x'' raw) (strip_suffix_char (CHR '')'')) of
        None \<Rightarrow> Inl (ExpectedBytes raw)
      | Some inner \<Rightarrow>
          if inner = [] then Inr (MapBytes [])
          else if length inner mod 2 \<noteq> 0 then Inl (OddHexLength (length inner))
          else rbind (map_err BytesLimit (check_map_bytes_len (length inner div 2))) (\<lambda>_.
            if \<not> list_all (\<lambda>c. hex_digit_val c \<noteq> None) inner then Inl (NonHexChars raw)
            else Inr (MapBytes (decode_hex_pairs (as_bytes inner)))))"

definition parse_map_int_value :: "string \<Rightarrow> int_msg + map_value" where
  "parse_map_int_value raw =
     (let digits = (case strip_prefix ''-'' raw of Some d \<Rightarrow> d | None \<Rightarrow> raw) in
      if digits = [] then Inl (ExpectedInteger raw)
      else if length digits > 1 \<and> starts_with ''0'' digits then Inl (LeadingZero raw)
      else case parse_i64 raw of
        None \<Rightarrow> Inl (BadInteger raw)
      | Some n \<Rightarrow> Inr (MapInt (if n = 0 then 0 else n)))"

definition parse_map_string_value :: "usize \<Rightarrow> string \<Rightarrow> mic2_parse_error + map_value" where
  "parse_map_string_value line raw =
     (if \<not> (raw \<noteq> [] \<and> last raw = quote_ch) \<or> length raw < 2 then Inl (error_at line (UnterminatedString raw))
      else let inner = butlast (tl raw) in
        rbind (map_err (\<lambda>e. error_at line (BadEscape e)) (unescape_json_string inner)) (\<lambda>s.
        rbind (map_err (\<lambda>e. error_at line (MapLimitExceeded e)) (check_map_string_len (length s))) (\<lambda>_.
          Inr (MapString s))))"

text \<open>The value of an entry that is not a nested map.\<close>

definition parse_map_scalar :: "usize \<Rightarrow> string \<Rightarrow> mic2_parse_error + map_value" where
  "parse_map_scalar line raw =
     (if starts_with [quote_ch] raw then parse_map_string_value line raw
      else if starts_with ''bytes('' raw
        then map_err (\<lambda>e. error_at line (BadBytes e)) (parse_map_bytes_value raw)
      else map_err (\<lambda>e. error_at line (BadInt e)) (parse_map_int_value raw))"

text \<open>
  \<open>parse_map_entries\<close>: \<open>line\<close> and \<open>rest\<close> are the line number and the lines from there on, before the call
  and in the result.  The entry's line is checked by \<open>map_entry_head\<close>, which yields the key and the raw value.
\<close>

definition map_entry_head :: "usize \<Rightarrow> mic_map \<Rightarrow> string \<Rightarrow> mic2_parse_error + string \<times> string" where
  "map_entry_head line m trimmed =
     rbind (map_err (\<lambda>e. error_at line (MapLimitExceeded e)) (check_map_entry_count (recursive_entry_count m + 1))) (\<lambda>_.
     case find_char CHR ''='' trimmed of
       None \<Rightarrow> Inl (error_at line (MissingEquals trimmed))
     | Some eq_pos \<Rightarrow>
         let key_raw = trim (take eq_pos trimmed); value_raw = trim (drop (eq_pos + 1) trimmed) in
         rbind (map_err (\<lambda>e. error_at line (MapLimitExceeded e)) (check_map_key key_raw)) (\<lambda>_.
           Inr (key_raw, value_raw)))"

function parse_map_entries ::
  "usize \<Rightarrow> usize \<Rightarrow> string list \<Rightarrow> mic_map \<Rightarrow> mic2_parse_error + mic_map \<times> usize \<times> string list" where
  "parse_map_entries depth line [] m = Inl (error_at line UnterminatedMap)"
| "parse_map_entries depth line (l # rest) m =
     (let line = line + 1; trimmed = trim l in
      if trimmed = [] \<or> starts_with ''#'' trimmed then parse_map_entries depth line rest m
      else if trimmed = ''}'' then Inr (m, line, rest)
      else case map_entry_head line m trimmed of
        Inl e \<Rightarrow> Inl e
      | Inr (key_raw, value_raw) \<Rightarrow>
          (case
             (if value_raw = ''{'' then
                (case check_map_nesting_depth depth of
                   Inl e \<Rightarrow> Inl (error_at line (MapLimitExceeded e))
                 | Inr _ \<Rightarrow>
                     (case parse_map_entries (depth + 1) line rest map_new of
                        Inl e \<Rightarrow> Inl e
                      | Inr (inner, line', rest') \<Rightarrow> Inr (MapNested inner, line', rest')))
              else case parse_map_scalar line value_raw of
                Inl e \<Rightarrow> Inl e
              | Inr v \<Rightarrow> Inr (v, line, rest))
           of
             Inl e \<Rightarrow> Inl e
           | Inr (value, line', rest') \<Rightarrow>
               (case insert_unique m key_raw value of
                  Inl e \<Rightarrow> Inl (error_at line' (DuplicateMapKey key_raw))
                | Inr m' \<Rightarrow> parse_map_entries depth line' rest' m')))"
  by pat_completeness auto

termination
proof (relation "measure (\<lambda>(depth, line, ls, m). length ls)", goal_cases)
  case 4
  have shorter: "parse_map_entries_dom (depth, line, ls, m) \<Longrightarrow>
      parse_map_entries depth line ls m = Inr (m', line', rest') \<Longrightarrow> length rest' < length ls"
    for depth line ls m m' line' rest'
  proof (induction arbitrary: m' line' rest' rule: parse_map_entries.pinduct)
    case (1 depth line m)
    then show ?case by (simp add: parse_map_entries.psimps)
  next
    case (2 depth line l rest m)
    show ?case
      using 2(1,2,3,4,5)
      by (auto simp: parse_map_entries.psimps Let_def split: if_splits sum.splits) (fastforce dest: less_trans)+
  qed
  from 4 show ?case using shorter
    by (fastforce split: if_splits sum.splits)
qed auto

declare parse_map_entries.simps(2) [simp del]

subsection \<open>The parser\<close>

record mic2_parser =
  mp_line_num :: usize
  mp_graph :: graph
  mp_current_value_id :: usize
  mp_has_output :: bool

definition mic2_parser_new :: mic2_parser where
  "mic2_parser_new = \<lparr>mp_line_num = 0, mp_graph = graph_new, mp_current_value_id = 0, mp_has_output = False\<rparr>"

definition parse_fail :: "mic2_parser \<Rightarrow> mic2_msg \<Rightarrow> mic2_parse_error + 'a" where
  "parse_fail p msg = Inl (error_at (mp_line_num p) msg)"

fun parse_header :: "string list \<Rightarrow> mic2_parser \<Rightarrow> mic2_parse_error + string list \<times> mic2_parser" where
  "parse_header [] p = parse_fail p EmptyInput"
| "parse_header (l # rest) p =
     (let line = trim l; p = p\<lparr>mp_line_num := mp_line_num p + 1\<rparr> in
      if line = [] \<or> starts_with ''#'' line then parse_header rest p
      else if line = MIC2_HEADER then Inr (rest, p)
      else if starts_with ''mic@'' line then parse_fail p (UnsupportedVersion line)
      else parse_fail p (ExpectedHeader line))"

definition parse_symbol :: "mic2_parser \<Rightarrow> string list \<Rightarrow> mic2_parse_error + mic2_parser" where
  "parse_symbol p tokens =
     (if length tokens \<noteq> 2 then parse_fail p InvalidSymbolLine
      else Inr (p\<lparr>mp_graph := add_symbol (mp_graph p) (tokens ! 1)\<rparr>))"

definition parse_type :: "mic2_parser \<Rightarrow> string \<Rightarrow> string list \<Rightarrow> mic2_parse_error + mic2_parser" where
  "parse_type p first rest =
     (let idx_str = tl first in
      case parse_usize idx_str of
        None \<Rightarrow> parse_fail p (InvalidTypeIndex idx_str)
      | Some idx \<Rightarrow>
          if idx \<noteq> length (g_types (mp_graph p)) then parse_fail p (NonSequentialType (length (g_types (mp_graph p))) idx)
          else case rest of
            [] \<Rightarrow> parse_fail p TypeRequiresDtype
          | d # dims \<Rightarrow>
              (case dtype_parse d of
                 None \<Rightarrow> parse_fail p (UnknownDtypeName d)
               | Some dtype \<Rightarrow>
                   if length dims > MAX_SHAPE_DIMS then parse_fail p (TooManyShapeDims (length dims))
                   else Inr (p\<lparr>mp_graph := snd (add_type (mp_graph p) (tensor_type_new dtype dims))\<rparr>)))"

definition parse_type_ref :: "mic2_parser \<Rightarrow> string \<Rightarrow> mic2_parse_error + usize" where
  "parse_type_ref p tok =
     (if \<not> starts_with ''T'' tok then parse_fail p (ExpectedTypeRef tok)
      else case parse_usize (tl tok) of
        None \<Rightarrow> parse_fail p (BadTypeRef tok)
      | Some idx \<Rightarrow>
          if idx \<ge> length (g_types (mp_graph p)) then parse_fail p (UndefinedType idx (length (g_types (mp_graph p)) - 1))
          else Inr idx)"

definition parser_add_value :: "mic2_parser \<Rightarrow> mic_value \<Rightarrow> mic2_parse_error + mic2_parser" where
  "parser_add_value p v =
     (if mp_current_value_id p \<ge> MAX_VALUE_COUNT then parse_fail p (TooManyValues (mp_current_value_id p))
      else Inr (p\<lparr>mp_graph := snd (add_value (mp_graph p) v), mp_current_value_id := mp_current_value_id p + 1\<rparr>))"

definition parse_arg :: "mic2_parser \<Rightarrow> string list \<Rightarrow> mic2_parse_error + mic2_parser" where
  "parse_arg p tokens =
     (if length tokens \<noteq> 3 then parse_fail p InvalidArgLine
      else rbind (parse_type_ref p (tokens ! 2)) (\<lambda>type_ref. parser_add_value p (VArg (tokens ! 1) type_ref)))"

definition parse_param :: "mic2_parser \<Rightarrow> string list \<Rightarrow> mic2_parse_error + mic2_parser" where
  "parse_param p tokens =
     (if length tokens \<noteq> 3 then parse_fail p InvalidParamLine
      else rbind (parse_type_ref p (tokens ! 2)) (\<lambda>type_ref. parser_add_value p (VParam (tokens ! 1) type_ref)))"

definition parse_node :: "mic2_parser \<Rightarrow> string \<Rightarrow> string list \<Rightarrow> mic2_parse_error + mic2_parser" where
  "parse_node p opcode_tok rest =
     (let inputs = List.map_filter parse_usize rest;
          params = filter (\<lambda>tok. parse_usize tok = None) rest in
      case find (\<lambda>inp. inp \<ge> mp_current_value_id p) inputs of
        Some inp \<Rightarrow> parse_fail p (NotYetDefined inp (mp_current_value_id p - 1))
      | None \<Rightarrow>
          (case opcode_parse opcode_tok params of
             None \<Rightarrow> parse_fail p (UnknownOpcodeName opcode_tok)
           | Some opcode \<Rightarrow>
               (case opcode_arity opcode of
                  None \<Rightarrow> parser_add_value p (VNode opcode inputs)
                | Some expected \<Rightarrow>
                    if length inputs \<noteq> expected then parse_fail p (WrongInputCount opcode_tok expected (length inputs))
                    else parser_add_value p (VNode opcode inputs))))"

definition parse_output :: "mic2_parser \<Rightarrow> string list \<Rightarrow> mic2_parse_error + mic2_parser" where
  "parse_output p tokens =
     (if length tokens \<noteq> 2 then parse_fail p InvalidOutputLine
      else case parse_usize (tokens ! 1) of
        None \<Rightarrow> parse_fail p (InvalidOutputId (tokens ! 1))
      | Some i \<Rightarrow>
          if i \<ge> mp_current_value_id p then parse_fail p (UndefinedOutput i (mp_current_value_id p - 1))
          else Inr (p\<lparr>mp_graph := set_output (mp_graph p) i, mp_has_output := True\<rparr>))"

fun parse_map_block_if_present :: "string list \<Rightarrow> mic2_parser \<Rightarrow> mic2_parse_error + mic2_parser" where
  "parse_map_block_if_present [] p = Inr p"
| "parse_map_block_if_present (l # rest) p =
     (let line = trim l in
      if line = [] \<or> starts_with ''#'' line
        then parse_map_block_if_present rest (p\<lparr>mp_line_num := mp_line_num p + 1\<rparr>)
      else if \<not> starts_with ''map'' line then Inr p
      else
        let p = p\<lparr>mp_line_num := mp_line_num p + 1\<rparr>; r = trim (drop (length ''map'') line) in
        if r \<noteq> ''{'' then parse_fail p (ExpectedMapOpen r)
        else rbind (parse_map_entries 0 (mp_line_num p) rest map_new) (\<lambda>(m, line_num, _).
          Inr (p\<lparr>mp_line_num := line_num, mp_graph := (mp_graph p)\<lparr>g_map := m\<rparr>\<rparr>)))"

fun parse_lines :: "string list \<Rightarrow> mic2_parser \<Rightarrow> mic2_parse_error + mic2_parser" where
  "parse_lines [] p = Inr p"
| "parse_lines (l # rest) p =
     (let line = trim l; p = p\<lparr>mp_line_num := mp_line_num p + 1\<rparr> in
      if line = [] \<or> starts_with ''#'' line then parse_lines rest p
      else case split_whitespace line of
        [] \<Rightarrow> parse_lines rest p
      | first # args \<Rightarrow>
          if first = ''S'' then rbind (parse_symbol p (first # args)) (\<lambda>p. parse_lines rest p)
          else if first = ''O'' then rbind (parse_output p (first # args)) (\<lambda>p. parse_map_block_if_present rest p)
          else if first = ''a'' then rbind (parse_arg p (first # args)) (\<lambda>p. parse_lines rest p)
          else if first = ''p'' then rbind (parse_param p (first # args)) (\<lambda>p. parse_lines rest p)
          else if starts_with ''T'' first then rbind (parse_type p first args) (\<lambda>p. parse_lines rest p)
          else rbind (parse_node p first args) (\<lambda>p. parse_lines rest p))"

definition parser_parse :: "string list \<Rightarrow> mic2_parse_error + graph" where
  "parser_parse ls =
     rbind (parse_header ls mic2_parser_new) (\<lambda>(rest, p).
     rbind (parse_lines rest p) (\<lambda>p.
       if \<not> mp_has_output p \<and> g_values (mp_graph p) \<noteq> [] then parse_fail p MissingOutput
       else rbind
         (if g_values (mp_graph p) \<noteq> []
          then map_err (\<lambda>e. error_at (mp_line_num p) (GraphInvalid e)) (validate (mp_graph p)) else Inr ())
         (\<lambda>_. Inr (mp_graph p))))"

definition parse_mic2 :: "string \<Rightarrow> mic2_parse_error + graph" where
  "parse_mic2 input =
     (if length input > MAX_INPUT_SIZE then Inl (error_at 0 (InputTooLarge (length input)))
      else let ls = str_lines input in
        if length ls > MAX_LINE_COUNT then Inl (error_at 0 (TooManyLines (length ls)))
        else parser_parse ls)"

subsection \<open>Format detection\<close>

text \<open>\<open>detect_format\<close> of \<^verbatim>\<open>src/ir/compact/v2/mod.rs\<close>: magic numbers first, then the header of a text.\<close>

datatype mic_format = Mic1 | Mic2 | MicB | Mic3 | UnknownFormat

definition detect_format :: "u8 list \<Rightarrow> mic_format" where
  "detect_format data =
     (if length data \<ge> 5 \<and> take 4 data = as_bytes ''MIC3'' then Mic3
      else if length data \<ge> 5 \<and> take 4 data = MICB_MAGIC then MicB
      else case from_utf8 data of
        None \<Rightarrow> UnknownFormat
      | Some text \<Rightarrow>
          let trimmed = trim_start text in
          if starts_with ''mic@2'' trimmed then Mic2
          else if starts_with ''mic@1'' trimmed then Mic1
          else UnknownFormat)"

end
