(* ===== verification/Mic2_Roundtrip.thy ===== *)
theory Mic2_Roundtrip
  imports Mic2_Text Micb_Roundtrip
begin

text \<open>
  The mic@2 parser inverts the emitter on graphs whose names are words and whose operations carry no
  non-negative parameter: the emitter's output is a list of lines, each line is a list of words, and
  the parser's loops consume them one by one.
\<close>

subsection \<open>String values\<close>

lemma unescape_plain:
  "c \<noteq> [backslash_ch] \<Longrightarrow> unescape_chars (c # cs) = map_sum id (append c) (unescape_chars cs)"
  by (subst unescape_chars.simps) simp

lemma unescape_u:
  assumes "n < 0x10000" "char_from_u32 n = Some ch"
  shows "unescape_chars (chars (backslash_ch # CHR ''u'' # format_04X n @ r)) =
    map_sum id (append ch) (unescape_chars (chars r))"
proof -
  have "chars (format_04X n @ r) = map (\<lambda>c. [c]) (format_04X n) @ chars r"
    using format_04X_ascii [of n] by (intro chars_ascii_append) auto
  moreover have "length (format_04X n) = 4" by (simp add: format_04X_def)
  ultimately show ?thesis
    using assms by (simp add: chars_ascii u32_from_format del: chars.simps)
qed

lemma unescape_escape_char:
  assumes "utf8_char ch"
  shows "unescape_chars (chars (escape_char ch @ r)) = map_sum id (append ch) (unescape_chars (chars r))"
  using assms
proof (cases rule: utf8_char_cases)
  case (ascii c)
  have raw: "chars (c # r) = [c] # chars r" using ascii by (simp add: chars_ascii del: chars.simps)
  have u: "char_from_u32 (byte_of c) = Some [c]" using ascii by (simp add: char_from_u32_def utf8_encode_def)
  show ?thesis
  proof (cases "byte_of c < 0x20 \<and> c \<noteq> newline_ch \<and> c \<noteq> CHR 0x09")
    case True
    then have "escape_char ch = backslash_ch # CHR ''u'' # format_04X (byte_of c)"
      using ascii by (auto simp: escape_char_def is_ascii_def)
    then show ?thesis using unescape_u [OF _ u, of r] True ascii(1) by simp
  next
    case False
    then show ?thesis using ascii raw
      by (auto simp: escape_char_def is_ascii_def chars_ascii unescape_plain simp del: chars.simps)
  qed
next
  case wide
  then have ne: "ch \<noteq> []" "hd ch \<noteq> quote_ch" "hd ch \<noteq> backslash_ch" "hd ch \<noteq> newline_ch" "hd ch \<noteq> CHR 0x09"
    using assms by (cases ch; auto)+
  show ?thesis
  proof (cases "is_control ch")
    case True
    then have n: "char_code ch < 0x100" using wide by (auto simp: is_control_def Let_def)
    then have "char_from_u32 (char_code ch) = Some ch" using wide by (simp add: char_from_u32_def)
    moreover have "escape_char ch = backslash_ch # CHR ''u'' # format_04X (char_code ch)"
      using True n wide ne by (auto simp: escape_char_def is_ascii_def is_printable_nonascii_def encode_utf16_def)
    ultimately show ?thesis using unescape_u [of "char_code ch" ch r] n by simp
  next
    case False
    then have "escape_char ch = ch"
      using wide ne by (auto simp: escape_char_def is_ascii_def is_printable_nonascii_def)
    then show ?thesis using chars_append [OF assms, of r] ne by (auto simp: unescape_plain)
  qed
qed

lemma unescape_escape:
  assumes "valid_string s"
  shows "unescape_json_string (concat (map escape_char (chars s))) = Inr s"
proof -
  have "unescape_chars (chars (concat (map escape_char chs))) = Inr (concat chs)" if "\<forall>ch \<in> set chs. utf8_char ch" for chs
    using that by (induction chs) (simp_all add: unescape_escape_char)
  from this [of "chars s"] show ?thesis using chars_valid [OF assms] by (simp add: unescape_json_string_def)
qed

lemma parse_emit_string:
  assumes "valid_string s" "length s \<le> MAX_MAP_STRING_BYTES"
  shows "parse_map_scalar line (emit_map_string s) = Inr (MapString s)"
  using unescape_escape [OF assms(1)] assms(2)
  by (simp add: parse_map_scalar_def parse_map_string_value_def emit_map_string_def starts_with_def butlast_append
      check_map_string_len_def)

subsection \<open>Integer and byte values\<close>

lemma show_nat_zero: "hd (show_nat n) = CHR ''0'' \<longleftrightarrow> n = 0"
proof (induction n rule: show_nat.induct)
  case (1 n)
  show ?case
  proof (cases "n < 10")
    case True
    have "digit_char n = CHR ''0'' \<longleftrightarrow> n = 0"
      using True of_char_digit_char [of n] of_char_eq_iff [of "digit_char n" "CHR ''0''", where 'a = nat] by auto
    with True show ?thesis by (simp add: show_nat.simps [of n])
  next
    case False
    then show ?thesis using 1 by (simp add: show_nat.simps [of n])
  qed
qed

lemma show_nat_byte: "c \<in> set (show_nat n) \<Longrightarrow> 48 \<le> byte_of c \<and> byte_of c < 58"
  using show_nat_digits [of c n] of_char_digit_char by fastforce

lemma show_i64_byte: "c \<in> set (show_i64 i) \<Longrightarrow> c = CHR ''-'' \<or> 48 \<le> byte_of c \<and> byte_of c < 58"
  using show_nat_byte by (auto simp: show_i64_def split: if_splits)

lemma show_i64_nonempty [simp]: "show_i64 i \<noteq> []"
  by (simp add: show_i64_def)

lemma parse_emit_int: "parse_map_scalar line (show_i64 i) = Inr (MapInt i)"
proof -
  define ds where "ds = show_nat (nat \<bar>sint i\<bar>)"
  have raw: "show_i64 i = (if sint i < 0 then CHR ''-'' # ds else ds)" by (simp add: show_i64_def ds_def)
  obtain d es where ds: "ds = d # es" "48 \<le> byte_of d" "byte_of d < 58"
    using show_nat_nonempty show_nat_byte unfolding ds_def by (metis list.exhaust list.set_intros(1))
  have "d \<noteq> CHR ''-''" "d \<noteq> quote_ch" "d \<noteq> CHR ''b''" using ds by auto
  moreover have "d = CHR ''0'' \<Longrightarrow> es = []"
    using ds(1) show_nat_zero [of "nat \<bar>sint i\<bar>"] by (auto simp: ds_def show_nat.simps [of 0])
  ultimately show ?thesis
    using parse_i64_show_i64 [of i] ds(1)
    by (auto simp: raw parse_map_scalar_def starts_with_def parse_map_int_value_def strip_prefix_def split: if_splits)
qed

lemma hex_nibble_unat:
  "hex_nibble b =
     (if 48 \<le> unat b \<and> unat b \<le> 57 then Some (b - 0x30)
      else if 97 \<le> unat b \<and> unat b \<le> 102 then Some (b - 0x61 + 10)
      else if 65 \<le> unat b \<and> unat b \<le> 70 then Some (b - 0x41 + 10)
      else None)"
  by (simp add: hex_nibble_def word_le_nat_alt)

lemma hex_nibble_lower: "d < 16 \<Longrightarrow> hex_nibble (of_nat (byte_of (hex_lower d))) = Some (of_nat d)"
  by (simp add: hex_nibble_unat hex_lower_def unat_of_nat)

lemma nibbles: "or (push_bit 4 (of_nat (unat b div 16))) (of_nat (unat b mod 16)) = (b :: u8)"
proof -
  have "of_nat (unat b div 16) = drop_bit 4 b" "of_nat (unat b mod 16) = take_bit 4 b"
    by (simp_all add: drop_bit_eq_div take_bit_eq_mod word_arith_nat_div word_arith_nat_mod)
  moreover have "or (push_bit 4 (drop_bit 4 b)) (take_bit 4 b) = b"
    by (rule bit_eqI) (auto simp: bit_simps)
  ultimately show ?thesis by simp
qed

lemma decode_hex_format: "decode_hex_pairs (as_bytes (concat (map format_02x b))) = b"
proof (induction b)
  case (Cons a b)
  have "unat a div 16 < 16" using unsigned_less [of a, where 'a = nat] by simp
  then show ?case using Cons by (simp add: format_02x_def as_bytes_def hex_nibble_lower nibbles)
qed (simp add: as_bytes_def)

lemma parse_emit_bytes:
  assumes "length b \<le> MAX_MAP_BYTES"
  shows "parse_map_scalar line (emit_map_bytes b) = Inr (MapBytes b)"
proof -
  let ?hex = "concat (map format_02x b)"
  have len: "length ?hex = 2 * length b" by (induction b) (simp_all add: format_02x_def)
  have "\<forall>c \<in> set (format_02x a). hex_digit_val c \<noteq> None" for a
  proof -
    have "unat a div 16 < 16" using unsigned_less [of a, where 'a = nat] by simp
    then show ?thesis by (simp add: format_02x_def hex_digit_lower)
  qed
  then have digits: "list_all (\<lambda>c. hex_digit_val c \<noteq> None) ?hex" by (auto simp: list_all_iff)
  have "strip_prefix ''bytes(0x'' (emit_map_bytes b) = Some (?hex @ '')'')"
    by (simp add: strip_prefix_def starts_with_def emit_map_bytes_def)
  moreover have "strip_suffix_char (CHR '')'') (?hex @ '')'') = Some ?hex" by (simp add: strip_suffix_char_def)
  moreover have "?hex = [] \<longleftrightarrow> b = []" using len by (metis length_0_conv mult_eq_0_iff zero_neq_numeral)
  ultimately have "parse_map_bytes_value (emit_map_bytes b) = Inr (MapBytes b)"
    using digits assms by (simp add: parse_map_bytes_value_def len check_map_bytes_len_def decode_hex_format)
  then show ?thesis by (simp add: parse_map_scalar_def starts_with_def emit_map_bytes_def)
qed


subsection \<open>Lines of the metadata map\<close>

lemma escape_char_printable:
  assumes "utf8_char ch"
  shows "\<forall>c \<in> set (escape_char ch). 0x20 \<le> byte_of c"
  using assms
proof (cases rule: utf8_char_cases)
  case (ascii c)
  then show ?thesis using format_04X_ascii [of "byte_of c"] by (auto simp: escape_char_def is_ascii_def encode_utf16_def)
next
  case wide
  have "\<forall>c \<in> set (concat (map (\<lambda>u. backslash_ch # CHR ''u'' # format_04X u) us)). 0x20 \<le> byte_of c" for us
  proof (induction us)
    case (Cons u us)
    then show ?case using format_04X_ascii [of u] by auto
  qed simp
  with wide show ?thesis by (auto simp: escape_char_def is_ascii_def simp del: set_concat)
qed

text \<open>A value on one line: how it is written and read.\<close>

definition inline_text :: "map_value \<Rightarrow> string \<Rightarrow> bool" where
  "inline_text v t \<longleftrightarrow>
     (\<forall>line. parse_map_scalar line t = Inr v) \<and> t \<noteq> ''{'' \<and> t \<noteq> [] \<and> \<not> ws_byte (hd t) \<and> \<not> ws_byte (last t) \<and>
     (\<forall>c \<in> set t. 0x20 \<le> byte_of c)"

lemma not_ws_byte: "0x20 < byte_of c \<Longrightarrow> byte_of c < 0x80 \<Longrightarrow> \<not> ws_byte c"
  by (auto simp: ws_byte_def)

lemma inline_string:
  assumes "valid_string s" "length s \<le> MAX_MAP_STRING_BYTES"
  shows "inline_text (MapString s) (emit_map_string s)"
  using parse_emit_string [OF assms] chars_valid [OF assms(1)] escape_char_printable
  by (fastforce simp: inline_text_def emit_map_string_def not_ws_byte)

lemma inline_int: "inline_text (MapInt i) (show_i64 i)"
proof -
  have b: "0x20 < byte_of c \<and> byte_of c < 0x80 \<and> c \<noteq> CHR ''{''" if "c \<in> set (show_i64 i)" for c
    using show_i64_byte [OF that] by auto
  then have "hd (show_i64 i) \<noteq> CHR ''{''" "\<not> ws_byte (hd (show_i64 i))" "\<not> ws_byte (last (show_i64 i))"
    using not_ws_byte hd_in_set last_in_set show_i64_nonempty by metis+
  with b show ?thesis using parse_emit_int by (fastforce simp: inline_text_def)
qed

lemma inline_bytes:
  assumes "length b \<le> MAX_MAP_BYTES"
  shows "inline_text (MapBytes b) (emit_map_bytes b)"
proof -
  have "\<forall>c \<in> set (format_02x a). 0x20 \<le> byte_of c" for a
    using unsigned_less [of a, where 'a = nat] by (auto simp: format_02x_def hex_lower_def)
  then show ?thesis using parse_emit_bytes [OF assms] by (auto simp: inline_text_def emit_map_bytes_def not_ws_byte)
qed

text \<open>The lines of an entry; \<open>depth\<close> is the indentation.\<close>

function entry_lines :: "string \<Rightarrow> map_value \<Rightarrow> nat \<Rightarrow> string list"
  and entries_lines :: "(string \<times> map_value) list \<Rightarrow> nat \<Rightarrow> string list" where
  "entry_lines k (MapNested es) d =
     (indent d @ k @ '' = {'') # entries_lines (iter_canonical es) (d + 1) @ [indent d @ ''}'']"
| "entry_lines k (MapString s) d = [indent d @ k @ '' = '' @ emit_map_value (MapString s) d]"
| "entry_lines k (MapInt i) d = [indent d @ k @ '' = '' @ emit_map_value (MapInt i) d]"
| "entry_lines k (MapBytes b) d = [indent d @ k @ '' = '' @ emit_map_value (MapBytes b) d]"
| "entries_lines [] d = []"
| "entries_lines ((k, v) # es) d = entry_lines k v d @ entries_lines es d"
  by pat_completeness auto
termination
  by (relation "measure (\<lambda>x. case x of Inl (k, v, d) \<Rightarrow> size v
      | Inr (es, d) \<Rightarrow> size_list (size_prod (\<lambda>_. 0) size) es)")
    (auto simp: iter_canonical_def)

abbreviation unlines :: "string list \<Rightarrow> string" where
  "unlines ls \<equiv> concat (map (\<lambda>l. l @ [newline_ch]) ls)"

lemma emit_entry_lines:
  "indent d @ k @ '' = '' @ emit_map_value v d @ [newline_ch] = unlines (entry_lines k v d)"
  "0 < d \<Longrightarrow> emit_map_nested es (d - 1) = unlines (entries_lines es d)"
  by (induction k v d and es d rule: entry_lines_entries_lines.induct) simp_all

lemma emit_block_lines:
  "emit_map_block m = unlines (''map {'' # entries_lines (iter_canonical m) 1) @ ''}''"
proof -
  have "concat (map (\<lambda>(key, v). ''  '' @ key @ '' = '' @ emit_map_value v 1 @ [newline_ch]) es) = unlines (entries_lines es 1)" for es
    using emit_entry_lines(1) [of 1] by (induction es) (auto simp: indent_def)
  then show ?thesis by (simp add: emit_map_block_def)
qed


subsection \<open>Reading the metadata map\<close>

lemma trim_indent: "trim (indent d @ s) = trim s"
  by (simp add: indent_def trim_spaces)

lemma map_key_bytes: "map_key_ok k \<Longrightarrow> c \<in> set k \<Longrightarrow> 0x20 < byte_of c \<and> byte_of c < 0x80 \<and> c \<noteq> CHR ''='' \<and> c \<noteq> CHR ''#'' \<and> c \<noteq> CHR ''}''"
  using map_key_ok_chars [of k c]
  by (auto simp: is_ascii_alphanumeric_def is_ascii_alphabetic_def Let_def)

lemma map_key_nonempty: "map_key_ok k \<Longrightarrow> k \<noteq> []"
  using check_map_key_iff [of k] by (auto simp: check_map_key_def validate_map_key_syntax_def)

lemma trim_entry:
  assumes "map_key_ok k" "t \<noteq> []" "\<not> ws_byte (hd t)" "\<not> ws_byte (last t)"
  shows "trim (indent d @ k @ '' = '' @ t) = k @ '' = '' @ t"
    "find_char CHR ''='' (k @ '' = '' @ t) = Some (Suc (length k))"
    "trim (take (Suc (length k)) (k @ '' = '' @ t)) = k"
    "trim (drop (Suc (length k) + 1) (k @ '' = '' @ t)) = t"
proof -
  have k: "k \<noteq> []" "\<not> ws_byte (hd k)" "\<not> ws_byte (last k)"
    using map_key_nonempty [OF assms(1)] map_key_bytes [OF assms(1)] not_ws_byte by auto
  show "trim (indent d @ k @ '' = '' @ t) = k @ '' = '' @ t"
    using k assms by (simp add: trim_indent trim_ascii(1))
  have "CHR ''='' \<notin> set (k @ '' '')" using map_key_bytes [OF assms(1)] by auto
  from find_char_first [OF this, of "space_ch # t"]
  show "find_char CHR ''='' (k @ '' = '' @ t) = Some (Suc (length k))" by simp
  show "trim (take (Suc (length k)) (k @ '' = '' @ t)) = k" using trim_ascii(2) [OF k] by simp
  show "trim (drop (Suc (length k) + 1) (k @ '' = '' @ t)) = t" using trim_ascii(3) assms by simp
qed

lemma entry_head:
  assumes "map_key_ok k" "t \<noteq> []" "\<not> ws_byte (hd t)" "\<not> ws_byte (last t)" "recursive_entry_count m < MAX_MAP_ENTRIES"
  shows "map_entry_head line m (k @ '' = '' @ t) = Inr (k, t)"
  using trim_entry [OF assms(1-4)] assms(1,5)
  by (simp add: map_entry_head_def check_map_key_iff [THEN iffD2] check_map_entry_count_def del: append.simps)

lemma parse_entries_line:
  assumes "map_key_ok k" "t \<noteq> []" "\<not> ws_byte (hd t)" "\<not> ws_byte (last t)" "recursive_entry_count m < MAX_MAP_ENTRIES"
    "k \<notin> fst ` set m"
  shows "t \<noteq> ''{'' \<Longrightarrow> parse_map_scalar (line + 1) t = Inr v \<Longrightarrow>
      parse_map_entries dep line ((indent d @ k @ '' = '' @ t) # rest) m = parse_map_entries dep (line + 1) rest (m @ [(k, v)])"
    "t = ''{'' \<Longrightarrow> dep < MAX_MAP_NESTING \<Longrightarrow>
      parse_map_entries (dep + 1) (line + 1) rest map_new = Inr (inner, line', rest') \<Longrightarrow>
      parse_map_entries dep line ((indent d @ k @ '' = '' @ t) # rest) m = parse_map_entries dep line' rest' (m @ [(k, MapNested inner)])"
proof -
  have "\<not> starts_with ''#'' (k @ '' = '' @ t)" "k @ '' = '' @ t \<noteq> []" "k @ '' = '' @ t \<noteq> ''}''"
    using map_key_nonempty [OF assms(1)] map_key_bytes [OF assms(1)] by (cases k; auto simp: starts_with_def)+
  note simps = this trim_entry(1) [OF assms(1-4)] entry_head [OF assms(1-5)]
  have ins: "insert_unique m k v = Inr (m @ [(k, v)])" for v
    using assms(6) by (force simp: insert_unique_def list_ex_iff)
  show "parse_map_entries dep line ((indent d @ k @ '' = '' @ t) # rest) m = parse_map_entries dep (line + 1) rest (m @ [(k, v)])"
    if "t \<noteq> ''{''" "parse_map_scalar (line + 1) t = Inr v"
    using that simps ins by (subst parse_map_entries.simps) (simp add: Let_def)
  show "parse_map_entries dep line ((indent d @ k @ '' = '' @ t) # rest) m = parse_map_entries dep line' rest' (m @ [(k, MapNested inner)])"
    if "t = ''{''" "dep < MAX_MAP_NESTING" "parse_map_entries (dep + 1) (line + 1) rest map_new = Inr (inner, line', rest')"
    using that simps ins by (subst parse_map_entries.simps) (simp add: Let_def check_map_nesting_depth_def)
qed

lemma parse_entries_close: "parse_map_entries dep line ((indent d @ ''}'') # rest) m = Inr (m, line + 1, rest)"
  by (subst parse_map_entries.simps) (simp add: trim_indent trim_ascii ws_byte_def starts_with_def)

text \<open>What the types of Rust guarantee of a map: its strings are UTF-8.\<close>

lemma parse_entry_lines:
  "map_key_ok k \<Longrightarrow> map_value_within dep v \<Longrightarrow> \<forall>s \<in> set (map_value_strings v). valid_string s \<Longrightarrow>
     k \<notin> fst ` set m \<Longrightarrow> recursive_entry_count m + value_entry_count v < MAX_MAP_ENTRIES \<Longrightarrow>
     parse_map_entries dep line (entry_lines k v d @ rest) m =
       parse_map_entries dep (line + length (entry_lines k v d)) rest (m @ [(k, canonical_value v)])"
  "map_entries_within dep es \<Longrightarrow> \<forall>s \<in> set (map_strings es). valid_string s \<Longrightarrow> distinct (map fst (m @ es)) \<Longrightarrow>
     recursive_entry_count (m @ es) \<le> MAX_MAP_ENTRIES \<Longrightarrow>
     parse_map_entries dep line (entries_lines es d @ rest) m =
       parse_map_entries dep (line + length (entries_lines es d)) rest (m @ canonical_entries es)"
proof (induction k v d and es d arbitrary: dep line rest m and dep line rest m rule: entry_lines_entries_lines.induct)
  case (1 k es d)
  let ?es = "iter_canonical es" and ?n = "line + 1"
  let ?close = "indent d @ ''}''"
  have "parse_map_entries (dep + 1) ?n (entries_lines ?es (d + 1) @ ?close # rest) map_new =
      Inr (canonical_entries ?es, line + length (entry_lines k (MapNested es) d), rest)"
    using "1.IH" [of "dep + 1" "[]" ?n "?close # rest"] "1.prems" by (simp add: map_new_def parse_entries_close)
  from parse_entries_line(2) [of k "''{''" m dep line, OF _ _ _ _ _ _ _ _ this, of d] "1.prems"
  show ?case by (simp add: ws_byte_def iter_canonical_def canonical_entries_sort)
next
  case (2 k s d)
  then have "inline_text (MapString s) (emit_map_string s)" by (intro inline_string) simp_all
  with 2 show ?case using parse_entries_line(1) [of k "emit_map_string s" m line "MapString s" dep d rest]
    by (simp add: inline_text_def)
next
  case (3 k i d)
  then show ?case using parse_entries_line(1) [of k "show_i64 i" m line "MapInt i" dep d rest] inline_int [of i]
    by (simp add: inline_text_def)
next
  case (4 k b d)
  then have "inline_text (MapBytes b) (emit_map_bytes b)" by (intro inline_bytes) simp
  with 4 show ?case using parse_entries_line(1) [of k "emit_map_bytes b" m line "MapBytes b" dep d rest]
    by (simp add: inline_text_def)
next
  case (6 k v es d)
  then show ?case
    using "6.IH"(1) [of dep m line "entries_lines es d @ rest"]
      "6.IH"(2) [of dep "m @ [(k, canonical_value v)]" "line + length (entry_lines k v d)" rest]
    by (simp add: ac_simps)
qed simp


subsection \<open>The words of a line\<close>

definition opcode_params :: "opcode \<Rightarrow> string list" where
  "opcode_params op =
     (case op of
        OpSoftmax axis \<Rightarrow> if axis \<noteq> -1 then [show_i64 axis] else []
      | OpTranspose perm \<Rightarrow> map show_i64 perm
      | OpSum axes \<Rightarrow> map show_i64 axes
      | OpMean axes \<Rightarrow> map show_i64 axes
      | OpMax axes \<Rightarrow> map show_i64 axes
      | OpConcat axis \<Rightarrow> [show_i64 axis]
      | OpSplit axis n \<Rightarrow> [show_i64 axis, show_nat n]
      | OpGather axis \<Rightarrow> [show_i64 axis]
      | _ \<Rightarrow> [])"

definition value_words :: "mic_value \<Rightarrow> string list" where
  "value_words v =
     (case v of
        VArg name i \<Rightarrow> [''a'', name, CHR ''T'' # show_nat i]
      | VParam name i \<Rightarrow> [''p'', name, CHR ''T'' # show_nat i]
      | VNode op inputs \<Rightarrow> opcode_as_token op # opcode_params op @ map show_nat inputs)"

definition type_words :: "nat \<Rightarrow> tensor_type \<Rightarrow> string list" where
  "type_words i t = (CHR ''T'' # show_nat i) # dtype_as_str (tt_dtype t) # tt_shape t"

definition graph_lines :: "graph \<Rightarrow> string list" where
  "graph_lines g =
     MIC2_HEADER # map (\<lambda>name. join_with space_ch [''S'', name]) (g_symbols g) @
     map (\<lambda>(i, t). join_with space_ch (type_words i t)) (enumerate 0 (g_types g)) @
     map (\<lambda>v. join_with space_ch (value_words v)) (g_values g) @
     [join_with space_ch [''O'', show_nat (g_output g)]]"

definition map_lines :: "graph \<Rightarrow> string list" where
  "map_lines g =
     (if g_map g = [] then [] else ''map {'' # entries_lines (canonicalize (g_map g)) 1 @ [''}''])"

lemma join_with_concat: "join_with sep (w # ws) = w @ concat (map (\<lambda>x. sep # x) ws)"
  by (induction ws arbitrary: w) simp_all

lemma unlines_join: "unlines ls @ l = join_with newline_ch (ls @ [l])"
  by (induction ls) (simp_all add: join_with_Cons)

lemma emit_value_words: "emit_value v = join_with space_ch (value_words v)"
  by (cases v)
    (auto simp: emit_value_def value_words_def join_with_concat emit_opcode_def opcode_params_def emit_param_def [abs_def] comp_def
      split: opcode.splits)

lemma emit_type_words: "emit_type i t = join_with space_ch (type_words i t) @ [newline_ch]"
  by (simp add: emit_type_def type_words_def join_with_concat)

lemma emit_mic2_lines: "emit_mic2 g = join_with newline_ch (graph_lines g @ map_lines g)"
proof -
  have "emit_mic2 g = unlines (butlast (graph_lines g)) @ last (graph_lines g) @
      (if g_map g = [] then [] else [newline_ch] @ emit_map_block (canonicalize (g_map g)))"
    by (simp add: emit_mic2_def graph_lines_def butlast_append emit_value_words emit_type_words comp_def split_def)
  also have "\<dots> = join_with newline_ch (graph_lines g @ map_lines g)"
  proof -
    have gl: "butlast (graph_lines g) @ [last (graph_lines g)] = graph_lines g"
      by (rule append_butlast_last_id) (simp add: graph_lines_def)
    have "unlines (butlast (graph_lines g)) @ last (graph_lines g) @ [newline_ch] =
        unlines (butlast (graph_lines g) @ [last (graph_lines g)])" by simp
    then have u: "unlines (butlast (graph_lines g)) @ last (graph_lines g) @ newline_ch # s = unlines (graph_lines g) @ s" for s
      unfolding gl by (metis append.assoc append_Cons append_Nil)
    show ?thesis
    proof (cases "g_map g = []")
      case True
      then show ?thesis using unlines_join [of "butlast (graph_lines g)" "last (graph_lines g)", unfolded gl]
        by (simp add: map_lines_def)
    next
      case False
      then show ?thesis using unlines_join [of "graph_lines g @ butlast (map_lines g)" "''}''"]
        by (simp add: u emit_block_lines map_lines_def butlast_append)
    qed
  qed
  finally show ?thesis .
qed

text \<open>
  What the parser makes of a node: the numbers among the operation's parameters become inputs, before the
  node's own, and the operation is parsed from the other parameters.
\<close>

definition read_inputs :: "opcode \<Rightarrow> usize list" where
  "read_inputs op = List.map_filter parse_usize (opcode_params op)"

definition read_opcode :: "opcode \<Rightarrow> opcode" where
  "read_opcode op = the (opcode_parse (opcode_as_token op) (filter (\<lambda>w. parse_usize w = None) (opcode_params op)))"

fun text_reading :: "mic_value \<Rightarrow> mic_value" where
  "text_reading (VNode op inputs) = VNode (read_opcode op) (read_inputs op @ inputs)"
| "text_reading v = v"

definition graph_reading :: "graph \<Rightarrow> graph" where
  "graph_reading g = g\<lparr>g_values := map text_reading (g_values g), g_map := canonicalize (g_map g)\<rparr>"

text \<open>
  Graphs the parser accepts: names and extents are single words, a type has at most 32 extents, no operation
  is custom, and each node as read has as many inputs as its operation takes.
\<close>

definition text_value :: "mic_value \<Rightarrow> bool" where
  "text_value v =
     (case v of
        VArg name _ \<Rightarrow> text_token name
      | VParam name _ \<Rightarrow> text_token name
      | VNode op inputs \<Rightarrow>
          (\<nexists>name. op = OpCustom name) \<and>
          (\<forall>n. opcode_arity op = Some n \<longrightarrow> length (read_inputs op @ inputs) = n))"

definition text_type :: "tensor_type \<Rightarrow> bool" where
  "text_type t \<longleftrightarrow> length (tt_shape t) \<le> MAX_SHAPE_DIMS \<and> list_all text_token (tt_shape t)"

definition text_graph :: "graph \<Rightarrow> bool" where
  "text_graph g \<longleftrightarrow>
     list_all text_token (g_symbols g) \<and> list_all text_type (g_types g) \<and> list_all text_value (g_values g) \<and>
     length (g_values g) \<le> MAX_VALUE_COUNT"

subsection \<open>Reading the lines of a graph\<close>

declare parse_lines.simps(2) [simp del]

lemma token_bytes: "s \<noteq> [] \<Longrightarrow> \<forall>c \<in> set s. \<not> ws_byte c \<Longrightarrow> text_token s"
  unfolding text_token_def using ws_len_not_ws by (metis drop_eq_Nil in_set_dropD list.set_sel(1) not_le)

lemma token_printable: "text_token s \<Longrightarrow> c \<in> set s \<Longrightarrow> c \<noteq> newline_ch \<and> c \<noteq> return_ch"
proof -
  assume s: "text_token s" "c \<in> set s"
  then obtain i where "i < length s" "s ! i = c" by (metis in_set_conv_nth)
  then have "ws_len (c # drop (Suc i) s) = 0" using s(1) by (metis Cons_nth_drop_Suc text_token_def)
  then show ?thesis by (auto simp: ws_len_def)
qed

lemma show_nat_token [simp]: "text_token (show_nat n)"
  by (intro token_bytes) (auto simp: ws_byte_def dest: show_nat_byte)

lemma show_i64_token [simp]: "text_token (show_i64 i)"
  by (intro token_bytes) (auto simp: ws_byte_def dest: show_i64_byte)

lemma type_ref_token [simp]: "text_token (CHR ''T'' # show_nat n)"
  by (intro token_bytes) (auto simp: ws_byte_def dest: show_nat_byte)

lemma dtype_token [simp]: "text_token (dtype_as_str d)"
  by (intro token_bytes; cases d) (auto simp: ws_byte_def)

lemma opcode_token: "\<nexists>name. op = OpCustom name \<Longrightarrow> text_token (opcode_as_token op)"
  by (intro token_bytes; cases op) (auto simp: ws_byte_def)

lemma opcode_params_tokens: "w \<in> set (opcode_params op) \<Longrightarrow> text_token w"
  by (cases op) (auto simp: opcode_params_def split: if_splits)

text \<open>The dispatch on the words of a line.\<close>

lemma parse_lines_words:
  assumes "\<forall>w \<in> set (f # args). text_token w" "hd f \<noteq> CHR ''#''"
  shows "parse_lines (join_with space_ch (f # args) # rest) p =
    (let p = p\<lparr>mp_line_num := mp_line_num p + 1\<rparr> in
     if f = ''S'' then rbind (parse_symbol p (f # args)) (parse_lines rest)
     else if f = ''O'' then rbind (parse_output p (f # args)) (parse_map_block_if_present rest)
     else if f = ''a'' then rbind (parse_arg p (f # args)) (parse_lines rest)
     else if f = ''p'' then rbind (parse_param p (f # args)) (parse_lines rest)
     else if starts_with ''T'' f then rbind (parse_type p f args) (parse_lines rest)
     else rbind (parse_node p f args) (parse_lines rest))"
proof -
  obtain c cs where f: "f = c # cs" using assms(1) by (cases f) (auto simp: text_token_def)
  then have "join_with space_ch (f # args) \<noteq> []" "\<not> starts_with ''#'' (join_with space_ch (f # args))"
    using assms(2) by (simp_all add: join_with_concat starts_with_def)
  then show ?thesis
    using trim_words [of "f # args"] split_words [of "f # args"] assms(1)
    by (subst parse_lines.simps) (simp add: Let_def del: join_with.simps)
qed


definition mp_at :: "usize \<Rightarrow> graph \<Rightarrow> mic2_parser" where
  "mp_at n g = \<lparr>mp_line_num = n, mp_graph = g, mp_current_value_id = length (g_values g), mp_has_output = False\<rparr>"

lemma parse_symbol_lines:
  "list_all text_token names \<Longrightarrow>
     parse_lines (map (\<lambda>name. join_with space_ch [''S'', name]) names @ rest) (mp_at n g) =
       parse_lines rest (mp_at (n + length names) (g\<lparr>g_symbols := g_symbols g @ names\<rparr>))"
proof (induction names arbitrary: n g)
  case (Cons name names)
  then have "\<forall>w \<in> set [''S'', name]. text_token w" by (simp add: token_bytes ws_byte_def)
  from parse_lines_words [OF this]
  have "parse_lines (join_with space_ch [''S'', name] # r) (mp_at n g) =
      parse_lines r (mp_at (n + 1) (g\<lparr>g_symbols := g_symbols g @ [name]\<rparr>))" for r
    by (simp add: mp_at_def parse_symbol_def add_symbol_def del: join_with.simps)
  with Cons.IH [of "n + 1" "g\<lparr>g_symbols := g_symbols g @ [name]\<rparr>"] Cons.prems show ?case
    by (simp del: join_with.simps)
qed (simp add: mp_at_def)

lemma parse_type_lines:
  "list_all text_type ts \<Longrightarrow> length (g_types g) + length ts < 2 ^ 64 \<Longrightarrow>
     parse_lines (map (\<lambda>(i, t). join_with space_ch (type_words i t)) (enumerate (length (g_types g)) ts) @ rest) (mp_at n g) =
       parse_lines rest (mp_at (n + length ts) (g\<lparr>g_types := g_types g @ ts\<rparr>))"
proof (induction ts arbitrary: n g)
  case (Cons t ts)
  let ?i = "length (g_types g)"
  have w: "\<forall>w \<in> set (type_words ?i t). text_token w" "length (tt_shape t) \<le> MAX_SHAPE_DIMS"
    using Cons.prems by (auto simp: type_words_def text_type_def list_all_iff)
  have t: "tensor_type_new (tt_dtype t) (tt_shape t) = t" by (simp add: tensor_type_new_def)
  have "parse_lines (join_with space_ch (type_words ?i t) # r) (mp_at n g) =
      parse_lines r (mp_at (n + 1) (g\<lparr>g_types := g_types g @ [t]\<rparr>))" for r
    using parse_lines_words [OF w(1) [unfolded type_words_def], of r "mp_at n g"] w(2) Cons.prems(2)
    by (simp add: type_words_def mp_at_def parse_type_def parse_usize_show_nat add_type_def t
        starts_with_def del: join_with.simps)
  with Cons.IH [of "g\<lparr>g_types := g_types g @ [t]\<rparr>" "n + 1"] Cons.prems show ?case by (simp del: join_with.simps)
qed (simp add: mp_at_def)

lemma find_inputs: "\<forall>i \<in> set inputs. i < (n :: nat) \<Longrightarrow> find (\<lambda>i. n \<le> i) inputs = None"
  by (auto simp: find_None_iff)

lemma map_filter_words:
  "\<forall>i \<in> set inputs. i < 2 ^ 64 \<Longrightarrow>
     List.map_filter parse_usize (ps @ map show_nat inputs) = List.map_filter parse_usize ps @ inputs \<and>
     filter (\<lambda>w. parse_usize w = None) (ps @ map show_nat inputs) = filter (\<lambda>w. parse_usize w = None) ps"
  by (induction ps) (induction inputs, auto simp: map_filter_simps parse_usize_show_nat split: option.split)

lemma opcode_token_keywords:
  "\<nexists>name. op = OpCustom name \<Longrightarrow> opcode_as_token op \<notin> {''S'', ''O'', ''a'', ''p''} \<and> \<not> starts_with ''T'' (opcode_as_token op) \<and>
     hd (opcode_as_token op) \<noteq> CHR ''#''"
  by (cases op) (simp_all add: starts_with_def)

lemma parse_value_line:
  assumes "text_value v" "value_ok (length (g_types g)) (length (g_values g)) (text_reading v)" "length (g_values g) < MAX_VALUE_COUNT"
    "length (g_types g) < 2 ^ 64"
  shows "parse_lines (join_with space_ch (value_words v) # rest) (mp_at n g) =
    parse_lines rest (mp_at (n + 1) (g\<lparr>g_values := g_values g @ [text_reading v]\<rparr>))"
proof (cases v)
  case (VArg name i)
  then have w: "\<forall>w \<in> set (''a'' # [name, CHR ''T'' # show_nat i]). text_token w"
    using assms(1) by (simp add: text_value_def token_bytes ws_byte_def)
  show ?thesis using parse_lines_words [OF w, of rest "mp_at n g"] assms VArg
    by (simp add: mp_at_def value_words_def parse_arg_def parse_type_ref_def starts_with_def parse_usize_show_nat
        value_ok_def parser_add_value_def add_value_def del: join_with.simps)
next
  case (VParam name i)
  then have w: "\<forall>w \<in> set (''p'' # [name, CHR ''T'' # show_nat i]). text_token w"
    using assms(1) by (simp add: text_value_def token_bytes ws_byte_def)
  show ?thesis using parse_lines_words [OF w, of rest "mp_at n g"] assms VParam
    by (simp add: mp_at_def value_words_def parse_param_def parse_type_ref_def starts_with_def parse_usize_show_nat
        value_ok_def parser_add_value_def add_value_def del: join_with.simps)
next
  case (VNode op inputs)
  let ?args = "opcode_params op @ map show_nat inputs" and ?inputs = "read_inputs op @ inputs"
  have op: "\<nexists>name. op = OpCustom name" "\<forall>k. opcode_arity op = Some k \<longrightarrow> length ?inputs = k"
    "\<forall>i \<in> set ?inputs. i < length (g_values g)"
    using assms(1,2) VNode by (simp_all add: text_value_def value_ok_def)
  have w: "\<forall>w \<in> set (opcode_as_token op # ?args). text_token w"
    using opcode_token [OF op(1)] opcode_params_tokens by auto
  have "\<forall>i \<in> set inputs. i < 2 ^ 64" using op(3) assms(3) by (auto simp: MAX_VALUE_COUNT_def dest!: bspec)
  note words = map_filter_words [OF this, of "opcode_params op"]
  have "opcode_parse (opcode_as_token op) (filter (\<lambda>w. parse_usize w = None) ?args) = Some (read_opcode op) \<and>
      opcode_arity (read_opcode op) = opcode_arity op"
    using opcode_parse_token [OF op(1), of "filter (\<lambda>w. parse_usize w = None) (opcode_params op)"] words
    by (auto simp: read_opcode_def)
  then have "parse_node (mp_at n g) (opcode_as_token op) ?args = Inr (mp_at n (g\<lparr>g_values := g_values g @ [text_reading v]\<rparr>))" for n
    using op(2) assms(3) find_inputs [OF op(3)] words VNode
    by (simp add: parse_node_def mp_at_def parser_add_value_def add_value_def Let_def read_inputs_def split: option.split)
  from this [of "n + 1"] parse_lines_words [OF w, of rest "mp_at n g"] opcode_token_keywords [OF op(1)] show ?thesis
    by (simp add: value_words_def VNode mp_at_def del: join_with.simps)
qed

lemma parse_value_lines:
  "list_all text_value vs \<Longrightarrow> \<forall>i < length vs. value_ok (length (g_types g)) (length (g_values g) + i) (text_reading (vs ! i)) \<Longrightarrow>
     length (g_values g) + length vs \<le> MAX_VALUE_COUNT \<Longrightarrow> length (g_types g) < 2 ^ 64 \<Longrightarrow>
     parse_lines (map (\<lambda>v. join_with space_ch (value_words v)) vs @ rest) (mp_at n g) =
       parse_lines rest (mp_at (n + length vs) (g\<lparr>g_values := g_values g @ map text_reading vs\<rparr>))"
proof (induction vs arbitrary: n g)
  case (Cons v vs)
  have "value_ok (length (g_types g)) (length (g_values g)) (text_reading v)" using Cons.prems(2) by (auto dest: spec [of _ 0])
  moreover have "\<forall>i < length vs. value_ok (length (g_types g)) (Suc (length (g_values g) + i)) (text_reading (vs ! i))"
    using Cons.prems(2) by (auto dest: spec [of _ "Suc _"])
  ultimately show ?case
    using Cons.prems parse_value_line [of v g] Cons.IH [of "g\<lparr>g_values := g_values g @ [text_reading v]\<rparr>" "n + 1"]
    by simp
qed simp

text \<open>The map block and the end of the parse.\<close>

lemma parse_map_lines:
  assumes "map_within (g_map g)" "\<forall>s \<in> set (map_strings (canonicalize (g_map g))). valid_string s" "g_map (mp_graph p) = []"
  shows "\<exists>n. parse_map_block_if_present (map_lines g) p =
    Inr (p\<lparr>mp_line_num := n, mp_graph := (mp_graph p)\<lparr>g_map := canonicalize (g_map g)\<rparr>\<rparr>)"
proof (cases "g_map g = []")
  case True
  have "canonicalize [] = []" by (simp add: canonicalize_def)
  moreover have "p = p\<lparr>mp_line_num := mp_line_num p, mp_graph := (mp_graph p)\<lparr>g_map := []\<rparr>\<rparr>" using assms(3) by simp
  ultimately show ?thesis using True by (metis map_lines_def parse_map_block_if_present.simps(1))
next
  case False
  let ?m = "canonicalize (g_map g)"
  have "trim ''map {'' = ''map {''" "trim '' {'' = ''{''"
    using trim_ascii(1) [of "''map {''"] trim_ascii(3) [of "''{''"] by (simp_all add: ws_byte_def)
  moreover have "parse_map_entries 0 n (entries_lines ?m 1 @ [''}'']) map_new = Inr (?m, n + length (entries_lines ?m 1) + 1, [])" for n
  proof -
    have "map_within ?m" using assms(1) by simp
    then show ?thesis
      using parse_entry_lines(2) [of 0 ?m "[]" n 1 "[indent 0 @ ''}'']"] assms(2)
      by (simp add: map_within_def map_new_def parse_entries_close) (simp add: indent_def)
  qed
  ultimately show ?thesis using False by (simp add: map_lines_def starts_with_def) (rule exI, rule refl)
qed

definition clean_line :: "string \<Rightarrow> bool" where
  "clean_line l \<longleftrightarrow> newline_ch \<notin> set l \<and> return_ch \<notin> set l"

lemma clean_words: "\<forall>w \<in> set ws. text_token w \<Longrightarrow> clean_line (join_with space_ch ws)"
proof -
  have "c = space_ch \<or> (\<exists>w \<in> set ws. c \<in> set w)" if "c \<in> set (join_with space_ch ws)" for c
    using that by (induction space_ch ws rule: join_with.induct) auto
  moreover assume "\<forall>w \<in> set ws. text_token w"
  ultimately show ?thesis using token_printable by (fastforce simp: clean_line_def)
qed

lemma clean_append [simp]: "clean_line (s @ t) \<longleftrightarrow> clean_line s \<and> clean_line t"
  by (auto simp: clean_line_def)

lemma clean_indent [simp]: "clean_line (indent d)"
  by (induction d) (simp_all add: indent_def clean_line_def)

lemma clean_inline: "inline_text v t \<Longrightarrow> clean_line t"
  by (auto simp: inline_text_def clean_line_def)

lemma clean_key: "map_key_ok k \<Longrightarrow> clean_line k"
  using map_key_bytes [of k newline_ch] map_key_bytes [of k return_ch] by (auto simp: clean_line_def)

lemma clean_entries:
  "map_key_ok k \<Longrightarrow> map_value_within dep v \<Longrightarrow> \<forall>s \<in> set (map_value_strings v). valid_string s \<Longrightarrow>
     list_all clean_line (entry_lines k v d)"
  "map_entries_within dep es \<Longrightarrow> \<forall>s \<in> set (map_strings es). valid_string s \<Longrightarrow> list_all clean_line (entries_lines es d)"
proof (induction k v d and es d arbitrary: dep and dep rule: entry_lines_entries_lines.induct)
  case (1 k es d)
  note clean_key [OF "1.prems"(1)]
  with 1 show ?case by (auto simp: clean_line_def [of "[_]"] clean_line_def [of "[_, _, _, _]"])
next
  case (2 k s d)
  note clean_key [OF "2.prems"(1)]
  with 2 clean_inline [OF inline_string, of s] clean_indent [of d] show ?case by (auto simp: clean_line_def simp del: clean_indent)
next
  case (3 k i d)
  note clean_key [OF "3.prems"(1)]
  with 3 clean_inline [OF inline_int, of i] clean_indent [of d] show ?case by (auto simp: clean_line_def simp del: clean_indent)
next
  case (4 k b d)
  note clean_key [OF "4.prems"(1)]
  with 4 clean_inline [OF inline_bytes, of b] clean_indent [of d] show ?case by (auto simp: clean_line_def simp del: clean_indent)
qed auto

lemma value_words_tokens: "text_value v \<Longrightarrow> \<forall>w \<in> set (value_words v). text_token w"
  using opcode_token opcode_params_tokens
  by (cases v) (auto simp: text_value_def value_words_def token_bytes ws_byte_def)

lemma type_words_tokens: "text_type t \<Longrightarrow> \<forall>w \<in> set (type_words i t). text_token w"
  by (simp add: text_type_def type_words_def list_all_iff)

lemma graph_lines_clean:
  assumes "text_graph g" "map_within (g_map g)" "\<forall>s \<in> set (map_strings (canonicalize (g_map g))). valid_string s"
  shows "\<forall>l \<in> set (graph_lines g @ map_lines g). clean_line l"
proof -
  have "clean_line (join_with space_ch [''S'', name])" if "name \<in> set (g_symbols g)" for name
    using that assms(1) by (intro clean_words) (auto simp: text_graph_def list_all_iff token_bytes ws_byte_def)
  moreover have "clean_line (join_with space_ch (type_words i t))" if "(i, t) \<in> set (enumerate 0 (g_types g))" for i t
    using that assms(1) in_set_enumerate_eq [of "(i, t)" 0 "g_types g"]
    by (intro clean_words type_words_tokens) (auto simp: text_graph_def list_all_iff)
  moreover have "clean_line (join_with space_ch (value_words v))" if "v \<in> set (g_values g)" for v
    using that assms(1) by (intro clean_words value_words_tokens) (auto simp: text_graph_def list_all_iff)
  moreover have "clean_line (join_with space_ch [''O'', show_nat (g_output g)])"
    by (intro clean_words) (simp add: token_bytes ws_byte_def)
  moreover have "\<forall>l \<in> set (map_lines g). clean_line l"
    using clean_entries(2) [of 0 "canonicalize (g_map g)" 1] assms(2,3) map_within_canonicalize [of "g_map g"]
    by (auto simp: map_lines_def map_within_def list_all_iff clean_line_def)
  ultimately show ?thesis by (auto simp: graph_lines_def MIC2_HEADER_def clean_line_def [of "[_, _, _, _, _]"])
qed

text \<open>The whole text.\<close>

lemma parse_graph_lines:
  assumes "text_graph g" "\<forall>i < length (g_values g). value_ok (length (g_types g)) i (text_reading (g_values g ! i))"
    "g_output g < length (g_values g)" "length (g_types g) < 2 ^ 64"
  shows "\<exists>n. parse_lines (tl (graph_lines g) @ rest) (mp_at 1 graph_new) =
    parse_map_block_if_present rest (mp_at n (g\<lparr>g_values := map text_reading (g_values g), g_map := []\<rparr>)\<lparr>mp_has_output := True\<rparr>)"
proof -
  let ?out = "join_with space_ch [''O'', show_nat (g_output g)]" and ?vs = "map text_reading (g_values g)"
  let ?h = "g\<lparr>g_values := ?vs, g_map := []\<rparr>"
  define g3 where "g3 = \<lparr>g_symbols = g_symbols g, g_types = g_types g, g_values = ?vs, g_output = 0, g_map = []\<rparr>"
  obtain n where n: "parse_lines (tl (graph_lines g) @ rest) (mp_at 1 graph_new) = parse_lines (?out # rest) (mp_at n g3)"
    using assms(1,2,4) parse_symbol_lines [of "g_symbols g" _ 1 graph_new]
      parse_type_lines [of "g_types g" "graph_new\<lparr>g_symbols := g_symbols g\<rparr>" _ "1 + length (g_symbols g)"]
      parse_value_lines [of "g_values g" "graph_new\<lparr>g_symbols := g_symbols g, g_types := g_types g\<rparr>" _
        "1 + length (g_symbols g) + length (g_types g)"]
    by (simp add: graph_lines_def text_graph_def graph_new_def map_new_def g3_def del: join_with.simps)
  have "\<forall>w \<in> set (''O'' # [show_nat (g_output g)]). text_token w" by (simp add: token_bytes ws_byte_def)
  note parse_lines_words [OF this, of rest "mp_at n g3"]
  moreover have "g_output g < 2 ^ 64" using assms(1,3) by (simp add: text_graph_def MAX_VALUE_COUNT_def)
  moreover have "g_values g3 = ?vs" by (simp add: g3_def)
  ultimately have "parse_lines (?out # rest) (mp_at n g3) =
      parse_map_block_if_present rest (mp_at (n + 1) (g3\<lparr>g_output := g_output g\<rparr>)\<lparr>mp_has_output := True\<rparr>)"
    using assms(3) by (simp add: mp_at_def parse_output_def parse_usize_show_nat set_output_def del: join_with.simps)
  moreover have "g3\<lparr>g_output := g_output g\<rparr> = ?h" by (simp add: g3_def)
  ultimately have "parse_lines (?out # rest) (mp_at n g3) = parse_map_block_if_present rest (mp_at (n + 1) ?h\<lparr>mp_has_output := True\<rparr>)"
    by (simp only:)
  with n show ?thesis by auto
qed

lemma read_emit_mic2:
  assumes "validate (graph_reading g) = Inr ()" "text_graph g" "map_within (g_map g)"
    and "\<forall>s \<in> set (map_strings (canonicalize (g_map g))). valid_string s"
    and "length (emit_mic2 g) \<le> MAX_INPUT_SIZE" "length (str_lines (emit_mic2 g)) \<le> MAX_LINE_COUNT"
  shows "parse_mic2 (emit_mic2 g) = Inr (graph_reading g)"
proof -
  let ?g = "g\<lparr>g_values := map text_reading (g_values g), g_map := []\<rparr>"
  have ls: "str_lines (emit_mic2 g) = graph_lines g @ map_lines g"
    unfolding emit_mic2_lines using graph_lines_clean [OF assms(2-4)]
    by (intro str_lines_join) (auto simp: graph_lines_def map_lines_def clean_line_def)
  have ok: "\<forall>i < length (g_values g). value_ok (length (g_types g)) i (text_reading (g_values g ! i))"
    "g_output g < length (g_values g)"
    using assms(1) by (auto simp: validate_iff graph_reading_def)
  have types: "length (g_types g) < 2 ^ 64" using assms(6) unfolding ls by (simp add: graph_lines_def MAX_LINE_COUNT_def)
  have "parse_header (MIC2_HEADER # r) mic2_parser_new = Inr (r, mp_at 1 graph_new)" for r
    using trim_words [of "[MIC2_HEADER]"]
    by (simp add: mp_at_def mic2_parser_new_def graph_new_def MIC2_HEADER_def starts_with_def token_bytes ws_byte_def)
  then have "parse_header (graph_lines g @ map_lines g) mic2_parser_new = Inr (tl (graph_lines g) @ map_lines g, mp_at 1 graph_new)"
    by (simp add: graph_lines_def del: parse_header.simps)
  moreover obtain n where "parse_lines (tl (graph_lines g) @ map_lines g) (mp_at 1 graph_new) =
      parse_map_block_if_present (map_lines g) (mp_at n ?g\<lparr>mp_has_output := True\<rparr>)"
    using parse_graph_lines [OF assms(2) ok types, of "map_lines g"] by auto
  moreover obtain k where "parse_map_block_if_present (map_lines g) (mp_at n ?g\<lparr>mp_has_output := True\<rparr>) =
      Inr (mp_at k (graph_reading g)\<lparr>mp_has_output := True\<rparr>)"
    using parse_map_lines [OF assms(3,4), of "mp_at n ?g\<lparr>mp_has_output := True\<rparr>"] by (auto simp: mp_at_def graph_reading_def)
  ultimately have "parser_parse (graph_lines g @ map_lines g) = Inr (graph_reading g)"
    using assms(1) by (simp add: parser_parse_def mp_at_def)
  with assms(5,6) ls show ?thesis by (simp add: parse_mic2_def)
qed

subsection \<open>Exact readings\<close>

text \<open>Operations whose parameters, if any, are negative or at the value that is not written are read back exactly.\<close>

definition exact_opcode :: "opcode \<Rightarrow> bool" where
  "exact_opcode op =
     (case op of
        OpSoftmax axis \<Rightarrow> sint axis < 0
      | OpTranspose perm \<Rightarrow> list_all (\<lambda>a. sint a < 0) perm
      | OpSum axes \<Rightarrow> list_all (\<lambda>a. sint a < 0) axes
      | OpMean axes \<Rightarrow> list_all (\<lambda>a. sint a < 0) axes
      | OpMax axes \<Rightarrow> list_all (\<lambda>a. sint a < 0) axes
      | OpConcat axis \<Rightarrow> sint axis < 0
      | OpSplit axis n \<Rightarrow> False
      | OpGather axis \<Rightarrow> sint axis < 0
      | OpCustom name \<Rightarrow> False
      | _ \<Rightarrow> True)"

lemma parse_usize_negative: "sint i < 0 \<Longrightarrow> parse_usize (show_i64 i) = None"
  by (simp add: show_i64_def parse_usize_def parse_digits_def digit_val_def)

lemma parse_usize_non_negative: "0 \<le> sint i \<Longrightarrow> parse_usize (show_i64 i) = Some (nat (sint i))"
  using sint_lt [of i] by (simp add: show_i64_def parse_usize_show_nat nat_less_iff)

lemma exact_reading: "exact_opcode op \<Longrightarrow> read_opcode op = op \<and> read_inputs op = []"
proof -
  have neg: "filter (\<lambda>w. parse_usize w = None) (map show_i64 axes) = map show_i64 axes \<and>
      List.map_filter parse_usize (map show_i64 axes) = [] \<and> List.map_filter parse_i64 (map show_i64 axes) = axes"
    if "list_all (\<lambda>a. sint a < 0) axes" for axes
    using that by (induction axes) (simp_all add: map_filter_simps parse_usize_negative parse_i64_show_i64)
  assume "exact_opcode op"
  then show ?thesis
    by (cases op) (auto simp: read_opcode_def read_inputs_def opcode_parse_def opcode_params_def exact_opcode_def
        param_or_def parse_i64_show_i64 parse_usize_negative map_filter_simps neg)
qed

text \<open>The axis of a concatenation is read as its first input, and the axis itself as 0.\<close>

lemma concat_reading:
  assumes "0 \<le> sint axis"
  shows "text_reading (VNode (OpConcat axis) inputs) = VNode (OpConcat 0) (nat (sint axis) # inputs)"
  using parse_usize_non_negative [OF assms]
  by (simp add: read_opcode_def read_inputs_def opcode_params_def map_filter_simps opcode_parse_def param_or_def)

definition exact_value :: "mic_value \<Rightarrow> bool" where
  "exact_value v = (case v of VNode op inputs \<Rightarrow> exact_opcode op \<and> (\<forall>n. opcode_arity op = Some n \<longrightarrow> length inputs = n)
     | VArg name _ \<Rightarrow> text_token name | VParam name _ \<Rightarrow> text_token name)"

lemma exact_text_value: "exact_value v \<Longrightarrow> text_value v \<and> text_reading v = v"
  using exact_reading by (cases v) (auto simp: exact_value_def text_value_def exact_opcode_def)

definition exact_graph :: "graph \<Rightarrow> bool" where
  "exact_graph g \<longleftrightarrow>
     list_all text_token (g_symbols g) \<and> list_all text_type (g_types g) \<and> list_all exact_value (g_values g) \<and>
     length (g_values g) \<le> MAX_VALUE_COUNT"

lemma exact_graph_reading:
  assumes "exact_graph g"
  shows "text_graph g" "graph_reading g = g\<lparr>g_map := canonicalize (g_map g)\<rparr>"
proof -
  have "map text_reading (g_values g) = g_values g"
    using assms exact_text_value by (intro map_idI) (auto simp: exact_graph_def list_all_iff)
  then show "graph_reading g = g\<lparr>g_map := canonicalize (g_map g)\<rparr>" by (simp add: graph_reading_def)
  show "text_graph g" using assms exact_text_value by (auto simp: exact_graph_def text_graph_def list_all_iff)
qed

lemma parse_emit_mic2:
  assumes "validate g = Inr ()" "exact_graph g" "map_within (g_map g)"
    and "\<forall>s \<in> set (map_strings (canonicalize (g_map g))). valid_string s"
    and "length (emit_mic2 g) \<le> MAX_INPUT_SIZE" "length (str_lines (emit_mic2 g)) \<le> MAX_LINE_COUNT"
  shows "parse_mic2 (emit_mic2 g) = Inr (g\<lparr>g_map := canonicalize (g_map g)\<rparr>)"
proof -
  have "validate (graph_reading g) = Inr ()" using assms(1) exact_graph_reading [OF assms(2)] by (simp add: validate_iff)
  from read_emit_mic2 [OF this exact_graph_reading(1) [OF assms(2)] assms(3-6)] exact_graph_reading(2) [OF assms(2)]
  show ?thesis by simp
qed

end
