(* ===== verification/Mic2_Safety.thy ===== *)
theory Mic2_Safety
  imports Mic2_Roundtrip Micb_Safety
begin

text \<open>
  What the mic@2 parser guarantees on any input: the graph it returns is well formed, every node has as
  many inputs as its operation takes, the size limits on values and types hold, and the map obeys
  \<open>map_result_ok\<close>.
\<close>

subsection \<open>The metadata map\<close>

lemma length_decode_hex [simp]: "length (decode_hex_pairs bs) = length bs div 2"
  by (induction bs rule: decode_hex_pairs.induct) auto

lemma parse_map_scalar_within:
  assumes "parse_map_scalar line raw = Inr v"
  shows "map_value_within d v" "value_entry_count v = 0"
  using assms
  by (auto simp: parse_map_scalar_def parse_map_string_value_def parse_map_bytes_value_def parse_map_int_value_def
      rbind_eq_Inr check_map_string_len_def check_map_bytes_len_def Let_def split: if_splits option.splits)


lemma map_entry_headD:
  "map_entry_head line m trimmed = Inr (k, raw) \<Longrightarrow> map_key_ok k \<and> recursive_entry_count m + 1 \<le> MAX_MAP_ENTRIES"
  by (auto simp: map_entry_head_def rbind_eq_Inr check_map_entry_count_def check_map_key_iff Let_def split: if_splits option.splits)

lemma map_result_snoc:
  assumes "map_result_ok d m" "insert_unique m k v = Inr m'" "map_key_ok k" "map_value_within d v"
    and "recursive_entry_count m + 1 \<le> MAX_MAP_ENTRIES" "value_entry_count v \<le> MAX_MAP_ENTRIES * (MAX_MAP_NESTING - d)"
    "d \<le> MAX_MAP_NESTING"
  shows "map_result_ok d m'"
proof -
  have "distinct (map fst m')" "m' = m @ [(k, v)]"
    using insert_unique_distinct [OF assms(2)] assms(1) unfolding map_result_ok_def by blast+
  moreover have "MAX_MAP_ENTRIES + MAX_MAP_ENTRIES * (MAX_MAP_NESTING - d) = MAX_MAP_ENTRIES * (MAX_MAP_NESTING + 1 - d)"
    using assms(7) by (simp add: Suc_diff_le algebra_simps)
  ultimately show ?thesis using assms by (simp add: map_result_ok_def)
qed

lemma parse_map_entries_ok:
  "parse_map_entries d line ls m = Inr (m', line', rest') \<Longrightarrow> d \<le> MAX_MAP_NESTING \<Longrightarrow> map_result_ok d m \<Longrightarrow>
     map_result_ok d m'"
proof (induction d line ls m arbitrary: m' line' rest' rule: parse_map_entries.induct)
  case (2 d line l rest m)
  let ?t = "trim l"
  consider "?t = [] \<or> starts_with ''#'' ?t" | "?t = ''}''" "?t \<noteq> []"
    | (entry) "\<not> (?t = [] \<or> starts_with ''#'' ?t)" "?t \<noteq> ''}''" by blast
  then show ?case
  proof cases
    case 1
    then show ?thesis using 2 by (simp add: parse_map_entries.simps(2))
  next
    case entry
    obtain k raw where head: "map_entry_head (line + 1) m ?t = Inr (k, raw)"
      using "2.prems"(1) entry by (auto simp: parse_map_entries.simps(2) split: sum.splits)
    show ?thesis
    proof (cases "raw = ''{''")
      case True
      obtain inner l1 r1 m1 where nested: "check_map_nesting_depth d = Inr ()"
          "parse_map_entries (d + 1) (line + 1) rest map_new = Inr (inner, l1, r1)"
          "insert_unique m k (MapNested inner) = Inr m1" "parse_map_entries d l1 r1 m1 = Inr (m', line', rest')"
        using "2.prems"(1) entry head True by (auto simp: parse_map_entries.simps(2) split: sum.splits if_splits)
      have d: "d < MAX_MAP_NESTING" using nested(1) by (simp add: check_map_nesting_depth_def split: if_splits)
      have "map_result_ok (d + 1) inner"
        using "2.IH"(2) [OF refl refl entry head refl True nested(1,2)] d by (simp add: map_result_ok_def map_new_def)
      then have "map_result_ok d m1"
        using map_entry_headD [OF head] d "2.prems"
        by (intro map_result_snoc [OF _ nested(3)]) (simp_all add: map_result_ok_def)
      then show ?thesis using "2.IH"(3) [OF refl refl entry head refl] nested True "2.prems"(2) by simp
    next
      case False
      obtain v m1 where scalar: "parse_map_scalar (line + 1) raw = Inr v" "insert_unique m k v = Inr m1"
          "parse_map_entries d (line + 1) rest m1 = Inr (m', line', rest')"
        using "2.prems"(1) entry head False by (auto simp: parse_map_entries.simps(2) split: sum.splits if_splits)
      have "map_result_ok d m1"
        using map_entry_headD [OF head] "2.prems" parse_map_scalar_within [OF scalar(1)]
        by (intro map_result_snoc [OF _ scalar(2)]) simp_all
      then show ?thesis using "2.IH"(3) [OF refl refl entry head refl] scalar False "2.prems"(2) by simp
    qed
  qed (use 2 in \<open>simp add: parse_map_entries.simps(2) starts_with_def\<close>)
qed simp


subsection \<open>The graph\<close>

text \<open>The invariant of the parser's loop.\<close>

definition sized_value :: "mic_value \<Rightarrow> bool" where
  "sized_value v =
     (case v of VNode op inputs \<Rightarrow> \<forall>n. opcode_arity op = Some n \<longrightarrow> length inputs = n | _ \<Rightarrow> True)"

definition parsed_ok :: "graph \<Rightarrow> bool" where
  "parsed_ok g \<longleftrightarrow>
     (\<forall>i < length (g_values g). value_ok (length (g_types g)) i (g_values g ! i)) \<and>
     list_all sized_value (g_values g) \<and> list_all (\<lambda>t. length (tt_shape t) \<le> MAX_SHAPE_DIMS) (g_types g) \<and>
     length (g_values g) \<le> MAX_VALUE_COUNT \<and> map_result_ok 0 (g_map g)"

definition parser_inv :: "mic2_parser \<Rightarrow> bool" where
  "parser_inv p \<longleftrightarrow> mp_current_value_id p = length (g_values (mp_graph p)) \<and> parsed_ok (mp_graph p) \<and>
     (mp_has_output p \<longrightarrow> g_output (mp_graph p) < length (g_values (mp_graph p)))"

lemma parsed_ok_add_type:
  assumes "parsed_ok g" "length (tt_shape t) \<le> MAX_SHAPE_DIMS"
  shows "parsed_ok (g\<lparr>g_types := g_types g @ [t]\<rparr>)"
proof -
  have "value_ok n i v \<Longrightarrow> value_ok (Suc n) i v" for n i v by (auto simp: value_ok_def split: mic_value.splits)
  with assms show ?thesis by (simp add: parsed_ok_def)
qed

lemma parser_line_inv [simp]: "parser_inv (p\<lparr>mp_line_num := n\<rparr>) = parser_inv p"
  by (simp add: parser_inv_def)

lemma parser_add_value_inv:
  assumes "parser_add_value p v = Inr p'" "parser_inv p" "sized_value v"
    "value_ok (length (g_types (mp_graph p))) (mp_current_value_id p) v"
  shows "parser_inv p'"
  using assms by (auto simp: parser_add_value_def parse_fail_def parser_inv_def parsed_ok_def add_value_def nth_append
      less_Suc_eq split: if_splits)

lemma parse_symbol_inv: "parse_symbol p ts = Inr p' \<Longrightarrow> parser_inv p \<Longrightarrow> parser_inv p'"
  by (auto simp: parse_symbol_def parse_fail_def parser_inv_def parsed_ok_def add_symbol_def split: if_splits)

lemma parse_type_inv:
  assumes "parse_type p f ts = Inr p'" "parser_inv p"
  shows "parser_inv p'"
proof -
  obtain t where "p' = p\<lparr>mp_graph := (mp_graph p)\<lparr>g_types := g_types (mp_graph p) @ [t]\<rparr>\<rparr>" "length (tt_shape t) \<le> MAX_SHAPE_DIMS"
    using assms(1) by (auto simp: parse_type_def parse_fail_def add_type_def tensor_type_new_def Let_def
        split: if_splits option.splits list.splits)
  with assms(2) parsed_ok_add_type show ?thesis by (simp add: parser_inv_def)
qed

lemma parse_type_ref_less: "parse_type_ref p tok = Inr i \<Longrightarrow> i < length (g_types (mp_graph p))"
  by (auto simp: parse_type_ref_def parse_fail_def split: if_splits option.splits)

lemma parse_named_inv:
  assumes "rbind (parse_type_ref p tok) (\<lambda>i. parser_add_value p (f i)) = Inr p'" "parser_inv p"
    "\<And>i. f i = VArg name i \<or> f i = VParam name i"
  shows "parser_inv p'"
proof -
  obtain i where i: "parse_type_ref p tok = Inr i" "parser_add_value p (f i) = Inr p'"
    using assms(1) by (auto simp: rbind_eq_Inr)
  show ?thesis
    using assms(3) [of i] parse_type_ref_less [OF i(1)]
    by (intro parser_add_value_inv [OF i(2) assms(2)]) (auto simp: sized_value_def value_ok_def)
qed

lemma parse_arg_inv: "parse_arg p ts = Inr p' \<Longrightarrow> parser_inv p \<Longrightarrow> parser_inv p'"
  by (rule parse_named_inv [of p "ts ! 2" "VArg (ts ! 1)" p' "ts ! 1"]) (simp_all add: parse_arg_def parse_fail_def split: if_splits)

lemma parse_param_inv: "parse_param p ts = Inr p' \<Longrightarrow> parser_inv p \<Longrightarrow> parser_inv p'"
  by (rule parse_named_inv [of p "ts ! 2" "VParam (ts ! 1)" p' "ts ! 1"]) (simp_all add: parse_param_def parse_fail_def split: if_splits)

lemma parse_node_inv:
  assumes "parse_node p f ts = Inr p'" "parser_inv p"
  shows "parser_inv p'"
proof -
  obtain op inputs where r: "parser_add_value p (VNode op inputs) = Inr p'" "find (\<lambda>i. i \<ge> mp_current_value_id p) inputs = None"
      "\<forall>n. opcode_arity op = Some n \<longrightarrow> length inputs = n"
    using assms(1) by (auto simp: parse_node_def parse_fail_def Let_def split: if_splits option.splits)
  then show ?thesis
    by (intro parser_add_value_inv [OF r(1) assms(2)]) (auto simp: sized_value_def value_ok_def find_None_iff)
qed

lemma parse_output_inv: "parse_output p ts = Inr p' \<Longrightarrow> parser_inv p \<Longrightarrow> parser_inv p'"
  by (auto simp: parse_output_def parse_fail_def parser_inv_def parsed_ok_def set_output_def
      split: if_splits option.splits)

lemma parse_map_block_inv: "parse_map_block_if_present ls p = Inr p' \<Longrightarrow> parser_inv p \<Longrightarrow> parser_inv p'"
proof (induction ls p rule: parse_map_block_if_present.induct)
  case (2 l rest p)
  have "map_result_ok 0 m" if "parse_map_entries 0 n rest map_new = Inr (m, k, r)" for n m k r
    using parse_map_entries_ok [OF that] by (simp add: map_result_ok_def map_new_def)
  moreover have "parser_inv (p\<lparr>mp_line_num := n, mp_graph := (mp_graph p)\<lparr>g_map := m\<rparr>\<rparr>)" if "map_result_ok 0 m" for n m
    using 2(3) that by (simp add: parser_inv_def parsed_ok_def)
  ultimately show ?case
    using 2 by (auto simp: Let_def parse_fail_def rbind_eq_Inr split: if_splits prod.splits)
qed simp

lemma parse_lines_step:
  assumes "parse_lines (l # rest) p = Inr p'" "parser_inv p"
  obtains (line) q where "parse_lines rest q = Inr p'" "parser_inv q"
  | (out) q where "parse_map_block_if_present rest q = Inr p'" "parser_inv q"
proof (cases "split_whitespace (trim l) = [] \<or> trim l = [] \<or> starts_with ''#'' (trim l)")
  case True
  then show thesis using assms line [of "p\<lparr>mp_line_num := mp_line_num p + 1\<rparr>"]
    by (auto simp: parse_lines.simps(2) Let_def split: if_splits)
next
  case False
  then obtain f args where w: "split_whitespace (trim l) = f # args" by (cases "split_whitespace (trim l)") auto
  let ?p = "p\<lparr>mp_line_num := mp_line_num p + 1\<rparr>"
  have inv: "parser_inv ?p" using assms(2) by simp
  have "(\<exists>q. (parse_symbol ?p (f # args) = Inr q \<or> parse_arg ?p (f # args) = Inr q \<or> parse_param ?p (f # args) = Inr q \<or>
        parse_type ?p f args = Inr q \<or> parse_node ?p f args = Inr q) \<and> parse_lines rest q = Inr p') \<or>
      (\<exists>q. parse_output ?p (f # args) = Inr q \<and> parse_map_block_if_present rest q = Inr p')"
    using assms(1) False w by (simp add: parse_lines.simps(2) Let_def rbind_eq_Inr split: if_splits) blast+
  then show thesis
    using line out inv parse_symbol_inv parse_type_inv parse_arg_inv parse_param_inv parse_node_inv parse_output_inv by metis
qed

lemma parse_lines_inv: "parse_lines ls p = Inr p' \<Longrightarrow> parser_inv p \<Longrightarrow> parser_inv p'"
proof (induction ls arbitrary: p)
  case (Cons l rest)
  from Cons.prems show ?case
    by (cases rule: parse_lines_step) (auto intro: Cons.IH parse_map_block_inv)
qed simp

lemma parse_header_new: "parse_header ls p = Inr (rest, p') \<Longrightarrow> \<exists>n. p' = p\<lparr>mp_line_num := n\<rparr>"
  by (induction ls p rule: parse_header.induct) (auto simp: Let_def parse_fail_def split: if_splits)

lemma parse_mic2_ok:
  assumes "parse_mic2 s = Inr g"
  shows "parsed_ok g" "g_values g \<noteq> [] \<Longrightarrow> validate g = Inr ()"
proof -
  obtain ls rest p p' where r: "parse_header ls mic2_parser_new = Inr (rest, p)" "parse_lines rest p = Inr p'"
      "g = mp_graph p'" "g_values g \<noteq> [] \<longrightarrow> validate g = Inr ()"
    using assms by (auto simp: parse_mic2_def parser_parse_def rbind_eq_Inr Let_def parse_fail_def split: if_splits)
  have "parser_inv mic2_parser_new"
    by (simp add: parser_inv_def mic2_parser_new_def graph_new_def parsed_ok_def map_result_ok_def map_new_def)
  then have "parser_inv p'" using parse_header_new [OF r(1)] parse_lines_inv [OF r(2)] by auto
  then show "parsed_ok g" "g_values g \<noteq> [] \<Longrightarrow> validate g = Inr ()" using r by (simp_all add: parser_inv_def)
qed

end
