(* ===== verification/Ir_Verify.thy ===== *)
theory Ir_Verify
  imports Ir_Canonical
begin

text \<open>
  \<^verbatim>\<open>src/ir/verify.rs\<close>: the two SSA verifiers -- \<open>check_ssa_well_formed\<close>, the consumer's check of a decoded
  module, and \<open>verify_module\<close>, the check of the compilation pipeline -- with the aggregate-type checks of
  \<^verbatim>\<open>src/ir/mod.rs\<close>.  A scope (\<open>BTreeSet<ValueId>\<close>) is a set; a walk returns the scope it leaves.  The
  check of the canonical metadata (\<^verbatim>\<open>src/ir/canonical_verify.rs\<close>) is an argument of \<open>verify_module\<close>;
  \<open>verify_canonical_metadata\<close> is its branch for modules without a bundle.
\<close>

type_synonym scope = "value_id set"

subsection \<open>What control flow exposes\<close>

definition branch_falls_through :: "instr list \<Rightarrow> bool" where
  "branch_falls_through is =
     (is = [] \<or> (case last is of Return _ \<Rightarrow> False | Break _ \<Rightarrow> False | Continue _ \<Rightarrow> False | _ \<Rightarrow> True))"

fun validate_merges_loop ::
  "bool \<Rightarrow> bool \<Rightarrow> scope \<Rightarrow> scope \<Rightarrow> (value_id \<times> value_id \<times> value_id) list \<Rightarrow> value_id + unit" where
  "validate_merges_loop then_ft else_ft T E [] = Inr ()"
| "validate_merges_loop then_ft else_ft T E ((_, then_val, else_val) # ms) =
     (if then_ft \<and> then_val \<notin> T then Inl then_val
      else if else_ft \<and> else_val \<notin> E then Inl else_val
      else validate_merges_loop then_ft else_ft T E ms)"

definition validate_if_merges ::
  "scope \<Rightarrow> scope \<Rightarrow> instr list \<Rightarrow> instr list \<Rightarrow> (value_id \<times> value_id \<times> value_id) list \<Rightarrow> value_id + unit" where
  "validate_if_merges T E then_instrs else_instrs merges =
     validate_merges_loop (branch_falls_through then_instrs) (branch_falls_through else_instrs) T E merges"

definition exposed_ids :: "instr \<Rightarrow> value_id list" where
  "exposed_ids i =
     (case i of
        IfInstr _ _ _ _ _ _ dst _ merges \<Rightarrow> dst # map fst merges
      | While _ _ _ _ _ exit_ids \<Rightarrow> exit_ids
      | Region _ result _ _ _ \<Rightarrow> [result]
      | _ \<Rightarrow> (case instruction_dst i of Some d \<Rightarrow> [d] | None \<Rightarrow> []))"

definition expose_region_definitions :: "instr \<Rightarrow> scope \<Rightarrow> scope" where
  "expose_region_definitions i S = S \<union> set (exposed_ids i)"

fun validate_while_backedges ::
  "instr list \<Rightarrow> instr list \<Rightarrow> (string \<times> value_id) list \<Rightarrow> scope \<Rightarrow> value_id + unit" where
  "validate_while_backedges cond_instrs body live_vars enclosing =
     (let reachable = fold expose_region_definitions body (fold expose_region_definitions cond_instrs enclosing) in
      case find (\<lambda>(_, post_id). post_id \<notin> reachable) live_vars of
        None \<Rightarrow> Inr ()
      | Some (_, post_id) \<Rightarrow> Inl post_id)"

definition is_region :: "instr \<Rightarrow> bool" where
  "is_region i =
     (case i of FnDef _ _ _ _ _ _ _ \<Rightarrow> True | While _ _ _ _ _ _ \<Rightarrow> True | IfInstr _ _ _ _ _ _ _ _ _ \<Rightarrow> True
      | Region _ _ _ _ _ \<Rightarrow> True | _ \<Rightarrow> False)"

definition is_if :: "instr \<Rightarrow> bool" where
  "is_if i = (case i of IfInstr _ _ _ _ _ _ _ _ _ \<Rightarrow> True | _ \<Rightarrow> False)"

definition is_param :: "instr \<Rightarrow> bool" where
  "is_param i = (case i of Param _ _ _ \<Rightarrow> True | _ \<Rightarrow> False)"

subsection \<open>The consumer's verifier\<close>

datatype ssa_rule = SingleAssignment | DefineBeforeUse

definition ssa_rule_as_str :: "ssa_rule \<Rightarrow> string" where
  "ssa_rule_as_str r = (case r of SingleAssignment \<Rightarrow> ''single-assignment'' | DefineBeforeUse \<Rightarrow> ''define-before-use'')"

record ssa_violation =
  sv_value :: value_id
  sv_rule :: ssa_rule

definition violation :: "ssa_rule \<Rightarrow> value_id \<Rightarrow> ssa_violation" where
  "violation r v = \<lparr>sv_value = v, sv_rule = r\<rparr>"

text \<open>The first operand that is not in scope, and the definition of a straight-line instruction.\<close>

definition undefined_operand :: "instr \<Rightarrow> scope \<Rightarrow> value_id option" where
  "undefined_operand i D = find (\<lambda>v. v \<notin> D) (instruction_operands i)"

definition check_operands :: "instr \<Rightarrow> scope \<Rightarrow> ssa_violation + unit" where
  "check_operands i D =
     (if is_if i then Inr ()
      else case undefined_operand i D of Some v \<Rightarrow> Inl (violation DefineBeforeUse v) | None \<Rightarrow> Inr ())"

definition define_result :: "instr \<Rightarrow> scope \<Rightarrow> value_id + scope" where
  "define_result i D =
     (if is_region i then Inr D
      else case instruction_dst i of
        None \<Rightarrow> Inr D
      | Some d \<Rightarrow> if d \<in> D \<and> \<not> is_param i then Inl d else Inr (insert d D))"

definition require :: "'e \<Rightarrow> bool \<Rightarrow> 'e + unit" where
  "require e b = (if b then Inr () else Inl e)"

fun seed_params :: "(string \<times> value_id) list \<Rightarrow> scope \<Rightarrow> ssa_violation + scope" where
  "seed_params [] S = Inr S"
| "seed_params ((_, pid) # ps) S =
     (if pid \<in> S then Inl (violation SingleAssignment pid) else seed_params ps (insert pid S))"

text \<open>\<open>check_ssa_nested\<close> is the third step of the loop body, the walk of the nested streams.\<close>

fun check_ssa_stream :: "instr list \<Rightarrow> scope \<Rightarrow> ssa_violation + scope"
  and check_ssa_nested :: "instr \<Rightarrow> scope \<Rightarrow> ssa_violation + scope" where
  "check_ssa_stream [] D = Inr D"
| "check_ssa_stream (i # is) D =
     rbind (check_operands i D) (\<lambda>_.
     rbind (map_err (violation SingleAssignment) (define_result i D)) (\<lambda>D.
     rbind (check_ssa_nested i D) (\<lambda>D.
       check_ssa_stream is (if is_region i then expose_region_definitions i D else D))))"
| "check_ssa_nested (FnDef _ params _ body _ _ _) D =
     rbind (seed_params params {}) (\<lambda>body_scope.
     rbind (check_ssa_stream body body_scope) (\<lambda>_. Inr D))"
| "check_ssa_nested (While cond_id cond_instrs body live_vars _ _) D =
     rbind (check_ssa_stream cond_instrs D) (\<lambda>D1.
     rbind (check_ssa_stream body D1) (\<lambda>D2.
     rbind (require (violation DefineBeforeUse cond_id) (cond_id \<in> D2)) (\<lambda>_.
     rbind (map_err (violation DefineBeforeUse) (validate_while_backedges cond_instrs body live_vars D)) (\<lambda>_.
       Inr D2))))"
| "check_ssa_nested (IfInstr cond_id cond_instrs then_instrs then_result else_instrs else_result _ _ merges) D =
     rbind (check_ssa_stream cond_instrs D) (\<lambda>D1.
     rbind (require (violation DefineBeforeUse cond_id) (cond_id \<in> D1)) (\<lambda>_.
     rbind (check_ssa_stream then_instrs D1) (\<lambda>T.
     rbind (require (violation DefineBeforeUse then_result) (then_result \<in> T)) (\<lambda>_.
     rbind (check_ssa_stream else_instrs D1) (\<lambda>E.
     rbind (require (violation DefineBeforeUse else_result) (else_result \<in> E)) (\<lambda>_.
     rbind (map_err (violation DefineBeforeUse) (validate_if_merges T E then_instrs else_instrs merges)) (\<lambda>_.
       Inr (D1 \<union> T \<union> E))))))))"
| "check_ssa_nested (Region body result _ _ _) D =
     rbind (check_ssa_stream body D) (\<lambda>D1.
     rbind (require (violation DefineBeforeUse result) (result \<in> D1)) (\<lambda>_. Inr D1))"
| "check_ssa_nested _ D = Inr D"

definition check_ssa_well_formed :: "'x ir_module_scheme \<Rightarrow> ssa_violation + unit" where
  "check_ssa_well_formed m = rbind (check_ssa_stream (instrs m) {}) (\<lambda>_. Inr ())"

subsection \<open>The pipeline's verifier\<close>

datatype operand_message = AxesNegative | StridesZero | AxisNegative

datatype 'c ir_verify_error =
    DuplicateDefinition value_id
  | UseBeforeDefinition value_id usize
  | MissingOutputInstr
  | NextIdOutOfSync usize usize
  | InvalidOperand usize operand_message
  | CanonicalMetadata 'c
  | AggregateTypeConflict value_id array_type array_type
  | MalformedDenseShape value_id
  | MalformedDenseLength value_id u64 usize
  | MalformedDenseEntry value_id
  | RedundantConstDenseTypeEntry value_id array_type
  | TypeEntryReferencesUndefinedValue value_id

definition validate_use :: "usize \<Rightarrow> instr \<Rightarrow> scope \<Rightarrow> 'c ir_verify_error + unit" where
  "validate_use idx i D =
     (case undefined_operand i D of Some v \<Rightarrow> Inl (UseBeforeDefinition v idx) | None \<Rightarrow> Inr ())"

fun validate_ssa_stream :: "usize \<Rightarrow> instr list \<Rightarrow> scope \<Rightarrow> 'c ir_verify_error + scope"
  and validate_ssa_nested :: "usize \<Rightarrow> instr \<Rightarrow> scope \<Rightarrow> 'c ir_verify_error + scope" where
  "validate_ssa_stream idx [] D = Inr D"
| "validate_ssa_stream idx (i # is) D =
     rbind (if is_if i then Inr () else validate_use idx i D) (\<lambda>_.
     rbind (map_err DuplicateDefinition (define_result i D)) (\<lambda>D.
     rbind (validate_ssa_nested idx i D) (\<lambda>D.
       validate_ssa_stream (idx + 1) is (if is_region i then expose_region_definitions i D else D))))"
| "validate_ssa_nested idx (FnDef _ _ _ body _ _ _) D =
     rbind (validate_ssa_stream 0 body {}) (\<lambda>_. Inr D)"
| "validate_ssa_nested idx (While cond_id cond_instrs body live_vars _ _) D =
     rbind (validate_ssa_stream 0 cond_instrs D) (\<lambda>D1.
     rbind (validate_ssa_stream 0 body D1) (\<lambda>D2.
     rbind (require (UseBeforeDefinition cond_id idx) (cond_id \<in> D2)) (\<lambda>_.
     rbind (map_err (\<lambda>v. UseBeforeDefinition v idx) (validate_while_backedges cond_instrs body live_vars D)) (\<lambda>_.
       Inr D2))))"
| "validate_ssa_nested idx (IfInstr cond_id cond_instrs then_instrs then_result else_instrs else_result _ _ merges) D =
     rbind (validate_ssa_stream 0 cond_instrs D) (\<lambda>D1.
     rbind (require (UseBeforeDefinition cond_id idx) (cond_id \<in> D1)) (\<lambda>_.
     rbind (validate_ssa_stream 0 then_instrs D1) (\<lambda>T.
     rbind (require (UseBeforeDefinition then_result idx) (then_result \<in> T)) (\<lambda>_.
     rbind (validate_ssa_stream 0 else_instrs D1) (\<lambda>E.
     rbind (require (UseBeforeDefinition else_result idx) (else_result \<in> E)) (\<lambda>_.
     rbind (map_err (\<lambda>v. UseBeforeDefinition v idx) (validate_if_merges T E then_instrs else_instrs merges)) (\<lambda>_.
       Inr (D1 \<union> T \<union> E))))))))"
| "validate_ssa_nested idx (Region body result _ _ _) D =
     rbind (validate_ssa_stream 0 body D) (\<lambda>D1.
     rbind (require (UseBeforeDefinition result idx) (result \<in> D1)) (\<lambda>_. Inr D1))"
| "validate_ssa_nested idx _ D = Inr D"

text \<open>The checks of \<open>validate_operands\<close> beyond definedness.\<close>

definition operand_sanity :: "usize \<Rightarrow> instr \<Rightarrow> 'c ir_verify_error + unit" where
  "operand_sanity idx i =
     (let neg = list_ex (\<lambda>a. sint a < 0) in
      case i of
        SumOp _ _ axes _ \<Rightarrow> require (InvalidOperand idx AxesNegative) (\<not> neg axes)
      | MeanOp _ _ axes _ \<Rightarrow> require (InvalidOperand idx AxesNegative) (\<not> neg axes)
      | Conv2d _ _ _ sh sw _ \<Rightarrow> require (InvalidOperand idx StridesZero) (sh \<noteq> 0 \<and> sw \<noteq> 0)
      | Conv2dGradInput _ _ _ _ sh sw _ \<Rightarrow> require (InvalidOperand idx StridesZero) (sh \<noteq> 0 \<and> sw \<noteq> 0)
      | Conv2dGradFilter _ _ _ _ sh sw _ \<Rightarrow> require (InvalidOperand idx StridesZero) (sh \<noteq> 0 \<and> sw \<noteq> 0)
      | Gather _ _ _ axis \<Rightarrow> require (InvalidOperand idx AxisNegative) (\<not> sint axis < 0)
      | _ \<Rightarrow> Inr ())"

definition validate_operands :: "usize \<Rightarrow> instr \<Rightarrow> scope \<Rightarrow> 'c ir_verify_error + unit" where
  "validate_operands idx i D =
     (case i of
        FnDef _ _ _ _ _ _ _ \<Rightarrow> rbind (validate_ssa_stream 0 [i] {}) (\<lambda>_. Inr ())
      | While _ _ _ _ _ _ \<Rightarrow> rbind (validate_ssa_stream 0 [i] D) (\<lambda>_. Inr ())
      | IfInstr _ _ _ _ _ _ _ _ _ \<Rightarrow> rbind (validate_ssa_stream 0 [i] D) (\<lambda>_. Inr ())
      | Region _ _ _ _ _ \<Rightarrow> rbind (validate_ssa_stream 0 [i] D) (\<lambda>_. Inr ())
      | _ \<Rightarrow> rbind (validate_use idx i D) (\<lambda>_. operand_sanity idx i))"

text \<open>The top-level definitions of an instruction: its result, then what its control flow exposes.\<close>

fun define_all :: "value_id list \<Rightarrow> scope \<Rightarrow> 'c ir_verify_error + scope" where
  "define_all [] D = Inr D"
| "define_all (v # vs) D = (if v \<in> D then Inl (DuplicateDefinition v) else define_all vs (insert v D))"

definition top_level_ids :: "instr \<Rightarrow> value_id list" where
  "top_level_ids i =
     (let node_dst = instruction_dst i;
          exposed = (case i of
              IfInstr _ _ _ _ _ _ _ _ _ \<Rightarrow> exposed_ids i
            | While _ _ _ _ _ _ \<Rightarrow> exposed_ids i
            | Region _ _ _ _ _ \<Rightarrow> exposed_ids i
            | _ \<Rightarrow> [])
      in (case node_dst of Some d \<Rightarrow> [d] | None \<Rightarrow> []) @ filter (\<lambda>v. Some v \<noteq> node_dst) (sort (remdups exposed)))"

text \<open>The loop of \<open>verify_module\<close>: the scope, whether an \<open>Output\<close> was seen, and the greatest bound.\<close>

fun verify_top :: "usize \<Rightarrow> instr list \<Rightarrow> scope \<Rightarrow> bool \<Rightarrow> usize \<Rightarrow> 'c ir_verify_error + bool \<times> usize" where
  "verify_top idx [] D saw mx = Inr (saw, mx)"
| "verify_top idx (i # is) D saw mx =
     rbind (validate_operands idx i D) (\<lambda>_.
     rbind (define_all (top_level_ids i) D) (\<lambda>D.
       verify_top (idx + 1) is D (saw \<or> (case i of Output _ \<Rightarrow> True | _ \<Rightarrow> False)) (max mx (instruction_id_bound i))))"

subsection \<open>Dense constants and the table of aggregate types\<close>

fun dense_shape_len_from :: "u64 \<Rightarrow> shape_dim list \<Rightarrow> u64 option" where
  "dense_shape_len_from acc [] = Some acc"
| "dense_shape_len_from acc (Known n # ds) =
     (if unat acc * n < 2 ^ 64 then dense_shape_len_from (acc * of_nat n) ds else None)"
| "dense_shape_len_from acc (Sym _ # ds) = None"

definition dense_shape_len :: "shape_dim list \<Rightarrow> u64 option" where
  "dense_shape_len shape = dense_shape_len_from 1 shape"

fun check_const_dense_wellformed :: "instr list \<Rightarrow> 'c ir_verify_error + unit"
  and check_const_dense_instr :: "instr \<Rightarrow> 'c ir_verify_error + unit" where
  "check_const_dense_wellformed [] = Inr ()"
| "check_const_dense_wellformed (i # is) =
     rbind (check_const_dense_instr i) (\<lambda>_. check_const_dense_wellformed is)"
| "check_const_dense_instr (ConstDenseTensor dst _ shape data) =
     (case dense_shape_len shape of
        None \<Rightarrow> Inl (MalformedDenseShape dst)
      | Some n \<Rightarrow> require (MalformedDenseLength dst n (length data)) (unat n = length data))"
| "check_const_dense_instr (FnDef _ _ _ body _ _ _) = check_const_dense_wellformed body"
| "check_const_dense_instr (Region body _ _ _ _) = check_const_dense_wellformed body"
| "check_const_dense_instr (While _ cond_instrs body _ _ _) =
     rbind (check_const_dense_wellformed cond_instrs) (\<lambda>_. check_const_dense_wellformed body)"
| "check_const_dense_instr (IfInstr _ cond_instrs then_instrs _ else_instrs _ _ _ _) =
     rbind (check_const_dense_wellformed cond_instrs) (\<lambda>_.
     rbind (check_const_dense_wellformed then_instrs) (\<lambda>_. check_const_dense_wellformed else_instrs))"
| "check_const_dense_instr _ = Inr ()"

fun find_scoped_const_dense :: "instr list \<Rightarrow> value_id \<Rightarrow> (ir_dtype \<times> shape_dim list) option"
  and find_const_dense_instr :: "instr \<Rightarrow> value_id \<Rightarrow> (ir_dtype \<times> shape_dim list) option" where
  "find_scoped_const_dense [] vid = None"
| "find_scoped_const_dense (i # is) vid =
     (case find_const_dense_instr i vid of Some r \<Rightarrow> Some r | None \<Rightarrow> find_scoped_const_dense is vid)"
| "find_const_dense_instr (ConstDenseTensor dst dtype shape _) vid = (if dst = vid then Some (dtype, shape) else None)"
| "find_const_dense_instr (IfInstr _ cond_instrs then_instrs _ else_instrs _ _ _ _) vid =
     (case find_scoped_const_dense cond_instrs vid of
        Some r \<Rightarrow> Some r
      | None \<Rightarrow>
          (case find_scoped_const_dense then_instrs vid of
             Some r \<Rightarrow> Some r
           | None \<Rightarrow> find_scoped_const_dense else_instrs vid))"
| "find_const_dense_instr (While _ cond_instrs body _ _ _) vid =
     (case find_scoped_const_dense cond_instrs vid of Some r \<Rightarrow> Some r | None \<Rightarrow> find_scoped_const_dense body vid)"
| "find_const_dense_instr (Region body _ _ _ _) vid = find_scoped_const_dense body vid"
| "find_const_dense_instr _ vid = None"

datatype aggregate_type_error =
    AggConflict array_type array_type
  | AggMalformedConstDense
  | AggRedundantEntry array_type

definition canonical_array_type_in ::
  "instr list \<Rightarrow> (value_id \<times> array_type) list \<Rightarrow> value_id \<Rightarrow> aggregate_type_error + array_type option" where
  "canonical_array_type_in is table vid =
     (let explicit = map_of table vid in
      rbind (case find_scoped_const_dense is vid of
          Some (dtype, shape) \<Rightarrow>
            (case dense_shape_len shape of
               Some n \<Rightarrow> Inr (Some \<lparr>at_elem_dtype = dtype, at_size = Fixed n\<rparr>)
             | None \<Rightarrow> Inl AggMalformedConstDense)
        | None \<Rightarrow> Inr None)
      (\<lambda>node_ty.
        case (explicit, node_ty) of
          (Some entry, Some node) \<Rightarrow> if entry = node then Inl (AggRedundantEntry entry) else Inl (AggConflict entry node)
        | (Some e, None) \<Rightarrow> Inr (Some e)
        | (None, Some c) \<Rightarrow> Inr (Some c)
        | (None, None) \<Rightarrow> Inr None))"

fun collect_scope_definitions_into :: "instr list \<Rightarrow> scope \<Rightarrow> scope"
  and collect_instr_definitions :: "instr \<Rightarrow> scope \<Rightarrow> scope" where
  "collect_scope_definitions_into [] S = S"
| "collect_scope_definitions_into (i # is) S =
     collect_scope_definitions_into is (collect_instr_definitions i (expose_region_definitions i S))"
| "collect_instr_definitions (IfInstr _ cond_instrs then_instrs _ else_instrs _ _ _ _) S =
     collect_scope_definitions_into else_instrs
       (collect_scope_definitions_into then_instrs (collect_scope_definitions_into cond_instrs S))"
| "collect_instr_definitions (While _ cond_instrs body _ _ _) S =
     collect_scope_definitions_into body (collect_scope_definitions_into cond_instrs S)"
| "collect_instr_definitions (Region body _ _ _ _) S = collect_scope_definitions_into body S"
| "collect_instr_definitions _ S = S"

definition collect_scope_definitions :: "instr list \<Rightarrow> value_id list \<Rightarrow> scope" where
  "collect_scope_definitions is params = collect_scope_definitions_into is (set params)"

text \<open>The keys of one table against the scope that owns it.\<close>

fun check_table_keys ::
  "instr list \<Rightarrow> (value_id \<times> array_type) list \<Rightarrow> scope \<Rightarrow> value_id list \<Rightarrow> 'c ir_verify_error + unit" where
  "check_table_keys is table owned [] = Inr ()"
| "check_table_keys is table owned (vid # vids) =
     (if vid \<notin> owned then Inl (TypeEntryReferencesUndefinedValue vid)
      else case canonical_array_type_in is table vid of
        Inr _ \<Rightarrow> check_table_keys is table owned vids
      | Inl (AggRedundantEntry entry) \<Rightarrow> Inl (RedundantConstDenseTypeEntry vid entry)
      | Inl (AggConflict t node) \<Rightarrow> Inl (AggregateTypeConflict vid t node)
      | Inl AggMalformedConstDense \<Rightarrow> Inl (MalformedDenseEntry vid))"

fun check_nested_fndef_tables :: "instr list \<Rightarrow> 'c ir_verify_error + unit"
  and check_fndef_table :: "instr \<Rightarrow> 'c ir_verify_error + unit" where
  "check_nested_fndef_tables [] = Inr ()"
| "check_nested_fndef_tables (i # is) = rbind (check_fndef_table i) (\<lambda>_. check_nested_fndef_tables is)"
| "check_fndef_table (FnDef _ params _ body _ _ value_types) =
     rbind (check_table_keys body value_types
       (if value_types = [] then {} else collect_scope_definitions body (map snd params)) (map fst value_types))
     (\<lambda>_. check_nested_fndef_tables body)"
| "check_fndef_table (IfInstr _ cond_instrs then_instrs _ else_instrs _ _ _ _) =
     rbind (check_nested_fndef_tables cond_instrs) (\<lambda>_.
     rbind (check_nested_fndef_tables then_instrs) (\<lambda>_. check_nested_fndef_tables else_instrs))"
| "check_fndef_table (While _ cond_instrs body _ _ _) =
     rbind (check_nested_fndef_tables cond_instrs) (\<lambda>_. check_nested_fndef_tables body)"
| "check_fndef_table (Region body _ _ _ _) = check_nested_fndef_tables body"
| "check_fndef_table _ = Inr ()"

definition check_value_types_scope ::
  "instr list \<Rightarrow> (value_id \<times> array_type) list \<Rightarrow> value_id list \<Rightarrow> 'c ir_verify_error + unit" where
  "check_value_types_scope is table params =
     rbind (check_table_keys is table
       (if table = [] then {} else collect_scope_definitions is params) (map fst table))
     (\<lambda>_. check_nested_fndef_tables is)"

lemma check_fndef_table_scope:
  "check_fndef_table (FnDef n params r body t s value_types) = check_value_types_scope body value_types (map snd params)"
  by (simp add: check_value_types_scope_def)

subsection \<open>The canonical metadata\<close>

text \<open>
  A module with its table of aggregate types, and \<open>verify_canonical_metadata\<close>: without a bundle a module is
  accepted unless an instruction, at any depth, carries metadata of its own.  What the check does with a bundle
  is its first argument, the error of the other branch its second.
\<close>

record typed_module = ir_module +
  m_value_types :: "(value_id \<times> array_type) list"

definition instr_bodies :: "instr \<Rightarrow> instr list list" where
  "instr_bodies i =
     (case i of
        FnDef _ _ _ body _ _ _ \<Rightarrow> [body]
      | While _ cond_instrs body _ _ _ \<Rightarrow> [cond_instrs, body]
      | IfInstr _ cond_instrs then_instrs _ else_instrs _ _ _ _ \<Rightarrow> [cond_instrs, then_instrs, else_instrs]
      | Region body _ _ _ _ \<Rightarrow> [body]
      | _ \<Rightarrow> [])"

lemma size_instr_bodies: "b \<in> set (instr_bodies i) \<Longrightarrow> size_list size b < size i"
  by (cases i) (auto simp: instr_bodies_def)

definition own_metadata :: "instr \<Rightarrow> bool" where
  "own_metadata i =
     (case i of
        FnDef _ _ _ _ _ semantic_types _ \<Rightarrow> semantic_types \<noteq> None
      | Call _ _ _ resolved_callee \<Rightarrow> resolved_callee \<noteq> None
      | _ \<Rightarrow> False)"

function instr_metadata :: "instr \<Rightarrow> bool" where
  "instr_metadata i \<longleftrightarrow> own_metadata i \<or> (\<exists>b \<in> set (instr_bodies i). \<exists>j \<in> set b. instr_metadata j)"
  by pat_completeness auto
termination
proof (relation "measure size")
  fix i j b assume "b \<in> set (instr_bodies i)" "j \<in> set b"
  then show "(j, i) \<in> measure size"
    using size_instr_bodies [of b i] size_list_estimation' [of j b "size j" size] by auto
qed simp

declare instr_metadata.simps [simp del]

lemma instr_metadata_cases:
  "instr_bodies i = [] \<Longrightarrow> instr_metadata i = own_metadata i"
  "instr_metadata (FnDef f params r body t semantic_types vt) \<longleftrightarrow> semantic_types \<noteq> None \<or> list_ex instr_metadata body"
  "instr_metadata (IfInstr a cond_instrs then_instrs b else_instrs c d e k) \<longleftrightarrow>
     list_ex instr_metadata cond_instrs \<or> list_ex instr_metadata then_instrs \<or> list_ex instr_metadata else_instrs"
  by (subst instr_metadata.simps; simp add: own_metadata_def instr_bodies_def list_ex_iff)+

definition instruction_metadata_present :: "instr list \<Rightarrow> bool" where
  "instruction_metadata_present is \<longleftrightarrow> (\<exists>i \<in> set is. instr_metadata i)"

lemmas metadata_defs = instruction_metadata_present_def instr_metadata_cases own_metadata_def instr_bodies_def

definition verify_canonical_metadata ::
  "('x typed_module_scheme \<Rightarrow> 'c + unit) \<Rightarrow> 'c \<Rightarrow> 'x typed_module_scheme \<Rightarrow> 'c + unit" where
  "verify_canonical_metadata with_bundle no_bundle m =
     (if canonical_types m \<noteq> None then with_bundle m
      else if instruction_metadata_present (instrs m) then Inl no_bundle
      else Inr ())"

subsection \<open>The whole check\<close>

definition verify_module ::
  "('x typed_module_scheme \<Rightarrow> 'c + unit) \<Rightarrow> 'x typed_module_scheme \<Rightarrow> 'c ir_verify_error + unit" where
  "verify_module canonical_check m =
     rbind (map_err CanonicalMetadata (canonical_check m)) (\<lambda>_.
     rbind (verify_top 0 (instrs m) {} False 0) (\<lambda>(saw_output, max_seen).
     rbind (require MissingOutputInstr (saw_output \<or> exports m \<noteq> {})) (\<lambda>_.
     rbind (require (NextIdOutOfSync (next_id m) max_seen) (max_seen \<le> next_id m)) (\<lambda>_.
     rbind (check_const_dense_wellformed (instrs m)) (\<lambda>_.
       check_value_types_scope (instrs m) (m_value_types m) [])))))"

definition prepare_ir_for_backend ::
  "('x typed_module_scheme \<Rightarrow> 'c + unit) \<Rightarrow> bool \<Rightarrow> 'x typed_module_scheme \<Rightarrow> ('c ir_verify_error + 'x typed_module_scheme) option" where
  "prepare_ir_for_backend canonical_check oc m =
     (case verify_module canonical_check m of
        Inl e \<Rightarrow> Some (Inl e)
      | Inr _ \<Rightarrow>
          (case canonicalize_module oc m of
             None \<Rightarrow> None
           | Some m' \<Rightarrow> Some (rbind (verify_module canonical_check m') (\<lambda>_. Inr m'))))"

end
