(* ===== verification/Ir_Verify_Sound.thy ===== *)
theory Ir_Verify_Sound
  imports Ir_Verify Ir_Sound
begin

text \<open>
  What the two verifiers of \<^verbatim>\<open>src/ir/verify.rs\<close> promise: the consumer's walk against the order of
  definitions and uses in program order, the agreement of the two walks, and what \<open>verify_module\<close> gives
  the canonicalisation and the hand-over to a backend.
\<close>

subsection \<open>Program order\<close>

datatype event = Use value_id | Def value_id

fun stream_events :: "instr list \<Rightarrow> event list"
  and nested_events :: "instr \<Rightarrow> event list" where
  "stream_events [] = []"
| "stream_events (i # is) =
     map Use (if is_if i then [] else instruction_operands i) @ nested_events i @ map Def (exposed_ids i) @ stream_events is"
| "nested_events (While cond_id cond_instrs body live_vars _ _) =
     stream_events cond_instrs @ stream_events body @ Use cond_id # map (Use \<circ> snd) live_vars"
| "nested_events (IfInstr cond_id cond_instrs then_instrs then_result else_instrs else_result _ _ merges) =
     stream_events cond_instrs @ Use cond_id # stream_events then_instrs @ Use then_result #
     stream_events else_instrs @ Use else_result #
     (if branch_falls_through then_instrs then map (\<lambda>(_, t, _). Use t) merges else []) @
     (if branch_falls_through else_instrs then map (\<lambda>(_, _, e). Use e) merges else [])"
| "nested_events (Region body result _ _ _) = stream_events body @ [Use result]"
| "nested_events _ = []"

fun defined_before_use :: "scope \<Rightarrow> event list \<Rightarrow> bool" where
  "defined_before_use D [] = True"
| "defined_before_use D (Use v # es) = (v \<in> D \<and> defined_before_use D es)"
| "defined_before_use D (Def v # es) = defined_before_use (insert v D) es"

definition event_defs :: "event list \<Rightarrow> scope" where
  "event_defs es = {v. Def v \<in> set es}"

text \<open>The bodies of the functions a stream declares, at every depth, with the parameters.\<close>

fun function_bodies :: "instr list \<Rightarrow> (scope \<times> instr list) list"
  and nested_bodies :: "instr \<Rightarrow> (scope \<times> instr list) list" where
  "function_bodies [] = []"
| "function_bodies (i # is) = nested_bodies i @ function_bodies is"
| "nested_bodies (FnDef _ params _ body _ _ _) = (set (map snd params), body) # function_bodies body"
| "nested_bodies (While _ cond_instrs body _ _ _) = function_bodies cond_instrs @ function_bodies body"
| "nested_bodies (IfInstr _ cond_instrs then_instrs _ else_instrs _ _ _ _) =
     function_bodies cond_instrs @ function_bodies then_instrs @ function_bodies else_instrs"
| "nested_bodies (Region body _ _ _ _) = function_bodies body"
| "nested_bodies _ = []"

lemma event_defs_simps [simp]:
  "event_defs [] = {}" "event_defs (Use v # es) = event_defs es" "event_defs (Def v # es) = insert v (event_defs es)"
  "event_defs (es @ fs) = event_defs es \<union> event_defs fs" "event_defs (map Def vs) = set vs" "event_defs (map Use vs) = {}"
  by (auto simp: event_defs_def)

lemma defined_before_use_append [simp]:
  "defined_before_use D (es @ fs) \<longleftrightarrow> defined_before_use D es \<and> defined_before_use (D \<union> event_defs es) fs"
  by (induction D es rule: defined_before_use.induct) auto

lemma defined_before_use_map [simp]:
  "defined_before_use D (map Def vs)" "defined_before_use D (map Use vs) \<longleftrightarrow> set vs \<subseteq> D"
  by (induction vs arbitrary: D) auto

lemma defined_before_use_mono: "defined_before_use D es \<Longrightarrow> D \<subseteq> D' \<Longrightarrow> defined_before_use D' es"
proof (induction D es arbitrary: D' rule: defined_before_use.induct)
  case (3 D v es)
  then show ?case using 3(1) [of "insert v D'"] by auto
qed auto

lemma require_ok [simp]: "require e b = Inr u \<longleftrightarrow> b"
  by (cases u) (simp add: require_def)

lemma find_None_subset: "find (\<lambda>v. v \<notin> D) vs = None \<longleftrightarrow> set vs \<subseteq> D"
  by (auto simp: find_None_iff)

lemma check_operands_ok: "check_operands i D = Inr u \<longleftrightarrow> is_if i \<or> set (instruction_operands i) \<subseteq> D"
  by (cases u) (auto simp: check_operands_def undefined_operand_def split: option.splits dest: find_None_iff[THEN iffD1] simp: find_None_subset [symmetric])

lemma define_result_ok:
  "define_result i D = Inr S \<longleftrightarrow> S = D \<and> is_region i \<or>
     S = D \<union> set (exposed_ids i) \<and> \<not> is_region i \<and> (is_param i \<or> set (exposed_ids i) \<inter> D = {})"
  by (cases i) (auto simp: define_result_def is_region_def exposed_ids_def is_param_def split: if_splits)

lemma while_backedges_ok:
  "validate_while_backedges cond_instrs body live_vars D = Inr u \<Longrightarrow>
   snd ` set live_vars \<subseteq> D \<union> event_defs (stream_events cond_instrs) \<union> event_defs (stream_events body)"
proof -
  have ex: "fold expose_region_definitions is S \<subseteq> S \<union> event_defs (stream_events is)" for "is" S
    by (induction "is" arbitrary: S) (force simp: expose_region_definitions_def)+
  assume "validate_while_backedges cond_instrs body live_vars D = Inr u"
  then have "snd ` set live_vars \<subseteq> fold expose_region_definitions body (fold expose_region_definitions cond_instrs D)"
    by (auto simp: Let_def find_None_iff split: option.splits prod.splits)
  with ex [of body "fold expose_region_definitions cond_instrs D"] ex [of cond_instrs D] show ?thesis by blast
qed

lemma if_merges_ok:
  "validate_merges_loop a b T E ms = Inr u \<longleftrightarrow>
   (\<forall>(m, t, e) \<in> set ms. (a \<longrightarrow> t \<in> T) \<and> (b \<longrightarrow> e \<in> E))"
  by (cases u) (induction a b T E ms rule: validate_merges_loop.induct; auto)

lemma seed_params_ok: "seed_params ps S = Inr T \<Longrightarrow> T = S \<union> set (map snd ps)"
  by (induction ps S rule: seed_params.induct) (auto split: if_splits)

definition bodies_ok :: "(scope \<times> instr list) list \<Rightarrow> bool" where
  "bodies_ok bs \<longleftrightarrow> (\<forall>(ps, b) \<in> set bs. defined_before_use ps (stream_events b))"

lemma bodies_ok_simps [simp]:
  "bodies_ok []" "bodies_ok ((ps, b) # bs) \<longleftrightarrow> defined_before_use ps (stream_events b) \<and> bodies_ok bs"
  "bodies_ok (bs @ cs) \<longleftrightarrow> bodies_ok bs \<and> bodies_ok cs"
  by (auto simp: bodies_ok_def)

lemma nested_straight: "\<not> is_region i \<Longrightarrow> nested_events i = [] \<and> nested_bodies i = [] \<and> check_ssa_nested i D = Inr D"
  by (cases i) (simp_all add: is_region_def)

lemma is_if_region: "is_if i \<Longrightarrow> is_region i"
  by (cases i) (simp_all add: is_if_def is_region_def)

lemma check_ssa_walk:
  "check_ssa_stream is D = Inr S \<Longrightarrow>
     defined_before_use D (stream_events is) \<and> S = D \<union> event_defs (stream_events is) \<and> bodies_ok (function_bodies is)"
  "check_ssa_nested i D = Inr S \<Longrightarrow>
     defined_before_use D (nested_events i) \<and> S = D \<union> event_defs (nested_events i) \<and> bodies_ok (nested_bodies i)"
proof (induction "is" D and i D arbitrary: S and S rule: check_ssa_stream_check_ssa_nested.induct)
  case (2 i "is" D)
  obtain D1 D2 where ops: "is_if i \<or> set (instruction_operands i) \<subseteq> D" and d: "define_result i D = Inr D1"
    and n: "check_ssa_nested i D1 = Inr D2"
    and rest: "check_ssa_stream is (if is_region i then expose_region_definitions i D2 else D2) = Inr S"
    using 2(3) by (auto simp: rbind_eq_Inr check_operands_ok)
  have IH1: "defined_before_use D1 (nested_events i)" "D2 = D1 \<union> event_defs (nested_events i)" "bodies_ok (nested_bodies i)"
    using 2(1) [OF n] ops d by (auto simp: check_operands_ok)
  have IH2: "defined_before_use D' (stream_events is)" "S = D' \<union> event_defs (stream_events is)" "bodies_ok (function_bodies is)"
    if "D' = D \<union> event_defs (nested_events i) \<union> set (exposed_ids i)" for D'
    using 2(2) [OF rest] ops d IH1(2) that nested_straight [of i]
    by (auto simp: check_operands_ok define_result_ok expose_region_definitions_def Un_ac split: if_splits)
  show ?case
    using ops IH1 IH2 [OF refl] d nested_straight [of i] is_if_region [of i]
    by (auto simp: define_result_ok Un_ac)
next
  case (3 n ps r body t st vt D)
  then show ?case by (fastforce simp: rbind_eq_Inr dest!: seed_params_ok)
next
  case (4 c ci b lv ii ei D)
  obtain D1 D2 where w: "check_ssa_stream ci D = Inr D1" "check_ssa_stream b D1 = Inr D2" "c \<in> D2"
    "validate_while_backedges ci b lv D = Inr ()" "S = D2"
    using 4(3) by (auto simp: rbind_eq_Inr simp del: validate_while_backedges.simps)
  with 4(1) [OF w(1)] 4(2) [OF w(2)] while_backedges_ok [OF w(4)] show ?case
    by (auto simp: Un_ac simp del: validate_while_backedges.simps simp flip: map_map)
next
  case (5 c ci th tr el er d bb ms D)
  obtain D1 T E where w: "check_ssa_stream ci D = Inr D1" "c \<in> D1" "check_ssa_stream th D1 = Inr T" "tr \<in> T"
    "check_ssa_stream el D1 = Inr E" "er \<in> E" "validate_if_merges T E th el ms = Inr ()" "S = D1 \<union> T \<union> E"
    using 5(4) by (auto simp: rbind_eq_Inr)
  note IH = 5(1) [OF w(1)] 5(2) [OF w(3)] 5(3) [OF w(5)]
  have els: "defined_before_use (D1 \<union> X) (stream_events el)" for X
    using IH(3) defined_before_use_mono by blast
  have ms: "\<forall>(m, t, e) \<in> set ms. (branch_falls_through th \<longrightarrow> t \<in> T) \<and> (branch_falls_through el \<longrightarrow> e \<in> E)"
    using w(7) by (simp add: validate_if_merges_def if_merges_ok)
  have map_Use: "map (\<lambda>(_, t, _). Use t) ms = map Use (map (\<lambda>(_, t, _). t) ms)"
    "map (\<lambda>(_, _, e). Use e) ms = map Use (map (\<lambda>(_, _, e). e) ms)" by auto
  let ?C = "event_defs (stream_events ci)" and ?T = "event_defs (stream_events th)" and ?E = "event_defs (stream_events el)"
  have eqs: "D1 = D \<union> ?C" "T = D \<union> ?C \<union> ?T" "E = D \<union> ?C \<union> ?E" using IH by auto
  have t_ms: "set (map (\<lambda>(_, t, _). t) ms) \<subseteq> T" if "branch_falls_through th" using ms that by auto
  have e_ms: "set (map (\<lambda>(_, _, e). e) ms) \<subseteq> E" if "branch_falls_through el" using ms that by auto
  have body: "defined_before_use D (stream_events ci)" "defined_before_use D1 (stream_events th)"
    "defined_before_use (D1 \<union> ?T) (stream_events el)" "c \<in> D1" "tr \<in> T" "er \<in> E"
    using IH els w by auto
  have ev: "event_defs (nested_events (IfInstr c ci th tr el er d bb ms)) = ?C \<union> ?T \<union> ?E"
    unfolding nested_events.simps map_Use by (auto simp del: map_map)
  have "defined_before_use D (nested_events (IfInstr c ci th tr el er d bb ms))"
    using body t_ms e_ms unfolding nested_events.simps map_Use eqs by (simp add: Un_ac del: map_map) blast
  moreover have "S = D \<union> (?C \<union> ?T \<union> ?E)" using w(8) eqs by auto
  moreover have "bodies_ok (nested_bodies (IfInstr c ci th tr el er d bb ms))" using IH by simp
  ultimately show ?case unfolding ev by blast
next
  case (6 b r x y z D)
  then show ?case by (auto simp: rbind_eq_Inr)
qed auto

text \<open>The consumer's promise: in program order, in the module and in every function it declares.\<close>

lemma check_ssa_sound:
  assumes "check_ssa_well_formed m = Inr ()"
  shows "defined_before_use {} (stream_events (instrs m))"
    "(ps, b) \<in> set (function_bodies (instrs m)) \<Longrightarrow> defined_before_use ps (stream_events b)"
proof -
  obtain S where "check_ssa_stream (instrs m) {} = Inr S"
    using assms by (auto simp: check_ssa_well_formed_def rbind_eq_Inr)
  from check_ssa_walk(1) [OF this]
  show "defined_before_use {} (stream_events (instrs m))"
    "(ps, b) \<in> set (function_bodies (instrs m)) \<Longrightarrow> defined_before_use ps (stream_events b)"
    by (auto simp: bodies_ok_def)
qed

subsection \<open>The two walks agree\<close>

fun fn_free :: "instr list \<Rightarrow> bool"
  and fn_free_nested :: "instr \<Rightarrow> bool" where
  "fn_free [] = True"
| "fn_free (i # is) = (fn_free_nested i \<and> fn_free is)"
| "fn_free_nested (FnDef _ _ _ _ _ _ _) = False"
| "fn_free_nested (While _ cond_instrs body _ _ _) = (fn_free cond_instrs \<and> fn_free body)"
| "fn_free_nested (IfInstr _ cond_instrs then_instrs _ else_instrs _ _ _ _) =
     (fn_free cond_instrs \<and> fn_free then_instrs \<and> fn_free else_instrs)"
| "fn_free_nested (Region body _ _ _ _) = fn_free body"
| "fn_free_nested _ = True"

text \<open>The rule an error of the pipeline's walk violates.\<close>

fun as_violation :: "'c ir_verify_error \<Rightarrow> ssa_violation option" where
  "as_violation (DuplicateDefinition v) = Some (violation SingleAssignment v)"
| "as_violation (UseBeforeDefinition v _) = Some (violation DefineBeforeUse v)"
| "as_violation _ = None"

lemma map_err_rbind: "map_err g (rbind m f) = rbind (map_err g m) (\<lambda>x. map_err g (f x))"
  by (cases m) simp_all

lemma map_err_map_err: "map_err g (map_err h m) = map_err (g \<circ> h) m"
  by (cases m) simp_all

lemma map_err_require: "map_err g (require e b) = require (g e) b"
  by (simp add: require_def)

lemma rbind_cong_fun: "m = m' \<Longrightarrow> (\<And>x. f x = f' x) \<Longrightarrow> rbind m f = rbind m' f'"
  by (simp add: rbind_def split: sum.split)

lemma walks_agree:
  "fn_free is \<Longrightarrow> map_err as_violation (validate_ssa_stream idx is D :: 'c ir_verify_error + scope) = map_err Some (check_ssa_stream is D)"
  "fn_free_nested i \<Longrightarrow> map_err as_violation (validate_ssa_nested idx i D :: 'c ir_verify_error + scope) = map_err Some (check_ssa_nested i D)"
proof (induction "is" D and i D arbitrary: idx and idx rule: check_ssa_stream_check_ssa_nested.induct)
  case (2 i "is" D)
  have ops: "map_err as_violation (if is_if i then Inr () else validate_use idx i D :: 'c ir_verify_error + unit) = map_err Some (check_operands i D)"
    by (auto simp: validate_use_def check_operands_def split: option.split)
  have "fn_free_nested i" "fn_free is" using 2(3) by simp_all
  then have "map_err as_violation (validate_ssa_nested idx i D1 :: 'c ir_verify_error + scope) = map_err Some (check_ssa_nested i D1)"
    "map_err as_violation (validate_ssa_stream (idx + 1) is (if is_region i then expose_region_definitions i D2 else D2)
       :: 'c ir_verify_error + scope) =
     map_err Some (check_ssa_stream is (if is_region i then expose_region_definitions i D2 else D2))" for D1 D2
    using 2(1,2) by blast+
  then show ?case
    unfolding validate_ssa_stream.simps check_ssa_stream.simps map_err_rbind map_err_map_err ops
    by (simp add: comp_def cong: rbind_cong_fun)
qed (auto simp: map_err_rbind map_err_map_err map_err_require comp_def simp del: validate_while_backedges.simps
    intro!: rbind_cong_fun)

subsection \<open>Straight-line modules\<close>

definition flat_instr :: "instr \<Rightarrow> bool" where
  "flat_instr i =
     (case i of While _ _ _ _ _ _ \<Rightarrow> False | IfInstr _ _ _ _ _ _ _ _ _ \<Rightarrow> False | Region _ _ _ _ _ \<Rightarrow> False | _ \<Rightarrow> True)"

definition is_output :: "instr \<Rightarrow> bool" where
  "is_output i = (case i of Output _ \<Rightarrow> True | _ \<Rightarrow> False)"

text \<open>Every read is in scope, every definition is new.\<close>

fun flat_stream :: "scope \<Rightarrow> instr list \<Rightarrow> bool" where
  "flat_stream D [] = True"
| "flat_stream D (i # is) =
     (set (instruction_operands i) \<subseteq> D \<and> (\<forall>d. instruction_dst i = Some d \<longrightarrow> d \<notin> D) \<and>
      flat_stream (D \<union> set_option (instruction_dst i)) is)"

definition sane_instr :: "instr \<Rightarrow> bool" where
  "sane_instr i =
     (case i of
        SumOp _ _ axes _ \<Rightarrow> \<forall>a \<in> set axes. 0 \<le> sint a
      | MeanOp _ _ axes _ \<Rightarrow> \<forall>a \<in> set axes. 0 \<le> sint a
      | Conv2d _ _ _ sh sw _ \<Rightarrow> sh \<noteq> 0 \<and> sw \<noteq> 0
      | Conv2dGradInput _ _ _ _ sh sw _ \<Rightarrow> sh \<noteq> 0 \<and> sw \<noteq> 0
      | Conv2dGradFilter _ _ _ _ sh sw _ \<Rightarrow> sh \<noteq> 0 \<and> sw \<noteq> 0
      | Gather _ _ _ axis \<Rightarrow> 0 \<le> sint axis
      | _ \<Rightarrow> True)"

lemma operand_sanity_ok: "operand_sanity idx i = Inr u \<longleftrightarrow> sane_instr i"
  by (cases u; cases i) (auto simp: operand_sanity_def sane_instr_def list_ex_iff linorder_not_less)

lemma validate_use_ok: "validate_use idx i D = Inr u \<longleftrightarrow> set (instruction_operands i) \<subseteq> D"
  by (cases u) (auto simp: validate_use_def undefined_operand_def find_None_subset [symmetric] split: option.split)

lemma validate_operands_flat:
  assumes "flat_instr i"
  shows "validate_operands idx i D = (Inr u :: 'c ir_verify_error + unit) \<longleftrightarrow>
    set (instruction_operands i) \<subseteq> D \<and> sane_instr i \<and> (\<exists>S. validate_ssa_nested 0 i {} = (Inr S :: 'c ir_verify_error + scope))"
  using assms
  by (cases u; cases i)
    (auto simp: flat_instr_def validate_operands_def rbind_eq_Inr validate_use_ok operand_sanity_ok is_if_def is_region_def
      define_result_def sane_instr_def)

lemma define_all_flat:
  "flat_instr i \<Longrightarrow> define_all (top_level_ids i) D = (Inr S :: 'c ir_verify_error + scope) \<longleftrightarrow>
    (\<forall>d. instruction_dst i = Some d \<longrightarrow> d \<notin> D) \<and> S = D \<union> set_option (instruction_dst i)"
  by (cases i) (auto simp: flat_instr_def top_level_ids_def split: option.splits if_splits)

lemma verify_top_flat:
  assumes "\<forall>i \<in> set is. flat_instr i"
  shows "verify_top idx is D saw mx = (Inr r :: 'c ir_verify_error + bool \<times> usize) \<longleftrightarrow>
    flat_stream D is \<and>
    (\<forall>i \<in> set is. sane_instr i \<and> (\<exists>S. validate_ssa_nested 0 i {} = (Inr S :: 'c ir_verify_error + scope))) \<and>
    r = (saw \<or> list_ex is_output is, fold max (map instruction_id_bound is) mx)"
  using assms
proof (induction "is" arbitrary: idx D saw mx)
  case (Cons i "is")
  have fi: "flat_instr i" and fs: "\<forall>i \<in> set is. flat_instr i" using Cons.prems by auto
  show ?case
    unfolding verify_top.simps rbind_eq_Inr validate_operands_flat [OF fi] define_all_flat [OF fi]
    using Cons.IH [OF fs] by (auto simp: is_output_def max.commute)
qed auto

lemma flat_stream_distinct:
  "flat_stream D is \<Longrightarrow> def_before_use is \<and> distinct_defs is \<and> defs is \<inter> D = {}"
proof (induction "is" arbitrary: D)
  case (Cons i "is")
  let ?D = "D \<union> set_option (instruction_dst i)"
  have IH: "def_before_use is" "distinct_defs is" "defs is \<inter> ?D = {}" using Cons by auto
  have "defs (i # is) \<inter> D = {}" using IH(3) Cons.prems by (auto split: option.splits)
  then show ?case using IH Cons.prems by (auto simp del: defs_simps(2))
qed auto

lemma flat_stream_filter:
  assumes "flat_stream D is" "\<forall>i \<in> set is. kept L i \<longrightarrow> set (instruction_operands i) \<subseteq> L"
  shows "flat_stream (D \<inter> L) (filter (kept L) is)"
  using assms
proof (induction "is" arbitrary: D)
  case (Cons i "is")
  have IH: "flat_stream ((D \<union> set_option (instruction_dst i)) \<inter> L) (filter (kept L) is)" using Cons by simp
  show ?case
  proof (cases "kept L i")
    case True
    then have "(D \<union> set_option (instruction_dst i)) \<inter> L = D \<inter> L \<union> set_option (instruction_dst i)"
      by (auto simp: kept_def)
    with True IH Cons.prems show ?thesis by auto
  next
    case False
    then have "(D \<union> set_option (instruction_dst i)) \<inter> L = D \<inter> L" by (auto simp: kept_def)
    with False IH show ?thesis by simp
  qed
qed simp

lemma flat_stream_live: "flat_stream {} is \<Longrightarrow> flat_stream {} (filter (kept (live is)) is)"
  using flat_stream_filter [of "{}" "is" "live is"] flat_stream_distinct [of "{}" "is"] operands_live by force

lemma flat_stream_refines: "list_all2 refines_instr is js \<Longrightarrow> flat_stream D is \<Longrightarrow> flat_stream D js"
  by (induction arbitrary: D rule: list_all2_induct) (auto simp: refinesD(1) dest: refinesD(2))

text \<open>What the rewriting passes do to an instruction.\<close>

definition rewritten :: "instr \<Rightarrow> instr \<Rightarrow> bool" where
  "rewritten i j \<longleftrightarrow> j = i \<or> (\<exists>d op l r. i = BinOp d op l r \<and> (j = BinOp d op r l \<or> (\<exists>v. j = ConstI64 d v)))"

lemma rewritten_reorder: "rewritten i (reorder_instr i)"
  by (cases "\<exists>d op l r. i = BinOp d op l r") (auto simp: rewritten_def reorder_BinOp reorder_other)

lemma rewritten_fold: "fold_instr oc c i = Some (j, c') \<Longrightarrow> rewritten i j"
proof (cases "\<exists>d op l r. i = BinOp d op l r")
  case True
  moreover assume "fold_instr oc c i = Some (j, c')"
  ultimately show ?thesis
    by (auto simp: fold_instr_BinOp rewritten_def split: option.splits fold_outcome.splits)
next
  case False
  assume "fold_instr oc c i = Some (j, c')"
  with False show ?thesis
    by (cases "\<exists>d v. i = ConstI64 d v") (auto simp: fold_instr_ConstI64 fold_instr_other rewritten_def)
qed

lemma rewritten_fold_loop: "constant_fold_loop oc c is = Some js \<Longrightarrow> list_all2 rewritten is js"
  by (induction "is" arbitrary: c js) (auto split: bind_splits dest: rewritten_fold)

text \<open>The checks of one instruction on its own: operands, dense constants, nested functions and tables.\<close>

lemma check_lists_each:
  "check_const_dense_wellformed is = (Inr () :: 'c ir_verify_error + unit) \<longleftrightarrow>
    (\<forall>i \<in> set is. check_const_dense_instr i = (Inr () :: 'c ir_verify_error + unit))"
  "check_nested_fndef_tables is = (Inr () :: 'c ir_verify_error + unit) \<longleftrightarrow>
    (\<forall>i \<in> set is. check_fndef_table i = (Inr () :: 'c ir_verify_error + unit))"
  by (induction "is"; simp add: rbind_eq_Inr)+

lemma check_value_types_empty: "check_value_types_scope is [] ps = check_nested_fndef_tables is"
  by (simp add: check_value_types_scope_def)

lemma rewritten_keeps:
  assumes "rewritten i j"
  shows "flat_instr i \<Longrightarrow> flat_instr j" "sane_instr i \<Longrightarrow> sane_instr j" "is_output j \<longleftrightarrow> is_output i"
    "\<exists>S. validate_ssa_nested 0 i {} = (Inr S :: 'c ir_verify_error + scope) \<Longrightarrow>
      \<exists>S. validate_ssa_nested 0 j {} = (Inr S :: 'c ir_verify_error + scope)"
    "check_const_dense_instr i = (Inr () :: 'c ir_verify_error + unit) \<Longrightarrow>
      check_const_dense_instr j = (Inr () :: 'c ir_verify_error + unit)"
    "check_fndef_table i = (Inr () :: 'c ir_verify_error + unit) \<Longrightarrow>
      check_fndef_table j = (Inr () :: 'c ir_verify_error + unit)"
  using assms by (auto simp: rewritten_def flat_instr_def sane_instr_def is_output_def)

lemma verify_module_flat:
  assumes "\<forall>i \<in> set (instrs m). flat_instr i"
  shows "verify_module chk m = (Inr () :: 'c ir_verify_error + unit) \<longleftrightarrow>
    chk m = Inr () \<and> flat_stream {} (instrs m) \<and>
    (\<forall>i \<in> set (instrs m). sane_instr i \<and> (\<exists>S. validate_ssa_nested 0 i {} = (Inr S :: 'c ir_verify_error + scope))) \<and>
    (list_ex is_output (instrs m) \<or> exports m \<noteq> {}) \<and> next_sequential_id m \<le> next_id m \<and>
    check_const_dense_wellformed (instrs m) = (Inr () :: 'c ir_verify_error + unit) \<and>
    check_value_types_scope (instrs m) (m_value_types m) [] = (Inr () :: 'c ir_verify_error + unit)"
  by (auto simp: verify_module_def rbind_eq_Inr verify_top_flat [OF assms] next_sequential_id_def)

lemma verified_ssa_stream:
  assumes "verify_module chk m = Inr ()" "\<forall>i \<in> set (instrs m). flat_instr i"
  shows "ssa_stream (next_id m) (instrs m)" "flat_stream {} (instrs m)"
proof -
  have f: "flat_stream {} (instrs m)" and b: "next_sequential_id m \<le> next_id m"
    using assms by (auto simp: verify_module_flat)
  have "v < next_id m" if "i \<in> set (instrs m)" "v \<in> set (instruction_operands i)" for i v
    using next_sequential_bound [OF that(1), of v] that(2) b by (auto simp: stream_ids_def)
  with flat_stream_distinct [OF f] show "ssa_stream (next_id m) (instrs m)"
    by (auto simp: ssa_stream_def operands_below_def)
  show "flat_stream {} (instrs m)" by (rule f)
qed

lemma list_all2_each:
  assumes "list_all2 R is js" "j \<in> set js"
  obtains i where "i \<in> set is" "R i j"
  using assms by (metis in_set_conv_nth list_all2_conv_all_nth)

lemma rewritten_ex: "list_all2 rewritten is js \<Longrightarrow> list_ex is_output js = list_ex is_output is"
  by (induction rule: list_all2_induct) (auto simp: rewritten_keeps(3))

lemma kept_output: "list_ex is_output (filter (kept L) is) = list_ex is_output is"
proof -
  have "is_output i \<Longrightarrow> kept L i" for i by (cases i) (auto simp: is_output_def kept_def)
  then show ?thesis by (auto simp: list_ex_iff)
qed

text \<open>The stream canonicalisation leaves, and what every instruction of it comes from.\<close>

lemma canonicalize_flat:
  assumes m: "ssa_stream (next_id m) (instrs m)" "flat_stream {} (instrs m)"
    and c: "canonicalize_module oc m = Some m'" and reap: "\<not> module_has_reap_threshold m" "\<not> has_populated_canonical m"
  shows "flat_stream {} (instrs m')" "list_ex is_output (instrs m') = list_ex is_output (instrs m)"
    "j \<in> set (instrs m') \<Longrightarrow> \<exists>i k. i \<in> set (instrs m) \<and> rewritten i k \<and> rewritten k j"
    "next_id m' = next_sequential_id m'" "exports m' = exports m" "ir_module.more m' = ir_module.more m"
proof -
  let ?n = "next_id m" and ?is = "instrs m"
  define is1 where "is1 = filter (kept (live ?is)) ?is"
  define is2 where "is2 = reorder_commutative_ops is1"
  have "after_experts m = m" using reap by (simp add: after_experts_def)
  moreover have "prune_dead ?is ?n = is1" unfolding is1_def using m(1) by (intro prune_dead_live) (simp add: ssa_stream_def)
  ultimately obtain is3 where is3: "constant_fold oc is2 ?n = Some is3"
    and m': "m' = (let m' = m\<lparr>instrs := prune_dead is3 ?n\<rparr> in m'\<lparr>next_id := next_sequential_id m'\<rparr>)"
    using c reap unfolding canonicalize_module_eq is2_def by auto
  have r12: "list_all2 rewritten is1 is2"
    by (simp add: is2_def reorder_commutative_ops_def list_all2_conv_all_nth rewritten_reorder)
  have r23: "list_all2 rewritten is2 is3" using is3 rewritten_fold_loop by (simp add: constant_fold_def)
  have ssa3: "ssa_stream ?n is3" using rewritten_stream [OF m(1), of oc is3] is3 unfolding is2_def is1_def by simp
  have f1: "flat_stream {} is1" unfolding is1_def by (rule flat_stream_live [OF m(2)])
  have "list_all2 refines_instr is1 is2"
    by (simp add: is2_def reorder_commutative_ops_def list_all2_conv_all_nth refines_reorder)
  then have "flat_stream {} is2" using f1 by (rule flat_stream_refines)
  then have f3: "flat_stream {} is3"
    using is3 flat_stream_refines [OF refines_fold_loop] by (simp add: constant_fold_def)
  have is4: "instrs m' = filter (kept (live is3)) is3"
    using m' ssa3 prune_dead_live [of ?n is3] by (simp add: Let_def ssa_stream_def)
  show "flat_stream {} (instrs m')" unfolding is4 by (rule flat_stream_live [OF f3])
  show "list_ex is_output (instrs m') = list_ex is_output (instrs m)"
    unfolding is4 kept_output rewritten_ex [OF r23] rewritten_ex [OF r12] by (simp add: is1_def kept_output)
  show "\<exists>i k. i \<in> set (instrs m) \<and> rewritten i k \<and> rewritten k j" if "j \<in> set (instrs m')"
  proof -
    have "j \<in> set is3" using that is4 by simp
    then obtain k where k: "k \<in> set is2" "rewritten k j" by (rule list_all2_each [OF r23])
    from list_all2_each [OF r12 k(1)] obtain i where "i \<in> set is1" "rewritten i k" by blast
    with k show ?thesis by (auto simp: is1_def)
  qed
  show "next_id m' = next_sequential_id m'" "exports m' = exports m" "ir_module.more m' = ir_module.more m"
    using m' by (simp_all add: Let_def next_sequential_id_def)
qed

lemma verify_canonicalized:
  fixes chk :: "'x typed_module_scheme \<Rightarrow> 'c + unit"
  assumes v: "verify_module chk m = Inr ()" and flat: "\<forall>i \<in> set (instrs m). flat_instr i"
    and reap: "\<not> module_has_reap_threshold m" and tab: "m_value_types m = []"
    and c: "canonicalize_module oc m = Some m'"
  shows "verify_module chk m' = map_err CanonicalMetadata (chk m')"
proof (cases "has_populated_canonical m")
  case True
  with c have "m' = m" by (simp add: canonicalize_module_eq)
  with v show ?thesis by (cases "chk m") (auto simp: verify_module_def)
next
  case False
  note cf = canonicalize_flat [OF verified_ssa_stream [OF v flat] c reap False]
  have "ir_module.more m' = ir_module.more m" using cf(6) .
  then have tab': "m_value_types m' = []" using tab by (cases m; cases m') simp
  have old: "i \<in> set (instrs m) \<Longrightarrow>
      flat_instr i \<and> sane_instr i \<and> (\<exists>S. validate_ssa_nested 0 i {} = (Inr S :: 'c ir_verify_error + scope)) \<and>
      check_const_dense_instr i = (Inr () :: 'c ir_verify_error + unit) \<and>
      check_fndef_table i = (Inr () :: 'c ir_verify_error + unit)" for i
    using v [unfolded verify_module_flat [OF flat] check_lists_each check_value_types_empty tab] flat by blast
  have new: "flat_instr j \<and> sane_instr j \<and> (\<exists>S. validate_ssa_nested 0 j {} = (Inr S :: 'c ir_verify_error + scope)) \<and>
      check_const_dense_instr j = (Inr () :: 'c ir_verify_error + unit) \<and>
      check_fndef_table j = (Inr () :: 'c ir_verify_error + unit)" if "j \<in> set (instrs m')" for j
  proof -
    obtain i k where ik: "i \<in> set (instrs m)" "rewritten i k" "rewritten k j" using cf(3) [OF \<open>j \<in> set (instrs m')\<close>] by blast
    note keep = rewritten_keeps [OF ik(2)] rewritten_keeps [OF ik(3)]
    show ?thesis using old [OF ik(1)] keep by blast
  qed
  have flat': "\<forall>i \<in> set (instrs m'). flat_instr i" using new by blast
  have "list_ex is_output (instrs m') \<or> exports m' \<noteq> {}"
    using v cf(2,5) unfolding verify_module_flat [OF flat] by simp
  then have iff: "verify_module chk m' = Inr () \<longleftrightarrow> chk m' = Inr ()"
    unfolding verify_module_flat [OF flat'] check_lists_each check_value_types_empty tab' using cf(1,4) new by auto
  show ?thesis
  proof (cases "chk m'")
    case (Inl e)
    then show ?thesis by (simp add: verify_module_def)
  next
    case (Inr u)
    with iff show ?thesis by simp
  qed
qed

text \<open>The hand-over of a verified straight-line module: it keeps its value and can only fail on its metadata.\<close>

lemma prepare_verified:
  fixes chk :: "'x typed_module_scheme \<Rightarrow> 'c + unit"
  assumes "verify_module chk m = Inr ()" "\<forall>i \<in> set (instrs m). flat_instr i" "\<not> module_has_reap_threshold m"
    "m_value_types m = []" "canonicalize_module oc m = Some m'"
  shows "prepare_ir_for_backend chk oc m = Some (rbind (map_err CanonicalMetadata (chk m')) (\<lambda>_. Inr m'))"
  using verify_canonicalized [OF assms] assms(1,5) by (simp add: prepare_ir_for_backend_def)

end
