(* ===== verification/Stmt_Ast.thy ===== *)
theory Stmt_Ast
  imports Tensor_Eval
begin

text \<open>
  The scalar and statement nodes of \<^verbatim>\<open>src/ast/mod.rs\<close>, and how \<^verbatim>\<open>src/eval/mod.rs\<close> runs them on integers:
  \<open>eval_value_expr_mode\<close> on expressions, \<open>exec_threaded_stmt\<close> and \<open>exec_block_scoped\<close> on statements.
  Every other kind of node or type annotation is the type parameter.  An environment holds the integer
  variables; what the interpreter does with other values, with names it does not find there, with other nodes
  and with the other statements that write the environment is an argument (\<open>int_ctx\<close>).
\<close>

subsection \<open>Nodes\<close>

datatype logical_op = LogicalAnd | LogicalOr

datatype bit_op = BitOr | BitAnd | BitXor | BitShl | BitShr

datatype 'x type_ann =
    AnnScalarI64
  | AnnOther 'x

record attribute =
  attr_name :: string
  attr_args :: "string list"
  attr_span :: ast_span

text \<open>\<open>FnDefData\<close> as a constructor; the fields no modelled pass reads are its last argument.\<close>

datatype 'x snode =
    SLit literal ast_span
  | SBinary ast_binop "'x snode" "'x snode" ast_span
  | SParen "'x snode" ast_span
  | SNeg "'x snode" ast_span
  | SBitwise bit_op "'x snode" "'x snode" ast_span
  | SLogical logical_op "'x snode" "'x snode" ast_span
  | SCall string "'x snode list" ast_span
  | SLet string bool "'x type_ann option" "'x snode" ast_span
  | SAssign string "'x snode" ast_span
  | SReturn "'x snode option" ast_span
  | SBlock "'x snode list" ast_span
  | SIf "'x snode" "'x snode list" "'x snode list option" ast_span
  | SFor string "'x snode" "'x snode" "'x snode list" "attribute list" ast_span
  | SForEach string "'x snode" "'x snode list" ast_span
  | SWhile "'x snode" "'x snode list" ast_span
  | SRegion "'x snode list" ast_span
  | SFnDef "'x fn_def_data" ast_span
  | SOther 'x ast_span
and 'x fn_def_data = FnDefData (fd_name: string) (fd_params: "string list") (fd_body: "'x snode list") (fd_rest: 'x)

fun snode_span :: "'x snode \<Rightarrow> ast_span" where
  "snode_span (SLit _ span) = span"
| "snode_span (SBinary _ _ _ span) = span"
| "snode_span (SParen _ span) = span"
| "snode_span (SNeg _ span) = span"
| "snode_span (SBitwise _ _ _ span) = span"
| "snode_span (SLogical _ _ _ span) = span"
| "snode_span (SCall _ _ span) = span"
| "snode_span (SLet _ _ _ _ span) = span"
| "snode_span (SAssign _ _ span) = span"
| "snode_span (SReturn _ span) = span"
| "snode_span (SBlock _ span) = span"
| "snode_span (SIf _ _ _ span) = span"
| "snode_span (SFor _ _ _ _ _ span) = span"
| "snode_span (SForEach _ _ _ span) = span"
| "snode_span (SWhile _ _ span) = span"
| "snode_span (SRegion _ span) = span"
| "snode_span (SFnDef _ span) = span"
| "snode_span (SOther _ span) = span"

subsection \<open>The interpreter on integers\<close>

type_synonym int_env = "string \<rightharpoonup> i64"

record 'x int_ctx =
  ic_overflow_checks :: bool
  ic_bound :: "ast_span \<Rightarrow> bool"
  ic_global :: "string \<Rightarrow> ast_span \<Rightarrow> eval_error + i64"
  ic_u64_vars :: "string set"
  ic_other_u64 :: "'x \<Rightarrow> bool"
  ic_str_record :: "i64 \<Rightarrow> bool"
  ic_other :: "'x snode \<Rightarrow> int_env \<Rightarrow> eval_error + i64"
  ic_threaded :: "'x snode \<Rightarrow> int_env \<Rightarrow> eval_error + (i64 \<times> int_env)"

definition eval_name :: "'x int_ctx \<Rightarrow> int_env \<Rightarrow> string \<Rightarrow> ast_span \<Rightarrow> eval_error + i64" where
  "eval_name cx env name span =
     (if ic_bound cx span then ic_global cx name span
      else case env name of Some v \<Rightarrow> Inr v | None \<Rightarrow> ic_global cx name span)"

fun node_is_u64 :: "'x int_ctx \<Rightarrow> 'x snode \<Rightarrow> bool" where
  "node_is_u64 cx (SLit (LIdent name) _) \<longleftrightarrow> name \<in> ic_u64_vars cx"
| "node_is_u64 cx (SParen inner _) \<longleftrightarrow> node_is_u64 cx inner"
| "node_is_u64 cx (SOther x _) \<longleftrightarrow> ic_other_u64 cx x"
| "node_is_u64 cx _ \<longleftrightarrow> False"

text \<open>\<open>-n\<close>: with overflow checks it panics on \<open>i64::MIN\<close>.\<close>

definition int_neg :: "bool \<Rightarrow> i64 \<Rightarrow> eval_error + i64" where
  "int_neg oc n = (if oc \<and> n = i64_MIN then Inl (Panicked DivisionOverflow) else Inr (- n))"

definition int_bitwise :: "bit_op \<Rightarrow> bool \<Rightarrow> i64 \<Rightarrow> i64 \<Rightarrow> i64" where
  "int_bitwise op u64_shr a b =
     (case op of
        BitOr \<Rightarrow> or a b
      | BitAnd \<Rightarrow> and a b
      | BitXor \<Rightarrow> xor a b
      | BitShl \<Rightarrow> wrapping_shl a b
      | BitShr \<Rightarrow> if u64_shr then drop_bit (unat b mod 64) a else signed_drop_bit (unat b mod 64) a)"

text \<open>
  A frame is the list \<open>local_saves\<close>, in reverse, with \<open>local_names\<close> its names; the environment of a failed
  statement is dropped, as no caller reads it.
\<close>

type_synonym frame = "(string \<times> i64 option) list"

definition bind_let :: "string \<Rightarrow> i64 \<Rightarrow> int_env \<Rightarrow> frame \<Rightarrow> int_env \<times> frame" where
  "bind_let name v env saves =
     (env(name \<mapsto> v), if name \<in> fst ` set saves then saves else (name, env name) # saves)"

definition restore :: "frame \<Rightarrow> int_env \<Rightarrow> int_env" where
  "restore saves env = fold (\<lambda>(name, saved) env. env(name := saved)) saves env"

text \<open>The iterations \<open>i, i + 1, \<dots>\<close> of a range loop with \<open>n\<close> of them are \<open>exec_for\<close>.\<close>

function (sequential) eval_int :: "'x int_ctx \<Rightarrow> int_env \<Rightarrow> 'x snode \<Rightarrow> eval_error + i64"
  and exec_stmt :: "'x int_ctx \<Rightarrow> 'x snode \<Rightarrow> int_env \<Rightarrow> frame \<Rightarrow> eval_error + (i64 \<times> int_env \<times> frame)"
  and exec_stmts :: "'x int_ctx \<Rightarrow> 'x snode list \<Rightarrow> i64 \<Rightarrow> int_env \<Rightarrow> frame \<Rightarrow> eval_error + (i64 \<times> int_env \<times> frame)"
  and exec_for :: "'x int_ctx \<Rightarrow> string \<Rightarrow> i64 \<Rightarrow> nat \<Rightarrow> 'x snode list \<Rightarrow> i64 \<Rightarrow> int_env \<Rightarrow> eval_error + (i64 \<times> int_env)"
where
  "eval_int cx env (SLit (LInt v) _) = Inr v"
| "eval_int cx env (SLit (LIdent name) span) = eval_name cx env name span"
| "eval_int cx env (SParen inner _) = eval_int cx env inner"
| "eval_int cx env (SNeg operand _) = rbind (eval_int cx env operand) (int_neg (ic_overflow_checks cx))"
| "eval_int cx env (SBinary op l r _) =
     rbind (eval_int cx env l) (\<lambda>a. rbind (eval_int cx env r) (\<lambda>b.
       if node_is_u64 cx l \<or> node_is_u64 cx r then apply_int_op_u64 (ic_str_record cx) op a b
       else apply_int_op (ic_str_record cx) op a b))"
| "eval_int cx env (SBitwise op l r _) =
     rbind (eval_int cx env l) (\<lambda>a. rbind (eval_int cx env r) (\<lambda>b.
       Inr (int_bitwise op (node_is_u64 cx l \<or> node_is_u64 cx r) a b)))"
| "eval_int cx env (SLogical op l r _) =
     rbind (eval_int cx env l) (\<lambda>a.
       case op of
         LogicalAnd \<Rightarrow> if a = 0 then Inr 0 else rbind (eval_int cx env r) (\<lambda>b. Inr (i64_of_bool (b \<noteq> 0)))
       | LogicalOr \<Rightarrow> if a \<noteq> 0 then Inr 1 else rbind (eval_int cx env r) (\<lambda>b. Inr (i64_of_bool (b \<noteq> 0))))"
| "eval_int cx env (SLet _ _ _ value _) = eval_int cx env value"
| "eval_int cx env (SAssign _ value _) = eval_int cx env value"
| "eval_int cx env (SFnDef _ _) = Inr 0"
| "eval_int cx env (SBlock stmts _) = rbind (exec_stmts cx stmts 0 env []) (\<lambda>(v, _, _). Inr v)"
| "eval_int cx env (SIf c then_branch else_branch _) =
     rbind (eval_int cx env c) (\<lambda>v.
       if v \<noteq> 0 then rbind (exec_stmts cx then_branch 0 env []) (\<lambda>(v, _, _). Inr v)
       else case else_branch of
         None \<Rightarrow> Inr 0
       | Some else_stmts \<Rightarrow> rbind (exec_stmts cx else_stmts 0 env []) (\<lambda>(v, _, _). Inr v))"
| "eval_int cx env node = ic_other cx node env"
| "exec_stmt cx (SLet name _ _ value _) env saves =
     rbind (eval_int cx env value) (\<lambda>v. Inr (v, bind_let name v env saves))"
| "exec_stmt cx (SAssign name value _) env saves =
     rbind (eval_int cx env value) (\<lambda>v. Inr (v, env(name \<mapsto> v), saves))"
| "exec_stmt cx (SIf c then_branch else_branch _) env saves =
     rbind (eval_int cx env c) (\<lambda>v.
       if v \<noteq> 0 then
         rbind (exec_stmts cx then_branch 0 env []) (\<lambda>(v, env', fr). Inr (v, restore fr env', saves))
       else case else_branch of
         Some else_stmts \<Rightarrow>
           rbind (exec_stmts cx else_stmts 0 env []) (\<lambda>(v, env', fr). Inr (v, restore fr env', saves))
       | None \<Rightarrow> Inr (0, env, saves))"
| "exec_stmt cx (SBlock stmts _) env saves =
     rbind (exec_stmts cx stmts 0 env []) (\<lambda>(v, env', fr). Inr (v, restore fr env', saves))"
| "exec_stmt cx (SFor var start end body _ _) env saves =
     rbind (eval_int cx env start) (\<lambda>s.
     rbind (eval_int cx env end) (\<lambda>e.
     rbind (exec_for cx var s (nat (sint e - sint s)) body 0 env) (\<lambda>(v, env').
       Inr (v, env'(var := env var), saves))))"
| "exec_stmt cx (SWhile c body span) env saves =
     rbind (ic_threaded cx (SWhile c body span) env) (\<lambda>(v, env'). Inr (v, env', saves))"
| "exec_stmt cx (SOther x span) env saves =
     rbind (ic_threaded cx (SOther x span) env) (\<lambda>(v, env'). Inr (v, env', saves))"
| "exec_stmt cx other env saves = rbind (eval_int cx env other) (\<lambda>v. Inr (v, env, saves))"
| "exec_stmts cx [] result env saves = Inr (result, env, saves)"
| "exec_stmts cx (s # ss) result env saves =
     rbind (exec_stmt cx s env saves) (\<lambda>(v, env', saves'). exec_stmts cx ss v env' saves')"
| "exec_for cx var i 0 body result env = Inr (result, env)"
| "exec_for cx var i (Suc n) body result env =
     rbind (exec_stmts cx body 0 (env(var \<mapsto> i)) []) (\<lambda>(v, env', fr).
       exec_for cx var (i + 1) n body v (restore fr env'))"
  by pat_completeness auto
termination
  by (relation "measures
      [\<lambda>x. case x of
          Inl (Inl (_, _, n)) \<Rightarrow> 2 * size n
        | Inl (Inr (_, s, _, _)) \<Rightarrow> 2 * size s + 1
        | Inr (Inl (_, ss, _, _, _)) \<Rightarrow> 2 * size_list size ss + 1
        | Inr (Inr (_, _, _, _, body, _, _)) \<Rightarrow> 2 * size_list size body + 2,
       \<lambda>x. case x of Inr (Inr (_, _, _, n, _, _, _)) \<Rightarrow> n | _ \<Rightarrow> 0]") auto

text \<open>\<open>exec_block_scoped\<close>: a statement list as a block of its own.\<close>

definition exec_block_scoped :: "'x int_ctx \<Rightarrow> 'x snode list \<Rightarrow> int_env \<Rightarrow> eval_error + (i64 \<times> int_env)" where
  "exec_block_scoped cx stmts env =
     rbind (exec_stmts cx stmts 0 env []) (\<lambda>(v, env', fr). Inr (v, restore fr env'))"

end
