(* ===== verification/Comptime.thy ===== *)
theory Comptime
  imports Stmt_Ast
begin

text \<open>
  Compile-time evaluation, \<^verbatim>\<open>src/opt/comptime.rs\<close>: the fold of a constant expression, the evaluator that runs the
  user's functions at compile time under a depth limit, and the iteration of a Q16.16 map to its fixed point.
  The lemmas show that the fold is a part of the evaluator, that the evaluator agrees with the interpreter on
  call-free expressions, what each outcome of the iteration says about the orbit, and that a fixed point
  within the fuel is found.
\<close>

subsection \<open>Constant expressions\<close>

fun eval_const_i64 :: "'x snode \<Rightarrow> i64 option" where
  "eval_const_i64 (SLit (LInt v) _) = Some v"
| "eval_const_i64 (SParen inner _) = eval_const_i64 inner"
| "eval_const_i64 (SNeg operand _) = do { v \<leftarrow> eval_const_i64 operand; Some (0 - v) }"
| "eval_const_i64 (SBinary op left right _) = do {
     a \<leftarrow> eval_const_i64 left;
     b \<leftarrow> eval_const_i64 right;
     case op of
       AstAdd \<Rightarrow> Some (a + b)
     | AstSub \<Rightarrow> Some (a - b)
     | AstMul \<Rightarrow> Some (a * b)
     | AstDiv \<Rightarrow> if b = 0 then None else Some (trunc_div a b)
     | AstMod \<Rightarrow> if b = 0 then None else Some (trunc_rem a b)
     | _ \<Rightarrow> None }"
| "eval_const_i64 _ = None"

subsection \<open>User functions at compile time\<close>

definition Q16_MAX :: i64 where "Q16_MAX = 0x7FFFFFFF"
definition Q16_MIN :: i64 where "Q16_MIN = - 0x80000000"
definition Q16_DIVERGE :: i64 where "Q16_DIVERGE = 0x40000000"
definition Q16_FUEL :: i64 where "Q16_FUEL = 65536"
definition CT_MAX_DEPTH :: usize where "CT_MAX_DEPTH = 256"

type_synonym 'x ct_fn_table = "string \<rightharpoonup> (string list \<times> 'x snode list)"

datatype ct_err = NotComptime | CtDivByZero

datatype ct_flow = Fell i64 | Returned i64

fun flow_value :: "ct_flow \<Rightarrow> i64" where
  "flow_value (Fell v) = v"
| "flow_value (Returned v) = v"

definition q_in_range :: "i64 \<Rightarrow> bool" where
  "q_in_range v \<longleftrightarrow> sint Q16_MIN \<le> sint v \<and> sint v \<le> sint Q16_MAX"

definition ct_binary :: "ast_binop \<Rightarrow> i64 \<Rightarrow> i64 \<Rightarrow> ct_err + i64" where
  "ct_binary op a b =
     (case op of
        AstAdd \<Rightarrow> Inr (a + b)
      | AstSub \<Rightarrow> Inr (a - b)
      | AstMul \<Rightarrow> Inr (a * b)
      | AstDiv \<Rightarrow> if b = 0 then Inl CtDivByZero else Inr (trunc_div a b)
      | AstMod \<Rightarrow> if b = 0 then Inl CtDivByZero else Inr (trunc_rem a b)
      | AstLt \<Rightarrow> Inr (i64_of_bool (sint a < sint b))
      | AstLe \<Rightarrow> Inr (i64_of_bool (sint a \<le> sint b))
      | AstGt \<Rightarrow> Inr (i64_of_bool (sint a > sint b))
      | AstGe \<Rightarrow> Inr (i64_of_bool (sint a \<ge> sint b))
      | AstEq \<Rightarrow> Inr (i64_of_bool (a = b))
      | AstNe \<Rightarrow> Inr (i64_of_bool (a \<noteq> b)))"

definition ct_bitwise :: "bit_op \<Rightarrow> i64 \<Rightarrow> i64 \<Rightarrow> ct_err + i64" where
  "ct_bitwise op a b =
     (case op of
        BitOr \<Rightarrow> Inr (or a b)
      | BitAnd \<Rightarrow> Inr (and a b)
      | BitXor \<Rightarrow> Inr (xor a b)
      | BitShl \<Rightarrow> if 0 \<le> sint b \<and> sint b < 64 then Inr (wrapping_shl a b) else Inl NotComptime
      | BitShr \<Rightarrow>
          if 0 \<le> sint b \<and> sint b < 64 then Inr (signed_drop_bit (unat b mod 64) a) else Inl NotComptime)"

definition ct_logical :: "logical_op \<Rightarrow> i64 \<Rightarrow> i64 \<Rightarrow> i64" where
  "ct_logical op a b =
     (case op of
        LogicalAnd \<Rightarrow> i64_of_bool (a \<noteq> 0 \<and> b \<noteq> 0)
      | LogicalOr \<Rightarrow> i64_of_bool (a \<noteq> 0 \<or> b \<noteq> 0))"

text \<open>
  The recursion ends: a call raises the depth, which is bounded, and everything else descends in the node.
  The environment of a body is returned beside its flow, as a branch of an \<open>if\<close> writes the same one.
\<close>

function (sequential) eval_ct_expr :: "'x snode \<Rightarrow> int_env \<Rightarrow> 'x ct_fn_table \<Rightarrow> usize \<Rightarrow> ct_err + i64"
  and eval_ct_args :: "(string \<times> 'x snode) list \<Rightarrow> int_env \<Rightarrow> 'x ct_fn_table \<Rightarrow> usize \<Rightarrow> int_env \<Rightarrow> ct_err + int_env"
  and eval_ct_body :: "'x snode list \<Rightarrow> int_env \<Rightarrow> 'x ct_fn_table \<Rightarrow> usize \<Rightarrow> i64 \<Rightarrow> ct_err + (ct_flow \<times> int_env)"
where
  "eval_ct_expr (SLit (LInt v) _) env fns depth = Inr v"
| "eval_ct_expr (SLit (LIdent name) _) env fns depth =
     (case env name of Some v \<Rightarrow> Inr v | None \<Rightarrow> Inl NotComptime)"
| "eval_ct_expr (SParen inner _) env fns depth = eval_ct_expr inner env fns depth"
| "eval_ct_expr (SNeg operand _) env fns depth =
     rbind (eval_ct_expr operand env fns depth) (\<lambda>v. Inr (0 - v))"
| "eval_ct_expr (SBinary op left right _) env fns depth =
     rbind (eval_ct_expr left env fns depth) (\<lambda>a.
     rbind (eval_ct_expr right env fns depth) (\<lambda>b. ct_binary op a b))"
| "eval_ct_expr (SBitwise op left right _) env fns depth =
     rbind (eval_ct_expr left env fns depth) (\<lambda>a.
     rbind (eval_ct_expr right env fns depth) (\<lambda>b. ct_bitwise op a b))"
| "eval_ct_expr (SLogical op left right _) env fns depth =
     rbind (eval_ct_expr left env fns depth) (\<lambda>a.
     rbind (eval_ct_expr right env fns depth) (\<lambda>b. Inr (ct_logical op a b)))"
| "eval_ct_expr (SCall callee args _) env fns depth =
     (if depth \<ge> CT_MAX_DEPTH then Inl NotComptime
      else case fns callee of
             None \<Rightarrow> Inl NotComptime
           | Some (params, body) \<Rightarrow>
               if length params \<noteq> length args then Inl NotComptime
               else rbind (eval_ct_args (zip params args) env fns (depth + 1) Map.empty) (\<lambda>call_env.
                    rbind (eval_ct_body body call_env fns (depth + 1) 0) (\<lambda>(flow, _). Inr (flow_value flow))))"
| "eval_ct_expr _ env fns depth = Inl NotComptime"
| "eval_ct_args [] env fns depth call_env = Inr call_env"
| "eval_ct_args ((p, a) # rest) env fns depth call_env =
     rbind (eval_ct_expr a env fns depth) (\<lambda>v. eval_ct_args rest env fns depth (call_env(p \<mapsto> v)))"
| "eval_ct_body [] env fns depth res = Inr (Fell res, env)"
| "eval_ct_body (SLet name _ _ value _ # rest) env fns depth res =
     rbind (eval_ct_expr value env fns depth) (\<lambda>v. eval_ct_body rest (env(name \<mapsto> v)) fns depth v)"
| "eval_ct_body (SAssign name value _ # rest) env fns depth res =
     rbind (eval_ct_expr value env fns depth) (\<lambda>v. eval_ct_body rest (env(name \<mapsto> v)) fns depth v)"
| "eval_ct_body (SReturn (Some e) _ # rest) env fns depth res =
     rbind (eval_ct_expr e env fns depth) (\<lambda>v. Inr (Returned v, env))"
| "eval_ct_body (SReturn None _ # rest) env fns depth res = Inr (Returned 0, env)"
| "eval_ct_body (SIf c then_branch else_branch _ # rest) env fns depth res =
     rbind (eval_ct_expr c env fns depth) (\<lambda>v.
     rbind (if v \<noteq> 0 then eval_ct_body then_branch env fns depth 0
            else case else_branch of
                   Some eb \<Rightarrow> eval_ct_body eb env fns depth 0
                 | None \<Rightarrow> eval_ct_body [] env fns depth 0) (\<lambda>(flow, env').
       case flow of
         Returned r \<Rightarrow> Inr (Returned r, env')
       | Fell w \<Rightarrow> eval_ct_body rest env' fns depth w))"
| "eval_ct_body (other # rest) env fns depth res =
     rbind (eval_ct_expr other env fns depth) (\<lambda>v. eval_ct_body rest env fns depth v)"
  by pat_completeness auto
termination
  by (relation "measures
      [\<lambda>x. case x of
          Inl (_, _, _, d) \<Rightarrow> CT_MAX_DEPTH - d
        | Inr (Inl (_, _, _, d, _)) \<Rightarrow> CT_MAX_DEPTH - d
        | Inr (Inr (_, _, _, d, _)) \<Rightarrow> CT_MAX_DEPTH - d,
       \<lambda>x. case x of
          Inl (n, _) \<Rightarrow> 2 * size n
        | Inr (Inl (as, _)) \<Rightarrow> 2 * size_list (size \<circ> snd) as + 1
        | Inr (Inr (ss, _)) \<Rightarrow> 2 * size_list size ss + 1]") (auto simp: comp_def)

subsection \<open>Iterating a map to its fixed point\<close>

datatype q16_outcome = Fixed i64 | NoFixedPoint | Cycle i64 | Diverged | DependsOnN | NonComptime

text \<open>\<open>i64::abs\<close>: on \<open>i64::MIN\<close> it panics with overflow checks and returns \<open>i64::MIN\<close> without.\<close>

definition arith_abs :: "bool \<Rightarrow> i64 \<Rightarrow> i64 option" where
  "arith_abs oc v = (if oc \<and> v = i64_MIN then None else Some (if sint v < 0 then - v else v))"

definition map_step :: "'x snode \<Rightarrow> string \<Rightarrow> 'x ct_fn_table \<Rightarrow> i64 \<Rightarrow> ct_err + i64" where
  "map_step rhs acc fns x = eval_ct_expr rhs [acc \<mapsto> x] fns 0"

text \<open>The first argument of the loop counts the steps that remain; \<^const>\<open>None\<close> is a panic.\<close>

fun iterate_loop :: "bool \<Rightarrow> (i64 \<Rightarrow> ct_err + i64) \<Rightarrow> i64 \<Rightarrow> nat \<Rightarrow> i64 \<Rightarrow> i64 set \<Rightarrow> q16_outcome option" where
  "iterate_loop oc f trip 0 x seen =
     Some (if sint trip \<le> sint Q16_FUEL then DependsOnN else NoFixedPoint)"
| "iterate_loop oc f trip (Suc n) x seen =
     (case f x of
        Inl _ \<Rightarrow> Some NonComptime
      | Inr y \<Rightarrow> do {
          m \<leftarrow> arith_abs oc y;
          if sint m > sint Q16_DIVERGE then Some Diverged
          else if y = x then Some (Fixed x)
          else if y \<in> seen then Some (Cycle y)
          else iterate_loop oc f trip n y (insert y seen) })"

definition iterate_user_fixed_point ::
    "bool \<Rightarrow> 'x snode \<Rightarrow> string \<Rightarrow> 'x ct_fn_table \<Rightarrow> i64 \<Rightarrow> i64 \<Rightarrow> q16_outcome option" where
  "iterate_user_fixed_point oc rhs acc fns seed trip =
     (if \<not> q_in_range seed then Some Diverged
      else if sint trip \<le> 0 then Some (Fixed seed)
      else iterate_loop oc (map_step rhs acc fns) trip (nat (min (sint trip) (sint Q16_FUEL))) seed {seed})"

subsection \<open>The constant fold is the evaluator on constants\<close>

lemma eval_const_ct: "eval_const_i64 e = Some v \<Longrightarrow> eval_ct_expr e env fns depth = Inr v"
proof (induction e arbitrary: v rule: eval_const_i64.induct)
  case (4 op left right sp)
  then show ?case by (cases op) (auto simp: ct_binary_def split: bind_splits if_splits)
qed (auto split: bind_splits)

subsection \<open>The evaluator and the interpreter\<close>

text \<open>
  Expressions of the operators both know, without calls, and contexts in which an integer is only an integer:
  arithmetic wraps, no identifier is an imported symbol, no variable is \<open>u64\<close> (the interpreter divides and shifts
  those unsigned, the compile-time evaluator does not), and no integer is the address of a string record.
\<close>

fun call_free :: "'x snode \<Rightarrow> bool" where
  "call_free (SLit _ _) \<longleftrightarrow> True"
| "call_free (SParen inner _) \<longleftrightarrow> call_free inner"
| "call_free (SNeg operand _) \<longleftrightarrow> call_free operand"
| "call_free (SBinary _ l r _) \<longleftrightarrow> call_free l \<and> call_free r"
| "call_free (SBitwise _ l r _) \<longleftrightarrow> call_free l \<and> call_free r"
| "call_free (SLogical _ l r _) \<longleftrightarrow> call_free l \<and> call_free r"
| "call_free _ \<longleftrightarrow> False"

definition plain_int_ctx :: "'x int_ctx \<Rightarrow> bool" where
  "plain_int_ctx cx \<longleftrightarrow>
     \<not> ic_overflow_checks cx \<and> (\<forall>span. \<not> ic_bound cx span) \<and> ic_u64_vars cx = {} \<and>
     (\<forall>x. \<not> ic_other_u64 cx x) \<and> (\<forall>v. \<not> ic_str_record cx v)"

lemma plain_int_ctxD:
  assumes "plain_int_ctx cx"
  shows "ic_overflow_checks cx = False" "ic_bound cx span = False" "ic_str_record cx = (\<lambda>_. False)"
    "node_is_u64 cx e = False" "ic_u64_vars cx = {}"
proof -
  show "ic_overflow_checks cx = False" "ic_bound cx span = False" "ic_str_record cx = (\<lambda>_. False)"
    "ic_u64_vars cx = {}"
    using assms by (auto simp: plain_int_ctx_def)
  show "node_is_u64 cx e = False"
    using assms by (induction cx e rule: node_is_u64.induct) (auto simp: plain_int_ctx_def)
qed

lemma plain_int_op:
  "ct_binary op a b = Inr v \<Longrightarrow>
     apply_int_op (\<lambda>_. False) op a b = Inr v \<or> apply_int_op (\<lambda>_. False) op a b = Inl (Panicked DivisionOverflow)"
  by (cases op)
     (auto simp: ct_binary_def apply_int_op_def guard_str_record_value_op_def or_panic_def arith_div_def
        arith_rem_def div_defined_def split: if_splits)

lemma comptime_agrees:
  assumes "plain_int_ctx cx" and "call_free e"
  shows "eval_ct_expr e env fns depth = Inr v \<Longrightarrow>
     eval_int cx env e = Inr v \<or> eval_int cx env e = Inl (Panicked DivisionOverflow)"
  using assms(2)
proof (induction e arbitrary: v)
  case (SLit l sp)
  then show ?case by (cases l) (auto simp: eval_name_def plain_int_ctxD [OF assms(1)] split: option.splits)
next
  case (SBinary op l r sp)
  from SBinary.prems obtain a b where ab: "eval_ct_expr l env fns depth = Inr a"
      "eval_ct_expr r env fns depth = Inr b" "ct_binary op a b = Inr v"
    by (auto simp: rbind_eq_Inr)
  show ?case
    using SBinary.IH(1) [OF ab(1)] SBinary.IH(2) [OF ab(2)] SBinary.prems(2) plain_int_op [OF ab(3)]
    by (auto simp: plain_int_ctxD [OF assms(1)])
next
  case (SNeg e sp)
  then show ?case by (auto simp: rbind_eq_Inr int_neg_def plain_int_ctxD [OF assms(1)])
next
  case (SBitwise op l r sp)
  from SBitwise.prems obtain a b where ab: "eval_ct_expr l env fns depth = Inr a"
      "eval_ct_expr r env fns depth = Inr b" "ct_bitwise op a b = Inr v"
    by (auto simp: rbind_eq_Inr)
  have "int_bitwise op False a b = v"
    using ab(3) by (cases op) (auto simp: ct_bitwise_def int_bitwise_def split: if_splits)
  then show ?case
    using SBitwise.IH(1) [OF ab(1)] SBitwise.IH(2) [OF ab(2)] SBitwise.prems(2)
    by (auto simp: plain_int_ctxD [OF assms(1)])
next
  case (SLogical op l r sp)
  from SLogical.prems obtain a b where ab: "eval_ct_expr l env fns depth = Inr a"
      "eval_ct_expr r env fns depth = Inr b" "ct_logical op a b = v"
    by (auto simp: rbind_eq_Inr)
  show ?case
    using SLogical.IH(1) [OF ab(1)] SLogical.IH(2) [OF ab(2)] SLogical.prems(2) ab(3)
    by (cases op) (auto simp: ct_logical_def i64_of_bool_def split: if_splits)
qed auto

text \<open>A constant in a map the interpreter evaluates is the value it finds.\<close>

fun const_shape :: "'x snode \<Rightarrow> bool" where
  "const_shape (SLit _ _) \<longleftrightarrow> True"
| "const_shape (SParen inner _) \<longleftrightarrow> const_shape inner"
| "const_shape (SNeg operand _) \<longleftrightarrow> const_shape operand"
| "const_shape (SBinary _ l r _) \<longleftrightarrow> const_shape l \<and> const_shape r"
| "const_shape _ \<longleftrightarrow> False"

lemma const_shape_call_free: "const_shape e \<Longrightarrow> call_free e"
  by (induction e rule: const_shape.induct) auto

lemma eval_const_shape: "eval_const_i64 e = Some v \<Longrightarrow> const_shape e"
  by (induction e arbitrary: v rule: eval_const_i64.induct) (auto split: bind_splits)

lemma eval_const_int:
  assumes "plain_int_ctx cx" and "eval_const_i64 e = Some v"
  shows "eval_int cx env e = Inr v \<or> eval_int cx env e = Inl (Panicked DivisionOverflow)"
  using comptime_agrees [OF assms(1) const_shape_call_free [OF eval_const_shape [OF assms(2)]]
      eval_const_ct [OF assms(2)]] .

lemma eval_const_intD:
  "plain_int_ctx cx \<Longrightarrow> eval_const_i64 e = Some v \<Longrightarrow> eval_int cx env e = Inr w \<Longrightarrow> w = v"
  by (drule (1) eval_const_int [where env = env]) auto

subsection \<open>Orbits\<close>

primrec orbit :: "('a \<Rightarrow> 'e + 'a) \<Rightarrow> nat \<Rightarrow> 'a \<Rightarrow> 'e + 'a" where
  "orbit f 0 x = Inr x"
| "orbit f (Suc n) x = rbind (f x) (orbit f n)"

lemma orbit_add: "orbit f (m + n) x = rbind (orbit f m x) (orbit f n)"
proof (induction m arbitrary: x)
  case (Suc m)
  then show ?case by (cases "f x") simp_all
qed simp

lemma orbit_Suc: "orbit f (Suc n) x = rbind (orbit f n x) f"
  using orbit_add [of f n 1 x] by (cases "orbit f n x") (auto simp: rbind_def split: sum.splits)

lemma orbit_fixed: "f v = Inr v \<Longrightarrow> orbit f n v = Inr v"
  by (induction n) simp_all

lemma orbit_stays: "orbit f m x = Inr v \<Longrightarrow> f v = Inr v \<Longrightarrow> m \<le> n \<Longrightarrow> orbit f n x = Inr v"
  using orbit_add [of f m "n - m" x] by (simp add: orbit_fixed)

lemma orbit_before: "orbit f n x = Inr v \<Longrightarrow> m \<le> n \<Longrightarrow> \<exists>w. orbit f m x = Inr w"
  using orbit_add [of f m "n - m" x] by (cases "orbit f m x") auto

lemma orbit_shift: "orbit f i x = orbit f j x \<Longrightarrow> orbit f (i + k) x = orbit f (j + k) x"
  by (simp add: orbit_add)

lemma orbit_period: "orbit f (i + d) x = orbit f i x \<Longrightarrow> orbit f (i + k * d) x = orbit f i x"
proof (induction k)
  case (Suc k)
  then have "orbit f (i + k * d + d) x = orbit f (i + d) x" using orbit_shift [of f "i + k * d" x i d] by simp
  then show ?case using Suc.prems by (simp add: algebra_simps)
qed simp

text \<open>An orbit that comes back to a value it had left never settles.\<close>

lemma orbit_cycle_never_fixed:
  assumes ret: "orbit f i x = Inr y" "orbit f j x = Inr y" "i < j"
    and left: "f y \<noteq> Inr y"
    and z: "orbit f k x = Inr z"
  shows "f z \<noteq> Inr z"
proof
  assume fz: "f z = Inr z"
  have per: "orbit f (i + k * (j - i)) x = Inr y" using orbit_period [of f i "j - i" x k] ret by simp
  have "k * 1 \<le> k * (j - i)" using ret(3) by (intro mult_le_mono2) simp
  then have "k \<le> i + k * (j - i)" by linarith
  then have "orbit f (i + k * (j - i)) x = Inr z" by (rule orbit_stays [OF z fz])
  then show False using per fz left by simp
qed

lemma orbit_distinct_before_fixed:
  assumes M: "orbit f M x = Inr v" "f v = Inr v"
    and first: "\<And>k w. k < M \<Longrightarrow> orbit f k x = Inr w \<Longrightarrow> f w \<noteq> Inr w"
    and "i < j" "j \<le> M"
  shows "orbit f i x \<noteq> orbit f j x"
proof
  assume "orbit f i x = orbit f j x"
  then have *: "orbit f (i + (M - j)) x = Inr v" using orbit_shift [of f i x j "M - j"] assms by simp
  have "i + (M - j) < M" using assms(4,5) by arith
  then show False using first [OF _ *] M(2) by simp
qed

subsection \<open>What the outcomes say\<close>

lemma iterate_loop_fixed:
  "iterate_loop oc f trip n x seen = Some (Fixed v) \<Longrightarrow> f v = Inr v \<and> (\<exists>m < n. orbit f m x = Inr v)"
proof (induction oc f trip n x seen rule: iterate_loop.induct)
  case (2 oc f trip n x seen)
  then obtain y where y: "f x = Inr y" by (cases "f x") auto
  show ?case
  proof (cases "y = x")
    case True
    then have "v = x" using "2.prems" y by (auto split: bind_splits if_splits)
    then show ?thesis using y True by (intro conjI exI [of _ 0]) auto
  next
    case False
    then obtain m where m: "arith_abs oc y = Some m" "\<not> sint m > sint Q16_DIVERGE" "y \<notin> seen"
        "iterate_loop oc f trip n y (insert y seen) = Some (Fixed v)"
      using "2.prems" y by (auto split: bind_splits if_splits)
    then obtain k where "f v = Inr v" "k < n" "orbit f k y = Inr v" using "2.IH" [OF y m(1,2) False m(3)] by auto
    then show ?thesis using y by (intro conjI exI [of _ "Suc k"]) auto
  qed
qed (simp split: if_splits)

text \<open>With \<open>seen\<close> the values so far, none of which is fixed, a cycle is one.\<close>

lemma iterate_loop_cycle:
  assumes "iterate_loop oc f trip n x seen = Some (Cycle y)"
    and "orbit f j x0 = Inr x"
    and "seen = {w. \<exists>i \<le> j. orbit f i x0 = Inr w}"
    and "\<And>i w. i < j \<Longrightarrow> orbit f i x0 = Inr w \<Longrightarrow> f w \<noteq> Inr w"
  shows "\<exists>i k. i < k \<and> orbit f i x0 = Inr y \<and> orbit f k x0 = Inr y \<and> f y \<noteq> Inr y"
  using assms
proof (induction oc f trip n x seen arbitrary: j rule: iterate_loop.induct)
  case (2 oc f trip n x seen)
  obtain w where w: "f x = Inr w" using "2.prems"(1) by (cases "f x") auto
  have next_w: "orbit f (Suc j) x0 = Inr w" using "2.prems"(2) w by (simp add: orbit_Suc del: orbit.simps)
  obtain m where m: "arith_abs oc w = Some m" "\<not> sint m > sint Q16_DIVERGE" "w \<noteq> x"
    using "2.prems"(1) w by (auto split: bind_splits if_splits)
  have left: "f u \<noteq> Inr u" if "i < Suc j" "orbit f i x0 = Inr u" for i u
    using that "2.prems"(2) "2.prems"(4) [of i u] w m(3) by (cases "i = j") auto
  show ?case
  proof (cases "w \<in> seen")
    case True
    then have "y = w" using "2.prems"(1) w m by simp
    moreover obtain i where i: "i \<le> j" "orbit f i x0 = Inr w" using True "2.prems"(3) by auto
    ultimately show ?thesis
      using next_w left [of i w] by (intro exI [of _ i] exI [of _ "Suc j"]) (auto simp del: orbit.simps)
  next
    case False
    have "insert w seen = {u. \<exists>i \<le> Suc j. orbit f i x0 = Inr u}"
      using "2.prems"(3) next_w by (auto simp: le_Suc_eq simp del: orbit.simps)
    then show ?thesis
      using "2.IH" [OF w m False _ next_w _ left] "2.prems"(1) w m False by simp
  qed
qed (simp split: if_splits)

text \<open>The loop finds the first fixed point of an orbit that stays in range.\<close>

lemma arith_abs_in_range:
  "\<bar>sint y\<bar> \<le> sint Q16_DIVERGE \<Longrightarrow> \<exists>m. arith_abs oc y = Some m \<and> \<not> sint m > sint Q16_DIVERGE"
proof -
  assume r: "\<bar>sint y\<bar> \<le> sint Q16_DIVERGE"
  have d: "sint Q16_DIVERGE = 2 ^ 30" by (simp add: Q16_DIVERGE_def)
  have "sint i64_MIN = - (2 ^ 63)" by (simp add: i64_MIN_def sint_of_fits i64_fits_def)
  then have "y \<noteq> i64_MIN" using r d by auto
  moreover have "sint (- y) = - sint y"
    using sint_of_fits [of "- sint y"] r unfolding d by (simp add: i64_fits_def abs_le_iff)
  ultimately show ?thesis using r by (auto simp: arith_abs_def)
qed

lemma iterate_loop_finds:
  assumes M: "orbit f M x0 = Inr v" "f v = Inr v"
    and first: "\<And>k w. k < M \<Longrightarrow> orbit f k x0 = Inr w \<Longrightarrow> f w \<noteq> Inr w"
    and range: "\<And>k w. k \<le> Suc M \<Longrightarrow> orbit f (Suc k) x0 = Inr w \<Longrightarrow> \<bar>sint w\<bar> \<le> sint Q16_DIVERGE"
  shows "orbit f j x0 = Inr x \<Longrightarrow> j \<le> M \<Longrightarrow> M < j + n \<Longrightarrow> seen = {w. \<exists>i \<le> j. orbit f i x0 = Inr w} \<Longrightarrow>
     iterate_loop oc f trip n x seen = Some (Fixed v)"
proof (induction n arbitrary: j x seen)
  case (Suc n)
  have "orbit f (Suc M) x0 = Inr v" using M by (simp add: orbit_Suc del: orbit.simps)
  then obtain w where next_w: "orbit f (Suc j) x0 = Inr w"
    using orbit_before [of f "Suc M" x0 v "Suc j"] Suc.prems(2) by (auto simp del: orbit.simps)
  then have w: "f x = Inr w" using Suc.prems(1) by (simp add: orbit_Suc del: orbit.simps)
  obtain m where m: "arith_abs oc w = Some m" "\<not> sint m > sint Q16_DIVERGE"
    using arith_abs_in_range [OF range [OF _ next_w]] Suc.prems(2) by auto
  show ?case
  proof (cases "j = M")
    case True
    then show ?thesis using Suc.prems(1) M w m by simp
  next
    case False
    then have j: "Suc j \<le> M" using Suc.prems(2) by simp
    have "w \<noteq> x" using first [of j x] j Suc.prems(1) w by auto
    moreover have "w \<notin> seen"
      using orbit_distinct_before_fixed [OF M first _ j] next_w Suc.prems(4) by (auto simp del: orbit.simps)
    moreover have "insert w seen = {u. \<exists>i \<le> Suc j. orbit f i x0 = Inr u}"
      using Suc.prems(4) next_w by (auto simp: le_Suc_eq simp del: orbit.simps)
    ultimately show ?thesis using Suc.IH [OF next_w j] Suc.prems(3) w m by simp
  qed
qed simp

end
