(* ===== verification/Scev.thy ===== *)
theory Scev
  imports Comptime
begin

text \<open>
  Recognition of collapsible loops and their closed forms, \<^verbatim>\<open>src/opt/scev.rs\<close>: affine sums, geometric powers and
  Q16.16 maps.  The lemmas show that the closed forms are the loops' results in \<open>Z/2^64\<close>, that the affine
  decomposition denotes its expression, and that the recognised parts do not depend on what the loop writes.
\<close>

subsection \<open>Closed forms\<close>

record 'x affine_sum =
  as_acc :: string
  as_a :: "'x snode"
  as_b :: "'x snode"
  as_lo :: "'x snode"
  as_hi :: "'x snode"
  as_span :: ast_span

definition closed_form_i64 :: "i64 \<Rightarrow> i64 \<Rightarrow> i64 \<Rightarrow> i64 \<Rightarrow> i64" where
  "closed_form_i64 a b lo hi =
     (if sint hi \<le> sint lo then 0
      else let n = hi - lo; p = lo + (hi - 1);
               sum_i = trunc_div n 2 * p + trunc_rem n 2 * trunc_div p 2
           in a * sum_i + b * n)"

record 'x geometric_pow =
  gp_acc :: string
  gp_r :: "'x snode"
  gp_lo :: "'x snode"
  gp_hi :: "'x snode"
  gp_span :: ast_span

text \<open>One round of the ladder, and \<open>k\<close> rounds of it.\<close>

definition pow_step :: "i64 \<times> i64 \<times> i64 \<Rightarrow> i64 \<times> i64 \<times> i64" where
  "pow_step = (\<lambda>(result, base, e).
     let bit = trunc_rem e 2 in
     (result * (1 + bit * (base - 1)), base * base, trunc_div e 2))"

definition pow_wrap :: "i64 \<Rightarrow> i64 \<Rightarrow> i64" where
  "pow_wrap r n = fst ((pow_step ^^ 64) (1, r, n))"

definition geometric_pow_i64 :: "i64 \<Rightarrow> i64 \<Rightarrow> i64 \<Rightarrow> i64" where
  "geometric_pow_i64 r lo hi = (if sint hi \<le> sint lo then 1 else pow_wrap r (hi - lo))"

record 'x q16_map =
  qm_acc :: string
  qm_f :: "'x snode"
  qm_lo :: "'x snode"
  qm_hi :: "'x snode"
  qm_span :: ast_span

subsection \<open>Expressions\<close>

fun scalar_refs_ident :: "'x snode \<Rightarrow> string \<Rightarrow> bool" where
  "scalar_refs_ident (SLit (LIdent x) _) name \<longleftrightarrow> x = name"
| "scalar_refs_ident (SLit _ _) name \<longleftrightarrow> False"
| "scalar_refs_ident (SParen inner _) name \<longleftrightarrow> scalar_refs_ident inner name"
| "scalar_refs_ident (SNeg operand _) name \<longleftrightarrow> scalar_refs_ident operand name"
| "scalar_refs_ident (SBinary _ left right _) name \<longleftrightarrow> scalar_refs_ident left name \<or> scalar_refs_ident right name"
| "scalar_refs_ident (SLogical _ left right _) name \<longleftrightarrow> scalar_refs_ident left name \<or> scalar_refs_ident right name"
| "scalar_refs_ident (SBitwise _ left right _) name \<longleftrightarrow> scalar_refs_ident left name \<or> scalar_refs_ident right name"
| "scalar_refs_ident (SCall _ args _) name \<longleftrightarrow> (\<exists>a \<in> set args. scalar_refs_ident a name)"
| "scalar_refs_ident _ name \<longleftrightarrow> False"

fun is_ident :: "'x snode \<Rightarrow> string \<Rightarrow> bool" where
  "is_ident (SLit (LIdent x) _) name \<longleftrightarrow> x = name"
| "is_ident _ name \<longleftrightarrow> False"

fun references_ident :: "'x snode \<Rightarrow> string \<Rightarrow> bool" where
  "references_ident (SLit (LIdent x) _) name \<longleftrightarrow> x = name"
| "references_ident (SLit _ _) name \<longleftrightarrow> False"
| "references_ident (SParen inner _) name \<longleftrightarrow> references_ident inner name"
| "references_ident (SNeg operand _) name \<longleftrightarrow> references_ident operand name"
| "references_ident (SBinary _ left right _) name \<longleftrightarrow> references_ident left name \<or> references_ident right name"
| "references_ident _ name \<longleftrightarrow> False"

fun is_pure_dupable :: "'x snode \<Rightarrow> bool" where
  "is_pure_dupable (SLit (LInt _) _) \<longleftrightarrow> True"
| "is_pure_dupable (SLit (LIdent _) _) \<longleftrightarrow> True"
| "is_pure_dupable (SParen inner _) \<longleftrightarrow> is_pure_dupable inner"
| "is_pure_dupable (SNeg operand _) \<longleftrightarrow> is_pure_dupable operand"
| "is_pure_dupable (SBinary op left right _) \<longleftrightarrow>
     op \<in> {AstAdd, AstSub, AstMul, AstDiv, AstMod} \<and> is_pure_dupable left \<and> is_pure_dupable right"
| "is_pure_dupable _ \<longleftrightarrow> False"

definition mk_int :: "i64 \<Rightarrow> ast_span \<Rightarrow> 'x snode" where
  "mk_int v sp = SLit (LInt v) sp"

definition mk_bin :: "ast_binop \<Rightarrow> 'x snode \<Rightarrow> 'x snode \<Rightarrow> ast_span \<Rightarrow> 'x snode" where
  "mk_bin op l r sp = SBinary op l r sp"

definition mk_neg :: "'x snode \<Rightarrow> ast_span \<Rightarrow> 'x snode" where
  "mk_neg operand sp = SNeg operand sp"

fun affine_of :: "'x snode \<Rightarrow> string \<Rightarrow> ('x snode \<times> 'x snode) option" where
  "affine_of (SLit (LInt v) sp) ivar = Some (mk_int 0 sp, mk_int v sp)"
| "affine_of (SLit (LIdent x) sp) ivar =
     (if x = ivar then Some (mk_int 1 sp, mk_int 0 sp) else Some (mk_int 0 sp, SLit (LIdent x) sp))"
| "affine_of (SParen inner _) ivar = affine_of inner ivar"
| "affine_of (SNeg operand sp) ivar = do {
     (a, b) \<leftarrow> affine_of operand ivar;
     Some (mk_neg a sp, mk_neg b sp) }"
| "affine_of (SBinary op left right sp) ivar =
     (if op = AstAdd \<or> op = AstSub then do {
        (al, bl) \<leftarrow> affine_of left ivar;
        (ar, br) \<leftarrow> affine_of right ivar;
        Some (mk_bin op al ar sp, mk_bin op bl br sp) }
      else if op = AstMul then do {
        (al, bl) \<leftarrow> affine_of left ivar;
        (ar, br) \<leftarrow> affine_of right ivar;
        if eval_const_i64 al = Some 0 then Some (mk_bin AstMul bl ar sp, mk_bin AstMul bl br sp)
        else if eval_const_i64 ar = Some 0 then Some (mk_bin AstMul br al sp, mk_bin AstMul br bl sp)
        else None }
      else None)"
| "affine_of _ ivar = None"

subsection \<open>Recognition\<close>

datatype reject =
    BoundsNotPure
  | BodyNotSingle
  | BodyNotAssignment
  | NotAccPlus
  | NotAffine
  | CoefficientsNotPure
  | CoefficientUsesAcc
  | BoundNotInvariant
  | NotAccTimes
  | MultiplierNotPure
  | MultiplierUsesAcc
  | MultiplierUsesVar
  | MapIgnoresAcc
  | MapUsesVar
  | SpanOverflows
  | BoundsNotConst
  | SeedNotConst
  | MapCycles
  | MapDiverges
  | MapDependsOnN
  | MapNotComptime
  | MapNoFixedPoint

definition body_assignment :: "'x snode list \<Rightarrow> reject + (string \<times> 'x snode)" where
  "body_assignment body =
     (if length body \<noteq> 1 then Inl BodyNotSingle
      else case body ! 0 of
             SAssign name value _ \<Rightarrow> Inr (name, value)
           | _ \<Rightarrow> Inl BodyNotAssignment)"

text \<open>The operand beside the accumulator, when the value is a binary \<open>op\<close> that has it on one side.\<close>

fun other_operand :: "ast_binop \<Rightarrow> string \<Rightarrow> reject \<Rightarrow> 'x snode \<Rightarrow> reject + 'x snode" where
  "other_operand op acc err (SBinary op' left right _) =
     (if op' \<noteq> op then Inl err
      else if is_ident left acc then Inr right
      else if is_ident right acc then Inr left
      else Inl err)"
| "other_operand op acc err _ = Inl err"

definition bound_varies :: "'x snode \<Rightarrow> 'x snode \<Rightarrow> string \<Rightarrow> string \<Rightarrow> bool" where
  "bound_varies start stop acc var \<longleftrightarrow>
     references_ident start acc \<or> references_ident stop acc \<or>
     references_ident start var \<or> references_ident stop var"

definition recognize_for ::
    "string \<Rightarrow> 'x snode \<Rightarrow> 'x snode \<Rightarrow> 'x snode list \<Rightarrow> ast_span \<Rightarrow> reject + 'x affine_sum" where
  "recognize_for var start stop body span =
     (if \<not> is_pure_dupable start \<or> \<not> is_pure_dupable stop then Inl BoundsNotPure
      else rbind (body_assignment body) (\<lambda>(acc, val).
      rbind (other_operand AstAdd acc NotAccPlus val) (\<lambda>affine.
      case affine_of affine var of
        None \<Rightarrow> Inl NotAffine
      | Some (a, b) \<Rightarrow>
          if \<not> is_pure_dupable a \<or> \<not> is_pure_dupable b then Inl CoefficientsNotPure
          else if references_ident a acc \<or> references_ident b acc then Inl CoefficientUsesAcc
          else if bound_varies start stop acc var then Inl BoundNotInvariant
          else Inr \<lparr>as_acc = acc, as_a = a, as_b = b, as_lo = start, as_hi = stop, as_span = span\<rparr>)))"

definition recognize_geometric ::
    "string \<Rightarrow> 'x snode \<Rightarrow> 'x snode \<Rightarrow> 'x snode list \<Rightarrow> ast_span \<Rightarrow> reject + 'x geometric_pow" where
  "recognize_geometric var start stop body span =
     (if \<not> is_pure_dupable start \<or> \<not> is_pure_dupable stop then Inl BoundsNotPure
      else rbind (body_assignment body) (\<lambda>(acc, val).
      rbind (other_operand AstMul acc NotAccTimes val) (\<lambda>r.
        if \<not> is_pure_dupable r then Inl MultiplierNotPure
        else if references_ident r acc then Inl MultiplierUsesAcc
        else if references_ident r var then Inl MultiplierUsesVar
        else if bound_varies start stop acc var then Inl BoundNotInvariant
        else Inr \<lparr>gp_acc = acc, gp_r = r, gp_lo = start, gp_hi = stop, gp_span = span\<rparr>)))"

definition recognize_q16_map ::
    "string \<Rightarrow> 'x snode \<Rightarrow> 'x snode \<Rightarrow> 'x snode list \<Rightarrow> ast_span \<Rightarrow> reject + 'x q16_map" where
  "recognize_q16_map var start stop body span =
     rbind (body_assignment body) (\<lambda>(acc, val).
       if \<not> scalar_refs_ident val acc then Inl MapIgnoresAcc
       else if scalar_refs_ident val var then Inl MapUsesVar
       else Inr \<lparr>qm_acc = acc, qm_f = val, qm_lo = start, qm_hi = stop, qm_span = span\<rparr>)"

subsection \<open>The geometric ladder is the power\<close>

lemma of_int_sint_word: "(of_int (sint (w :: i64)) :: i64) = w"
  by simp

lemma trunc_half:
  assumes "0 \<le> sint (e :: i64)"
  shows "sint (trunc_div e 2) = sint e div 2" "sint (trunc_rem e 2) = sint e mod 2"
proof -
  have two: "sint (2 :: i64) = 2" by simp
  have "sint e < 2 ^ 63" using sint_lt [of e] by simp
  then have "i64_fits (sint e div 2)" "i64_fits (sint e mod 2)" using assms by (auto simp: i64_fits_def)
  then show "sint (trunc_div e 2) = sint e div 2" "sint (trunc_rem e 2) = sint e mod 2"
    using assms by (simp_all add: trunc_div_def trunc_rem_def two sint_of_fits signed_divide_int_def
        signed_modulo_int_def sgn_if)
qed

lemma pow_step_invariant:
  assumes "0 \<le> sint e" "pow_step (result, base, e) = (result', base', e')"
  shows "0 \<le> sint e' \<and> sint e' = sint e div 2 \<and>
    result' * base' ^ nat (sint e') = result * base ^ nat (sint e)"
proof -
  have e': "e' = trunc_div e 2" "base' = base * base" "result' = result * (1 + trunc_rem e 2 * (base - 1))"
    using assms(2) by (simp_all add: pow_step_def)
  have "trunc_rem e 2 = of_int (sint e mod 2)" using trunc_half(2) [OF assms(1)] by (metis of_int_sint_word)
  then have bit: "1 + trunc_rem e 2 * (base - 1) = base ^ nat (sint e mod 2)"
    by (cases "sint e mod 2 = 0") (auto simp: not_mod_2_eq_0_eq_1)
  have "base' ^ nat (sint e') = base ^ (2 * nat (sint e div 2))"
    by (simp add: e' trunc_half(1) [OF assms(1)] power_mult power2_eq_square)
  moreover have "nat (sint e mod 2) + 2 * nat (sint e div 2) = nat (sint e)"
    using assms(1) by (simp add: nat_mod_distrib nat_div_distrib)
  ultimately have "result' * base' ^ nat (sint e') = result * base ^ nat (sint e)"
    by (simp add: e'(3) bit mult.assoc flip: power_add)
  then show ?thesis using trunc_half(1) [OF assms(1)] assms(1) e'(1) by simp
qed

lemma pow_steps:
  "0 \<le> sint e \<Longrightarrow> (pow_step ^^ k) (result, base, e) = (result', base', e') \<Longrightarrow>
     0 \<le> sint e' \<and> sint e' = sint e div 2 ^ k \<and> result' * base' ^ nat (sint e') = result * base ^ nat (sint e)"
proof (induction k arbitrary: result' base' e')
  case (Suc k)
  obtain r1 b1 e1 where s: "(pow_step ^^ k) (result, base, e) = (r1, b1, e1)" by (metis prod_cases3)
  have i: "0 \<le> sint e1" "sint e1 = sint e div 2 ^ k" "r1 * b1 ^ nat (sint e1) = result * base ^ nat (sint e)"
    using Suc.IH [OF Suc.prems(1) s] by auto
  have "pow_step (r1, b1, e1) = (result', base', e')" using Suc.prems(2) s by simp
  from pow_step_invariant [OF i(1) this] i show ?case by (auto simp: power_Suc2 zdiv_zmult2_eq simp del: power_Suc)
qed simp

lemma pow_wrap_power: "0 \<le> sint n \<Longrightarrow> pow_wrap r n = r ^ nat (sint n)"
proof -
  assume n: "0 \<le> sint n"
  obtain r1 b1 e1 where s: "(pow_step ^^ 64) (1, r, n) = (r1, b1, e1)" by (metis prod_cases3)
  have "sint n < 2 ^ 64" using sint_lt [of n] by simp
  then have "sint n div 2 ^ 64 = 0" using n by (intro div_pos_pos_trivial)
  then have "sint e1 = 0" "r1 * b1 ^ nat (sint e1) = r ^ nat (sint n)" using pow_steps [OF n s] by auto
  then have "r1 = r ^ nat (sint n)" unfolding \<open>sint e1 = 0\<close> by simp
  then show ?thesis using s by (simp add: pow_wrap_def)
qed

subsection \<open>The affine closed form is the sum\<close>

lemma gauss_double: "2 * (\<Sum>k < N. L + int k) = int N * (2 * L + int N - 1)"
  by (induction N) (auto simp: algebra_simps)

lemma sdiv_double: "(2 * x) sdiv 2 = (x :: int)"
proof -
  have "\<bar>2 * x\<bar> div 2 = \<bar>x\<bar>" by (simp add: abs_mult)
  then show ?thesis by (simp only: signed_divide_int_def sgn_mult) (simp add: sgn_mult_abs)
qed

lemma gauss_halved:
  assumes "0 < N"
  shows "(\<Sum>k < N. L + int k) =
    int N div 2 * (2 * L + int N - 1) + int N mod 2 * ((2 * L + int N - 1) sdiv 2)"
proof (cases "even N")
  case True
  then obtain m where "N = 2 * m" by (elim evenE)
  then show ?thesis using gauss_double [of L N] by simp
next
  case False
  then obtain m where m: "N = 2 * m + 1" by (elim oddE)
  have P: "2 * L + int N - 1 = 2 * (L + int m)" "int N div 2 = int m" "int N mod 2 = 1" using m by simp_all
  show ?thesis using gauss_double [of L N] unfolding P sdiv_double
    by (simp add: algebra_simps m)
qed

lemma closed_form_sum:
  assumes less: "sint lo < sint hi"
    and n_fits: "i64_fits (sint hi - sint lo)"
    and p_fits: "odd (sint hi - sint lo) \<Longrightarrow> i64_fits (sint lo + (sint hi - 1))"
  shows "closed_form_i64 a b lo hi = (\<Sum>k < nat (sint hi - sint lo). a * (lo + of_nat k) + b)"
proof -
  define N where "N = nat (sint hi - sint lo)"
  define L where "L = sint lo"
  have N: "int N = sint hi - sint lo" "0 < N" using less by (simp_all add: N_def)
  have P: "2 * L + int N - 1 = sint lo + (sint hi - 1)" by (simp add: N L_def)
  have n: "sint (hi - lo) = int N"
    using sint_of_fits [OF n_fits] N by simp
  have p: "(lo + (hi - 1)) = of_int (2 * L + int N - 1)" by (simp add: P)
  have half: "trunc_div (hi - lo) 2 = of_int (int N div 2)" "trunc_rem (hi - lo) 2 = of_int (int N mod 2)"
    using trunc_half [of "hi - lo"] n by (metis of_int_sint_word of_nat_0_le_iff)+
  have half_p: "of_int (int N mod 2) * trunc_div (lo + (hi - 1)) 2 =
      (of_int (int N mod 2 * ((2 * L + int N - 1) sdiv 2)) :: i64)"
  proof (cases "even N")
    case True
    then have "int N mod 2 = 0" by presburger
    then show ?thesis by simp
  next
    case False
    then have "i64_fits (2 * L + int N - 1)" using p_fits N P by (metis even_of_nat)
    then have "sint (lo + (hi - 1)) = 2 * L + int N - 1" using p sint_of_fits by metis
    then show ?thesis by (simp add: trunc_div_def)
  qed
  have "(\<Sum>k < N. (lo + of_nat k)) = (of_int (\<Sum>k < N. L + int k) :: i64)"
    by (simp add: L_def)
  also have "\<dots> = trunc_div (hi - lo) 2 * (lo + (hi - 1)) + trunc_rem (hi - lo) 2 * trunc_div (lo + (hi - 1)) 2"
    unfolding gauss_halved [OF N(2)] half half_p by (simp add: p)
  finally have sum: "(\<Sum>k < N. lo + of_nat k) =
      trunc_div (hi - lo) 2 * (lo + (hi - 1)) + trunc_rem (hi - lo) 2 * trunc_div (lo + (hi - 1)) 2" .
  have "(of_nat N :: i64) = hi - lo" using N(1) by (metis of_int_diff of_int_of_nat_eq of_int_sint_word)
  then have "(\<Sum>k < N. a * (lo + of_nat k) + b) = a * (\<Sum>k < N. lo + of_nat k) + b * (hi - lo)"
    unfolding sum_distrib_left by (subst sum.distrib) (simp add: mult.commute)
  then show ?thesis using less unfolding closed_form_i64_def Let_def sum [symmetric] N_def [symmetric] by simp
qed

subsection \<open>What the recognised parts denote\<close>

lemmas mk_defs = mk_int_def mk_bin_def mk_neg_def

lemma pure_int_cases:
  assumes "plain_int_ctx cx"
  shows "eval_int cx env (mk_bin AstAdd l r sp) = Inr w \<longleftrightarrow> (\<exists>a b. eval_int cx env l = Inr a \<and> eval_int cx env r = Inr b \<and> w = a + b)"
    "eval_int cx env (mk_bin AstSub l r sp) = Inr w \<longleftrightarrow> (\<exists>a b. eval_int cx env l = Inr a \<and> eval_int cx env r = Inr b \<and> w = a - b)"
    "eval_int cx env (mk_bin AstMul l r sp) = Inr w \<longleftrightarrow> (\<exists>a b. eval_int cx env l = Inr a \<and> eval_int cx env r = Inr b \<and> w = a * b)"
    "eval_int cx env (mk_neg e sp) = Inr w \<longleftrightarrow> (\<exists>a. eval_int cx env e = Inr a \<and> w = - a)"
    "eval_int cx env (mk_int v sp) = Inr w \<longleftrightarrow> w = v"
  by (auto simp: mk_defs plain_int_ctxD [OF assms] rbind_eq_Inr apply_int_op_def guard_str_record_value_op_def
      int_neg_def)

text \<open>A pure expression reads only the variables it mentions.\<close>

lemma pure_unread:
  "is_pure_dupable e \<Longrightarrow> \<not> references_ident e x \<Longrightarrow> eval_int cx (env(x := o')) e = eval_int cx env e"
  by (induction e rule: is_pure_dupable.induct) (auto simp: eval_name_def)

lemma affine_of_free: "affine_of e ivar = Some (a, b) \<Longrightarrow> \<not> references_ident a ivar \<and> \<not> references_ident b ivar"
proof (induction e ivar arbitrary: a b rule: affine_of.induct)
  case (5 op left right sp ivar)
  show ?case
  proof (cases "op = AstAdd \<or> op = AstSub")
    case True
    then obtain al bl ar br where "affine_of left ivar = Some (al, bl)" "affine_of right ivar = Some (ar, br)"
        "a = mk_bin op al ar sp" "b = mk_bin op bl br sp"
      using "5.prems" by (auto split: bind_splits)
    then show ?thesis using "5.IH"(1) [OF True] "5.IH"(2) [OF True] by (auto simp: mk_defs)
  next
    case False
    then have op: "op = AstMul" using "5.prems" by (simp split: if_splits)
    obtain al bl ar br where parts: "affine_of left ivar = Some (al, bl)" "affine_of right ivar = Some (ar, br)"
        "a = mk_bin AstMul bl ar sp \<and> b = mk_bin AstMul bl br sp \<or> a = mk_bin AstMul br al sp \<and> b = mk_bin AstMul br bl sp"
      using "5.prems" op by (auto split: bind_splits if_splits)
    show ?thesis using "5.IH"(3) [OF False op parts(1)] "5.IH"(4) [OF False op parts(1) refl parts(2)] parts(3)
      by (auto simp: mk_defs)
  qed
qed (auto simp: mk_defs split: if_splits bind_splits)

lemma affine_of_denotes:
  assumes cx: "plain_int_ctx cx" and i: "env ivar = Some i"
  shows "affine_of e ivar = Some (a, b) \<Longrightarrow> eval_int cx env e = Inr w \<Longrightarrow>
    \<exists>av bv. eval_int cx env a = Inr av \<and> eval_int cx env b = Inr bv \<and> w = av * i + bv"
proof (induction e arbitrary: a b w)
  case (SLit l sp)
  then show ?case
    by (cases l) (auto simp: mk_defs eval_name_def i plain_int_ctxD [OF cx] split: if_splits)
next
  case (SNeg e sp)
  then obtain ao bo ov where parts: "affine_of e ivar = Some (ao, bo)" "a = mk_neg ao sp" "b = mk_neg bo sp"
      "eval_int cx env e = Inr ov" "w = - ov"
    using pure_int_cases(4) [OF cx, of env e sp w] by (auto simp: mk_neg_def split: bind_splits)
  then show ?case using SNeg.IH [OF parts(1,4)] by (auto simp: pure_int_cases [OF cx])
next
  case (SBinary op l r sp)
  obtain al bl ar br where parts: "affine_of l ivar = Some (al, bl)" "affine_of r ivar = Some (ar, br)"
    using SBinary.prems(1) by (auto split: bind_splits if_splits)
  obtain lv rv where "eval_int cx env l = Inr lv" "eval_int cx env r = Inr rv"
    using SBinary.prems(2) by (auto simp: rbind_eq_Inr)
  then obtain alv blv arv brv where vals:
      "eval_int cx env al = Inr alv" "eval_int cx env bl = Inr blv" "lv = alv * i + blv" "eval_int cx env l = Inr lv"
      "eval_int cx env ar = Inr arv" "eval_int cx env br = Inr brv" "rv = arv * i + brv" "eval_int cx env r = Inr rv"
    using SBinary.IH parts by metis
  have w: "eval_int cx env (mk_bin op l r sp) = Inr w" using SBinary.prems(2) by (simp add: mk_bin_def)
  have zero: "eval_const_i64 al = Some 0 \<Longrightarrow> alv = 0" "eval_const_i64 ar = Some 0 \<Longrightarrow> arv = 0"
    using eval_const_intD [OF cx] vals by blast+
  consider "op = AstAdd" | "op = AstSub" | "op = AstMul" using SBinary.prems(1) by (auto split: if_splits)
  then show ?case
  proof cases
    case 2
    then show ?thesis using SBinary.prems(1) parts vals w
      by (intro exI [of _ "alv - arv"] exI [of _ "blv - brv"]) (auto simp: pure_int_cases [OF cx] algebra_simps)
  next
    case 3
    then show ?thesis using SBinary.prems(1) parts vals w zero
      by (auto simp: pure_int_cases [OF cx] algebra_simps split: if_splits)
  qed (use SBinary.prems(1) parts vals w in \<open>auto simp: pure_int_cases [OF cx] algebra_simps\<close>)
qed auto

lemma body_assignmentD: "body_assignment body = Inr (acc, val) \<Longrightarrow> \<exists>sp. body = [SAssign acc val sp]"
  by (cases body) (auto simp: body_assignment_def split: if_splits snode.splits)

lemma recognize_forD:
  assumes "recognize_for var start stop body span = Inr s"
  obtains val sp affine where "body = [SAssign (as_acc s) val sp]"
    and "other_operand AstAdd (as_acc s) NotAccPlus val = Inr affine"
    and "affine_of affine var = Some (as_a s, as_b s)"
    and "is_pure_dupable (as_a s)" "is_pure_dupable (as_b s)" "is_pure_dupable start" "is_pure_dupable stop"
    and "\<not> references_ident (as_a s) (as_acc s)" "\<not> references_ident (as_b s) (as_acc s)"
    and "\<not> bound_varies start stop (as_acc s) var"
    and "as_lo s = start" "as_hi s = stop" "as_span s = span"
proof -
  obtain acc val affine where op: "body_assignment body = Inr (acc, val)"
      "other_operand AstAdd acc NotAccPlus val = Inr affine"
    using assms by (auto simp: recognize_for_def rbind_eq_Inr split: if_splits)
  with assms obtain a b where *: "body_assignment body = Inr (acc, val)"
      "other_operand AstAdd acc NotAccPlus val = Inr affine" "affine_of affine var = Some (a, b)"
    by (cases "affine_of affine var") (auto simp: recognize_for_def split: if_splits)
  obtain sp where "body = [SAssign acc val sp]" using body_assignmentD [OF *(1)] ..
  with assms * show ?thesis by (intro that [of val sp affine]) (auto simp: recognize_for_def split: if_splits)
qed

lemma recognize_geometricD:
  assumes "recognize_geometric var start stop body span = Inr s"
  obtains val sp where "body = [SAssign (gp_acc s) val sp]"
    and "other_operand AstMul (gp_acc s) NotAccTimes val = Inr (gp_r s)"
    and "is_pure_dupable (gp_r s)" "is_pure_dupable start" "is_pure_dupable stop"
    and "\<not> references_ident (gp_r s) (gp_acc s)" "\<not> references_ident (gp_r s) var"
    and "\<not> bound_varies start stop (gp_acc s) var"
    and "gp_lo s = start" "gp_hi s = stop" "gp_span s = span"
proof -
  obtain acc val r where *: "body_assignment body = Inr (acc, val)" "other_operand AstMul acc NotAccTimes val = Inr r"
    using assms by (auto simp: recognize_geometric_def rbind_eq_Inr split: if_splits)
  obtain sp where "body = [SAssign acc val sp]" using body_assignmentD [OF *(1)] ..
  with assms * show ?thesis by (intro that [of val sp]) (auto simp: recognize_geometric_def split: if_splits)
qed

lemma recognize_q16_mapD:
  assumes "recognize_q16_map var start stop body span = Inr s"
  obtains sp where "body = [SAssign (qm_acc s) (qm_f s) sp]"
    and "scalar_refs_ident (qm_f s) (qm_acc s)" "\<not> scalar_refs_ident (qm_f s) var"
    and "qm_lo s = start" "qm_hi s = stop" "qm_span s = span"
proof -
  obtain acc val where *: "body_assignment body = Inr (acc, val)"
    using assms by (auto simp: recognize_q16_map_def rbind_eq_Inr split: if_splits)
  obtain sp where "body = [SAssign acc val sp]" using body_assignmentD [OF *] ..
  with assms * show ?thesis by (intro that [of sp]) (auto simp: recognize_q16_map_def split: if_splits)
qed

lemma other_operand_denotes:
  assumes cx: "plain_int_ctx cx" and acc: "env acc = Some x" and op: "op = AstAdd \<or> op = AstMul"
    and "other_operand op acc err val = Inr e" and "eval_int cx env val = Inr w"
  shows "\<exists>v. eval_int cx env e = Inr v \<and> w = (if op = AstAdd then x + v else x * v)"
proof -
  have ident: "is_ident n acc \<Longrightarrow> eval_int cx env n = Inr x" for n
    using acc plain_int_ctxD(2) [OF cx] by (cases "(n, acc)" rule: is_ident.cases) (auto simp: eval_name_def)
  obtain l r sp where val: "val = mk_bin op l r sp" "is_ident l acc \<and> e = r \<or> is_ident r acc \<and> e = l"
    using assms(4) by (cases "(op, acc, err, val)" rule: other_operand.cases) (auto simp: mk_defs split: if_splits)
  show ?thesis using val(2) ident assms(5) op unfolding val(1)
    by (auto simp: pure_int_cases [OF cx] ac_simps)
qed

end
