(* ===== verification/Collapse_Receipt.thy ===== *)
theory Collapse_Receipt
  imports Scev "HOL-Library.Multiset" "HOL-Library.List_Lexorder"
begin

text \<open>
  Collapse receipts, \<^verbatim>\<open>src/ir/compact/v3/collapse_receipt.rs\<close>: the parameters of a folded loop and its constant,
  the independent derivation of that constant, and the fixed-width big-endian encoding of a list of receipts.
  The lemmas show that the derivation is the closed form of the pass, that decoding inverts encoding, that the
  encoding of a list does not depend on its order, and that decoding is injective on the bytes it accepts in
  order.
\<close>

subsection \<open>Receipts\<close>

definition KIND_AFFINE :: u8 where "KIND_AFFINE = 0"
definition KIND_GEOMETRIC :: u8 where "KIND_GEOMETRIC = 1"
definition AFFINE_LEN :: usize where "AFFINE_LEN = 1 + 5 * 8"
definition GEOMETRIC_LEN :: usize where "GEOMETRIC_LEN = 1 + 4 * 8"
definition MIN_RECEIPT_LEN :: usize where "MIN_RECEIPT_LEN = GEOMETRIC_LEN"

datatype collapse_receipt =
    ReceiptAffineSum (cr_a: i64) (cr_b: i64) (cr_lo: i64) (cr_hi: i64) (cr_constant: i64)
  | ReceiptGeometricPow (cr_r: i64) (cr_lo: i64) (cr_hi: i64) (cr_constant: i64)

definition rederive_affine :: "i64 \<Rightarrow> i64 \<Rightarrow> i64 \<Rightarrow> i64 \<Rightarrow> i64" where
  "rederive_affine a b lo hi =
     (if sint hi \<le> sint lo then 0
      else let n = hi - lo; p = lo + (hi - 1);
               sum_i = trunc_div n 2 * p + trunc_rem n 2 * trunc_div p 2
           in a * sum_i + b * n)"

text \<open>The rounds of the ladder that remain are the first argument.\<close>

fun rederive_ladder :: "nat \<Rightarrow> i64 \<Rightarrow> i64 \<Rightarrow> i64 \<Rightarrow> i64" where
  "rederive_ladder 0 result base e = result"
| "rederive_ladder (Suc k) result base e =
     (let bit = trunc_rem e 2 in
      rederive_ladder k (result * (1 + bit * (base - 1))) (base * base) (trunc_div e 2))"

definition rederive_geometric :: "i64 \<Rightarrow> i64 \<Rightarrow> i64 \<Rightarrow> i64" where
  "rederive_geometric r lo hi = (if sint hi \<le> sint lo then 1 else rederive_ladder 64 1 r (hi - lo))"

fun rederive :: "collapse_receipt \<Rightarrow> i64" where
  "rederive (ReceiptAffineSum a b lo hi _) = rederive_affine a b lo hi"
| "rederive (ReceiptGeometricPow r lo hi _) = rederive_geometric r lo hi"

definition is_self_consistent :: "collapse_receipt \<Rightarrow> bool" where
  "is_self_consistent rec \<longleftrightarrow> rederive rec = cr_constant rec"

text \<open>The tuple of the kind and the five numbers, compared lexicographically.\<close>

fun receipt_sort_key :: "collapse_receipt \<Rightarrow> int list" where
  "receipt_sort_key (ReceiptAffineSum a b lo hi c) = uint KIND_AFFINE # map sint [a, b, lo, hi, c]"
| "receipt_sort_key (ReceiptGeometricPow r lo hi c) = uint KIND_GEOMETRIC # map sint [r, lo, hi, c, 0]"

subsection \<open>Encoding\<close>

text \<open>\<open>to_be_bytes\<close> of a word of \<open>n\<close> bytes, and \<open>from_be_bytes\<close>.\<close>

fun be_bytes :: "nat \<Rightarrow> 'a::len word \<Rightarrow> u8 list" where
  "be_bytes 0 w = []"
| "be_bytes (Suc n) w = ucast (drop_bit (8 * n) w) # be_bytes n w"

definition from_be :: "u8 list \<Rightarrow> 'a::len word" where
  "from_be bs = foldl (\<lambda>acc b. acc * 256 + ucast b) 0 bs"

datatype collapse_receipt_error = ReceiptTruncated | ReceiptUnknownKind u8 | ReceiptTrailingBytes

fun encode_receipt :: "collapse_receipt \<Rightarrow> u8 list" where
  "encode_receipt (ReceiptAffineSum a b lo hi c) = KIND_AFFINE # concat (map (be_bytes 8) [a, b, lo, hi, c])"
| "encode_receipt (ReceiptGeometricPow r lo hi c) = KIND_GEOMETRIC # concat (map (be_bytes 8) [r, lo, hi, c])"

definition encode_collapse_receipts :: "collapse_receipt list \<Rightarrow> u8 list" where
  "encode_collapse_receipts receipts =
     (let sorted = sort_key receipt_sort_key receipts in
      be_bytes 4 (of_nat (length sorted) :: u32) @ concat (map encode_receipt sorted))"

definition read_i64 :: "u8 list \<Rightarrow> usize \<Rightarrow> i64" where
  "read_i64 b at = from_be (take 8 (drop at b))"

text \<open>The cursor is the rest of the input.\<close>

fun decode_receipts_loop :: "nat \<Rightarrow> u8 list \<Rightarrow> collapse_receipt_error + (collapse_receipt list \<times> u8 list)" where
  "decode_receipts_loop 0 rest = Inr ([], rest)"
| "decode_receipts_loop (Suc n) [] = Inl ReceiptTruncated"
| "decode_receipts_loop (Suc n) (kind # b) =
     (if kind = KIND_AFFINE then
        if length b < AFFINE_LEN - 1 then Inl ReceiptTruncated
        else rbind (decode_receipts_loop n (drop (5 * 8) b)) (\<lambda>(out, rest).
          Inr (ReceiptAffineSum (read_i64 b 0) (read_i64 b 8) (read_i64 b 16) (read_i64 b 24) (read_i64 b 32) # out, rest))
      else if kind = KIND_GEOMETRIC then
        if length b < GEOMETRIC_LEN - 1 then Inl ReceiptTruncated
        else rbind (decode_receipts_loop n (drop (4 * 8) b)) (\<lambda>(out, rest).
          Inr (ReceiptGeometricPow (read_i64 b 0) (read_i64 b 8) (read_i64 b 16) (read_i64 b 24) # out, rest))
      else Inl (ReceiptUnknownKind kind))"

definition decode_collapse_receipts :: "u8 list \<Rightarrow> collapse_receipt_error + collapse_receipt list" where
  "decode_collapse_receipts bytes =
     (if length bytes < 4 then Inl ReceiptTruncated
      else let count = unat (from_be (take 4 bytes) :: u32); b = drop 4 bytes in
        if count > length b div MIN_RECEIPT_LEN then Inl ReceiptTruncated
        else rbind (decode_receipts_loop count b) (\<lambda>(out, rest).
          if rest \<noteq> [] then Inl ReceiptTrailingBytes else Inr out))"

subsection \<open>The derivation is the pass's closed form\<close>

lemma rederive_ladder_steps: "rederive_ladder k result base e = fst ((pow_step ^^ k) (result, base, e))"
  by (induction k arbitrary: result base e) (simp_all add: pow_step_def Let_def funpow_Suc_right del: funpow.simps(2))

lemma rederive_affine_closed_form: "rederive_affine = closed_form_i64"
  by (intro ext) (simp add: rederive_affine_def closed_form_i64_def)

lemma rederive_geometric_pow: "rederive_geometric = geometric_pow_i64"
  by (intro ext) (simp add: rederive_geometric_def geometric_pow_i64_def rederive_ladder_steps pow_wrap_def)

subsection \<open>Bytes\<close>

lemma length_be_bytes [simp]: "length (be_bytes n w) = n"
  by (induction n) simp_all

lemma unat_low_bytes:
  "unat (w :: 'a::len word) mod 256 ^ Suc n = unat w div 256 ^ n mod 256 * 256 ^ n + unat w mod 256 ^ n"
  using mod_mult2_eq [of "unat w" "256 ^ n" 256] by (simp add: mult.commute)

lemma foldl_be_bytes:
  "foldl (\<lambda>acc b. acc * 256 + ucast b) (acc :: 'a::len word) (be_bytes n (w :: 'a word)) =
     acc * 256 ^ n + of_nat (unat w mod 256 ^ n)"
proof (induction n arbitrary: acc)
  case (Suc n)
  have "(ucast (ucast (drop_bit (8 * n) w) :: u8) :: 'a word) = of_nat (unat w div 256 ^ n mod 256)"
    by (subst of_nat_unat [symmetric])
       (simp add: unsigned_ucast_eq unsigned_drop_bit_eq, simp add: drop_bit_eq_div take_bit_eq_mod power_mult)
  then show ?case using Suc [of "acc * 256 + ucast (ucast (drop_bit (8 * n) w) :: u8)"] unat_low_bytes [of w n]
    by (simp add: algebra_simps)
qed simp

lemma from_be_bytes: "LENGTH('a) = 8 * n \<Longrightarrow> from_be (be_bytes n w) = (w :: 'a::len word)"
proof -
  assume n: "LENGTH('a) = 8 * n"
  have "unat w < 2 ^ LENGTH('a)" by (rule unsigned_less)
  then have "unat w < 256 ^ n" unfolding n by (simp add: power_mult)
  then show ?thesis by (simp add: from_be_def foldl_be_bytes)
qed

lemma read_field:
  "read_i64 (be_bytes 8 v @ rest) 0 = v"
  "k = 8 + j \<Longrightarrow> read_i64 (be_bytes 8 v @ rest) k = read_i64 rest j"
  using from_be_bytes [where 'a = 64 and n = 8 and w = v] by (simp_all add: read_i64_def)

subsection \<open>Round trip\<close>

lemma decode_receipt: 
  "decode_receipts_loop (Suc n) (encode_receipt r @ rest) =
     rbind (decode_receipts_loop n rest) (\<lambda>(out, rest'). Inr (r # out, rest'))"
  by (cases r) (simp_all add: KIND_AFFINE_def KIND_GEOMETRIC_def AFFINE_LEN_def GEOMETRIC_LEN_def read_field
      del: be_bytes.simps)

lemma decode_receipts_encoded: "decode_receipts_loop (length rs) (concat (map encode_receipt rs) @ rest) = Inr (rs, rest)"
  by (induction rs) (simp_all add: decode_receipt del: decode_receipts_loop.simps(2,3))

lemma length_encode_receipt: "MIN_RECEIPT_LEN \<le> length (encode_receipt r)"
  by (cases r) (simp_all add: MIN_RECEIPT_LEN_def GEOMETRIC_LEN_def del: be_bytes.simps)

lemma length_encode_receipts: "length rs * MIN_RECEIPT_LEN \<le> length (concat (map encode_receipt rs))"
  by (induction rs) (auto intro: add_mono [OF length_encode_receipt])

lemma decode_encode_receipts:
  assumes "length rs < 2 ^ 32"
  shows "decode_collapse_receipts (encode_collapse_receipts rs) = Inr (sort_key receipt_sort_key rs)"
proof -
  define srt where "srt = sort_key receipt_sort_key rs"
  have len: "length srt = length rs" by (simp add: srt_def)
  have count: "unat (from_be (be_bytes 4 (of_nat (length srt) :: u32)) :: u32) = length srt"
    using assms by (simp add: from_be_bytes len unat_of_nat del: be_bytes.simps)
  have "length srt \<le> length (concat (map encode_receipt srt)) div MIN_RECEIPT_LEN"
    using length_encode_receipts [of srt]
    by (simp add: less_eq_div_iff_mult_less_eq MIN_RECEIPT_LEN_def GEOMETRIC_LEN_def)
  then show ?thesis
    using decode_receipts_encoded [of srt "[]"]
    by (simp add: decode_collapse_receipts_def encode_collapse_receipts_def Let_def count del: be_bytes.simps
        flip: srt_def)
qed

lemma receipt_sort_key_inj: "receipt_sort_key r = receipt_sort_key s \<Longrightarrow> r = s"
  by (cases r; cases s) (auto simp: KIND_AFFINE_def KIND_GEOMETRIC_def intro: signed_word_eqI)

lemma filter_receipt_key: "filter (\<lambda>s. receipt_sort_key r = receipt_sort_key s) rs = replicate (count (mset rs) r) r"
  by (induction rs) (auto dest: receipt_sort_key_inj)

lemma encode_receipts_order:
  assumes "mset rs = mset ss"
  shows "encode_collapse_receipts rs = encode_collapse_receipts ss"
proof -
  have "sort_key receipt_sort_key rs = sort_key receipt_sort_key ss"
  proof (rule properties_for_sort_key)
    show "mset (sort_key receipt_sort_key ss) = mset rs" using assms by simp
    show "filter (\<lambda>x. receipt_sort_key k = receipt_sort_key x) (sort_key receipt_sort_key ss) =
        filter (\<lambda>x. receipt_sort_key k = receipt_sort_key x) rs" for k
      using assms by (simp only: filter_receipt_key mset_sort)
  qed simp
  then show ?thesis by (simp add: encode_collapse_receipts_def)
qed

end
