(* ===== verification/Collapse.thy ===== *)
theory Collapse
  imports Collapse_Receipt Rust_Text
begin

text \<open>
  The loop-collapse pass, \<^verbatim>\<open>src/opt/collapse.rs\<close>: it walks the statement lists of a module and replaces each
  \<open>for\<close> loop annotated \<open>#[collapse]\<close> by its closed form, or reports why it cannot.  A diagnostic is its code, its
  reason and the span of the loop; \<^const>\<open>None\<close> is a panic of the pass.
\<close>

subsection \<open>Context\<close>

datatype collapse_code =
    E_COLLAPSE
  | E_COLLAPSE_GEO
  | E_Q16_NOFIX
  | E_Q16_CYCLE
  | E_Q16_DIVERGE
  | E_Q16_DEPENDS_N
  | E_Q16_NONCOMPTIME
  | E_Q16_NONCONST

record collapse_diag =
  cd_span :: ast_span
  cd_code :: collapse_code
  cd_reason :: reject

record 'x collapse_ctx =
  cc_diags :: "collapse_diag list"
  cc_receipts :: "collapse_receipt list"
  cc_fns :: "'x ct_fn_table"

definition COLLAPSE_ATTR :: string where "COLLAPSE_ATTR = ''collapse''"

fun is_collapse_for :: "'x snode \<Rightarrow> bool" where
  "is_collapse_for (SFor _ _ _ _ attrs _) \<longleftrightarrow> (\<exists>a \<in> set attrs. attr_name a = COLLAPSE_ATTR)"
| "is_collapse_for _ \<longleftrightarrow> False"

text \<open>
  The scan enters the statement lists of \<open>child_stmt_lists\<close>, not the operands, conditions, bounds and values of
  statements.
\<close>

fun collapse_scan :: "'x snode \<Rightarrow> bool" where
  "collapse_scan (SFnDef (FnDefData name params body rest) span) \<longleftrightarrow> list_ex collapse_scan body"
| "collapse_scan (SBlock stmts _) \<longleftrightarrow> list_ex collapse_scan stmts"
| "collapse_scan (SFor var start stop body attrs span) \<longleftrightarrow>
     is_collapse_for (SFor var start stop body attrs span) \<or> list_ex collapse_scan body"
| "collapse_scan (SForEach _ _ body _) \<longleftrightarrow> list_ex collapse_scan body"
| "collapse_scan (SIf _ then_branch else_branch _) \<longleftrightarrow>
     list_ex collapse_scan then_branch \<or>
     (case else_branch of None \<Rightarrow> False | Some eb \<Rightarrow> list_ex collapse_scan eb)"
| "collapse_scan (SWhile _ body _) \<longleftrightarrow> list_ex collapse_scan body"
| "collapse_scan (SRegion body _) \<longleftrightarrow> list_ex collapse_scan body"
| "collapse_scan _ \<longleftrightarrow> False"

definition module_has_collapse :: "'x snode list \<Rightarrow> bool" where
  "module_has_collapse items = list_ex collapse_scan items"

definition build_fn_table :: "'x snode list \<Rightarrow> 'x ct_fn_table" where
  "build_fn_table items =
     fold (\<lambda>item table.
       case item of
         SFnDef fd _ \<Rightarrow> table(fd_name fd \<mapsto> (fd_params fd, fd_body fd))
       | _ \<Rightarrow> table) items Map.empty"

definition push_diag :: "ast_span \<Rightarrow> collapse_code \<Rightarrow> reject \<Rightarrow> 'x collapse_ctx \<Rightarrow> 'x collapse_ctx" where
  "push_diag span code reason ctx =
     ctx\<lparr>cc_diags := cc_diags ctx @ [\<lparr>cd_span = span, cd_code = code, cd_reason = reason\<rparr>]\<rparr>"

subsection \<open>Receipts\<close>

definition record_affine_receipt :: "'x affine_sum \<Rightarrow> 'x collapse_ctx \<Rightarrow> 'x collapse_ctx" where
  "record_affine_receipt affine ctx =
     (case (eval_const_i64 (as_a affine), eval_const_i64 (as_b affine),
            eval_const_i64 (as_lo affine), eval_const_i64 (as_hi affine)) of
        (Some a, Some b, Some lo, Some hi) \<Rightarrow>
          ctx\<lparr>cc_receipts := cc_receipts ctx @ [ReceiptAffineSum a b lo hi (closed_form_i64 a b lo hi)]\<rparr>
      | _ \<Rightarrow> ctx)"

definition record_geometric_receipt :: "'x geometric_pow \<Rightarrow> 'x collapse_ctx \<Rightarrow> 'x collapse_ctx" where
  "record_geometric_receipt geo ctx =
     (case (eval_const_i64 (gp_r geo), eval_const_i64 (gp_lo geo), eval_const_i64 (gp_hi geo)) of
        (Some r, Some lo, Some hi) \<Rightarrow>
          ctx\<lparr>cc_receipts := cc_receipts ctx @ [ReceiptGeometricPow r lo hi (geometric_pow_i64 r lo hi)]\<rparr>
      | _ \<Rightarrow> ctx)"

subsection \<open>Replacements\<close>

definition mk_ident :: "string \<Rightarrow> ast_span \<Rightarrow> 'x snode" where
  "mk_ident name sp = SLit (LIdent name) sp"

definition mk_assign :: "string \<Rightarrow> 'x snode \<Rightarrow> ast_span \<Rightarrow> 'x snode" where
  "mk_assign name val sp = SAssign name val sp"

definition let_i64 :: "string \<Rightarrow> 'x snode \<Rightarrow> ast_span \<Rightarrow> 'x snode" where
  "let_i64 name val sp = SLet name True (Some AnnScalarI64) val sp"

definition assign_acc_plus :: "string \<Rightarrow> 'x snode \<Rightarrow> ast_span \<Rightarrow> 'x snode" where
  "assign_acc_plus acc added sp = SAssign acc (mk_bin AstAdd (SLit (LIdent acc) sp) added sp) sp"

definition assign_acc_mul :: "string \<Rightarrow> 'x snode \<Rightarrow> ast_span \<Rightarrow> 'x snode" where
  "assign_acc_mul acc factor sp = SAssign acc (mk_bin AstMul (SLit (LIdent acc) sp) factor sp) sp"

definition assign_const :: "string \<Rightarrow> i64 \<Rightarrow> ast_span \<Rightarrow> 'x snode" where
  "assign_const acc v sp = SAssign acc (mk_int v sp) sp"

definition build_symbolic_sum :: "'x affine_sum \<Rightarrow> ast_span \<Rightarrow> 'x snode" where
  "build_symbolic_sum affine sp =
     (let lo = as_lo affine; hi = as_hi affine;
          n = mk_bin AstSub hi lo sp;
          p = mk_bin AstAdd lo (mk_bin AstSub hi (mk_int 1 sp) sp) sp;
          sum_i = mk_bin AstAdd
            (mk_bin AstMul (mk_bin AstDiv n (mk_int 2 sp) sp) p sp)
            (mk_bin AstMul (mk_bin AstMod n (mk_int 2 sp) sp) (mk_bin AstDiv p (mk_int 2 sp) sp) sp) sp
      in mk_bin AstAdd (mk_bin AstMul (as_a affine) sum_i sp) (mk_bin AstMul (as_b affine) n sp) sp)"

definition build_closed_form :: "'x affine_sum \<Rightarrow> reject + 'x snode" where
  "build_closed_form affine =
     (let sp = as_span affine; acc = as_acc affine in
      case (eval_const_i64 (as_a affine), eval_const_i64 (as_b affine),
            eval_const_i64 (as_lo affine), eval_const_i64 (as_hi affine)) of
        (Some a, Some b, Some lo, Some hi) \<Rightarrow>
          if sint hi > sint lo \<and>
             (checked_sub hi lo = None \<or> do { h1 \<leftarrow> checked_sub hi 1; checked_add lo h1 } = None)
          then Inl SpanOverflows
          else Inr (assign_acc_plus acc (mk_int (closed_form_i64 a b lo hi) sp) sp)
      | _ \<Rightarrow>
          Inr (SIf (mk_bin AstLt (as_lo affine) (as_hi affine) sp)
                 [assign_acc_plus acc (build_symbolic_sum affine sp) sp] None sp))"

definition pow_base :: "ast_span \<Rightarrow> string" where
  "pow_base sp = ''__mind_collapse_base_'' @ show_nat (sp_start sp)"
definition pow_exp :: "ast_span \<Rightarrow> string" where
  "pow_exp sp = ''__mind_collapse_exp_'' @ show_nat (sp_start sp)"
definition pow_pow :: "ast_span \<Rightarrow> string" where
  "pow_pow sp = ''__mind_collapse_pow_'' @ show_nat (sp_start sp)"
definition pow_k :: "ast_span \<Rightarrow> string" where
  "pow_k sp = ''__mind_collapse_k_'' @ show_nat (sp_start sp)"

definition pow_ladder_body :: "ast_span \<Rightarrow> 'x snode list" where
  "pow_ladder_body sp =
     (let base = pow_base sp; exp = pow_exp sp; pow = pow_pow sp;
          bit = mk_bin AstMod (mk_ident exp sp) (mk_int 2 sp) sp;
          masked = mk_bin AstAdd (mk_int 1 sp)
            (mk_bin AstMul bit (mk_bin AstSub (mk_ident base sp) (mk_int 1 sp) sp) sp) sp
      in [mk_assign pow (mk_bin AstMul (mk_ident pow sp) masked sp) sp,
          mk_assign base (mk_bin AstMul (mk_ident base sp) (mk_ident base sp) sp) sp,
          mk_assign exp (mk_bin AstDiv (mk_ident exp sp) (mk_int 2 sp) sp) sp])"

definition build_symbolic_pow :: "'x geometric_pow \<Rightarrow> ast_span \<Rightarrow> 'x snode" where
  "build_symbolic_pow geo sp =
     (let ladder = SFor (pow_k sp) (mk_int 0 sp) (mk_int 64 sp) (pow_ladder_body sp) [] sp;
          stmts = [let_i64 (pow_base sp) (gp_r geo) sp,
                   let_i64 (pow_exp sp) (mk_bin AstSub (gp_hi geo) (gp_lo geo) sp) sp,
                   let_i64 (pow_pow sp) (mk_int 1 sp) sp,
                   ladder,
                   assign_acc_mul (gp_acc geo) (mk_ident (pow_pow sp) sp) sp]
      in SIf (mk_bin AstLt (gp_lo geo) (gp_hi geo) sp) stmts None sp)"

definition build_geometric :: "'x geometric_pow \<Rightarrow> reject + 'x snode" where
  "build_geometric geo =
     (let sp = gp_span geo; acc = gp_acc geo in
      case (eval_const_i64 (gp_r geo), eval_const_i64 (gp_lo geo), eval_const_i64 (gp_hi geo)) of
        (Some r, Some lo, Some hi) \<Rightarrow>
          if sint hi > sint lo \<and> checked_sub hi lo = None then Inl SpanOverflows
          else Inr (assign_acc_mul acc (mk_int (geometric_pow_i64 r lo hi) sp) sp)
      | _ \<Rightarrow> Inr (build_symbolic_pow geo sp))"

subsection \<open>Q16.16 maps\<close>

text \<open>\<open>saturating_sub\<close> on \<open>i64\<close>.\<close>

definition saturating_sub :: "i64 \<Rightarrow> i64 \<Rightarrow> i64" where
  "saturating_sub a b = word_of_int (max (- (2 ^ 63)) (min (2 ^ 63 - 1) (sint a - sint b)))"

definition q16_trip_count :: "i64 \<Rightarrow> i64 \<Rightarrow> i64" where
  "q16_trip_count lo hi = (if sint hi > sint lo then saturating_sub hi lo else 0)"

text \<open>The preceding statements, nearest first.\<close>

fun find_const_seed_rev :: "'x snode list \<Rightarrow> string \<Rightarrow> i64 option" where
  "find_const_seed_rev [] acc = None"
| "find_const_seed_rev (node # rest) acc =
     (case node of
        SLet name _ _ val _ \<Rightarrow> if name = acc then eval_const_i64 val else find_const_seed_rev rest acc
      | SAssign name val _ \<Rightarrow> if name = acc then eval_const_i64 val else find_const_seed_rev rest acc
      | _ \<Rightarrow> find_const_seed_rev rest acc)"

definition find_const_seed :: "'x snode list \<Rightarrow> string \<Rightarrow> i64 option" where
  "find_const_seed preceding acc = find_const_seed_rev (rev preceding) acc"

definition build_q16_collapse ::
    "bool \<Rightarrow> 'x q16_map \<Rightarrow> 'x snode list \<Rightarrow> 'x collapse_ctx \<Rightarrow> ('x snode option \<times> 'x collapse_ctx) option" where
  "build_q16_collapse oc qm preceding ctx =
     (let sp = qm_span qm in
      case (eval_const_i64 (qm_lo qm), eval_const_i64 (qm_hi qm)) of
        (Some lo, Some hi) \<Rightarrow>
          (case find_const_seed preceding (qm_acc qm) of
             None \<Rightarrow> Some (None, push_diag sp E_Q16_NONCONST SeedNotConst ctx)
           | Some seed \<Rightarrow> do {
               out \<leftarrow> iterate_user_fixed_point oc (qm_f qm) (qm_acc qm) (cc_fns ctx) seed (q16_trip_count lo hi);
               Some (case out of
                   Fixed v \<Rightarrow> (Some (assign_const (qm_acc qm) v sp), ctx)
                 | Cycle _ \<Rightarrow> (None, push_diag sp E_Q16_CYCLE MapCycles ctx)
                 | Diverged \<Rightarrow> (None, push_diag sp E_Q16_DIVERGE MapDiverges ctx)
                 | DependsOnN \<Rightarrow> (None, push_diag sp E_Q16_DEPENDS_N MapDependsOnN ctx)
                 | NonComptime \<Rightarrow> (None, push_diag sp E_Q16_NONCOMPTIME MapNotComptime ctx)
                 | NoFixedPoint \<Rightarrow> (None, push_diag sp E_Q16_NOFIX MapNoFixedPoint ctx)) })
      | _ \<Rightarrow> Some (None, push_diag sp E_Q16_NONCONST BoundsNotConst ctx))"

fun rhs_is_call :: "'x snode \<Rightarrow> bool" where
  "rhs_is_call (SCall _ _ _) \<longleftrightarrow> True"
| "rhs_is_call (SParen inner _) \<longleftrightarrow> rhs_is_call inner"
| "rhs_is_call (SNeg operand _) \<longleftrightarrow> rhs_is_call operand"
| "rhs_is_call _ \<longleftrightarrow> False"

fun body_is_q16_map_attempt :: "'x snode list \<Rightarrow> bool" where
  "body_is_q16_map_attempt [SAssign _ val _] \<longleftrightarrow> rhs_is_call val"
| "body_is_q16_map_attempt _ \<longleftrightarrow> False"

fun body_is_mul_accumulation :: "'x snode list \<Rightarrow> bool" where
  "body_is_mul_accumulation [SAssign _ (SBinary op _ _ _) _] \<longleftrightarrow> op = AstMul"
| "body_is_mul_accumulation _ \<longleftrightarrow> False"

subsection \<open>The pass\<close>

fun try_collapse ::
    "bool \<Rightarrow> 'x snode list \<Rightarrow> 'x snode \<Rightarrow> 'x collapse_ctx \<Rightarrow> ('x snode option \<times> 'x collapse_ctx) option" where
  "try_collapse oc preceding (SFor var start stop body _ span) ctx =
     (case recognize_for var start stop body span of
        Inr affine \<Rightarrow>
          (case build_closed_form affine of
             Inr replacement \<Rightarrow> Some (Some replacement, record_affine_receipt affine ctx)
           | Inl reason \<Rightarrow> Some (None, push_diag span E_COLLAPSE reason ctx))
      | Inl affine_reject \<Rightarrow>
          (case recognize_geometric var start stop body span of
             Inr geo \<Rightarrow>
               (case build_geometric geo of
                  Inr replacement \<Rightarrow> Some (Some replacement, record_geometric_receipt geo ctx)
                | Inl reason \<Rightarrow> Some (None, push_diag span E_COLLAPSE_GEO reason ctx))
           | Inl geo_reject \<Rightarrow>
               (case recognize_q16_map var start stop body span of
                  Inr qm \<Rightarrow> build_q16_collapse oc qm preceding ctx
                | Inl q16_reject \<Rightarrow>
                    Some (None,
                      if body_is_q16_map_attempt body then push_diag span E_Q16_NONCOMPTIME q16_reject ctx
                      else if body_is_mul_accumulation body then push_diag span E_COLLAPSE_GEO geo_reject ctx
                      else push_diag span E_COLLAPSE affine_reject ctx))))"
| "try_collapse oc preceding _ ctx = Some (None, ctx)"

text \<open>
  The lists of \<open>child_stmt_lists\<close> are rewritten in place, left to right; \<open>before\<close> is the rewritten part of a list.
\<close>

function (sequential) rewrite_node :: "bool \<Rightarrow> 'x snode \<Rightarrow> 'x collapse_ctx \<Rightarrow> ('x snode \<times> 'x collapse_ctx) option"
  and rewrite_stmt_list ::
    "bool \<Rightarrow> 'x snode list \<Rightarrow> 'x snode list \<Rightarrow> 'x collapse_ctx \<Rightarrow> ('x snode list \<times> 'x collapse_ctx) option"
where
  "rewrite_node oc (SFnDef (FnDefData name params body rest) span) ctx = do {
     (body', ctx') \<leftarrow> rewrite_stmt_list oc [] body ctx;
     Some (SFnDef (FnDefData name params body' rest) span, ctx') }"
| "rewrite_node oc (SBlock stmts span) ctx = do {
     (stmts', ctx') \<leftarrow> rewrite_stmt_list oc [] stmts ctx;
     Some (SBlock stmts' span, ctx') }"
| "rewrite_node oc (SFor var start stop body attrs span) ctx = do {
     (body', ctx') \<leftarrow> rewrite_stmt_list oc [] body ctx;
     Some (SFor var start stop body' attrs span, ctx') }"
| "rewrite_node oc (SForEach var iter body span) ctx = do {
     (body', ctx') \<leftarrow> rewrite_stmt_list oc [] body ctx;
     Some (SForEach var iter body' span, ctx') }"
| "rewrite_node oc (SIf c then_branch (Some eb) span) ctx = do {
     (then', ctx') \<leftarrow> rewrite_stmt_list oc [] then_branch ctx;
     (eb', ctx'') \<leftarrow> rewrite_stmt_list oc [] eb ctx';
     Some (SIf c then' (Some eb') span, ctx'') }"
| "rewrite_node oc (SIf c then_branch None span) ctx = do {
     (then', ctx') \<leftarrow> rewrite_stmt_list oc [] then_branch ctx;
     Some (SIf c then' None span, ctx') }"
| "rewrite_node oc (SWhile c body span) ctx = do {
     (body', ctx') \<leftarrow> rewrite_stmt_list oc [] body ctx;
     Some (SWhile c body' span, ctx') }"
| "rewrite_node oc (SRegion body span) ctx = do {
     (body', ctx') \<leftarrow> rewrite_stmt_list oc [] body ctx;
     Some (SRegion body' span, ctx') }"
| "rewrite_node oc other ctx = Some (other, ctx)"
| "rewrite_stmt_list oc before [] ctx = Some (before, ctx)"
| "rewrite_stmt_list oc before (node # rest) ctx =
     (if is_collapse_for node then do {
        (replacement, ctx') \<leftarrow> try_collapse oc before node ctx;
        rewrite_stmt_list oc (before @ [case replacement of Some r \<Rightarrow> r | None \<Rightarrow> node]) rest ctx' }
      else do {
        (node', ctx') \<leftarrow> rewrite_node oc node ctx;
        rewrite_stmt_list oc (before @ [node']) rest ctx' })"
  by pat_completeness auto
termination
  by (relation "measure (\<lambda>x. case x of
      Inl (_, n, _) \<Rightarrow> 2 * size n
    | Inr (_, _, ss, _) \<Rightarrow> 2 * size_list size ss + 1)") auto

primrec rewrite_items :: "bool \<Rightarrow> 'x snode list \<Rightarrow> 'x collapse_ctx \<Rightarrow> ('x snode list \<times> 'x collapse_ctx) option" where
  "rewrite_items oc [] ctx = Some ([], ctx)"
| "rewrite_items oc (item # items) ctx = do {
     (item', ctx') \<leftarrow> rewrite_node oc item ctx;
     (items', ctx'') \<leftarrow> rewrite_items oc items ctx';
     Some (item' # items', ctx'') }"

text \<open>The rewritten items, the diagnostics and the receipts.\<close>

definition collapse_module ::
    "bool \<Rightarrow> 'x snode list \<Rightarrow> ('x snode list \<times> collapse_diag list \<times> collapse_receipt list) option" where
  "collapse_module oc items = do {
     (items', ctx) \<leftarrow> rewrite_items oc items
       \<lparr>cc_diags = [], cc_receipts = [], cc_fns = if module_has_collapse items then build_fn_table items else Map.empty\<rparr>;
     Some (items', cc_diags ctx, cc_receipts ctx) }"

end
