(* ===== verification/Collapse_Sound.thy ===== *)
theory Collapse_Sound
  imports Collapse
begin

text \<open>
  Correctness of the loop-collapse pass: a loop that runs to its end in the interpreter and its replacement
  leave the same variables, for affine sums, geometric powers and Q16.16 maps; a module that compiles without a
  diagnostic has no annotated loop left; every receipt is self-consistent.
\<close>

subsection \<open>Loops of one assignment\<close>

primrec loop_val :: "('a \<Rightarrow> i64 \<Rightarrow> 'a) \<Rightarrow> 'a \<Rightarrow> i64 \<Rightarrow> nat \<Rightarrow> 'a" where
  "loop_val g x i 0 = x"
| "loop_val g x i (Suc n) = loop_val g (g x i) (i + 1) n"

lemma exec_for_assign:
  assumes step: "\<And>x i w. eval_int cx (env0(acc \<mapsto> x, var \<mapsto> i)) val = Inr w \<Longrightarrow> w = g x i" and ne: "acc \<noteq> var"
  shows "exec_for cx var i n [SAssign acc val sp] res env = Inr (v, env') \<Longrightarrow>
    (\<And>o'. env(var := o') = env0(acc \<mapsto> x, var := o')) \<Longrightarrow>
    env'(var := o') = env0(acc \<mapsto> loop_val g x i n, var := o')"
proof (induction n arbitrary: i res env x)
  case (Suc n)
  from Suc.prems(1) obtain w where w: "eval_int cx (env(var \<mapsto> i)) val = Inr w"
      and rest: "exec_for cx var (i + 1) n [SAssign acc val sp] w (env(var \<mapsto> i, acc \<mapsto> w)) = Inr (v, env')"
    by (auto simp: rbind_eq_Inr restore_def)
  have w: "w = g x i" by (rule step [OF w [unfolded Suc.prems(2)]])
  have e: "(env(var \<mapsto> i, acc \<mapsto> w))(var := o') = env0(acc \<mapsto> w, var := o')" for o'
    using Suc.prems(2) [of o'] ne by (metis fun_upd_twist fun_upd_upd)
  show ?case using Suc.IH [OF rest e] unfolding w loop_val.simps .
qed auto

lemma exec_for_first:
  "exec_for cx var i n [SAssign acc val sp] res env = Inr (v, env') \<Longrightarrow> 0 < n \<Longrightarrow>
     \<exists>w. eval_int cx (env(var \<mapsto> i)) val = Inr w"
  by (cases n) (auto simp: rbind_eq_Inr)

text \<open>A range loop of one assignment whose step is known, run on an accumulator that holds \<open>x\<close>.\<close>

lemma for_assign_runs:
  assumes run: "exec_stmt cx (SFor var start stop [SAssign acc val sp] attrs span) env saves = Inr (v, env', saves')"
    and acc: "env acc = Some x" and ne: "acc \<noteq> var"
    and step: "\<And>x i w. eval_int cx (env(acc \<mapsto> x, var \<mapsto> i)) val = Inr w \<Longrightarrow> w = g x i"
  obtains lo hi where "eval_int cx env start = Inr lo" "eval_int cx env stop = Inr hi" "saves' = saves"
    and "env' = env(acc \<mapsto> loop_val g x lo (nat (sint hi - sint lo)))"
    and "sint lo < sint hi \<Longrightarrow> \<exists>w. eval_int cx (env(acc \<mapsto> x, var \<mapsto> lo)) val = Inr w"
proof -
  from run obtain lo hi e1 where parts: "eval_int cx env start = Inr lo" "eval_int cx env stop = Inr hi"
      "exec_for cx var lo (nat (sint hi - sint lo)) [SAssign acc val sp] 0 env = Inr (v, e1)"
      "env' = e1(var := env var)" "saves' = saves"
    by (auto simp: rbind_eq_Inr)
  have e: "env(var := o') = env(acc \<mapsto> x, var := o')" for o' using acc ne by auto
  have "env' = env(acc \<mapsto> loop_val g x lo (nat (sint hi - sint lo)), var := env var)"
    using exec_for_assign [OF step ne parts(3) e] parts(4) by simp
  then have "env' = env(acc \<mapsto> loop_val g x lo (nat (sint hi - sint lo)))" using ne by auto
  with parts exec_for_first [OF parts(3)] e [of "Some lo"] show ?thesis by (intro that) auto
qed

subsection \<open>Affine sums\<close>

lemma loop_val_sum: "loop_val (\<lambda>x i. x + f i) x lo n = x + (\<Sum>k < n. f (lo + of_nat k))"
proof (induction n arbitrary: x lo)
  case (Suc n)
  have "(\<Sum>k < Suc n. f (lo + of_nat k)) = f lo + (\<Sum>k < n. f (lo + 1 + of_nat k))"
    by (subst sum.lessThan_Suc_shift) (simp add: algebra_simps)
  then show ?case using Suc by (simp add: algebra_simps)
qed simp

definition affine_const :: "'x affine_sum \<Rightarrow> bool" where
  "affine_const s \<longleftrightarrow> eval_const_i64 (as_a s) \<noteq> None \<and> eval_const_i64 (as_b s) \<noteq> None \<and>
     eval_const_i64 (as_lo s) \<noteq> None \<and> eval_const_i64 (as_hi s) \<noteq> None"

text \<open>The ranges on which the halved form is exact.\<close>

definition feasible_range :: "i64 \<Rightarrow> i64 \<Rightarrow> bool" where
  "feasible_range lo hi \<longleftrightarrow>
     i64_fits (sint hi - sint lo) \<and> (odd (sint hi - sint lo) \<longrightarrow> i64_fits (sint lo + (sint hi - 1)))"

lemma affine_loop_result:
  assumes cx: "plain_int_ctx cx"
    and s: "recognize_for var start stop body span = Inr s"
    and run: "exec_stmt cx (SFor var start stop body attrs span) env saves = Inr (v, env', saves')"
    and acc: "env (as_acc s) = Some x" and ne: "as_acc s \<noteq> var"
  obtains lo hi where "eval_int cx env start = Inr lo" "eval_int cx env stop = Inr hi" "saves' = saves"
    and "sint lo < sint hi \<Longrightarrow> \<exists>a b. eval_int cx env (as_a s) = Inr a \<and> eval_int cx env (as_b s) = Inr b \<and>
      env' = env(as_acc s \<mapsto> x + (\<Sum>k < nat (sint hi - sint lo). a * (lo + of_nat k) + b))"
    and "\<not> sint lo < sint hi \<Longrightarrow> env' = env"
proof -
  obtain val sp affine where body: "body = [SAssign (as_acc s) val sp]"
      and op: "other_operand AstAdd (as_acc s) NotAccPlus val = Inr affine"
      and af: "affine_of affine var = Some (as_a s, as_b s)"
      and pure: "is_pure_dupable (as_a s)" "is_pure_dupable (as_b s)"
      and free: "\<not> references_ident (as_a s) (as_acc s)" "\<not> references_ident (as_b s) (as_acc s)"
    using recognize_forD [OF s] by metis
  have unread: "eval_int cx (env(as_acc s \<mapsto> y, var \<mapsto> i)) (as_a s) = eval_int cx env (as_a s)"
      "eval_int cx (env(as_acc s \<mapsto> y, var \<mapsto> i)) (as_b s) = eval_int cx env (as_b s)" for y i
    using affine_of_free [OF af] pure free by (simp_all add: pure_unread)
  have step: "\<exists>a b. eval_int cx env (as_a s) = Inr a \<and> eval_int cx env (as_b s) = Inr b \<and> w = y + (a * i + b)"
    if "eval_int cx (env(as_acc s \<mapsto> y, var \<mapsto> i)) val = Inr w" for y i w
  proof -
    have "(env(as_acc s \<mapsto> y, var \<mapsto> i)) (as_acc s) = Some y" using ne by simp
    from other_operand_denotes [OF cx this _ op that] obtain u
      where "eval_int cx (env(as_acc s \<mapsto> y, var \<mapsto> i)) affine = Inr u" "w = y + u" by auto
    then show ?thesis
      using affine_of_denotes [OF cx _ af, of "env(as_acc s \<mapsto> y, var \<mapsto> i)" i u] unread by auto
  qed
  define a where "a = projr (eval_int cx env (as_a s))"
  define b where "b = projr (eval_int cx env (as_b s))"
  have step': "w = y + (a * i + b)" if "eval_int cx (env(as_acc s \<mapsto> y, var \<mapsto> i)) val = Inr w" for y i w
    using step [OF that] by (auto simp: a_def b_def)
  obtain lo hi where r:
      "eval_int cx env start = Inr lo" "eval_int cx env stop = Inr hi" "saves' = saves"
      "env' = env(as_acc s \<mapsto> loop_val (\<lambda>y i. y + (a * i + b)) x lo (nat (sint hi - sint lo)))"
      "sint lo < sint hi \<Longrightarrow> \<exists>w. eval_int cx (env(as_acc s \<mapsto> x, var \<mapsto> lo)) val = Inr w"
    by (rule for_assign_runs [OF run [unfolded body] acc ne step']) (assumption | rule that)+
  show ?thesis
  proof (rule that [OF r(1-3)])
    assume "sint lo < sint hi"
    then obtain w where "eval_int cx (env(as_acc s \<mapsto> x, var \<mapsto> lo)) val = Inr w" using r(5) by blast
    from step [OF this] show "\<exists>a b. eval_int cx env (as_a s) = Inr a \<and> eval_int cx env (as_b s) = Inr b \<and>
      env' = env(as_acc s \<mapsto> x + (\<Sum>k < nat (sint hi - sint lo). a * (lo + of_nat k) + b))"
      using r(4) by (auto simp: a_def b_def loop_val_sum [of "\<lambda>i. _ * i + _"])
  next
    assume "\<not> sint lo < sint hi"
    then show "env' = env" using r(4) acc by auto
  qed
qed

lemma exec_assign_plus:
  assumes cx: "plain_int_ctx cx" and "env acc = Some x" and "eval_int cx env e = Inr c"
  shows "exec_stmt cx (assign_acc_plus acc e sp) env saves = Inr (x + c, env(acc \<mapsto> x + c), saves)"
    "exec_stmt cx (assign_acc_mul acc e sp) env saves = Inr (x * c, env(acc \<mapsto> x * c), saves)"
  using assms(2,3) by (simp_all add: assign_acc_plus_def assign_acc_mul_def mk_defs eval_name_def
      plain_int_ctxD [OF cx] apply_int_op_def guard_str_record_value_op_def)

lemma pure_int_runs:
  assumes cx: "plain_int_ctx cx" and "eval_int cx env l = Inr a" and "eval_int cx env r = Inr b"
  shows "eval_int cx env (mk_bin AstAdd l r sp) = Inr (a + b)"
    "eval_int cx env (mk_bin AstSub l r sp) = Inr (a - b)"
    "eval_int cx env (mk_bin AstMul l r sp) = Inr (a * b)"
    "eval_int cx env (mk_bin AstLt l r sp) = Inr (i64_of_bool (sint a < sint b))"
    "eval_int cx env (mk_bin AstDiv l (mk_int 2 sp) sp) = Inr (trunc_div a 2)"
    "eval_int cx env (mk_bin AstMod l (mk_int 2 sp) sp) = Inr (trunc_rem a 2)"
  using assms(2,3) by (simp_all add: mk_defs plain_int_ctxD [OF cx] apply_int_op_def
      guard_str_record_value_op_def or_panic_def arith_div_def arith_rem_def div_defined_def)

lemma eval_mk_int [simp]: "eval_int cx env (mk_int v sp) = Inr v"
  by (simp add: mk_int_def)

lemma eval_symbolic_sum:
  assumes cx: "plain_int_ctx cx"
    and "eval_int cx env (as_lo s) = Inr lo" "eval_int cx env (as_hi s) = Inr hi"
    and "eval_int cx env (as_a s) = Inr a" "eval_int cx env (as_b s) = Inr b"
    and "sint lo < sint hi"
  shows "eval_int cx env (build_symbolic_sum s sp) = Inr (closed_form_i64 a b lo hi)"
proof -
  note run = pure_int_runs [OF cx]
  have n: "eval_int cx env (mk_bin AstSub (as_hi s) (as_lo s) sp) = Inr (hi - lo)" using run(2) assms by blast
  have p: "eval_int cx env (mk_bin AstAdd (as_lo s) (mk_bin AstSub (as_hi s) (mk_int 1 sp) sp) sp) = Inr (lo + (hi - 1))"
    by (intro run(1) run(2) assms(2,3) eval_mk_int)
  show ?thesis unfolding build_symbolic_sum_def closed_form_i64_def Let_def
    using assms(6) by (simp only: not_le if_False linorder_not_less [symmetric] simp_thms)
      (intro run(1) run(3) assms(4,5) n p run(5) [OF n eval_mk_int] run(6) [OF n eval_mk_int] run(5) [OF p eval_mk_int])
qed

lemma i64_of_bool_simps [simp]: "i64_of_bool True = 1" "i64_of_bool False = 0"
  by (simp_all add: i64_of_bool_def)

lemma affine_collapse_runs:
  assumes cx: "plain_int_ctx cx"
    and s: "recognize_for var start stop body span = Inr s"
    and build: "build_closed_form s = Inr replacement"
    and run: "exec_stmt cx (SFor var start stop body attrs span) env saves = Inr (v, env', saves')"
    and acc: "env (as_acc s) = Some x" and ne: "as_acc s \<noteq> var"
    and feasible: "\<And>lo hi. \<not> affine_const s \<Longrightarrow> eval_int cx env start = Inr lo \<Longrightarrow> eval_int cx env stop = Inr hi \<Longrightarrow>
      sint lo < sint hi \<Longrightarrow> feasible_range lo hi"
  shows "\<exists>v'. exec_stmt cx replacement env saves = Inr (v', env', saves')"
proof -
  obtain lo hi where r: "eval_int cx env start = Inr lo" "eval_int cx env stop = Inr hi" "saves' = saves"
    and some: "sint lo < sint hi \<Longrightarrow> \<exists>a b. eval_int cx env (as_a s) = Inr a \<and> eval_int cx env (as_b s) = Inr b \<and>
      env' = env(as_acc s \<mapsto> x + (\<Sum>k < nat (sint hi - sint lo). a * (lo + of_nat k) + b))"
    and none: "\<not> sint lo < sint hi \<Longrightarrow> env' = env"
    using affine_loop_result [OF cx s run acc ne] by blast
  have bounds: "as_lo s = start" "as_hi s = stop" using recognize_forD [OF s] by metis+
  have closed: "\<exists>a b. eval_int cx env (as_a s) = Inr a \<and> eval_int cx env (as_b s) = Inr b \<and>
      env' = env(as_acc s \<mapsto> x + closed_form_i64 a b lo hi)"
    if "sint lo < sint hi" "feasible_range lo hi"
    using some [OF that(1)] closed_form_sum [OF that(1)] that(2) by (auto simp: feasible_range_def)
  show ?thesis
  proof (cases "affine_const s")
    case True
    then obtain a b l h where c: "eval_const_i64 (as_a s) = Some a" "eval_const_i64 (as_b s) = Some b"
        "eval_const_i64 (as_lo s) = Some l" "eval_const_i64 (as_hi s) = Some h"
      by (auto simp: affine_const_def)
    have lh: "l = lo" "h = hi" using eval_const_intD [OF cx] c(3,4) r(1,2) bounds by metis+
    have rep: "replacement = assign_acc_plus (as_acc s) (mk_int (closed_form_i64 a b lo hi) (as_span s)) (as_span s)"
        "sint lo < sint hi \<Longrightarrow> checked_sub hi lo \<noteq> None \<and> do { h1 \<leftarrow> checked_sub hi 1; checked_add lo h1 } \<noteq> None"
      using build c lh by (auto simp: build_closed_form_def Let_def split: if_splits)
    have "env' = env(as_acc s \<mapsto> x + closed_form_i64 a b lo hi)"
    proof (cases "sint lo < sint hi")
      case less: True
      obtain h1 where h1: "checked_sub hi 1 = Some h1" "checked_add lo h1 \<noteq> None" "checked_sub hi lo \<noteq> None"
        using rep(2) [OF less] by (auto split: bind_splits)
      have "feasible_range lo hi"
        using h1 checked_sub_exact [OF h1(1)] by (auto simp: feasible_range_def checked_add_def checked_sub_def split: if_splits)
      then show ?thesis using closed [OF less] eval_const_intD [OF cx] c(1,2) by metis
    next
      case False
      then show ?thesis using none acc by (auto simp: closed_form_i64_def)
    qed
    then show ?thesis using exec_assign_plus(1) [OF cx, where env = env and acc = "as_acc s", OF acc, of "mk_int (closed_form_i64 a b lo hi) (as_span s)"] rep(1) r(3)
      by auto
  next
    case False
    then have rep: "replacement = SIf (mk_bin AstLt start stop (as_span s))
        [assign_acc_plus (as_acc s) (build_symbolic_sum s (as_span s)) (as_span s)] None (as_span s)"
      using build by (auto simp: build_closed_form_def affine_const_def Let_def bounds split: option.splits)
    have c: "eval_int cx env (mk_bin AstLt start stop (as_span s)) = Inr (i64_of_bool (sint lo < sint hi))"
      by (rule pure_int_runs(4) [OF cx r(1,2)])
    show ?thesis
    proof (cases "sint lo < sint hi")
      case less: True
      obtain a b where ab: "eval_int cx env (as_a s) = Inr a" "eval_int cx env (as_b s) = Inr b"
          "env' = env(as_acc s \<mapsto> x + closed_form_i64 a b lo hi)"
        using closed [OF less feasible [OF False r(1,2) less]] by blast
      have "eval_int cx env (build_symbolic_sum s (as_span s)) = Inr (closed_form_i64 a b lo hi)"
        using eval_symbolic_sum [OF cx _ _ ab(1,2) less] bounds r(1,2) by simp
      from exec_assign_plus(1) [OF cx, where env = env and acc = "as_acc s", OF acc this] show ?thesis
        by (simp add: rep c less ab(3) r(3) restore_def)
    next
      case ge: False
      then show ?thesis using none [OF ge] by (simp add: rep c r(3))
    qed
  qed
qed

end
