(* ===== verification/Collapse_Geo.thy ===== *)
theory Collapse_Geo
  imports Collapse_Sound
begin

text \<open>Geometric powers: the loop, the constant factor and the emitted ladder leave the same variables.\<close>

lemma loop_val_power: "loop_val (\<lambda>x i. x * r) x lo n = x * (r :: i64) ^ n"
  by (induction n arbitrary: x lo) (simp_all add: mult.assoc)

lemma geometric_loop_result:
  assumes cx: "plain_int_ctx cx"
    and s: "recognize_geometric var start stop body span = Inr s"
    and run: "exec_stmt cx (SFor var start stop body attrs span) env saves = Inr (v, env', saves')"
    and acc: "env (gp_acc s) = Some x" and ne: "gp_acc s \<noteq> var"
  obtains lo hi where "eval_int cx env start = Inr lo" "eval_int cx env stop = Inr hi" "saves' = saves"
    and "sint lo < sint hi \<Longrightarrow> \<exists>r. eval_int cx env (gp_r s) = Inr r \<and>
      env' = env(gp_acc s \<mapsto> x * r ^ nat (sint hi - sint lo))"
    and "\<not> sint lo < sint hi \<Longrightarrow> env' = env"
proof -
  obtain val sp where body: "body = [SAssign (gp_acc s) val sp]"
      and op: "other_operand AstMul (gp_acc s) NotAccTimes val = Inr (gp_r s)"
      and pure: "is_pure_dupable (gp_r s)" "\<not> references_ident (gp_r s) (gp_acc s)" "\<not> references_ident (gp_r s) var"
    using recognize_geometricD [OF s] by metis
  have unread: "eval_int cx (env(gp_acc s \<mapsto> y, var \<mapsto> i)) (gp_r s) = eval_int cx env (gp_r s)" for y i
    using pure by (simp add: pure_unread)
  have step: "\<exists>r. eval_int cx env (gp_r s) = Inr r \<and> w = y * r"
    if "eval_int cx (env(gp_acc s \<mapsto> y, var \<mapsto> i)) val = Inr w" for y i w
  proof -
    have "(env(gp_acc s \<mapsto> y, var \<mapsto> i)) (gp_acc s) = Some y" using ne by simp
    from other_operand_denotes [OF cx this _ op that] show ?thesis using unread by auto
  qed
  define r where "r = projr (eval_int cx env (gp_r s))"
  have step': "w = y * r" if "eval_int cx (env(gp_acc s \<mapsto> y, var \<mapsto> i)) val = Inr w" for y i w
    using step [OF that] by (auto simp: r_def)
  obtain lo hi where res:
      "eval_int cx env start = Inr lo" "eval_int cx env stop = Inr hi" "saves' = saves"
      "env' = env(gp_acc s \<mapsto> loop_val (\<lambda>y i. y * r) x lo (nat (sint hi - sint lo)))"
      "sint lo < sint hi \<Longrightarrow> \<exists>w. eval_int cx (env(gp_acc s \<mapsto> x, var \<mapsto> lo)) val = Inr w"
    by (rule for_assign_runs [OF run [unfolded body] acc ne step']) (assumption | rule that)+
  show ?thesis
  proof (rule that [OF res(1-3)])
    assume "sint lo < sint hi"
    then obtain w where "eval_int cx (env(gp_acc s \<mapsto> x, var \<mapsto> lo)) val = Inr w" using res(5) by blast
    from step [OF this] show "\<exists>r. eval_int cx env (gp_r s) = Inr r \<and>
      env' = env(gp_acc s \<mapsto> x * r ^ nat (sint hi - sint lo))"
      using res(4) by (auto simp: r_def loop_val_power)
  next
    assume "\<not> sint lo < sint hi"
    then show "env' = env" using res(4) acc by auto
  qed
qed

subsection \<open>The emitted ladder\<close>

lemma pow_names [simp]:
  "pow_base sp \<noteq> pow_exp sp" "pow_base sp \<noteq> pow_pow sp" "pow_base sp \<noteq> pow_k sp"
  "pow_exp sp \<noteq> pow_pow sp" "pow_exp sp \<noteq> pow_k sp" "pow_pow sp \<noteq> pow_k sp"
  "pow_exp sp \<noteq> pow_base sp" "pow_pow sp \<noteq> pow_base sp" "pow_k sp \<noteq> pow_base sp"
  "pow_pow sp \<noteq> pow_exp sp" "pow_k sp \<noteq> pow_exp sp" "pow_k sp \<noteq> pow_pow sp"
  by (simp_all add: pow_base_def pow_exp_def pow_pow_def pow_k_def)

definition ladder_env :: "ast_span \<Rightarrow> int_env \<Rightarrow> i64 \<times> i64 \<times> i64 \<Rightarrow> int_env" where
  "ladder_env sp env = (\<lambda>(p, b, e). env(pow_pow sp \<mapsto> p, pow_base sp \<mapsto> b, pow_exp sp \<mapsto> e))"

lemma eval_mk_ident:
  "plain_int_ctx cx \<Longrightarrow> env name = Some v \<Longrightarrow> eval_int cx env (mk_ident name sp) = Inr v"
  by (simp add: mk_ident_def eval_name_def plain_int_ctxD)

lemma exec_ladder_body:
  assumes cx: "plain_int_ctx cx"
    and env: "env (pow_pow sp) = Some p" "env (pow_base sp) = Some b" "env (pow_exp sp) = Some e"
  shows "exec_stmts cx (pow_ladder_body sp) 0 env saves =
    Inr (trunc_div e 2, ladder_env sp env (pow_step (p, b, e)), saves)"
proof -
  note run = pure_int_runs [OF cx]
  define p' where "p' = p * (1 + trunc_rem e 2 * (b - 1))"
  have 1: "eval_int cx env (mk_bin AstMul (mk_ident (pow_pow sp) sp)
      (mk_bin AstAdd (mk_int 1 sp) (mk_bin AstMul (mk_bin AstMod (mk_ident (pow_exp sp) sp) (mk_int 2 sp) sp)
        (mk_bin AstSub (mk_ident (pow_base sp) sp) (mk_int 1 sp) sp) sp) sp) sp) = Inr p'"
    unfolding p'_def by (intro run(1-3) run(6) [OF _ eval_mk_int] eval_mk_int eval_mk_ident [OF cx] env)
  have 2: "eval_int cx (env(pow_pow sp \<mapsto> p')) (mk_bin AstMul (mk_ident (pow_base sp) sp) (mk_ident (pow_base sp) sp) sp)
      = Inr (b * b)"
    by (intro run(3) eval_mk_ident [OF cx]) (simp_all add: env)
  have 3: "eval_int cx (env(pow_pow sp \<mapsto> p', pow_base sp \<mapsto> b * b))
      (mk_bin AstDiv (mk_ident (pow_exp sp) sp) (mk_int 2 sp) sp) = Inr (trunc_div e 2)"
    by (intro run(5) [OF _ eval_mk_int] eval_mk_ident [OF cx]) (simp add: env)
  show ?thesis
    by (simp add: pow_ladder_body_def mk_assign_def Let_def 1 2 3 ladder_env_def pow_step_def p'_def [symmetric])
qed

lemma exec_ladder:
  assumes cx: "plain_int_ctx cx"
  shows "\<exists>v e'. exec_for cx (pow_k sp) i n (pow_ladder_body sp) res (ladder_env sp env s) = Inr (v, e') \<and>
    (\<forall>a. a \<noteq> pow_k sp \<longrightarrow> e' a = ladder_env sp env ((pow_step ^^ n) s) a)"
proof (induction n arbitrary: i res env s)
  case (Suc n)
  obtain p b e where s: "s = (p, b, e)" by (cases s)
  let ?env = "(ladder_env sp env s)(pow_k sp \<mapsto> i)"
  have next_env: "ladder_env sp ?env t = ladder_env sp (env(pow_k sp \<mapsto> i)) t" for t
    by (cases t; rule ext) (simp add: ladder_env_def s)
  have body: "exec_stmts cx (pow_ladder_body sp) 0 ?env [] =
      Inr (trunc_div e 2, ladder_env sp (env(pow_k sp \<mapsto> i)) (pow_step s), [])"
    using exec_ladder_body [OF cx, of ?env sp p b e "[]"] next_env by (simp add: s ladder_env_def)
  have keep: "a \<noteq> pow_k sp \<Longrightarrow> ladder_env sp (env(pow_k sp \<mapsto> i)) t a = ladder_env sp env t a" for t a
    by (cases t) (simp add: ladder_env_def)
  obtain v e' where
      "exec_for cx (pow_k sp) (i + 1) n (pow_ladder_body sp) (trunc_div e 2)
        (ladder_env sp (env(pow_k sp \<mapsto> i)) (pow_step s)) = Inr (v, e')"
      "\<forall>a. a \<noteq> pow_k sp \<longrightarrow> e' a = ladder_env sp (env(pow_k sp \<mapsto> i)) ((pow_step ^^ n) (pow_step s)) a"
    using Suc [of "i + 1" "trunc_div e 2" "env(pow_k sp \<mapsto> i)" "pow_step s"] by blast
  with keep body show ?case
    by (intro exI [of _ v] exI [of _ e'])
       (simp add: restore_def funpow_Suc_right del: funpow.simps(2) fun_upd_apply)
qed auto

text \<open>The names the ladder binds are not those of the loop it replaces.\<close>

definition ladder_names_fresh :: "'x geometric_pow \<Rightarrow> ast_span \<Rightarrow> bool" where
  "ladder_names_fresh s sp \<longleftrightarrow>
     gp_acc s \<notin> {pow_base sp, pow_exp sp, pow_pow sp, pow_k sp} \<and>
     \<not> references_ident (gp_lo s) (pow_base sp) \<and> \<not> references_ident (gp_hi s) (pow_base sp)"

lemma exec_symbolic_pow:
  assumes cx: "plain_int_ctx cx" and fresh: "ladder_names_fresh s sp"
    and bounds: "is_pure_dupable (gp_lo s)" "is_pure_dupable (gp_hi s)"
      "eval_int cx env (gp_lo s) = Inr lo" "eval_int cx env (gp_hi s) = Inr hi"
    and less: "sint lo < sint hi"
    and r: "eval_int cx env (gp_r s) = Inr r" and acc: "env (gp_acc s) = Some x"
  shows "\<exists>v'. exec_stmt cx (build_symbolic_pow s sp) env saves = Inr (v', env(gp_acc s \<mapsto> x * pow_wrap r (hi - lo)), saves)"
proof -
  let ?e1 = "env(pow_base sp \<mapsto> r)"
  let ?e3 = "env(pow_base sp \<mapsto> r, pow_exp sp \<mapsto> hi - lo, pow_pow sp \<mapsto> 1)"
  have c: "eval_int cx env (mk_bin AstLt (gp_lo s) (gp_hi s) sp) = Inr 1"
    using pure_int_runs(4) [OF cx bounds(3,4)] less by simp
  have n: "eval_int cx ?e1 (mk_bin AstSub (gp_hi s) (gp_lo s) sp) = Inr (hi - lo)"
    using fresh bounds by (intro pure_int_runs(2) [OF cx]) (simp_all add: pure_unread ladder_names_fresh_def)
  have e3: "?e3 = ladder_env sp env (1, r, hi - lo)" by (rule ext) (simp add: ladder_env_def)
  obtain v e' where ladder: "exec_for cx (pow_k sp) 0 64 (pow_ladder_body sp) 0 ?e3 = Inr (v, e')"
      and e': "\<forall>a. a \<noteq> pow_k sp \<longrightarrow> e' a = ladder_env sp env ((pow_step ^^ 64) (1, r, hi - lo)) a"
    unfolding e3 using exec_ladder [OF cx] by blast
  obtain p b e where steps: "(pow_step ^^ 64) (1, r, hi - lo) = (p, b, e)" by (cases "(pow_step ^^ 64) (1, r, hi - lo)")
  have p: "p = pow_wrap r (hi - lo)" using steps by (simp add: pow_wrap_def)
  let ?e4 = "e'(pow_k sp := ?e3 (pow_k sp))"
  have e4: "?e4 = env(pow_pow sp \<mapsto> p, pow_base sp \<mapsto> b, pow_exp sp \<mapsto> e)"
    using e' unfolding steps ladder_env_def by (intro ext) simp
  have loop: "exec_stmt cx (SFor (pow_k sp) (mk_int 0 sp) (mk_int 64 sp) (pow_ladder_body sp) [] sp) ?e3 fr =
      Inr (v, ?e4, fr)" for fr
    using ladder by simp
  have acc4: "?e4 (gp_acc s) = Some x" "eval_int cx ?e4 (mk_ident (pow_pow sp) sp) = Inr p"
    using fresh acc unfolding e4 by (auto simp: ladder_names_fresh_def intro: eval_mk_ident [OF cx])
  let ?fr = "[(pow_pow sp, env (pow_pow sp)), (pow_exp sp, env (pow_exp sp)), (pow_base sp, env (pow_base sp))]"
  have stmts: "exec_stmts cx [let_i64 (pow_base sp) (gp_r s) sp,
        let_i64 (pow_exp sp) (mk_bin AstSub (gp_hi s) (gp_lo s) sp) sp, let_i64 (pow_pow sp) (mk_int 1 sp) sp,
        SFor (pow_k sp) (mk_int 0 sp) (mk_int 64 sp) (pow_ladder_body sp) [] sp,
        assign_acc_mul (gp_acc s) (mk_ident (pow_pow sp) sp) sp] 0 env [] =
      Inr (x * p, ?e4(gp_acc s \<mapsto> x * p), ?fr)"
    using r n loop exec_assign_plus(2) [OF cx, where env = ?e4 and acc = "gp_acc s", OF acc4]
    by (simp add: let_i64_def bind_let_def del: exec_stmt.simps(5))
  have "restore ?fr (?e4(gp_acc s \<mapsto> x * p)) = env(gp_acc s \<mapsto> x * p)"
    unfolding e4 using fresh by (intro ext) (auto simp: restore_def ladder_names_fresh_def)
  then show ?thesis
    unfolding build_symbolic_pow_def Let_def using c stmts by (simp add: p)
qed

lemma geometric_collapse_runs:
  assumes cx: "plain_int_ctx cx"
    and s: "recognize_geometric var start stop body span = Inr s"
    and build: "build_geometric s = Inr replacement"
    and run: "exec_stmt cx (SFor var start stop body attrs span) env saves = Inr (v, env', saves')"
    and acc: "env (gp_acc s) = Some x" and ne: "gp_acc s \<noteq> var"
    and fresh: "ladder_names_fresh s span"
    and feasible: "\<And>lo hi. eval_int cx env start = Inr lo \<Longrightarrow> eval_int cx env stop = Inr hi \<Longrightarrow>
      i64_fits (sint hi - sint lo)"
  shows "\<exists>v'. exec_stmt cx replacement env saves = Inr (v', env', saves')"
proof -
  obtain lo hi where r: "eval_int cx env start = Inr lo" "eval_int cx env stop = Inr hi" "saves' = saves"
    and some: "sint lo < sint hi \<Longrightarrow> \<exists>r. eval_int cx env (gp_r s) = Inr r \<and>
      env' = env(gp_acc s \<mapsto> x * r ^ nat (sint hi - sint lo))"
    and none: "\<not> sint lo < sint hi \<Longrightarrow> env' = env"
    using geometric_loop_result [OF cx s run acc ne] by blast
  have bounds: "gp_lo s = start" "gp_hi s = stop" "is_pure_dupable start" "is_pure_dupable stop" "gp_span s = span"
    using recognize_geometricD [OF s] by metis+
  have "sint (hi - lo) = sint hi - sint lo" using sint_of_fits [OF feasible [OF r(1,2)]] by simp
  then have power: "sint lo < sint hi \<Longrightarrow> pow_wrap r' (hi - lo) = r' ^ nat (sint hi - sint lo)" for r'
    using pow_wrap_power [of "hi - lo" r'] by simp
  show ?thesis
  proof (cases "eval_const_i64 (gp_r s) \<noteq> None \<and> eval_const_i64 (gp_lo s) \<noteq> None \<and> eval_const_i64 (gp_hi s) \<noteq> None")
    case True
    then obtain r' l h where c: "eval_const_i64 (gp_r s) = Some r'" "eval_const_i64 (gp_lo s) = Some l"
        "eval_const_i64 (gp_hi s) = Some h"
      by auto
    have lh: "l = lo" "h = hi" using eval_const_intD [OF cx] c(2,3) r(1,2) bounds by metis+
    have rep: "replacement = assign_acc_mul (gp_acc s) (mk_int (geometric_pow_i64 r' lo hi) span) span"
      using build c lh bounds by (auto simp: build_geometric_def Let_def split: if_splits)
    have "env' = env(gp_acc s \<mapsto> x * geometric_pow_i64 r' lo hi)"
    proof (cases "sint lo < sint hi")
      case True
      then show ?thesis using some [OF True] eval_const_intD [OF cx c(1)] power by (auto simp: geometric_pow_i64_def)
    next
      case False
      then show ?thesis using none acc by (auto simp: geometric_pow_i64_def)
    qed
    then show ?thesis
      using exec_assign_plus(2) [OF cx, where env = env and acc = "gp_acc s", OF acc, of "mk_int (geometric_pow_i64 r' lo hi) span"] rep r(3)
      by auto
  next
    case False
    then have rep: "replacement = build_symbolic_pow s span"
      using build by (auto simp: build_geometric_def Let_def bounds split: option.splits)
    show ?thesis
    proof (cases "sint lo < sint hi")
      case less: True
      obtain r' where r': "eval_int cx env (gp_r s) = Inr r'" "env' = env(gp_acc s \<mapsto> x * r' ^ nat (sint hi - sint lo))"
        using some [OF less] by blast
      show ?thesis
        using exec_symbolic_pow [OF cx fresh _ _ _ _ less r'(1) acc, of saves] bounds r power [OF less]
        by (simp add: rep r'(2))
    next
      case ge: False
      have "eval_int cx env (mk_bin AstLt start stop span) = Inr 0"
        using pure_int_runs(4) [OF cx r(1,2)] ge by simp
      then show ?thesis using none [OF ge] by (simp add: rep r(3) build_symbolic_pow_def Let_def bounds)
    qed
  qed
qed

end
