(* ===== verification/Collapse_Safety.thy ===== *)
theory Collapse_Safety
  imports Collapse_Geo
begin

text \<open>
  Q16.16 maps: the loop leaves the fixed point the pass found at compile time.  The whole pass: it proves or
  reports every annotated loop it meets, which is every annotated loop when they all stand in statement lists
  inside the items, leaves a module without one as it is, and its receipts are
  self-consistent.
\<close>

subsection \<open>Q16.16 maps\<close>

lemma ct_env_mono:
  "call_free e \<Longrightarrow> eval_ct_expr e env fns d = Inr v \<Longrightarrow> env \<subseteq>\<^sub>m env' \<Longrightarrow> eval_ct_expr e env' fns d' = Inr v"
proof (induction e arbitrary: v)
  case (SLit l sp)
  have "env x = Some v \<Longrightarrow> env' x = Some v" for x using SLit.prems(3) by (metis domI map_le_def)
  with SLit.prems show ?case by (cases l) (auto split: option.splits)
qed (fastforce simp: rbind_eq_Inr)+

lemma exec_for_orbit:
  assumes step: "\<And>x y i w. f x = Inr y \<Longrightarrow> eval_int cx (env0(acc \<mapsto> x, var \<mapsto> i)) val = Inr w \<Longrightarrow> w = y"
    and ne: "acc \<noteq> var"
  shows "exec_for cx var i n [SAssign acc val sp] res env = Inr (v, env') \<Longrightarrow>
    (\<And>o'. env(var := o') = env0(acc \<mapsto> x, var := o')) \<Longrightarrow> orbit f n x = Inr z \<Longrightarrow>
    env'(var := o') = env0(acc \<mapsto> z, var := o')"
proof (induction n arbitrary: i res env x)
  case (Suc n)
  from Suc.prems(1) obtain w where w: "eval_int cx (env(var \<mapsto> i)) val = Inr w"
      and rest: "exec_for cx var (i + 1) n [SAssign acc val sp] w (env(var \<mapsto> i, acc \<mapsto> w)) = Inr (v, env')"
    by (auto simp: rbind_eq_Inr restore_def)
  from Suc.prems(3) obtain y where y: "f x = Inr y" "orbit f n y = Inr z" by (auto simp: rbind_eq_Inr)
  have "w = y" by (rule step [OF y(1) w [unfolded Suc.prems(2)]])
  then have e: "(env(var \<mapsto> i, acc \<mapsto> w))(var := o') = env0(acc \<mapsto> y, var := o')" for o'
    using Suc.prems(2) [of o'] ne by (metis fun_upd_twist fun_upd_upd)
  show ?case by (rule Suc.IH [OF rest e y(2)])
qed auto

lemma exec_stmts_append:
  "exec_stmts cx (ss @ ts) r env saves =
     rbind (exec_stmts cx ss r env saves) (\<lambda>(v, env', saves'). exec_stmts cx ts v env' saves')"
proof (induction ss arbitrary: r env saves)
  case (Cons s ss)
  then show ?case by (cases "exec_stmt cx s env saves") (auto split: prod.splits)
qed simp

text \<open>Statements that write no variable but the one they name.\<close>

fun simple_stmt :: "'x snode \<Rightarrow> bool" where
  "simple_stmt (SIf _ _ _ _) \<longleftrightarrow> False"
| "simple_stmt (SBlock _ _) \<longleftrightarrow> False"
| "simple_stmt (SFor _ _ _ _ _ _) \<longleftrightarrow> False"
| "simple_stmt (SWhile _ _ _) \<longleftrightarrow> False"
| "simple_stmt (SOther _ _) \<longleftrightarrow> False"
| "simple_stmt _ \<longleftrightarrow> True"

lemma exec_simple_other:
  "simple_stmt s \<Longrightarrow> (case s of SLet _ _ _ _ _ \<Rightarrow> False | SAssign _ _ _ \<Rightarrow> False | _ \<Rightarrow> True) \<Longrightarrow>
     exec_stmt cx s env saves = rbind (eval_int cx env s) (\<lambda>v. Inr (v, env, saves))"
  by (cases s) simp_all

lemma find_const_seed_snoc:
  "find_const_seed (pre @ [s]) acc = find_const_seed_rev (s # rev pre) acc"
  by (simp add: find_const_seed_def)

lemma find_const_seed_holds:
  assumes cx: "plain_int_ctx cx"
  shows "find_const_seed pre acc = Some v \<Longrightarrow> list_all simple_stmt pre \<Longrightarrow>
    exec_stmts cx pre r env saves = Inr (r', env', saves') \<Longrightarrow> env' acc = Some v"
proof (induction pre arbitrary: r' env' saves' rule: rev_induct)
  case (snoc s pre)
  from snoc.prems(3) obtain r1 env1 saves1 where first: "exec_stmts cx pre r env saves = Inr (r1, env1, saves1)"
      and s: "exec_stmt cx s env1 saves1 = Inr (r', env', saves')"
    by (auto simp: exec_stmts_append rbind_eq_Inr)
  have IH: "find_const_seed pre acc = Some v \<Longrightarrow> env1 acc = Some v" using snoc.IH [OF _ _ first] snoc.prems(2) by simp
  note seed = snoc.prems(1) [unfolded find_const_seed_snoc]
  consider (Let) name m ann val sp where "s = SLet name m ann val sp" | (Assign) name val sp where "s = SAssign name val sp"
    | (Other) "case s of SLet _ _ _ _ _ \<Rightarrow> False | SAssign _ _ _ \<Rightarrow> False | _ \<Rightarrow> True"
    by (cases s) simp_all
  then show ?case
  proof cases
    case Let
    then obtain w where w: "eval_int cx env1 val = Inr w" "env' = env1(name \<mapsto> w)"
      using s by (auto simp: rbind_eq_Inr bind_let_def)
    show ?thesis using seed IH eval_const_intD [OF cx _ w(1)] w(2) Let
      by (cases "name = acc") (auto simp: find_const_seed_def)
  next
    case Assign
    then obtain w where w: "eval_int cx env1 val = Inr w" "env' = env1(name \<mapsto> w)"
      using s by (auto simp: rbind_eq_Inr)
    show ?thesis using seed IH eval_const_intD [OF cx _ w(1)] w(2) Assign
      by (cases "name = acc") (auto simp: find_const_seed_def)
  next
    case Other
    then have "env' = env1" using s snoc.prems(2) exec_simple_other [OF _ Other] by (auto simp: rbind_eq_Inr)
    moreover have "find_const_seed pre acc = Some v"
      using seed Other by (cases s) (simp_all add: find_const_seed_def)
    ultimately show ?thesis using IH by simp
  qed
qed (simp add: find_const_seed_def)

lemma saturating_sub_bounds:
  assumes "sint lo < sint hi"
  shows "0 < sint (saturating_sub hi lo) \<and> sint (saturating_sub hi lo) \<le> sint hi - sint lo"
proof -
  have "i64_fits (max (- (2 ^ 63)) (min (2 ^ 63 - 1) (sint hi - sint lo)))" by (auto simp: i64_fits_def)
  then have "sint (saturating_sub hi lo) = max (- (2 ^ 63)) (min (2 ^ 63 - 1) (sint hi - sint lo))"
    unfolding saturating_sub_def by (rule sint_of_fits)
  then show ?thesis using assms by (simp add: max_def min_def)
qed

lemma iterate_fixed_orbit:
  assumes "iterate_user_fixed_point oc rhs acc fns seed (q16_trip_count lo hi) = Some (Fixed v)"
  shows "orbit (map_step rhs acc fns) (nat (sint hi - sint lo)) seed = Inr v"
proof (cases "sint lo < sint hi")
  case True
  let ?t = "q16_trip_count lo hi"
  have t: "0 < sint ?t" "sint ?t \<le> sint hi - sint lo"
    using saturating_sub_bounds [OF True] True by (simp_all add: q16_trip_count_def)
  have "iterate_loop oc (map_step rhs acc fns) ?t (nat (min (sint ?t) (sint Q16_FUEL))) seed {seed} = Some (Fixed v)"
    using assms t by (cases "q_in_range seed") (simp_all add: iterate_user_fixed_point_def)
  from iterate_loop_fixed [OF this] obtain m where m: "map_step rhs acc fns v = Inr v"
      "m < nat (min (sint ?t) (sint Q16_FUEL))" "orbit (map_step rhs acc fns) m seed = Inr v"
    by blast
  then have "m \<le> nat (sint hi - sint lo)" using t by linarith
  then show ?thesis by (rule orbit_stays [OF m(3,1)])
next
  case False
  then have "q16_trip_count lo hi = 0" "nat (sint hi - sint lo) = 0" by (simp_all add: q16_trip_count_def)
  moreover from this have "seed = v"
    using assms by (cases "q_in_range seed") (simp_all add: iterate_user_fixed_point_def)
  ultimately show ?thesis by simp
qed

lemma build_q16_collapseD:
  assumes "build_q16_collapse oc s pre ctx = Some (Some replacement, ctx')"
  obtains lo hi seed v where "eval_const_i64 (qm_lo s) = Some lo" "eval_const_i64 (qm_hi s) = Some hi"
    and "find_const_seed pre (qm_acc s) = Some seed"
    and "iterate_user_fixed_point oc (qm_f s) (qm_acc s) (cc_fns ctx) seed (q16_trip_count lo hi) = Some (Fixed v)"
    and "replacement = assign_const (qm_acc s) v (qm_span s)" "ctx' = ctx"
proof -
  from assms obtain lo hi where b: "eval_const_i64 (qm_lo s) = Some lo" "eval_const_i64 (qm_hi s) = Some hi"
    by (cases "eval_const_i64 (qm_lo s)"; cases "eval_const_i64 (qm_hi s)") (simp_all add: build_q16_collapse_def Let_def)
  from assms b obtain seed where seed: "find_const_seed pre (qm_acc s) = Some seed"
    by (cases "find_const_seed pre (qm_acc s)") (simp_all add: build_q16_collapse_def Let_def)
  from assms b seed obtain out
    where out: "iterate_user_fixed_point oc (qm_f s) (qm_acc s) (cc_fns ctx) seed (q16_trip_count lo hi) = Some out"
    by (cases "iterate_user_fixed_point oc (qm_f s) (qm_acc s) (cc_fns ctx) seed (q16_trip_count lo hi)")
       (simp_all add: build_q16_collapse_def Let_def)
  from assms b seed out obtain v where "out = Fixed v" "replacement = assign_const (qm_acc s) v (qm_span s)" "ctx' = ctx"
    by (cases out) (simp_all add: build_q16_collapse_def Let_def)
  with b seed out that show ?thesis by blast
qed

lemma q16_collapse_runs:
  assumes cx: "plain_int_ctx cx"
    and s: "recognize_q16_map var start stop body span = Inr s"
    and free: "call_free (qm_f s)"
    and build: "build_q16_collapse oc s pre ctx = Some (Some replacement, ctx')"
    and pre: "list_all simple_stmt pre" "exec_stmts cx pre r0 env0 saves0 = Inr (r1, env, saves)"
    and run: "exec_stmt cx (SFor var start stop body attrs span) env saves = Inr (v, env', saves')"
  shows "\<exists>v'. exec_stmt cx replacement env saves = Inr (v', env', saves')"
proof -
  obtain lo hi seed z where b: "eval_const_i64 (qm_lo s) = Some lo" "eval_const_i64 (qm_hi s) = Some hi"
    and seed: "find_const_seed pre (qm_acc s) = Some seed"
    and it: "iterate_user_fixed_point oc (qm_f s) (qm_acc s) (cc_fns ctx) seed (q16_trip_count lo hi) = Some (Fixed z)"
    and rep: "replacement = assign_const (qm_acc s) z (qm_span s)"
    using build_q16_collapseD [OF build] by metis
  obtain sp where body: "body = [SAssign (qm_acc s) (qm_f s) sp]"
      and refs: "scalar_refs_ident (qm_f s) (qm_acc s)" "\<not> scalar_refs_ident (qm_f s) var"
      and bounds: "qm_lo s = start" "qm_hi s = stop"
    using recognize_q16_mapD [OF s] by metis
  have ne: "qm_acc s \<noteq> var" using refs by auto
  have acc: "env (qm_acc s) = Some seed" by (rule find_const_seed_holds [OF cx seed pre])
  from run obtain l h e1 where parts: "eval_int cx env start = Inr l" "eval_int cx env stop = Inr h"
      "exec_for cx var l (nat (sint h - sint l)) [SAssign (qm_acc s) (qm_f s) sp] 0 env = Inr (v, e1)"
      "env' = e1(var := env var)" "saves' = saves"
    by (auto simp: rbind_eq_Inr body)
  have "l = lo" "h = hi" using eval_const_intD [OF cx] b parts(1,2) bounds by metis+
  then have orb: "orbit (map_step (qm_f s) (qm_acc s) (cc_fns ctx)) (nat (sint h - sint l)) seed = Inr z"
    using iterate_fixed_orbit [OF it] by simp
  have step: "w = y"
    if "map_step (qm_f s) (qm_acc s) (cc_fns ctx) x = Inr y" "eval_int cx (env(qm_acc s \<mapsto> x, var \<mapsto> i)) (qm_f s) = Inr w"
    for x y i w
  proof -
    have "[qm_acc s \<mapsto> x] \<subseteq>\<^sub>m env(qm_acc s \<mapsto> x, var \<mapsto> i)" using ne by (simp add: map_le_def)
    from ct_env_mono [OF free that(1) [unfolded map_step_def] this, of 0]
    show ?thesis using comptime_agrees [OF cx free] that(2) by fastforce
  qed
  have e: "env(var := o') = env(qm_acc s \<mapsto> seed, var := o')" for o' using acc ne by auto
  have "e1(var := env var) = env(qm_acc s \<mapsto> z, var := env var)" by (rule exec_for_orbit [OF step ne parts(3) e orb])
  then have "env' = env(qm_acc s \<mapsto> z)" using parts(4) ne by auto
  then show ?thesis using parts(5) by (simp add: rep assign_const_def)
qed

subsection \<open>Prove or report\<close>

definition collapse_progress :: "'x collapse_ctx \<Rightarrow> 'x collapse_ctx \<Rightarrow> bool \<Rightarrow> bool" where
  "collapse_progress ctx ctx' clean \<longleftrightarrow>
     (\<exists>ds rs. cc_diags ctx' = cc_diags ctx @ ds \<and> cc_receipts ctx' = cc_receipts ctx @ rs \<and>
        list_all is_self_consistent rs \<and> (ds = [] \<longrightarrow> clean))"

lemma collapse_progress_refl: "collapse_progress ctx ctx True"
  by (simp add: collapse_progress_def)

lemma collapse_progress_trans:
  "collapse_progress a b p \<Longrightarrow> collapse_progress b c q \<Longrightarrow> collapse_progress a c (p \<and> q)"
  by (fastforce simp: collapse_progress_def)

lemma collapse_progress_mono: "collapse_progress a b p \<Longrightarrow> (p \<Longrightarrow> q) \<Longrightarrow> collapse_progress a b q"
  by (auto simp: collapse_progress_def)

lemma push_diag_progress: "collapse_progress ctx (push_diag sp code reason ctx) clean"
  by (simp add: collapse_progress_def push_diag_def)

lemma record_receipt_progress:
  "collapse_progress ctx (record_affine_receipt affine ctx) True"
  "collapse_progress ctx (record_geometric_receipt geo ctx) True"
  by (auto simp: collapse_progress_def record_affine_receipt_def record_geometric_receipt_def is_self_consistent_def
      rederive_affine_closed_form rederive_geometric_pow split: option.splits)

lemma replacement_not_collapse:
  "build_closed_form affine = Inr r \<Longrightarrow> \<not> collapse_scan r"
  "build_geometric geo = Inr r \<Longrightarrow> \<not> collapse_scan r"
  "build_q16_collapse oc qm pre ctx = Some (Some r, ctx') \<Longrightarrow> \<not> collapse_scan r"
  by (auto simp: build_closed_form_def build_geometric_def Let_def assign_acc_plus_def assign_acc_mul_def
      build_symbolic_pow_def let_i64_def pow_ladder_body_def mk_assign_def assign_const_def
      split: option.splits if_splits elim!: build_q16_collapseD)

lemma build_q16_progress:
  "build_q16_collapse oc qm pre ctx = Some (replacement, ctx') \<Longrightarrow>
     collapse_progress ctx ctx' (\<exists>r. replacement = Some r \<and> \<not> collapse_scan r)"
  by (auto simp: build_q16_collapse_def Let_def assign_const_def push_diag_progress
      intro: collapse_progress_mono [OF collapse_progress_refl]
      split: option.splits bind_splits q16_outcome.splits)

lemma try_collapse_progress:
  assumes "is_collapse_for node" "try_collapse oc pre node ctx = Some (replacement, ctx')"
  shows "collapse_progress ctx ctx' (\<exists>r. replacement = Some r \<and> \<not> collapse_scan r)"
proof -
  obtain var start stop body attrs span where node: "node = SFor var start stop body attrs span"
    using assms(1) by (cases node) auto
  show ?thesis using assms(2) unfolding node
    by (auto simp: push_diag_progress replacement_not_collapse split: sum.splits if_splits
        intro: collapse_progress_mono [OF record_receipt_progress(1)]
          collapse_progress_mono [OF record_receipt_progress(2)] build_q16_progress)
qed

lemma rewrite_progress:
  "rewrite_node oc n ctx = Some (n', ctx') \<Longrightarrow>
     collapse_progress ctx ctx' (is_collapse_for n \<or> \<not> collapse_scan n') \<and> is_collapse_for n' = is_collapse_for n"
  "rewrite_stmt_list oc before rest ctx = Some (out, ctx') \<Longrightarrow>
     \<exists>tail. out = before @ tail \<and> collapse_progress ctx ctx' (\<not> list_ex collapse_scan tail)"
proof (induction oc n ctx and oc before rest ctx arbitrary: n' ctx' and out ctx'
    rule: rewrite_node_rewrite_stmt_list.induct)
  case (1 oc name params body rest span ctx)
  then obtain b where "rewrite_stmt_list oc [] body ctx = Some (b, ctx')" "n' = SFnDef (FnDefData name params b rest) span"
    by (auto split: bind_splits)
  with "1.IH" show ?case by fastforce
next
  case (2 oc stmts span ctx)
  then obtain b where "rewrite_stmt_list oc [] stmts ctx = Some (b, ctx')" "n' = SBlock b span"
    by (auto split: bind_splits)
  with "2.IH" show ?case by fastforce
next
  case (3 oc var start stop body attrs span ctx)
  then obtain b where b: "rewrite_stmt_list oc [] body ctx = Some (b, ctx')" "n' = SFor var start stop b attrs span"
    by (auto split: bind_splits)
  with "3.IH" have "collapse_progress ctx ctx' (\<not> list_ex collapse_scan b)" by fastforce
  then show ?case unfolding b(2) by (auto elim: collapse_progress_mono)
next
  case (4 oc var iter body span ctx)
  then obtain b where "rewrite_stmt_list oc [] body ctx = Some (b, ctx')" "n' = SForEach var iter b span"
    by (auto split: bind_splits)
  with "4.IH" show ?case by fastforce
next
  case (5 oc c then_branch eb span ctx)
  then obtain t b c1 where parts: "rewrite_stmt_list oc [] then_branch ctx = Some (t, c1)"
      "rewrite_stmt_list oc [] eb c1 = Some (b, ctx')" "n' = SIf c t (Some b) span"
    by (auto split: bind_splits)
  have "collapse_progress ctx c1 (\<not> list_ex collapse_scan t)" using "5.IH"(1) [OF parts(1)] by auto
  moreover have "collapse_progress c1 ctx' (\<not> list_ex collapse_scan b)" using "5.IH"(2) [OF parts(1) refl parts(2)] by auto
  ultimately have "collapse_progress ctx ctx' (\<not> list_ex collapse_scan t \<and> \<not> list_ex collapse_scan b)"
    by (rule collapse_progress_trans)
  then show ?case unfolding parts(3) by (auto elim: collapse_progress_mono)
next
  case (6 oc c then_branch span ctx)
  then obtain b where "rewrite_stmt_list oc [] then_branch ctx = Some (b, ctx')" "n' = SIf c b None span"
    by (auto split: bind_splits)
  with "6.IH" show ?case by fastforce
next
  case (7 oc c body span ctx)
  then obtain b where "rewrite_stmt_list oc [] body ctx = Some (b, ctx')" "n' = SWhile c b span"
    by (auto split: bind_splits)
  with "7.IH" show ?case by fastforce
next
  case (8 oc body span ctx)
  then obtain b where "rewrite_stmt_list oc [] body ctx = Some (b, ctx')" "n' = SRegion b span"
    by (auto split: bind_splits)
  with "8.IH" show ?case by fastforce
next
  case list: (11 oc before node rest ctx)
  show ?case
  proof (cases "is_collapse_for node")
    case True
    then obtain rep c1 where tried: "try_collapse oc before node ctx = Some (rep, c1)"
        and rest: "rewrite_stmt_list oc (before @ [case rep of Some r \<Rightarrow> r | None \<Rightarrow> node]) rest c1 = Some (out, ctx')"
      using list.prems by (auto split: bind_splits)
    obtain tail where tail: "out = (before @ [case rep of Some r \<Rightarrow> r | None \<Rightarrow> node]) @ tail"
        "collapse_progress c1 ctx' (\<not> list_ex collapse_scan tail)"
      using list.IH(1) [OF True tried refl rest] by blast
    have "collapse_progress ctx ctx' (\<not> list_ex collapse_scan ((case rep of Some r \<Rightarrow> r | None \<Rightarrow> node) # tail))"
      by (rule collapse_progress_mono [OF collapse_progress_trans [OF try_collapse_progress [OF True tried] tail(2)]]) auto
    then show ?thesis using tail(1) by auto
  next
    case False
    then obtain node' c1 where node: "rewrite_node oc node ctx = Some (node', c1)"
        and rest: "rewrite_stmt_list oc (before @ [node']) rest c1 = Some (out, ctx')"
      using list.prems by (auto split: bind_splits)
    obtain tail where tail: "out = (before @ [node']) @ tail" "collapse_progress c1 ctx' (\<not> list_ex collapse_scan tail)"
      using list.IH(3) [OF False node refl rest] by blast
    have "collapse_progress ctx c1 (\<not> collapse_scan node')" using list.IH(2) [OF False node] False by simp
    from collapse_progress_trans [OF this tail(2)]
    have "collapse_progress ctx ctx' (\<not> list_ex collapse_scan (node' # tail))" by simp
    then show ?thesis using tail(1) by auto
  qed
qed (auto simp: collapse_progress_def)

lemma rewrite_items_progress:
  "rewrite_items oc items ctx = Some (out, ctx') \<Longrightarrow>
     collapse_progress ctx ctx' (list_all (\<lambda>n. \<not> is_collapse_for n) items \<longrightarrow> \<not> module_has_collapse out)"
proof (induction items arbitrary: ctx out)
  case (Cons item items)
  then obtain item' c1 items' where parts: "rewrite_node oc item ctx = Some (item', c1)"
      "rewrite_items oc items c1 = Some (items', ctx')" "out = item' # items'"
    by (auto split: bind_splits)
  from collapse_progress_trans [OF conjunct1 [OF rewrite_progress(1) [OF parts(1)]] Cons.IH [OF parts(2)]]
  show ?case unfolding parts(3) by (auto simp: module_has_collapse_def elim: collapse_progress_mono)
qed (simp add: collapse_progress_def module_has_collapse_def)

text \<open>
  A scan of the whole tree, operands and blocks used as values included; \<open>only_in_lists\<close> holds when every annotated
  loop stands in a statement list the pass descends into.
\<close>

fun annotated :: "'x snode \<Rightarrow> bool" where
  "annotated (SLit _ _) \<longleftrightarrow> False"
| "annotated (SBinary _ l r _) \<longleftrightarrow> annotated l \<or> annotated r"
| "annotated (SParen inner _) \<longleftrightarrow> annotated inner"
| "annotated (SNeg operand _) \<longleftrightarrow> annotated operand"
| "annotated (SBitwise _ l r _) \<longleftrightarrow> annotated l \<or> annotated r"
| "annotated (SLogical _ l r _) \<longleftrightarrow> annotated l \<or> annotated r"
| "annotated (SCall _ args _) \<longleftrightarrow> list_ex annotated args"
| "annotated (SLet _ _ _ value _) \<longleftrightarrow> annotated value"
| "annotated (SAssign _ value _) \<longleftrightarrow> annotated value"
| "annotated (SReturn value _) \<longleftrightarrow> (case value of None \<Rightarrow> False | Some v \<Rightarrow> annotated v)"
| "annotated (SBlock stmts _) \<longleftrightarrow> list_ex annotated stmts"
| "annotated (SIf c then_branch else_branch _) \<longleftrightarrow>
     annotated c \<or> list_ex annotated then_branch \<or>
     (case else_branch of None \<Rightarrow> False | Some eb \<Rightarrow> list_ex annotated eb)"
| "annotated (SFor var start stop body attrs span) \<longleftrightarrow>
     is_collapse_for (SFor var start stop body attrs span) \<or> annotated start \<or> annotated stop \<or> list_ex annotated body"
| "annotated (SForEach _ iter body _) \<longleftrightarrow> annotated iter \<or> list_ex annotated body"
| "annotated (SWhile c body _) \<longleftrightarrow> annotated c \<or> list_ex annotated body"
| "annotated (SRegion body _) \<longleftrightarrow> list_ex annotated body"
| "annotated (SFnDef (FnDefData _ _ body _) _) \<longleftrightarrow> list_ex annotated body"
| "annotated (SOther _ _) \<longleftrightarrow> False"

fun only_in_lists :: "'x snode \<Rightarrow> bool" where
  "only_in_lists (SBlock stmts _) \<longleftrightarrow> list_all only_in_lists stmts"
| "only_in_lists (SIf c then_branch else_branch _) \<longleftrightarrow>
     \<not> annotated c \<and> list_all only_in_lists then_branch \<and>
     (case else_branch of None \<Rightarrow> True | Some eb \<Rightarrow> list_all only_in_lists eb)"
| "only_in_lists (SFor _ start stop body _ _) \<longleftrightarrow>
     \<not> annotated start \<and> \<not> annotated stop \<and> list_all only_in_lists body"
| "only_in_lists (SForEach _ iter body _) \<longleftrightarrow> \<not> annotated iter \<and> list_all only_in_lists body"
| "only_in_lists (SWhile c body _) \<longleftrightarrow> \<not> annotated c \<and> list_all only_in_lists body"
| "only_in_lists (SRegion body _) \<longleftrightarrow> list_all only_in_lists body"
| "only_in_lists (SFnDef (FnDefData _ _ body _) _) \<longleftrightarrow> list_all only_in_lists body"
| "only_in_lists n \<longleftrightarrow> \<not> annotated n"

lemma only_in_lists_scan: "only_in_lists n \<Longrightarrow> annotated n \<longleftrightarrow> collapse_scan n"
proof (induction n rule: only_in_lists.induct)
  case (2 c t e sp) then show ?case 
  by (cases e) (auto simp: list_ex_iff list_all_iff)
qed (auto simp: list_ex_iff list_all_iff)

lemma not_annotated_only: "\<not> annotated n \<Longrightarrow> only_in_lists n"
  by (induction n rule: only_in_lists.induct) (auto simp: list_ex_iff list_all_iff split: option.splits)

lemma pure_not_annotated: "is_pure_dupable e \<Longrightarrow> \<not> annotated e"
  by (induction e rule: is_pure_dupable.induct) auto

lemma closed_form_not_annotated:
  assumes "recognize_for var start stop body span = Inr s" "build_closed_form s = Inr r"
  shows "\<not> annotated r"
proof -
  have "\<not> annotated (as_a s)" "\<not> annotated (as_b s)" "\<not> annotated (as_lo s)" "\<not> annotated (as_hi s)"
    using recognize_forD [OF assms(1)] pure_not_annotated by metis+
  with assms(2) show ?thesis
    by (auto simp: build_closed_form_def build_symbolic_sum_def assign_acc_plus_def mk_defs Let_def
        split: option.splits if_splits)
qed

lemma geometric_not_annotated:
  assumes "recognize_geometric var start stop body span = Inr s" "build_geometric s = Inr r"
  shows "\<not> annotated r"
proof -
  have "\<not> annotated (gp_r s)" "\<not> annotated (gp_lo s)" "\<not> annotated (gp_hi s)"
    using recognize_geometricD [OF assms(1)] pure_not_annotated by metis+
  with assms(2) show ?thesis
    by (auto simp: build_geometric_def build_symbolic_pow_def assign_acc_mul_def let_i64_def mk_assign_def mk_ident_def
        pow_ladder_body_def mk_defs Let_def split: option.splits if_splits)
qed

lemma try_collapse_not_annotated:
  assumes "try_collapse oc pre node ctx = Some (Some r, ctx')"
  shows "\<not> annotated r"
proof -
  have "\<not> annotated r" if "build_q16_collapse oc s pre ctx = Some (Some r, ctx')" for s
    using build_q16_collapseD [OF that] by (metis annotated.simps(1,9) assign_const_def mk_int_def)
  with assms show ?thesis
    by (cases node) (auto dest: closed_form_not_annotated geometric_not_annotated split: sum.splits if_splits)
qed

lemma rewrite_only_in_lists:
  "rewrite_node oc n ctx = Some (n', ctx') \<Longrightarrow> only_in_lists n \<Longrightarrow> only_in_lists n'"
  "rewrite_stmt_list oc before rest ctx = Some (out, ctx') \<Longrightarrow> list_all only_in_lists before \<Longrightarrow>
     list_all only_in_lists rest \<Longrightarrow> list_all only_in_lists out"
proof (induction oc n ctx and oc before rest ctx arbitrary: n' ctx' and out ctx'
    rule: rewrite_node_rewrite_stmt_list.induct)
  case (11 oc before node rest ctx)
  show ?case
  proof (cases "is_collapse_for node")
    case True
    then obtain rep c1 where tried: "try_collapse oc before node ctx = Some (rep, c1)"
        and rest: "rewrite_stmt_list oc (before @ [case rep of Some r \<Rightarrow> r | None \<Rightarrow> node]) rest c1 = Some (out, ctx')"
      using "11.prems" by (auto split: bind_splits)
    have "only_in_lists (case rep of Some r \<Rightarrow> r | None \<Rightarrow> node)"
      using "11.prems" try_collapse_not_annotated not_annotated_only tried by (fastforce split: option.split)
    then show ?thesis using "11.IH"(1) [OF True tried refl rest] "11.prems" by simp
  next
    case False
    then obtain node' c1 where node: "rewrite_node oc node ctx = Some (node', c1)"
        and rest: "rewrite_stmt_list oc (before @ [node']) rest c1 = Some (out, ctx')"
      using "11.prems" by (auto split: bind_splits)
    show ?thesis using "11.IH"(2) [OF False node] "11.IH"(3) [OF False node refl rest] "11.prems" by simp
  qed
qed (auto split: bind_splits)

lemma rewrite_items_only_in_lists:
  "rewrite_items oc items ctx = Some (out, ctx') \<Longrightarrow> list_all only_in_lists items \<Longrightarrow> list_all only_in_lists out"
proof (induction items arbitrary: ctx out)
  case (Cons item items)
  then obtain item' c1 items' where parts: "rewrite_node oc item ctx = Some (item', c1)"
      "rewrite_items oc items c1 = Some (items', ctx')" "out = item' # items'"
    by (auto split: bind_splits)
  show ?case using Cons.IH [OF parts(2)] rewrite_only_in_lists(1) [OF parts(1)] Cons.prems(2) parts(3) by simp
qed simp

lemma module_scan_complete:
  assumes "list_all only_in_lists items"
  shows "list_ex annotated items \<longleftrightarrow> module_has_collapse items"
  using assms only_in_lists_scan by (auto simp: module_has_collapse_def list_ex_iff list_all_iff)

text \<open>Nodes without an annotated loop are left as they are, and nothing is reported.\<close>

lemma rewrite_unannotated:
  "\<not> collapse_scan n \<Longrightarrow> rewrite_node oc n ctx = Some (n, ctx)"
  "\<not> list_ex collapse_scan rest \<Longrightarrow> rewrite_stmt_list oc before rest ctx = Some (before @ rest, ctx)"
proof (induction oc n ctx and oc before rest ctx rule: rewrite_node_rewrite_stmt_list.induct)
  case (11 oc before node rest ctx)
  then have "\<not> is_collapse_for node" by (cases node) auto
  with 11 show ?case by simp
qed simp_all

lemma rewrite_items_unannotated: "\<not> module_has_collapse items \<Longrightarrow> rewrite_items oc items ctx = Some (items, ctx)"
  by (induction items arbitrary: ctx) (simp_all add: module_has_collapse_def rewrite_unannotated)

end
