(* ===== verification/Autodiff.thy ===== *)
theory Autodiff
  imports Ir_Verify_Sound
begin

text \<open>
  \<^verbatim>\<open>src/autodiff/engine.rs\<close> and \<^verbatim>\<open>src/autodiff/rules.rs\<close>: reverse-mode differentiation of a core IR
  module.  The builder appends gradient instructions to a copy of the primal and keeps, for every value,
  the identifier of its accumulated gradient; the rules are applied to the primal backwards.  A
  \<open>BTreeMap\<close> of gradients is a map, the sorted result its list of pairs; \<^const>\<open>None\<close> is a panic (of the
  canonicalisation the engine calls).
\<close>

subsection \<open>Errors and results\<close>

datatype 'c autodiff_error =
    FunctionNotFound string
  | AutodiffMissingOutput
  | UnsupportedOp string
  | InvalidInput string
  | Verification "'c ir_verify_error"
  | InvalidAxis string
  | UnsupportedShape string

record gradient_result =
  gradient_module :: typed_module
  gradients :: "(value_id \<times> value_id) list"

definition as_invalid :: "string \<Rightarrow> 'c autodiff_error" where
  "as_invalid msg = InvalidInput msg"

text \<open>The engine's own \<open>instruction_dst\<close>: the operations it knows.\<close>

definition engine_dst :: "instr \<Rightarrow> value_id option" where
  "engine_dst i =
     (case i of
        ConstI64 dst _ \<Rightarrow> Some dst
      | ConstTensor dst _ _ _ \<Rightarrow> Some dst
      | BinOp dst _ _ _ \<Rightarrow> Some dst
      | SumOp dst _ _ _ \<Rightarrow> Some dst
      | MeanOp dst _ _ _ \<Rightarrow> Some dst
      | Reshape dst _ _ \<Rightarrow> Some dst
      | Relu dst _ \<Rightarrow> Some dst
      | ExpandDims dst _ _ \<Rightarrow> Some dst
      | Squeeze dst _ _ \<Rightarrow> Some dst
      | Transpose dst _ _ \<Rightarrow> Some dst
      | Dot dst _ _ \<Rightarrow> Some dst
      | MatMul dst _ _ \<Rightarrow> Some dst
      | Conv2d dst _ _ _ _ _ \<Rightarrow> Some dst
      | Conv2dGradInput dst _ _ _ _ _ _ \<Rightarrow> Some dst
      | Conv2dGradFilter dst _ _ _ _ _ _ \<Rightarrow> Some dst
      | ReluGrad dst _ _ \<Rightarrow> Some dst
      | Index dst _ _ \<Rightarrow> Some dst
      | Slice dst _ _ \<Rightarrow> Some dst
      | Gather dst _ _ _ \<Rightarrow> Some dst
      | Output _ \<Rightarrow> None
      | _ \<Rightarrow> None)"

subsection \<open>The builder\<close>

record grad_builder =
  gb_primal :: "instr list"
  gb_instrs :: "instr list"
  gb_next :: usize
  gb_grads :: "value_id \<rightharpoonup> value_id"
  gb_leaves :: "value_id list"

definition is_leaf :: "instr \<Rightarrow> bool" where
  "is_leaf i = (case i of ConstI64 _ _ \<Rightarrow> True | ConstTensor _ _ _ _ \<Rightarrow> True | _ \<Rightarrow> False)"

definition leaf_ids :: "instr list \<Rightarrow> value_id list" where
  "leaf_ids is = sort (remdups (List.map_filter (\<lambda>i. if is_leaf i then engine_dst i else None) is))"

definition new_builder :: "'x ir_module_scheme \<Rightarrow> grad_builder" where
  "new_builder primal =
     \<lparr>gb_primal = instrs primal, gb_instrs = instrs primal, gb_next = next_id primal, gb_grads = Map.empty,
      gb_leaves = leaf_ids (instrs primal)\<rparr>"

definition push_instr :: "(value_id \<Rightarrow> instr) \<Rightarrow> grad_builder \<Rightarrow> value_id \<times> grad_builder" where
  "push_instr mk b = (gb_next b, b\<lparr>gb_next := gb_next b + 1, gb_instrs := gb_instrs b @ [mk (gb_next b)]\<rparr>)"

definition add_const_i64 :: "i64 \<Rightarrow> grad_builder \<Rightarrow> value_id \<times> grad_builder" where
  "add_const_i64 value b = push_instr (\<lambda>dst. ConstI64 dst value) b"

definition add_binop :: "binop \<Rightarrow> value_id \<Rightarrow> value_id \<Rightarrow> grad_builder \<Rightarrow> value_id \<times> grad_builder" where
  "add_binop op lhs rhs b = push_instr (\<lambda>dst. BinOp dst op lhs rhs) b"

definition add_transpose :: "value_id \<Rightarrow> i64 list \<Rightarrow> grad_builder \<Rightarrow> value_id \<times> grad_builder" where
  "add_transpose src perm b = push_instr (\<lambda>dst. Transpose dst src perm) b"

definition add_matmul :: "value_id \<Rightarrow> value_id \<Rightarrow> grad_builder \<Rightarrow> value_id \<times> grad_builder" where
  "add_matmul x y b = push_instr (\<lambda>dst. MatMul dst x y) b"

definition add_relu_grad :: "value_id \<Rightarrow> value_id \<Rightarrow> grad_builder \<Rightarrow> value_id \<times> grad_builder" where
  "add_relu_grad grad src b = push_instr (\<lambda>dst. ReluGrad dst grad src) b"

type_synonym shape4 = "usize \<times> usize \<times> usize \<times> usize"

definition add_conv2d_grad_input ::
  "value_id \<Rightarrow> value_id \<Rightarrow> shape4 \<Rightarrow> usize \<Rightarrow> usize \<Rightarrow> conv_padding \<Rightarrow> grad_builder \<Rightarrow> value_id \<times> grad_builder" where
  "add_conv2d_grad_input dy filt input_shape stride_h stride_w padding b =
     push_instr (\<lambda>dst. Conv2dGradInput dst dy filt input_shape stride_h stride_w padding) b"

definition add_conv2d_grad_filter ::
  "value_id \<Rightarrow> value_id \<Rightarrow> shape4 \<Rightarrow> usize \<Rightarrow> usize \<Rightarrow> conv_padding \<Rightarrow> grad_builder \<Rightarrow> value_id \<times> grad_builder" where
  "add_conv2d_grad_filter inp dy filter_shape stride_h stride_w padding b =
     push_instr (\<lambda>dst. Conv2dGradFilter dst inp dy filter_shape stride_h stride_w padding) b"

text \<open>The four known dimensions of a tensor constant of the primal.\<close>

fun known_dims4 :: "shape_dim list \<Rightarrow> shape4 option" where
  "known_dims4 [Known a, Known b, Known c, Known d] = Some (a, b, c, d)"
| "known_dims4 _ = None"

fun static_shape4 :: "instr list \<Rightarrow> value_id \<Rightarrow> shape4 option" where
  "static_shape4 [] v = None"
| "static_shape4 (i # is) v =
     (case i of
        ConstTensor dst _ dims _ \<Rightarrow> if dst = v then known_dims4 dims else static_shape4 is v
      | _ \<Rightarrow> static_shape4 is v)"

definition add_grad :: "value_id \<Rightarrow> value_id \<Rightarrow> grad_builder \<Rightarrow> grad_builder" where
  "add_grad target contribution b =
     (case gb_grads b target of
        None \<Rightarrow> b\<lparr>gb_grads := (gb_grads b)(target \<mapsto> contribution)\<rparr>
      | Some existing \<Rightarrow>
          (let (summed, b) = add_binop BAdd existing contribution b
           in b\<lparr>gb_grads := (gb_grads b)(target \<mapsto> summed)\<rparr>))"

subsection \<open>The rules\<close>

definition binop_rule ::
  "binop \<Rightarrow> value_id \<Rightarrow> value_id \<Rightarrow> value_id \<Rightarrow> grad_builder \<Rightarrow> 'c autodiff_error + grad_builder" where
  "binop_rule op lhs rhs upstream b =
     (case op of
        BAdd \<Rightarrow> Inr (add_grad rhs upstream (add_grad lhs upstream b))
      | BSub \<Rightarrow>
          (let b = add_grad lhs upstream b;
               (neg_one, b) = add_const_i64 (-1) b;
               (rhs_contrib, b) = add_binop BMul upstream neg_one b
           in Inr (add_grad rhs rhs_contrib b))
      | BMul \<Rightarrow>
          (let (dlhs, b) = add_binop BMul upstream rhs b;
               (drhs, b) = add_binop BMul upstream lhs b
           in Inr (add_grad rhs drhs (add_grad lhs dlhs b)))
      | BDiv \<Rightarrow>
          (let (dlhs, b) = add_binop BDiv upstream rhs b;
               b = add_grad lhs dlhs b;
               (num, b) = add_binop BMul upstream lhs b;
               (denom, b) = add_binop BMul rhs rhs b;
               (quot, b) = add_binop BDiv num denom b;
               (neg_one, b) = add_const_i64 (-1) b;
               (drhs, b) = add_binop BMul quot neg_one b
           in Inr (add_grad rhs drhs b))
      | BMod \<Rightarrow> Inl (UnsupportedOp ''mod'')
      | BLt \<Rightarrow> Inr b | BLe \<Rightarrow> Inr b | BGt \<Rightarrow> Inr b | BGe \<Rightarrow> Inr b | BEq \<Rightarrow> Inr b | BNe \<Rightarrow> Inr b
      | _ \<Rightarrow> Inl (UnsupportedOp ''bitwise/shift''))"

text \<open>The inverse of a permutation; \<^const>\<open>None\<close> for an entry outside the rank (\<open>p as usize\<close>).\<close>

fun invert_loop :: "nat \<Rightarrow> usize \<Rightarrow> i64 list \<Rightarrow> i64 list \<Rightarrow> i64 list option" where
  "invert_loop rank idx [] invs = Some invs"
| "invert_loop rank idx (p # ps) invs =
     (if rank \<le> unat p then None else invert_loop rank (idx + 1) ps (invs[unat p := word_of_nat idx]))"

definition invert_perm :: "i64 list \<Rightarrow> i64 list option" where
  "invert_perm perm = invert_loop (length perm) 0 perm (replicate (length perm) 0)"

definition transpose_rule :: "value_id \<Rightarrow> i64 list \<Rightarrow> value_id \<Rightarrow> grad_builder \<Rightarrow> 'c autodiff_error + grad_builder" where
  "transpose_rule src perm upstream b =
     (if perm = [] then Inl (as_invalid ''transpose requires permutation for autodiff'')
      else case invert_perm perm of
        None \<Rightarrow> Inl (as_invalid ''invalid transpose permutation'')
      | Some invs \<Rightarrow> (let (g, b) = add_transpose upstream invs b in Inr (add_grad src g b)))"

text \<open>\<open>i64::try_from(axes.len()).unwrap_or(0).max(1)\<close>.\<close>

definition axis_count :: "i64 list \<Rightarrow> i64" where
  "axis_count axes = word_of_nat (max 1 (if length axes < 2 ^ 63 then length axes else 0))"

definition mean_rule :: "value_id \<Rightarrow> i64 list \<Rightarrow> value_id \<Rightarrow> grad_builder \<Rightarrow> 'c autodiff_error + grad_builder" where
  "mean_rule src axes upstream b =
     (if axes = [] then Inl (as_invalid ''mean requires explicit axes for autodiff'')
      else
        let (count, b) = add_const_i64 (axis_count axes) b;
            (scaled, b) = add_binop BDiv upstream count b
        in Inr (add_grad src scaled b))"

definition matmul_rule :: "value_id \<Rightarrow> value_id \<Rightarrow> value_id \<Rightarrow> grad_builder \<Rightarrow> grad_builder" where
  "matmul_rule x y upstream b =
     (let (yt, b) = add_transpose y [1, 0] b;
          (xt, b) = add_transpose x [1, 0] b;
          (dx, b) = add_matmul upstream yt b;
          (dy, b) = add_matmul xt upstream b
      in add_grad y dy (add_grad x dx b))"

definition conv2d_rule ::
  "value_id \<Rightarrow> value_id \<Rightarrow> usize \<Rightarrow> usize \<Rightarrow> conv_padding \<Rightarrow> value_id \<Rightarrow> grad_builder \<Rightarrow> 'c autodiff_error + grad_builder" where
  "conv2d_rule inp filt stride_h stride_w padding upstream b =
     (case static_shape4 (gb_primal b) inp of
        None \<Rightarrow> Inl (UnsupportedShape ''conv2d input shape is not statically known (NHWC)'')
      | Some input_shape \<Rightarrow>
          (case static_shape4 (gb_primal b) filt of
             None \<Rightarrow> Inl (UnsupportedShape ''conv2d filter shape is not statically known (HWIO)'')
           | Some filter_shape \<Rightarrow>
               (let (dinput, b) = add_conv2d_grad_input upstream filt input_shape stride_h stride_w padding b;
                    b = add_grad inp dinput b;
                    (dfilter, b) = add_conv2d_grad_filter inp upstream filter_shape stride_h stride_w padding b
                in Inr (add_grad filt dfilter b))))"

definition no_rule :: string where
  "no_rule = ''no autodiff rule for this IR instruction; differentiation supports the '' @
     ''Core-v1 tensor ops only (function, control-flow, and std-surface ops are '' @
     ''not differentiable '' @ [CHR 0xE2, CHR 0x80, CHR 0x94] @ '' see docs/autodiff.md)''"

definition apply_rule :: "instr \<Rightarrow> value_id \<Rightarrow> grad_builder \<Rightarrow> 'c autodiff_error + grad_builder" where
  "apply_rule i upstream b =
     (case i of
        ConstI64 _ _ \<Rightarrow> Inr b
      | ConstF64 _ _ \<Rightarrow> Inr b
      | ConstTensor _ _ _ _ \<Rightarrow> Inr b
      | BinOp _ op lhs rhs \<Rightarrow> binop_rule op lhs rhs upstream b
      | MatMul _ x y \<Rightarrow> Inr (matmul_rule x y upstream b)
      | Conv2d _ inp filt stride_h stride_w padding \<Rightarrow> conv2d_rule inp filt stride_h stride_w padding upstream b
      | Conv2dGradInput _ _ _ _ _ _ _ \<Rightarrow> Inl (UnsupportedOp ''conv2d_grad_input'')
      | Conv2dGradFilter _ _ _ _ _ _ _ \<Rightarrow> Inl (UnsupportedOp ''conv2d_grad_filter'')
      | Relu _ src \<Rightarrow> (let (dsrc, b) = add_relu_grad upstream src b in Inr (add_grad src dsrc b))
      | Dot _ x y \<Rightarrow>
          (let (dx, b) = add_binop BMul upstream y b;
               (dy, b) = add_binop BMul upstream x b
           in Inr (add_grad y dy (add_grad x dx b)))
      | Transpose _ src perm \<Rightarrow> transpose_rule src perm upstream b
      | MeanOp _ src axes _ \<Rightarrow> mean_rule src axes upstream b
      | SumOp _ src _ _ \<Rightarrow> Inr (add_grad src upstream b)
      | Reshape _ src _ \<Rightarrow> Inr (add_grad src upstream b)
      | ExpandDims _ src _ \<Rightarrow> Inr (add_grad src upstream b)
      | Squeeze _ src _ \<Rightarrow> Inr (add_grad src upstream b)
      | Index _ src _ \<Rightarrow> Inr (add_grad src upstream b)
      | Slice _ src _ \<Rightarrow> Inr (add_grad src upstream b)
      | Gather _ src _ _ \<Rightarrow> Inr (add_grad src upstream b)
      | Output _ \<Rightarrow> Inr b
      | _ \<Rightarrow> Inl (as_invalid no_rule))"

subsection \<open>The run\<close>

definition seed_output :: "value_id \<Rightarrow> grad_builder \<Rightarrow> grad_builder" where
  "seed_output out b = (let (seed, b) = add_const_i64 1 b in b\<lparr>gb_grads := (gb_grads b)(out \<mapsto> seed)\<rparr>)"

text \<open>The loop of \<open>propagate_gradients\<close> over the primal's instructions, last to first.\<close>

fun propagate :: "instr list \<Rightarrow> grad_builder \<Rightarrow> 'c autodiff_error + grad_builder" where
  "propagate [] b = Inr b"
| "propagate (i # is) b =
     (case engine_dst i of
        None \<Rightarrow> propagate is b
      | Some dst \<Rightarrow>
          (case gb_grads b dst of
             None \<Rightarrow> propagate is b
           | Some upstream \<Rightarrow> rbind (apply_rule i upstream b) (propagate is)))"

definition propagate_gradients :: "grad_builder \<Rightarrow> 'c autodiff_error + grad_builder" where
  "propagate_gradients b = propagate (rev (gb_primal b)) b"

definition collect_grads :: "(value_id \<rightharpoonup> value_id) \<Rightarrow> value_id list \<Rightarrow> (value_id \<times> value_id) list" where
  "collect_grads grads ls = List.map_filter (\<lambda>v. map_option (Pair v) (grads v)) ls"

definition finish :: "grad_builder \<Rightarrow> gradient_result" where
  "finish b =
     \<lparr>gradient_module = \<lparr>instrs = gb_instrs b, next_id = gb_next b, exports = {}, canonical_types = None,
        m_value_types = []\<rparr>,
      gradients = collect_grads (gb_grads b) (gb_leaves b)\<rparr>"

definition is_output_of :: "value_id list \<Rightarrow> instr \<Rightarrow> bool" where
  "is_output_of outs i = (case i of Output v \<Rightarrow> v \<in> set outs | _ \<Rightarrow> False)"

definition engine_bound :: "instr list \<Rightarrow> usize" where
  "engine_bound is = fold (\<lambda>i b. case engine_dst i of Some d \<Rightarrow> max b (d + 1) | None \<Rightarrow> b) is 0"

definition canonicalize_gradients :: "bool \<Rightarrow> gradient_result \<Rightarrow> gradient_result option" where
  "canonicalize_gradients oc r =
     (let outs = sort (remdups (map snd (gradients r)));
          g = gradient_module r
      in do {
        g \<leftarrow> canonicalize_module oc (g\<lparr>instrs := instrs g @ map Output outs\<rparr>);
        let is = filter (\<lambda>i. \<not> is_output_of outs i) (instrs g);
        Some (r\<lparr>gradient_module := g\<lparr>instrs := is, next_id := engine_bound is\<rparr>\<rparr>) })"

definition output_of :: "instr \<Rightarrow> value_id option" where
  "output_of i = (case i of Output v \<Rightarrow> Some v | _ \<Rightarrow> None)"

definition output_ids :: "instr list \<Rightarrow> value_id list" where
  "output_ids is = List.map_filter output_of is"

definition differentiate_with_options ::
  "(typed_module \<Rightarrow> 'c + unit) \<Rightarrow> bool \<Rightarrow> typed_module \<Rightarrow> string \<Rightarrow> bool \<Rightarrow> ('c autodiff_error + gradient_result) option" where
  "differentiate_with_options canonical_check oc m fn_name verify_gradients =
     (if fn_name \<noteq> ''main'' then Some (Inl (FunctionNotFound fn_name))
      else if output_ids (instrs m) = [] then Some (Inl AutodiffMissingOutput)
      else
        let check = (\<lambda>g. if verify_gradients then map_err Verification (verify_module canonical_check g) else Inr ());
            out = last (output_ids (instrs m))
        in case rbind (check m) (\<lambda>_. propagate_gradients (seed_output out (new_builder m))) of
             Inl e \<Rightarrow> Some (Inl e)
           | Inr b \<Rightarrow>
               (case canonicalize_gradients oc (finish b) of
                  None \<Rightarrow> None
                | Some r \<Rightarrow> Some (rbind (check (gradient_module r)) (\<lambda>_. Inr r))))"

definition differentiate_function ::
  "(typed_module \<Rightarrow> 'c + unit) \<Rightarrow> bool \<Rightarrow> typed_module \<Rightarrow> string \<Rightarrow> ('c autodiff_error + gradient_result) option" where
  "differentiate_function canonical_check oc m fn_name = differentiate_with_options canonical_check oc m fn_name True"

end
