(* ===== verification/Autodiff_Sound.thy ===== *)
theory Autodiff_Sound
  imports Autodiff
begin

text \<open>
  Reverse mode against forward mode.  For the scalar fragment -- constants, addition, subtraction,
  multiplication, comparisons and outputs, in wrapping 64-bit arithmetic -- every gradient the engine
  returns evaluates, in the canonicalised gradient module, to the tangent a dual-number evaluation of the
  primal computes, and the tangent is the derivative of the program in its constant.
\<close>

subsection \<open>The fragment and its values\<close>

definition ring_op :: "binop \<Rightarrow> bool" where
  "ring_op op = (case op of BDiv \<Rightarrow> False | BMod \<Rightarrow> False | BBitAnd \<Rightarrow> False | BBitOr \<Rightarrow> False
     | BBitXor \<Rightarrow> False | BShl \<Rightarrow> False | BShr \<Rightarrow> False | _ \<Rightarrow> True)"

definition grad_instr :: "instr \<Rightarrow> bool" where
  "grad_instr i = (case i of ConstI64 _ _ \<Rightarrow> True | BinOp _ op _ _ \<Rightarrow> ring_op op | Output _ \<Rightarrow> True | _ \<Rightarrow> False)"

lemma grad_instr_cases [consumes 1, case_names ConstI64 BinOp Output]:
  assumes "grad_instr i"
  obtains d n where "i = ConstI64 d n" | d op l r where "i = BinOp d op l r" "ring_op op" | v where "i = Output v"
  using assms by (cases i) (auto simp: grad_instr_def)

definition ring_eval :: "binop \<Rightarrow> i64 \<Rightarrow> i64 \<Rightarrow> i64" where
  "ring_eval op x y = (case eval_int_binop False op x y of Some z \<Rightarrow> z | None \<Rightarrow> 0)"

lemma ring_eval_simps [simp]:
  "ring_eval BAdd x y = x + y" "ring_eval BSub x y = x - y" "ring_eval BMul x y = x * y"
  by (simp_all add: ring_eval_def arith_add_def arith_sub_def arith_mul_def)

lemma ring_eval_some: "ring_op op \<Longrightarrow> eval_int_binop False op x y = Some (ring_eval op x y)"
  by (cases op) (simp_all add: ring_op_def ring_eval_def arith_add_def arith_sub_def arith_mul_def)

definition sval :: "ir_env \<Rightarrow> value_id \<Rightarrow> i64" where
  "sval vals v = (case vals v of Some (VInt n) \<Rightarrow> n | _ \<Rightarrow> 0)"

lemma read_sval: "scalar_env vals \<Longrightarrow> read_val vals v = VInt (sval vals v)"
  by (auto simp: scalar_env_def read_val_def sval_def split: option.splits ir_value.splits)

lemma sval_empty [simp]: "sval Map.empty = (\<lambda>_. 0)" by (simp add: sval_def fun_eq_iff)

lemma sval_upd: "sval (vals(d \<mapsto> VInt n)) = (sval vals)(d := n)" by (simp add: sval_def fun_eq_iff)

lemma scalar_env_upd: "scalar_env vals \<Longrightarrow> scalar_env (vals(d \<mapsto> VInt n))" by (simp add: scalar_env_def)

text \<open>One instruction of the fragment on the values alone.\<close>

definition value_step :: "instr \<Rightarrow> (value_id \<Rightarrow> i64) \<Rightarrow> value_id \<Rightarrow> i64" where
  "value_step i x =
     (case i of
        ConstI64 d n \<Rightarrow> x(d := n)
      | BinOp d op l r \<Rightarrow> x(d := ring_eval op (x l) (x r))
      | _ \<Rightarrow> x)"

lemma grad_step:
  assumes "grad_instr i" "scalar_env vals"
  obtains vals' l' e where "eval_effect False vals i = Some e" "apply_effect e (vals, l) = (vals', l')"
    "scalar_env vals'" "sval vals' = value_step i (sval vals)" "dom vals' = dom vals \<union> set_option (instruction_dst i)"
  using assms(1)
proof (cases rule: grad_instr_cases)
  case (ConstI64 d n)
  then show thesis using that [of "Define d (VInt n)" "vals(d \<mapsto> VInt n)" l] assms(2)
    by (simp add: sval_upd scalar_env_upd value_step_def)
next
  case (BinOp d op l1 r1)
  let ?n = "ring_eval op (sval vals l1) (sval vals r1)"
  have "eval_effect False vals i = Some (DefineLast d (VInt ?n))"
    using BinOp by (simp add: read_sval [OF assms(2)] ring_eval_some)
  then show thesis using BinOp that [of "DefineLast d (VInt ?n)" "vals(d \<mapsto> VInt ?n)" "VInt ?n"] assms(2)
    by (simp add: sval_upd scalar_env_upd value_step_def)
next
  case (Output v)
  then show thesis using assms(2) that [of "case vals v of Some x \<Rightarrow> Emit x | None \<Rightarrow> Nop" vals]
    by (cases "vals v") (auto simp: eval_effect_def value_step_def)
qed

lemma grad_run:
  assumes "\<forall>i \<in> set is. grad_instr i" "scalar_env vals"
  obtains vals' l' where "eval_instrs False is (vals, l) = Some (vals', l')" "scalar_env vals'"
    "sval vals' = fold value_step is (sval vals)" "dom vals' = dom vals \<union> defs is"
  using assms
proof (induction "is" arbitrary: vals l thesis)
  case (Cons i "is")
  have gi: "grad_instr i" using Cons.prems(2) by simp
  obtain vals1 l1 e where s: "eval_effect False vals i = Some e" "apply_effect e (vals, l) = (vals1, l1)" "scalar_env vals1"
    "sval vals1 = value_step i (sval vals)" "dom vals1 = dom vals \<union> set_option (instruction_dst i)"
    by (rule grad_step [OF gi Cons.prems(3), where l = l])
  obtain vals' l' where r: "eval_instrs False is (vals1, l1) = Some (vals', l')" "scalar_env vals'"
    "sval vals' = fold value_step is (sval vals1)" "dom vals' = dom vals1 \<union> defs is"
    using Cons.IH [of vals1 l1] s(3) Cons.prems(2) by auto
  show ?case
  proof (rule Cons.prems(1))
    show "eval_instrs False (i # is) (vals, l) = Some (vals', l')" using s(1,2) r(1) by simp
    show "dom vals' = dom vals \<union> defs (i # is)" using s(5) r(4) by (auto split: option.splits)
  qed (use s r in simp_all)
qed simp

text \<open>The value of a stream of the fragment, started from nothing.\<close>

definition stream_val :: "instr list \<Rightarrow> value_id \<Rightarrow> i64" where
  "stream_val is = fold value_step is (\<lambda>_. 0)"

lemma stream_run:
  assumes "\<forall>i \<in> set is. grad_instr i"
  obtains vals l where "eval_instrs False is (Map.empty, VInt 0) = Some (vals, l)"
    "\<And>v. v \<in> defs is \<Longrightarrow> vals v = Some (VInt (stream_val is v))"
proof -
  obtain vals l where r: "eval_instrs False is (Map.empty, VInt 0) = Some (vals, l)" "scalar_env vals"
    "sval vals = fold value_step is (sval Map.empty)" "dom vals = dom (Map.empty :: ir_env) \<union> defs is"
    by (rule grad_run [OF assms scalar_env_empty, where l = "VInt 0"])
  have "vals v = Some (VInt (stream_val is v))" if d: "v \<in> defs is" for v
  proof -
    obtain x where x: "vals v = Some x" using r(4) d by auto
    with r(2) obtain n where "x = VInt n" by (auto simp: scalar_env_def)
    with x have "sval vals v = n" by (simp add: sval_def)
    with x \<open>x = VInt n\<close> r(3) show ?thesis by (simp add: stream_val_def)
  qed
  with r(1) that show thesis by blast
qed

lemma stream_val_snoc: "stream_val (is @ [i]) = value_step i (stream_val is)"
  by (simp add: stream_val_def)

subsection \<open>Dual numbers\<close>

definition dual_binop :: "binop \<Rightarrow> i64 \<times> i64 \<Rightarrow> i64 \<times> i64 \<Rightarrow> i64 \<times> i64" where
  "dual_binop op u w =
     (ring_eval op (fst u) (fst w),
      case op of
        BAdd \<Rightarrow> snd u + snd w
      | BSub \<Rightarrow> snd u - snd w
      | BMul \<Rightarrow> snd u * fst w + fst u * snd w
      | _ \<Rightarrow> 0)"

definition dual_step :: "value_id \<Rightarrow> instr \<Rightarrow> (value_id \<Rightarrow> i64 \<times> i64) \<Rightarrow> value_id \<Rightarrow> i64 \<times> i64" where
  "dual_step c i e =
     (case i of
        ConstI64 d n \<Rightarrow> e(d := (n, if d = c then 1 else 0))
      | BinOp d op l r \<Rightarrow> e(d := dual_binop op (e l) (e r))
      | _ \<Rightarrow> e)"

text \<open>Value and tangent of every value, with respect to the constant \<open>c\<close>.\<close>

definition dual_eval :: "value_id \<Rightarrow> instr list \<Rightarrow> value_id \<Rightarrow> i64 \<times> i64" where
  "dual_eval c is = fold (dual_step c) is (\<lambda>_. (0, 0))"

definition tangent :: "value_id \<Rightarrow> instr list \<Rightarrow> value_id \<Rightarrow> i64" where
  "tangent c is v = snd (dual_eval c is v)"

lemma dual_step_keep: "grad_instr i \<Longrightarrow> instruction_dst i \<noteq> Some v \<Longrightarrow> dual_step c i e v = e v"
  by (erule grad_instr_cases) (auto simp: dual_step_def)

lemma dual_fold_keep: "\<forall>i \<in> set is. grad_instr i \<Longrightarrow> v \<notin> defs is \<Longrightarrow> fold (dual_step c) is e v = e v"
  by (induction "is" arbitrary: e) (auto simp: dual_step_keep split: option.splits)

definition dual_solves :: "value_id \<Rightarrow> (value_id \<Rightarrow> i64 \<times> i64) \<Rightarrow> instr \<Rightarrow> bool" where
  "dual_solves c e i =
     (case i of
        ConstI64 d n \<Rightarrow> e d = (n, if d = c then 1 else 0)
      | BinOp d op l r \<Rightarrow> e d = dual_binop op (e l) (e r)
      | _ \<Rightarrow> True)"

lemma dual_fold_solves:
  assumes "\<forall>i \<in> set is. grad_instr i" "def_before_use is" "distinct_defs is"
  shows "\<forall>i \<in> set is. dual_solves c (fold (dual_step c) is e) i"
  using assms
proof (induction "is" arbitrary: e)
  case (Cons i "is")
  let ?e1 = "dual_step c i e" let ?e = "fold (dual_step c) is ?e1"
  have keep: "?e v = ?e1 v" if "v \<notin> defs is" for v using dual_fold_keep Cons.prems(1) that by simp
  have "grad_instr i" using Cons.prems(1) by simp
  then have "dual_solves c ?e i"
  proof (cases rule: grad_instr_cases)
    case (ConstI64 d n)
    then have "d \<notin> defs is" using Cons.prems(3) by simp
    then have "?e d = ?e1 d" by (rule keep)
    then show ?thesis using ConstI64 by (simp add: dual_solves_def dual_step_def)
  next
    case (BinOp d op l r)
    then have "d \<notin> defs is" "l \<notin> insert d (defs is)" "r \<notin> insert d (defs is)" using Cons.prems(2,3) by auto
    then have "?e d = ?e1 d" "?e l = ?e1 l" "?e r = ?e1 r" "l \<noteq> d" "r \<noteq> d" using keep by blast+
    then show ?thesis using BinOp by (simp add: dual_solves_def dual_step_def)
  qed (simp add: dual_solves_def)
  with Cons show ?case by simp
qed simp

lemma dual_fst: "\<forall>i \<in> set is. grad_instr i \<Longrightarrow> (\<lambda>v. fst (e v)) = x \<Longrightarrow>
    (\<lambda>v. fst (fold (dual_step c) is e v)) = fold value_step is x"
proof (induction "is" arbitrary: e x)
  case (Cons i "is")
  have "grad_instr i" using Cons.prems(1) by simp
  then have "(\<lambda>v. fst (dual_step c i e v)) = value_step i x"
    using Cons.prems(2) by (cases rule: grad_instr_cases) (auto simp: dual_step_def value_step_def dual_binop_def fun_eq_iff)
  with Cons show ?case by simp
qed simp

lemma fst_dual_eval: "\<forall>i \<in> set is. grad_instr i \<Longrightarrow> fst (dual_eval c is v) = stream_val is v"
  using dual_fst [of "is" "\<lambda>_. (0, 0)" "\<lambda>_. 0" c] by (simp add: dual_eval_def stream_val_def fun_eq_iff)

text \<open>The local derivatives of an operation.\<close>

definition dlhs :: "binop \<Rightarrow> i64 \<Rightarrow> i64" where
  "dlhs op y = (case op of BAdd \<Rightarrow> 1 | BSub \<Rightarrow> 1 | BMul \<Rightarrow> y | _ \<Rightarrow> 0)"

definition drhs :: "binop \<Rightarrow> i64 \<Rightarrow> i64" where
  "drhs op x = (case op of BAdd \<Rightarrow> 1 | BSub \<Rightarrow> -1 | BMul \<Rightarrow> x | _ \<Rightarrow> 0)"

lemma tangent_facts:
  assumes "\<forall>i \<in> set is. grad_instr i" "flat_stream {} is"
  shows "ConstI64 d n \<in> set is \<Longrightarrow> tangent c is d = (if d = c then 1 else 0)"
    and "BinOp d op l r \<in> set is \<Longrightarrow>
      tangent c is d = dlhs op (stream_val is r) * tangent c is l + drhs op (stream_val is l) * tangent c is r"
proof -
  have s: "\<forall>i \<in> set is. dual_solves c (dual_eval c is) i"
    unfolding dual_eval_def using dual_fold_solves assms(1) flat_stream_distinct [OF assms(2)] by blast
  show "ConstI64 d n \<in> set is \<Longrightarrow> tangent c is d = (if d = c then 1 else 0)"
    using s by (auto simp: dual_solves_def tangent_def)
  assume b: "BinOp d op l r \<in> set is"
  then have "dual_eval c is d = dual_binop op (dual_eval c is l) (dual_eval c is r)"
    using s by (auto simp: dual_solves_def)
  then show "tangent c is d = dlhs op (stream_val is r) * tangent c is l + drhs op (stream_val is l) * tangent c is r"
    unfolding tangent_def by (cases op) (simp_all add: dual_binop_def dlhs_def drhs_def fst_dual_eval [OF assms(1)] mult.commute)
qed

subsection \<open>The builder\<close>

lemma flat_stream_snoc:
  "flat_stream D (is @ [i]) \<longleftrightarrow>
     flat_stream D is \<and> set (instruction_operands i) \<subseteq> D \<union> defs is \<and> (\<forall>d. instruction_dst i = Some d \<longrightarrow> d \<notin> D \<union> defs is)"
proof (induction "is" arbitrary: D)
  case (Cons j "is")
  then show ?case by (cases "instruction_dst j") auto
qed simp

lemma flat_stream_prefix: "flat_stream D (is @ js) \<Longrightarrow> flat_stream D is"
  by (induction "is" arbitrary: D) auto

lemma defs_append [simp]: "defs (is @ js) = defs is \<union> defs js"
  by (auto simp: defs_def)

text \<open>
  A builder of the fragment over identifiers from \<open>n0\<close> on: a verified stream whose gradients are
  values of it, the value a gradient holds, and the adjoint of a primal value.
\<close>

definition wf_builder :: "usize \<Rightarrow> grad_builder \<Rightarrow> bool" where
  "wf_builder n0 b \<longleftrightarrow>
     (\<forall>i \<in> set (gb_instrs b). grad_instr i) \<and> flat_stream {} (gb_instrs b) \<and>
     (\<forall>d \<in> defs (gb_instrs b). d < gb_next b) \<and> n0 \<le> gb_next b \<and>
     (\<forall>g \<in> ran (gb_grads b). g \<in> defs (gb_instrs b) \<and> n0 \<le> g)"

definition bval :: "grad_builder \<Rightarrow> value_id \<Rightarrow> i64" where
  "bval b = stream_val (gb_instrs b)"

definition adj :: "grad_builder \<Rightarrow> value_id \<Rightarrow> i64" where
  "adj b v = (case gb_grads b v of Some g \<Rightarrow> bval b g | None \<Rightarrow> 0)"

definition extends :: "grad_builder \<Rightarrow> grad_builder \<Rightarrow> bool" where
  "extends b b' \<longleftrightarrow>
     defs (gb_instrs b) \<subseteq> defs (gb_instrs b') \<and> (\<forall>v \<in> defs (gb_instrs b). bval b' v = bval b v) \<and>
     gb_primal b' = gb_primal b \<and> gb_leaves b' = gb_leaves b \<and> (\<exists>G. gb_instrs b' = gb_instrs b @ G)"

lemma extends_refl [simp]: "extends b b" by (simp add: extends_def)

lemma extends_trans: "extends a b \<Longrightarrow> extends b c \<Longrightarrow> extends a c"
  unfolding extends_def by (elim conjE exE) (auto simp: subset_iff)

lemma extendsD:
  "extends b b' \<Longrightarrow> v \<in> defs (gb_instrs b) \<Longrightarrow> v \<in> defs (gb_instrs b')"
  "extends b b' \<Longrightarrow> v \<in> defs (gb_instrs b) \<Longrightarrow> bval b' v = bval b v"
  by (auto simp: extends_def)

lemma push_laws:
  assumes wf: "wf_builder n0 b" and i: "grad_instr (mk (gb_next b))" "instruction_dst (mk (gb_next b)) = Some (gb_next b)"
    "set (instruction_operands (mk (gb_next b))) \<subseteq> defs (gb_instrs b)"
    and p: "push_instr mk b = (g, b')"
  shows "wf_builder n0 b'" "extends b b'" "g \<in> defs (gb_instrs b')" "n0 \<le> g" "adj b' = adj b"
    "bval b' g = value_step (mk g) (bval b) g" "gb_grads b' = gb_grads b"
proof -
  have g: "g = gb_next b" and b': "b' = b\<lparr>gb_next := gb_next b + 1, gb_instrs := gb_instrs b @ [mk (gb_next b)]\<rparr>"
    using p by (auto simp: push_instr_def)
  have new: "gb_next b \<notin> defs (gb_instrs b)" using wf by (auto simp: wf_builder_def)
  have val: "bval b' = value_step (mk g) (bval b)" unfolding bval_def b' g by (simp add: stream_val_snoc)
  have other: "value_step (mk g) x v = x v" if "v \<noteq> g" for x v
    using i(1,2) that unfolding g by (cases rule: grad_instr_cases) (auto simp: value_step_def)
  show "wf_builder n0 b'"
    using wf i unfolding wf_builder_def b' by (auto simp: flat_stream_snoc less_Suc_eq)
  have "bval b' v = bval b v" if "v \<in> defs (gb_instrs b)" for v
  proof -
    have "v \<noteq> g" using that new g by metis
    then show ?thesis unfolding val by (rule other)
  qed
  then show ext: "extends b b'" unfolding extends_def by (auto simp: b')
  show "g \<in> defs (gb_instrs b')" using i(2) by (simp add: b' g)
  show "n0 \<le> g" using wf by (simp add: g wf_builder_def)
  show "gb_grads b' = gb_grads b" by (simp add: b')
  then show "adj b' = adj b" using wf extendsD(2) [OF ext]
    unfolding adj_def fun_eq_iff by (auto simp: wf_builder_def ran_def split: option.splits)
  show "bval b' g = value_step (mk g) (bval b) g" by (simp add: val)
qed

lemma add_const_laws:
  assumes "wf_builder n0 b" "add_const_i64 n b = (g, b')"
  shows "wf_builder n0 b'" "extends b b'" "g \<in> defs (gb_instrs b')" "n0 \<le> g" "adj b' = adj b" "bval b' g = n"
    "gb_grads b' = gb_grads b"
  using push_laws [OF assms(1) _ _ _ assms(2) [unfolded add_const_i64_def]]
  by (simp_all add: grad_instr_def value_step_def)

lemma add_binop_laws:
  assumes "wf_builder n0 b" "ring_op op" "l \<in> defs (gb_instrs b)" "r \<in> defs (gb_instrs b)" "add_binop op l r b = (g, b')"
  shows "wf_builder n0 b'" "extends b b'" "g \<in> defs (gb_instrs b')" "n0 \<le> g" "adj b' = adj b"
    "bval b' g = ring_eval op (bval b l) (bval b r)" "gb_grads b' = gb_grads b"
  using push_laws [OF assms(1) _ _ _ assms(5) [unfolded add_binop_def]] assms(2-4)
  by (simp_all add: grad_instr_def value_step_def)

lemma add_grad_laws:
  assumes wf: "wf_builder n0 b" and k: "k \<in> defs (gb_instrs b)" "n0 \<le> k"
  shows "wf_builder n0 (add_grad v k b)" "extends b (add_grad v k b)"
    "adj (add_grad v k b) = (adj b)(v := adj b v + bval b k)"
proof -
  have put: "wf_builder n0 (b1\<lparr>gb_grads := (gb_grads b1)(v \<mapsto> g)\<rparr>)" "extends b1 (b1\<lparr>gb_grads := (gb_grads b1)(v \<mapsto> g)\<rparr>)"
    "adj (b1\<lparr>gb_grads := (gb_grads b1)(v \<mapsto> g)\<rparr>) = (adj b1)(v := bval b1 g)"
    if "wf_builder n0 b1" "g \<in> defs (gb_instrs b1)" "n0 \<le> g" for b1 g
  proof -
    have "ran ((gb_grads b1)(v \<mapsto> g)) \<subseteq> insert g (ran (gb_grads b1))" by (auto simp: ran_def)
    then show "wf_builder n0 (b1\<lparr>gb_grads := (gb_grads b1)(v \<mapsto> g)\<rparr>)" using that by (auto simp: wf_builder_def)
    show "extends b1 (b1\<lparr>gb_grads := (gb_grads b1)(v \<mapsto> g)\<rparr>)" by (simp add: extends_def bval_def)
    show "adj (b1\<lparr>gb_grads := (gb_grads b1)(v \<mapsto> g)\<rparr>) = (adj b1)(v := bval b1 g)"
    proof -
      have "bval (b1\<lparr>gb_grads := (gb_grads b1)(v \<mapsto> g)\<rparr>) = bval b1" by (simp add: bval_def)
      then show ?thesis unfolding fun_eq_iff adj_def by (simp split: option.split)
    qed
  qed
  have "wf_builder n0 (add_grad v k b) \<and> extends b (add_grad v k b) \<and>
    adj (add_grad v k b) = (adj b)(v := adj b v + bval b k)"
  proof (cases "gb_grads b v")
    case None
    then show ?thesis using put [OF wf k] by (simp add: add_grad_def) (simp add: adj_def)
  next
    case (Some g0)
    then have g0: "g0 \<in> defs (gb_instrs b)" using wf by (auto simp: wf_builder_def ran_def)
    obtain g b1 where p: "add_binop BAdd g0 k b = (g, b1)" by fastforce
    note a = add_binop_laws [OF wf _ g0 k(1) p]
    have "ring_op BAdd" by (simp add: ring_op_def)
    note a = a [OF this]
    have e: "add_grad v k b = b1\<lparr>gb_grads := (gb_grads b1)(v \<mapsto> g)\<rparr>" by (simp add: add_grad_def Some p)
    have "adj b v = bval b g0" by (simp add: adj_def Some)
    then show ?thesis unfolding e using put [OF a(1,3,4)] extends_trans [OF a(2)] a(5,6) by auto
  qed
  then show "wf_builder n0 (add_grad v k b)" "extends b (add_grad v k b)"
    "adj (add_grad v k b) = (adj b)(v := adj b v + bval b k)" by blast+
qed

text \<open>What the rule of an operation adds to the adjoints.\<close>

definition adjoint_after :: "binop \<Rightarrow> value_id \<Rightarrow> value_id \<Rightarrow> i64 \<Rightarrow> (value_id \<Rightarrow> i64) \<Rightarrow> (value_id \<Rightarrow> i64) \<Rightarrow> value_id \<Rightarrow> i64" where
  "adjoint_after op l r u x A v =
     A v + (if v = l then u * dlhs op (x r) else 0) + (if v = r then u * drhs op (x l) else 0)"

lemma binop_rule_laws:
  assumes wf: "wf_builder n0 b" and op: "ring_op op"
    and d: "l \<in> defs (gb_instrs b)" "r \<in> defs (gb_instrs b)" "u \<in> defs (gb_instrs b)" "n0 \<le> u"
  obtains b' where "binop_rule op l r u b = Inr b'" "wf_builder n0 b'" "extends b b'"
    "adj b' = adjoint_after op l r (bval b u) (bval b) (adj b)"
proof (cases "op = BAdd \<or> op = BSub \<or> op = BMul")
  case False
  then have "binop_rule op l r u b = Inr b" "\<And>x. dlhs op x = 0" "\<And>x. drhs op x = 0"
    using op by (cases op; simp add: ring_op_def binop_rule_def dlhs_def drhs_def)+
  then have "binop_rule op l r u b = Inr b" "adj b = adjoint_after op l r (bval b u) (bval b) (adj b)"
    by (simp_all add: adjoint_after_def fun_eq_iff)
  from that [OF this(1) wf extends_refl this(2)] show thesis .
next
  case True
  have mul: "ring_op BMul" by (simp add: ring_op_def)
  consider "op = BAdd" | "op = BSub" | "op = BMul" using True by blast
  then show thesis
  proof cases
    case 1
    let ?b1 = "add_grad l u b" let ?b2 = "add_grad r u ?b1"
    note a1 = add_grad_laws [OF wf d(3,4), of l]
    note a2 = add_grad_laws [OF a1(1) extendsD(1) [OF a1(2) d(3)] d(4), of r]
    show thesis
    proof (rule that [of ?b2])
      show "binop_rule op l r u b = Inr ?b2" using 1 by (simp add: binop_rule_def)
      show "adj ?b2 = adjoint_after op l r (bval b u) (bval b) (adj b)"
        unfolding a2(3) a1(3) extendsD(2) [OF a1(2) d(3)] by (auto simp: 1 adjoint_after_def dlhs_def drhs_def fun_eq_iff)
    qed (use a2(1) extends_trans [OF a1(2) a2(2)] in simp_all)
  next
    case 2
    let ?b1 = "add_grad l u b"
    note a1 = add_grad_laws [OF wf d(3,4), of l]
    obtain k b2 where k: "add_const_i64 (-1) ?b1 = (k, b2)" by fastforce
    note a2 = add_const_laws [OF a1(1) k]
    have u2: "u \<in> defs (gb_instrs b2)" using extendsD(1) [OF a2(2)] extendsD(1) [OF a1(2) d(3)] by blast
    obtain c b3 where c: "add_binop BMul u k b2 = (c, b3)" by fastforce
    note a3 = add_binop_laws [OF a2(1) mul u2 a2(3) c]
    let ?b4 = "add_grad r c b3"
    note a4 = add_grad_laws [OF a3(1,3,4), of r]
    have "bval b2 u = bval b u" using extendsD(2) [OF a2(2)] extendsD [OF a1(2) d(3)] by simp
    then have v: "bval b3 c = - bval b u" by (simp add: a3(6) a2(6))
    show thesis
    proof (rule that [of ?b4])
      show "binop_rule op l r u b = Inr ?b4" using 2 k c by (simp add: binop_rule_def)
      show "adj ?b4 = adjoint_after op l r (bval b u) (bval b) (adj b)"
        unfolding a4(3) a3(5) a2(5) a1(3) v by (auto simp: 2 adjoint_after_def dlhs_def drhs_def fun_eq_iff)
    qed (use a4(1) extends_trans [OF a1(2) extends_trans [OF a2(2) extends_trans [OF a3(2) a4(2)]]] in simp_all)
  next
    case 3
    obtain p b1 where p: "add_binop BMul u r b = (p, b1)" by fastforce
    note a1 = add_binop_laws [OF wf mul d(3,2) p]
    obtain q b2 where q: "add_binop BMul u l b1 = (q, b2)" by fastforce
    note a2 = add_binop_laws [OF a1(1) mul extendsD(1) [OF a1(2) d(3)] extendsD(1) [OF a1(2) d(1)] q]
    let ?b3 = "add_grad l p b2" let ?b4 = "add_grad r q ?b3"
    note a3 = add_grad_laws [OF a2(1) extendsD(1) [OF a2(2) a1(3)] a1(4), of l]
    note a4 = add_grad_laws [OF a3(1) extendsD(1) [OF a3(2) a2(3)] a2(4), of r]
    have v: "bval b2 p = bval b u * bval b r" "bval ?b3 q = bval b u * bval b l"
      using extendsD(2) [OF a2(2) a1(3)] extendsD(2) [OF a3(2) a2(3)] extendsD(2) [OF a1(2) d(3)] extendsD(2) [OF a1(2) d(1)]
      by (simp_all add: a1(6) a2(6))
    show thesis
    proof (rule that [of ?b4])
      show "binop_rule op l r u b = Inr ?b4" using 3 p q by (simp add: binop_rule_def)
      show "adj ?b4 = adjoint_after op l r (bval b u) (bval b) (adj b)"
        unfolding a4(3) a3(3) a2(5) a1(5) v by (auto simp: 3 adjoint_after_def dlhs_def drhs_def fun_eq_iff)
    qed (use a4(1) extends_trans [OF a1(2) extends_trans [OF a2(2) extends_trans [OF a3(2) a4(2)]]] in simp_all)
  qed
qed

subsection \<open>The backward pass\<close>

definition const_ids :: "instr list \<Rightarrow> value_id set" where
  "const_ids is = {d. \<exists>n. ConstI64 d n \<in> set is}"

lemma const_ids_defs: "const_ids is \<subseteq> defs is"
  by (force simp: const_ids_def defs_def)

lemma finite_defs: "finite (defs is)"
proof -
  have "defs is \<subseteq> the ` instruction_dst ` set is" by (force simp: defs_def)
  then show ?thesis using finite_subset by blast
qed

lemma engine_dst_grad: "grad_instr i \<Longrightarrow> engine_dst i = instruction_dst i"
  by (erule grad_instr_cases) (simp_all add: engine_dst_def)

lemma distinct_snoc: "distinct_defs (is @ i # js) \<Longrightarrow> instruction_dst i = Some d \<Longrightarrow> d \<notin> defs is \<and> d \<notin> defs js"
  by (induction "is") (auto split: option.splits)

text \<open>
  The invariant: the adjoints of the values not yet left behind, weighted with their tangents, sum to
  the tangent of the output -- for the tangents of every constant at once.
\<close>

definition balanced :: "instr list \<Rightarrow> value_id set \<Rightarrow> value_id \<Rightarrow> grad_builder \<Rightarrow> bool" where
  "balanced P S out b \<longleftrightarrow> (\<forall>c. (\<Sum>v \<in> S. adj b v * tangent c P v) = tangent c P out)"

definition carries :: "instr list \<Rightarrow> grad_builder \<Rightarrow> bool" where
  "carries P b \<longleftrightarrow> defs P \<subseteq> defs (gb_instrs b) \<and> (\<forall>v \<in> defs P. bval b v = stream_val P v)"

lemma carries_extends: "carries P b \<Longrightarrow> extends b b' \<Longrightarrow> carries P b'"
  by (auto simp: carries_def extends_def)

lemma sum_adjoint_after:
  assumes "finite S" "l \<in> S" "r \<in> S"
  shows "(\<Sum>v \<in> S. adjoint_after op l r u x A v * t v) =
    (\<Sum>v \<in> S. A v * t v) + u * (dlhs op (x r) * t l + drhs op (x l) * t r)"
proof -
  have "(\<Sum>v \<in> S. adjoint_after op l r u x A v * t v) =
    (\<Sum>v \<in> S. A v * t v + (if v = l then u * dlhs op (x r) * t v else 0) + (if v = r then u * drhs op (x l) * t v else 0))"
    by (rule sum.cong) (auto simp: adjoint_after_def algebra_simps)
  also have "\<dots> = (\<Sum>v \<in> S. A v * t v) + u * dlhs op (x r) * t l + u * drhs op (x l) * t r"
    using assms by (simp add: sum.distrib)
  finally show ?thesis by (simp add: algebra_simps)
qed

lemma propagate_balanced:
  assumes P: "P = pre @ post" "\<forall>i \<in> set P. grad_instr i" "flat_stream {} P"
    and b: "wf_builder n0 b" "carries P b" "balanced P (defs pre \<union> const_ids P) out b"
  shows "\<exists>b'. propagate (rev pre) b = (Inr b' :: 'c autodiff_error + grad_builder) \<and> wf_builder n0 b' \<and> extends b b' \<and> balanced P (const_ids P) out b'"
  using P(1) b
proof (induction pre arbitrary: post b rule: rev_induct)
  case Nil
  then show ?case by simp
next
  case (snoc i pre)
  have Pi: "P = pre @ i # post" using snoc.prems(1) by simp
  then have mem: "i \<in> set P" by simp
  have gi: "grad_instr i" using mem P(2) by blast
  note wf = snoc.prems(2) and car = snoc.prems(3) and bal = snoc.prems(4)
  have go: ?case if step:
    "propagate (rev (pre @ [i])) b = (propagate (rev pre) b1 :: 'c autodiff_error + grad_builder)" "wf_builder n0 b1" "extends b b1"
    "balanced P (defs pre \<union> const_ids P) out b1" for b1
  proof -
    obtain b' where "propagate (rev pre) b1 = (Inr b' :: 'c autodiff_error + grad_builder)" "wf_builder n0 b'" "extends b1 b'" "balanced P (const_ids P) out b'"
      using snoc.IH [OF Pi step(2) carries_extends [OF car step(3)] step(4)] by blast
    then show ?thesis using step(1) extends_trans [OF step(3)] by auto
  qed
  from gi show ?case
  proof (cases rule: grad_instr_cases)
    case (Output v)
    show ?thesis
    proof (rule go)
      show "propagate (rev (pre @ [i])) b = (propagate (rev pre) b :: 'c autodiff_error + grad_builder)" by (simp add: Output engine_dst_def)
      show "balanced P (defs pre \<union> const_ids P) out b" using bal by (simp add: Output)
    qed (use wf in simp_all)
  next
    case (ConstI64 d n)
    then have "d \<in> const_ids P" using mem by (auto simp: const_ids_def)
    show ?thesis
    proof (rule go)
      show "propagate (rev (pre @ [i])) b = (propagate (rev pre) b :: 'c autodiff_error + grad_builder)"
        by (simp add: ConstI64 engine_dst_def apply_rule_def split: option.splits)
      show "balanced P (defs pre \<union> const_ids P) out b"
        using bal \<open>d \<in> const_ids P\<close> by (simp add: ConstI64 insert_absorb)
    qed (use wf in simp_all)
  next
    case (BinOp d op l r)
    let ?S = "defs pre \<union> const_ids P"
    have fl: "flat_stream {} (pre @ i # post)" using P(3) Pi by simp
    then have lr: "l \<in> defs pre" "r \<in> defs pre" using P(3) flat_stream_prefix [of "{}" "pre @ [i]" post]
      by (auto simp: BinOp flat_stream_snoc)
    have dist: "distinct_defs (pre @ i # post)" using flat_stream_distinct [OF fl] by blast
    have "d \<notin> defs pre" using distinct_snoc [OF dist] by (simp add: BinOp)
    moreover have "d \<notin> const_ids P"
    proof
      assume "d \<in> const_ids P"
      then obtain n where "ConstI64 d n \<in> set pre \<union> set post" using Pi BinOp by (auto simp: const_ids_def)
      then have "d \<in> defs pre \<or> d \<in> defs post" by (force simp: defs_def)
      then show False using distinct_snoc [OF dist] by (simp add: BinOp)
    qed
    ultimately have d: "d \<notin> ?S" by blast
    have fin: "finite ?S" using finite_defs [of pre] finite_subset [OF const_ids_defs finite_defs] by blast
    have bal': "(\<Sum>v \<in> ?S. adj b v * tangent c P v) + adj b d * tangent c P d = tangent c P out" for c
      using bal d fin by (simp add: balanced_def BinOp add.commute)
    have dP: "d \<in> defs P" "l \<in> defs P" "r \<in> defs P" using lr by (simp_all add: Pi BinOp)
    show ?thesis
    proof (cases "gb_grads b d")
      case None
      show ?thesis
      proof (rule go)
        show "propagate (rev (pre @ [i])) b = (propagate (rev pre) b :: 'c autodiff_error + grad_builder)" by (simp add: BinOp engine_dst_def None)
        show "balanced P ?S out b" using bal' by (simp add: balanced_def adj_def None)
      qed (use wf in simp_all)
    next
      case (Some u)
      then have u: "u \<in> defs (gb_instrs b)" "n0 \<le> u" using wf by (auto simp: wf_builder_def ran_def)
      have inb: "l \<in> defs (gb_instrs b)" "r \<in> defs (gb_instrs b)" "bval b l = stream_val P l" "bval b r = stream_val P r"
        using car dP by (auto simp: carries_def)
      obtain b1 where b1: "binop_rule op l r u b = (Inr b1 :: 'c autodiff_error + grad_builder)" "wf_builder n0 b1" "extends b b1"
        "adj b1 = adjoint_after op l r (bval b u) (bval b) (adj b)"
        by (rule binop_rule_laws [OF wf BinOp(2) inb(1,2) u])
      show ?thesis
      proof (rule go)
        show "propagate (rev (pre @ [i])) b = (propagate (rev pre) b1 :: 'c autodiff_error + grad_builder)"
          by (simp add: BinOp engine_dst_def Some apply_rule_def b1(1))
        show "balanced P ?S out b1"
          unfolding balanced_def
        proof
          fix c
          have t: "tangent c P d = dlhs op (stream_val P r) * tangent c P l + drhs op (stream_val P l) * tangent c P r"
            using tangent_facts(2) [OF P(2,3)] mem BinOp(1) by blast
          have "adj b d = bval b u" by (simp add: adj_def Some)
          then show "(\<Sum>v \<in> ?S. adj b1 v * tangent c P v) = tangent c P out"
            using bal' [of c] lr fin by (simp add: b1(4) sum_adjoint_after inb(3,4) t)
        qed
      qed (use b1 in simp_all)
    qed
  qed
qed

subsection \<open>Before and after the pass\<close>

lemma set_map_filter': "set (List.map_filter h xs) = {y. \<exists>x \<in> set xs. h x = Some y}"
  by (induction xs) (auto simp: map_filter_simps split: option.splits)

lemma leaf_ids_const:
  assumes "\<forall>i \<in> set is. grad_instr i" shows "set (leaf_ids is) = const_ids is"
proof -
  have "(if is_leaf i then engine_dst i else None) = Some d \<longleftrightarrow> (\<exists>n. i = ConstI64 d n)" if "i \<in> set is" for i d
  proof -
    have "grad_instr i" using assms that by blast
    then show ?thesis by (cases rule: grad_instr_cases) (auto simp: is_leaf_def engine_dst_def)
  qed
  then show ?thesis unfolding leaf_ids_def const_ids_def set_sort set_remdups set_map_filter' by (auto cong: bex_cong)
qed

lemma collect_grads_simps [simp]:
  "collect_grads gr [] = []"
  "collect_grads gr (v # vs) = (case gr v of None \<Rightarrow> collect_grads gr vs | Some g \<Rightarrow> (v, g) # collect_grads gr vs)"
  by (simp_all add: collect_grads_def map_filter_simps split: option.split)

lemma map_of_collect: "map_of (collect_grads gr vs) v = (if v \<in> set vs then gr v else None)"
  by (induction vs) (auto split: option.splits)

lemma collect_grads_ran: "set (map snd (collect_grads gr vs)) \<subseteq> ran gr"
  by (induction vs) (auto simp: ran_def split: option.splits)

lemma seeded:
  assumes P: "\<forall>i \<in> set (instrs m). grad_instr i" "flat_stream {} (instrs m)" "\<forall>d \<in> defs (instrs m). d < next_id m"
    and out: "out \<in> defs (instrs m)"
  shows "wf_builder (next_id m) (seed_output out (new_builder m))" "extends (new_builder m) (seed_output out (new_builder m))"
    "carries (instrs m) (seed_output out (new_builder m))"
    "balanced (instrs m) (defs (instrs m) \<union> const_ids (instrs m)) out (seed_output out (new_builder m))"
proof -
  let ?b0 = "new_builder m"
  have wf: "wf_builder (next_id m) ?b0" using P by (simp add: wf_builder_def new_builder_def)
  obtain k b1 where k: "add_const_i64 1 ?b0 = (k, b1)" by fastforce
  note a = add_const_laws [OF wf k]
  have "gb_grads b1 = Map.empty" using a(7) by (simp add: new_builder_def)
  then have e: "seed_output out ?b0 = add_grad out k b1" by (simp add: seed_output_def k add_grad_def)
  note g = add_grad_laws [OF a(1,3,4), of out]
  show w: "wf_builder (next_id m) (seed_output out ?b0)" unfolding e by (rule g(1))
  show x: "extends ?b0 (seed_output out ?b0)" unfolding e by (rule extends_trans [OF a(2) g(2)])
  have "carries (instrs m) ?b0" by (simp add: carries_def bval_def new_builder_def)
  then show "carries (instrs m) (seed_output out ?b0)" using x by (rule carries_extends)
  have "adj ?b0 = (\<lambda>_. 0)" by (simp add: adj_def new_builder_def fun_eq_iff)
  then have "adj (seed_output out ?b0) = (\<lambda>v. if v = out then 1 else 0)"
    unfolding e g(3) a(5,6) by (simp add: fun_eq_iff)
  moreover have "defs (instrs m) \<union> const_ids (instrs m) = defs (instrs m)" using const_ids_defs by blast
  ultimately show "balanced (instrs m) (defs (instrs m) \<union> const_ids (instrs m)) out (seed_output out ?b0)"
    using out finite_defs by (simp add: balanced_def if_distrib [of "\<lambda>x. x * _"] sum.delta cong: if_cong)
qed

lemma backward_correct:
  assumes P: "\<forall>i \<in> set (instrs m). grad_instr i" "flat_stream {} (instrs m)" "\<forall>d \<in> defs (instrs m). d < next_id m"
    and out: "out \<in> defs (instrs m)"
  shows "\<exists>b. propagate_gradients (seed_output out (new_builder m)) = (Inr b :: 'c autodiff_error + grad_builder) \<and>
    wf_builder (next_id m) b \<and> extends (new_builder m) b \<and>
    (\<forall>c \<in> const_ids (instrs m). adj b c = tangent c (instrs m) out)"
proof -
  let ?s = "seed_output out (new_builder m)"
  note s = seeded [OF P out]
  obtain b where b: "propagate (rev (instrs m)) ?s = (Inr b :: 'c autodiff_error + grad_builder)"
    "wf_builder (next_id m) b" "extends ?s b" "balanced (instrs m) (const_ids (instrs m)) out b"
    using propagate_balanced [of "instrs m" "instrs m" "[]", OF _ P(1,2) s(1,3,4)] by auto
  have "gb_primal ?s = instrs m" using s(2) by (simp add: extends_def new_builder_def)
  then have r: "propagate_gradients ?s = (Inr b :: 'c autodiff_error + grad_builder)" using b(1) by (simp add: propagate_gradients_def)
  have "adj b c = tangent c (instrs m) out" if c: "c \<in> const_ids (instrs m)" for c
  proof -
    have "tangent c (instrs m) v = (if v = c then 1 else 0)" if "v \<in> const_ids (instrs m)" for v
      using that tangent_facts(1) [OF P(1,2)] by (auto simp: const_ids_def)
    then have "(\<Sum>v \<in> const_ids (instrs m). adj b v * tangent c (instrs m) v) =
        (\<Sum>v \<in> const_ids (instrs m). if v = c then adj b v else 0)" by (intro sum.cong) simp_all
    also have "\<dots> = adj b c" using c finite_subset [OF const_ids_defs finite_defs] by (simp add: sum.delta)
    finally show ?thesis using b(4) by (simp add: balanced_def)
  qed
  with r b(2) extends_trans [OF s(2) b(3)] show ?thesis by blast
qed

lemma list_all2_image: "list_all2 R xs ys \<Longrightarrow> x \<in> set xs \<Longrightarrow> \<exists>y \<in> set ys. R x y"
  by (induction rule: list_all2_induct) auto

text \<open>Canonicalisation keeps the value of every output and every output.\<close>

lemma canonicalize_env:
  assumes ssa: "ssa_stream (next_id m) (instrs m)" and sc: "\<forall>i \<in> set (instrs m). scalar_instr i"
    and reap: "\<not> module_has_reap_threshold m" "\<not> has_populated_canonical m"
    and run: "eval_instrs oc (instrs m) (Map.empty, VInt 0) = Some (vals, l)"
  obtains m' vals' l' where "canonicalize_module oc m = Some m'"
    "m' = m\<lparr>instrs := instrs m', next_id := next_id m'\<rparr>"
    "eval_instrs oc (instrs m') (Map.empty, VInt 0) = Some (vals', l')"
    "\<And>v. Output v \<in> set (instrs m) \<Longrightarrow> vals' v = vals v \<and> Output v \<in> set (instrs m')"
proof -
  let ?is = "instrs m" let ?n = "next_id m" let ?s0 = "(Map.empty, VInt 0) :: ir_env \<times> ir_value"
  define is1 where "is1 = filter (kept (live ?is)) ?is"
  have dbu: "def_before_use ?is" and below: "operands_below ?n ?is" using ssa by (auto simp: ssa_stream_def)
  have e: "after_experts m = m" using reap by (simp add: after_experts_def)
  have p1: "prune_dead ?is ?n = is1" unfolding is1_def by (rule prune_dead_live [OF below])
  have "\<forall>i \<in> set ?is. kept (live ?is) i \<longrightarrow> set (instruction_operands i) \<subseteq> live ?is" using operands_live [OF dbu] by blast
  from eval_filter_kept [OF run this, of Map.empty "VInt 0"]
  obtain v1 k1 where r1: "eval_instrs oc is1 ?s0 = Some (v1, k1)" "\<forall>v \<in> live ?is. vals v = v1 v" by (auto simp: is1_def)
  have sc1: "\<forall>i \<in> set is1. scalar_instr i" using sc by (simp add: is1_def)
  have r2: "eval_instrs oc (reorder_commutative_ops is1) ?s0 = Some (v1, k1)"
    using eval_reorder [OF scalar_env_empty sc1] r1(1) by simp
  have rf12: "list_all2 refines_instr is1 (reorder_commutative_ops is1)"
    by (simp add: reorder_commutative_ops_def list_all2_conv_all_nth refines_reorder)
  have "distinct_defs (reorder_commutative_ops is1)"
    using refines_ssa(3) [OF rf12] distinct_defs_filter ssa by (simp add: is1_def ssa_stream_def)
  moreover have "table_ok (replicate ?n None) Map.empty (reorder_commutative_ops is1)"
    by (simp add: table_ok_def lookup_const_def)
  ultimately obtain is3 k3 where is3: "constant_fold_loop oc (replicate ?n None) (reorder_commutative_ops is1) = Some is3"
      "eval_instrs oc is3 ?s0 = Some (v1, k3)"
    using eval_constant_fold_loop [OF r2] by blast
  have is3c: "constant_fold oc (reorder_commutative_ops is1) ?n = Some is3" using is3(1) by (simp add: constant_fold_def)
  note rf23 = refines_fold_loop [OF is3(1)]
  have ssa3: "ssa_stream ?n is3" using rewritten_stream(1) [OF ssa, of oc is3] is3c by (simp add: is1_def)
  then have dbu3: "def_before_use is3" by (simp add: ssa_stream_def)
  define is4 where "is4 = filter (kept (live is3)) is3"
  have p4: "prune_dead is3 ?n = is4" using ssa3 prune_dead_live by (simp add: is4_def ssa_stream_def)
  have "\<forall>i \<in> set is3. kept (live is3) i \<longrightarrow> set (instruction_operands i) \<subseteq> live is3" using operands_live [OF dbu3] by blast
  from eval_filter_kept [OF is3(2) this, of Map.empty "VInt 0"]
  obtain v4 k4 where r4: "eval_instrs oc is4 ?s0 = Some (v4, k4)" "\<forall>v \<in> live is3. v1 v = v4 v" by (auto simp: is4_def)
  let ?m1 = "m\<lparr>instrs := is4\<rparr>" let ?m' = "?m1\<lparr>next_id := next_sequential_id ?m1\<rparr>"
  have c: "canonicalize_module oc m = Some ?m'"
    using reap by (simp add: canonicalize_module_eq e p1 is3c p4 Let_def)
  have outs: "v4 v = vals v \<and> Output v \<in> set is4" if o: "Output v \<in> set ?is" for v
  proof -
    have k: "kept L (Output v)" for L by (simp add: kept_def)
    have live_out: "Output v \<in> set js \<Longrightarrow> def_before_use js \<Longrightarrow> v \<in> live js" for js
      using operands_live [of js "Output v"] k by fastforce
    have "Output v \<in> set is1" using o k by (simp add: is1_def)
    then have "Output v \<in> set (reorder_commutative_ops is1)" using list_all2_image [OF rf12] by (fastforce simp: refines_instr_def)
    then have o3: "Output v \<in> set is3" using list_all2_image [OF rf23] by (fastforce simp: refines_instr_def)
    then have "v \<in> live is3" "v \<in> live ?is" using live_out dbu3 dbu o by blast+
    with r1(2) r4(2) o3 k show ?thesis by (simp add: is4_def)
  qed
  show thesis by (rule that [OF c, where vals' = v4 and l' = k4]) (use r4(1) outs in simp_all)
qed

lemma eval_drop_outputs:
  "eval_instrs oc is (vals, l) = Some (vals', l') \<Longrightarrow>
   \<exists>k'. eval_instrs oc (filter (\<lambda>i. \<not> is_output_of outs i) is) (vals, k) = Some (vals', k')"
proof (induction "is" arbitrary: vals l k)
  case (Cons i "is")
  obtain e where e: "eval_effect oc vals i = Some e" "eval_instrs oc is (apply_effect e (vals, l)) = Some (vals', l')"
    using Cons.prems by (auto split: bind_splits)
  have same: "fst (apply_effect e (vals, l)) = fst (apply_effect e (vals, k))" by (cases e) simp_all
  show ?case
  proof (cases "is_output_of outs i")
    case True
    then obtain v where "i = Output v" by (cases i) (simp_all add: is_output_of_def)
    then have "fst (apply_effect e (vals, l)) = vals" using e(1) by (cases "vals v") (auto simp: eval_effect_def)
    then obtain k1 where "apply_effect e (vals, l) = (vals, k1)" by (metis prod.collapse)
    with Cons.IH e(2) True show ?thesis by simp
  next
    case False
    obtain w k1 where w: "apply_effect e (vals, l) = (w, k1)" by fastforce
    obtain k2 where "apply_effect e (vals, k) = (w, k2)" using same w by (metis fst_conv prod.collapse)
    with Cons.IH [of w k1 k2] e w False show ?thesis by simp
  qed
qed simp

text \<open>A stream of the fragment passes every check of the verifier.\<close>

lemma grad_instr_checks:
  assumes "grad_instr i"
  shows "flat_instr i" "sane_instr i" "\<exists>S. validate_ssa_nested 0 i {} = (Inr S :: 'c ir_verify_error + scope)"
    "check_const_dense_instr i = (Inr () :: 'c ir_verify_error + unit)"
    "check_fndef_table i = (Inr () :: 'c ir_verify_error + unit)" "scalar_instr i" "\<not> is_reap_fn i"
  using assms
  by (cases rule: grad_instr_cases; simp add: flat_instr_def sane_instr_def scalar_instr_def is_reap_fn_def)+

lemma grad_no_metadata: "\<forall>i \<in> set is. grad_instr i \<Longrightarrow> \<not> instruction_metadata_present is"
  by (auto simp: metadata_defs grad_instr_def split: instr.splits)

lemma rewritten_grad: "rewritten i j \<Longrightarrow> grad_instr i \<Longrightarrow> grad_instr j"
  by (auto simp: rewritten_def grad_instr_def)

lemma flat_stream_uses: "flat_stream D is \<Longrightarrow> i \<in> set is \<Longrightarrow> set (instruction_operands i) \<subseteq> D \<union> defs is"
proof (induction "is" arbitrary: D)
  case (Cons j "is")
  then show ?case by (cases "instruction_dst j") fastforce+
qed simp

lemma flat_stream_drop_outputs: "flat_stream D is \<Longrightarrow> flat_stream D (filter (\<lambda>i. \<not> is_output_of outs i) is)"
proof (induction "is" arbitrary: D)
  case (Cons i "is")
  have "is_output_of outs i \<Longrightarrow> instruction_dst i = None" by (cases i) (simp_all add: is_output_of_def)
  with Cons show ?case by auto
qed simp

lemma flat_stream_outputs: "flat_stream D (is @ map Output vs) \<longleftrightarrow> flat_stream D is \<and> set vs \<subseteq> D \<union> defs is"
proof (induction "is" arbitrary: D)
  case Nil
  then show ?case by (induction vs) auto
next
  case (Cons i "is")
  then show ?case by (cases "instruction_dst i") auto
qed

lemma engine_bound_ge:
  "k \<le> fold (\<lambda>i b. case engine_dst i of Some d \<Rightarrow> max b (d + 1) | None \<Rightarrow> b) is (k :: usize)"
proof (induction "is" arbitrary: k)
  case (Cons i "is")
  let ?k = "case engine_dst i of Some d \<Rightarrow> max k (d + 1) | None \<Rightarrow> k"
  have "k \<le> ?k" by (simp split: option.split)
  with Cons.IH [of ?k] show ?case by simp
qed simp

lemma engine_bound_mem:
  "i \<in> set is \<Longrightarrow> engine_dst i = Some d \<Longrightarrow>
   d < fold (\<lambda>i b. case engine_dst i of Some d \<Rightarrow> max b (d + 1) | None \<Rightarrow> b) is (k :: usize)"
proof (induction "is" arbitrary: k)
  case (Cons j "is")
  show ?case
  proof (cases "i = j")
    case True
    with Cons.prems(2) engine_bound_ge [of "max k (d + 1)" "is"] show ?thesis by simp
  next
    case False
    with Cons show ?thesis by simp
  qed
qed simp

lemma fold_max_le: "\<forall>x \<in> set xs. x \<le> N \<Longrightarrow> k \<le> N \<Longrightarrow> fold max xs k \<le> (N :: nat)"
  by (induction xs arbitrary: k) simp_all

lemma fragment_bound:
  assumes "\<forall>i \<in> set is. grad_instr i" "flat_stream {} is"
  shows "fold max (map instruction_id_bound is) 0 \<le> engine_bound is"
proof (rule fold_max_le)
  have d: "v < engine_bound is" if "v \<in> defs is" for v
  proof -
    obtain i where "i \<in> set is" "instruction_dst i = Some v" using \<open>v \<in> defs is\<close> by (auto simp: defs_def)
    with assms(1) engine_dst_grad show ?thesis unfolding engine_bound_def by (intro engine_bound_mem) auto
  qed
  have "instruction_id_bound i \<le> engine_bound is" if i: "i \<in> set is" for i
  proof -
    have ops: "\<forall>v \<in> set (instruction_operands i). Suc v \<le> engine_bound is"
      using flat_stream_uses [OF assms(2) i] d by (auto simp: Suc_le_eq)
    have dst: "instruction_dst i = Some v \<Longrightarrow> Suc v \<le> engine_bound is" for v
      using i d by (auto simp: defs_def Suc_le_eq)
    have "grad_instr i" using assms(1) i by blast
    then show ?thesis using ops dst
      by (cases rule: grad_instr_cases) (simp_all add: instruction_id_bound_def Suc_le_eq)
  qed
  then show "\<forall>x \<in> set (map instruction_id_bound is). x \<le> engine_bound is" by simp
qed simp

lemma verify_fragment:
  fixes chk :: "typed_module \<Rightarrow> 'c + unit"
  assumes g: "\<forall>i \<in> set (instrs m). grad_instr i" "flat_stream {} (instrs m)" and o: "Output v \<in> set (instrs m)"
    and n: "next_id m = engine_bound (instrs m)" "m_value_types m = []" and c: "chk m = Inr ()"
  shows "verify_module chk m = (Inr () :: 'c ir_verify_error + unit)"
proof -
  have flat: "\<forall>i \<in> set (instrs m). flat_instr i" using g(1) grad_instr_checks(1) by blast
  have "list_ex is_output (instrs m)" using o by (auto simp: list_ex_iff is_output_def intro!: bexI [of _ "Output v"])
  moreover have "\<forall>i \<in> set (instrs m). sane_instr i \<and> (\<exists>S. validate_ssa_nested 0 i {} = (Inr S :: 'c ir_verify_error + scope))"
    "\<forall>i \<in> set (instrs m). check_const_dense_instr i = (Inr () :: 'c ir_verify_error + unit)"
    "\<forall>i \<in> set (instrs m). check_fndef_table i = (Inr () :: 'c ir_verify_error + unit)"
    using g(1) grad_instr_checks by blast+
  ultimately show ?thesis
    unfolding verify_module_flat [OF flat] check_lists_each check_value_types_empty n(2)
    using g c fragment_bound [OF g] n(1) by (simp add: next_sequential_id_def)
qed

text \<open>
  The engine on a verified module of the fragment: it returns, and every gradient of the result evaluates to
  the tangent of the module's last output; a constant without a gradient has tangent 0.
\<close>

definition gradient_in :: "ir_env \<Rightarrow> gradient_result \<Rightarrow> value_id \<Rightarrow> i64 \<Rightarrow> bool" where
  "gradient_in vals r c t =
     (case map_of (gradients r) c of
        None \<Rightarrow> t = 0
      | Some g \<Rightarrow> vals g = Some (VInt t))"

lemma output_ids_set: "set (output_ids is) = {v. Output v \<in> set is}"
proof -
  have "output_of i = Some w \<longleftrightarrow> i = Output w" for i w by (cases i) (simp_all add: output_of_def)
  then show ?thesis unfolding output_ids_def set_map_filter' by auto
qed

lemma fragment_module:
  fixes m :: typed_module and chk :: "typed_module \<Rightarrow> 'c + unit"
  assumes "\<forall>i \<in> set (instrs m). grad_instr i" "verify_module chk m = Inr ()"
  shows "flat_stream {} (instrs m)" "\<forall>d \<in> defs (instrs m). d < next_id m" "next_id m \<noteq> 0 \<or> defs (instrs m) = {}"
proof -
  have flat: "\<forall>i \<in> set (instrs m). flat_instr i" using assms(1) grad_instr_checks(1) by blast
  show "flat_stream {} (instrs m)" using verified_ssa_stream [OF assms(2) flat] by blast
  have b: "next_sequential_id m \<le> next_id m" using assms(2) unfolding verify_module_flat [OF flat] by blast
  show *: "\<forall>d \<in> defs (instrs m). d < next_id m"
  proof
    fix d assume "d \<in> defs (instrs m)"
    then obtain i where i: "i \<in> set (instrs m)" "instruction_dst i = Some d" by (auto simp: defs_def)
    then have "d \<in> stream_ids i" by (simp add: stream_ids_def)
    from next_sequential_bound [OF i(1) this] b show "d < next_id m" by simp
  qed
  then show "next_id m \<noteq> 0 \<or> defs (instrs m) = {}" by auto
qed

lemma differentiate_correct:
  fixes m :: typed_module and chk :: "typed_module \<Rightarrow> 'c + unit"
  assumes P: "\<forall>i \<in> set (instrs m). grad_instr i" and v: "verify_module chk m = Inr ()"
    and chk: "\<And>g. canonical_types g = None \<Longrightarrow> \<not> instruction_metadata_present (instrs g) \<Longrightarrow> chk g = Inr ()"
    and o: "output_ids (instrs m) \<noteq> []"
  shows "\<exists>r vals l. differentiate_function chk False m ''main'' = Some (Inr r) \<and>
    eval_instrs False (instrs (gradient_module r)) (Map.empty, VInt 0) = Some (vals, l) \<and>
    (\<forall>c \<in> const_ids (instrs m). gradient_in vals r c (tangent c (instrs m) (last (output_ids (instrs m)))))"
proof -
  let ?out = "last (output_ids (instrs m))"
  note fm = fragment_module [OF P v]
  have "?out \<in> set (output_ids (instrs m))" using o by simp
  then have oi: "Output ?out \<in> set (instrs m)" by (simp add: output_ids_set)
  then have out: "?out \<in> defs (instrs m)" using flat_stream_uses [OF fm(1)] by fastforce
  obtain b where b: "propagate_gradients (seed_output ?out (new_builder m)) = (Inr b :: 'c autodiff_error + grad_builder)"
    "wf_builder (next_id m) b" "extends (new_builder m) b" "\<forall>c \<in> const_ids (instrs m). adj b c = tangent c (instrs m) ?out"
    using backward_correct [OF P fm(1,2) out] by blast
  define outs where "outs = sort (remdups (map snd (gradients (finish b))))"
  let ?is = "gb_instrs b @ map Output outs"
  let ?g = "(gradient_module (finish b))\<lparr>instrs := ?is\<rparr>"
  have leaves: "set (gb_leaves b) = const_ids (instrs m)" and pre: "\<exists>G. gb_instrs b = instrs m @ G"
    using b(3) leaf_ids_const [OF P] by (auto simp: extends_def new_builder_def)
  have grads: "gradients (finish b) = collect_grads (gb_grads b) (gb_leaves b)" by (simp add: finish_def)
  have "set outs \<subseteq> ran (gb_grads b)" using collect_grads_ran by (simp add: outs_def grads)
  then have outs: "w \<in> defs (gb_instrs b)" "next_id m \<le> w" if "w \<in> set outs" for w
    using b(2) that by (auto simp: wf_builder_def)
  have P': "\<forall>i \<in> set (instrs ?g). grad_instr i" using b(2) by (auto simp: wf_builder_def grad_instr_def)
  have fl: "flat_stream {} (instrs ?g)" using b(2) outs by (auto simp: flat_stream_outputs wf_builder_def)
  have "\<forall>d \<in> defs (instrs ?g). d < next_id ?g" using b(2) by (auto simp: wf_builder_def finish_def defs_def)
  then have ssa: "ssa_stream (next_id ?g) (instrs ?g)"
    using flat_stream_distinct [OF fl] flat_stream_uses [OF fl] by (fastforce simp: ssa_stream_def operands_below_def)
  have reap: "\<not> module_has_reap_threshold ?g" "\<not> has_populated_canonical ?g"
    using P' grad_instr_checks(7) by (auto simp: module_has_reap_threshold_def list_ex_iff has_populated_canonical_def finish_def)
  obtain v1 l1 where run: "eval_instrs False (instrs ?g) (Map.empty, VInt 0) = Some (v1, l1)"
    "\<And>w. w \<in> defs (instrs ?g) \<Longrightarrow> v1 w = Some (VInt (stream_val (instrs ?g) w))"
    using stream_run [OF P'] by blast
  have scal: "\<forall>i \<in> set (instrs ?g). scalar_instr i" using P' grad_instr_checks(6) by blast
  obtain g' v2 l2 where g': "canonicalize_module False ?g = Some g'" "g' = ?g\<lparr>instrs := instrs g', next_id := next_id g'\<rparr>"
    "eval_instrs False (instrs g') (Map.empty, VInt 0) = Some (v2, l2)"
    "\<And>w. Output w \<in> set (instrs ?g) \<Longrightarrow> v2 w = v1 w \<and> Output w \<in> set (instrs g')"
    by (rule canonicalize_env [OF ssa scal reap run(1)]) blast
  define ks where "ks = filter (\<lambda>i. \<not> is_output_of outs i) (instrs g')"
  let ?r = "(finish b)\<lparr>gradient_module := g'\<lparr>instrs := ks, next_id := engine_bound ks\<rparr>\<rparr>"
  note cf = canonicalize_flat [OF ssa fl g'(1) reap]
  have Pk: "\<forall>i \<in> set ks. grad_instr i" using cf(3) rewritten_grad P' by (fastforce simp: ks_def)
  have flk: "flat_stream {} ks" unfolding ks_def by (rule flat_stream_drop_outputs [OF cf(1)])
  have "?out < next_id m" using out fm(2) by blast
  then have "?out \<notin> set outs" using outs(2) by force
  moreover have "Output ?out \<in> set (instrs ?g)" using oi pre by auto
  ultimately have ok_out: "Output ?out \<in> set ks" using g'(4) by (auto simp: ks_def is_output_of_def)
  have more: "m_value_types g' = []" "canonical_types g' = None" by (subst g'(2), simp add: finish_def)+
  have "\<not> instruction_metadata_present ks" by (rule grad_no_metadata [OF Pk])
  then have ver: "verify_module chk (gradient_module ?r) = Inr ()"
    by (intro verify_fragment [where v = ?out]) (use Pk flk ok_out more chk in simp_all)
  have canon: "canonicalize_gradients False (finish b) = Some ?r"
    using g'(1) by (simp add: canonicalize_gradients_def outs_def ks_def finish_def Let_def)
  have d: "differentiate_function chk False m ''main'' = Some (Inr ?r)"
    unfolding differentiate_function_def differentiate_with_options_def Let_def using o v b(1) canon ver by simp
  obtain l3 where run3: "eval_instrs False (instrs (gradient_module ?r)) (Map.empty, VInt 0) = Some (v2, l3)"
    using eval_drop_outputs [OF g'(3), of outs "VInt 0"] by (auto simp: ks_def)
  have "gradient_in v2 ?r c (tangent c (instrs m) ?out)" if c: "c \<in> const_ids (instrs m)" for c
  proof (cases "gb_grads b c")
    case None
    then show ?thesis using b(4) c by (auto simp: gradient_in_def grads map_of_collect leaves adj_def)
  next
    case (Some k)
    then have mo: "map_of (gradients (finish b)) c = Some k" using c by (simp add: grads map_of_collect leaves)
    then have k: "k \<in> set outs" by (force simp: outs_def dest: map_of_SomeD)
    then have "v2 k = v1 k" using g'(4) [of k] by simp
    also have "\<dots> = Some (VInt (stream_val (instrs ?g) k))" using run(2) outs(1) [OF k] by simp
    also have "stream_val (instrs ?g) k = bval b k"
      by (simp add: stream_val_def bval_def) (induction outs; simp add: value_step_def)
    also have "\<dots> = tangent c (instrs m) ?out" using bspec [OF b(4) c] Some by (simp add: adj_def)
    finally show ?thesis using mo by (simp add: gradient_in_def)
  qed
  with d run3 show ?thesis by blast
qed

subsection \<open>The derivative\<close>

text \<open>The module with \<open>h\<close> added to the constant \<open>c\<close>, and the value of its last output in the evaluator.\<close>

definition shift_const :: "value_id \<Rightarrow> i64 \<Rightarrow> instr \<Rightarrow> instr" where
  "shift_const c h i = (case i of ConstI64 d n \<Rightarrow> ConstI64 d (if d = c then n + h else n) | _ \<Rightarrow> i)"

definition output_value :: "instr list \<Rightarrow> i64" where
  "output_value is =
     (case eval_instrs False is (Map.empty, VInt 0) of
        Some (vals, _) \<Rightarrow> sval vals (last (output_ids is))
      | None \<Rightarrow> 0)"

definition poly_instr :: "instr \<Rightarrow> bool" where
  "poly_instr i =
     (case i of ConstI64 _ _ \<Rightarrow> True | BinOp _ op _ _ \<Rightarrow> op = BAdd \<or> op = BSub \<or> op = BMul | Output _ \<Rightarrow> True | _ \<Rightarrow> False)"

lemma poly_grad: "poly_instr i \<Longrightarrow> grad_instr i"
  by (cases i) (auto simp: poly_instr_def grad_instr_def ring_op_def)

lemma poly_cases [consumes 1, case_names ConstI64 BinOp Output]:
  assumes "poly_instr i"
  obtains d n where "i = ConstI64 d n" | d op l r where "i = BinOp d op l r" "op = BAdd \<or> op = BSub \<or> op = BMul"
    | v where "i = Output v"
  using assms by (cases i) (auto simp: poly_instr_def)

lemma shift_poly: "poly_instr i \<Longrightarrow> poly_instr (shift_const c h i)"
  by (erule poly_cases) (auto simp: poly_instr_def shift_const_def)

lemma output_ids_shift: "output_ids (map (shift_const c h) is) = output_ids is"
proof -
  have "output_of (shift_const c h i) = output_of i" for i by (cases i) (simp_all add: shift_const_def output_of_def)
  then show ?thesis by (induction "is") (simp_all add: output_ids_def map_filter_simps split: option.split)
qed

lemma output_value_stream:
  assumes "\<forall>i \<in> set is. grad_instr i" "last (output_ids is) \<in> defs is"
  shows "output_value is = stream_val is (last (output_ids is))"
proof -
  obtain vals l where "eval_instrs False is (Map.empty, VInt 0) = Some (vals, l)"
    "\<And>v. v \<in> defs is \<Longrightarrow> vals v = Some (VInt (stream_val is v))" using stream_run [OF assms(1)] by blast
  with assms(2) show ?thesis by (simp add: output_value_def sval_def)
qed

text \<open>Shifting a constant by \<open>h\<close> changes every value by \<open>h\<close> times its tangent, up to a multiple of \<open>h\<^sup>2\<close>.\<close>

lemma taylor:
  assumes "\<forall>i \<in> set is. poly_instr i"
  shows "\<exists>q. \<forall>v. stream_val (map (shift_const c h) is) v = stream_val is v + h * tangent c is v + h * h * q v"
  using assms
proof (induction "is" rule: rev_induct)
  case Nil
  show ?case by (rule exI [of _ "\<lambda>_. 0"]) (simp add: stream_val_def tangent_def dual_eval_def)
next
  case (snoc i "is")
  let ?X = "stream_val is" and ?T = "tangent c is"
  obtain q where q: "\<And>v. stream_val (map (shift_const c h) is) v = ?X v + h * ?T v + h * h * q v"
    using snoc by auto
  have t: "tangent c (is @ [i]) v = snd (dual_step c i (dual_eval c is) v)" for v
    by (simp add: tangent_def dual_eval_def)
  have fst_e: "fst (dual_eval c is v) = ?X v" for v using fst_dual_eval poly_grad snoc.prems by simp
  have snd_e: "snd (dual_eval c is v) = ?T v" for v by (simp add: tangent_def)
  have v: "stream_val (map (shift_const c h) (is @ [i])) = value_step (shift_const c h i) (\<lambda>v. ?X v + h * ?T v + h * h * q v)"
  proof -
    have "stream_val (map (shift_const c h) is) = (\<lambda>v. ?X v + h * ?T v + h * h * q v)" using q by (rule ext)
    then show ?thesis by (simp add: stream_val_snoc)
  qed
  have "poly_instr i" using snoc.prems by simp
  then show ?case
  proof (cases rule: poly_cases)
    case (ConstI64 d n)
    show ?thesis unfolding v t stream_val_snoc
      by (rule exI [of _ "q(d := 0)"]) (auto simp: ConstI64 shift_const_def value_step_def dual_step_def snd_e)
  next
    case (BinOp d op l r)
    then consider "op = BAdd" | "op = BSub" | "op = BMul" by blast
    then show ?thesis
    proof cases
      case 1
      show ?thesis unfolding v t stream_val_snoc
        by (rule exI [of _ "q(d := q l + q r)"])
          (auto simp: BinOp 1 shift_const_def value_step_def dual_step_def dual_binop_def snd_e fst_e algebra_simps)
    next
      case 2
      show ?thesis unfolding v t stream_val_snoc
        by (rule exI [of _ "q(d := q l - q r)"])
          (auto simp: BinOp 2 shift_const_def value_step_def dual_step_def dual_binop_def snd_e fst_e algebra_simps)
    next
      case 3
      show ?thesis unfolding v t stream_val_snoc
        by (rule exI [of _ "q(d := ?T l * ?T r + ?X l * q r + ?X r * q l + h * (?T l * q r + ?T r * q l) + h * h * q l * q r)"])
          (auto simp: BinOp 3 shift_const_def value_step_def dual_step_def dual_binop_def snd_e fst_e algebra_simps)
    qed
  next
    case (Output w)
    show ?thesis unfolding v t stream_val_snoc
      by (rule exI [of _ q]) (auto simp: Output shift_const_def value_step_def dual_step_def snd_e)
  qed
qed

lemma tangent_is_derivative:
  assumes P: "\<forall>i \<in> set is. poly_instr i" and out: "last (output_ids is) \<in> defs is"
  shows "\<exists>q. output_value (map (shift_const c h) is) =
    output_value is + h * tangent c is (last (output_ids is)) + h * h * q"
proof -
  have g: "\<forall>i \<in> set is. grad_instr i" "\<forall>i \<in> set (map (shift_const c h) is). grad_instr i"
    using P poly_grad shift_poly by auto
  have "instruction_dst (shift_const c h i) = instruction_dst i" for i by (cases i) (simp_all add: shift_const_def)
  then have "defs (map (shift_const c h) is) = defs is" by (simp add: defs_def)
  with out have o: "last (output_ids (map (shift_const c h) is)) \<in> defs (map (shift_const c h) is)"
    by (simp add: output_ids_shift)
  from taylor [OF P] obtain q where
    "\<forall>v. stream_val (map (shift_const c h) is) v = stream_val is v + h * tangent c is v + h * h * q v" by blast
  then show ?thesis
    unfolding output_value_stream [OF g(2) o] output_value_stream [OF g(1) out] output_ids_shift by blast
qed

lemma verified_output:
  fixes m :: typed_module and chk :: "typed_module \<Rightarrow> 'c + unit"
  assumes "\<forall>i \<in> set (instrs m). grad_instr i" "verify_module chk m = Inr ()" "output_ids (instrs m) \<noteq> []"
  shows "last (output_ids (instrs m)) \<in> defs (instrs m)"
proof -
  have "last (output_ids (instrs m)) \<in> set (output_ids (instrs m))" using assms(3) by simp
  then have "Output (last (output_ids (instrs m))) \<in> set (instrs m)" by (simp add: output_ids_set)
  then show ?thesis using flat_stream_uses [OF fragment_module(1) [OF assms(1,2)]] by fastforce
qed

end
