(* ===== verification/Mic3_Format.thy ===== *)
theory Mic3_Format
  imports Ir_Verify Micb_Encode "HOL-Library.Char_ord" "HOL-Library.List_Lexorder"
begin

text \<open>
  The mic\<^verbatim>\<open>@\<close>3 binary format of the core IR: the constants of \<^verbatim>\<open>src/ir/compact/v3/format.rs\<close>, the tags
  of \<^verbatim>\<open>src/ir/compact/v3/emit.rs\<close> with their inverses, the parts of a module the format carries
  (\<^verbatim>\<open>src/ir/mod.rs\<close>, \<^verbatim>\<open>src/ast/mod.rs\<close>) and the errors of the decoder.  A \<open>BTreeMap\<close> is its list of pairs
  in ascending key order.
\<close>

subsection \<open>Versions and opcodes\<close>

definition MIC3_MAGIC :: "u8 list" where "MIC3_MAGIC = [0x4D, 0x49, 0x43, 0x33]"
definition MIC3_VERSION :: u8 where "MIC3_VERSION = 0x03"
definition MIC3_VERSION_V04 :: u8 where "MIC3_VERSION_V04 = 0x04"
definition MIC3_VERSION_BASE :: u8 where "MIC3_VERSION_BASE = 0x02"
definition MIC3_MIN_READ_VERSION :: u8 where "MIC3_MIN_READ_VERSION = 0x01"

definition OP_CONST_I64 :: u8 where "OP_CONST_I64 = 0x01"
definition OP_CONST_F64 :: u8 where "OP_CONST_F64 = 0x02"
definition OP_CONST_TENSOR :: u8 where "OP_CONST_TENSOR = 0x03"
definition OP_BINOP :: u8 where "OP_BINOP = 0x04"
definition OP_SUM :: u8 where "OP_SUM = 0x05"
definition OP_MEAN :: u8 where "OP_MEAN = 0x06"
definition OP_RESHAPE :: u8 where "OP_RESHAPE = 0x07"
definition OP_EXPAND_DIMS :: u8 where "OP_EXPAND_DIMS = 0x08"
definition OP_SQUEEZE :: u8 where "OP_SQUEEZE = 0x09"
definition OP_TRANSPOSE :: u8 where "OP_TRANSPOSE = 0x0A"
definition OP_DOT :: u8 where "OP_DOT = 0x0B"
definition OP_MATMUL :: u8 where "OP_MATMUL = 0x0C"
definition OP_CONV2D :: u8 where "OP_CONV2D = 0x0D"
definition OP_CONV2D_GRAD_INPUT :: u8 where "OP_CONV2D_GRAD_INPUT = 0x0E"
definition OP_CONV2D_GRAD_FILTER :: u8 where "OP_CONV2D_GRAD_FILTER = 0x0F"
definition OP_INDEX :: u8 where "OP_INDEX = 0x10"
definition OP_SLICE :: u8 where "OP_SLICE = 0x11"
definition OP_GATHER :: u8 where "OP_GATHER = 0x12"
definition OP_OUTPUT :: u8 where "OP_OUTPUT = 0x13"
definition OP_SPARSE_ATTR :: u8 where "OP_SPARSE_ATTR = 0x14"
definition OP_FN_DEF :: u8 where "OP_FN_DEF = 0x15"
definition OP_CALL :: u8 where "OP_CALL = 0x16"
definition OP_RETURN :: u8 where "OP_RETURN = 0x17"
definition OP_PARAM :: u8 where "OP_PARAM = 0x18"
definition OP_CONST_ARRAY :: u8 where "OP_CONST_ARRAY = 0x19"
definition OP_ARRAY_LOAD :: u8 where "OP_ARRAY_LOAD = 0x1A"
definition OP_WHILE :: u8 where "OP_WHILE = 0x1B"
definition OP_IF :: u8 where "OP_IF = 0x1C"
definition OP_VEC_LOAD :: u8 where "OP_VEC_LOAD = 0x1D"
definition OP_VEC_FMA :: u8 where "OP_VEC_FMA = 0x1E"
definition OP_VEC_REDUCE_ADD :: u8 where "OP_VEC_REDUCE_ADD = 0x1F"
definition OP_VEC_STORE :: u8 where "OP_VEC_STORE = 0x20"
definition OP_VEC_LOAD_I32 :: u8 where "OP_VEC_LOAD_I32 = 0x21"
definition OP_VEC_MUL_ADD_Q16 :: u8 where "OP_VEC_MUL_ADD_Q16 = 0x22"
definition OP_VEC_REDUCE_ADD_I64 :: u8 where "OP_VEC_REDUCE_ADD_I64 = 0x23"
definition OP_REGION :: u8 where "OP_REGION = 0x24"
definition OP_EXTERN_FN_DECL :: u8 where "OP_EXTERN_FN_DECL = 0x25"
definition OP_RELU :: u8 where "OP_RELU = 0x26"
definition OP_RELU_GRAD :: u8 where "OP_RELU_GRAD = 0x27"
definition OP_BREAK :: u8 where "OP_BREAK = 0x28"
definition OP_CONTINUE :: u8 where "OP_CONTINUE = 0x29"
definition OP_CONST_DENSE_TENSOR :: u8 where "OP_CONST_DENSE_TENSOR = 0x2A"
definition OP_ARRAY_STORE :: u8 where "OP_ARRAY_STORE = 0x2B"

lemmas op_defs =
  OP_CONST_I64_def OP_CONST_F64_def OP_CONST_TENSOR_def OP_BINOP_def OP_SUM_def OP_MEAN_def
  OP_RESHAPE_def OP_EXPAND_DIMS_def OP_SQUEEZE_def OP_TRANSPOSE_def OP_DOT_def OP_MATMUL_def
  OP_CONV2D_def OP_CONV2D_GRAD_INPUT_def OP_CONV2D_GRAD_FILTER_def OP_INDEX_def OP_SLICE_def
  OP_GATHER_def OP_OUTPUT_def OP_SPARSE_ATTR_def OP_FN_DEF_def OP_CALL_def OP_RETURN_def
  OP_PARAM_def OP_CONST_ARRAY_def OP_ARRAY_LOAD_def OP_WHILE_def OP_IF_def OP_VEC_LOAD_def
  OP_VEC_FMA_def OP_VEC_REDUCE_ADD_def OP_VEC_STORE_def OP_VEC_LOAD_I32_def OP_VEC_MUL_ADD_Q16_def
  OP_VEC_REDUCE_ADD_I64_def OP_REGION_def OP_EXTERN_FN_DECL_def OP_RELU_def OP_RELU_GRAD_def
  OP_BREAK_def OP_CONTINUE_def OP_CONST_DENSE_TENSOR_def OP_ARRAY_STORE_def

subsection \<open>Tags\<close>

fun dtype_tag :: "ir_dtype \<Rightarrow> u8" where
  "dtype_tag TI32 = 0x00"
| "dtype_tag TI64 = 0x01"
| "dtype_tag TF32 = 0x02"
| "dtype_tag TF64 = 0x03"
| "dtype_tag TBF16 = 0x04"
| "dtype_tag TF16 = 0x05"
| "dtype_tag TQ16 = 0x06"

definition byte_to_dtype :: "u8 \<Rightarrow> ir_dtype option" where
  "byte_to_dtype b =
     (if b = 0x00 then Some TI32
      else if b = 0x01 then Some TI64
      else if b = 0x02 then Some TF32
      else if b = 0x03 then Some TF64
      else if b = 0x04 then Some TBF16
      else if b = 0x05 then Some TF16
      else if b = 0x06 then Some TQ16
      else None)"

lemma byte_to_dtype_inv [simp]: "byte_to_dtype (dtype_tag x) = Some x"
  by (cases x) (simp_all add: byte_to_dtype_def)

fun padding_to_byte :: "conv_padding \<Rightarrow> u8" where
  "padding_to_byte Valid = 0x00"
| "padding_to_byte Same = 0x01"

definition byte_to_padding :: "u8 \<Rightarrow> conv_padding option" where
  "byte_to_padding b =
     (if b = 0x00 then Some Valid
      else if b = 0x01 then Some Same
      else None)"

lemma byte_to_padding_inv [simp]: "byte_to_padding (padding_to_byte x) = Some x"
  by (cases x) (simp_all add: byte_to_padding_def)

fun binop_to_byte :: "binop \<Rightarrow> u8" where
  "binop_to_byte BAdd = 0x00"
| "binop_to_byte BSub = 0x01"
| "binop_to_byte BMul = 0x02"
| "binop_to_byte BDiv = 0x03"
| "binop_to_byte BMod = 0x04"
| "binop_to_byte BLt = 0x05"
| "binop_to_byte BLe = 0x06"
| "binop_to_byte BGt = 0x07"
| "binop_to_byte BGe = 0x08"
| "binop_to_byte BEq = 0x09"
| "binop_to_byte BNe = 0x0A"
| "binop_to_byte BBitAnd = 0x0B"
| "binop_to_byte BBitOr = 0x0C"
| "binop_to_byte BBitXor = 0x0D"
| "binop_to_byte BShl = 0x0E"
| "binop_to_byte BShr = 0x0F"

definition byte_to_binop :: "u8 \<Rightarrow> binop option" where
  "byte_to_binop b =
     (if b = 0x00 then Some BAdd
      else if b = 0x01 then Some BSub
      else if b = 0x02 then Some BMul
      else if b = 0x03 then Some BDiv
      else if b = 0x04 then Some BMod
      else if b = 0x05 then Some BLt
      else if b = 0x06 then Some BLe
      else if b = 0x07 then Some BGt
      else if b = 0x08 then Some BGe
      else if b = 0x09 then Some BEq
      else if b = 0x0A then Some BNe
      else if b = 0x0B then Some BBitAnd
      else if b = 0x0C then Some BBitOr
      else if b = 0x0D then Some BBitXor
      else if b = 0x0E then Some BShl
      else if b = 0x0F then Some BShr
      else None)"

lemma byte_to_binop_inv [simp]: "byte_to_binop (binop_to_byte x) = Some x"
  by (cases x) (simp_all add: byte_to_binop_def)

fun sparse_layout_to_byte :: "sparse_layout \<Rightarrow> u8" where
  "sparse_layout_to_byte Csr = 0x00"
| "sparse_layout_to_byte Csc = 0x01"
| "sparse_layout_to_byte Coo = 0x02"
| "sparse_layout_to_byte Bsr = 0x03"

definition byte_to_sparse_layout :: "u8 \<Rightarrow> sparse_layout option" where
  "byte_to_sparse_layout b =
     (if b = 0x00 then Some Csr
      else if b = 0x01 then Some Csc
      else if b = 0x02 then Some Coo
      else if b = 0x03 then Some Bsr
      else None)"

lemma byte_to_sparse_layout_inv [simp]: "byte_to_sparse_layout (sparse_layout_to_byte x) = Some x"
  by (cases x) (simp_all add: byte_to_sparse_layout_def)

fun callconv_to_byte :: "call_conv \<Rightarrow> u8" where
  "callconv_to_byte CallC = 0x00"
| "callconv_to_byte CallSysV = 0x01"
| "callconv_to_byte CallWin64 = 0x02"
| "callconv_to_byte CallAapcs = 0x03"

definition byte_to_callconv :: "u8 \<Rightarrow> call_conv option" where
  "byte_to_callconv b =
     (if b = 0x00 then Some CallC
      else if b = 0x01 then Some CallSysV
      else if b = 0x02 then Some CallWin64
      else if b = 0x03 then Some CallAapcs
      else None)"

lemma byte_to_callconv_inv [simp]: "byte_to_callconv (callconv_to_byte x) = Some x"
  by (cases x) (simp_all add: byte_to_callconv_def)

subsection \<open>What a module carries\<close>

text \<open>Type annotations of the surface syntax, which the \<open>repr(C)\<close> registry holds.\<close>

datatype ast_type =
    AtScalarI32
  | AtScalarI64
  | AtScalarF32
  | AtScalarF64
  | AtScalarBool
  | AtTensor string "string list" bool
  | AtDiffTensor string "string list"
  | AtNamed string
  | AtScalarU32
  | AtSlice bool ast_type
  | AtArray ast_type u32
  | AtRef bool ast_type
  | AtGeneric string "ast_type list"
  | AtTuple "ast_type list"
  | AtSparseTensor sparse_layout ast_type "shape_dim list"
  | AtRawPtr bool ast_type
  | AtFnPtr "ast_type list" "ast_type option"

text \<open>The lowering-only side tables, which the format drops, are the record's extension.\<close>

record mic3_module = typed_module +
  m_struct_defs :: "(string \<times> string list) list"
  m_const_array_defs :: "(string \<times> i64 list) list"
  m_repr_c_structs :: "(string \<times> ast_type list) list"

definition own_value_types :: "instr \<Rightarrow> (value_id \<times> array_type) list" where
  "own_value_types i = (case i of FnDef _ _ _ _ _ _ value_types \<Rightarrow> value_types | _ \<Rightarrow> [])"

function instr_has_value_types :: "instr \<Rightarrow> bool" where
  "instr_has_value_types i \<longleftrightarrow>
     own_value_types i \<noteq> [] \<or> (\<exists>b \<in> set (instr_bodies i). \<exists>j \<in> set b. instr_has_value_types j)"
  by pat_completeness auto
termination
proof (relation "measure size")
  fix i j b assume "b \<in> set (instr_bodies i)" "j \<in> set b"
  then show "(j, i) \<in> measure size"
    using size_instr_bodies [of b i] size_list_estimation' [of j b "size j" size] by auto
qed simp

definition instrs_have_scoped_value_types :: "instr list \<Rightarrow> bool" where
  "instrs_have_scoped_value_types is \<longleftrightarrow> (\<exists>i \<in> set is. instr_has_value_types i)"

definition has_scoped_value_types :: "'x mic3_module_scheme \<Rightarrow> bool" where
  "has_scoped_value_types m \<longleftrightarrow> m_value_types m \<noteq> [] \<or> instrs_have_scoped_value_types (instrs m)"

declare instr_has_value_types.simps [simp del]

subsection \<open>Errors of the decoder\<close>

datatype mic3_error =
    Mic3Io io_error
  | Mic3InputTooLarge usize
  | Mic3CountExceeds usize usize
  | Mic3StringIndex usize usize
  | Mic3Budget
  | Mic3Tag string u8
  | Mic3KeysNotAscending value_id value_id
  | Mic3TypeDepth
  | Mic3InstrDepth
  | Mic3UnknownOpcode u8
  | Mic3Magic "u8 list"
  | Mic3Version u8
  | Mic3StringLength usize usize
  | Mic3InvalidUtf8
  | Mic3NextId usize usize
  | Mic3Trailing usize usize

end
