(* ===== verification/Mic3_Emit.thy ===== *)
theory Mic3_Emit
  imports Mic3_Format
begin

text \<open>
  \<^verbatim>\<open>src/ir/compact/v3/emit.rs\<close>, the emitter, and the two entry points of
  \<^verbatim>\<open>src/ir/compact/v3/canonical_boundary.rs\<close>.  The string table is the interning table of the MIC-B
  encoder: entries in first-seen order with a map from strings to positions.  The sink is a buffer, so
  writing never fails; \<^const>\<open>None\<close> is a panic.  \<open>dbg\<close> says whether debug assertions are compiled in:
  \<open>StringTable::get\<close> panics on an unknown string then and returns 0 otherwise.
\<close>

subsection \<open>Low-level helpers\<close>

definition st_get :: "bool \<Rightarrow> encoder \<Rightarrow> string \<Rightarrow> usize option" where
  "st_get dbg st s =
     (case enc_string_map st s of
        Some idx \<Rightarrow> Some idx
      | None \<Rightarrow> if dbg then None else Some 0)"

fun le_bytes :: "nat \<Rightarrow> u64 \<Rightarrow> u8 list" where
  "le_bytes 0 v = []"
| "le_bytes (Suc n) v = ucast v # le_bytes n (drop_bit 8 v)"

definition write_u64_le :: "u64 \<Rightarrow> u8 list" where
  "write_u64_le v = le_bytes 8 v"

definition write_usize :: "usize \<Rightarrow> u8 list" where
  "write_usize n = uleb128_write (of_nat n)"

definition write_vid :: "value_id \<Rightarrow> u8 list" where
  "write_vid v = write_usize v"

definition write_i64 :: "i64 \<Rightarrow> u8 list" where
  "write_i64 v = uleb128_write (zigzag_encode v)"

definition write_bool :: "bool \<Rightarrow> u8 list" where
  "write_bool b = [if b then 1 else 0]"

text \<open>A length prefix and the elements; the second form is for elements whose encoding can panic.\<close>

definition emit_list :: "('a \<Rightarrow> u8 list) \<Rightarrow> 'a list \<Rightarrow> u8 list" where
  "emit_list f xs = write_usize (length xs) @ concat (map f xs)"

definition emit_seq :: "('a \<Rightarrow> u8 list option) \<Rightarrow> 'a list \<Rightarrow> u8 list option" where
  "emit_seq f xs = do { bss \<leftarrow> traverse f xs; Some (write_usize (length xs) @ concat bss) }"

lemma emit_seq_cong [fundef_cong]:
  "xs = ys \<Longrightarrow> (\<And>x. x \<in> set ys \<Longrightarrow> f x = g x) \<Longrightarrow> emit_seq f xs = emit_seq g ys"
  unfolding emit_seq_def by (simp cong: traverse_cong)

definition encode_string_idx :: "bool \<Rightarrow> encoder \<Rightarrow> string \<Rightarrow> u8 list option" where
  "encode_string_idx dbg st s = map_option write_usize (st_get dbg st s)"

fun encode_shape_dim :: "bool \<Rightarrow> encoder \<Rightarrow> shape_dim \<Rightarrow> u8 list option" where
  "encode_shape_dim dbg st (Known n) = Some (0 # write_usize n)"
| "encode_shape_dim dbg st (Sym s) = do { b \<leftarrow> encode_string_idx dbg st s; Some (1 # b) }"

definition encode_i64_vec :: "i64 list \<Rightarrow> u8 list" where
  "encode_i64_vec v = emit_list write_i64 v"

definition encode_vid_vec :: "value_id list \<Rightarrow> u8 list" where
  "encode_vid_vec ids = emit_list write_vid ids"

definition encode_vid_triples :: "(value_id \<times> value_id \<times> value_id) list \<Rightarrow> u8 list" where
  "encode_vid_triples triples = emit_list (\<lambda>(a, b, c). write_vid a @ write_vid b @ write_vid c) triples"

definition encode_opt_vid :: "value_id option \<Rightarrow> u8 list" where
  "encode_opt_vid v = (case v of None \<Rightarrow> [0] | Some v \<Rightarrow> 1 # write_vid v)"

definition encode_opt_f64 :: "f64 option \<Rightarrow> u8 list" where
  "encode_opt_f64 v = (case v of None \<Rightarrow> [0] | Some f \<Rightarrow> 1 # write_u64_le f)"

definition encode_opt_i64 :: "i64 option \<Rightarrow> u8 list" where
  "encode_opt_i64 v = (case v of None \<Rightarrow> [0] | Some n \<Rightarrow> 1 # write_i64 n)"

definition encode_opt_string :: "bool \<Rightarrow> encoder \<Rightarrow> string option \<Rightarrow> u8 list option" where
  "encode_opt_string dbg st s =
     (case s of None \<Rightarrow> Some [0] | Some name \<Rightarrow> do { b \<leftarrow> encode_string_idx dbg st name; Some (1 # b) })"

definition encode_named_vid :: "bool \<Rightarrow> encoder \<Rightarrow> string \<times> value_id \<Rightarrow> u8 list option" where
  "encode_named_vid dbg st p = do { b \<leftarrow> encode_string_idx dbg st (fst p); Some (b @ write_vid (snd p)) }"

definition encode_named_vids :: "bool \<Rightarrow> encoder \<Rightarrow> (string \<times> value_id) list \<Rightarrow> u8 list option" where
  "encode_named_vids dbg st pairs = emit_seq (encode_named_vid dbg st) pairs"

definition emit_value_type :: "value_id \<times> array_type \<Rightarrow> u8 list" where
  "emit_value_type e =
     write_vid (fst e) @ [dtype_tag (at_elem_dtype (snd e))] @
     (case at_size (snd e) of Fixed n \<Rightarrow> 0 # uleb128_write n | Dynamic \<Rightarrow> [1])"

definition emit_value_types_table :: "(value_id \<times> array_type) list \<Rightarrow> u8 list" where
  "emit_value_types_table table = emit_list emit_value_type table"

subsection \<open>Type annotations\<close>

definition encode_dims :: "bool \<Rightarrow> encoder \<Rightarrow> string \<Rightarrow> string list \<Rightarrow> u8 list option" where
  "encode_dims dbg st dtype dims =
     do { d \<leftarrow> encode_string_idx dbg st dtype; ds \<leftarrow> emit_seq (encode_string_idx dbg st) dims; Some (d @ ds) }"

fun encode_type_ann :: "bool \<Rightarrow> encoder \<Rightarrow> ast_type \<Rightarrow> u8 list option" where
  "encode_type_ann dbg st AtScalarI32 = Some [0x01]"
| "encode_type_ann dbg st AtScalarI64 = Some [0x02]"
| "encode_type_ann dbg st AtScalarF32 = Some [0x03]"
| "encode_type_ann dbg st AtScalarF64 = Some [0x04]"
| "encode_type_ann dbg st AtScalarBool = Some [0x05]"
| "encode_type_ann dbg st AtScalarU32 = Some [0x06]"
| "encode_type_ann dbg st (AtTensor dtype dims _) = do { b \<leftarrow> encode_dims dbg st dtype dims; Some (0x07 # b) }"
| "encode_type_ann dbg st (AtDiffTensor dtype dims) = do { b \<leftarrow> encode_dims dbg st dtype dims; Some (0x08 # b) }"
| "encode_type_ann dbg st (AtNamed name) = do { b \<leftarrow> encode_string_idx dbg st name; Some (0x09 # b) }"
| "encode_type_ann dbg st (AtSlice mutable element) =
     do { b \<leftarrow> encode_type_ann dbg st element; Some (0x0A # write_bool mutable @ b) }"
| "encode_type_ann dbg st (AtArray element len) =
     do { b \<leftarrow> encode_type_ann dbg st element; Some (0x0B # uleb128_write (ucast len) @ b) }"
| "encode_type_ann dbg st (AtRef mutable target) =
     do { b \<leftarrow> encode_type_ann dbg st target; Some (0x0C # write_bool mutable @ b) }"
| "encode_type_ann dbg st (AtGeneric name args) =
     do { b \<leftarrow> encode_string_idx dbg st name; bs \<leftarrow> emit_seq (encode_type_ann dbg st) args; Some (0x0D # b @ bs) }"
| "encode_type_ann dbg st (AtTuple elements) =
     do { bs \<leftarrow> emit_seq (encode_type_ann dbg st) elements; Some (0x0E # bs) }"
| "encode_type_ann dbg st (AtSparseTensor layout element shape) =
     do { b \<leftarrow> encode_type_ann dbg st element;
          ds \<leftarrow> emit_seq (encode_shape_dim dbg st) shape;
          Some (0x0F # sparse_layout_to_byte layout # b @ ds) }"
| "encode_type_ann dbg st (AtRawPtr mutable pointee) =
     do { b \<leftarrow> encode_type_ann dbg st pointee; Some (0x10 # write_bool mutable @ b) }"
| "encode_type_ann dbg st (AtFnPtr params ret) =
     do { bs \<leftarrow> emit_seq (encode_type_ann dbg st) params;
          r \<leftarrow> (case ret of
                 Some r \<Rightarrow> do { b \<leftarrow> encode_type_ann dbg st r; Some (1 # b) }
               | None \<Rightarrow> Some [0]);
          Some (0x11 # bs @ r) }"

subsection \<open>String collection\<close>

definition intern_dims :: "shape_dim list \<Rightarrow> encoder \<Rightarrow> encoder" where
  "intern_dims shape st = fold (\<lambda>dim st. case dim of Sym s \<Rightarrow> snd (intern st s) | Known _ \<Rightarrow> st) shape st"

definition intern_names :: "(string \<times> value_id) list \<Rightarrow> encoder \<Rightarrow> encoder" where
  "intern_names pairs st = intern_all (map fst pairs) st"

definition intern_opt :: "string option \<Rightarrow> encoder \<Rightarrow> encoder" where
  "intern_opt s st = (case s of Some s \<Rightarrow> snd (intern st s) | None \<Rightarrow> st)"

fun collect_instr_strings :: "instr \<Rightarrow> encoder \<Rightarrow> encoder" where
  "collect_instr_strings (ConstTensor _ _ shape _) st = intern_dims shape st"
| "collect_instr_strings (ConstDenseTensor _ _ shape _) st = intern_dims shape st"
| "collect_instr_strings (Reshape _ _ new_shape) st = intern_dims new_shape st"
| "collect_instr_strings (FnDef name params _ body _ _ _) st =
     fold collect_instr_strings body (intern_names params (snd (intern st name)))"
| "collect_instr_strings (Call _ name _ _) st = snd (intern st name)"
| "collect_instr_strings (Param _ name _) st = snd (intern st name)"
| "collect_instr_strings (ConstArray _ name _) st = intern_opt name st"
| "collect_instr_strings (While _ cond_instrs body live_vars _ _) st =
     intern_names live_vars (fold collect_instr_strings body (fold collect_instr_strings cond_instrs st))"
| "collect_instr_strings (IfInstr _ cond_instrs then_instrs _ else_instrs _ _ branch_bindings _) st =
     intern_names branch_bindings (fold collect_instr_strings else_instrs
       (fold collect_instr_strings then_instrs (fold collect_instr_strings cond_instrs st)))"
| "collect_instr_strings (Region body _ _ _ _) st = fold collect_instr_strings body st"
| "collect_instr_strings (Break snapshot) st = intern_names snapshot st"
| "collect_instr_strings (Continue snapshot) st = intern_names snapshot st"
| "collect_instr_strings (ExternFnDecl name param_types ret_type _ vararg_hints _) st =
     intern_all vararg_hints (intern_opt ret_type (intern_all param_types (snd (intern st name))))"
| "collect_instr_strings _ st = st"

definition collect_strings :: "instr list \<Rightarrow> encoder \<Rightarrow> encoder" where
  "collect_strings is st = fold collect_instr_strings is st"

definition sorted_exports :: "string set \<Rightarrow> string list" where
  "sorted_exports es = sorted_list_of_set es"

definition collect_export_strings :: "string set \<Rightarrow> encoder \<Rightarrow> encoder" where
  "collect_export_strings es st = intern_all (sorted_exports es) st"

definition collect_struct_def_strings :: "(string \<times> string list) list \<Rightarrow> encoder \<Rightarrow> encoder" where
  "collect_struct_def_strings struct_defs st =
     fold (\<lambda>(name, fields) st. intern_all fields (snd (intern st name))) struct_defs st"

definition collect_const_array_def_strings :: "(string \<times> i64 list) list \<Rightarrow> encoder \<Rightarrow> encoder" where
  "collect_const_array_def_strings arrays st = intern_all (map fst arrays) st"

fun collect_type_ann_strings :: "ast_type \<Rightarrow> encoder \<Rightarrow> encoder" where
  "collect_type_ann_strings (AtTensor dtype dims _) st = intern_all dims (snd (intern st dtype))"
| "collect_type_ann_strings (AtDiffTensor dtype dims) st = intern_all dims (snd (intern st dtype))"
| "collect_type_ann_strings (AtNamed name) st = snd (intern st name)"
| "collect_type_ann_strings (AtGeneric name args) st = fold collect_type_ann_strings args (snd (intern st name))"
| "collect_type_ann_strings (AtSlice _ element) st = collect_type_ann_strings element st"
| "collect_type_ann_strings (AtArray element _) st = collect_type_ann_strings element st"
| "collect_type_ann_strings (AtRef _ target) st = collect_type_ann_strings target st"
| "collect_type_ann_strings (AtRawPtr _ pointee) st = collect_type_ann_strings pointee st"
| "collect_type_ann_strings (AtTuple elements) st = fold collect_type_ann_strings elements st"
| "collect_type_ann_strings (AtSparseTensor _ element shape) st = intern_dims shape (collect_type_ann_strings element st)"
| "collect_type_ann_strings (AtFnPtr params ret) st =
     (let st = fold collect_type_ann_strings params st
      in case ret of Some r \<Rightarrow> collect_type_ann_strings r st | None \<Rightarrow> st)"
| "collect_type_ann_strings _ st = st"

definition collect_repr_c_strings :: "(string \<times> ast_type list) list \<Rightarrow> encoder \<Rightarrow> encoder" where
  "collect_repr_c_strings structs st =
     fold (\<lambda>(name, fields) st. fold collect_type_ann_strings fields (snd (intern st name))) structs st"

subsection \<open>Instructions\<close>

definition emit_shape4 :: "usize \<times> usize \<times> usize \<times> usize \<Rightarrow> u8 list" where
  "emit_shape4 s = (case s of (a, b, c, d) \<Rightarrow> write_usize a @ write_usize b @ write_usize c @ write_usize d)"

definition emit_slice_spec :: "slice_spec \<Rightarrow> u8 list" where
  "emit_slice_spec d = write_i64 (ss_axis d) @ write_i64 (ss_start d) @ encode_opt_i64 (ss_end d) @ write_i64 (ss_stride d)"

fun emit_instr :: "bool \<Rightarrow> encoder \<Rightarrow> u8 \<Rightarrow> instr \<Rightarrow> u8 list option" where
  "emit_instr dbg st ver (ConstI64 dst v) = Some (OP_CONST_I64 # write_vid dst @ write_i64 v)"
| "emit_instr dbg st ver (ConstF64 dst v) = Some (OP_CONST_F64 # write_vid dst @ write_u64_le v)"
| "emit_instr dbg st ver (ConstTensor dst dtype shape fill) =
     do { ds \<leftarrow> emit_seq (encode_shape_dim dbg st) shape;
          Some (OP_CONST_TENSOR # write_vid dst @ dtype_tag dtype # ds @ encode_opt_f64 fill) }"
| "emit_instr dbg st ver (ConstDenseTensor dst dtype shape bits) =
     do { ds \<leftarrow> emit_seq (encode_shape_dim dbg st) shape;
          Some (OP_CONST_DENSE_TENSOR # write_vid dst @ dtype_tag dtype # ds @ emit_list write_u64_le bits) }"
| "emit_instr dbg st ver (BinOp dst op lhs rhs) =
     Some (OP_BINOP # write_vid dst @ binop_to_byte op # write_vid lhs @ write_vid rhs)"
| "emit_instr dbg st ver (SumOp dst src axes keepdims) =
     Some (OP_SUM # write_vid dst @ write_vid src @ encode_i64_vec axes @ write_bool keepdims)"
| "emit_instr dbg st ver (MeanOp dst src axes keepdims) =
     Some (OP_MEAN # write_vid dst @ write_vid src @ encode_i64_vec axes @ write_bool keepdims)"
| "emit_instr dbg st ver (Relu dst src) = Some (OP_RELU # write_vid dst @ write_vid src)"
| "emit_instr dbg st ver (ReluGrad dst grad src) = Some (OP_RELU_GRAD # write_vid dst @ write_vid grad @ write_vid src)"
| "emit_instr dbg st ver (Reshape dst src new_shape) =
     do { ds \<leftarrow> emit_seq (encode_shape_dim dbg st) new_shape; Some (OP_RESHAPE # write_vid dst @ write_vid src @ ds) }"
| "emit_instr dbg st ver (ExpandDims dst src axis) = Some (OP_EXPAND_DIMS # write_vid dst @ write_vid src @ write_i64 axis)"
| "emit_instr dbg st ver (Squeeze dst src axes) = Some (OP_SQUEEZE # write_vid dst @ write_vid src @ encode_i64_vec axes)"
| "emit_instr dbg st ver (Transpose dst src perm) = Some (OP_TRANSPOSE # write_vid dst @ write_vid src @ encode_i64_vec perm)"
| "emit_instr dbg st ver (Dot dst a b) = Some (OP_DOT # write_vid dst @ write_vid a @ write_vid b)"
| "emit_instr dbg st ver (MatMul dst a b) = Some (OP_MATMUL # write_vid dst @ write_vid a @ write_vid b)"
| "emit_instr dbg st ver (Conv2d dst inp filt stride_h stride_w padding) =
     Some (OP_CONV2D # write_vid dst @ write_vid inp @ write_vid filt @ write_usize stride_h @ write_usize stride_w @
       [padding_to_byte padding])"
| "emit_instr dbg st ver (Conv2dGradInput dst dy filt input_shape stride_h stride_w padding) =
     Some (OP_CONV2D_GRAD_INPUT # write_vid dst @ write_vid dy @ write_vid filt @ emit_shape4 input_shape @
       write_usize stride_h @ write_usize stride_w @ [padding_to_byte padding])"
| "emit_instr dbg st ver (Conv2dGradFilter dst inp dy filter_shape stride_h stride_w padding) =
     Some (OP_CONV2D_GRAD_FILTER # write_vid dst @ write_vid inp @ write_vid dy @ emit_shape4 filter_shape @
       write_usize stride_h @ write_usize stride_w @ [padding_to_byte padding])"
| "emit_instr dbg st ver (Index dst src indices) =
     Some (OP_INDEX # write_vid dst @ write_vid src @
       emit_list (\<lambda>idx. write_i64 (ix_axis idx) @ write_i64 (ix_index idx)) indices)"
| "emit_instr dbg st ver (Slice dst src dims) =
     Some (OP_SLICE # write_vid dst @ write_vid src @ emit_list emit_slice_spec dims)"
| "emit_instr dbg st ver (Gather dst src indices axis) =
     Some (OP_GATHER # write_vid dst @ write_vid src @ write_vid indices @ write_i64 axis)"
| "emit_instr dbg st ver (Output v) = Some (OP_OUTPUT # write_vid v)"
| "emit_instr dbg st ver (SparseAttr src dst layout) =
     Some (OP_SPARSE_ATTR # write_vid src @ write_vid dst @ [sparse_layout_to_byte layout])"
| "emit_instr dbg st ver (FnDef name params ret_id body reap_threshold _ value_types) =
     do { n \<leftarrow> encode_string_idx dbg st name;
          ps \<leftarrow> encode_named_vids dbg st params;
          bs \<leftarrow> emit_seq (emit_instr dbg st ver) body;
          t \<leftarrow> (if MIC3_VERSION \<le> ver then Some (emit_value_types_table value_types)
                else if value_types = [] then Some [] else None);
          Some (OP_FN_DEF # n @ ps @ encode_opt_vid ret_id @ encode_opt_f64 reap_threshold @ bs @ t) }"
| "emit_instr dbg st ver (Call dst name args _) =
     do { n \<leftarrow> encode_string_idx dbg st name; Some (OP_CALL # write_vid dst @ n @ encode_vid_vec args) }"
| "emit_instr dbg st ver (Return value) = Some (OP_RETURN # encode_opt_vid value)"
| "emit_instr dbg st ver (Param dst name idx) =
     do { n \<leftarrow> encode_string_idx dbg st name; Some (OP_PARAM # write_vid dst @ n @ write_usize idx) }"
| "emit_instr dbg st ver (ConstArray dst name values) =
     do { n \<leftarrow> encode_opt_string dbg st name; Some (OP_CONST_ARRAY # write_vid dst @ n @ emit_list write_i64 values) }"
| "emit_instr dbg st ver (ArrayLoad dst base idx) = Some (OP_ARRAY_LOAD # write_vid dst @ write_vid base @ write_vid idx)"
| "emit_instr dbg st ver (ArrayStore dst base idx value) =
     Some (OP_ARRAY_STORE # write_vid dst @ write_vid base @ write_vid idx @ write_vid value)"
| "emit_instr dbg st ver (While cond_id cond_instrs body live_vars init_ids exit_ids) =
     do { cs \<leftarrow> emit_seq (emit_instr dbg st ver) cond_instrs;
          bs \<leftarrow> emit_seq (emit_instr dbg st ver) body;
          ls \<leftarrow> encode_named_vids dbg st live_vars;
          Some (OP_WHILE # write_vid cond_id @ cs @ bs @ ls @ encode_vid_vec init_ids @ encode_vid_vec exit_ids) }"
| "emit_instr dbg st ver (IfInstr cond_id cond_instrs then_instrs then_result else_instrs else_result dst branch_bindings merges) =
     do { cs \<leftarrow> emit_seq (emit_instr dbg st ver) cond_instrs;
          ts \<leftarrow> emit_seq (emit_instr dbg st ver) then_instrs;
          es \<leftarrow> emit_seq (emit_instr dbg st ver) else_instrs;
          bb \<leftarrow> encode_named_vids dbg st branch_bindings;
          Some (OP_IF # write_vid cond_id @ cs @ ts @ write_vid then_result @ es @ write_vid else_result @ write_vid dst @
            bb @ encode_vid_triples merges) }"
| "emit_instr dbg st ver (VecLoad dst base offset lanes) =
     Some (OP_VEC_LOAD # write_vid dst @ write_vid base @ write_vid offset @ write_usize lanes)"
| "emit_instr dbg st ver (VecFma dst a b acc lanes) =
     Some (OP_VEC_FMA # write_vid dst @ write_vid a @ write_vid b @ write_vid acc @ write_usize lanes)"
| "emit_instr dbg st ver (VecReduceAdd dst src lanes) =
     Some (OP_VEC_REDUCE_ADD # write_vid dst @ write_vid src @ write_usize lanes)"
| "emit_instr dbg st ver (VecStore src base offset lanes) =
     Some (OP_VEC_STORE # write_vid src @ write_vid base @ write_vid offset @ write_usize lanes)"
| "emit_instr dbg st ver (VecLoadI32 dst base offset lanes) =
     Some (OP_VEC_LOAD_I32 # write_vid dst @ write_vid base @ write_vid offset @ write_usize lanes)"
| "emit_instr dbg st ver (VecMulAddQ16 dst a b acc lanes) =
     Some (OP_VEC_MUL_ADD_Q16 # write_vid dst @ write_vid a @ write_vid b @ write_vid acc @ write_usize lanes)"
| "emit_instr dbg st ver (VecReduceAddI64 dst src lanes) =
     Some (OP_VEC_REDUCE_ADD_I64 # write_vid dst @ write_vid src @ write_usize lanes)"
| "emit_instr dbg st ver (Region body result enter_id exit_id alloc_ids) =
     do { bs \<leftarrow> emit_seq (emit_instr dbg st ver) body;
          Some (OP_REGION # bs @ write_vid result @ write_vid enter_id @ write_vid exit_id @ encode_vid_vec alloc_ids) }"
| "emit_instr dbg st ver (ExternFnDecl name param_types ret_type is_varargs vararg_hints callconv) =
     do { n \<leftarrow> encode_string_idx dbg st name;
          ps \<leftarrow> emit_seq (encode_string_idx dbg st) param_types;
          r \<leftarrow> encode_opt_string dbg st ret_type;
          hs \<leftarrow> emit_seq (encode_string_idx dbg st) vararg_hints;
          Some (OP_EXTERN_FN_DECL # n @ ps @ r @ write_bool is_varargs @ hs @ [callconv_to_byte callconv]) }"
| "emit_instr dbg st ver (Break snapshot) = do { ls \<leftarrow> encode_named_vids dbg st snapshot; Some (OP_BREAK # ls) }"
| "emit_instr dbg st ver (Continue snapshot) = do { ls \<leftarrow> encode_named_vids dbg st snapshot; Some (OP_CONTINUE # ls) }"

subsection \<open>Modules\<close>

definition mic3_string_table :: "'x mic3_module_scheme \<Rightarrow> encoder" where
  "mic3_string_table m =
     collect_repr_c_strings (m_repr_c_structs m) (collect_const_array_def_strings (m_const_array_defs m)
       (collect_struct_def_strings (m_struct_defs m) (collect_export_strings (exports m)
         (collect_strings (instrs m) encoder_new))))"

definition emit_string_entry :: "string \<Rightarrow> u8 list" where
  "emit_string_entry s = write_usize (length (as_bytes s)) @ as_bytes s"

definition emit_struct_def :: "bool \<Rightarrow> encoder \<Rightarrow> string \<times> string list \<Rightarrow> u8 list option" where
  "emit_struct_def dbg st d =
     do { n \<leftarrow> encode_string_idx dbg st (fst d); fs \<leftarrow> emit_seq (encode_string_idx dbg st) (snd d); Some (n @ fs) }"

definition emit_const_array_def :: "bool \<Rightarrow> encoder \<Rightarrow> string \<times> i64 list \<Rightarrow> u8 list option" where
  "emit_const_array_def dbg st d =
     do { n \<leftarrow> encode_string_idx dbg st (fst d); Some (n @ emit_list write_i64 (snd d)) }"

definition emit_repr_c_struct :: "bool \<Rightarrow> encoder \<Rightarrow> string \<times> ast_type list \<Rightarrow> u8 list option" where
  "emit_repr_c_struct dbg st d =
     do { n \<leftarrow> encode_string_idx dbg st (fst d); fs \<leftarrow> emit_seq (encode_type_ann dbg st) (snd d); Some (n @ fs) }"

definition mic3_version :: "'x mic3_module_scheme \<Rightarrow> u8" where
  "mic3_version m = (if has_scoped_value_types m then MIC3_VERSION else MIC3_VERSION_BASE)"

definition emit_mic3_legacy :: "bool \<Rightarrow> 'x mic3_module_scheme \<Rightarrow> u8 list option" where
  "emit_mic3_legacy dbg m =
     (let st = mic3_string_table m; ver = mic3_version m in
      do { es \<leftarrow> emit_seq (encode_string_idx dbg st) (sorted_exports (exports m));
           is \<leftarrow> emit_seq (emit_instr dbg st ver) (instrs m);
           sd \<leftarrow> emit_seq (emit_struct_def dbg st) (m_struct_defs m);
           ca \<leftarrow> emit_seq (emit_const_array_def dbg st) (m_const_array_defs m);
           rc \<leftarrow> emit_seq (emit_repr_c_struct dbg st) (m_repr_c_structs m);
           Some (MIC3_MAGIC @ ver # emit_list emit_string_entry (enc_strings st) @ write_usize (next_id m) @ es @ is @
             sd @ ca @ rc @ (if MIC3_VERSION \<le> ver then emit_value_types_table (m_value_types m) else [])) })"

subsection \<open>The entry points\<close>

definition emit_mic3 :: "bool \<Rightarrow> 'x mic3_module_scheme \<Rightarrow> u8 list option" where
  "emit_mic3 dbg m =
     (if has_populated_canonical m \<or> instruction_metadata_present (instrs m) then None else emit_mic3_legacy dbg m)"

datatype 'e mic3_encode_error =
    InstructionMetadataWithoutBundle
  | InvalidCanonicalMetadata 'e
  | V04Error 'e

text \<open>The draft v0x04 writer and \<open>canonical_check\<close> are arguments.\<close>

definition emit_mic3_checked ::
  "('x mic3_module_scheme \<Rightarrow> 'e + u8 list) \<Rightarrow> ('x mic3_module_scheme \<Rightarrow> 'e + unit) \<Rightarrow> bool \<Rightarrow>
   'x mic3_module_scheme \<Rightarrow> ('e mic3_encode_error + u8 list) option" where
  "emit_mic3_checked emit_v04 canonical_check dbg m =
     (if canonical_types m = None \<and> instruction_metadata_present (instrs m) then Some (Inl InstructionMetadataWithoutBundle)
      else if canonical_types m \<noteq> None \<and> (has_populated_canonical m \<or> instruction_metadata_present (instrs m))
      then Some (map_err V04Error (emit_v04 m))
      else case (if canonical_types m \<noteq> None then map_err InvalidCanonicalMetadata (canonical_check m) else Inr ()) of
             Inl e \<Rightarrow> Some (Inl e)
           | Inr _ \<Rightarrow> map_option Inr (emit_mic3_legacy dbg m))"

end
