(* ===== verification/Mic3_Parse.thy ===== *)
theory Mic3_Parse
  imports Mic3_Emit Micb_Decode
begin

text \<open>
  \<^verbatim>\<open>src/ir/compact/v3/parse.rs\<close>, the decoder, and the strict entry point of
  \<^verbatim>\<open>src/ir/compact/v3/boundary.rs\<close>.  The state is the reader and what is left of the thread-local
  string-clone budget.  The depth the source counts up to \<open>MAX_MIC3_DEPTH\<close> is here the number \<open>d\<close> of levels
  still allowed, so that a decoder called with 0 fails.  \<open>with_capacity\<close> reservations have no effect on the
  result and are not modelled.
\<close>

definition MAX_MIC3_INPUT :: usize where "MAX_MIC3_INPUT = 10 * 1024 * 1024"
definition MAX_MIC3_DEPTH :: usize where "MAX_MIC3_DEPTH = 256"
definition DECODE_AMPLIFICATION_FACTOR :: usize where "DECODE_AMPLIFICATION_FACTOR = 64"
definition MIN_DECODE_BUDGET :: usize where "MIN_DECODE_BUDGET = 64 * 1024 * 1024"

type_synonym ('r, 'a) dec = "('r dstate, mic3_error, 'a) stm"

subsection \<open>Low-level helpers\<close>

definition io3 :: "('r, io_error, 'a) stm \<Rightarrow> ('r, 'a) dec" where
  "io3 m = (\<lambda>(r, b). case m r of Inl e \<Rightarrow> Inl (Mic3Io e) | Inr (x, r') \<Rightarrow> Inr (x, (r', b)))"

definition mic3_read_u8 :: "'r read \<Rightarrow> ('r, u8) dec" where
  "mic3_read_u8 rd = io3 (read_u8 rd)"

fun from_le :: "u8 list \<Rightarrow> u64" where
  "from_le [] = 0"
| "from_le (b # bs) = ucast b OR push_bit 8 (from_le bs)"

definition read_u64_le :: "'r read \<Rightarrow> ('r, u64) dec" where
  "read_u64_le rd = bindM (io3 (read_exact rd 8)) (\<lambda>b. returnM (from_le b))"

definition read_uleb :: "'r read \<Rightarrow> ('r, u64) dec" where
  "read_uleb rd = io3 (uleb128_read rd)"

definition read_uleb_usize :: "'r read \<Rightarrow> ('r, usize) dec" where
  "read_uleb_usize rd = bindM (read_uleb rd) (\<lambda>v. returnM (unat v))"

definition read_count :: "'r read \<Rightarrow> usize \<Rightarrow> ('r, usize) dec" where
  "read_count rd limit =
     bindM (read_uleb_usize rd) (\<lambda>n. if limit < n then failM (Mic3CountExceeds n limit) else returnM n)"

definition read_vid :: "'r read \<Rightarrow> ('r, value_id) dec" where
  "read_vid rd = read_uleb_usize rd"

definition mic3_read_i64 :: "'r read \<Rightarrow> ('r, i64) dec" where
  "mic3_read_i64 rd = bindM (read_uleb rd) (\<lambda>v. returnM (zigzag_decode v))"

definition read_bool :: "'r read \<Rightarrow> ('r, bool) dec" where
  "read_bool rd = bindM (mic3_read_u8 rd) (\<lambda>b. returnM (b \<noteq> 0))"

definition charge_clone :: "string \<Rightarrow> ('r, string) dec" where
  "charge_clone s = (\<lambda>(r, budget). if length s \<le> budget then Inr (s, (r, budget - length s)) else Inl Mic3Budget)"

definition read_string :: "'r read \<Rightarrow> string list \<Rightarrow> ('r, string) dec" where
  "read_string rd strings =
     bindM (read_uleb_usize rd) (\<lambda>idx.
       if idx < length strings then charge_clone (strings ! idx)
       else failM (Mic3StringIndex idx (length strings)))"

text \<open>A tag byte, 0 for nothing and 1 for a value.\<close>

definition read_opt :: "string \<Rightarrow> 'r read \<Rightarrow> ('r, 'a) dec \<Rightarrow> ('r, 'a option) dec" where
  "read_opt what rd m =
     bindM (mic3_read_u8 rd) (\<lambda>tag.
       if tag = 0 then returnM None
       else if tag = 1 then bindM m (\<lambda>x. returnM (Some x))
       else failM (Mic3Tag what tag))"

definition read_opt_vid :: "'r read \<Rightarrow> ('r, value_id option) dec" where
  "read_opt_vid rd = read_opt ''opt-vid'' rd (read_vid rd)"

definition read_opt_f64 :: "'r read \<Rightarrow> ('r, f64 option) dec" where
  "read_opt_f64 rd = read_opt ''opt-f64'' rd (read_u64_le rd)"

definition read_opt_string :: "'r read \<Rightarrow> string list \<Rightarrow> ('r, string option) dec" where
  "read_opt_string rd strings = read_opt ''opt-string'' rd (read_string rd strings)"

definition read_opt_i64 :: "'r read \<Rightarrow> ('r, i64 option) dec" where
  "read_opt_i64 rd = read_opt ''opt-i64'' rd (mic3_read_i64 rd)"

text \<open>A bounded count and that many elements.\<close>

definition read_seq :: "'r read \<Rightarrow> usize \<Rightarrow> ('r, 'a) dec \<Rightarrow> ('r, 'a list) dec" where
  "read_seq rd limit m = bindM (read_count rd limit) (\<lambda>n. repeatM n m)"

definition read_i64_vec :: "'r read \<Rightarrow> usize \<Rightarrow> ('r, i64 list) dec" where
  "read_i64_vec rd limit = read_seq rd limit (mic3_read_i64 rd)"

definition read_vid_vec :: "'r read \<Rightarrow> usize \<Rightarrow> ('r, value_id list) dec" where
  "read_vid_vec rd limit = read_seq rd limit (read_vid rd)"

definition read_vid_triple :: "'r read \<Rightarrow> ('r, value_id \<times> value_id \<times> value_id) dec" where
  "read_vid_triple rd =
     bindM (read_vid rd) (\<lambda>a. bindM (read_vid rd) (\<lambda>b. bindM (read_vid rd) (\<lambda>c. returnM (a, b, c))))"

definition read_vid_triples :: "'r read \<Rightarrow> usize \<Rightarrow> ('r, (value_id \<times> value_id \<times> value_id) list) dec" where
  "read_vid_triples rd limit = read_seq rd limit (read_vid_triple rd)"

definition read_named_vid :: "'r read \<Rightarrow> string list \<Rightarrow> ('r, string \<times> value_id) dec" where
  "read_named_vid rd strings =
     bindM (read_string rd strings) (\<lambda>name. bindM (read_vid rd) (\<lambda>v. returnM (name, v)))"

definition read_named_vids :: "'r read \<Rightarrow> string list \<Rightarrow> usize \<Rightarrow> ('r, (string \<times> value_id) list) dec" where
  "read_named_vids rd strings limit = read_seq rd limit (read_named_vid rd strings)"

definition read_tag :: "string \<Rightarrow> (u8 \<Rightarrow> 'a option) \<Rightarrow> 'r read \<Rightarrow> ('r, 'a) dec" where
  "read_tag what untag rd =
     bindM (mic3_read_u8 rd) (\<lambda>b. case untag b of Some x \<Rightarrow> returnM x | None \<Rightarrow> failM (Mic3Tag what b))"

definition read_array_size :: "'r read \<Rightarrow> ('r, array_size) dec" where
  "read_array_size rd =
     bindM (mic3_read_u8 rd) (\<lambda>k.
       if k = 0 then bindM (read_uleb rd) (\<lambda>n. returnM (Fixed n))
       else if k = 1 then returnM Dynamic
       else failM (Mic3Tag ''size_kind'' k))"

text \<open>Keys are strictly ascending, so every insertion into the \<open>BTreeMap\<close> is at its end.\<close>

fun read_value_types_loop ::
  "'r read \<Rightarrow> value_id option \<Rightarrow> nat \<Rightarrow> (value_id \<times> array_type) list \<Rightarrow> ('r, (value_id \<times> array_type) list) dec" where
  "read_value_types_loop rd prev 0 table = returnM table"
| "read_value_types_loop rd prev (Suc n) table =
     bindM (read_vid rd) (\<lambda>vid.
     bindM (case prev of
              Some p \<Rightarrow> if vid \<le> p then failM (Mic3KeysNotAscending vid p) else returnM ()
            | None \<Rightarrow> returnM ()) (\<lambda>_.
     bindM (read_tag ''value_types dtype'' byte_to_dtype rd) (\<lambda>elem_dtype.
     bindM (read_array_size rd) (\<lambda>size.
       read_value_types_loop rd (Some vid) n (table @ [(vid, \<lparr>at_elem_dtype = elem_dtype, at_size = size\<rparr>)])))))"

definition read_value_types_table :: "'r read \<Rightarrow> usize \<Rightarrow> ('r, (value_id \<times> array_type) list) dec" where
  "read_value_types_table rd limit = bindM (read_count rd limit) (\<lambda>n. read_value_types_loop rd None n [])"

definition read_shape_dim :: "'r read \<Rightarrow> string list \<Rightarrow> ('r, shape_dim) dec" where
  "read_shape_dim rd strings =
     bindM (mic3_read_u8 rd) (\<lambda>tag.
       if tag = 0 then bindM (read_uleb_usize rd) (\<lambda>n. returnM (Known n))
       else if tag = 1 then bindM (read_string rd strings) (\<lambda>s. returnM (Sym s))
       else failM (Mic3Tag ''shape-dim'' tag))"

definition read_shape :: "'r read \<Rightarrow> string list \<Rightarrow> usize \<Rightarrow> ('r, shape_dim list) dec" where
  "read_shape rd strings limit = read_seq rd limit (read_shape_dim rd strings)"

subsection \<open>Type annotations\<close>

fun read_type_ann :: "'r read \<Rightarrow> string list \<Rightarrow> usize \<Rightarrow> nat \<Rightarrow> ('r, ast_type) dec" where
  "read_type_ann rd strings limit 0 = failM Mic3TypeDepth"
| "read_type_ann rd strings limit (Suc d) =
     bindM (mic3_read_u8 rd) (\<lambda>tag.
       if tag = 0x01 then returnM AtScalarI32
       else if tag = 0x02 then returnM AtScalarI64
       else if tag = 0x03 then returnM AtScalarF32
       else if tag = 0x04 then returnM AtScalarF64
       else if tag = 0x05 then returnM AtScalarBool
       else if tag = 0x06 then returnM AtScalarU32
       else if tag = 0x07 \<or> tag = 0x08 then
         bindM (read_string rd strings) (\<lambda>dtype.
         bindM (read_seq rd limit (read_string rd strings)) (\<lambda>dims.
           returnM (if tag = 0x07 then AtTensor dtype dims False else AtDiffTensor dtype dims)))
       else if tag = 0x09 then bindM (read_string rd strings) (\<lambda>name. returnM (AtNamed name))
       else if tag = 0x0A then
         bindM (read_bool rd) (\<lambda>mutable.
         bindM (read_type_ann rd strings limit d) (\<lambda>element. returnM (AtSlice mutable element)))
       else if tag = 0x0B then
         bindM (read_uleb rd) (\<lambda>len.
         bindM (read_type_ann rd strings limit d) (\<lambda>element. returnM (AtArray element (ucast len))))
       else if tag = 0x0C then
         bindM (read_bool rd) (\<lambda>mutable.
         bindM (read_type_ann rd strings limit d) (\<lambda>target. returnM (AtRef mutable target)))
       else if tag = 0x0D then
         bindM (read_string rd strings) (\<lambda>name.
         bindM (read_seq rd limit (read_type_ann rd strings limit d)) (\<lambda>args. returnM (AtGeneric name args)))
       else if tag = 0x0E then
         bindM (read_seq rd limit (read_type_ann rd strings limit d)) (\<lambda>elements. returnM (AtTuple elements))
       else if tag = 0x0F then
         bindM (read_tag ''sparse layout'' byte_to_sparse_layout rd) (\<lambda>layout.
         bindM (read_type_ann rd strings limit d) (\<lambda>element.
         bindM (read_shape rd strings limit) (\<lambda>shape. returnM (AtSparseTensor layout element shape))))
       else if tag = 0x10 then
         bindM (read_bool rd) (\<lambda>mutable.
         bindM (read_type_ann rd strings limit d) (\<lambda>pointee. returnM (AtRawPtr mutable pointee)))
       else if tag = 0x11 then
         bindM (read_seq rd limit (read_type_ann rd strings limit d)) (\<lambda>params.
         bindM (read_bool rd) (\<lambda>has_ret.
           if has_ret then bindM (read_type_ann rd strings limit d) (\<lambda>r. returnM (AtFnPtr params (Some r)))
           else returnM (AtFnPtr params None)))
       else failM (Mic3Tag ''TypeAnn'' tag))"

subsection \<open>Instructions\<close>

definition read_shape4 :: "'r read \<Rightarrow> ('r, usize \<times> usize \<times> usize \<times> usize) dec" where
  "read_shape4 rd =
     bindM (read_uleb_usize rd) (\<lambda>a. bindM (read_uleb_usize rd) (\<lambda>b.
     bindM (read_uleb_usize rd) (\<lambda>c. bindM (read_uleb_usize rd) (\<lambda>d. returnM (a, b, c, d)))))"

definition read_index_spec :: "'r read \<Rightarrow> ('r, index_spec) dec" where
  "read_index_spec rd =
     bindM (mic3_read_i64 rd) (\<lambda>axis. bindM (mic3_read_i64 rd) (\<lambda>idx. returnM \<lparr>ix_axis = axis, ix_index = idx\<rparr>))"

definition read_slice_spec :: "'r read \<Rightarrow> ('r, slice_spec) dec" where
  "read_slice_spec rd =
     bindM (mic3_read_i64 rd) (\<lambda>axis. bindM (mic3_read_i64 rd) (\<lambda>start.
     bindM (read_opt_i64 rd) (\<lambda>stop. bindM (mic3_read_i64 rd) (\<lambda>stride.
       returnM \<lparr>ss_axis = axis, ss_start = start, ss_end = stop, ss_stride = stride\<rparr>))))"

text \<open>The arms of \<open>decode_instr\<close> without nested instructions: the tensor operations, then the others.\<close>

definition decode_tensor_instr :: "'r read \<Rightarrow> string list \<Rightarrow> usize \<Rightarrow> u8 \<Rightarrow> ('r, instr) dec" where
  "decode_tensor_instr rd strings limit op =
     (if op = OP_CONST_I64 then
        bindM (read_vid rd) (\<lambda>dst. bindM (mic3_read_i64 rd) (\<lambda>v. returnM (ConstI64 dst v)))
      else if op = OP_CONST_F64 then
        bindM (read_vid rd) (\<lambda>dst. bindM (read_u64_le rd) (\<lambda>bits. returnM (ConstF64 dst bits)))
      else if op = OP_CONST_TENSOR then
        bindM (read_vid rd) (\<lambda>dst. bindM (read_tag ''dtype'' byte_to_dtype rd) (\<lambda>dtype.
        bindM (read_shape rd strings limit) (\<lambda>shape. bindM (read_opt_f64 rd) (\<lambda>fill.
          returnM (ConstTensor dst dtype shape fill)))))
      else if op = OP_CONST_DENSE_TENSOR then
        bindM (read_vid rd) (\<lambda>dst. bindM (read_tag ''dtype'' byte_to_dtype rd) (\<lambda>dtype.
        bindM (read_shape rd strings limit) (\<lambda>shape. bindM (read_seq rd limit (read_u64_le rd)) (\<lambda>bits.
          returnM (ConstDenseTensor dst dtype shape bits)))))
      else if op = OP_BINOP then
        bindM (read_vid rd) (\<lambda>dst. bindM (read_tag ''binop'' byte_to_binop rd) (\<lambda>bop.
        bindM (read_vid rd) (\<lambda>lhs. bindM (read_vid rd) (\<lambda>rhs. returnM (BinOp dst bop lhs rhs)))))
      else if op = OP_SUM then
        bindM (read_vid rd) (\<lambda>dst. bindM (read_vid rd) (\<lambda>src.
        bindM (read_i64_vec rd limit) (\<lambda>axes. bindM (read_bool rd) (\<lambda>keepdims. returnM (SumOp dst src axes keepdims)))))
      else if op = OP_MEAN then
        bindM (read_vid rd) (\<lambda>dst. bindM (read_vid rd) (\<lambda>src.
        bindM (read_i64_vec rd limit) (\<lambda>axes. bindM (read_bool rd) (\<lambda>keepdims. returnM (MeanOp dst src axes keepdims)))))
      else if op = OP_RELU then
        bindM (read_vid rd) (\<lambda>dst. bindM (read_vid rd) (\<lambda>src. returnM (Relu dst src)))
      else if op = OP_RELU_GRAD then
        bindM (read_vid rd) (\<lambda>dst. bindM (read_vid rd) (\<lambda>grad. bindM (read_vid rd) (\<lambda>src. returnM (ReluGrad dst grad src))))
      else if op = OP_RESHAPE then
        bindM (read_vid rd) (\<lambda>dst. bindM (read_vid rd) (\<lambda>src.
        bindM (read_shape rd strings limit) (\<lambda>new_shape. returnM (Reshape dst src new_shape))))
      else if op = OP_EXPAND_DIMS then
        bindM (read_vid rd) (\<lambda>dst. bindM (read_vid rd) (\<lambda>src. bindM (mic3_read_i64 rd) (\<lambda>axis. returnM (ExpandDims dst src axis))))
      else if op = OP_SQUEEZE then
        bindM (read_vid rd) (\<lambda>dst. bindM (read_vid rd) (\<lambda>src. bindM (read_i64_vec rd limit) (\<lambda>axes. returnM (Squeeze dst src axes))))
      else if op = OP_TRANSPOSE then
        bindM (read_vid rd) (\<lambda>dst. bindM (read_vid rd) (\<lambda>src. bindM (read_i64_vec rd limit) (\<lambda>perm. returnM (Transpose dst src perm))))
      else if op = OP_DOT then
        bindM (read_vid rd) (\<lambda>dst. bindM (read_vid rd) (\<lambda>a. bindM (read_vid rd) (\<lambda>b. returnM (Dot dst a b))))
      else if op = OP_MATMUL then
        bindM (read_vid rd) (\<lambda>dst. bindM (read_vid rd) (\<lambda>a. bindM (read_vid rd) (\<lambda>b. returnM (MatMul dst a b))))
      else if op = OP_CONV2D then
        bindM (read_vid rd) (\<lambda>dst. bindM (read_vid rd) (\<lambda>inp. bindM (read_vid rd) (\<lambda>filt.
        bindM (read_uleb_usize rd) (\<lambda>sh. bindM (read_uleb_usize rd) (\<lambda>sw.
        bindM (read_tag ''padding'' byte_to_padding rd) (\<lambda>padding. returnM (Conv2d dst inp filt sh sw padding)))))))
      else if op = OP_CONV2D_GRAD_INPUT then
        bindM (read_vid rd) (\<lambda>dst. bindM (read_vid rd) (\<lambda>dy. bindM (read_vid rd) (\<lambda>filt.
        bindM (read_shape4 rd) (\<lambda>shape. bindM (read_uleb_usize rd) (\<lambda>sh. bindM (read_uleb_usize rd) (\<lambda>sw.
        bindM (read_tag ''padding'' byte_to_padding rd) (\<lambda>padding. returnM (Conv2dGradInput dst dy filt shape sh sw padding))))))))
      else if op = OP_CONV2D_GRAD_FILTER then
        bindM (read_vid rd) (\<lambda>dst. bindM (read_vid rd) (\<lambda>inp. bindM (read_vid rd) (\<lambda>dy.
        bindM (read_shape4 rd) (\<lambda>shape. bindM (read_uleb_usize rd) (\<lambda>sh. bindM (read_uleb_usize rd) (\<lambda>sw.
        bindM (read_tag ''padding'' byte_to_padding rd) (\<lambda>padding. returnM (Conv2dGradFilter dst inp dy shape sh sw padding))))))))
      else if op = OP_INDEX then
        bindM (read_vid rd) (\<lambda>dst. bindM (read_vid rd) (\<lambda>src.
        bindM (read_seq rd limit (read_index_spec rd)) (\<lambda>indices. returnM (Index dst src indices))))
      else if op = OP_SLICE then
        bindM (read_vid rd) (\<lambda>dst. bindM (read_vid rd) (\<lambda>src.
        bindM (read_seq rd limit (read_slice_spec rd)) (\<lambda>dims. returnM (Slice dst src dims))))
      else if op = OP_GATHER then
        bindM (read_vid rd) (\<lambda>dst. bindM (read_vid rd) (\<lambda>src. bindM (read_vid rd) (\<lambda>indices.
        bindM (mic3_read_i64 rd) (\<lambda>axis. returnM (Gather dst src indices axis)))))
      else failM (Mic3UnknownOpcode op))"

definition decode_scalar_instr :: "'r read \<Rightarrow> string list \<Rightarrow> usize \<Rightarrow> u8 \<Rightarrow> ('r, instr) dec" where
  "decode_scalar_instr rd strings limit op =
     (if op = OP_OUTPUT then bindM (read_vid rd) (\<lambda>v. returnM (Output v))
      else if op = OP_SPARSE_ATTR then
        bindM (read_vid rd) (\<lambda>src. bindM (read_vid rd) (\<lambda>dst.
        bindM (read_tag ''sparse layout'' byte_to_sparse_layout rd) (\<lambda>layout. returnM (SparseAttr src dst layout))))
      else if op = OP_CALL then
        bindM (read_vid rd) (\<lambda>dst. bindM (read_string rd strings) (\<lambda>name.
        bindM (read_vid_vec rd limit) (\<lambda>args. returnM (Call dst name args None))))
      else if op = OP_RETURN then bindM (read_opt_vid rd) (\<lambda>value. returnM (Return value))
      else if op = OP_PARAM then
        bindM (read_vid rd) (\<lambda>dst. bindM (read_string rd strings) (\<lambda>name.
        bindM (read_uleb_usize rd) (\<lambda>idx. returnM (Param dst name idx))))
      else if op = OP_CONST_ARRAY then
        bindM (read_vid rd) (\<lambda>dst. bindM (read_opt_string rd strings) (\<lambda>name.
        bindM (read_seq rd limit (mic3_read_i64 rd)) (\<lambda>values. returnM (ConstArray dst name values))))
      else if op = OP_ARRAY_LOAD then
        bindM (read_vid rd) (\<lambda>dst. bindM (read_vid rd) (\<lambda>base. bindM (read_vid rd) (\<lambda>idx. returnM (ArrayLoad dst base idx))))
      else if op = OP_ARRAY_STORE then
        bindM (read_vid rd) (\<lambda>dst. bindM (read_vid rd) (\<lambda>base. bindM (read_vid rd) (\<lambda>idx.
        bindM (read_vid rd) (\<lambda>value. returnM (ArrayStore dst base idx value)))))
      else if op = OP_VEC_LOAD then
        bindM (read_vid rd) (\<lambda>dst. bindM (read_vid rd) (\<lambda>base. bindM (read_vid rd) (\<lambda>offset.
        bindM (read_uleb_usize rd) (\<lambda>lanes. returnM (VecLoad dst base offset lanes)))))
      else if op = OP_VEC_FMA then
        bindM (read_vid rd) (\<lambda>dst. bindM (read_vid rd) (\<lambda>a. bindM (read_vid rd) (\<lambda>b. bindM (read_vid rd) (\<lambda>acc.
        bindM (read_uleb_usize rd) (\<lambda>lanes. returnM (VecFma dst a b acc lanes))))))
      else if op = OP_VEC_REDUCE_ADD then
        bindM (read_vid rd) (\<lambda>dst. bindM (read_vid rd) (\<lambda>src.
        bindM (read_uleb_usize rd) (\<lambda>lanes. returnM (VecReduceAdd dst src lanes))))
      else if op = OP_VEC_STORE then
        bindM (read_vid rd) (\<lambda>src. bindM (read_vid rd) (\<lambda>base. bindM (read_vid rd) (\<lambda>offset.
        bindM (read_uleb_usize rd) (\<lambda>lanes. returnM (VecStore src base offset lanes)))))
      else if op = OP_VEC_LOAD_I32 then
        bindM (read_vid rd) (\<lambda>dst. bindM (read_vid rd) (\<lambda>base. bindM (read_vid rd) (\<lambda>offset.
        bindM (read_uleb_usize rd) (\<lambda>lanes. returnM (VecLoadI32 dst base offset lanes)))))
      else if op = OP_VEC_MUL_ADD_Q16 then
        bindM (read_vid rd) (\<lambda>dst. bindM (read_vid rd) (\<lambda>a. bindM (read_vid rd) (\<lambda>b. bindM (read_vid rd) (\<lambda>acc.
        bindM (read_uleb_usize rd) (\<lambda>lanes. returnM (VecMulAddQ16 dst a b acc lanes))))))
      else if op = OP_VEC_REDUCE_ADD_I64 then
        bindM (read_vid rd) (\<lambda>dst. bindM (read_vid rd) (\<lambda>src.
        bindM (read_uleb_usize rd) (\<lambda>lanes. returnM (VecReduceAddI64 dst src lanes))))
      else if op = OP_EXTERN_FN_DECL then
        bindM (read_string rd strings) (\<lambda>name.
        bindM (read_seq rd limit (read_string rd strings)) (\<lambda>param_types.
        bindM (read_opt_string rd strings) (\<lambda>ret_type.
        bindM (read_bool rd) (\<lambda>is_varargs.
        bindM (read_seq rd limit (read_string rd strings)) (\<lambda>vararg_hints.
        bindM (read_tag ''callconv'' byte_to_callconv rd) (\<lambda>callconv.
          returnM (ExternFnDecl name param_types ret_type is_varargs vararg_hints callconv)))))))
      else if op = OP_BREAK then bindM (read_named_vids rd strings limit) (\<lambda>snapshot. returnM (Break snapshot))
      else if op = OP_CONTINUE then bindM (read_named_vids rd strings limit) (\<lambda>snapshot. returnM (Continue snapshot))
      else decode_tensor_instr rd strings limit op)"

fun decode_instr :: "'r read \<Rightarrow> string list \<Rightarrow> usize \<Rightarrow> u8 \<Rightarrow> nat \<Rightarrow> ('r, instr) dec" where
  "decode_instr rd strings limit version 0 = failM Mic3InstrDepth"
| "decode_instr rd strings limit version (Suc d) =
     bindM (mic3_read_u8 rd) (\<lambda>op.
       if op = OP_FN_DEF then
         bindM (read_string rd strings) (\<lambda>name.
         bindM (read_named_vids rd strings limit) (\<lambda>params.
         bindM (read_opt_vid rd) (\<lambda>ret_id.
         bindM (read_opt_f64 rd) (\<lambda>reap_threshold.
         bindM (read_seq rd limit (decode_instr rd strings limit version d)) (\<lambda>body.
         bindM (if MIC3_VERSION \<le> version then read_value_types_table rd limit else returnM []) (\<lambda>value_types.
           returnM (FnDef name params ret_id body reap_threshold None value_types)))))))
       else if op = OP_WHILE then
         bindM (read_vid rd) (\<lambda>cond_id.
         bindM (read_seq rd limit (decode_instr rd strings limit version d)) (\<lambda>cond_instrs.
         bindM (read_seq rd limit (decode_instr rd strings limit version d)) (\<lambda>body.
         bindM (read_named_vids rd strings limit) (\<lambda>live_vars.
         bindM (read_vid_vec rd limit) (\<lambda>init_ids.
         bindM (if 0x02 \<le> version then read_vid_vec rd limit else returnM []) (\<lambda>exit_ids.
           returnM (While cond_id cond_instrs body live_vars init_ids exit_ids)))))))
       else if op = OP_IF then
         bindM (read_vid rd) (\<lambda>cond_id.
         bindM (read_seq rd limit (decode_instr rd strings limit version d)) (\<lambda>cond_instrs.
         bindM (read_seq rd limit (decode_instr rd strings limit version d)) (\<lambda>then_instrs.
         bindM (read_vid rd) (\<lambda>then_result.
         bindM (read_seq rd limit (decode_instr rd strings limit version d)) (\<lambda>else_instrs.
         bindM (read_vid rd) (\<lambda>else_result.
         bindM (read_vid rd) (\<lambda>dst.
         bindM (read_named_vids rd strings limit) (\<lambda>branch_bindings.
         bindM (if 0x02 \<le> version then read_vid_triples rd limit else returnM []) (\<lambda>merges.
           returnM (IfInstr cond_id cond_instrs then_instrs then_result else_instrs else_result dst branch_bindings merges))))))))))
       else if op = OP_REGION then
         bindM (read_seq rd limit (decode_instr rd strings limit version d)) (\<lambda>body.
         bindM (read_vid rd) (\<lambda>result.
         bindM (read_vid rd) (\<lambda>enter_id.
         bindM (read_vid rd) (\<lambda>exit_id.
         bindM (read_vid_vec rd limit) (\<lambda>alloc_ids. returnM (Region body result enter_id exit_id alloc_ids))))))
       else decode_scalar_instr rd strings limit op)"

subsection \<open>Modules\<close>

fun btree_insert :: "'k::linorder \<Rightarrow> 'v \<Rightarrow> ('k \<times> 'v) list \<Rightarrow> ('k \<times> 'v) list" where
  "btree_insert k v [] = [(k, v)]"
| "btree_insert k v ((k', v') # xs) =
     (if k < k' then (k, v) # (k', v') # xs else if k = k' then (k, v) # xs else (k', v') # btree_insert k v xs)"

definition btree_of :: "('k::linorder \<times> 'v) list \<Rightarrow> ('k \<times> 'v) list" where
  "btree_of xs = fold (\<lambda>(k, v). btree_insert k v) xs []"

definition read_string_entry :: "'r read \<Rightarrow> usize \<Rightarrow> ('r, string) dec" where
  "read_string_entry rd limit =
     bindM (read_uleb_usize rd) (\<lambda>len.
       if limit < len then failM (Mic3StringLength len limit)
       else bindM (io3 (read_exact rd len)) (\<lambda>buf.
         case from_utf8 buf of Some s \<Rightarrow> returnM s | None \<Rightarrow> failM Mic3InvalidUtf8))"

definition saturating_mul :: "usize \<Rightarrow> usize \<Rightarrow> usize" where
  "saturating_mul a b = min (a * b) (2 ^ 64 - 1)"

definition read_next_id :: "'r read \<Rightarrow> usize \<Rightarrow> ('r, usize) dec" where
  "read_next_id rd limit =
     bindM (read_uleb_usize rd) (\<lambda>n. if saturating_mul limit 1024 < n then failM (Mic3NextId n limit) else returnM n)"

definition read_entry :: "'r read \<Rightarrow> string list \<Rightarrow> usize \<Rightarrow> ('r, 'a) dec \<Rightarrow> ('r, string \<times> 'a list) dec" where
  "read_entry rd strings limit m =
     bindM (read_string rd strings) (\<lambda>name. bindM (read_seq rd limit m) (\<lambda>xs. returnM (name, xs)))"

definition read_mic3_header :: "'r read \<Rightarrow> ('r, u8) dec" where
  "read_mic3_header rd =
     bindM (io3 (read_exact rd 4)) (\<lambda>magic.
     if magic \<noteq> MIC3_MAGIC then failM (Mic3Magic magic)
     else bindM (mic3_read_u8 rd) (\<lambda>version.
       if MIC3_MIN_READ_VERSION \<le> version \<and> version \<le> MIC3_VERSION then returnM version
       else failM (Mic3Version version)))"

definition read_mic3_module :: "'r read \<Rightarrow> usize \<Rightarrow> ('r, mic3_module) dec" where
  "read_mic3_module rd limit =
     bindM (read_mic3_header rd) (\<lambda>version.
     bindM (read_seq rd limit (read_string_entry rd limit)) (\<lambda>strings.
     bindM (read_next_id rd limit) (\<lambda>next.
     bindM (read_seq rd limit (read_string rd strings)) (\<lambda>names.
     bindM (read_seq rd limit (decode_instr rd strings limit version MAX_MIC3_DEPTH)) (\<lambda>is.
     bindM (read_seq rd limit (read_entry rd strings limit (read_string rd strings))) (\<lambda>sd.
     bindM (read_seq rd limit (read_entry rd strings limit (mic3_read_i64 rd))) (\<lambda>ca.
     bindM (read_seq rd limit (read_entry rd strings limit (read_type_ann rd strings limit MAX_MIC3_DEPTH))) (\<lambda>rc.
     bindM (if MIC3_VERSION \<le> version then read_value_types_table rd limit else returnM []) (\<lambda>vt.
       returnM \<lparr>instrs = is, next_id = next, exports = set names, canonical_types = None, m_value_types = vt,
         m_struct_defs = btree_of sd, m_const_array_defs = btree_of ca, m_repr_c_structs = btree_of rc\<rparr>)))))))))"

text \<open>
  The identifiers \<open>instruction_id_bound\<close> visits, and the maximum of their successors: \<open>usize\<close> addition,
  which panics (\<^const>\<open>None\<close>) in a build that checks overflow (\<open>oc\<close>) and wraps in another.
\<close>

definition bound_ids :: "instr \<Rightarrow> value_id list" where
  "bound_ids i =
     (case instruction_dst i of Some d \<Rightarrow> [d] | None \<Rightarrow> []) @ instruction_operands i @
     (case i of
        While _ _ _ _ _ exit_ids \<Rightarrow> exit_ids
      | IfInstr _ _ _ _ _ _ dst branch_bindings merges \<Rightarrow>
          dst # concat (map (\<lambda>(m, t, e). [m, t, e]) merges) @ map snd branch_bindings
      | _ \<Rightarrow> [])"

definition id_after :: "bool \<Rightarrow> value_id \<Rightarrow> usize option" where
  "id_after oc v = (if v + 1 < 2 ^ 64 then Some (v + 1) else if oc then None else Some 0)"

definition top_level_bound :: "bool \<Rightarrow> instr list \<Rightarrow> usize option" where
  "top_level_bound oc is = map_option (\<lambda>bs. fold max bs 0) (traverse (id_after oc) (concat (map bound_ids is)))"

definition decode_budget :: "usize \<Rightarrow> usize" where
  "decode_budget limit = max (saturating_mul limit DECODE_AMPLIFICATION_FACTOR) MIN_DECODE_BUDGET"

text \<open>The result is the module and the number of bytes consumed; \<open>v04\<close> is the draft v0x04 reader.\<close>

definition parse_mic3_prefix ::
  "bool \<Rightarrow> (u8 list \<Rightarrow> (mic3_error + mic3_module \<times> usize) option) \<Rightarrow> u8 list \<Rightarrow> (mic3_error + mic3_module \<times> usize) option" where
  "parse_mic3_prefix oc v04 bytes =
     (if MAX_MIC3_INPUT < length bytes then Some (Inl (Mic3InputTooLarge (length bytes)))
      else if take 4 bytes = MIC3_MAGIC \<and> 4 < length bytes \<and> bytes ! 4 = MIC3_VERSION_V04 then v04 bytes
      else case read_mic3_module slice_read (length bytes) (bytes, decode_budget (length bytes)) of
             Inl e \<Rightarrow> Some (Inl e)
           | Inr (m, (rest, _)) \<Rightarrow>
               map_option (\<lambda>b. Inr (m\<lparr>next_id := max (next_id m) b\<rparr>, length bytes - length rest)) (top_level_bound oc (instrs m)))"

definition parse_mic3_body ::
  "bool \<Rightarrow> (u8 list \<Rightarrow> (mic3_error + mic3_module \<times> usize) option) \<Rightarrow> u8 list \<Rightarrow> (mic3_error + mic3_module) option" where
  "parse_mic3_body oc v04 bytes =
     map_option (\<lambda>p. rbind p (\<lambda>(m, consumed).
       if consumed \<noteq> length bytes then Inl (Mic3Trailing consumed (length bytes - consumed)) else Inr m))
       (parse_mic3_prefix oc v04 bytes)"

definition parse_mic3 ::
  "bool \<Rightarrow> (u8 list \<Rightarrow> (mic3_error + mic3_module \<times> usize) option) \<Rightarrow> u8 list \<Rightarrow> (mic3_error + mic3_module) option" where
  "parse_mic3 oc v04 bytes = map_option (\<lambda>p. rbind p (\<lambda>(m, _). Inr m)) (parse_mic3_prefix oc v04 bytes)"

end
