(* ===== verification/Mic3_Roundtrip.thy ===== *)
theory Mic3_Roundtrip
  imports Mic3_Parse Micb_Roundtrip
begin

text \<open>
  The mic\<^verbatim>\<open>@\<close>3 decoder inverts the emitter, and the emitter never panics.  A decoding law says that a
  decoder consumes exactly the bytes of its encoder and charges the clone budget by the strings it copies;
  the laws are proved for any reader that meets \<open>byte_source\<close> and used for the cursor over a slice.
\<close>

abbreviation wire3 ::
  "('r \<Rightarrow> u8 list) \<Rightarrow> ('r \<Rightarrow> bool) \<Rightarrow> ('r, 'a) dec \<Rightarrow> u8 list \<Rightarrow> nat \<Rightarrow> 'a \<Rightarrow> bool" where
  "wire3 pending good \<equiv> decodes (\<lambda>(r, b). pending r) (\<lambda>c (r, b). good r \<and> c \<le> b)"

text \<open>The decoder's table is the emitter's, and counts and identifiers are 64-bit numbers.\<close>

definition codec_env :: "usize \<Rightarrow> encoder \<Rightarrow> bool" where
  "codec_env limit st \<longleftrightarrow> limit < 2 ^ 64 \<and> encoder_inv st \<and> length (enc_strings st) < 2 ^ 64"

subsection \<open>Sequencing\<close>

lemma wire3_more:
  assumes "wire3 pending good m bs c x" "c \<le> d" shows "wire3 pending good m bs d x"
proof (rule decodesI)
  fix s rest c' assume g: "case s of (r, b) \<Rightarrow> good r \<and> d + c' \<le> b" and p: "(case s of (r, b) \<Rightarrow> pending r) = bs @ rest"
  have "case s of (r, b) \<Rightarrow> good r \<and> c + (d - c + c') \<le> b" using g assms(2) by auto
  from decodesD [OF assms(1) this p] obtain t where
    "m s = Inr (x, t)" "case t of (r, b) \<Rightarrow> good r \<and> d - c + c' \<le> b" "(case t of (r, b) \<Rightarrow> pending r) = rest" by blast
  then show "\<exists>t. m s = Inr (x, t) \<and> (case t of (r, b) \<Rightarrow> good r \<and> c' \<le> b) \<and> (case t of (r, b) \<Rightarrow> pending r) = rest"
    by (intro exI [of _ t]) auto
qed

lemma wire3_return [simp]: "wire3 pending good (returnM x) [] d x"
  by (rule wire3_more [OF decodes_returnM]) simp

lemma wire3_then:
  assumes "wire3 pending good m bs c x" "c \<le> d" "wire3 pending good (f x) bs' (d - c) y"
  shows "wire3 pending good (bindM m f) (bs @ bs') d y"
proof (rule wire3_more)
  show "wire3 pending good (bindM m f) (bs @ bs') (c + (d - c)) y"
    using assms(1,3) by (rule decodes_bindI) simp_all
qed (use assms(2) in simp)

lemma wire3_last:
  assumes "wire3 pending good m bs c x" "c \<le> d" "wire3 pending good (f x) [] (d - c) y"
  shows "wire3 pending good (bindM m f) bs d y"
  using wire3_then [where f = f, OF assms] by simp

lemma wire3_free:
  assumes "wire3 pending good m bs 0 x" "wire3 pending good (f x) bs' d y"
  shows "wire3 pending good (bindM m f) (bs @ bs') d y"
  by (rule wire3_then [where f = f, OF assms(1)]) (simp_all add: assms(2))

lemma wire3_free_last:
  assumes "wire3 pending good m bs 0 x" "wire3 pending good (f x) [] d y"
  shows "wire3 pending good (bindM m f) bs d y"
  by (rule wire3_last [where f = f, OF assms(1)]) (simp_all add: assms(2))

lemma wire3_ret:
  assumes "wire3 pending good m bs c x" "c \<le> d"
  shows "wire3 pending good (bindM m (\<lambda>x. returnM (g x))) bs d (g x)"
  by (rule wire3_last [where f = "\<lambda>x. returnM (g x)", OF assms]) simp

lemma wire3_none: "wire3 pending good (f ()) bs d y \<Longrightarrow> wire3 pending good (bindM (returnM ()) f) bs d y"
  using wire3_free [where f = f, OF wire3_return] by fastforce

lemma wire3_io: "decodes pending (\<lambda>_. good) m bs 0 x \<Longrightarrow> wire3 pending good (io3 m) bs 0 x"
proof (rule decodesI, clarsimp)
  fix r and b :: usize and rest c' assume "decodes pending (\<lambda>_. good) m bs 0 x" "good r" "pending r = bs @ rest" "c' \<le> b"
  then obtain t where "m r = Inr (x, t)" "good t" "pending t = rest"
    unfolding decodes_def by fastforce
  with \<open>c' \<le> b\<close> show "\<exists>r' b'. io3 m (r, b) = Inr (x, r', b') \<and> good r' \<and> c' \<le> b' \<and> pending r' = rest"
    by (simp add: io3_def)
qed

subsection \<open>Bytes of a word\<close>

lemma length_le_bytes [simp]: "length (le_bytes n v) = n"
  by (induction n arbitrary: v) simp_all

lemma from_le_bytes: "from_le (le_bytes n v) = take_bit (8 * n) v"
proof (induction n arbitrary: v)
  case (Suc n)
  show ?case
  proof (rule bit_word_eqI)
    fix k assume "k < LENGTH(64)"
    then show "bit (from_le (le_bytes (Suc n) v)) k \<longleftrightarrow> bit (take_bit (8 * Suc n) v) k"
      by (cases "k < 8") (auto simp: Suc bit_simps)
  qed
qed simp

lemma write_nonempty [simp]:
  "write_usize n \<noteq> []" "write_vid v \<noteq> []" "write_i64 i \<noteq> []" "write_u64_le w \<noteq> []" "emit_list f xs \<noteq> []"
  by (simp_all add: write_usize_def write_vid_def write_i64_def write_u64_le_def emit_list_def eval_nat_numeral)

lemma emit_seq_nonempty: "emit_seq f xs = Some bs \<Longrightarrow> bs \<noteq> []"
  by (auto simp: emit_seq_def split: bind_splits)

lemma encode_string_idx_nonempty: "encode_string_idx dbg st s = Some bs \<Longrightarrow> bs \<noteq> []"
  by (auto simp: encode_string_idx_def)

lemma emit_list_length: "(\<And>x. f x \<noteq> []) \<Longrightarrow> length xs \<le> length (emit_list f xs)"
  using length_concat_ge [of "map f xs"] by (simp add: emit_list_def)

lemma emit_seq_length: "emit_seq f xs = Some bs \<Longrightarrow> (\<And>x bs. f x = Some bs \<Longrightarrow> bs \<noteq> []) \<Longrightarrow> length xs \<le> length bs"
proof -
  assume "emit_seq f xs = Some bs" and n: "\<And>x bs. f x = Some bs \<Longrightarrow> bs \<noteq> []"
  then obtain bss where "traverse f xs = Some bss" "bs = write_usize (length xs) @ concat bss"
    by (auto simp: emit_seq_def split: bind_splits)
  moreover from this(1) n have "length xs \<le> length (concat bss)" by (rule traverse_length_le)
  ultimately show "length xs \<le> length bs" by simp
qed


subsection \<open>What an instruction refers to\<close>

text \<open>The strings a type annotation or an instruction holds, in the order they are interned and copied, and its numbers.\<close>

definition copy_cost :: "string list \<Rightarrow> nat" where
  "copy_cost ss = sum_list (map length ss)"

lemma copy_cost_simps [simp]:
  "copy_cost [] = 0" "copy_cost (s # ss) = length s + copy_cost ss" "copy_cost (ss @ ts) = copy_cost ss + copy_cost ts"
  by (simp_all add: copy_cost_def)

lemma copy_cost_concat: "copy_cost (concat (map f xs)) = sum_list (map (\<lambda>x. copy_cost (f x)) xs)"
  by (induction xs) simp_all

definition dim_refs :: "shape_dim \<Rightarrow> string list" where
  "dim_refs d = (case d of Known _ \<Rightarrow> [] | Sym s \<Rightarrow> [s])"

definition dim_nats :: "shape_dim \<Rightarrow> nat list" where
  "dim_nats d = (case d of Known n \<Rightarrow> [n] | Sym _ \<Rightarrow> [])"

definition shape4_nats :: "usize \<times> usize \<times> usize \<times> usize \<Rightarrow> nat list" where
  "shape4_nats s = (case s of (a, b, c, d) \<Rightarrow> [a, b, c, d])"

definition triple_nats :: "(value_id \<times> value_id \<times> value_id) list \<Rightarrow> nat list" where
  "triple_nats ts = concat (map (\<lambda>(a, b, c). [a, b, c]) ts)"

definition opt_nats :: "value_id option \<Rightarrow> nat list" where
  "opt_nats v = (case v of None \<Rightarrow> [] | Some n \<Rightarrow> [n])"

definition opt_refs :: "string option \<Rightarrow> string list" where
  "opt_refs v = (case v of None \<Rightarrow> [] | Some s \<Rightarrow> [s])"

fun type_refs :: "ast_type \<Rightarrow> string list" where
  "type_refs (AtTensor dtype dims _) = dtype # dims"
| "type_refs (AtDiffTensor dtype dims) = dtype # dims"
| "type_refs (AtNamed name) = [name]"
| "type_refs (AtGeneric name args) = name # concat (map type_refs args)"
| "type_refs (AtSlice _ element) = type_refs element"
| "type_refs (AtArray element _) = type_refs element"
| "type_refs (AtRef _ target) = type_refs target"
| "type_refs (AtRawPtr _ pointee) = type_refs pointee"
| "type_refs (AtTuple elements) = concat (map type_refs elements)"
| "type_refs (AtSparseTensor _ element shape) = type_refs element @ concat (map dim_refs shape)"
| "type_refs (AtFnPtr params ret) = concat (map type_refs params) @ (case ret of Some r \<Rightarrow> type_refs r | None \<Rightarrow> [])"
| "type_refs _ = []"

fun instr_refs :: "instr \<Rightarrow> string list" where
  "instr_refs (ConstTensor _ _ shape _) = concat (map dim_refs shape)"
| "instr_refs (ConstDenseTensor _ _ shape _) = concat (map dim_refs shape)"
| "instr_refs (Reshape _ _ new_shape) = concat (map dim_refs new_shape)"
| "instr_refs (FnDef name params _ body _ _ _) = name # map fst params @ concat (map instr_refs body)"
| "instr_refs (Call _ name _ _) = [name]"
| "instr_refs (Param _ name _) = [name]"
| "instr_refs (ConstArray _ name _) = opt_refs name"
| "instr_refs (While _ cond_instrs body live_vars _ _) =
     concat (map instr_refs cond_instrs) @ concat (map instr_refs body) @ map fst live_vars"
| "instr_refs (IfInstr _ cond_instrs then_instrs _ else_instrs _ _ branch_bindings _) =
     concat (map instr_refs cond_instrs) @ concat (map instr_refs then_instrs) @ concat (map instr_refs else_instrs) @
     map fst branch_bindings"
| "instr_refs (Region body _ _ _ _) = concat (map instr_refs body)"
| "instr_refs (Break snapshot) = map fst snapshot"
| "instr_refs (Continue snapshot) = map fst snapshot"
| "instr_refs (ExternFnDecl name param_types ret_type _ vararg_hints _) =
     name # param_types @ opt_refs ret_type @ vararg_hints"
| "instr_refs _ = []"

fun instr_nats :: "instr \<Rightarrow> nat list" where
  "instr_nats (ConstI64 dst _) = [dst]"
| "instr_nats (ConstF64 dst _) = [dst]"
| "instr_nats (ConstTensor dst _ shape _) = dst # concat (map dim_nats shape)"
| "instr_nats (ConstDenseTensor dst _ shape _) = dst # concat (map dim_nats shape)"
| "instr_nats (BinOp dst _ lhs rhs) = [dst, lhs, rhs]"
| "instr_nats (SumOp dst src _ _) = [dst, src]"
| "instr_nats (MeanOp dst src _ _) = [dst, src]"
| "instr_nats (Relu dst src) = [dst, src]"
| "instr_nats (ReluGrad dst grad src) = [dst, grad, src]"
| "instr_nats (Reshape dst src new_shape) = dst # src # concat (map dim_nats new_shape)"
| "instr_nats (ExpandDims dst src _) = [dst, src]"
| "instr_nats (Squeeze dst src _) = [dst, src]"
| "instr_nats (Transpose dst src _) = [dst, src]"
| "instr_nats (Dot dst a b) = [dst, a, b]"
| "instr_nats (MatMul dst a b) = [dst, a, b]"
| "instr_nats (Conv2d dst inp filt sh sw _) = [dst, inp, filt, sh, sw]"
| "instr_nats (Conv2dGradInput dst dy filt input_shape sh sw _) = [dst, dy, filt, sh, sw] @ shape4_nats input_shape"
| "instr_nats (Conv2dGradFilter dst inp dy filter_shape sh sw _) = [dst, inp, dy, sh, sw] @ shape4_nats filter_shape"
| "instr_nats (Index dst src _) = [dst, src]"
| "instr_nats (Slice dst src _) = [dst, src]"
| "instr_nats (Gather dst src indices _) = [dst, src, indices]"
| "instr_nats (Output v) = [v]"
| "instr_nats (SparseAttr src dst _) = [src, dst]"
| "instr_nats (FnDef _ params ret_id _ _ _ _) = map snd params @ opt_nats ret_id"
| "instr_nats (Call dst _ args _) = dst # args"
| "instr_nats (Return value) = opt_nats value"
| "instr_nats (Param dst _ idx) = [dst, idx]"
| "instr_nats (ConstArray dst _ _) = [dst]"
| "instr_nats (ArrayLoad dst base idx) = [dst, base, idx]"
| "instr_nats (ArrayStore dst base idx value) = [dst, base, idx, value]"
| "instr_nats (While cond_id _ _ live_vars init_ids exit_ids) = cond_id # map snd live_vars @ init_ids @ exit_ids"
| "instr_nats (Break snapshot) = map snd snapshot"
| "instr_nats (Continue snapshot) = map snd snapshot"
| "instr_nats (IfInstr cond_id _ _ then_result _ else_result dst branch_bindings merges) =
     [cond_id, then_result, else_result, dst] @ map snd branch_bindings @ triple_nats merges"
| "instr_nats (VecLoad dst base offset lanes) = [dst, base, offset, lanes]"
| "instr_nats (VecFma dst a b acc lanes) = [dst, a, b, acc, lanes]"
| "instr_nats (VecReduceAdd dst src lanes) = [dst, src, lanes]"
| "instr_nats (VecStore src base offset lanes) = [src, base, offset, lanes]"
| "instr_nats (VecLoadI32 dst base offset lanes) = [dst, base, offset, lanes]"
| "instr_nats (VecMulAddQ16 dst a b acc lanes) = [dst, a, b, acc, lanes]"
| "instr_nats (VecReduceAddI64 dst src lanes) = [dst, src, lanes]"
| "instr_nats (Region _ result enter_id exit_id alloc_ids) = [result, enter_id, exit_id] @ alloc_ids"
| "instr_nats (ExternFnDecl _ _ _ _ _ _) = []"

definition table_fits :: "(value_id \<times> array_type) list \<Rightarrow> bool" where
  "table_fits t \<longleftrightarrow> sorted_wrt (<) (map fst t) \<and> (\<forall>v \<in> set (map fst t). v < 2 ^ 64)"

text \<open>What a Rust value of the type guarantees (64-bit numbers, ordered maps), and at most \<open>d\<close> levels of nesting.\<close>

definition own_fits :: "instr \<Rightarrow> bool" where
  "own_fits i \<longleftrightarrow> (\<forall>n \<in> set (instr_nats i). n < 2 ^ 64) \<and> table_fits (own_value_types i)"

primrec instr_fits :: "nat \<Rightarrow> instr \<Rightarrow> bool" where
  "instr_fits 0 i = False"
| "instr_fits (Suc d) i \<longleftrightarrow> own_fits i \<and> (\<forall>b \<in> set (instr_bodies i). \<forall>j \<in> set b. instr_fits d j)"

definition type_children :: "ast_type \<Rightarrow> ast_type list" where
  "type_children t =
     (case t of
        AtSlice _ element \<Rightarrow> [element]
      | AtArray element _ \<Rightarrow> [element]
      | AtRef _ target \<Rightarrow> [target]
      | AtGeneric _ args \<Rightarrow> args
      | AtTuple elements \<Rightarrow> elements
      | AtSparseTensor _ element _ \<Rightarrow> [element]
      | AtRawPtr _ pointee \<Rightarrow> [pointee]
      | AtFnPtr params ret \<Rightarrow> params @ (case ret of Some r \<Rightarrow> [r] | None \<Rightarrow> [])
      | _ \<Rightarrow> [])"

text \<open>The decoder cannot tell how a tensor type was spelled, and says without angle brackets.\<close>

definition own_type_fits :: "ast_type \<Rightarrow> bool" where
  "own_type_fits t =
     (case t of
        AtTensor _ _ angle \<Rightarrow> \<not> angle
      | AtSparseTensor _ _ shape \<Rightarrow> \<forall>n \<in> set (concat (map dim_nats shape)). n < 2 ^ 64
      | _ \<Rightarrow> True)"

primrec type_fits :: "nat \<Rightarrow> ast_type \<Rightarrow> bool" where
  "type_fits 0 t = False"
| "type_fits (Suc d) t \<longleftrightarrow> own_type_fits t \<and> (\<forall>c \<in> set (type_children t). type_fits d c)"

lemma encode_type_ann_nonempty: "encode_type_ann dbg st t = Some bs \<Longrightarrow> bs \<noteq> []"
  by (cases t) (auto split: bind_splits option.splits)

lemma emit_instr_nonempty: "emit_instr dbg st ver i = Some bs \<Longrightarrow> bs \<noteq> []"
  by (cases i) (auto split: bind_splits)

lemma ucast_u32_u64 [simp]: "ucast (ucast (n :: u32) :: u64) = n"
  by (rule bit_word_eqI) (simp add: bit_simps)

context byte_source
begin

lemma wire3_u8: "wire3 pending good (mic3_read_u8 rd) [b] 0 b"
  unfolding mic3_read_u8_def by (rule wire3_io [OF decodes_read_u8])

lemma wire3_tag: "wire3 pending good (f b) bs c y \<Longrightarrow> wire3 pending good (bindM (mic3_read_u8 rd) f) (b # bs) c y"
  by (rule decodes_bindI [OF wire3_u8]) simp_all

lemma wire3_read_tag:
  assumes "untag b = Some x" "wire3 pending good (f x) bs c y"
  shows "wire3 pending good (bindM (read_tag what untag rd) f) (b # bs) c y"
proof -
  have "wire3 pending good (read_tag what untag rd) [b] 0 x"
    unfolding read_tag_def by (rule wire3_tag) (simp add: assms(1))
  then show ?thesis using assms(2) by (rule decodes_bindI) simp_all
qed

lemmas wire3_tags =
  wire3_read_tag [where untag = byte_to_dtype, OF byte_to_dtype_inv]
  wire3_read_tag [where untag = byte_to_padding, OF byte_to_padding_inv]
  wire3_read_tag [where untag = byte_to_binop, OF byte_to_binop_inv]
  wire3_read_tag [where untag = byte_to_sparse_layout, OF byte_to_sparse_layout_inv]
  wire3_read_tag [where untag = byte_to_callconv, OF byte_to_callconv_inv]

lemma wire3_uleb: "wire3 pending good (read_uleb rd) (uleb128_write v) 0 v"
  unfolding read_uleb_def by (rule wire3_io [OF decodes_uleb128_read])

lemma wire3_usize: "n < 2 ^ 64 \<Longrightarrow> wire3 pending good (read_uleb_usize rd) (write_usize n) 0 n"
  using decodes_map [OF wire3_uleb [of "of_nat n"], of unat] by (simp add: read_uleb_usize_def write_usize_def)

lemma wire3_vid: "v < 2 ^ 64 \<Longrightarrow> wire3 pending good (read_vid rd) (write_vid v) 0 v"
  unfolding read_vid_def write_vid_def by (rule wire3_usize)

lemma wire3_i64: "wire3 pending good (mic3_read_i64 rd) (write_i64 v) 0 v"
  using decodes_map [OF wire3_uleb [of "zigzag_encode v"], of zigzag_decode]
  by (simp add: mic3_read_i64_def write_i64_def zigzag_decode_encode)

lemma wire3_bool: "wire3 pending good (read_bool rd) (write_bool b) 0 b"
  unfolding read_bool_def write_bool_def by (rule wire3_tag) simp

lemma wire3_u64_le: "wire3 pending good (read_u64_le rd) (write_u64_le v) 0 v"
proof -
  have "length (write_u64_le v) = 8" by (simp add: write_u64_le_def)
  with wire3_io [OF decodes_read_exact, of "write_u64_le v"]
  have "wire3 pending good (io3 (read_exact rd 8)) (write_u64_le v) 0 (write_u64_le v)" by simp
  moreover have "from_le (write_u64_le v) = v"
    unfolding write_u64_le_def from_le_bytes by (simp add: take_bit_word_eq_self)
  then have "wire3 pending good (returnM (from_le (write_u64_le v))) [] 0 v" by (simp only: wire3_return)
  ultimately show ?thesis unfolding read_u64_le_def by (rule wire3_free_last)
qed

lemma wire3_count:
  assumes "n \<le> limit" "limit < 2 ^ 64"
  shows "wire3 pending good (read_count rd limit) (write_usize n) 0 n"
  unfolding read_count_def by (rule wire3_last [OF wire3_usize]) (use assms in simp_all)

lemma wire3_string:
  assumes "codec_env limit st" "encode_string_idx dbg st s = Some nb" "s \<in> set (enc_strings st)"
  shows "wire3 pending good (read_string rd (enc_strings st)) nb (length s) s"
proof -
  obtain i where i: "enc_string_map st s = Some i" "i < length (enc_strings st)" "enc_strings st ! i = s"
    using assms(1,3) by (metis codec_env_def encoder_inv_None encoder_inv_def not_None_eq)
  then have nb: "nb = write_usize i" using assms(2) by (simp add: encode_string_idx_def st_get_def)
  have "wire3 pending good (charge_clone s) [] (length s) s"
    by (rule decodesI) (auto simp: charge_clone_def)
  then show ?thesis unfolding read_string_def nb
    by (intro wire3_last [OF wire3_usize]) (use i assms(1) in \<open>simp_all add: codec_env_def\<close>)
qed

lemma wire3_repeat:
  assumes "list_all2 (\<lambda>x bs. wire3 pending good m bs (cost x) x) xs bss"
  shows "wire3 pending good (repeatM (length xs) m) (concat bss) (sum_list (map cost xs)) xs"
  using decodes_repeatM [OF assms] .

lemma wire3_list:
  assumes "codec_env limit st" "\<And>x. f x \<noteq> []" "length (emit_list f xs) \<le> limit"
    and "\<And>x. x \<in> set xs \<Longrightarrow> wire3 pending good m (f x) 0 x"
  shows "wire3 pending good (read_seq rd limit m) (emit_list f xs) 0 xs"
proof -
  have n: "length xs \<le> limit" using emit_list_length [of f xs, OF assms(2)] assms(3) by simp
  have r: "wire3 pending good (repeatM (length xs) m) (concat (map f xs)) (sum_list (map (\<lambda>_. 0) xs)) xs"
    by (rule wire3_repeat) (simp add: list_all2_conv_all_nth assms(4))
  show ?thesis unfolding read_seq_def emit_list_def
    by (rule wire3_then [OF wire3_count [OF n]]) (use r assms(1) in \<open>simp_all add: codec_env_def\<close>)
qed

lemma wire3_seq:
  assumes "codec_env limit st" "emit_seq f xs = Some nb" "\<And>x bs. f x = Some bs \<Longrightarrow> bs \<noteq> []" "length nb \<le> limit"
    and "\<And>x bs. x \<in> set xs \<Longrightarrow> f x = Some bs \<Longrightarrow> length bs \<le> length nb \<Longrightarrow> wire3 pending good m bs (cost x) x"
  shows "wire3 pending good (read_seq rd limit m) nb (sum_list (map cost xs)) xs"
proof -
  have n: "length xs \<le> limit" using emit_seq_length [OF assms(2)] assms(3,4) by (metis le_trans)
  obtain bss where b: "traverse f xs = Some bss" "nb = write_usize (length xs) @ concat bss"
    using assms(2) by (auto simp: emit_seq_def split: bind_splits)
  have "list_all2 (\<lambda>x bs. wire3 pending good m bs (cost x) x) xs bss"
    unfolding list_all2_conv_all_nth
  proof (intro conjI allI impI)
    note t = traverse_SomeD [OF b(1)]
    show "length xs = length bss" by (rule list_all2_lengthD [OF t])
    fix k assume k: "k < length xs"
    then have "f (xs ! k) = Some (bss ! k)" by (rule list_all2_nthD [OF t])
    moreover have "length (bss ! k) \<le> length (concat bss)"
      using k \<open>length xs = length bss\<close> by (simp add: length_concat member_le_sum_list)
    ultimately show "wire3 pending good m (bss ! k) (cost (xs ! k)) (xs ! k)"
      using assms(5) [of "xs ! k" "bss ! k"] k b(2) by simp
  qed
  from wire3_repeat [OF this] show ?thesis unfolding read_seq_def b(2)
    by (intro wire3_then [OF wire3_count [OF n]]) (use assms(1) in \<open>simp_all add: codec_env_def\<close>)
qed

lemma wire3_opt:
  assumes "case v of None \<Rightarrow> bs = [0] | Some x \<Rightarrow> (\<exists>bs'. bs = 1 # bs' \<and> wire3 pending good m bs' c x)"
  shows "wire3 pending good (read_opt what rd m) bs c v"
proof (cases v)
  case None
  then show ?thesis using assms unfolding read_opt_def by (auto intro: wire3_tag)
next
  case (Some x)
  then obtain bs' where bs': "bs = 1 # bs'" "wire3 pending good m bs' c x" using assms by auto
  have "wire3 pending good (bindM m (\<lambda>x. returnM (Some x))) bs' c v"
    by (rule wire3_last [OF bs'(2)]) (simp_all add: Some)
  then show ?thesis unfolding read_opt_def bs'(1) by (intro wire3_tag) simp
qed

subsection \<open>Leaves\<close>

lemma wire3_string_seq:
  assumes "codec_env limit st" "emit_seq (encode_string_idx dbg st) ss = Some nb" "set ss \<subseteq> set (enc_strings st)" "length nb \<le> limit"
  shows "wire3 pending good (read_seq rd limit (read_string rd (enc_strings st))) nb (copy_cost ss) ss"
  unfolding copy_cost_def using assms(1,2) encode_string_idx_nonempty assms(4)
  by (rule wire3_seq) (use assms(1,3) in \<open>auto intro: wire3_string\<close>)

lemma wire3_dim:
  assumes "codec_env limit st" "encode_shape_dim dbg st d = Some nb" "set (dim_refs d) \<subseteq> set (enc_strings st)"
    and "\<forall>n \<in> set (dim_nats d). n < 2 ^ 64"
  shows "wire3 pending good (read_shape_dim rd (enc_strings st)) nb (copy_cost (dim_refs d)) d"
proof (cases d)
  case (Known n)
  then show ?thesis unfolding read_shape_dim_def using assms(2,4)
    by (auto simp: dim_refs_def dim_nats_def intro!: wire3_tag wire3_ret [OF wire3_usize])
next
  case (Sym s)
  then obtain b where "encode_string_idx dbg st s = Some b" "nb = 1 # b" using assms(2) by (auto split: bind_splits)
  with Sym assms(1,3) show ?thesis unfolding read_shape_dim_def
    by (auto simp: dim_refs_def intro!: wire3_tag wire3_ret [OF wire3_string])
qed

lemma wire3_shape:
  assumes "codec_env limit st" "emit_seq (encode_shape_dim dbg st) ds = Some nb"
    and "set (concat (map dim_refs ds)) \<subseteq> set (enc_strings st)" "\<forall>n \<in> set (concat (map dim_nats ds)). n < 2 ^ 64" "length nb \<le> limit"
  shows "wire3 pending good (read_shape rd (enc_strings st) limit) nb (copy_cost (concat (map dim_refs ds))) ds"
proof -
  have n: "\<And>x bs. encode_shape_dim dbg st x = Some bs \<Longrightarrow> bs \<noteq> []"
    by (erule encode_shape_dim.elims) (auto split: bind_splits)
  show ?thesis unfolding read_shape_def copy_cost_concat using assms(1,2) n assms(5)
    by (rule wire3_seq) (use assms(1,3,4) in \<open>auto intro!: wire3_dim\<close>)
qed

lemma wire3_named:
  assumes "codec_env limit st" "encode_named_vids dbg st ps = Some nb"
    and "set (map fst ps) \<subseteq> set (enc_strings st)" "\<forall>n \<in> set (map snd ps). n < 2 ^ 64" "length nb \<le> limit"
  shows "wire3 pending good (read_named_vids rd (enc_strings st) limit) nb (copy_cost (map fst ps)) ps"
proof -
  have n: "\<And>x bs. encode_named_vid dbg st x = Some bs \<Longrightarrow> bs \<noteq> []"
    by (auto simp: encode_named_vid_def split: bind_splits)
  have "wire3 pending good (read_named_vid rd (enc_strings st)) bs (length (fst p)) p"
    if p: "p \<in> set ps" and e: "encode_named_vid dbg st p = Some bs" for p bs
  proof -
    obtain b where b: "encode_string_idx dbg st (fst p) = Some b" "bs = b @ write_vid (snd p)"
      using e by (auto simp: encode_named_vid_def split: bind_splits)
    have "wire3 pending good (bindM (read_vid rd) (\<lambda>v. returnM (fst p, v))) (write_vid (snd p)) (length (fst p) - length (fst p)) (fst p, snd p)"
      by (rule wire3_ret [OF wire3_vid]) (use p assms(4) in auto)
    then show ?thesis unfolding read_named_vid_def b(2)
      by (intro wire3_then [OF wire3_string [OF assms(1) b(1)]]) (use p assms(3) in auto)
  qed
  note p = this
  have "wire3 pending good (read_seq rd limit (read_named_vid rd (enc_strings st))) nb (sum_list (map (\<lambda>p. length (fst p)) ps)) ps"
    using assms(1) assms(2) [unfolded encode_named_vids_def]
    by (rule wire3_seq) (use n assms(5) p in blast)+
  then show ?thesis by (simp add: read_named_vids_def copy_cost_def comp_def)
qed

lemma wire3_vid_vec:
  assumes "codec_env limit st" "length (encode_vid_vec vs) \<le> limit" "\<forall>v \<in> set vs. v < 2 ^ 64"
  shows "wire3 pending good (read_vid_vec rd limit) (encode_vid_vec vs) 0 vs"
  using assms unfolding read_vid_vec_def encode_vid_vec_def by (intro wire3_list) (auto intro: wire3_vid)

lemma wire3_i64_vec:
  assumes "codec_env limit st" "length (encode_i64_vec vs) \<le> limit"
  shows "wire3 pending good (read_i64_vec rd limit) (encode_i64_vec vs) 0 vs"
  using assms unfolding read_i64_vec_def encode_i64_vec_def by (intro wire3_list) (auto intro: wire3_i64)

lemma wire3_i64s:
  assumes "codec_env limit st" "length (emit_list write_i64 vs) \<le> limit"
  shows "wire3 pending good (read_seq rd limit (mic3_read_i64 rd)) (emit_list write_i64 vs) 0 vs"
  using assms by (intro wire3_list) (auto intro: wire3_i64)

lemma wire3_u64s:
  assumes "codec_env limit st" "length (emit_list write_u64_le vs) \<le> limit"
  shows "wire3 pending good (read_seq rd limit (read_u64_le rd)) (emit_list write_u64_le vs) 0 vs"
  using assms by (intro wire3_list) (auto intro: wire3_u64_le)

lemma wire3_triples:
  assumes "codec_env limit st" "length (encode_vid_triples ts) \<le> limit" "\<forall>n \<in> set (triple_nats ts). n < 2 ^ 64"
  shows "wire3 pending good (read_vid_triples rd limit) (encode_vid_triples ts) 0 ts"
  using assms(1) _ assms(2) [unfolded encode_vid_triples_def] unfolding read_vid_triples_def encode_vid_triples_def
proof (rule wire3_list)
  fix t assume "t \<in> set ts"
  then show "wire3 pending good (read_vid_triple rd) (case t of (a, b, c) \<Rightarrow> write_vid a @ write_vid b @ write_vid c) 0 t"
    using assms(3) unfolding read_vid_triple_def triple_nats_def
    by (fastforce split: prod.split intro!: wire3_free [OF wire3_vid] wire3_ret [OF wire3_vid])
qed (auto split: prod.split)

lemma wire3_indices:
  assumes "codec_env limit st" "length (emit_list (\<lambda>ix. write_i64 (ix_axis ix) @ write_i64 (ix_index ix)) is) \<le> limit"
  shows "wire3 pending good (read_seq rd limit (read_index_spec rd)) (emit_list (\<lambda>ix. write_i64 (ix_axis ix) @ write_i64 (ix_index ix)) is) 0 is"
  using assms(1) _ assms(2)
proof (rule wire3_list)
  fix ix :: index_spec
  have "wire3 pending good (read_index_spec rd) (write_i64 (ix_axis ix) @ write_i64 (ix_index ix)) 0
      \<lparr>ix_axis = ix_axis ix, ix_index = ix_index ix\<rparr>"
    unfolding read_index_spec_def by (intro wire3_free [OF wire3_i64] wire3_ret [OF wire3_i64]) simp
  then show "wire3 pending good (read_index_spec rd) (write_i64 (ix_axis ix) @ write_i64 (ix_index ix)) 0 ix" by (cases ix) simp
qed simp

lemma wire3_opt_i64: "wire3 pending good (read_opt_i64 rd) (encode_opt_i64 v) 0 v"
  unfolding read_opt_i64_def encode_opt_i64_def by (rule wire3_opt) (auto intro: wire3_i64 split: option.split)

lemma wire3_opt_f64: "wire3 pending good (read_opt_f64 rd) (encode_opt_f64 v) 0 v"
  unfolding read_opt_f64_def encode_opt_f64_def by (rule wire3_opt) (auto intro: wire3_u64_le split: option.split)

lemma wire3_opt_vid: "\<forall>n \<in> set (opt_nats v). n < 2 ^ 64 \<Longrightarrow> wire3 pending good (read_opt_vid rd) (encode_opt_vid v) 0 v"
  unfolding read_opt_vid_def encode_opt_vid_def by (rule wire3_opt) (auto simp: opt_nats_def intro: wire3_vid split: option.split)

lemma wire3_opt_string:
  assumes "codec_env limit st" "encode_opt_string dbg st v = Some nb" "set (opt_refs v) \<subseteq> set (enc_strings st)"
  shows "wire3 pending good (read_opt_string rd (enc_strings st)) nb (copy_cost (opt_refs v)) v"
  unfolding read_opt_string_def
  by (rule wire3_opt) (use assms in \<open>auto simp: encode_opt_string_def opt_refs_def intro: wire3_string split: option.splits bind_splits\<close>)

lemma wire3_slices:
  assumes "codec_env limit st" "length (emit_list emit_slice_spec ds) \<le> limit"
  shows "wire3 pending good (read_seq rd limit (read_slice_spec rd)) (emit_list emit_slice_spec ds) 0 ds"
  using assms(1) _ assms(2)
proof (rule wire3_list)
  fix d :: slice_spec
  have "wire3 pending good (read_slice_spec rd) (emit_slice_spec d) 0
      \<lparr>ss_axis = ss_axis d, ss_start = ss_start d, ss_end = ss_end d, ss_stride = ss_stride d\<rparr>"
    unfolding read_slice_spec_def emit_slice_spec_def
    by (intro wire3_free [OF wire3_i64] wire3_free [OF wire3_opt_i64] wire3_ret [OF wire3_i64]) simp
  then show "wire3 pending good (read_slice_spec rd) (emit_slice_spec d) 0 d" by (cases d) simp
qed (simp add: emit_slice_spec_def)

lemma wire3_shape4:
  assumes "\<forall>n \<in> set (shape4_nats s). n < 2 ^ 64"
  shows "wire3 pending good (read_shape4 rd) (emit_shape4 s) 0 s"
  using assms unfolding read_shape4_def emit_shape4_def shape4_nats_def
  by (auto split: prod.splits intro!: wire3_free [OF wire3_usize] wire3_ret [OF wire3_usize])

lemma wire3_table_loop:
  assumes "sorted_wrt (<) (map fst t)" "\<forall>v \<in> set (map fst t). v < 2 ^ 64 \<and> (\<forall>p. prev = Some p \<longrightarrow> p < v)"
  shows "wire3 pending good (read_value_types_loop rd prev (length t) acc) (concat (map emit_value_type t)) 0 (acc @ t)"
  using assms
proof (induction t arbitrary: prev acc)
  case (Cons e t)
  obtain v ty where e: "e = (v, ty)" by (cases e)
  let ?rest = "concat (map emit_value_type t)" and ?size = "case at_size ty of Fixed n \<Rightarrow> 0 # uleb128_write n | Dynamic \<Rightarrow> [1]"
  let ?loop = "\<lambda>dt size. read_value_types_loop rd (Some v) (length t) (acc @ [(v, \<lparr>at_elem_dtype = dt, at_size = size\<rparr>)])"
  have size: "wire3 pending good (read_array_size rd) ?size 0 (at_size ty)"
    unfolding read_array_size_def by (cases "at_size ty") (auto intro!: wire3_tag wire3_ret [OF wire3_uleb])
  have "wire3 pending good (?loop (at_elem_dtype ty) (at_size ty)) ?rest 0 (acc @ e # t)"
    using Cons.IH [of "Some v" "acc @ [(v, ty)]"] Cons.prems e by (cases ty) auto
  with size have "wire3 pending good (bindM (read_array_size rd) (?loop (at_elem_dtype ty))) (?size @ ?rest) 0 (acc @ e # t)"
    by (rule wire3_free)
  then have "wire3 pending good (bindM (read_tag ''value_types dtype'' byte_to_dtype rd) (\<lambda>dt. bindM (read_array_size rd) (?loop dt)))
      (dtype_tag (at_elem_dtype ty) # ?size @ ?rest) 0 (acc @ e # t)"
    by (rule wire3_tags)
  moreover have "(case prev of Some p \<Rightarrow> if v \<le> p then failM (Mic3KeysNotAscending v p) else returnM () | None \<Rightarrow> returnM ())
      = (returnM () :: ('r, unit) dec)"
    using Cons.prems(2) e by (auto split: option.split)
  moreover have "emit_value_type e = write_vid v @ dtype_tag (at_elem_dtype ty) # ?size"
    by (simp add: e emit_value_type_def)
  moreover have "v < 2 ^ 64" using Cons.prems(2) e by simp
  ultimately show ?case
    by (auto intro!: wire3_free [OF wire3_vid] wire3_none)
qed simp

lemma wire3_table:
  assumes "codec_env limit st" "table_fits t" "length (emit_value_types_table t) \<le> limit"
  shows "wire3 pending good (read_value_types_table rd limit) (emit_value_types_table t) 0 t"
proof -
  have "length t \<le> limit" using emit_list_length [of emit_value_type t] assms(3)
    by (simp add: emit_value_types_table_def emit_value_type_def)
  then show ?thesis unfolding read_value_types_table_def emit_value_types_table_def emit_list_def
    by (intro wire3_free [OF wire3_count]) (use wire3_table_loop [of t None "[]"] assms(1,2) in \<open>auto simp: table_fits_def codec_env_def\<close>)
qed

subsection \<open>Instructions without bodies\<close>

lemmas wire3_steps =
  wire3_free [OF wire3_vid] wire3_ret [OF wire3_vid] wire3_free [OF wire3_usize] wire3_ret [OF wire3_usize]
  wire3_free [OF wire3_i64] wire3_ret [OF wire3_i64] wire3_ret [OF wire3_u64_le]
  wire3_free [OF wire3_bool] wire3_ret [OF wire3_bool] wire3_tags
  wire3_free [OF wire3_opt_vid] wire3_ret [OF wire3_opt_vid] wire3_free [OF wire3_opt_f64] wire3_ret [OF wire3_opt_f64]

lemma wire3_tensor_instr:
  assumes env: "codec_env limit st" and e: "emit_instr dbg st ver i = Some (op # bs)" and len: "length bs \<le> limit"
    and k: "set (instr_refs i) \<subseteq> set (enc_strings st)" and n: "\<forall>n \<in> set (instr_nats i). n < 2 ^ 64"
    and op: "op < OP_OUTPUT \<or> op = OP_RELU \<or> op = OP_RELU_GRAD \<or> op = OP_CONST_DENSE_TENSOR"
  shows "wire3 pending good (decode_tensor_instr rd (enc_strings st) limit op) bs (copy_cost (instr_refs i)) i"
proof -
  note rules = wire3_steps wire3_free [OF wire3_shape4]
    wire3_then [OF wire3_shape [OF env]] wire3_ret [OF wire3_shape [OF env]]
    wire3_free [OF wire3_i64_vec [OF env]] wire3_ret [OF wire3_i64_vec [OF env]]
    wire3_ret [OF wire3_u64s [OF env]] wire3_ret [OF wire3_indices [OF env]] wire3_ret [OF wire3_slices [OF env]]
  note op_eqs = decode_tensor_instr_def op_defs
  show ?thesis
    apply (insert e len k n op; cases i; (simp split: bind_splits; (elim conjE)?; hypsubst?; (simp add: op_eqs)?))
      apply ((rule rules | assumption | (simp; fail))+)
      done
qed

lemma wire3_flat_instr:
  assumes env: "codec_env limit st" and e: "emit_instr dbg st ver i = Some (op # bs)" and len: "length bs \<le> limit"
    and k: "set (instr_refs i) \<subseteq> set (enc_strings st)" and n: "\<forall>n \<in> set (instr_nats i). n < 2 ^ 64" and m: "\<not> own_metadata i"
    and op: "op \<notin> {OP_FN_DEF, OP_WHILE, OP_IF, OP_REGION}"
  shows "wire3 pending good (decode_scalar_instr rd (enc_strings st) limit op) bs (copy_cost (instr_refs i)) i"
proof -
  note rules = wire3_steps
    wire3_then [OF wire3_string [OF env]] wire3_ret [OF wire3_vid_vec [OF env]] wire3_then [OF wire3_opt_string [OF env]]
    wire3_ret [OF wire3_i64s [OF env]] wire3_then [OF wire3_string_seq [OF env]] wire3_ret [OF wire3_named [OF env]]
  note op_eqs = decode_scalar_instr_def op_defs own_metadata_def
  show ?thesis
  proof (cases "op < OP_OUTPUT \<or> op = OP_RELU \<or> op = OP_RELU_GRAD \<or> op = OP_CONST_DENSE_TENSOR")
    case True
    then have "decode_scalar_instr rd (enc_strings st) limit op = decode_tensor_instr rd (enc_strings st) limit op"
      by (auto simp: decode_scalar_instr_def op_defs)
    then show ?thesis using wire3_tensor_instr [OF env e len k n True] by simp
  next
    case False
    then have f: "op \<notin> {OP_CONST_I64}" by (auto simp: op_defs)
    show ?thesis
      apply (insert False f e len k n op m; cases i; (simp split: bind_splits; (elim conjE)?; hypsubst?; (simp add: op_eqs)?))
      apply ((rule rules | assumption | (simp; fail))+)
      done
  qed
qed

lemma wire3_flag:
  "wire3 pending good (f True) bs c y \<Longrightarrow> wire3 pending good (bindM (read_bool rd) f) (1 # bs) c y"
  "wire3 pending good (f False) bs c y \<Longrightarrow> wire3 pending good (bindM (read_bool rd) f) (0 # bs) c y"
  using wire3_free [where f = f, OF wire3_bool] by (fastforce simp: write_bool_def)+

subsection \<open>Type annotations\<close>

lemma wire3_type:
  assumes env: "codec_env limit st"
  shows "type_fits d t \<Longrightarrow> encode_type_ann dbg st t = Some bs \<Longrightarrow> length bs \<le> limit \<Longrightarrow>
    set (type_refs t) \<subseteq> set (enc_strings st) \<Longrightarrow>
    wire3 pending good (read_type_ann rd (enc_strings st) limit d) bs (copy_cost (type_refs t)) t"
proof (induction d arbitrary: t bs)
  case (Suc d)
  have seq: "wire3 pending good (read_seq rd limit (read_type_ann rd (enc_strings st) limit d)) nb (copy_cost (concat (map type_refs ts))) ts"
    if "emit_seq (encode_type_ann dbg st) ts = Some nb" "\<forall>t \<in> set ts. type_fits d t" "length nb \<le> limit"
      "set (concat (map type_refs ts)) \<subseteq> set (enc_strings st)" for ts nb
    unfolding copy_cost_concat
    by (rule wire3_seq [OF env that(1) _ that(3)], erule encode_type_ann_nonempty, rule Suc.IH) (use that in auto)
  note rules = wire3_free [OF wire3_bool] wire3_flag wire3_tags wire3_ret [OF Suc.IH] wire3_then [OF Suc.IH]
    wire3_ret [OF seq] wire3_then [OF seq] wire3_then [OF wire3_string [OF env]] wire3_ret [OF wire3_string [OF env]]
    wire3_ret [OF wire3_string_seq [OF env]] wire3_ret [OF wire3_shape [OF env]]
  note eqs = encode_dims_def own_type_fits_def type_children_def
  show ?case
  proof (cases "\<exists>element len. t = AtArray element len")
    case True
    then obtain element len where AtArray: "t = AtArray element len" by blast
    then obtain b where b: "encode_type_ann dbg st element = Some b" "bs = 0x0B # uleb128_write (ucast len) @ b"
      using Suc.prems(2) by (auto split: bind_splits)
    have "wire3 pending good (read_type_ann rd (enc_strings st) limit d) b (copy_cost (type_refs element)) element"
      using b Suc.prems AtArray by (intro Suc.IH) (auto simp: eqs)
    then have "wire3 pending good (bindM (read_type_ann rd (enc_strings st) limit d) (\<lambda>e. returnM (AtArray e len))) b
        (copy_cost (type_refs element)) (AtArray element len)"
      by (rule wire3_ret) simp
    then show ?thesis unfolding AtArray b(2) by (auto intro!: wire3_tag wire3_free [OF wire3_uleb])
  next
    case False
    show ?thesis
      apply (insert False Suc.prems)
      apply (cases t; simp add: eqs split: bind_splits option.splits; (elim conjE)?; hypsubst?; rule wire3_tag; simp?)
      apply ((rule rules | assumption | (simp; fail) | simp only: if_True if_False)+)
      done
  qed
qed simp

subsection \<open>Instructions\<close>

lemma wire3_scoped_table:
  assumes "codec_env limit st" "(if MIC3_VERSION \<le> ver then Some (emit_value_types_table vts) else if vts = [] then Some [] else None) = Some bs"
    and "table_fits vts" "length bs \<le> limit"
  shows "wire3 pending good (if MIC3_VERSION \<le> ver then read_value_types_table rd limit else returnM []) bs 0 vts"
  using assms by (auto intro: wire3_table split: if_splits)

lemma wire3_instr:
  assumes env: "codec_env limit st" and v: "0x02 \<le> ver"
  shows "instr_fits d i \<Longrightarrow> \<not> instr_metadata i \<Longrightarrow> emit_instr dbg st ver i = Some bs \<Longrightarrow> length bs \<le> limit \<Longrightarrow>
    set (instr_refs i) \<subseteq> set (enc_strings st) \<Longrightarrow>
    wire3 pending good (decode_instr rd (enc_strings st) limit ver d) bs (copy_cost (instr_refs i)) i"
proof (induction d arbitrary: i bs)
  case (Suc d)
  have seq: "wire3 pending good (read_seq rd limit (decode_instr rd (enc_strings st) limit ver d)) nb (copy_cost (concat (map instr_refs is))) is"
    if "emit_seq (emit_instr dbg st ver) is = Some nb" "\<forall>i \<in> set is. instr_fits d i \<and> \<not> instr_metadata i" "length nb \<le> limit"
      "set (concat (map instr_refs is)) \<subseteq> set (enc_strings st)" for "is" nb
    unfolding copy_cost_concat
    by (rule wire3_seq [OF env that(1) _ that(3)], erule emit_instr_nonempty, rule Suc.IH) (use that in auto)
  note rules = wire3_steps wire3_then [OF seq] wire3_then [OF wire3_string [OF env]] wire3_then [OF wire3_named [OF env]]
    wire3_free [OF wire3_vid_vec [OF env]] wire3_ret [OF wire3_vid_vec [OF env]] wire3_ret [OF wire3_triples [OF env]]
    wire3_ret [OF wire3_scoped_table [OF env]]
  note eqs = own_fits_def instr_bodies_def own_value_types_def own_metadata_def
  obtain op bs' where bs: "bs = op # bs'" using Suc.prems(3) by (cases bs) (auto dest: emit_instr_nonempty)
  have md: "\<not> own_metadata i" "\<forall>b \<in> set (instr_bodies i). \<forall>j \<in> set b. \<not> instr_metadata j"
    using Suc.prems(2) by (subst (asm) instr_metadata.simps; blast)+
  show ?case unfolding bs decode_instr.simps
  proof (rule wire3_tag, goal_cases)
    case 1
    show ?case
    proof (cases "op \<in> {OP_FN_DEF, OP_WHILE, OP_IF, OP_REGION}")
      case False
      then show ?thesis using wire3_flat_instr [OF env Suc.prems(3) [unfolded bs]] Suc.prems md bs by (simp add: own_fits_def)
    next
      case True
      show ?thesis
        apply (insert True bs Suc.prems(1,3-) md v)
        apply (cases i; simp add: eqs split: bind_splits split del: if_split; (elim conjE)?; hypsubst?; (simp add: op_defs split del: if_split)?)
        apply ((rule rules | assumption | (simp; fail))+)
        done
    qed
  qed
qed simp

end

end
