(* ===== verification/Mic3_Module.thy ===== *)
theory Mic3_Module
  imports Mic3_Roundtrip
begin

text \<open>
  The mic\<^verbatim>\<open>@\<close>3 format on whole modules: the emitter's string table holds every string a module refers to, so
  the emitter returns for every module, and the strict decoder gives back what was emitted.
\<close>

subsection \<open>The string table\<close>

lemma intern_all_simps [simp]:
  "intern_all [] st = st" "intern_all (s # ss) st = intern_all ss (snd (intern st s))"
  "intern_all (ss @ ts) st = intern_all ts (intern_all ss st)"
  by (simp_all add: intern_all_def)

lemma fold_intern_all:
  "(\<And>x st. x \<in> set xs \<Longrightarrow> f x st = intern_all (g x) st) \<Longrightarrow> fold f xs st = intern_all (concat (map g xs)) st"
  by (induction xs arbitrary: st) simp_all

lemma intern_dims_all: "intern_dims shape st = intern_all (concat (map dim_refs shape)) st"
  unfolding intern_dims_def by (rule fold_intern_all) (simp add: dim_refs_def split: shape_dim.split)

lemma intern_opt_all: "intern_opt s st = intern_all (opt_refs s) st"
  by (simp add: intern_opt_def opt_refs_def split: option.split)

lemma collect_instr_all: "collect_instr_strings i st = intern_all (instr_refs i) st"
proof (induction i arbitrary: st rule: measure_induct_rule [of size])
  case (less i)
  have body: "fold collect_instr_strings b st = intern_all (concat (map instr_refs b)) st" if "b \<in> set (instr_bodies i)" for b st
  proof (rule fold_intern_all, rule less)
    fix j assume "j \<in> set b"
    then have "size j \<le> size_list size b" by (rule size_list_estimation') simp
    with size_instr_bodies [OF that] show "size j < size i" by simp
  qed
  then show ?case
    by (cases i) (simp_all add: instr_bodies_def intern_dims_all intern_opt_all intern_names_def)
qed

lemma size_type_children: "c \<in> set (type_children t) \<Longrightarrow> size c < size t"
  by (cases t) (auto simp: type_children_def size_list_estimation' less_Suc_eq_le trans_le_add1 split: option.splits)

lemma collect_type_all: "collect_type_ann_strings t st = intern_all (type_refs t) st"
proof (induction t arbitrary: st rule: measure_induct_rule [of size])
  case (less t)
  have one: "collect_type_ann_strings c st = intern_all (type_refs c) st" if "c \<in> set (type_children t)" for c st
    by (rule less [OF size_type_children [OF that]])
  have many: "fold collect_type_ann_strings cs st = intern_all (concat (map type_refs cs)) st" if "set cs \<subseteq> set (type_children t)" for cs st
    by (rule fold_intern_all, rule one) (use that in blast)
  show ?case
    by (cases t) (simp_all add: one many type_children_def intern_dims_all split: option.split)
qed

definition module_refs :: "'x mic3_module_scheme \<Rightarrow> string list" where
  "module_refs m =
     concat (map instr_refs (instrs m)) @ sorted_exports (exports m) @ concat (map (\<lambda>d. fst d # snd d) (m_struct_defs m)) @
     map fst (m_const_array_defs m) @ concat (map (\<lambda>d. fst d # concat (map type_refs (snd d))) (m_repr_c_structs m))"

lemma string_table_all: "mic3_string_table m = intern_all (module_refs m) encoder_new"
proof -
  have "collect_strings is st = intern_all (concat (map instr_refs is)) st" for "is" st
    unfolding collect_strings_def by (rule fold_intern_all) (rule collect_instr_all)
  moreover have "collect_struct_def_strings ds st = intern_all (concat (map (\<lambda>d. fst d # snd d) ds)) st" for ds st
    unfolding collect_struct_def_strings_def by (rule fold_intern_all) (auto split: prod.split)
  moreover have "collect_repr_c_strings rs st = intern_all (concat (map (\<lambda>d. fst d # concat (map type_refs (snd d))) rs)) st" for rs st
  proof -
    have "fold collect_type_ann_strings ts st = intern_all (concat (map type_refs ts)) st" for ts st
      by (rule fold_intern_all) (rule collect_type_all)
    then show ?thesis unfolding collect_repr_c_strings_def by (intro fold_intern_all) (auto split: prod.split)
  qed
  ultimately show ?thesis
    by (simp add: mic3_string_table_def module_refs_def collect_export_strings_def collect_const_array_def_strings_def)
qed

lemma string_table_tracks: "encoder_inv (mic3_string_table m)" "set (enc_strings (mic3_string_table m)) = set (module_refs m)"
proof -
  have "enc.tracks encoder_new {}" by (simp add: enc.tracks_def enc.knows_def) (simp add: encoder_new_def)
  from tracks_intern_all [OF this, of "module_refs m"]
  show "encoder_inv (mic3_string_table m)" "set (enc_strings (mic3_string_table m)) = set (module_refs m)"
    by (simp_all add: string_table_all enc.tracks_def enc.knows_def)
qed

subsection \<open>The emitter returns\<close>

definition known :: "encoder \<Rightarrow> string \<Rightarrow> bool" where
  "known st s \<longleftrightarrow> encoder_inv st \<and> s \<in> set (enc_strings st)"

definition interned :: "encoder \<Rightarrow> string list \<Rightarrow> bool" where
  "interned st ss \<longleftrightarrow> (\<forall>s \<in> set ss. known st s)"

lemma interned_simps [simp]:
  "interned st []" "interned st (s # ss) \<longleftrightarrow> known st s \<and> interned st ss"
  "interned st (ss @ ts) \<longleftrightarrow> interned st ss \<and> interned st ts"
  by (auto simp: interned_def)

lemma interned_concat: "interned st (concat (map f xs)) \<Longrightarrow> x \<in> set xs \<Longrightarrow> interned st (f x)"
  by (auto simp: interned_def)

lemma encode_string_idx_returns: "known st s \<Longrightarrow> \<exists>bs. encode_string_idx dbg st s = Some bs"
  using encoder_inv_None [of st s] by (auto simp: known_def encode_string_idx_def st_get_def split: option.split)

lemma emit_seq_returns: "(\<And>x. x \<in> set xs \<Longrightarrow> \<exists>bs. f x = Some bs) \<Longrightarrow> \<exists>bs. emit_seq f xs = Some bs"
  using traverse_total [of xs f] by (auto simp: emit_seq_def)

lemma emit_strings_return: "interned st ss \<Longrightarrow> \<exists>bs. emit_seq (encode_string_idx dbg st) ss = Some bs"
  by (rule emit_seq_returns, rule encode_string_idx_returns) (auto simp: interned_def)

lemma bind_returns: "\<exists>b. m = Some b \<Longrightarrow> (\<And>b. \<exists>c. f b = Some c) \<Longrightarrow> \<exists>c. Option.bind m f = Some c"
  by fastforce

lemma emit_dims_return: "interned st (concat (map dim_refs ds)) \<Longrightarrow> \<exists>bs. emit_seq (encode_shape_dim dbg st) ds = Some bs"
proof (rule emit_seq_returns)
  fix d assume "interned st (concat (map dim_refs ds))" "d \<in> set ds"
  then have "interned st (dim_refs d)" by (rule interned_concat)
  then show "\<exists>bs. encode_shape_dim dbg st d = Some bs"
    by (cases d) (auto simp: dim_refs_def intro!: bind_returns encode_string_idx_returns)
qed

lemma emit_named_return: "interned st (map fst ps) \<Longrightarrow> \<exists>bs. encode_named_vids dbg st ps = Some bs"
  unfolding encode_named_vids_def
proof (rule emit_seq_returns)
  fix p assume "interned st (map fst ps)" "p \<in> set ps"
  then have "known st (fst p)" by (auto simp: interned_def)
  then show "\<exists>bs. encode_named_vid dbg st p = Some bs"
    unfolding encode_named_vid_def by (intro bind_returns encode_string_idx_returns) simp_all
qed

lemma emit_opt_return: "interned st (opt_refs s) \<Longrightarrow> \<exists>bs. encode_opt_string dbg st s = Some bs"
  by (cases s) (auto simp: encode_opt_string_def opt_refs_def intro!: bind_returns encode_string_idx_returns)

lemma encode_type_returns: "interned st (type_refs t) \<Longrightarrow> \<exists>bs. encode_type_ann dbg st t = Some bs"
proof (induction t rule: measure_induct_rule [of size])
  case (less t)
  have one: "\<exists>bs. encode_type_ann dbg st c = Some bs" if "interned st (type_refs c)" "c \<in> set (type_children t)" for c
    by (rule less.IH [OF size_type_children [OF that(2)] that(1)])
  have many: "\<exists>bs. emit_seq (encode_type_ann dbg st) cs = Some bs"
    if "interned st (concat (map type_refs cs))" "set cs \<subseteq> set (type_children t)" for cs
  proof (rule emit_seq_returns, rule one)
    fix c assume "c \<in> set cs"
    with that show "interned st (type_refs c)" "c \<in> set (type_children t)" by (auto intro: interned_concat)
  qed
  note rules = bind_returns one many encode_string_idx_returns emit_strings_return emit_dims_return
  show ?case
    apply (insert less.prems)
    apply (cases t; simp add: encode_dims_def split: option.split; (elim conjE)?; (intro conjI impI allI)?; simp?)
    apply ((rule rules | assumption | (simp add: type_children_def subset_iff; fail))+)
    done
qed

text \<open>The assertion on value-type tables never fires: version 3 is chosen as soon as one is present.\<close>

lemma table_returns: "c \<or> vts = [] \<Longrightarrow> \<exists>b. (if c then Some t else if vts = [] then Some [] else None) = Some b"
  by auto

lemma emit_instr_returns:
  "interned st (instr_refs i) \<Longrightarrow> MIC3_VERSION \<le> ver \<or> \<not> instr_has_value_types i \<Longrightarrow> \<exists>bs. emit_instr dbg st ver i = Some bs"
proof (induction i rule: measure_induct_rule [of size])
  case (less i)
  have vt: "MIC3_VERSION \<le> ver \<or> own_value_types i = []"
    and nested: "MIC3_VERSION \<le> ver \<or> (\<forall>b \<in> set (instr_bodies i). \<forall>j \<in> set b. \<not> instr_has_value_types j)"
    using less.prems(2) by (subst (asm) instr_has_value_types.simps; blast)+
  have body: "\<exists>bs. emit_seq (emit_instr dbg st ver) b = Some bs"
    if r: "interned st (concat (map instr_refs b))" and b: "b \<in> set (instr_bodies i)" for b
  proof (rule emit_seq_returns, rule less.IH)
    fix j assume j: "j \<in> set b"
    then have "size j \<le> size_list size b" by (rule size_list_estimation') simp
    with size_instr_bodies [OF b] show "size j < size i" by simp
    show "interned st (instr_refs j)" by (rule interned_concat [OF r j])
    show "MIC3_VERSION \<le> ver \<or> \<not> instr_has_value_types j" using nested b j by blast
  qed
  note rules = bind_returns body encode_string_idx_returns emit_strings_return emit_dims_return emit_named_return
    emit_opt_return table_returns
  show ?case
    apply (insert less.prems(1) vt)
    apply (cases i; simp add: own_value_types_def split del: if_split; (elim conjE)?)
    apply ((rule rules | assumption | (simp add: instr_bodies_def; fail))+)
    done
qed

lemma emit_legacy_returns: "\<exists>bs. emit_mic3_legacy dbg m = Some bs"
proof -
  let ?st = "mic3_string_table m"
  have r: "interned ?st (module_refs m)" by (simp add: interned_def known_def string_table_tracks)
  have ver: "MIC3_VERSION \<le> mic3_version m \<or> \<not> instr_has_value_types i" if "i \<in> set (instrs m)" for i
    using that by (auto simp: mic3_version_def has_scoped_value_types_def instrs_have_scoped_value_types_def)
  have "\<exists>bs. emit_seq (emit_struct_def dbg ?st) (m_struct_defs m) = Some bs"
    by (rule emit_seq_returns) (use r in \<open>auto simp: emit_struct_def_def module_refs_def dest!: interned_concat
      intro!: bind_returns encode_string_idx_returns emit_strings_return\<close>)
  moreover have "\<exists>bs. emit_seq (emit_const_array_def dbg ?st) (m_const_array_defs m) = Some bs"
    by (rule emit_seq_returns) (use r in \<open>auto simp: interned_def emit_const_array_def_def module_refs_def
      intro!: bind_returns encode_string_idx_returns\<close>)
  moreover have "\<exists>bs. emit_seq (emit_repr_c_struct dbg ?st) (m_repr_c_structs m) = Some bs"
    by (rule emit_seq_returns) (use r in \<open>auto simp: emit_repr_c_struct_def module_refs_def dest!: interned_concat
      intro!: bind_returns encode_string_idx_returns emit_seq_returns encode_type_returns dest: interned_concat\<close>)
  moreover have "\<exists>bs. emit_seq (emit_instr dbg ?st (mic3_version m)) (instrs m) = Some bs"
    by (rule emit_seq_returns, rule emit_instr_returns) (use r ver in \<open>auto simp: module_refs_def dest!: interned_concat\<close>)
  moreover have "\<exists>bs. emit_seq (encode_string_idx dbg ?st) (sorted_exports (exports m)) = Some bs"
    using r by (intro emit_strings_return) (simp add: module_refs_def)
  ultimately show ?thesis unfolding emit_mic3_legacy_def Let_def by (intro bind_returns) simp_all
qed

subsection \<open>Decoding what was emitted\<close>

definition registry :: "(string \<times> 'a) list \<Rightarrow> bool" where
  "registry xs \<longleftrightarrow> sorted_wrt (<) (map fst xs)"

text \<open>
  What holds of every Rust module (numbers of 64 bits, valid strings, ordered maps), and the limits of the
  format: nesting of at most 256 levels, and tensor types spelled without angle brackets.
\<close>

definition mic3_fits :: "mic3_module \<Rightarrow> bool" where
  "mic3_fits m \<longleftrightarrow>
     (\<forall>i \<in> set (instrs m). instr_fits MAX_MIC3_DEPTH i) \<and> next_id m < 2 ^ 64 \<and> finite (exports m) \<and>
     registry (m_struct_defs m) \<and> registry (m_const_array_defs m) \<and> registry (m_repr_c_structs m) \<and>
     (\<forall>(name, fields) \<in> set (m_repr_c_structs m). \<forall>t \<in> set fields. type_fits MAX_MIC3_DEPTH t) \<and>
     table_fits (m_value_types m) \<and> (\<forall>s \<in> set (module_refs m). valid_string s)"

lemma btree_insert_last: "(\<forall>k' \<in> set (map fst xs). k' < k) \<Longrightarrow> btree_insert k v xs = xs @ [(k, v)]"
  by (induction xs) auto

lemma btree_of_registry: "registry xs \<Longrightarrow> btree_of xs = xs"
proof (induction xs rule: rev_induct)
  case (snoc x xs)
  then have "registry xs" "\<forall>k \<in> set (map fst xs). k < fst x" by (auto simp: registry_def sorted_wrt_append)
  with snoc.IH show ?case by (cases x) (simp add: btree_of_def btree_insert_last)
qed (simp add: btree_of_def)

lemma emit_seq_Some: "emit_seq (\<lambda>x. Some (f x)) xs = Some (emit_list f xs)"
proof -
  have "traverse (\<lambda>x. Some (f x)) xs = Some (map f xs)" by (induction xs) simp_all
  then show ?thesis by (simp add: emit_seq_def emit_list_def)
qed

context byte_source
begin

lemma wire3_header:
  "ver = MIC3_VERSION \<or> ver = MIC3_VERSION_BASE \<Longrightarrow> wire3 pending good (read_mic3_header rd) (MIC3_MAGIC @ [ver]) 0 ver"
proof -
  assume v: "ver = MIC3_VERSION \<or> ver = MIC3_VERSION_BASE"
  have l: "length MIC3_MAGIC = 4" by (simp add: MIC3_MAGIC_def)
  have "wire3 pending good (io3 (read_exact rd 4)) MIC3_MAGIC 0 MIC3_MAGIC"
    using wire3_io [OF decodes_read_exact, of MIC3_MAGIC] l by simp
  then show ?thesis unfolding read_mic3_header_def
    by (rule wire3_free) (use v in \<open>auto simp: MIC3_MIN_READ_VERSION_def MIC3_VERSION_def MIC3_VERSION_BASE_def intro: wire3_tag\<close>)
qed

lemma wire3_string_entry:
  assumes "valid_string s" "length s \<le> limit" "limit < 2 ^ 64"
  shows "wire3 pending good (read_string_entry rd limit) (emit_string_entry s) 0 s"
proof -
  have "wire3 pending good (io3 (read_exact rd (length s))) (as_bytes s) 0 (as_bytes s)"
    using wire3_io [OF decodes_read_exact [of "as_bytes s"]] by simp
  then show ?thesis unfolding read_string_entry_def emit_string_entry_def
    by (intro wire3_free [OF wire3_usize]) (use assms in \<open>auto intro: wire3_free_last\<close>)
qed

lemma wire3_strings:
  assumes "codec_env limit st" "length (emit_list emit_string_entry ss) \<le> limit" "\<forall>s \<in> set ss. valid_string s"
  shows "wire3 pending good (read_seq rd limit (read_string_entry rd limit)) (emit_list emit_string_entry ss) 0 ss"
proof -
  have "wire3 pending good (read_seq rd limit (read_string_entry rd limit)) (emit_list emit_string_entry ss) (sum_list (map (\<lambda>_. 0) ss)) ss"
  proof (rule wire3_seq [OF assms(1) emit_seq_Some _ assms(2)])
    fix s bs assume "s \<in> set ss" "Some (emit_string_entry s) = Some bs" "length bs \<le> length (emit_list emit_string_entry ss)"
    moreover from this have "length s \<le> limit" using assms(2) by (auto simp: emit_string_entry_def)
    ultimately show "wire3 pending good (read_string_entry rd limit) bs 0 s"
      using assms(1,3) wire3_string_entry [of s limit] by (simp add: codec_env_def)
  qed (auto simp: emit_string_entry_def)
  then show ?thesis by simp
qed

lemma wire3_entry:
  assumes "codec_env limit st" "encode_string_idx dbg st name = Some n" "name \<in> set (enc_strings st)"
    and "wire3 pending good (read_seq rd limit m) bs c xs"
  shows "wire3 pending good (read_entry rd (enc_strings st) limit m) (n @ bs) (length name + c) (name, xs)"
  unfolding read_entry_def
  by (rule wire3_then [OF wire3_string [OF assms(1-3)]]) (use assms(4) in \<open>auto intro: wire3_ret\<close>)

lemma wire3_struct_defs:
  assumes env: "codec_env limit st" and e: "emit_seq (emit_struct_def dbg st) ds = Some nb" and len: "length nb \<le> limit"
    and k: "set (concat (map (\<lambda>d. fst d # snd d) ds)) \<subseteq> set (enc_strings st)"
  shows "wire3 pending good (read_seq rd limit (read_entry rd (enc_strings st) limit (read_string rd (enc_strings st)))) nb
    (copy_cost (concat (map (\<lambda>d. fst d # snd d) ds))) ds"
  unfolding copy_cost_concat
proof (rule wire3_seq [OF env e _ len])
  fix d bs assume d: "d \<in> set ds" "emit_struct_def dbg st d = Some bs" "length bs \<le> length nb"
  then obtain n fs where b: "encode_string_idx dbg st (fst d) = Some n" "emit_seq (encode_string_idx dbg st) (snd d) = Some fs" "bs = n @ fs"
    by (auto simp: emit_struct_def_def split: bind_splits)
  have "wire3 pending good (read_seq rd limit (read_string rd (enc_strings st))) fs (copy_cost (snd d)) (snd d)"
    by (rule wire3_string_seq [OF env b(2)]) (use d k len b in auto)
  from wire3_entry [OF env b(1) _ this] d k b(3)
  show "wire3 pending good (read_entry rd (enc_strings st) limit (read_string rd (enc_strings st))) bs
      (copy_cost (fst d # snd d)) d"
    by auto
qed (auto simp: emit_struct_def_def dest: encode_string_idx_nonempty split: bind_splits)

lemma wire3_const_arrays:
  assumes env: "codec_env limit st" and e: "emit_seq (emit_const_array_def dbg st) ds = Some nb" and len: "length nb \<le> limit"
    and k: "set (map fst ds) \<subseteq> set (enc_strings st)"
  shows "wire3 pending good (read_seq rd limit (read_entry rd (enc_strings st) limit (mic3_read_i64 rd))) nb (copy_cost (map fst ds)) ds"
proof -
  have "wire3 pending good (read_seq rd limit (read_entry rd (enc_strings st) limit (mic3_read_i64 rd))) nb (sum_list (map (\<lambda>d. length (fst d)) ds)) ds"
  proof (rule wire3_seq [OF env e _ len])
    fix d bs assume d: "d \<in> set ds" "emit_const_array_def dbg st d = Some bs" "length bs \<le> length nb"
    then obtain n where b: "encode_string_idx dbg st (fst d) = Some n" "bs = n @ emit_list write_i64 (snd d)"
      by (auto simp: emit_const_array_def_def split: bind_splits)
    have "wire3 pending good (read_seq rd limit (mic3_read_i64 rd)) (emit_list write_i64 (snd d)) 0 (snd d)"
      by (rule wire3_i64s [OF env]) (use d b len in simp)
    from wire3_entry [OF env b(1) _ this] d k b(2)
    show "wire3 pending good (read_entry rd (enc_strings st) limit (mic3_read_i64 rd)) bs (length (fst d)) d" by auto
  qed (auto simp: emit_const_array_def_def dest: encode_string_idx_nonempty split: bind_splits)
  then show ?thesis by (simp add: copy_cost_def comp_def)
qed

lemma wire3_repr_c:
  assumes env: "codec_env limit st" and e: "emit_seq (emit_repr_c_struct dbg st) ds = Some nb" and len: "length nb \<le> limit"
    and k: "set (concat (map (\<lambda>d. fst d # concat (map type_refs (snd d))) ds)) \<subseteq> set (enc_strings st)"
    and fits: "\<forall>(name, fields) \<in> set ds. \<forall>t \<in> set fields. type_fits d0 t"
  shows "wire3 pending good (read_seq rd limit (read_entry rd (enc_strings st) limit (read_type_ann rd (enc_strings st) limit d0))) nb
    (copy_cost (concat (map (\<lambda>d. fst d # concat (map type_refs (snd d))) ds))) ds"
  unfolding copy_cost_concat [where xs = ds]
proof (rule wire3_seq [OF env e _ len])
  fix d bs assume d: "d \<in> set ds" "emit_repr_c_struct dbg st d = Some bs" "length bs \<le> length nb"
  obtain name ts where nt: "d = (name, ts)" by (cases d)
  obtain n fs where b: "encode_string_idx dbg st name = Some n" "emit_seq (encode_type_ann dbg st) ts = Some fs" "bs = n @ fs"
    using d(2) nt by (auto simp: emit_repr_c_struct_def split: bind_splits)
  have kd: "name \<in> set (enc_strings st)" "set (concat (map type_refs ts)) \<subseteq> set (enc_strings st)"
    using k d(1) nt by force+
  have "wire3 pending good (read_seq rd limit (read_type_ann rd (enc_strings st) limit d0)) fs (copy_cost (concat (map type_refs ts))) ts"
    unfolding copy_cost_concat
  proof (rule wire3_seq [OF env b(2)], erule encode_type_ann_nonempty)
    show "length fs \<le> limit" using d(3) b(3) len by simp
    fix t tb assume t: "t \<in> set ts" "encode_type_ann dbg st t = Some tb" "length tb \<le> length fs"
    show "wire3 pending good (read_type_ann rd (enc_strings st) limit d0) tb (copy_cost (type_refs t)) t"
      by (rule wire3_type [OF env _ t(2)]) (use t d(1,3) b(3) len kd(2) fits nt in auto)
  qed
  from wire3_entry [OF env b(1) kd(1) this]
  show "wire3 pending good (read_entry rd (enc_strings st) limit (read_type_ann rd (enc_strings st) limit d0)) bs
      (copy_cost (fst d # concat (map type_refs (snd d)))) d"
    by (simp add: nt b(3))
qed (auto simp: emit_repr_c_struct_def dest: encode_string_idx_nonempty split: bind_splits)

lemma wire3_module:
  assumes fits: "mic3_fits m" and c: "canonical_types m = None" and md: "\<not> instruction_metadata_present (instrs m)"
    and e: "emit_mic3_legacy dbg m = Some bs"
    and limit: "length bs \<le> limit" "limit < 2 ^ 64" and n: "next_id m \<le> saturating_mul limit 1024"
  shows "wire3 pending good (read_mic3_module rd limit) bs (copy_cost (module_refs m)) m"
proof -
  let ?st = "mic3_string_table m" and ?ver = "mic3_version m"
  let ?ss = "enc_strings ?st"
  obtain es ib sd ca rc where p: "emit_seq (encode_string_idx dbg ?st) (sorted_exports (exports m)) = Some es"
      "emit_seq (emit_instr dbg ?st ?ver) (instrs m) = Some ib" "emit_seq (emit_struct_def dbg ?st) (m_struct_defs m) = Some sd"
      "emit_seq (emit_const_array_def dbg ?st) (m_const_array_defs m) = Some ca"
      "emit_seq (emit_repr_c_struct dbg ?st) (m_repr_c_structs m) = Some rc"
    and bs: "bs = (MIC3_MAGIC @ [?ver]) @ emit_list emit_string_entry ?ss @ write_usize (next_id m) @ es @ ib @ sd @ ca @ rc @
        (if MIC3_VERSION \<le> ?ver then emit_value_types_table (m_value_types m) else [])"
    using e by (auto simp: emit_mic3_legacy_def Let_def split: bind_splits)
  have "length ?ss \<le> length bs" using emit_list_length [of emit_string_entry ?ss] bs by (auto simp: emit_string_entry_def)
  then have env: "codec_env limit ?st" using limit by (simp add: codec_env_def string_table_tracks)
  have k: "set (module_refs m) \<subseteq> set ?ss" by (simp add: string_table_tracks)
  have ver: "?ver = MIC3_VERSION \<or> ?ver = MIC3_VERSION_BASE" and v2: "0x02 \<le> ?ver"
    by (simp_all add: mic3_version_def MIC3_VERSION_def MIC3_VERSION_BASE_def)
  have strings: "wire3 pending good (read_seq rd limit (read_string_entry rd limit)) (emit_list emit_string_entry ?ss) 0 ?ss"
    by (rule wire3_strings [OF env]) (use fits bs limit in \<open>auto simp: mic3_fits_def string_table_tracks\<close>)
  have next_id: "wire3 pending good (read_next_id rd limit) (write_usize (next_id m)) 0 (next_id m)"
    unfolding read_next_id_def by (rule wire3_last [OF wire3_usize]) (use fits n in \<open>simp_all add: mic3_fits_def\<close>)
  have exports: "wire3 pending good (read_seq rd limit (read_string rd ?ss)) es (copy_cost (sorted_exports (exports m))) (sorted_exports (exports m))"
    by (rule wire3_string_seq [OF env p(1)]) (use k bs limit in \<open>auto simp: module_refs_def\<close>)
  have stream: "wire3 pending good (read_seq rd limit (decode_instr rd ?ss limit ?ver MAX_MIC3_DEPTH)) ib
      (copy_cost (concat (map instr_refs (instrs m)))) (instrs m)"
    unfolding copy_cost_concat
  proof (rule wire3_seq [OF env p(2)], erule emit_instr_nonempty)
    show "length ib \<le> limit" using bs limit by simp
    fix i ibs assume i: "i \<in> set (instrs m)" "emit_instr dbg ?st ?ver i = Some ibs" "length ibs \<le> length ib"
    have "set (instr_refs i) \<subseteq> set ?ss" using k i(1) by (auto simp: module_refs_def)
    moreover have "instr_fits MAX_MIC3_DEPTH i" "\<not> instr_metadata i"
      using fits md i(1) by (auto simp: mic3_fits_def instruction_metadata_present_def)
    ultimately show "wire3 pending good (decode_instr rd ?ss limit ?ver MAX_MIC3_DEPTH) ibs (copy_cost (instr_refs i)) i"
      using i(2,3) \<open>length ib \<le> limit\<close> by (intro wire3_instr [OF env v2]) simp_all
  qed
  have structs: "wire3 pending good (read_seq rd limit (read_entry rd ?ss limit (read_string rd ?ss))) sd
      (copy_cost (concat (map (\<lambda>d. fst d # snd d) (m_struct_defs m)))) (m_struct_defs m)"
    by (rule wire3_struct_defs [OF env p(3)]) (use k bs limit in \<open>auto simp: module_refs_def\<close>)
  have arrays: "wire3 pending good (read_seq rd limit (read_entry rd ?ss limit (mic3_read_i64 rd))) ca
      (copy_cost (map fst (m_const_array_defs m))) (m_const_array_defs m)"
    by (rule wire3_const_arrays [OF env p(4)]) (use k bs limit in \<open>auto simp: module_refs_def\<close>)
  have repr_c: "wire3 pending good (read_seq rd limit (read_entry rd ?ss limit (read_type_ann rd ?ss limit MAX_MIC3_DEPTH))) rc
      (copy_cost (concat (map (\<lambda>d. fst d # concat (map type_refs (snd d))) (m_repr_c_structs m)))) (m_repr_c_structs m)"
    by (rule wire3_repr_c [OF env p(5)]) (use k bs limit fits in \<open>auto simp: module_refs_def mic3_fits_def\<close>)
  have table: "wire3 pending good (if MIC3_VERSION \<le> ?ver then read_value_types_table rd limit else returnM [])
      (if MIC3_VERSION \<le> ?ver then emit_value_types_table (m_value_types m) else []) 0 (m_value_types m)"
    by (rule wire3_scoped_table [OF env]) (use fits bs limit in
      \<open>auto simp: mic3_fits_def mic3_version_def has_scoped_value_types_def MIC3_VERSION_def MIC3_VERSION_BASE_def\<close>)
  have reg: "btree_of (m_struct_defs m) = m_struct_defs m" "btree_of (m_const_array_defs m) = m_const_array_defs m"
      "btree_of (m_repr_c_structs m) = m_repr_c_structs m" "set (sorted_exports (exports m)) = exports m"
    using fits by (simp_all add: mic3_fits_def btree_of_registry sorted_exports_def)
  have m: "m = \<lparr>instrs = instrs m, next_id = next_id m, exports = exports m, canonical_types = None, m_value_types = m_value_types m,
         m_struct_defs = m_struct_defs m, m_const_array_defs = m_const_array_defs m, m_repr_c_structs = m_repr_c_structs m\<rparr>"
    using c by simp
  show ?thesis unfolding bs read_mic3_module_def
    apply (rule wire3_free [OF wire3_header [OF ver]], rule wire3_free [OF strings], rule wire3_free [OF next_id])
    apply (rule wire3_then [OF exports], simp add: module_refs_def)
    apply (rule wire3_then [OF stream], simp add: module_refs_def)
    apply (rule wire3_then [OF structs], simp add: module_refs_def)
    apply (rule wire3_then [OF arrays], simp add: module_refs_def)
    apply (rule wire3_then [OF repr_c], simp add: module_refs_def)
    apply (rule wire3_last [OF table], simp)
    using m by (simp add: reg)
qed

end

definition mic3_copies :: "mic3_module \<Rightarrow> usize" where
  "mic3_copies m = copy_cost (module_refs m)"

lemma parse_emitted:
  assumes fits: "mic3_fits m" and c: "canonical_types m = None" and e: "emit_mic3 dbg m = Some bs"
    and len: "length bs \<le> MAX_MIC3_INPUT" and cost: "mic3_copies m \<le> decode_budget (length bs)"
    and n: "next_id m \<le> 1024 * length bs"
  shows "parse_mic3_prefix oc v04 bs =
    map_option (\<lambda>b. Inr (m\<lparr>next_id := max (next_id m) b\<rparr>, length bs)) (top_level_bound oc (instrs m))"
proof -
  have md: "\<not> instruction_metadata_present (instrs m)" and l: "emit_mic3_legacy dbg m = Some bs"
    using e by (auto simp: emit_mic3_def split: if_splits)
  have lim: "length bs < 2 ^ 64" using len by (simp add: MAX_MIC3_INPUT_def)
  have sat: "next_id m \<le> saturating_mul (length bs) 1024"
    using n fits by (simp add: saturating_mul_def mic3_fits_def)
  from decodesD [OF slice.wire3_module [OF fits c md l order.refl lim sat], where s = "(bs, decode_budget (length bs))" and c' = 0 and rest = "[]"]
  obtain b where r: "read_mic3_module slice_read (length bs) (bs, decode_budget (length bs)) = Inr (m, ([], b))"
    using cost by (auto simp: mic3_copies_def)
  have "bs ! 4 = mic3_version m"
    using l by (auto simp: emit_mic3_legacy_def Let_def MIC3_MAGIC_def split: bind_splits)
  moreover have "mic3_version m \<noteq> MIC3_VERSION_V04"
    by (simp add: mic3_version_def MIC3_VERSION_def MIC3_VERSION_BASE_def MIC3_VERSION_V04_def)
  ultimately show ?thesis using r len by (simp add: parse_mic3_prefix_def)
qed

end
