(* ===== verification/Mic3_Safety.thy ===== *)
theory Mic3_Safety
  imports Mic3_Module
begin

text \<open>
  What the mic\<^verbatim>\<open>@\<close>3 decoder guarantees of a module read from untrusted bytes: it is a module that the emitter
  could have been given, and the strings it copied were paid for from the clone budget.
\<close>

definition yields :: "('r, 'a) dec \<Rightarrow> ('a \<Rightarrow> nat \<Rightarrow> bool) \<Rightarrow> bool" where
  "yields m Q \<longleftrightarrow> (\<forall>r b x r' b'. m (r, b) = Inr (x, (r', b')) \<longrightarrow> b' \<le> b \<and> Q x (b - b'))"

lemma yieldsI: "(\<And>r b x r' b'. m (r, b) = Inr (x, (r', b')) \<Longrightarrow> b' \<le> b \<and> Q x (b - b')) \<Longrightarrow> yields m Q"
  by (auto simp: yields_def)

lemma yieldsD: "yields m Q \<Longrightarrow> m (r, b) = Inr (x, (r', b')) \<Longrightarrow> Q x (b - b')"
  by (simp add: yields_def)

lemma yields_more: "yields m Q \<Longrightarrow> (\<And>x c. Q x c \<Longrightarrow> R x c) \<Longrightarrow> yields m R"
  by (fastforce simp: yields_def)

lemma yields_bind:
  assumes "yields m Q" "\<And>x c. Q x c \<Longrightarrow> yields (f x) (\<lambda>y d. R y (c + d))"
  shows "yields (bindM m f) R"
proof (rule yieldsI)
  fix r b y r' b' assume "bindM m f (r, b) = Inr (y, (r', b'))"
  then obtain x r1 b1 where 1: "m (r, b) = Inr (x, (r1, b1))" "f x (r1, b1) = Inr (y, (r', b'))"
    by (auto simp: bindM_eq_Inr)
  with assms(1) have q: "b1 \<le> b" "Q x (b - b1)" unfolding yields_def by blast+
  with 1(2) assms(2) have "b' \<le> b1 \<and> R y (b - b1 + (b1 - b'))" unfolding yields_def by blast
  moreover have "b1 \<le> b \<Longrightarrow> b' \<le> b1 \<Longrightarrow> b - b1 + (b1 - b') = b - b'" by simp
  ultimately show "b' \<le> b \<and> R y (b - b')" using q(1) by (metis le_trans)
qed

lemma yields_return: "Q x 0 \<Longrightarrow> yields (returnM x) Q"
  by (simp add: yields_def returnM_def)

lemma yields_fail: "yields (failM e) Q"
  by (simp add: yields_def failM_def)

lemma yields_bind_return: "yields (f x) Q \<Longrightarrow> yields (bindM (returnM x) f) Q"
  by (simp add: yields_def bindM_def returnM_def)

lemma yields_bind_fail: "yields (bindM (failM e) f) Q"
  by (simp add: yields_def bindM_def failM_def)

lemma yields_if: "(P \<Longrightarrow> yields m Q) \<Longrightarrow> (\<not> P \<Longrightarrow> yields m' Q) \<Longrightarrow> yields (if P then m else m') Q"
  by simp

lemma yields_io: "(\<And>r x r'. m r = Inr (x, r') \<Longrightarrow> P x) \<Longrightarrow> yields (io3 m) (\<lambda>x c. P x \<and> c = 0)"
  by (auto simp: yields_def io3_def split: sum.splits)

subsection \<open>Leaves\<close>

text \<open>A step that copies nothing, and one that copies a string of the table.\<close>

lemma yields_free:
  assumes "yields m (\<lambda>x c. P x \<and> c = 0)" "\<And>x. P x \<Longrightarrow> yields (f x) R"
  shows "yields (bindM m f) R"
  using assms(1) by (rule yields_bind) (use assms(2) in simp)

lemma yields_any: "yields (io3 m) (\<lambda>x c. True \<and> c = 0)"
  by (rule yields_io) simp

lemma yields_u8: "(\<And>x. yields (f x) R) \<Longrightarrow> yields (bindM (mic3_read_u8 rd) f) R"
  unfolding mic3_read_u8_def by (rule yields_free [OF yields_any])

lemma yields_nat: "yields (read_uleb_usize rd) (\<lambda>x c. x < 2 ^ 64 \<and> c = 0)"
  unfolding read_uleb_usize_def read_uleb_def
  by (rule yields_free [OF yields_any], rule yields_return) (simp add: unat_less_u64 [simplified])

lemma yields_usize: "(\<And>x. x < 2 ^ 64 \<Longrightarrow> yields (f x) R) \<Longrightarrow> yields (bindM (read_uleb_usize rd) f) R"
  by (rule yields_free [OF yields_nat])

lemma yields_vid: "(\<And>x. x < 2 ^ 64 \<Longrightarrow> yields (f x) R) \<Longrightarrow> yields (bindM (read_vid rd) f) R"
  unfolding read_vid_def by (rule yields_usize)

lemma yields_uleb: "(\<And>x. yields (f x) R) \<Longrightarrow> yields (bindM (read_uleb rd) f) R"
  unfolding read_uleb_def by (rule yields_free [OF yields_any])

lemma yields_i64': "yields (mic3_read_i64 rd) (\<lambda>x c. True \<and> c = 0)"
  unfolding mic3_read_i64_def by (rule yields_uleb, rule yields_return) simp

lemma yields_i64: "(\<And>x. yields (f x) R) \<Longrightarrow> yields (bindM (mic3_read_i64 rd) f) R"
  by (rule yields_free [OF yields_i64'])

lemma yields_u64_le': "yields (read_u64_le rd) (\<lambda>x c. True \<and> c = 0)"
  unfolding read_u64_le_def by (rule yields_free [OF yields_any], rule yields_return) simp

lemma yields_u64_le: "(\<And>x. yields (f x) R) \<Longrightarrow> yields (bindM (read_u64_le rd) f) R"
  by (rule yields_free [OF yields_u64_le'])

lemma yields_bool: "(\<And>x. yields (f x) R) \<Longrightarrow> yields (bindM (read_bool rd) f) R"
  unfolding read_bool_def by (rule yields_free [where P = "\<lambda>_. True"], rule yields_u8, rule yields_return) simp_all

lemma yields_tag: "(\<And>x. yields (f x) R) \<Longrightarrow> yields (bindM (read_tag what untag rd) f) R"
  unfolding read_tag_def
  by (rule yields_free [where P = "\<lambda>_. True"], rule yields_u8) (auto split: option.split intro: yields_return yields_fail)

lemma yields_string': "yields (read_string rd ss) (\<lambda>s c. s \<in> set ss \<and> c = length s)"
  unfolding read_string_def
  by (rule yields_usize, rule yields_if) (auto simp: yields_def charge_clone_def intro: yields_fail split: if_splits)

lemma yields_string: "(\<And>s. s \<in> set ss \<Longrightarrow> yields (f s) (\<lambda>y d. R y (length s + d))) \<Longrightarrow> yields (bindM (read_string rd ss) f) R"
  by (rule yields_bind [OF yields_string']) auto

lemma yields_repeat:
  assumes "yields m (\<lambda>x c. P x \<and> cost x \<le> c)"
  shows "yields (repeatM n m) (\<lambda>xs c. (\<forall>x \<in> set xs. P x) \<and> sum_list (map cost xs) \<le> c)"
proof (induction n)
  case 0
  show ?case by (simp add: yields_def)
next
  case (Suc n)
  show ?case by (auto intro!: yields_bind [OF assms] yields_bind [OF Suc] yields_return)
qed

lemma yields_seq':
  assumes "yields m (\<lambda>x c. P x \<and> cost x \<le> c)"
  shows "yields (read_seq rd limit m) (\<lambda>xs c. (\<forall>x \<in> set xs. P x) \<and> sum_list (map cost xs) \<le> c)"
proof -
  have "yields (read_count rd limit) (\<lambda>_ c. True \<and> c = 0)"
    unfolding read_count_def by (rule yields_usize) (auto intro: yields_return yields_fail)
  then show ?thesis unfolding read_seq_def by (rule yields_free) (rule yields_repeat [OF assms])
qed

lemma yields_seq:
  assumes "yields m (\<lambda>x c. P x \<and> cost x \<le> c)"
    and "\<And>xs c. \<forall>x \<in> set xs. P x \<Longrightarrow> sum_list (map cost xs) \<le> c \<Longrightarrow> yields (f xs) (\<lambda>y d. R y (c + d))"
  shows "yields (bindM (read_seq rd limit m) f) R"
  by (rule yields_bind [OF yields_seq' [OF assms(1)]]) (use assms(2) in blast)

lemma yields_opt:
  assumes "yields m Q" "R None 0" "\<And>x c. Q x c \<Longrightarrow> R (Some x) c"
  shows "yields (read_opt what rd m) R"
  unfolding read_opt_def
  by (rule yields_u8) (auto intro!: yields_return yields_fail yields_bind [OF assms(1)] assms)

lemma yields_seq_any:
  assumes "yields m (\<lambda>x c. P x \<and> c = 0)" "\<And>xs c. \<forall>x \<in> set xs. P x \<Longrightarrow> yields (f xs) (\<lambda>y d. R y (c + d))"
  shows "yields (bindM (read_seq rd limit m) f) R"
proof (rule yields_seq [where P = P and cost = "\<lambda>_. 0"])
  show "yields m (\<lambda>x c. P x \<and> 0 \<le> c)" by (rule yields_more [OF assms(1)]) simp
qed (rule assms(2))

lemma yields_vid': "yields (read_vid rd) (\<lambda>x c. x < 2 ^ 64 \<and> c = 0)"
  unfolding read_vid_def by (rule yields_nat)

lemma yields_vid_vec:
  assumes "\<And>xs c. \<forall>v \<in> set xs. v < 2 ^ 64 \<Longrightarrow> yields (f xs) (\<lambda>y d. R y (c + d))"
  shows "yields (bindM (read_vid_vec rd limit) f) R"
  unfolding read_vid_vec_def by (rule yields_seq_any [OF yields_vid']) (rule assms)

lemma yields_i64_vec:
  assumes "\<And>xs c. yields (f xs) (\<lambda>y d. R y (c + d))"
  shows "yields (bindM (read_i64_vec rd limit) f) R"
  unfolding read_i64_vec_def by (rule yields_seq_any [OF yields_i64']) (rule assms)

lemma yields_i64s:
  assumes "\<And>xs c. yields (f xs) (\<lambda>y d. R y (c + d))"
  shows "yields (bindM (read_seq rd limit (mic3_read_i64 rd)) f) R"
  by (rule yields_seq_any [OF yields_i64']) (rule assms)

lemma yields_u64s:
  assumes "\<And>xs c. yields (f xs) (\<lambda>y d. R y (c + d))"
  shows "yields (bindM (read_seq rd limit (read_u64_le rd)) f) R"
  by (rule yields_seq_any [OF yields_u64_le']) (rule assms)

lemma yields_indices:
  assumes "\<And>xs c. yields (f xs) (\<lambda>y d. R y (c + d))"
  shows "yields (bindM (read_seq rd limit (read_index_spec rd)) f) R"
proof -
  have "yields (read_index_spec rd) (\<lambda>x c. True \<and> c = 0)"
    unfolding read_index_spec_def by (intro yields_i64 yields_return) simp
  then show ?thesis by (rule yields_seq_any) (rule assms)
qed

lemma yields_opt_any:
  assumes "yields m (\<lambda>x c. P x \<and> c = 0)" "\<And>v. \<forall>x \<in> set_option v. P x \<Longrightarrow> yields (f v) R"
  shows "yields (bindM (read_opt what rd m) f) R"
proof (rule yields_free)
  show "yields (read_opt what rd m) (\<lambda>v c. (\<forall>x \<in> set_option v. P x) \<and> c = 0)"
    by (rule yields_opt [OF assms(1)]) simp_all
qed (rule assms(2))

lemma yields_opt_i64: "(\<And>v. yields (f v) R) \<Longrightarrow> yields (bindM (read_opt_i64 rd) f) R"
  unfolding read_opt_i64_def by (rule yields_opt_any [OF yields_i64'])

lemma yields_opt_f64: "(\<And>v. yields (f v) R) \<Longrightarrow> yields (bindM (read_opt_f64 rd) f) R"
  unfolding read_opt_f64_def by (rule yields_opt_any [OF yields_u64_le'])

lemma yields_opt_vid: "(\<And>v. \<forall>n \<in> set (opt_nats v). n < 2 ^ 64 \<Longrightarrow> yields (f v) R) \<Longrightarrow> yields (bindM (read_opt_vid rd) f) R"
  unfolding read_opt_vid_def by (rule yields_opt_any [OF yields_vid']) (auto simp: opt_nats_def split: option.splits)

lemma yields_slices:
  assumes "\<And>xs c. yields (f xs) (\<lambda>y d. R y (c + d))"
  shows "yields (bindM (read_seq rd limit (read_slice_spec rd)) f) R"
proof -
  have "yields (read_slice_spec rd) (\<lambda>x c. True \<and> c = 0)"
    unfolding read_slice_spec_def by (intro yields_i64 yields_opt_i64 yields_return) simp
  then show ?thesis by (rule yields_seq_any) (rule assms)
qed

lemma yields_shape4:
  assumes "\<And>s. \<forall>n \<in> set (shape4_nats s). n < 2 ^ 64 \<Longrightarrow> yields (f s) R"
  shows "yields (bindM (read_shape4 rd) f) R"
proof (rule yields_free)
  show "yields (read_shape4 rd) (\<lambda>s c. (\<forall>n \<in> set (shape4_nats s). n < 2 ^ 64) \<and> c = 0)"
    unfolding read_shape4_def by (intro yields_usize yields_return) (simp add: shape4_nats_def)
qed (rule assms)

lemma yields_triples:
  assumes "\<And>ts c. \<forall>n \<in> set (triple_nats ts). n < 2 ^ 64 \<Longrightarrow> yields (f ts) (\<lambda>y d. R y (c + d))"
  shows "yields (bindM (read_vid_triples rd limit) f) R"
proof -
  have "yields (read_vid_triple rd) (\<lambda>t c. (case t of (a, b, c) \<Rightarrow> a < 2 ^ 64 \<and> b < 2 ^ 64 \<and> c < 2 ^ 64) \<and> c = 0)"
    unfolding read_vid_triple_def by (intro yields_vid yields_return) simp
  then show ?thesis unfolding read_vid_triples_def
    by (rule yields_seq_any) (rule assms, auto simp: triple_nats_def)
qed

text \<open>Strings: those copied are in the table, and their length was charged.\<close>

definition paid :: "string list \<Rightarrow> string list \<Rightarrow> nat \<Rightarrow> bool" where
  "paid ss refs c \<longleftrightarrow> set refs \<subseteq> set ss \<and> copy_cost refs \<le> c"

lemma paid_simps [simp]: "paid ss [] c"
  by (simp add: paid_def)

lemma paid_concat: "\<forall>x \<in> set xs. set (g x) \<subseteq> set ss \<Longrightarrow> sum_list (map (\<lambda>x. copy_cost (g x)) xs) \<le> c \<Longrightarrow> paid ss (concat (map g xs)) c"
  by (auto simp: paid_def copy_cost_concat)

lemma yields_seq_paid:
  assumes "yields m (\<lambda>x c. P x \<and> paid ss (g x) c)"
    and "\<And>xs c. \<forall>x \<in> set xs. P x \<Longrightarrow> paid ss (concat (map g xs)) c \<Longrightarrow> yields (f xs) (\<lambda>y d. R y (c + d))"
  shows "yields (bindM (read_seq rd limit m) f) R"
proof (rule yields_seq [where P = "\<lambda>x. P x \<and> set (g x) \<subseteq> set ss" and cost = "\<lambda>x. copy_cost (g x)"])
  show "yields m (\<lambda>x c. (P x \<and> set (g x) \<subseteq> set ss) \<and> copy_cost (g x) \<le> c)"
    by (rule yields_more [OF assms(1)]) (simp add: paid_def)
qed (rule assms(2), auto intro: paid_concat)

lemma yields_strings:
  assumes "\<And>xs c. paid ss xs c \<Longrightarrow> yields (f xs) (\<lambda>y d. R y (c + d))"
  shows "yields (bindM (read_seq rd limit (read_string rd ss)) f) R"
proof (rule yields_seq_paid [where P = "\<lambda>_. True" and g = "\<lambda>s. [s]"])
  show "yields (read_string rd ss) (\<lambda>s c. True \<and> paid ss [s] c)"
    by (rule yields_more [OF yields_string']) (simp add: paid_def)
  fix xs c assume "paid ss (concat (map (\<lambda>s. [s]) xs)) c"
  then show "yields (f xs) (\<lambda>y d. R y (c + d))" by (intro assms) simp
qed

lemma yields_named:
  assumes "\<And>ps c. \<forall>n \<in> set (map snd ps). n < 2 ^ 64 \<Longrightarrow> paid ss (map fst ps) c \<Longrightarrow> yields (f ps) (\<lambda>y d. R y (c + d))"
  shows "yields (bindM (read_named_vids rd ss limit) f) R"
  unfolding read_named_vids_def
proof (rule yields_seq_paid [where P = "\<lambda>p. snd p < 2 ^ 64" and g = "\<lambda>p. [fst p]"])
  show "yields (read_named_vid rd ss) (\<lambda>p c. snd p < 2 ^ 64 \<and> paid ss [fst p] c)"
    unfolding read_named_vid_def by (intro yields_string yields_vid yields_return) (simp add: paid_def)
  fix ps :: "(string \<times> value_id) list" and c assume "\<forall>p \<in> set ps. snd p < 2 ^ 64" "paid ss (concat (map (\<lambda>p. [fst p]) ps)) c"
  then show "yields (f ps) (\<lambda>y d. R y (c + d))" by (intro assms) (simp_all add: map_concat [symmetric])
qed

lemma yields_shape:
  assumes "\<And>ds c. \<forall>n \<in> set (concat (map dim_nats ds)). n < 2 ^ 64 \<Longrightarrow> paid ss (concat (map dim_refs ds)) c \<Longrightarrow>
    yields (f ds) (\<lambda>y d. R y (c + d))"
  shows "yields (bindM (read_shape rd ss limit) f) R"
  unfolding read_shape_def
proof (rule yields_seq_paid [where P = "\<lambda>d. \<forall>n \<in> set (dim_nats d). n < 2 ^ 64" and g = dim_refs])
  show "yields (read_shape_dim rd ss) (\<lambda>d c. (\<forall>n \<in> set (dim_nats d). n < 2 ^ 64) \<and> paid ss (dim_refs d) c)"
    unfolding read_shape_dim_def
    by (intro yields_u8 yields_if yields_usize yields_string yields_return yields_fail) (simp_all add: dim_nats_def dim_refs_def paid_def)
qed (rule assms, simp_all)

lemma yields_opt_string:
  assumes "\<And>v c. paid ss (opt_refs v) c \<Longrightarrow> yields (f v) (\<lambda>y d. R y (c + d))"
  shows "yields (bindM (read_opt_string rd ss) f) R"
proof (rule yields_bind)
  show "yields (read_opt_string rd ss) (\<lambda>v c. paid ss (opt_refs v) c)"
    unfolding read_opt_string_def by (rule yields_opt [OF yields_string']) (simp_all add: opt_refs_def paid_def)
qed (rule assms)

lemma yields_table_loop:
  assumes "sorted_wrt (<) (map fst acc)" "\<forall>v \<in> set (map fst acc). v < 2 ^ 64"
    and "case prev of None \<Rightarrow> acc = [] | Some p \<Rightarrow> \<forall>v \<in> set (map fst acc). v \<le> p"
  shows "yields (read_value_types_loop rd prev n acc) (\<lambda>t c. table_fits t \<and> c = 0)"
  using assms
proof (induction n arbitrary: prev acc)
  case 0
  then show ?case by (simp add: table_fits_def yields_def returnM_def)
next
  case (Suc n)
  have loop: "yields (read_value_types_loop rd (Some v) n (acc @ [(v, e)])) (\<lambda>t c. table_fits t \<and> c = 0)"
    if "v < 2 ^ 64" "\<not> (\<exists>p. prev = Some p \<and> v \<le> p)" for v e
    by (rule Suc.IH) (use that Suc.prems in \<open>force simp: sorted_wrt_append split: option.splits\<close>)+
  have size: "yields (read_array_size rd) (\<lambda>x c. True \<and> c = 0)"
    unfolding read_array_size_def by (intro yields_u8 yields_if yields_uleb yields_return yields_fail) simp_all
  have "yields (bindM (read_array_size rd) (\<lambda>sz. read_value_types_loop rd (Some v) n (acc @ [(v, \<lparr>at_elem_dtype = dt, at_size = sz\<rparr>)])))
      (\<lambda>t c. table_fits t \<and> c = 0)" if "v < 2 ^ 64" "\<not> (\<exists>p. prev = Some p \<and> v \<le> p)" for v dt
    by (rule yields_free [OF size]) (rule loop [OF that])
  then show ?case unfolding read_value_types_loop.simps
    by (cases prev) (auto intro!: yields_vid yields_tag yields_bind_return yields_bind_fail)
qed

lemma yields_table:
  assumes "\<And>t. table_fits t \<Longrightarrow> yields (f t) R"
  shows "yields (bindM (if b then read_value_types_table rd limit else returnM []) f) R"
proof (rule yields_free)
  have "yields (read_count rd limit) (\<lambda>_ c. True \<and> c = 0)"
    unfolding read_count_def by (rule yields_usize) (auto intro: yields_return yields_fail)
  then have "yields (read_value_types_table rd limit) (\<lambda>t c. table_fits t \<and> c = 0)"
    unfolding read_value_types_table_def by (rule yields_free) (rule yields_table_loop; simp)
  then show "yields (if b then read_value_types_table rd limit else returnM []) (\<lambda>t c. table_fits t \<and> c = 0)"
    by (auto simp: table_fits_def intro: yields_return)
qed (rule assms)

lemma yields_version:
  assumes "yields (bindM m f) R" "yields (f x) R"
  shows "yields (bindM (if b then m else returnM x) f) R"
  using assms by (cases b) (auto intro: yields_bind_return)

subsection \<open>Type annotations and instructions\<close>

definition type_ok :: "nat \<Rightarrow> string list \<Rightarrow> ast_type \<Rightarrow> nat \<Rightarrow> bool" where
  "type_ok d ss t c \<longleftrightarrow> type_fits d t \<and> paid ss (type_refs t) c"

lemma type_okI:
  "own_type_fits t \<Longrightarrow> \<forall>c \<in> set (type_children t). type_fits d c \<Longrightarrow> paid ss (type_refs t) c \<Longrightarrow> type_ok (Suc d) ss t c"
  by (simp add: type_ok_def)

lemma yields_type: "yields (read_type_ann rd ss limit d) (type_ok d ss)"
proof (induction d)
  case (Suc d)
  have one: "yields (bindM (read_type_ann rd ss limit d) f) R"
    if "\<And>t c. type_fits d t \<Longrightarrow> paid ss (type_refs t) c \<Longrightarrow> yields (f t) (\<lambda>y e. R y (c + e))" for f :: "ast_type \<Rightarrow> ('a, ast_type) dec" and R
    by (rule yields_bind [OF Suc]) (use that in \<open>simp add: type_ok_def\<close>)
  have many: "yields (bindM (read_seq rd limit (read_type_ann rd ss limit d)) f) R"
    if "\<And>ts c. \<forall>t \<in> set ts. type_fits d t \<Longrightarrow> paid ss (concat (map type_refs ts)) c \<Longrightarrow> yields (f ts) (\<lambda>y e. R y (c + e))"
    for f :: "ast_type list \<Rightarrow> ('a, ast_type) dec" and R
    by (rule yields_seq_paid [OF Suc [unfolded type_ok_def]]) (rule that)
  note rules = yields_return type_okI yields_fail yields_u8 yields_if yields_strings yields_string yields_bool yields_uleb yields_tag
    yields_shape one many
  show ?case unfolding read_type_ann.simps
    by (rule rules | (simp add: own_type_fits_def type_children_def paid_def; fail))+
qed (simp add: yields_def failM_def)

definition instr_ok :: "nat \<Rightarrow> string list \<Rightarrow> instr \<Rightarrow> nat \<Rightarrow> bool" where
  "instr_ok d ss i c \<longleftrightarrow> (instr_fits d i \<and> \<not> instr_metadata i) \<and> paid ss (instr_refs i) c"

lemma instr_okI:
  "own_fits i \<Longrightarrow> \<not> own_metadata i \<Longrightarrow> \<forall>b \<in> set (instr_bodies i). \<forall>j \<in> set b. instr_fits d j \<and> \<not> instr_metadata j \<Longrightarrow>
    paid ss (instr_refs i) c \<Longrightarrow> instr_ok (Suc d) ss i c"
  unfolding instr_ok_def by (subst instr_metadata.simps) simp

lemma empty_tables [simp]: "table_fits []" "triple_nats [] = []"
  by (simp_all add: table_fits_def triple_nats_def)

lemmas instr_ok_defs = own_fits_def own_metadata_def instr_bodies_def own_value_types_def paid_def ball_Un

lemma yields_tensor_instr: "yields (decode_tensor_instr rd ss limit op) (instr_ok (Suc d) ss)"
proof -
  note rules = yields_return instr_okI yields_fail yields_vid yields_usize yields_i64 yields_u64_le yields_tag yields_bool yields_shape
    yields_opt_f64 yields_i64_vec yields_shape4 yields_u64s yields_indices yields_slices
  show ?thesis unfolding decode_tensor_instr_def
    by (rule rules | rule yields_if | (simp add: instr_ok_defs; fail))+
qed

lemma yields_flat_instr: "yields (decode_scalar_instr rd ss limit op) (instr_ok (Suc d) ss)"
proof -
  note rules = yields_return instr_okI yields_vid yields_usize yields_tag yields_bool yields_string yields_strings yields_vid_vec
    yields_opt_vid yields_opt_string yields_i64s yields_named yields_tensor_instr
  show ?thesis unfolding decode_scalar_instr_def
    by (rule rules | rule yields_if | (simp add: instr_ok_defs; fail))+
qed

lemma yields_instr: "yields (decode_instr rd ss limit ver d) (instr_ok d ss)"
proof (induction d)
  case (Suc d)
  have many: "yields (bindM (read_seq rd limit (decode_instr rd ss limit ver d)) f) R"
    if "\<And>is c. \<forall>i \<in> set is. instr_fits d i \<and> \<not> instr_metadata i \<Longrightarrow> paid ss (concat (map instr_refs is)) c \<Longrightarrow>
      yields (f is) (\<lambda>y e. R y (c + e))"
    for f :: "instr list \<Rightarrow> ('a, instr) dec" and R
    by (rule yields_seq_paid [OF Suc [unfolded instr_ok_def]]) (rule that)
  note rules = yields_return instr_okI yields_u8 yields_vid yields_string yields_named yields_vid_vec yields_triples yields_table
    yields_opt_vid yields_opt_f64 many yields_flat_instr yields_version
  show ?case unfolding decode_instr.simps
    by (rule rules | rule yields_if | (simp add: instr_ok_defs; fail))+
qed (simp add: yields_def failM_def)

subsection \<open>Modules\<close>

lemma btree_insert_laws:
  assumes "registry xs"
  shows "registry (btree_insert k v xs)" "set (btree_insert k v xs) \<subseteq> insert (k, v) (set xs)"
    and "sum_list (map g (btree_insert k v xs)) \<le> g (k, v) + sum_list (map (g :: _ \<Rightarrow> nat) xs)"
    and "fst ` set (btree_insert k v xs) = insert k (fst ` set xs)"
proof -
  show "fst ` set (btree_insert k v xs) = insert k (fst ` set xs)"
    by (induction k v xs rule: btree_insert.induct) auto
  show "registry (btree_insert k v xs)" using assms
  proof (induction k v xs rule: btree_insert.induct)
    case (2 k v k' v' xs)
    have keys: "fst ` set (btree_insert k v xs) = insert k (fst ` set xs)"
      by (induction k v xs rule: btree_insert.induct) auto
    from 2 keys show ?case by (auto simp: registry_def)
  qed (simp add: registry_def)
  show "set (btree_insert k v xs) \<subseteq> insert (k, v) (set xs)"
    by (induction k v xs rule: btree_insert.induct) auto
  show "sum_list (map g (btree_insert k v xs)) \<le> g (k, v) + sum_list (map g xs)"
    by (induction k v xs rule: btree_insert.induct) auto
qed

lemma btree_of_laws:
  "registry (btree_of xs)" "set (btree_of xs) \<subseteq> set xs" "sum_list (map g (btree_of xs)) \<le> sum_list (map (g :: _ \<Rightarrow> nat) xs)"
proof (induction xs rule: rev_induct)
  case Nil
  { case 1 show ?case by (simp add: btree_of_def registry_def)
  next case 2 show ?case by (simp add: btree_of_def)
  next case 3 show ?case by (simp add: btree_of_def) }
next
  case (snoc x xs)
  obtain k v where x: "x = (k, v)" by (cases x)
  have e: "btree_of (xs @ [x]) = btree_insert k v (btree_of xs)" by (simp add: btree_of_def x)
  note laws = btree_insert_laws [OF snoc(1), where k = k and v = v]
  { case 1 show ?case unfolding e by (rule laws(1))
  next case 2 show ?case using laws(2) snoc(2) unfolding e by (auto simp: x)
  next case 3 show ?case using laws(3) [where g = g] snoc(3) unfolding e by (simp add: x) }
qed

lemma copy_cost_sorted: "copy_cost (sorted_exports (set xs)) \<le> copy_cost xs"
proof -
  have "copy_cost (sorted_exports (set xs)) = (\<Sum>s \<in> set xs. length s)"
    by (simp add: copy_cost_def sorted_exports_def sum_list_distinct_conv_sum_set)
  also have "\<dots> \<le> copy_cost xs"
  proof (induction xs)
    case (Cons x xs)
    then show ?case by (cases "x \<in> set xs") (simp_all add: insert_absorb)
  qed simp
  finally show ?thesis .
qed

lemma yields_seq_paid':
  assumes "yields m (\<lambda>x c. P x \<and> paid ss (g x) c)"
  shows "yields (read_seq rd limit m) (\<lambda>xs c. (\<forall>x \<in> set xs. P x) \<and> paid ss (concat (map g xs)) c)"
proof -
  have "yields m (\<lambda>x c. (P x \<and> set (g x) \<subseteq> set ss) \<and> copy_cost (g x) \<le> c)"
    by (rule yields_more [OF assms]) (simp add: paid_def)
  from yields_seq' [OF this] show ?thesis by (rule yields_more) (auto intro: paid_concat)
qed

lemma yields_entry:
  assumes "yields m (\<lambda>x c. P x \<and> paid ss (g x) c)"
  shows "yields (read_entry rd ss limit m) (\<lambda>e c. (\<forall>x \<in> set (snd e). P x) \<and> paid ss (fst e # concat (map g (snd e))) c)"
  unfolding read_entry_def
  by (intro yields_string yields_bind [OF yields_seq_paid' [OF assms]] yields_return) (auto simp: paid_def)

lemma yields_registry:
  assumes "yields m (\<lambda>x c. P x \<and> paid ss (g x) c)"
    and "\<And>es c. registry (btree_of es) \<Longrightarrow> \<forall>e \<in> set (btree_of es). \<forall>x \<in> set (snd e). P x \<Longrightarrow>
      paid ss (concat (map (\<lambda>e. fst e # concat (map g (snd e))) (btree_of es))) c \<Longrightarrow> yields (f es) (\<lambda>y d. R y (c + d))"
  shows "yields (bindM (read_seq rd limit (read_entry rd ss limit m)) f) R"
proof (rule yields_seq_paid [OF yields_entry [OF assms(1)]], rule assms(2), rule btree_of_laws(1))
  fix es c
  assume P: "\<forall>e \<in> set es. \<forall>x \<in> set (snd e). P x" and c: "paid ss (concat (map (\<lambda>e. fst e # concat (map g (snd e))) es)) c"
  from P btree_of_laws(2) [of es] show "\<forall>e \<in> set (btree_of es). \<forall>x \<in> set (snd e). P x" by blast
  let ?h = "\<lambda>e. fst e # concat (map g (snd e))"
  have "sum_list (map (\<lambda>e. copy_cost (?h e)) (btree_of es)) \<le> sum_list (map (\<lambda>e. copy_cost (?h e)) es)"
    by (rule btree_of_laws(3))
  moreover have "set (concat (map ?h (btree_of es))) \<subseteq> set (concat (map ?h es))" using btree_of_laws(2) [of es] by auto
  ultimately show "paid ss (concat (map ?h (btree_of es))) c"
    using c unfolding paid_def copy_cost_concat [where xs = "btree_of es"] copy_cost_concat [where xs = es] by fastforce
qed

lemma yields_exports:
  assumes "\<And>names c. paid ss (sorted_exports (set names)) c \<Longrightarrow> yields (f names) (\<lambda>y d. R y (c + d))"
  shows "yields (bindM (read_seq rd limit (read_string rd ss)) f) R"
proof (rule yields_strings, rule assms)
  fix names c assume "paid ss names c"
  then show "paid ss (sorted_exports (set names)) c"
    using copy_cost_sorted [of names] by (auto simp: paid_def sorted_exports_def)
qed

lemma yields_string_table:
  assumes "\<And>ss c. \<forall>s \<in> set ss. valid_string s \<Longrightarrow> yields (f ss) (\<lambda>y d. R y (c + d))"
  shows "yields (bindM (read_seq rd limit (read_string_entry rd limit)) f) R"
proof (rule yields_seq_any)
  have "yields (bindM (io3 (read_exact rd n)) (\<lambda>buf. case from_utf8 buf of Some s \<Rightarrow> returnM s | None \<Rightarrow> failM Mic3InvalidUtf8))
      (\<lambda>s c. valid_string s \<and> c = 0)" for n
    by (rule yields_free [OF yields_any]) (auto dest: from_utf8_SomeD intro: yields_return yields_fail split: option.split)
  then show "yields (read_string_entry rd limit) (\<lambda>s c. valid_string s \<and> c = 0)"
    unfolding read_string_entry_def by (intro yields_usize yields_if yields_fail)
qed (rule assms)

lemma yields_header: "(\<And>v. yields (f v) R) \<Longrightarrow> yields (bindM (read_mic3_header rd) f) R"
proof (rule yields_free [where P = "\<lambda>_. True"])
  show "yields (read_mic3_header rd) (\<lambda>_ c. True \<and> c = 0)"
    unfolding read_mic3_header_def
    by (rule yields_free [OF yields_any]) (auto intro!: yields_u8 intro: yields_return yields_fail)
qed

lemma yields_next_id: "(\<And>n. n < 2 ^ 64 \<Longrightarrow> yields (f n) R) \<Longrightarrow> yields (bindM (read_next_id rd limit) f) R"
proof (rule yields_free [where P = "\<lambda>n. n < 2 ^ 64"])
  show "yields (read_next_id rd limit) (\<lambda>n c. n < 2 ^ 64 \<and> c = 0)"
    unfolding read_next_id_def by (rule yields_usize) (auto intro: yields_return yields_fail)
qed

lemma array_refs: "concat (map (\<lambda>e. fst e # concat (map (\<lambda>x. []) (snd e))) ds) = map fst ds"
  by (induction ds) simp_all

lemma mic3_fitsI:
  assumes "\<forall>i \<in> set (instrs m). instr_fits MAX_MIC3_DEPTH i" "next_id m < 2 ^ 64" "finite (exports m)"
    and "registry (m_struct_defs m)" "registry (m_const_array_defs m)" "registry (m_repr_c_structs m)"
    and "\<forall>e \<in> set (m_repr_c_structs m). \<forall>t \<in> set (snd e). type_fits MAX_MIC3_DEPTH t" "table_fits (m_value_types m)"
    and "set (module_refs m) \<subseteq> set ss" "\<forall>s \<in> set ss. valid_string s"
  shows "mic3_fits m"
  using assms by (auto simp: mic3_fits_def)

definition mic3_decoded_ok :: "mic3_module \<Rightarrow> nat \<Rightarrow> bool" where
  "mic3_decoded_ok m c \<longleftrightarrow> mic3_fits m \<and> canonical_types m = None \<and> \<not> instruction_metadata_present (instrs m) \<and> mic3_copies m \<le> c"

lemma yields_module: "yields (read_mic3_module rd limit) mic3_decoded_ok"
proof -
  have str: "yields (read_string rd ss) (\<lambda>s c. True \<and> paid ss [s] c)" for rd :: "'a read" and ss
    by (rule yields_more [OF yields_string']) (simp add: paid_def)
  have i64: "yields (mic3_read_i64 rd) (\<lambda>x c. True \<and> paid ss [] c)" for rd :: "'a read" and ss
    by (rule yields_more [OF yields_i64']) simp
  note reg = yields_registry [OF str] yields_registry [OF i64] yields_registry [OF yields_type [unfolded type_ok_def]]
  show ?thesis unfolding read_mic3_module_def
    apply (rule yields_header, rule yields_string_table, rule yields_next_id, rule yields_exports)
    apply (rule yields_seq_paid [OF yields_instr [unfolded instr_ok_def]])
    apply (rule reg)+
    apply (rule yields_table, rule yields_return)
    unfolding array_refs mic3_decoded_ok_def paid_def
    apply (intro conjI)
       apply (rule mic3_fitsI; (assumption | (simp; fail) | (simp add: module_refs_def)))
      apply simp
     apply (simp add: instruction_metadata_present_def)
    apply (simp add: mic3_copies_def module_refs_def)
    done
qed

subsection \<open>The entry point\<close>

lemma id_after_Some: "id_after oc v = Some b \<Longrightarrow> b < 2 ^ 64"
  by (auto simp: id_after_def split: if_splits)

lemma top_level_bound_less: "top_level_bound oc is = Some b \<Longrightarrow> b < 2 ^ 64"
proof -
  assume "top_level_bound oc is = Some b"
  then obtain bs where bs: "traverse (id_after oc) (concat (map bound_ids is)) = Some bs" "b = fold max bs 0"
    by (auto simp: top_level_bound_def)
  have "\<forall>x \<in> set bs. x < 2 ^ 64"
    using traverse_SomeD [OF bs(1)] id_after_Some by (fastforce simp: list_all2_conv_all_nth in_set_conv_nth)
  moreover have "(\<forall>x \<in> set bs. x < 2 ^ 64) \<Longrightarrow> c < 2 ^ 64 \<Longrightarrow> fold max bs c < 2 ^ 64" for c :: nat
    by (induction bs arbitrary: c) auto
  ultimately show "b < 2 ^ 64" using bs(2) by simp
qed

lemma top_level_bound_ge:
  assumes "top_level_bound True is = Some b" "i \<in> set is" "v \<in> set (bound_ids i)"
  shows "v < b"
proof -
  obtain bs where bs: "traverse (id_after True) (concat (map bound_ids is)) = Some bs" "b = fold max bs 0"
    using assms(1) by (auto simp: top_level_bound_def)
  have l: "list_all2 (\<lambda>x y. id_after True x = Some y) (concat (map bound_ids is)) bs" by (rule traverse_SomeD [OF bs(1)])
  have "v \<in> set (concat (map bound_ids is))" using assms(2,3) by auto
  then obtain k where k: "k < length (concat (map bound_ids is))" "concat (map bound_ids is) ! k = v" by (metis in_set_conv_nth)
  have "id_after True v = Some (bs ! k)" "bs ! k \<in> set bs"
    using list_all2_nthD [OF l k(1)] list_all2_lengthD [OF l] k by auto
  then have "v + 1 \<in> set bs" by (auto simp: id_after_def split: if_splits)
  moreover have "x \<in> set bs \<Longrightarrow> x \<le> fold max bs c" for x c :: nat
  proof (induction bs arbitrary: c)
    case (Cons y bs)
    have "c \<le> fold max bs c" for c :: nat by (induction bs arbitrary: c) (auto intro: order_trans [OF max.cobounded2])
    from this [of "max y c"] Cons show ?case by auto
  qed simp
  ultimately show ?thesis using bs(2) by (metis Suc_eq_plus1 Suc_le_eq)
qed

lemma read_result:
  assumes "(case R of Inl e \<Rightarrow> Some (Inl e) | Inr (m, (rest, _)) \<Rightarrow> map_option (\<lambda>b. Inr (f m b, k rest)) (B m)) = Some (Inr (m, n))"
  shows "\<exists>m0 rest b0 b. R = Inr (m0, (rest, b0)) \<and> B m0 = Some b \<and> m = f m0 b"
  using assms by (cases R) auto

lemma parsed_prefix:
  assumes p: "parse_mic3_prefix oc v04 bs = Some (Inr (m, n))" and v: "\<not> (4 < length bs \<and> bs ! 4 = MIC3_VERSION_V04)"
  shows "mic3_decoded_ok m (decode_budget (length bs))" "\<exists>b. top_level_bound oc (instrs m) = Some b \<and> b \<le> next_id m"
proof -
  have "\<not> MAX_MIC3_INPUT < length bs" using p unfolding parse_mic3_prefix_def by (rule contrapos_pn) simp
  moreover have "\<not> (take 4 bs = MIC3_MAGIC \<and> 4 < length bs \<and> bs ! 4 = MIC3_VERSION_V04)" using v by blast
  ultimately have "(case read_mic3_module slice_read (length bs) (bs, decode_budget (length bs)) of Inl e \<Rightarrow> Some (Inl e)
      | Inr (m, (rest, _)) \<Rightarrow>
          map_option (\<lambda>b. Inr (m\<lparr>next_id := max (next_id m) b\<rparr>, length bs - length rest)) (top_level_bound oc (instrs m)))
    = Some (Inr (m, n))"
    using p unfolding parse_mic3_prefix_def by (simp only: if_False)
  from read_result [OF this] obtain m0 rest b0 b
    where r: "read_mic3_module slice_read (length bs) (bs, decode_budget (length bs)) = Inr (m0, (rest, b0))"
      and b: "top_level_bound oc (instrs m0) = Some b" and m: "m = m0\<lparr>next_id := max (next_id m0) b\<rparr>" by blast
  have "mic3_decoded_ok m0 (decode_budget (length bs) - b0)" by (rule yieldsD [OF yields_module r])
  then show "mic3_decoded_ok m (decode_budget (length bs))"
    using top_level_bound_less [OF b] by (auto simp: m mic3_decoded_ok_def mic3_fits_def mic3_copies_def module_refs_def)
  show "\<exists>b. top_level_bound oc (instrs m) = Some b \<and> b \<le> next_id m" using b by (auto simp: m)
qed

lemma parse_body_prefix:
  "parse_mic3_body oc v04 bs = Some (Inr m) \<longleftrightarrow> parse_mic3_prefix oc v04 bs = Some (Inr (m, length bs))"
  by (auto simp: parse_mic3_body_def rbind_eq_Inr split: if_splits)

lemma parse_emitted_body:
  assumes "mic3_fits m" "canonical_types m = None" "emit_mic3 dbg m = Some bs" "length bs \<le> MAX_MIC3_INPUT"
    and "mic3_copies m \<le> decode_budget (length bs)" "next_id m \<le> 1024 * length bs"
  shows "parse_mic3_body oc v04 bs = map_option (\<lambda>b. Inr (m\<lparr>next_id := max (next_id m) b\<rparr>)) (top_level_bound oc (instrs m))"
  unfolding parse_mic3_body_def parse_emitted [OF assms] by (simp add: option.map_comp comp_def)

lemma parsed_reencodes:
  assumes p: "parse_mic3_body oc v04 bs = Some (Inr m)" and v: "\<not> (4 < length bs \<and> bs ! 4 = MIC3_VERSION_V04)"
    and e: "emit_mic3 dbg m = Some bs'" and len: "length bs' \<le> MAX_MIC3_INPUT" "mic3_copies m \<le> decode_budget (length bs')"
      "next_id m \<le> 1024 * length bs'"
  shows "parse_mic3_body oc v04' bs' = Some (Inr m)"
proof -
  note q = parsed_prefix [OF p [unfolded parse_body_prefix] v]
  have f: "mic3_fits m" "canonical_types m = None" using q(1) by (simp_all add: mic3_decoded_ok_def)
  from q(2) obtain b where "top_level_bound oc (instrs m) = Some b" "b \<le> next_id m" by blast
  with parse_emitted_body [OF f e len, of oc v04'] show ?thesis by (simp add: max_def)
qed

lemma parsed_emits:
  assumes "parse_mic3_body oc v04 bs = Some (Inr m)" "\<not> (4 < length bs \<and> bs ! 4 = MIC3_VERSION_V04)"
  shows "\<exists>bs'. emit_mic3 dbg m = Some bs'"
  using parsed_prefix(1) [OF assms(1) [unfolded parse_body_prefix] assms(2)] emit_legacy_returns [of dbg m]
  by (auto simp: emit_mic3_def mic3_decoded_ok_def has_populated_canonical_def)

end
