(* ===== verification/Spec2Isabelle.thy ===== *)
theory Spec2Isabelle
  imports Micb_Roundtrip Micb_Safety Ir_Sound Phf Regalloc Shape_Engine Tensor_Sound Ast_Fold Mic2_Safety
    Ir_Verify_Sound Collapse_Safety Autodiff_Sound Mic3_Safety
begin

text \<open>
  MIND compiler: a verification of its intermediate representations, their wire formats, the passes on
  them, and the tensor fragment of the surface language.

  \<^bold>\<open>The program.\<close>  A source file becomes an AST (\<^verbatim>\<open>src/ast\<close>), the type checker
  (\<^verbatim>\<open>src/type_checker\<close>) infers the types of its expressions, \<^verbatim>\<open>src/opt/fold.rs\<close> folds literals,
  and the evaluator (\<^verbatim>\<open>src/eval/mod.rs\<close>) runs it; both the checker and the evaluator compute tensor
  shapes with \<^verbatim>\<open>src/shapes\<close> and \<^verbatim>\<open>src/linalg.rs\<close>.  The \<^emph>\<open>core IR\<close> (\<^verbatim>\<open>src/ir/mod.rs\<close>) is an
  SSA instruction stream that \<^verbatim>\<open>src/opt/ir_canonical.rs\<close> canonicalises, \<^verbatim>\<open>src/opt/regalloc_dtk.rs\<close>
  assigns registers for, \<^verbatim>\<open>src/eval/ir_interp.rs\<close> previews and \<^verbatim>\<open>src/ir/compact/v3\<close> writes to the
  artifact format mic\<^verbatim>\<open>@\<close>3.  The \<^emph>\<open>interchange graph\<close>
  (\<^verbatim>\<open>src/ir/compact/v2\<close>) is a flat list of values with a type table and a metadata map, written to
  and read from a binary format (MIC-B) and a text format (mic@2).  \<^verbatim>\<open>src/phf\<close> builds perfect hash tables for string enums.

  \<^bold>\<open>Theories.\<close>
  \<^item> \<^verbatim>\<open>Prelude\<close>, \<^verbatim>\<open>Rust_Int\<close>, \<^verbatim>\<open>Rust_Text\<close>, \<^verbatim>\<open>Float64\<close>: what the sources use of Rust.  Integers
    are words of their width, \<open>Result\<close> is a sum with the error on the left, a mutable reader is threaded
    by \<open>bindM\<close>; \<open>f64\<close> is computed on its bit pattern.
  \<^item> \<^verbatim>\<open>Varint\<close>, \<^verbatim>\<open>Mic2_Types\<close>, \<^verbatim>\<open>Map_Limits\<close>, \<^verbatim>\<open>Micb_Encode\<close>, \<^verbatim>\<open>Micb_Decode\<close>: the interchange
    graph and MIC-B (\<^verbatim>\<open>varint.rs\<close>, \<^verbatim>\<open>types.rs\<close>, \<^verbatim>\<open>map_limits.rs\<close>, \<^verbatim>\<open>binary.rs\<close>).  The decoder is
    generic in its reader: the \<open>read\<close> method is an argument, and the locales \<open>byte_source\<close> (the contract
    of \<open>std::io::Read\<close>) and \<open>bounded_read\<close> state what it relies on; both are interpreted on the slice reader.
    \<open>interner\<close> is the string table's contract, interpreted on the encoder's.
  \<^item> \<^verbatim>\<open>Micb_Roundtrip\<close> and \<^verbatim>\<open>Micb_Safety\<close>: decoding inverts encoding; what is decoded from untrusted
    bytes is validated, within the limits the code enforces on maps, and paid for from the clone budget.
  \<^item> \<^verbatim>\<open>Rust_Lines\<close>, \<^verbatim>\<open>Mic2_Text\<close>: lines, words, characters and number formats as the standard library
    has them, and the text format mic@2 (\<^verbatim>\<open>emit.rs\<close>, \<^verbatim>\<open>parse.rs\<close>).  \<^verbatim>\<open>Mic2_Roundtrip\<close>: what the parser makes
    of emitted text, and the graphs it gives back exactly; \<^verbatim>\<open>Mic2_Safety\<close>: what holds of every parsed graph.
  \<^item> \<^verbatim>\<open>Ir\<close>, \<^verbatim>\<open>Ir_Canonical\<close>, \<^verbatim>\<open>Ir_Interp\<close>: the core IR, the canonicalisation pass with each of its
    sub-passes, and \<open>eval_ir\<close>.  \<^verbatim>\<open>Ir_Sound\<close> relates each sub-pass to the evaluator and composes them:
    canonicalisation keeps the reported result and is idempotent on modules without experts.
  \<^item> \<^verbatim>\<open>Ir_Verify\<close>: the two SSA verifiers of \<^verbatim>\<open>src/ir/verify.rs\<close>, the checks of dense constants and of
    aggregate-type tables, and the hand-over to a backend.  \<^verbatim>\<open>Ir_Verify_Sound\<close>: the consumer's verifier against
    program order, where the two agree, and that a verified straight-line module meets the preconditions of
    canonicalisation and is still verified after it.  Of \<^verbatim>\<open>src/ir/canonical_verify.rs\<close> it has the branch for modules
    without a bundle (\<open>verify_canonical_metadata\<close>); the check of a bundle is an argument.
  \<^item> \<^verbatim>\<open>Mic3_Format\<close>, \<^verbatim>\<open>Mic3_Emit\<close>, \<^verbatim>\<open>Mic3_Parse\<close>: the body of a mic\<^verbatim>\<open>@\<close>3 artifact (\<^verbatim>\<open>format.rs\<close>, \<^verbatim>\<open>emit.rs\<close>,
    \<^verbatim>\<open>parse.rs\<close>, \<^verbatim>\<open>boundary.rs\<close>), with every instruction, type annotation and registry; the depth of the recursive
    readers is the code's limit of 256 levels.  \<^verbatim>\<open>Mic3_Roundtrip\<close> and \<^verbatim>\<open>Mic3_Module\<close>: each reader inverts its
    writer, and so does the whole.  \<^verbatim>\<open>Mic3_Safety\<close>: what holds of every module read from untrusted bytes.
  \<^item> \<^verbatim>\<open>Phf\<close>: construction and lookup of the hash tables; \<^verbatim>\<open>Regalloc\<close>: use counts, ranking and plan.
  \<^item> \<^verbatim>\<open>Broadcast\<close>: the locale \<open>extent_join\<close> states what combining two extents must satisfy, and its
    lemmas are the algebra of whole shapes; \<^verbatim>\<open>Linalg\<close> interprets it on symbolic extents (\<open>dims\<close>) and
    \<^verbatim>\<open>Shape_Engine\<close> on concrete ones (\<open>sizes\<close>).  \<^verbatim>\<open>Shapes\<close> has the rules of \<^verbatim>\<open>shapes/mod.rs\<close>
    and the four further copies of broadcasting, proved equal.
  \<^item> \<^verbatim>\<open>Ast\<close>, \<^verbatim>\<open>Checker\<close>, \<^verbatim>\<open>Tensor_Eval\<close>: literals, identifiers, binary operators and every tensor
    operation, their type inference and their evaluation.  \<^verbatim>\<open>Tensor_Sound\<close> defines when a value conforms
    to a type and proves that a checked expression evaluates to a conforming value or stops with an
    arithmetic error.  \<^verbatim>\<open>Ast_Fold\<close> proves that folding keeps the value.  \<^verbatim>\<open>Suggest\<close> proves that the
    checker's \<open>did you mean\<close> distance is the least number of edits.
  \<^item> \<^verbatim>\<open>Stmt_Ast\<close>: scalar expressions and statements of the AST and their interpretation on integers, with
    block scopes and range loops.  \<^verbatim>\<open>Comptime\<close>, \<^verbatim>\<open>Scev\<close>, \<^verbatim>\<open>Collapse_Receipt\<close>, \<^verbatim>\<open>Collapse\<close>: the loop-collapse pass
    (\<^verbatim>\<open>src/opt/comptime.rs\<close>, \<^verbatim>\<open>scev.rs\<close>, \<^verbatim>\<open>collapse.rs\<close>, \<^verbatim>\<open>src/ir/compact/v3/collapse_receipt.rs\<close>).
    \<^verbatim>\<open>Collapse_Sound\<close>, \<^verbatim>\<open>Collapse_Geo\<close> and \<^verbatim>\<open>Collapse_Safety\<close> compare each replacement with its loop in the
    interpreter, and show what the pass reports and records;
    \<open>annotated\<close> scans a whole tree, where the scan of the pass enters statement lists only.
  \<^item> \<^verbatim>\<open>Autodiff\<close>: reverse-mode differentiation of the core IR (\<^verbatim>\<open>src/autodiff/engine.rs\<close>, \<^verbatim>\<open>rules.rs\<close>), which walks a
    module backwards and appends the instructions that accumulate adjoints.  \<^verbatim>\<open>Autodiff_Sound\<close> compares the
    gradient it builds with forward-mode differentiation of the scalar instructions, and the tangent with
    the change of the output when the constant is shifted.
  \<^item> \<^verbatim>\<open>Spec2Isabelle\<close> (here): the properties, each with a concrete instance where it has hypotheses.

  \<^bold>\<open>Bounds and fuel.\<close>  No definition adds fuel of its own (the fixed-point iteration has the fuel and the
  depth limit of the code, \<open>Q16_FUEL\<close> and \<open>CT_MAX_DEPTH\<close>): loops are structural or carry a termination proof, and
  readers stop because a limited reader has a finite budget.  Statements about shapes assume ranks below
  \<open>2 ^ 31\<close> and extents below \<open>2 ^ 62\<close>, and statements about encodings lengths below \<open>2 ^ 63\<close>, which are the
  limits of \<open>i32\<close> axes, of \<open>i64\<close> slice arithmetic and of an allocation.  The flag \<open>oc\<close> of an operation says
  whether the build checks arithmetic overflow; statements hold for both values unless they name one.

  \<^bold>\<open>Parameters.\<close>  Node kinds outside the fragment are the payload of \<open>Other\<close>; their inference and
  evaluation, and the thread-local tables of the evaluator, are arguments (\<open>eval_ctx\<close>).  The part of a
  module record that no modelled pass reads is its extension.  Hash-map iteration order is the order of
  an association list, and the results that must not depend on it are proved not to.

  \<^bold>\<open>Not modelled.\<close>  The parser, statements and declarations in the checker, the lowering to MLIR text, the
  gradient tape, the build driver and the tools around them: they are large and work on the full AST.
  The evidence chains and signatures of mic\<^verbatim>\<open>@\<close>3 rest on SHA-256 and ed25519, its draft format v0x04 on the
  canonical type bundle.  Rendering of messages
  is left out everywhere: a message is a constructor with the arguments of its \<open>format!\<close> call.
\<close>

section \<open>Properties\<close>

subsection \<open>Concrete objects of the witnesses\<close>

definition sample_graph :: graph where
  "sample_graph = residual_block\<lparr>g_map := [(''b'', MapInt (-5)),
     (''a'', MapNested [(''y'', MapBytes [1, 2]), (''x'', MapString ''X'')])]\<rparr>"

definition sample_bytes :: "u8 list" where
  "sample_bytes = [0x4D,0x49,0x43,0x42,2,7,3,49,50,56,1,88,1,87,1,98,1,97,1,120,1,121,0,2,0,2,0,0,0,1,0,7,0,1,
     0,1,2,0,1,3,1,2,0,2,0,1,2,1,2,3,2,2,5,1,4,2,1,2,5,0,6,77,2,4,3,2,5,0,1,6,2,2,1,2,3,1,9]"

definition sample_module :: ir_module where
  "sample_module = \<lparr>instrs = [ConstI64 0 3, ConstI64 1 4, BinOp 2 BAdd 1 0, BinOp 3 BMul 0 1, ConstI64 4 2,
     BinOp 5 BMul 2 4, Output 5], next_id = 6, exports = {}, canonical_types = None\<rparr>"

definition tensor_module :: ir_module where
  "tensor_module = \<lparr>instrs = [ConstTensor 0 TF32 [Known 2] None, ConstTensor 1 TF32 [Known 1] None,
     BinOp 2 BAdd 1 0, Output 2], next_id = 3, exports = {}, canonical_types = None\<rparr>"

definition expert :: "string \<Rightarrow> instr list \<Rightarrow> instr" where
  "expert name body = FnDef name [] (Some 0) body (Some f64_one) None []"

definition reap_module :: ir_module where
  "reap_module = \<lparr>instrs = [expert ''a'' [Call 0 ''b'' [] None], expert ''b'' [ConstI64 0 7]], next_id = 0,
     exports = {}, canonical_types = None\<rparr>"

definition reap_once :: ir_module where
  "reap_once = reap_module\<lparr>instrs := [expert ''a'' [ConstI64 0 0], expert ''b'' [ConstI64 0 7]]\<rparr>"

definition reap_twice :: ir_module where
  "reap_twice = reap_module\<lparr>instrs := [expert ''a'' [ConstI64 0 0], expert ''b'' [ConstI64 0 0]]\<rparr>"

definition sample_keys :: "(int \<times> u8 list) list" where
  "sample_keys = [(0, [65]), (1, [66])]"

definition sample_plan :: phf_plan where
  "sample_plan = (case build sample_keys of Built p \<Rightarrow> p
     | Fallback \<Rightarrow> \<lparr>pp_n = 0, pp_m = 0, pp_np = 0, pp_disp = [], pp_slot_ord = [], pp_slot_len = [], pp_slot_off = [], pp_pool = []\<rparr>)"

lemma sample_fields [simp]:
  "g_symbols sample_graph = []"
  "g_types sample_graph = [tensor_type_new F16 [''128'', ''128''], tensor_type_new F16 [''128'']]"
  "g_values sample_graph = [VArg ''X'' 0, VParam ''W'' 0, VParam ''b'' 1, VNode OpMatmul [0, 1],
     VNode OpAdd [3, 2], VNode OpRelu [4], VNode OpAdd [5, 0]]"
  "g_output sample_graph = 6"
  "g_map sample_graph = [(''b'', MapInt (-5)), (''a'', MapNested [(''y'', MapBytes [1, 2]), (''x'', MapString ''X'')])]"
  by (simp_all add: sample_graph_def residual_block_def Let_def graph_new_def map_new_def add_type_def
      add_value_def set_output_def)

lemma sample_canonical_map [simp]:
  "canonicalize [(''b'', MapInt (-5)), (''a'', MapNested [(''y'', MapBytes [1, 2]), (''x'', MapString ''X'')])] =
    [(''a'', MapNested [(''x'', MapString ''X''), (''y'', MapBytes [1, 2])]), (''b'', MapInt (-5))]"
  by code_simp

lemma sample_strings: "enc_strings (build_string_table sample_graph encoder_new) =
    [''128'', ''X'', ''W'', ''b'', ''a'', ''x'', ''y'']"
  by code_simp

lemma sample_emit: "emit_micb sample_graph = Some sample_bytes"
  by code_simp

lemma sample_rust_graph: "rust_graph sample_graph"
  by (simp add: rust_graph_def graph_strings_def List.map_filter_simps value_name_def value_wire_ok_def
      opcode_wire_ok_def tensor_type_new_def valid_string_def as_bytes_def)

lemma sample_map_within: "map_within (g_map sample_graph)"
  by (simp add: map_within_def check_map_key_iff [symmetric] check_map_key_def validate_map_key_syntax_def
      check_segment_def is_ascii_alphabetic_def is_ascii_alphanumeric_def MAX_MAP_KEY_BYTES_def
      MAX_MAP_KEY_SEGMENTS_def MAX_MAP_ENTRIES_def MAX_MAP_NESTING_def MAX_MAP_STRING_BYTES_def MAX_MAP_BYTES_def)

lemma sample_clone_cost:
  "clone_cost sample_graph \<le> clone_budget (enc_strings (build_string_table sample_graph encoder_new))"
  by (simp add: sample_strings clone_budget_def opcode_cost_def MICB_CLONE_AMPLIFICATION_FACTOR_def
      MICB_MIN_CLONE_BUDGET_def clone_cost_def type_cost_def tensor_type_new_def)

lemma sample_parse: "parse_micb slice_read sample_bytes = Inr (sample_graph\<lparr>g_map := canonicalize (g_map sample_graph)\<rparr>)"
proof (rule slice.parse_emit)
  show "emit_micb sample_graph = Some sample_bytes" by (rule sample_emit)
  show "length sample_bytes \<le> MAX_MICB_INPUT" by (simp add: sample_bytes_def MAX_MICB_INPUT_def)
  show "\<forall>i < length (g_values sample_graph). value_ok (length (g_types sample_graph)) i (g_values sample_graph ! i)"
    by (simp add: All_less_Suc2 value_ok_def)
qed (simp_all add: sample_rust_graph sample_map_within [simplified] sample_clone_cost)

lemma sample_run: "canonicalize_module True sample_module =
    Some (sample_module\<lparr>instrs := [ConstI64 5 14, Output 5], next_id := 6\<rparr>)"
  by (simp add: sample_module_def) code_simp

lemma reap_first_run: "canonicalize_module oc reap_module = Some reap_once"
  by (simp add: reap_module_def reap_once_def expert_def canonicalize_module_def has_populated_canonical_def
      module_has_reap_threshold_def is_reap_fn_def prune_dead_experts_def is_plain_fn_def called_names_def
      List.map_filter_simps call_name_def tombstone_def prune_dead_def dst_used_def reorder_commutative_ops_def
      reorder_instr_def constant_fold_def fold_instr_def next_sequential_id_def instruction_id_bound_def Let_def)

lemma reap_second_run: "canonicalize_module oc reap_once = Some reap_twice"
  by (simp add: reap_module_def reap_once_def reap_twice_def expert_def canonicalize_module_def has_populated_canonical_def
      module_has_reap_threshold_def is_reap_fn_def prune_dead_experts_def is_plain_fn_def called_names_def
      List.map_filter_simps call_name_def tombstone_def prune_dead_def dst_used_def reorder_commutative_ops_def
      reorder_instr_def constant_fold_def fold_instr_def next_sequential_id_def instruction_id_bound_def Let_def)

lemma sample_build: "build [(0, [65]), (1, [66])] = Built sample_plan"
proof -
  have h: "hash_a [65] = 65" "hash_a [66] = 66" "hash_b [65] = 65" "hash_b [66] = 66"
    by (simp_all add: hash_a_def hash_b_def mix_def MULT_A_def MULT_B_def MOD31_def)
  have buckets: "make_buckets sample_keys 2 = [[1], [0]]"
  proof -
    have "replicate 2 [] = [[], [] :: usize list]" by (simp add: numeral_2_eq_2)
    then show ?thesis by (simp add: make_buckets_def sample_keys_def h upt_rec Let_def)
  qed
  have order: "bucket_order [[1], [0]] = [0, 1]" by (simp add: bucket_order_def upt_rec)
  have "\<exists>p. ladder sample_keys [[1], [0]] [0, 1] 2 (Suc 14) 0 = Built p"
    unfolding ladder.simps(2)
    by (simp add: sample_keys_def h slot_for_def Let_def MAX_SLOT_CHECKS_def claim_def numeral_2_eq_2 [symmetric])
  then have "\<exists>p. build sample_keys = Built p"
    using buckets order
    by (simp add: build_def Let_def has_duplicate_def sample_keys_def MAX_KEYS_def MAX_TOTAL_BYTES_def ORD_EMPTY_def numeral_2_eq_2)
  then show ?thesis by (auto simp: sample_plan_def sample_keys_def)
qed

definition sample_span :: ast_span where
  "sample_span = \<lparr>sp_start = 0, sp_end = 9\<rparr>"

definition sample_types :: type_env where
  "sample_types = [(''a'', TensorTy (tensor_ty_new TF32 [Sym ''n'', Known 1])), (''b'', TensorTy (tensor_ty_new TF32 [Known 3]))]"

definition sample_values :: "(string \<times> ir_value) list" where
  "sample_values = [(''a'', VTensor (tensor_val_new TF32 [Sym ''n'', Known 1] (Some f64_one))),
     (''b'', VTensor (tensor_val_new TF32 [Known 3] None))]"

definition sample_expr :: "unit node" where
  "sample_expr = CallTensorSum (Binary AstMul (Binary AstAdd (Lit (LIdent ''a'') sample_span) (Lit (LIdent ''b'') sample_span) sample_span)
     (CallIndex (CallTensorRand [2, 3] sample_span) 0 1 sample_span) sample_span) [-1] True sample_span"

definition sample_type :: value_type where
  "sample_type = TensorTy (tensor_ty_new TF32 [Sym ''n'', Known 1])"

definition sample_ctx :: "unit eval_ctx" where
  "sample_ctx = \<lparr>cx_overflow_checks = True, cx_bound = (\<lambda>_. False), cx_const = (\<lambda>_ _. Inr None), cx_u64_vars = {},
     cx_other_u64 = (\<lambda>_. False), cx_str_record = (\<lambda>_. False), cx_other = (\<lambda>_ _ _. failM Unsupported)\<rparr>"

lemma sample_ctx_fields [simp]: "cx_str_record sample_ctx = (\<lambda>_. False)" "cx_bound sample_ctx = (\<lambda>_. False)"
  by (simp_all add: sample_ctx_def)

lemma sample_static:
  "static_expr (infer_expr (\<lambda>_. False) (\<lambda>_ _ _. type_err TypePanic sample_span) sample_types) sample_types sample_expr"
proof -
  let ?inf = "infer_expr (\<lambda>_. False) (\<lambda>_ _ _. type_err TypePanic sample_span) sample_types"
  let ?nodes = "subnodes sample_expr"
  have "list_all (static_node ?inf sample_types) ?nodes" by code_simp
  moreover have "list_all (\<lambda>n. case ?inf n of Inr (TensorTy t, _) \<Rightarrow> length (ty_shape t) \<le> 2 | _ \<Rightarrow> True) ?nodes"
    by code_simp
  ultimately show ?thesis
    by (auto simp: static_expr_def rank_fits_def list_all_iff split: sum.splits value_type.splits prod.splits)
qed

definition concat_graph :: graph where
  "concat_graph = graph_new\<lparr>g_types := [tensor_type_new F32 [''4'']],
     g_values := [VArg ''X'' 0, VArg ''Y'' 0, VNode (OpConcat 1) [0, 1]], g_output := 2\<rparr>"

lemma concat_fields [simp]:
  "g_symbols concat_graph = []" "g_types concat_graph = [tensor_type_new F32 [''4'']]"
  "g_values concat_graph = [VArg ''X'' 0, VArg ''Y'' 0, VNode (OpConcat 1) [0, 1]]"
  "g_output concat_graph = 2" "g_map concat_graph = []"
  by (simp_all add: concat_graph_def graph_new_def map_new_def)

lemma canonicalize_empty: "canonicalize [] = []"
  by (simp add: canonicalize_def)

lemma concat_text_graph: "text_graph concat_graph"
proof -
  have "text_token ''X''" "text_token ''Y''" "text_token ''4''" by (rule token_bytes; simp add: ws_byte_def)+
  moreover have "(4 :: nat) \<le> MAX_SHAPE_DIMS" "(3 :: nat) \<le> MAX_VALUE_COUNT" by (simp_all add: MAX_SHAPE_DIMS_def MAX_VALUE_COUNT_def)
  ultimately show ?thesis
    by (simp add: text_graph_def text_type_def text_value_def tensor_type_new_def)
qed

lemma concat_text_reading: "graph_reading concat_graph =
    concat_graph\<lparr>g_values := [VArg ''X'' 0, VArg ''Y'' 0, VNode (OpConcat 0) [1, 0, 1]]\<rparr>"
  by (simp add: graph_reading_def concat_reading del: text_reading.simps(1))
    (simp add: concat_graph_def graph_new_def map_new_def canonicalize_empty)

lemma concat_text_size: "length (emit_mic2 concat_graph) \<le> MAX_INPUT_SIZE" "length (str_lines (emit_mic2 concat_graph)) \<le> MAX_LINE_COUNT"
proof -
  have "length (emit_mic2 concat_graph) = 42" by code_simp
  moreover have "length (str_lines (emit_mic2 concat_graph)) = 6" by code_simp
  ultimately show "length (emit_mic2 concat_graph) \<le> MAX_INPUT_SIZE" "length (str_lines (emit_mic2 concat_graph)) \<le> MAX_LINE_COUNT"
    by (simp_all add: MAX_INPUT_SIZE_def MAX_LINE_COUNT_def)
qed

lemma sample_exact_graph: "exact_graph sample_graph"
proof -
  have "text_token ''X''" "text_token ''W''" "text_token ''b''" "text_token ''128''" by (rule token_bytes; simp add: ws_byte_def)+
  moreover have "(2 :: nat) \<le> MAX_SHAPE_DIMS" "(7 :: nat) \<le> MAX_VALUE_COUNT" by (simp_all add: MAX_SHAPE_DIMS_def MAX_VALUE_COUNT_def)
  ultimately show ?thesis
    by (simp add: exact_graph_def text_type_def exact_value_def exact_opcode_def tensor_type_new_def)
qed

lemma sample_text_size: "length (emit_mic2 sample_graph) \<le> MAX_INPUT_SIZE" "length (str_lines (emit_mic2 sample_graph)) \<le> MAX_LINE_COUNT"
proof -
  have "length (emit_mic2 sample_graph) = 141" by code_simp
  moreover have "length (str_lines (emit_mic2 sample_graph)) = 18" by code_simp
  ultimately show "length (emit_mic2 sample_graph) \<le> MAX_INPUT_SIZE" "length (str_lines (emit_mic2 sample_graph)) \<le> MAX_LINE_COUNT"
    by (simp_all add: MAX_INPUT_SIZE_def MAX_LINE_COUNT_def)
qed

lemma sample_map_text: "\<forall>s \<in> set (map_strings (canonicalize (g_map sample_graph))). valid_string s"
  by (simp add: valid_string_def as_bytes_def)

lemma sample_text: "parse_mic2 (emit_mic2 sample_graph) = Inr (sample_graph\<lparr>g_map := canonicalize (g_map sample_graph)\<rparr>)"
  by (rule parse_emit_mic2 [OF _ sample_exact_graph sample_map_within sample_map_text sample_text_size])
    (simp add: validate_def validate_value_def)

definition plain_module :: "instr list \<Rightarrow> usize \<Rightarrow> typed_module" where
  "plain_module is n = \<lparr>instrs = is, next_id = n, exports = {''f''}, canonical_types = None, m_value_types = []\<rparr>"

definition loop_module :: typed_module where
  "loop_module = plain_module [ConstI64 0 0, ConstI64 1 9,
     While 2 [BinOp 2 BLt 0 1] [BinOp 3 BAdd 0 1] [(''i'', 3)] [0] [4], Output 4] 5"

definition branch_module :: typed_module where
  "branch_module = plain_module [ConstI64 0 5,
     IfInstr 1 [ConstI64 1 1] [BinOp 2 BAdd 0 0] 2 [ConstI64 3 0] 3 4 [] [], Output 4] 5"

definition leak_module :: typed_module where
  "leak_module = plain_module [ConstI64 0 1, IfInstr 0 [] [ConstI64 1 5] 1 [ConstI64 2 6] 2 3 [] [], Output 1] 4"

definition param_module :: "instr list \<Rightarrow> typed_module" where
  "param_module body = plain_module [FnDef ''f'' [(''x'', 0)] None body None None []] 0"

definition straight_module :: typed_module where
  "straight_module = plain_module [ConstI64 0 5, BinOp 1 BAdd 0 0, ConstI64 2 2, BinOp 3 BSub 1 2, Output 3] 4"

lemmas verifier_defs = verify_module_def validate_operands_def validate_use_def undefined_operand_def operand_sanity_def
  define_result_def is_if_def is_region_def is_param_def expose_region_definitions_def exposed_ids_def require_def
  validate_if_merges_def top_level_ids_def instruction_id_bound_def check_value_types_scope_def check_ssa_well_formed_def
  check_operands_def violation_def

lemmas no_metadata_defs = verify_canonical_metadata_def metadata_defs

lemma branch_canonical: "canonicalize_module oc branch_module = Some (branch_module\<lparr>instrs := tl (instrs branch_module)\<rparr>)"
  by (simp add: branch_module_def plain_module_def canonicalize_module_def has_populated_canonical_def
      module_has_reap_threshold_def is_reap_fn_def prune_dead_def dst_used_def used_set_def mark_instr_def mark_def is_used_def
      reorder_commutative_ops_def reorder_instr_def constant_fold_def fold_instr_def next_sequential_id_def
      instruction_id_bound_def Let_def eval_nat_numeral)


text \<open>
  The evaluator reports the last value computed, even after an output: without the final output of the properties below,
  dead-code elimination changes what it reports.
\<close>

definition dead_tail_module :: typed_module where
  "dead_tail_module = plain_module [ConstI64 0 5, Output 0, BinOp 1 BAdd 0 0] 2"

lemma dead_tail_result:
  "eval_ir oc dead_tail_module = Some (VInt 10) \<and>
   Option.bind (canonicalize_module oc dead_tail_module) (eval_ir oc) = Some (VInt 5)"
proof
  show "eval_ir oc dead_tail_module = Some (VInt 10)"
    by (cases oc; simp add: dead_tail_module_def plain_module_def; code_simp)
  have "canonicalize_module oc dead_tail_module = Some (plain_module [ConstI64 0 5, Output 0] 1)"
    by (simp add: dead_tail_module_def plain_module_def canonicalize_module_def has_populated_canonical_def
      module_has_reap_threshold_def is_reap_fn_def prune_dead_def dst_used_def used_set_def mark_instr_def mark_def is_used_def
      reorder_commutative_ops_def reorder_instr_def constant_fold_def fold_instr_def next_sequential_id_def
      instruction_id_bound_def Let_def eval_nat_numeral)
  moreover have "eval_ir oc (plain_module [ConstI64 0 5, Output 0] 1) = Some (VInt 5)"
    by (cases oc; simp add: plain_module_def; code_simp)
  ultimately show "Option.bind (canonicalize_module oc dead_tail_module) (eval_ir oc) = Some (VInt 5)" by simp
qed

definition sp0 :: ast_span where "sp0 = \<lparr>sp_start = 0, sp_end = 0\<rparr>"

definition collapse_attr :: attribute where
  "collapse_attr = \<lparr>attr_name = ''collapse'', attr_args = [], attr_span = sp0\<rparr>"

definition plain_cx :: "unit int_ctx" where
  "plain_cx = \<lparr>ic_overflow_checks = False, ic_bound = (\<lambda>_. False), ic_global = (\<lambda>_ _. Inl OtherError),
     ic_u64_vars = {}, ic_other_u64 = (\<lambda>_. False), ic_str_record = (\<lambda>_. False), ic_other = (\<lambda>_ _. Inl OtherError),
     ic_threaded = (\<lambda>_ _. Inl OtherError)\<rparr>"

abbreviation "nvar v \<equiv> SLit (LIdent v) sp0 :: unit snode"

abbreviation "nint n \<equiv> SLit (LInt n) sp0 :: unit snode"

definition sum_body :: "unit snode list" where
  "sum_body = [SAssign ''s'' (SBinary AstAdd (nvar ''s'') (SBinary AstMul (nint 3) (nvar ''i'') sp0) sp0) sp0]"

definition loop_env :: int_env where "loop_env = [''s'' \<mapsto> 5, ''n'' \<mapsto> 3]"

definition ladder_names :: "ast_span \<Rightarrow> string list" where
  "ladder_names sp = [pow_base sp, pow_exp sp, pow_pow sp, pow_k sp]"

lemma plain_plain_cx: "plain_int_ctx plain_cx"
  by (simp add: plain_int_ctx_def plain_cx_def)

definition collapse_ctx0 :: "unit collapse_ctx" where
  "collapse_ctx0 = \<lparr>cc_diags = [], cc_receipts = [], cc_fns = Map.empty\<rparr>"

definition wide_env :: int_env where
  "wide_env = [''s'' \<mapsto> 0, ''a'' \<mapsto> 0x4000000000000000, ''b'' \<mapsto> 0x4000000000000001]"

definition square_loop :: "unit snode list" where
  "square_loop =
     [SLet ''x'' True None (nint 0) sp0,
      SIf (nvar ''c'') [SAssign ''x'' (nint 1) sp0] None sp0,
      SFor ''i'' (nint 0) (nint 3) [SAssign ''x'' (SBinary AstMul (nvar ''x'') (nvar ''x'') sp0) sp0] [collapse_attr] sp0]"

lemma square_settles:
  "iterate_user_fixed_point oc (SBinary AstMul (nvar ''x'') (nvar ''x'') sp0) ''x'' fns 0 (q16_trip_count 0 3) = Some (Fixed 0)"
proof -
  have "q16_trip_count 0 3 = 3" by (simp add: q16_trip_count_def saturating_sub_def)
  moreover have "nat (min (sint (3 :: i64)) (sint Q16_FUEL)) = 3" by (simp add: Q16_FUEL_def)
  ultimately show ?thesis
    by (simp add: numeral_3_eq_3 iterate_user_fixed_point_def q_in_range_def Q16_MIN_def Q16_MAX_def map_step_def ct_binary_def
        arith_abs_def i64_MIN_def Q16_DIVERGE_def)
qed

lemma square_loop_collapsed:
  "rewrite_stmt_list oc [] square_loop collapse_ctx0 =
     Some ([SLet ''x'' True None (nint 0) sp0, SIf (nvar ''c'') [SAssign ''x'' (nint 1) sp0] None sp0,
       SAssign ''x'' (nint 0) sp0], collapse_ctx0)"
  using square_settles [of oc "cc_fns collapse_ctx0"]
  by (simp add: square_loop_def collapse_attr_def COLLAPSE_ATTR_def recognize_for_def recognize_geometric_def
      recognize_q16_map_def body_assignment_def bound_varies_def build_q16_collapse_def find_const_seed_def
      assign_const_def mk_int_def Let_def)

definition cubic_module :: typed_module where
  "cubic_module = \<lparr>instrs = [ConstI64 0 3, BinOp 1 BMul 0 0, BinOp 2 BMul 1 0, BinOp 3 BSub 2 0, Output 3], next_id = 4,
     exports = {}, canonical_types = None, m_value_types = []\<rparr>"

lemma cubic_verified: "verify_module (verify_canonical_metadata with_bundle no_bundle) cubic_module = Inr ()"
  by (simp add: cubic_module_def verifier_defs no_metadata_defs)

lemma bundle_free_accepted:
  "canonical_types g = None \<Longrightarrow> \<not> instruction_metadata_present (instrs g) \<Longrightarrow>
     verify_canonical_metadata with_bundle no_bundle g = Inr ()"
  by (simp add: verify_canonical_metadata_def)

definition call_module :: "string \<Rightarrow> i64 \<Rightarrow> typed_module" where
  "call_module f n = \<lparr>instrs = [ConstI64 0 n, Call 1 f [0] None, BinOp 2 BMul 1 1, Output 2], next_id = 3,
     exports = {}, canonical_types = None, m_value_types = []\<rparr>"

lemma call_verified: "verify_module (verify_canonical_metadata with_bundle no_bundle) (call_module f n) = Inr ()"
  by (simp add: call_module_def verifier_defs no_metadata_defs)

lemma call_backward:
  "propagate_gradients (seed_output 2 (new_builder (call_module f n))) = Inr
     \<lparr>gb_primal = instrs (call_module f n),
      gb_instrs = instrs (call_module f n) @ [ConstI64 3 1, BinOp 4 BMul 3 1, BinOp 5 BMul 3 1, BinOp 6 BAdd 4 5],
      gb_next = 7, gb_grads = [2 \<mapsto> 3, 1 \<mapsto> 6], gb_leaves = [0]\<rparr>"
  by (simp add: call_module_def propagate_gradients_def seed_output_def new_builder_def add_const_i64_def push_instr_def
      engine_dst_def apply_rule_def binop_rule_def add_binop_def add_grad_def leaf_ids_def is_leaf_def map_filter_simps fun_upd_twist)

lemma call_pruned:
  "canonicalize_module oc \<lparr>instrs = instrs (call_module f n) @ [ConstI64 3 1, BinOp 4 BMul 3 1, BinOp 5 BMul 3 1, BinOp 6 BAdd 4 5],
     next_id = 7, exports = {}, canonical_types = None, m_value_types = []\<rparr> = Some (call_module f n)"
  by (simp add: call_module_def canonicalize_module_def has_populated_canonical_def
      module_has_reap_threshold_def is_reap_fn_def prune_dead_def dst_used_def mark_instr_def is_used_def mark_def
      reorder_commutative_ops_def reorder_instr_def constant_fold_def fold_instr_def used_set_def Let_def
      lookup_const_def eval_nat_numeral next_sequential_id_def instruction_id_bound_def)

definition lone_output :: "value_id \<Rightarrow> mic3_module" where
  "lone_output v = \<lparr>instrs = [Output v], next_id = 0, exports = {}, canonical_types = None, m_value_types = [],
     m_struct_defs = [], m_const_array_defs = [], m_repr_c_structs = []\<rparr>"

lemma lone_output_emits: "emit_mic3 dbg (lone_output v) =
   Some (MIC3_MAGIC @ [MIC3_VERSION_BASE, 0, 0, 0, 1, OP_OUTPUT] @ write_vid v @ [0, 0, 0])"
proof -
  have w: "write_usize 0 = [0]" "write_usize (Suc 0) = [1]"
    by (simp_all add: write_usize_def uleb128_write.simps)
  have i: "\<not> instr_metadata (Output v)" "\<not> instr_has_value_types (Output v)"
    by (subst instr_metadata.simps instr_has_value_types.simps, simp add: own_metadata_def own_value_types_def instr_bodies_def)+
  show ?thesis
    by (simp add: w i lone_output_def emit_mic3_def emit_mic3_legacy_def has_populated_canonical_def instruction_metadata_present_def
      mic3_string_table_def collect_repr_c_strings_def collect_const_array_def_strings_def collect_struct_def_strings_def
      collect_export_strings_def sorted_exports_def collect_strings_def encoder_new_def intern_all_def mic3_version_def
      has_scoped_value_types_def instrs_have_scoped_value_types_def emit_seq_def emit_list_def MIC3_VERSION_BASE_def MIC3_VERSION_def)
qed

lemma lone_output_size: "length (MIC3_MAGIC @ [MIC3_VERSION_BASE, 0, 0, 0, 1, OP_OUTPUT] @ write_vid v @ [0, 0, 0]) \<le> 24"
proof -
  have "length (write_vid v) \<le> Suc 9"
    unfolding write_vid_def write_usize_def by (rule length_uleb128_write_le) (use unat_less_u64 [of "of_nat v"] in simp)
  then show ?thesis by (simp add: MIC3_MAGIC_def)
qed

lemma instr_fits_mono: "instr_fits d i \<Longrightarrow> d \<le> d' \<Longrightarrow> instr_fits d' i"
proof (induction d arbitrary: i d')
  case (Suc d)
  then show ?case by (cases d') auto
qed simp

lemma type_fits_mono: "type_fits d t \<Longrightarrow> d \<le> d' \<Longrightarrow> type_fits d' t"
proof (induction d arbitrary: t d')
  case (Suc d)
  then show ?case by (cases d') auto
qed simp

lemma lone_output_fits: "v < 2 ^ 64 \<Longrightarrow> mic3_fits (lone_output v)"
proof -
  assume "v < 2 ^ 64"
  then have "instr_fits (Suc 0) (Output v)" by (simp add: own_fits_def instr_bodies_def own_value_types_def table_fits_def)
  then have "instr_fits MAX_MIC3_DEPTH (Output v)" by (rule instr_fits_mono) (simp add: MAX_MIC3_DEPTH_def)
  then show ?thesis
    by (simp add: mic3_fits_def lone_output_def registry_def module_refs_def sorted_exports_def table_fits_def)
qed

lemma lone_output_parsed:
  assumes "v < 2 ^ 64"
  shows "parse_mic3_body oc v04 (MIC3_MAGIC @ [MIC3_VERSION_BASE, 0, 0, 0, 1, OP_OUTPUT] @ write_vid v @ [0, 0, 0]) =
    (if v + 1 < 2 ^ 64 then Some (Inr ((lone_output v)\<lparr>next_id := v + 1\<rparr>)) else if oc then None else Some (Inr (lone_output v)))"
proof -
  let ?bs = "MIC3_MAGIC @ [MIC3_VERSION_BASE, 0, 0, 0, 1, OP_OUTPUT] @ write_vid v @ [0, 0, 0]"
  have n: "next_id (lone_output v) = 0" "canonical_types (lone_output v) = None" "instrs (lone_output v) = [Output v]"
      "mic3_copies (lone_output v) = 0"
    by (simp_all add: lone_output_def mic3_copies_def module_refs_def sorted_exports_def)
  have b: "top_level_bound oc [Output v] = id_after oc v"
    by (simp add: top_level_bound_def bound_ids_def id_after_def split: bind_splits)
  have "parse_mic3_body oc v04 ?bs = map_option (\<lambda>b. Inr ((lone_output v)\<lparr>next_id := max (next_id (lone_output v)) b\<rparr>)) (top_level_bound oc (instrs (lone_output v)))"
    by (rule parse_emitted_body [OF lone_output_fits [OF assms] n(2) lone_output_emits])
      (use lone_output_size [of v] in \<open>simp_all add: n MAX_MIC3_INPUT_def\<close>)
  then show ?thesis by (auto simp: n b id_after_def lone_output_def)
qed

definition sample_body :: "instr list" where
  "sample_body = [ConstI64 1 5, BinOp 2 BAdd 0 1, While 3 [BinOp 3 BLt 1 2] [Break [(''x'', 1)]] [(''x'', 1)] [1] [4], Return (Some 2)]"

definition sample_mic3 :: mic3_module where
  "sample_mic3 = \<lparr>instrs = [Param 0 ''x'' 0, FnDef ''f'' [(''x'', 0)] (Some 2) sample_body None None [(1, \<lparr>at_elem_dtype = TI64, at_size = Dynamic\<rparr>)],
       Call 1 ''f'' [0] None, ConstTensor 2 TF32 [Known 2, Sym ''n''] None, Output 1],
     next_id = 3, exports = {''f''}, canonical_types = None, m_value_types = [],
     m_struct_defs = [(''P'', [''x'', ''y''])], m_const_array_defs = [(''T'', [1, -1])],
     m_repr_c_structs = [(''P'', [AtNamed ''Q'', AtArray AtScalarI32 4])]\<rparr>"

lemma sample_mic3_size: "length (the (emit_mic3 True sample_mic3)) \<le> 1024 \<and> 1 \<le> length (the (emit_mic3 True sample_mic3))"
  by code_simp

lemma sample_mic3_fits: "mic3_fits sample_mic3"
proof -
  have i3: "instr_fits (Suc (Suc (Suc 0))) i" if "i \<in> set (instrs sample_mic3)" for i
    using that by (auto simp: sample_mic3_def sample_body_def own_fits_def instr_bodies_def own_value_types_def table_fits_def
      dim_nats_def opt_nats_def)
  have "instr_fits MAX_MIC3_DEPTH i" if "i \<in> set (instrs sample_mic3)" for i
    by (rule instr_fits_mono, rule i3 [OF that]) (simp add: MAX_MIC3_DEPTH_def)
  moreover have t2: "type_fits (Suc (Suc 0)) t" if "t \<in> {AtNamed ''Q'', AtArray AtScalarI32 4}" for t
    using that by (auto simp: own_type_fits_def type_children_def)
  have "type_fits MAX_MIC3_DEPTH t" if "t \<in> {AtNamed ''Q'', AtArray AtScalarI32 4}" for t
    by (rule type_fits_mono, rule t2 [OF that]) (simp add: MAX_MIC3_DEPTH_def)
  moreover have "valid_string s" if "s \<in> set (module_refs sample_mic3)" for s
    using that by (auto simp: module_refs_def sample_mic3_def sample_body_def sorted_exports_def dim_refs_def valid_string_def as_bytes_def opt_refs_def)
  ultimately show ?thesis
    by (simp add: mic3_fits_def) (simp add: sample_mic3_def registry_def table_fits_def)
qed

lemma sample_mic3_copies: "mic3_copies sample_mic3 \<le> 100"
  by (simp add: mic3_copies_def module_refs_def sample_mic3_def sample_body_def sorted_exports_def dim_refs_def opt_refs_def)

text \<open>
  C1.  Type soundness of the tensor fragment: an expression the type checker accepts evaluates to a
  value of exactly the inferred type, dtype and shape with its symbols included, or stops with a
  division by zero or an overflow panic. It never ends in an unsupported operation, a shape mismatch
  or an out-of-bounds access. Conditions: no string literal and no node outside the fragment occurs,
  every identifier is a typed variable of a conforming environment (no imported symbol or unbound
  enum variant), no integer is taken for a string record, ranks fit in a vector, and where both
  sides would invent a symbol (slices and convolutions) the operand shapes are known.
\<close>

theorem tensor_type_soundness:
  assumes "infer_expr vs other \<Gamma> e = Inr (ty, sp)" "static_expr (infer_expr vs other \<Gamma>) \<Gamma> e"
    and "env_conforms env \<Gamma>" "plain_ctx cx"
  shows "(\<exists>v c'. eval_value_expr_mode cx env e c = Inr (v, c') \<and> conforms v ty) \<or>
    (\<exists>err. eval_value_expr_mode cx env e c = Inl err \<and>
       err \<in> {DivZero, Panicked DivisionOverflow, Panicked CapacityOverflow})"
proof -
  have "safe ty (eval_value_expr_mode cx env e c)" using infer_expr_sound [OF assms(4,3,1,2)] .
  then show ?thesis by (cases "eval_value_expr_mode cx env e c") (auto simp: arith_errors_def)
qed

theorem tensor_type_soundness_witness:
  "(\<exists>v c'. eval_value_expr_mode sample_ctx (map_of sample_values) sample_expr 0 = Inr (v, c') \<and> conforms v sample_type) \<or>
    (\<exists>err. eval_value_expr_mode sample_ctx (map_of sample_values) sample_expr 0 = Inl err \<and>
       err \<in> {DivZero, Panicked DivisionOverflow, Panicked CapacityOverflow})"
proof (rule tensor_type_soundness)
  show "infer_expr (\<lambda>_. False) (\<lambda>_ _ _. type_err TypePanic sample_span) sample_types sample_expr = Inr (sample_type, sample_span)"
    by code_simp
  show "static_expr (infer_expr (\<lambda>_. False) (\<lambda>_ _ _. type_err TypePanic sample_span) sample_types) sample_types sample_expr"
    by (rule sample_static)
  show "env_conforms (map_of sample_values) sample_types"
    by (simp add: env_conforms_def sample_values_def sample_types_def)
  show "plain_ctx sample_ctx" by (simp add: plain_ctx_def sample_ctx_def)
qed

text \<open>
  C2.  Decoding the bytes that emit_micb writes gives back the graph with its metadata map in
  canonical order, for every valid graph within the documented limits and every reader that hands
  over exactly those bytes.
\<close>

theorem micb_roundtrip:
  assumes "byte_source rd pending good" "good r" "pending r = bs" "emit_micb g = Some bs"
    and "length bs \<le> MAX_MICB_INPUT" "rust_graph g" "map_within (g_map g)"
    and "validate g = Inr ()"
    and "clone_cost g \<le> clone_budget (enc_strings (build_string_table g encoder_new))"
  shows "parse_micb rd r = Inr (g\<lparr>g_map := canonicalize (g_map g)\<rparr>)"
  using byte_source.parse_emit [OF assms(1,2,3,4,5)] assms(6-9) by (simp add: validate_iff)

theorem micb_roundtrip_witness:
  "parse_micb slice_read sample_bytes = Inr (sample_graph\<lparr>g_map := canonicalize (g_map sample_graph)\<rparr>)"
proof (rule micb_roundtrip [OF slice.byte_source_axioms])
  show "emit_micb sample_graph = Some sample_bytes" by (rule sample_emit)
  show "length sample_bytes \<le> MAX_MICB_INPUT" by (simp add: sample_bytes_def MAX_MICB_INPUT_def)
  show "rust_graph sample_graph" by (rule sample_rust_graph)
  show "map_within (g_map sample_graph)" by (rule sample_map_within)
  show "validate sample_graph = Inr ()" by (simp add: validate_def validate_value_def)
  show "clone_cost sample_graph \<le> clone_budget (enc_strings (build_string_table sample_graph encoder_new))"
    by (rule sample_clone_cost)
qed simp_all

text \<open>
  C3.  Canonicalisation keeps the reported value of an SSA module without tensor sources that ends
  in an Output: if the output names a value that an instruction before it computes and the
  evaluation of the module returns, canonicalisation succeeds and the canonical module evaluates to
  the same value, in builds with and without overflow checks. (Without the final Output the claim
  fails: the evaluator reports the last value computed, which may be dead code.)
\<close>

theorem canonicalize_preserves_result:
  assumes "instrs m = is @ [Output v]" "ssa_stream (next_id m) (instrs m)" "\<forall>i \<in> set is. scalar_instr i"
    and "\<exists>i \<in> set is. evaluated i \<and> instruction_dst i = Some v" "eval_ir oc m = Some x"
  shows "\<exists>m'. canonicalize_module oc m = Some m' \<and> eval_ir oc m' = Some x"
  using canonicalize_module_eval [OF assms] .

theorem canonicalize_preserves_result_witness:
  "\<exists>m'. canonicalize_module True sample_module = Some m' \<and> eval_ir True m' = Some (VInt 14)"
proof (rule canonicalize_preserves_result)
  let ?is = "[ConstI64 0 3, ConstI64 1 4, BinOp 2 BAdd 1 0, BinOp 3 BMul 0 1, ConstI64 4 2, BinOp 5 BMul 2 4]"
  show "instrs sample_module = ?is @ [Output 5]" by (simp add: sample_module_def)
  show "ssa_stream (next_id sample_module) (instrs sample_module)"
    by (auto simp: sample_module_def ssa_stream_def)
  show "\<forall>i \<in> set ?is. scalar_instr i" by (auto simp: scalar_instr_def)
  show "\<exists>i \<in> set ?is. evaluated i \<and> instruction_dst i = Some 5"
    by (rule bexI [of _ "BinOp 5 BMul 2 4"]) (auto simp: evaluated_def)
  show "eval_ir True sample_module = Some (VInt 14)" by code_simp
qed

text \<open>
  C4.  Parsing the text emit_mic2 writes gives back the graph with its metadata map in canonical
  order, for every valid graph whose names and extents are single words, whose operator parameters
  the text can carry, and whose size is within the parser limits.
\<close>

theorem mic2_text_roundtrip:
  assumes "validate g = Inr ()" "exact_graph g" "map_within (g_map g)"
    and "\<forall>s \<in> set (map_strings (canonicalize (g_map g))). valid_string s"
    and "length (emit_mic2 g) \<le> MAX_INPUT_SIZE" "length (str_lines (emit_mic2 g)) \<le> MAX_LINE_COUNT"
  shows "parse_mic2 (emit_mic2 g) = Inr (g\<lparr>g_map := canonicalize (g_map g)\<rparr>)"
  using parse_emit_mic2 [OF assms] .

theorem mic2_text_roundtrip_witness:
  "parse_mic2 (emit_mic2 sample_graph) = Inr (sample_graph\<lparr>g_map := canonicalize (g_map sample_graph)\<rparr>)"
  by (rule mic2_text_roundtrip [OF _ sample_exact_graph sample_map_within sample_map_text sample_text_size])
    (simp add: validate_def validate_value_def)

text \<open>
  C5.  A collapsed loop means its loop: when the pass replaces an annotated for loop over one
  assignment (affine sum, geometric power or Q16.16 map), and the loop runs to its end in the
  interpreter after straight-line statements, the replacement runs too and leaves the same
  variables.  Conditions: integers are plain (arithmetic wraps, no variable is u64, no identifier is
  an imported symbol, no integer is a string record); the assigned expression calls no function, so
  a Q16.16 map given by a user function is not covered; the accumulator is a variable other than the
  loop variable; the halved sum is exact on the range; and the names of the emitted ladder occur
  neither as the accumulator nor in the bounds.
\<close>

theorem collapse_sound:
  assumes "plain_int_ctx cx" and "call_free val" and "acc \<noteq> var" and "env acc \<noteq> None"
    and "try_collapse oc pre (SFor var start stop [SAssign acc val sp] attrs span) ctx = Some (Some replacement, ctx')"
    and "list_all simple_stmt pre" and "exec_stmts cx pre r0 env0 saves0 = Inr (r1, env, saves)"
    and "exec_stmt cx (SFor var start stop [SAssign acc val sp] attrs span) env saves = Inr (v, env', saves')"
    and "\<And>lo hi. eval_int cx env start = Inr lo \<Longrightarrow> eval_int cx env stop = Inr hi \<Longrightarrow> feasible_range lo hi"
    and "\<And>name. name \<in> set (ladder_names span) \<Longrightarrow>
      name \<noteq> acc \<and> \<not> references_ident start name \<and> \<not> references_ident stop name"
  shows "\<exists>v'. exec_stmt cx replacement env saves = Inr (v', env', saves')"
proof -
  obtain x where x: "env acc = Some x" using assms(4) by blast
  note rec = assms(5) [unfolded try_collapse.simps]
  show ?thesis
  proof (cases "recognize_for var start stop [SAssign acc val sp] span")
    case (Inr s)
    then have "as_acc s = acc" using recognize_forD [OF Inr] by (metis list.inject snode.inject(9))
    moreover obtain r where "build_closed_form s = Inr r" "r = replacement"
      using rec Inr by (auto split: sum.splits)
    ultimately show ?thesis using affine_collapse_runs [OF assms(1) Inr _ assms(8)] x assms(3,9) by blast
  next
    case (Inl e)
    show ?thesis
    proof (cases "recognize_geometric var start stop [SAssign acc val sp] span")
      case geo: (Inr s)
      have s: "gp_acc s = acc" "gp_lo s = start" "gp_hi s = stop"
        using recognize_geometricD [OF geo] by (metis list.inject snode.inject(9))+
      have "ladder_names_fresh s span" using assms(10) by (auto simp: ladder_names_fresh_def ladder_names_def s)
      moreover obtain r where "build_geometric s = Inr r" "r = replacement"
        using rec Inl geo by (auto split: sum.splits)
      ultimately show ?thesis
        using geometric_collapse_runs [OF assms(1) geo _ assms(8)] x assms(3,9) s
        by (simp add: feasible_range_def)
    next
      case geo: (Inl e')
      obtain s where q: "recognize_q16_map var start stop [SAssign acc val sp] span = Inr s"
          "build_q16_collapse oc s pre ctx = Some (Some replacement, ctx')"
        using rec Inl geo by (auto split: sum.splits if_splits)
      have "qm_f s = val" using recognize_q16_mapD [OF q(1)] by (metis list.inject snode.inject(9))
      then show ?thesis using q16_collapse_runs [OF assms(1) q(1) _ q(2) assms(6-8)] assms(2) by simp
    qed
  qed
qed

theorem collapse_sound_witness:
  "\<exists>replacement ctx' v'.
     try_collapse True [] (SFor ''i'' (nint 0) (nvar ''n'') sum_body [collapse_attr] sp0) collapse_ctx0 = Some (Some replacement, ctx') \<and>
     exec_stmt plain_cx replacement loop_env [] = Inr (v', loop_env(''s'' \<mapsto> 14), [])"
proof -
  let ?val = "SBinary AstAdd (nvar ''s'') (SBinary AstMul (nint 3) (nvar ''i'') sp0) sp0"
  obtain replacement ctx' where t: "try_collapse True [] (SFor ''i'' (nint 0) (nvar ''n'') [SAssign ''s'' ?val sp0] [collapse_attr] sp0) collapse_ctx0
      = Some (Some replacement, ctx')"
    by (simp add: recognize_for_def body_assignment_def mk_defs bound_varies_def build_closed_form_def Let_def)
  have loop: "exec_stmt plain_cx (SFor ''i'' (nint 0) (nvar ''n'') [SAssign ''s'' ?val sp0] [collapse_attr] sp0) loop_env []
      = Inr (14, loop_env(''s'' \<mapsto> 14), [])"
    by (simp add: loop_env_def plain_cx_def eval_name_def apply_int_op_def guard_str_record_value_op_def restore_def numeral_eq_Suc fun_eq_iff)
  have "\<exists>v'. exec_stmt plain_cx replacement loop_env [] = Inr (v', loop_env(''s'' \<mapsto> 14), [])"
  proof (rule collapse_sound [OF plain_plain_cx _ _ _ t _ _ loop])
    show "exec_stmts plain_cx [] 0 loop_env [] = Inr (0, loop_env, [])" by simp
    show "feasible_range lo hi" if "eval_int plain_cx loop_env (nint 0) = Inr lo" "eval_int plain_cx loop_env (nvar ''n'') = Inr hi"
      for lo hi using that by (simp add: loop_env_def plain_cx_def eval_name_def feasible_range_def i64_fits_def)
    show "name \<noteq> ''s'' \<and> \<not> references_ident (nint 0) name \<and> \<not> references_ident (nvar ''n'') name"
      if "name \<in> set (ladder_names sp0)" for name
      using that by (auto simp: ladder_names_def pow_base_def pow_exp_def pow_pow_def pow_k_def)
  qed (simp_all add: loop_env_def)
  then show ?thesis using t by (auto simp: sum_body_def)
qed

text \<open>
  C6.  Folding an expression whose evaluation succeeds does not panic and the folded expression
  evaluates to the same value in the same state, signed and unsigned operators, floats and non-
  foldable nodes included.
\<close>

theorem fold_preserves_value:
  assumes "eval_value_expr_mode cx env e c = Inr (v, c')"
  shows "\<exists>e'. fold_node e = Some e' \<and> eval_value_expr_mode cx env e' c = Inr (v, c')"
  using fold_node_eval [OF assms] .

theorem fold_preserves_value_witness:
  "\<exists>e'. fold_node (Binary AstSub (Lit (LInt 3) sample_span) (Lit (LInt 5) sample_span) sample_span) = Some e' \<and>
    eval_value_expr_mode sample_ctx Map.empty e' 0 = Inr (VInt (-2), 0)"
  by (rule fold_preserves_value) (simp add: eval_binary_def apply_int_op_def guard_str_record_value_op_def)

text \<open>
  C7.  Without REAP experts canonicalisation is idempotent on SSA modules: a second run leaves the
  canonical module unchanged, identifier counter included.
\<close>

theorem canonicalize_twice:
  assumes "\<not> module_has_reap_threshold m" "ssa_stream (next_id m) (instrs m)" "canonicalize_module oc m = Some m'"
  shows "canonicalize_module oc m' = Some m'"
  using canonicalize_module_idem [OF assms] .

theorem canonicalize_twice_witness:
  "canonicalize_module True (sample_module\<lparr>instrs := [ConstI64 5 14, Output 5], next_id := 6\<rparr>) =
    Some (sample_module\<lparr>instrs := [ConstI64 5 14, Output 5], next_id := 6\<rparr>)"
proof (rule canonicalize_twice [OF _ _ sample_run])
  show "\<not> module_has_reap_threshold sample_module"
    by (simp add: sample_module_def module_has_reap_threshold_def is_reap_fn_def)
  show "ssa_stream (next_id sample_module) (instrs sample_module)"
    by (auto simp: sample_module_def ssa_stream_def)
qed

text \<open>
  C8.  A module that verify_module accepts is prepared for a backend without loss when it has no
  loop, conditional or region, no tensor source, no REAP threshold and an empty table of aggregate
  types, ends in an Output of a value computed before it, and its evaluation returns:
  canonicalisation succeeds, the evaluator reports the same value, and the second verification can
  only fail on the canonical metadata.
\<close>

theorem verified_module_prepared:
  assumes "verify_module chk m = Inr ()" "\<forall>i \<in> set (instrs m). flat_instr i" "\<not> module_has_reap_threshold m"
    and "m_value_types m = []" "instrs m = is @ [Output v]" "\<forall>i \<in> set is. scalar_instr i"
    and "\<exists>i \<in> set is. evaluated i \<and> instruction_dst i = Some v" "eval_ir oc m = Some x"
  shows "\<exists>m'. canonicalize_module oc m = Some m' \<and> eval_ir oc m' = Some x \<and>
    prepare_ir_for_backend chk oc m = Some (rbind (map_err CanonicalMetadata (chk m')) (\<lambda>_. Inr m'))"
proof -
  obtain m' where "canonicalize_module oc m = Some m'" "eval_ir oc m' = Some x"
    using canonicalize_module_eval [OF assms(5) verified_ssa_stream(1) [OF assms(1,2)] assms(6-8)] by blast
  with prepare_verified [OF assms(1-4)] show ?thesis by blast
qed

theorem verified_module_prepared_witness:
  "\<exists>m'. canonicalize_module True straight_module = Some m' \<and> eval_ir True m' = Some (VInt 8) \<and>
    prepare_ir_for_backend (\<lambda>_. Inr () :: unit + unit) True straight_module = Some (Inr m')"
proof -
  let ?is = "[ConstI64 0 5, BinOp 1 BAdd 0 0, ConstI64 2 2, BinOp 3 BSub 1 2]"
  have "\<exists>m'. canonicalize_module True straight_module = Some m' \<and> eval_ir True m' = Some (VInt 8) \<and>
    prepare_ir_for_backend (\<lambda>_. Inr () :: unit + unit) True straight_module =
      Some (rbind (map_err CanonicalMetadata (Inr ())) (\<lambda>_. Inr m'))"
  proof (rule verified_module_prepared)
    show "verify_module (\<lambda>_. Inr () :: unit + unit) straight_module = Inr ()"
      by (simp add: straight_module_def plain_module_def verifier_defs)
    show "instrs straight_module = ?is @ [Output 3]" by (simp add: straight_module_def plain_module_def)
    show "\<exists>i \<in> set ?is. evaluated i \<and> instruction_dst i = Some 3"
      by (rule bexI [of _ "BinOp 3 BSub 1 2"]) (auto simp: evaluated_def)
    show "eval_ir True straight_module = Some (VInt 8)" by (simp add: straight_module_def plain_module_def) code_simp
  qed (auto simp: straight_module_def plain_module_def flat_instr_def scalar_instr_def module_has_reap_threshold_def is_reap_fn_def)
  then show ?thesis by simp
qed

text \<open>
  C9.  What check_ssa_well_formed promises about a decoded artifact: in program order every value is
  defined before it is read, in the module and in each function it declares at any depth, with
  conditions, loop-carried values, branch results and merges counted as reads.
\<close>

theorem ssa_program_order:
  assumes "check_ssa_well_formed m = Inr ()"
  shows "defined_before_use {} (stream_events (instrs m)) \<and>
    (\<forall>(ps, body) \<in> set (function_bodies (instrs m)). defined_before_use ps (stream_events body))"
  using check_ssa_sound [OF assms] by blast

theorem ssa_program_order_witness: "defined_before_use {} (stream_events (instrs loop_module))"
proof -
  have "check_ssa_well_formed loop_module = Inr ()"
    by (simp add: loop_module_def plain_module_def) code_simp
  from ssa_program_order [OF this] show ?thesis by blast
qed

text \<open>
  C10.  Parsing the bytes that emit_mic3 writes gives back the module, for a module without a
  canonical bundle (formats v0x02 and v0x03): instructions at every nesting depth, string and export
  tables, struct, array and C-layout registries and the scoped tables of aggregate types.
  Conditions: what Rust guarantees of a module (64-bit numbers, valid strings, ordered maps), at
  most 256 levels of nesting, tensor types spelled without angle brackets, an encoding within the
  input limit, and string copies and next_id within the guards of the decoder; the identifiers of
  the top-level stream are below next_id.
\<close>

theorem mic3_roundtrip:
  assumes "mic3_fits m" "canonical_types m = None" "emit_mic3 dbg m = Some bs"
    and "length bs \<le> MAX_MIC3_INPUT" "mic3_copies m \<le> decode_budget (length bs)" "next_id m \<le> 1024 * length bs"
    and "top_level_bound oc (instrs m) = Some b" "b \<le> next_id m"
  shows "parse_mic3_body oc v04 bs = Some (Inr m)"
  using parse_emitted_body [OF assms(1-6)] assms(7,8) by (simp add: max_def)

theorem mic3_roundtrip_witness:
  "\<exists>bs. emit_mic3 True sample_mic3 = Some bs \<and> parse_mic3_body True (\<lambda>_. None) bs = Some (Inr sample_mic3)"
proof -
  have md: "\<not> instruction_metadata_present (instrs sample_mic3)" by code_simp
  then obtain bs where bs: "emit_mic3 True sample_mic3 = Some bs"
    using emit_legacy_returns [of True sample_mic3]
    by (auto simp: emit_mic3_def has_populated_canonical_def sample_mic3_def)
  have len: "length bs \<le> 1024" "1 \<le> length bs" using sample_mic3_size by (simp_all add: bs)
  have "parse_mic3_body True (\<lambda>_. None) bs = Some (Inr sample_mic3)"
  proof (rule mic3_roundtrip [OF sample_mic3_fits _ bs])
    show "top_level_bound True (instrs sample_mic3) = Some 3"
      by (simp add: sample_mic3_def top_level_bound_def bound_ids_def id_after_def)
    show "length bs \<le> MAX_MIC3_INPUT" using len by (simp add: MAX_MIC3_INPUT_def)
    show "mic3_copies sample_mic3 \<le> decode_budget (length bs)"
      using sample_mic3_copies by (simp add: decode_budget_def MIN_DECODE_BUDGET_def)
    show "next_id sample_mic3 \<le> 1024 * length bs" using len by (simp add: sample_mic3_def)
  qed (simp_all add: sample_mic3_def)
  with bs show ?thesis by blast
qed

text \<open>
  C11.  Every graph the binary decoder returns is well formed: validate accepts it unless it has no
  values, so no input reaches a forward reference, a missing type or a missing output.
\<close>

theorem micb_decode_validates:
  assumes "bounded_read rd" "parse_micb rd r = Inr g" "g_values g \<noteq> []"
  shows "validate g = Inr ()"
  using bounded_read.parse_decoded_ok [OF assms(1,2)] assms(3) unfolding validate_iff decoded_ok_def by metis

theorem micb_decode_validates_witness:
  "validate (sample_graph\<lparr>g_map := canonicalize (g_map sample_graph)\<rparr>) = Inr ()"
  by (rule micb_decode_validates [OF slice_bounded.bounded_read_axioms sample_parse]) simp

text \<open>
  C12.  Whatever bytes parse_mic3_body accepts as format v0x01, v0x02 or v0x03, the module is well
  formed: nesting is at most 256 levels, registries and type tables are in strictly ascending order,
  strings are valid and numbers have 64 bits; the strings copied out of the string table stay within
  the decode budget; and emit_mic3 can encode the module again without a panic.
\<close>

theorem mic3_decode_validates:
  assumes "parse_mic3_body oc v04 bs = Some (Inr m)" "\<not> (4 < length bs \<and> bs ! 4 = MIC3_VERSION_V04)"
  shows "mic3_fits m \<and> mic3_copies m \<le> decode_budget (length bs) \<and> (\<exists>bs'. emit_mic3 dbg m = Some bs')"
  using parsed_prefix(1) [OF assms(1) [unfolded parse_body_prefix] assms(2)] parsed_emits [OF assms]
  by (simp add: mic3_decoded_ok_def)

theorem mic3_decode_validates_witness: "mic3_fits ((lone_output 7)\<lparr>next_id := 8\<rparr>)"
proof -
  have "parse_mic3_body True (\<lambda>_. None) (MIC3_MAGIC @ [MIC3_VERSION_BASE, 0, 0, 0, 1, OP_OUTPUT] @ write_vid 7 @ [0, 0, 0])
      = Some (Inr ((lone_output 7)\<lparr>next_id := 8\<rparr>))"
    using lone_output_parsed [of 7 True "\<lambda>_. None"] by simp
  moreover have "\<not> (4 < length (MIC3_MAGIC @ [MIC3_VERSION_BASE, 0, 0, 0, 1, OP_OUTPUT] @ write_vid 7 @ [0, 0, 0]) \<and>
    (MIC3_MAGIC @ [MIC3_VERSION_BASE, 0, 0, 0, 1, OP_OUTPUT] @ write_vid 7 @ [0, 0, 0]) ! 4 = MIC3_VERSION_V04)"
    by (simp add: MIC3_MAGIC_def MIC3_VERSION_BASE_def MIC3_VERSION_V04_def)
  ultimately show ?thesis using mic3_decode_validates by blast
qed

text \<open>
  C13.  Every graph the text parser returns is well formed: references point backwards, arities fit,
  types have at most 32 extents, there are at most MAX_VALUE_COUNT values, the map has distinct keys
  and respects the limits on keys, strings, blobs and nesting at every level, and validate accepts
  the graph unless it has no values. The entries of the map, counted recursively, are at most 5 *
  4096: the documented bound of 4096 for a whole map is not what the parser enforces.
\<close>

theorem mic2_parse_validates:
  assumes "parse_mic2 s = Inr g"
  shows "parsed_ok g \<and> (g_values g \<noteq> [] \<longrightarrow> validate g = Inr ())"
  using parse_mic2_ok [OF assms] by blast

theorem mic2_parse_validates_witness: "validate (sample_graph\<lparr>g_map := canonicalize (g_map sample_graph)\<rparr>) = Inr ()"
  using mic2_parse_validates [OF sample_text] by simp

text \<open>
  C14.  On streams without functions validate_ssa_stream, the walk verify_module applies to the
  bodies of functions, loops, conditionals and regions, and check_ssa_stream, the walk of
  check_ssa_well_formed, agree from every scope: they accept the same streams, and where they reject
  they name the same value and the same rule. (The walk of verify_module over the top-level stream
  is another one, and there the two verifiers differ.)
\<close>

theorem verifiers_agree:
  assumes "fn_free is"
  shows "map_err as_violation (validate_ssa_stream idx is D) = map_err Some (check_ssa_stream is D)"
  using walks_agree(1) [OF assms] .

theorem verifiers_agree_witness:
  "map_err as_violation (validate_ssa_stream 0 [ConstI64 0 1, Output 7] {}) = Inl (Some (violation DefineBeforeUse 7))"
proof -
  have "fn_free [ConstI64 0 1, Output 7]" by simp
  from verifiers_agree [OF this, of 0 "{}"] show ?thesis
    by (simp add: check_operands_def undefined_operand_def define_result_def is_if_def is_region_def)
qed

text \<open>
  C15.  The bitset dead-code elimination implements the set-based specification: it keeps, in order,
  exactly the instructions without a result and those whose result is live.
\<close>

theorem prune_dead_is_liveness:
  assumes "operands_below n is"
  shows "prune_dead is n = filter (kept (live is)) is"
  using prune_dead_live [OF assms] .

theorem prune_dead_is_liveness_witness:
  "prune_dead (instrs sample_module) 6 = filter (kept (live (instrs sample_module))) (instrs sample_module)"
  by (rule prune_dead_is_liveness) (simp add: sample_module_def)



text \<open>
  C17.  If the orbit of the seed reaches a fixed point before the trip count and the fuel are used
  up, and stays within 2^30, the iteration at compile time finds that fixed point (it reports
  neither a cycle nor exhaustion).
\<close>

theorem q16_fixed_point_found:
  assumes "orbit (map_step rhs acc fns) M seed = Inr v" and "map_step rhs acc fns v = Inr v"
    and "q_in_range seed" and "int M < sint trip" and "int M < sint Q16_FUEL"
    and "\<And>k w. orbit (map_step rhs acc fns) (Suc k) seed = Inr w \<Longrightarrow> \<bar>sint w\<bar> \<le> sint Q16_DIVERGE"
  shows "iterate_user_fixed_point oc rhs acc fns seed trip = Some (Fixed v)"
proof -
  let ?f = "map_step rhs acc fns"
  define m where "m = (LEAST k. orbit ?f k seed = Inr v)"
  have m: "orbit ?f m seed = Inr v" "m \<le> M" unfolding m_def using assms(1) by (rule LeastI, rule Least_le)
  have first: "?f w \<noteq> Inr w" if k: "k < m" "orbit ?f k seed = Inr w" for k w
  proof
    assume "?f w = Inr w"
    then have "orbit ?f m seed = Inr w" using orbit_stays [OF k(2)] k(1) by simp
    then have "orbit ?f k seed = Inr v" using k(2) m(1) by simp
    then show False using k(1) not_less_Least unfolding m_def by blast
  qed
  have "iterate_loop oc ?f trip (nat (min (sint trip) (sint Q16_FUEL))) seed {seed} = Some (Fixed v)"
    using m assms(4,5) by (intro iterate_loop_finds [OF m(1) assms(2) first assms(6), where j = 0]) auto
  then show ?thesis using assms(3,4) by (simp add: iterate_user_fixed_point_def)
qed

theorem q16_fixed_point_found_witness:
  "iterate_user_fixed_point True (SBinary AstDiv (nvar ''x'') (nint 2) sp0) ''x'' (\<lambda>_. None) 4 100 = Some (Fixed 0)"
proof -
  let ?f = "map_step (SBinary AstDiv (nvar ''x'') (nint 2) sp0) ''x'' (\<lambda>_. None)"
  have f: "?f x = Inr (trunc_div x 2)" for x by (simp add: map_step_def ct_binary_def)
  have vals: "trunc_div 4 2 = 2" "trunc_div 2 2 = 1" "trunc_div 1 2 = 0" "trunc_div 0 2 = 0"
    by (simp_all add: trunc_div_def signed_divide_int_def)
  have reach: "orbit ?f 3 4 = Inr 0" by (simp add: f vals numeral_3_eq_3 del: map_step_def)
  have small: "0 \<le> sint w \<and> sint w \<le> 4" if "orbit ?f k 4 = Inr w" for k w
    using that
  proof (induction k arbitrary: w)
    case (Suc k)
    then obtain u where u: "orbit ?f k 4 = Inr u" "?f u = Inr w" by (auto simp: orbit_Suc rbind_eq_Inr simp del: orbit.simps)
    show ?case using Suc.IH [OF u(1)] u(2) trunc_half(1) [of u] by (auto simp: f)
  qed simp
  show ?thesis
  proof (rule q16_fixed_point_found [OF reach])
    show "\<bar>sint w\<bar> \<le> sint Q16_DIVERGE" if "orbit ?f (Suc k) 4 = Inr w" for k w
      using small [OF that] by (simp add: Q16_DIVERGE_def)
  qed (simp_all add: f vals q_in_range_def Q16_MIN_def Q16_MAX_def Q16_FUEL_def)
qed

text \<open>
  C18.  Reverse mode computes what forward mode computes: on a verified module of constants, sums,
  differences, products, comparisons and outputs (wrapping arithmetic) differentiation succeeds, its
  result passes verification again, and in the canonicalised gradient module the gradient of every
  constant has the value of its tangent in a dual-number evaluation of the module; a constant
  without a gradient has tangent 0.  The metadata check is any that accepts a module without a
  bundle whose instructions carry no metadata.
\<close>

theorem reverse_mode_is_forward_mode:
  fixes m :: typed_module and chk :: "typed_module \<Rightarrow> 'c + unit"
  assumes "\<forall>i \<in> set (instrs m). grad_instr i" "verify_module chk m = Inr ()"
    and "\<And>g. canonical_types g = None \<Longrightarrow> \<not> instruction_metadata_present (instrs g) \<Longrightarrow> chk g = Inr ()"
    and "output_ids (instrs m) \<noteq> []"
  shows "\<exists>r vals l. differentiate_function chk False m ''main'' = Some (Inr r) \<and>
    eval_instrs False (instrs (gradient_module r)) (Map.empty, VInt 0) = Some (vals, l) \<and>
    (\<forall>c \<in> const_ids (instrs m). gradient_in vals r c (tangent c (instrs m) (last (output_ids (instrs m)))))"
  by (rule differentiate_correct [OF assms])

theorem reverse_mode_is_forward_mode_witness:
  "\<exists>r vals l. differentiate_function (verify_canonical_metadata (\<lambda>_. Inr ()) ()) False cubic_module ''main'' = Some (Inr r) \<and>
    eval_instrs False (instrs (gradient_module r)) (Map.empty, VInt 0) = Some (vals, l) \<and> gradient_in vals r 0 26"
proof -
  have t: "tangent 0 (instrs cubic_module) (last (output_ids (instrs cubic_module))) = 26"
    by (simp add: cubic_module_def output_ids_def output_of_def map_filter_simps tangent_def dual_eval_def dual_step_def dual_binop_def)
  have "0 \<in> const_ids (instrs cubic_module)" by (simp add: const_ids_def cubic_module_def)
  moreover have "\<forall>i \<in> set (instrs cubic_module). grad_instr i"
    by (simp add: cubic_module_def grad_instr_def ring_op_def)
  moreover have "output_ids (instrs cubic_module) \<noteq> []"
    by (simp add: cubic_module_def output_ids_def output_of_def map_filter_simps)
  ultimately show ?thesis using reverse_mode_is_forward_mode [OF _ cubic_verified bundle_free_accepted] t by fastforce
qed

text \<open>
  C19.  The gradient is the derivative: for a verified module of sums, differences and products,
  shifting a constant by h changes the value of the last output by h times the gradient of the
  constant, up to a multiple of h squared, for every h, in 64-bit wrapping arithmetic.  The metadata
  check is any that accepts a module without a bundle whose instructions carry no metadata.
\<close>

theorem gradient_is_derivative:
  fixes m :: typed_module and chk :: "typed_module \<Rightarrow> 'c + unit"
  assumes P: "\<forall>i \<in> set (instrs m). poly_instr i" and v: "verify_module chk m = Inr ()"
    and c: "\<And>g. canonical_types g = None \<Longrightarrow> \<not> instruction_metadata_present (instrs g) \<Longrightarrow> chk g = Inr ()"
    and o: "output_ids (instrs m) \<noteq> []"
  shows "\<exists>r vals l. differentiate_function chk False m ''main'' = Some (Inr r) \<and>
    eval_instrs False (instrs (gradient_module r)) (Map.empty, VInt 0) = Some (vals, l) \<and>
    (\<forall>c \<in> const_ids (instrs m). \<exists>d. gradient_in vals r c d \<and>
      (\<forall>h. \<exists>q. output_value (map (shift_const c h) (instrs m)) = output_value (instrs m) + h * d + h * h * q))"
proof -
  have g: "\<forall>i \<in> set (instrs m). grad_instr i" using P poly_grad by blast
  from differentiate_correct [OF g v c o] tangent_is_derivative [OF P verified_output [OF g v o]]
  show ?thesis by blast
qed

theorem gradient_is_derivative_witness:
  "\<exists>r d. differentiate_function (verify_canonical_metadata (\<lambda>_. Inr ()) ()) False cubic_module ''main'' = Some (Inr r) \<and>
    (\<forall>h. \<exists>q. output_value (map (shift_const 0 h) (instrs cubic_module)) = output_value (instrs cubic_module) + h * d + h * h * q)"
proof -
  have "0 \<in> const_ids (instrs cubic_module)" by (simp add: const_ids_def cubic_module_def)
  moreover have "\<forall>i \<in> set (instrs cubic_module). poly_instr i" by (simp add: cubic_module_def poly_instr_def)
  moreover have "output_ids (instrs cubic_module) \<noteq> []"
    by (simp add: cubic_module_def output_ids_def output_of_def map_filter_simps)
  ultimately show ?thesis using gradient_is_derivative [OF _ cubic_verified bundle_free_accepted] by fast
qed

text \<open>
  C20.  A built perfect-hash plan is one: every key looks up to its own ordinal, every other byte
  string to -1, and no lookup reads outside the tables.
\<close>

theorem phf_perfect:
  assumes "build keys = Built p"
  shows "(\<forall>(ord, k) \<in> set keys. lookup p k = Some ord) \<and> (\<forall>key. key \<notin> snd ` set keys \<longrightarrow> lookup p key = Some (-1))"
  using build_correct [OF assms] .

theorem phf_perfect_witness: "lookup sample_plan [66] = Some 1 \<and> lookup sample_plan [67] = Some (-1)"
  using phf_perfect [OF sample_build] by auto

text \<open>
  C21.  Broadcasting computes least upper bounds: can_broadcast_to is a partial order,
  broadcast_shapes succeeds exactly when the two shapes broadcast to a common one, and its result is
  the smallest such shape.
\<close>

theorem broadcast_least_upper_bound:
  "can_broadcast_to s s \<and>
    (can_broadcast_to s t \<and> can_broadcast_to t s \<longrightarrow> s = t) \<and>
    (can_broadcast_to s t \<and> can_broadcast_to t u \<longrightarrow> can_broadcast_to s u) \<and>
    ((\<exists>w. broadcast_shapes s t = Inr w) \<longleftrightarrow> (\<exists>w. can_broadcast_to s w \<and> can_broadcast_to t w)) \<and>
    (broadcast_shapes s t = Inr w \<longrightarrow> can_broadcast_to s w \<and> can_broadcast_to t w \<and>
      (can_broadcast_to s u \<and> can_broadcast_to t u \<longrightarrow> can_broadcast_to w u))"
proof -
  let ?b = "broadcast dim_join (Known 1)"
  have le: "can_broadcast_to a c \<longleftrightarrow> ?b a c = Some c" for a c
    by (simp add: can_broadcast_to_def broadcast_shapes_spec split: option.split)
  have eq: "broadcast_shapes s t = Inr w \<longleftrightarrow> ?b s t = Some w" for w
    using broadcast_shapes_spec(1) [of s t] by (metis ok_eq_Some)
  note com = dims.broadcast_commute
  have up: "?b s t = Some w \<Longrightarrow> ?b s w = Some w \<and> ?b t w = Some w" for w
    using dims.broadcast_absorb [of s t w] dims.broadcast_absorb [of t s w] com [of s t] by metis
  have least: "?b s u = Some u \<Longrightarrow> ?b t u = Some u \<Longrightarrow> \<exists>w. ?b s t = Some w \<and> ?b w u = Some u" for u
    by (rule dims.broadcast_least)
  have trans: "?b s t = Some t \<Longrightarrow> ?b t u = Some u \<Longrightarrow> ?b s u = Some u"
    using dims.broadcast_assoc [of s t u] by (auto simp del: One_nat_def)
  have anti: "?b s t = Some t \<and> ?b t s = Some s \<longrightarrow> s = t" using com [of s t] by (metis option.inject)
  have iff: "(\<exists>w. ?b s t = Some w) \<longleftrightarrow> (\<exists>w. ?b s w = Some w \<and> ?b t w = Some w)" using up least by blast
  have lub: "?b s t = Some w \<longrightarrow> ?b s w = Some w \<and> ?b t w = Some w \<and> (?b s u = Some u \<and> ?b t u = Some u \<longrightarrow> ?b w u = Some u)"
    using up [of w] least [of u] by auto
  show ?thesis unfolding le eq using dims.broadcast_same anti trans iff lub by blast
qed

theorem broadcast_least_upper_bound_witness:
  "can_broadcast_to [Known 3] [Sym ''n'', Known 3] \<and> can_broadcast_to [Sym ''n'', Known 1] [Sym ''n'', Known 3]"
proof -
  have "broadcast_shapes [Known 3] [Sym ''n'', Known 1] = Inr [Sym ''n'', Known 3]"
    by (simp add: broadcast_shapes_def broadcast_loop.simps)
  with broadcast_least_upper_bound [of "[Known 3]" "[Sym ''n'', Known 1]" "[Known 3]" "[Sym ''n'', Known 3]"]
  show ?thesis by simp
qed

text \<open>
  C22.  The five implementations of broadcasting agree: the shape rules, the linear algebra helpers,
  the evaluator and the type checker accept the same pairs of shapes with the same result, and on
  known extents so does the Core v1 engine with its wrapping index arithmetic.
\<close>

theorem broadcast_one_rule:
  assumes "length xs < 2 ^ 63" "length ys < 2 ^ 63"
  shows "ok (broadcast_shapes s t) = ok (broadcast_leading s t) \<and>
    ok (broadcast_shapes s t) = eval_broadcast_shapes s t \<and>
    ok (broadcast_shapes s t) = checker_broadcast_shapes s t \<and>
    ok (broadcast_shapes (map Known xs) (map Known ys)) = map_option (map Known) (ok (engine_broadcast_shapes xs ys))"
proof -
  have "ok (engine_broadcast_shapes xs ys) = broadcast size_join 1 xs ys"
    unfolding engine_broadcast_eq [OF assms] by (simp split: option.split)
  then show ?thesis by (simp add: broadcast_shapes_spec broadcast_leading_spec broadcast_Known del: One_nat_def)
qed

theorem broadcast_one_rule_witness:
  "ok (broadcast_shapes (map Known [2, 1, 3]) (map Known [4, 1])) =
    map_option (map Known) (ok (engine_broadcast_shapes [2, 1, 3] [4, 1]))"
proof -
  have "length [2, 1, 3 :: usize] < 2 ^ 63" "length [4, 1 :: usize] < 2 ^ 63" by simp_all
  from broadcast_one_rule [OF this] show ?thesis by blast
qed

text \<open>
  C23.  No two values share a register, the registers handed out are a prefix of the callee-saved
  table of the requested length, and a value the planner did not see defined stays on the stack.
\<close>

theorem registers_injective:
  "(slot_of (plan_module_k m k) v = Reg r \<and> slot_of (plan_module_k m k) w = Reg r \<longrightarrow> v = w) \<and>
    {r. \<exists>v. slot_of (plan_module_k m k) v = Reg r} = set (take (min k (card (module_defs m))) CALLEE_SAVED) \<and>
    (v \<notin> module_defs m \<longrightarrow> slot_of (plan_module_k m k) v = Spill)"
  using register_injective registers_used slot_of_undefined by blast

theorem registers_injective_witness: "slot_of (plan_module_k sample_module 2) 9 = Spill"
proof -
  have "9 \<notin> module_defs sample_module"
    by (auto simp: sample_module_def module_defs_def counted_def_def)
  with registers_injective show ?thesis by blast
qed

text \<open>
  C24.  The two-row dynamic program computes the edit distance: that many single-character
  insertions, deletions and replacements turn one identifier into the other, and no fewer do.
\<close>

theorem levenshtein_least_edits:
  "(edit1 ^^ levenshtein a b) (chars a) (chars b) \<and>
    (\<forall>n. (edit1 ^^ n) (chars a) (chars b) \<longrightarrow> levenshtein a b \<le> n)"
  by (rule levenshtein_edits)

theorem levenshtein_least_edits_witness: "(edit1 ^^ 3) (chars ''kitten'') (chars ''sitting'')"
proof -
  have "levenshtein ''kitten'' ''sitting'' = 3" by code_simp
  with levenshtein_least_edits [of "''kitten''" "''sitting''"] show ?thesis by simp
qed

text \<open>
  C25.  The length slice_len_with_step computes is the number of positions the slice visits under
  the usual rules for negative bounds and steps, and every visited position lies inside the extent;
  no wrap-around occurs for extents below 2 to the 62.
\<close>

theorem strided_slice_length:
  assumes "len < 2 ^ 62" "step \<noteq> 0"
  shows "slice_len_with_step (Some len) start ennd step =
      Some (card (slice_positions (int len) (sint start) (sint ennd) (sint step))) \<and>
    slice_positions (int len) (sint start) (sint ennd) (sint step) \<subseteq> {0..<int len}"
proof -
  have "sint step \<noteq> 0" using assms(2) by (metis signed_0 signed_word_eqI)
  then show ?thesis using slice_len_with_step_spec [OF assms] slice_positions_range [of "int len" "sint step"] by fastforce
qed

theorem strided_slice_length_witness: "card (slice_positions 10 (-1) (-11) (-3)) = 4"
proof -
  have "slice_len_with_step (Some 10) (-1) (-11) (-3) = Some 4" by code_simp
  with strided_slice_length [of 10 "-3" "-1" "-11"] show ?thesis by simp
qed

text \<open>
  C26.  The strings a decode copies out of the string table add up to at most 64 times the input
  limit, whatever the input says: the clone budget bounds the amplification.
\<close>

theorem micb_decode_clone_bound:
  assumes "bounded_read rd" "parse_micb rd r = Inr g"
  shows "clone_cost g \<le> MICB_CLONE_AMPLIFICATION_FACTOR * MAX_MICB_INPUT"
  using bounded_read.parse_clone_bound [OF assms] .

theorem micb_decode_clone_bound_witness:
  "clone_cost (sample_graph\<lparr>g_map := canonicalize (g_map sample_graph)\<rparr>) \<le>
    MICB_CLONE_AMPLIFICATION_FACTOR * MAX_MICB_INPUT"
  using micb_decode_clone_bound [OF slice_bounded.bounded_read_axioms sample_parse] .

text \<open>
  C27.  Reordering the operands of a commutative operator is not value preserving on tensors: the
  evaluator takes dtype and shape from the left operand, so canonicalisation changes the shape of
  the result of an addition of two tensors.
\<close>

theorem reorder_changes_tensor_shape:
  "\<exists>x y. eval_ir oc tensor_module = Some x \<and>
    eval_ir oc (tensor_module\<lparr>instrs := reorder_commutative_ops (instrs tensor_module)\<rparr>) = Some y \<and> x \<noteq> y"
  by (simp add: tensor_module_def eval_ir_def eval_effect_def reorder_commutative_ops_def reorder_instr_def
      read_val_def tensor_tensor_def tensor_val_new_def)

text \<open>
  C28.  With same padding conv2d_shape still runs the valid-padding rule first, so a kernel larger
  than the input is rejected although the same-padding extent is defined and needs no kernel.
\<close>

theorem conv2d_same_rejects_kernel:
  assumes "0 < h" "h < kh" "0 < sh" "0 < c"
  shows "conv2d_shape [n, Known h, w, Known c] [Known kh, kw, Known c, f] sh sw Same ctr = (Inl ConvKernelEmpty, ctr) \<and>
    conv_output_dim_same (Some h) sh = Inr (Some (card {p. p * sh < h}))"
  using conv2d_same_large_kernel [OF assms] by blast

theorem conv2d_same_rejects_kernel_witness:
  "conv2d_shape [Known 1, Known 2, Known 2, Known 3] [Known 3, Known 3, Known 3, Known 5] 1 1 Same 7 = (Inl ConvKernelEmpty, 7)"
  using conv2d_same_rejects_kernel [of 2 3 1 3] by simp

text \<open>
  C29.  The @ operator with a rank-0 tensor on the left and a tensor of known shape and the same
  dtype on the right panics the type checker: the shape engine rejects the operands and the error
  message indexes the empty shape. The same product written tensor.matmul is reported as a type
  error.
\<close>

theorem checker_matmul_panics:
  assumes "map_of \<Gamma> x = Some (TensorTy (tensor_ty_new d []))" "map_of \<Gamma> y = Some (TensorTy (tensor_ty_new d (map Known ys)))"
  shows "infer_expr vs other \<Gamma> (TensorMatmul (Lit (LIdent x) s1) (Lit (LIdent y) s2) sp) = type_err TypePanic sp \<and>
    (\<exists>e. infer_expr vs other \<Gamma> (CallMatMul (Lit (LIdent x) s1) (Lit (LIdent y) s2) sp) = type_err (EngineMsg ''tensor.matmul'' e) sp)"
proof -
  have "concrete_shape (map Known ys) = Some ys" by (simp add: concrete_shape_Some)
  then show ?thesis
    using assms by (simp add: infer_tensor_matmul_def infer_matmul_def infer_output_shape_def rule_for_op_def input_or_scalar_def)
qed

theorem checker_matmul_panics_witness:
  "infer_expr (\<lambda>_. False) (\<lambda>(_ :: unit) _ _. type_err TypePanic sample_span)
    [(''s'', TensorTy (tensor_ty_new TF32 [])), (''m'', TensorTy (tensor_ty_new TF32 [Known 2, Known 3]))]
    (TensorMatmul (Lit (LIdent ''s'') sample_span) (Lit (LIdent ''m'') sample_span) sample_span) = type_err TypePanic sample_span"
  using checker_matmul_panics [of "[(''s'', TensorTy (tensor_ty_new TF32 [])), (''m'', TensorTy (tensor_ty_new TF32 [Known 2, Known 3]))]"
    "''s''" TF32 "''m''" "[2, 3]"] by simp

text \<open>
  C30.  Floating-point division by a literal zero is folded to a constant although evaluating the
  expression reports a division by zero: folding makes an error disappear.
\<close>

theorem fold_float_division:
  assumes "f64_is_zero b"
  shows "eval_value_expr_mode cx env (Binary AstDiv (Lit (LFloat a) s1) (Lit (LFloat b) s2) sp) c = Inl DivZero \<and>
    fold_node (Binary AstDiv (Lit (LFloat a) s1) (Lit (LFloat b) s2) sp) = Some (Lit (LFloat (f64_div a b)) sp)"
  using assms by (simp add: eval_binary_def apply_float_op_def fold_binary_def fold_float_def)

theorem fold_float_division_witness:
  "fold_node (Binary AstDiv (Lit (LFloat f64_one) sample_span) (Lit (LFloat (f64_zero False)) sample_span) sample_span :: unit node) =
    Some (Lit (LFloat (f64_div f64_one (f64_zero False))) sample_span)"
proof -
  have "f64_is_zero (f64_zero False)"
    by (simp add: f64_is_zero_def f64_eq_def f64_cmp_def f64_zero_def f64_pack_def f64_decode_def signed_def)
  from fold_float_division [OF this] show ?thesis by blast
qed

text \<open>
  C31.  A valid graph does not survive the text format: the axis of a concatenation is written as a
  bare number, and the parser reads it as a further input and takes axis 0, without reporting an
  error.
\<close>

theorem mic2_concat_misread:
  "validate concat_graph = Inr () \<and>
    parse_mic2 (emit_mic2 concat_graph) =
      Inr (concat_graph\<lparr>g_values := [VArg ''X'' 0, VArg ''Y'' 0, VNode (OpConcat 0) [1, 0, 1]]\<rparr>)"
proof
  show "validate concat_graph = Inr ()" by (simp add: validate_def validate_value_def)
  show "parse_mic2 (emit_mic2 concat_graph) =
      Inr (concat_graph\<lparr>g_values := [VArg ''X'' 0, VArg ''Y'' 0, VNode (OpConcat 0) [1, 0, 1]]\<rparr>)"
    unfolding concat_text_reading [symmetric]
    by (rule read_emit_mic2 [OF _ concat_text_graph _ _ concat_text_size])
      (simp_all add: concat_text_reading validate_def validate_value_def canonicalize_empty map_within_def MAX_MAP_ENTRIES_def)
qed

text \<open>
  C32.  The two verifiers do differ on modules: a function that reads a parameter without a Param
  instruction passes only check_ssa_well_formed, one that defines its parameter again passes only
  verify_module, and a value defined in one branch and read after the conditional passes only
  check_ssa_well_formed. The modules carry no metadata, and verify_module runs with the branch of
  verify_canonical_metadata for such modules, whatever that check does with a bundle.
\<close>

theorem verifiers_disagree:
  fixes with_bundle :: "typed_module \<Rightarrow> 'c + unit" and no_bundle :: 'c
  shows "check_ssa_well_formed (param_module [Return (Some 0)]) = Inr () \<and>
    verify_module (verify_canonical_metadata with_bundle no_bundle) (param_module [Return (Some 0)]) = Inl (UseBeforeDefinition 0 0) \<and>
    check_ssa_well_formed (param_module [ConstI64 0 1]) = Inl (violation SingleAssignment 0) \<and>
    verify_module (verify_canonical_metadata with_bundle no_bundle) (param_module [ConstI64 0 1]) = Inr () \<and>
    check_ssa_well_formed leak_module = Inr () \<and>
    verify_module (verify_canonical_metadata with_bundle no_bundle) leak_module = Inl (UseBeforeDefinition 1 2)"
  by (intro conjI; simp add: param_module_def leak_module_def plain_module_def verifier_defs no_metadata_defs)

text \<open>
  C33.  Canonicalisation can turn a verified module into one that fails verification: dead-code
  elimination does not look into the bodies of a conditional, so it removes a value that only a
  branch reads, and prepare_ir_for_backend rejects the module. The module carries no metadata, and
  verify_canonical_metadata is modelled for such modules.
\<close>

theorem canonicalize_breaks_branches:
  fixes with_bundle :: "typed_module \<Rightarrow> 'c + unit" and no_bundle :: 'c
  shows "verify_module (verify_canonical_metadata with_bundle no_bundle) branch_module = Inr () \<and>
    prepare_ir_for_backend (verify_canonical_metadata with_bundle no_bundle) oc branch_module = Some (Inl (UseBeforeDefinition 0 0))"
proof
  show v: "verify_module (verify_canonical_metadata with_bundle no_bundle) branch_module = Inr ()"
    by (simp add: branch_module_def plain_module_def verifier_defs no_metadata_defs)
  show "prepare_ir_for_backend (verify_canonical_metadata with_bundle no_bundle) oc branch_module = Some (Inl (UseBeforeDefinition 0 0))"
    by (simp add: prepare_ir_for_backend_def v branch_canonical)
      (simp add: branch_module_def plain_module_def verifier_defs no_metadata_defs)
qed

text \<open>
  C34.  What the compile-time evaluator makes of an expression without calls is what the interpreter
  makes of it, unless the interpreter panics on i64::MIN divided by -1, which the compile-time
  evaluator wraps.  Condition: integers are plain (arithmetic wraps, no variable is u64, no
  identifier is an imported symbol, no integer is a string record) (for a u64 variable the
  interpreter divides unsigned and the two differ).
\<close>

theorem comptime_agrees_with_interpreter:
  assumes "plain_int_ctx cx" and "call_free e" and "eval_ct_expr e env fns depth = Inr v"
  shows "eval_int cx env e = Inr v \<or> eval_int cx env e = Inl (Panicked DivisionOverflow)"
  by (rule comptime_agrees [OF assms])

theorem comptime_agrees_with_interpreter_witness:
  "eval_int plain_cx [''x'' \<mapsto> 7] (SBinary AstMod (SNeg (nvar ''x'') sp0) (nint 4) sp0) = Inr (-3) \<or>
   eval_int plain_cx [''x'' \<mapsto> 7] (SBinary AstMod (SNeg (nvar ''x'') sp0) (nint 4) sp0) = Inl (Panicked DivisionOverflow)"
  by (rule comptime_agrees_with_interpreter [OF plain_plain_cx, where fns = "\<lambda>_. None" and depth = 0])
     (simp_all add: ct_binary_def trunc_rem_def signed_modulo_int_def)

text \<open>
  C35.  Decoding the encoding of a list of receipts gives the receipts in canonical order, and the
  encoding does not depend on the order of the list, for fewer than 2^32 receipts.
\<close>

theorem collapse_receipts_roundtrip:
  assumes "length rs < 2 ^ 32"
  shows "decode_collapse_receipts (encode_collapse_receipts rs) = Inr (sort_key receipt_sort_key rs) \<and>
    (mset rs = mset ss \<longrightarrow> encode_collapse_receipts rs = encode_collapse_receipts ss)"
  using decode_encode_receipts [OF assms] encode_receipts_order by blast

theorem collapse_receipts_roundtrip_witness:
  "decode_collapse_receipts (encode_collapse_receipts [ReceiptGeometricPow 2 0 10 1024, ReceiptAffineSum 3 5 0 17 493]) =
     Inr [ReceiptAffineSum 3 5 0 17 493, ReceiptGeometricPow 2 0 10 1024]"
  using collapse_receipts_roundtrip [of "[ReceiptGeometricPow 2 0 10 1024, ReceiptAffineSum 3 5 0 17 493]"]
  by (simp add: KIND_AFFINE_def KIND_GEOMETRIC_def del: be_bytes.simps)

text \<open>
  C36.  On the one-iteration range from 2^62 to 2^62 + 1 with variable bounds the emitted sum is
  -2^62 where the loop computes 2^62: lo + (hi - 1) overflows before it is halved.
\<close>

theorem symbolic_sum_overflows:
  "\<exists>replacement ctx' v w.
     try_collapse oc [] (SFor ''i'' (nvar ''a'') (nvar ''b'') [SAssign ''s'' (SBinary AstAdd (nvar ''s'') (nvar ''i'') sp0) sp0] [collapse_attr] sp0)
       collapse_ctx0 = Some (Some replacement, ctx') \<and>
     exec_stmt plain_cx (SFor ''i'' (nvar ''a'') (nvar ''b'') [SAssign ''s'' (SBinary AstAdd (nvar ''s'') (nvar ''i'') sp0) sp0] [collapse_attr] sp0)
       wide_env [] = Inr (v, wide_env(''s'' \<mapsto> 0x4000000000000000), []) \<and>
     exec_stmt plain_cx replacement wide_env [] = Inr (w, wide_env(''s'' \<mapsto> - 0x4000000000000000), [])"
  by (simp add: recognize_for_def body_assignment_def mk_defs bound_varies_def build_closed_form_def Let_def
      wide_env_def plain_cx_def eval_name_def apply_int_op_def guard_str_record_value_op_def restore_def
      build_symbolic_sum_def assign_acc_plus_def i64_of_bool_def or_panic_def arith_div_def arith_rem_def
      div_defined_def trunc_div_def trunc_rem_def signed_divide_int_def signed_modulo_int_def fun_eq_iff)

text \<open>
  C37.  The seed of a Q16.16 map is taken from the nearest preceding let or assignment, past an if
  that assigns the accumulator: the block returns 1 when c is 1, and 0 after the pass, which reports
  nothing.
\<close>

theorem collapse_seed_skips_branch:
  "rewrite_stmt_list oc [] square_loop collapse_ctx0 =
     Some ([SLet ''x'' True None (nint 0) sp0, SIf (nvar ''c'') [SAssign ''x'' (nint 1) sp0] None sp0,
       SAssign ''x'' (nint 0) sp0], collapse_ctx0) \<and>
   exec_block_scoped plain_cx (square_loop @ [nvar ''x'']) [''c'' \<mapsto> 1] = Inr (1, [''c'' \<mapsto> 1]) \<and>
   exec_block_scoped plain_cx
     [SLet ''x'' True None (nint 0) sp0, SIf (nvar ''c'') [SAssign ''x'' (nint 1) sp0] None sp0,
      SAssign ''x'' (nint 0) sp0, nvar ''x''] [''c'' \<mapsto> 1] = Inr (0, [''c'' \<mapsto> 1])"
  unfolding square_loop_collapsed
  by (simp add: square_loop_def exec_block_scoped_def plain_cx_def eval_name_def apply_int_op_def
      guard_str_record_value_op_def restore_def bind_let_def numeral_3_eq_3 fun_eq_iff)

text \<open>
  C38.  Whatever its body, an annotated loop that is itself an item of the module is kept: the pass
  only rewrites the statements of its body, and when the body is one assignment, the form the pass
  collapses elsewhere, nothing changes and nothing is reported.  An annotated loop in a block that
  is the value of a let, with any body, is left as it is without a diagnostic.
\<close>

theorem collapse_misses_annotated:
  "is_collapse_for (SFor var start stop body [collapse_attr] span) \<and>
   collapse_module oc [SFor var start stop body [collapse_attr] span] =
     map_option (\<lambda>(body', ctx). ([SFor var start stop body' [collapse_attr] span], cc_diags ctx, cc_receipts ctx))
       (rewrite_stmt_list oc [] body \<lparr>cc_diags = [], cc_receipts = [], cc_fns = Map.empty\<rparr>) \<and>
   collapse_module oc [SFor var start stop [SAssign acc val sp] [collapse_attr] span] =
     Some ([SFor var start stop [SAssign acc val sp] [collapse_attr] span], [], []) \<and>
   collapse_module oc [SFnDef (FnDefData f ps [SLet x m None (SBlock [SFor var start stop body [collapse_attr] span] span) span] rest) span] =
     Some ([SFnDef (FnDefData f ps [SLet x m None (SBlock [SFor var start stop body [collapse_attr] span] span) span] rest) span], [], [])"
proof -
  let ?c = "\<lparr>cc_diags = [], cc_receipts = [], cc_fns = Map.empty\<rparr>"
  show ?thesis
  by (cases "rewrite_stmt_list oc [] body ?c") (auto simp add: collapse_module_def collapse_attr_def COLLAPSE_ATTR_def module_has_collapse_def build_fn_table_def)
qed

text \<open>
  C39.  A call is not differentiated and not reported: for the square of the result of a call the
  engine returns without an error and without any gradient for the argument.  The module carries no
  metadata, and verify_canonical_metadata is modelled for such modules.
\<close>

theorem autodiff_calls_lose_gradient:
  "\<exists>r. differentiate_function (verify_canonical_metadata with_bundle no_bundle) oc (call_module f n) ''main'' = Some (Inr r) \<and> gradients r = []"
proof -
  have o: "output_ids (instrs (call_module f n)) = [2]"
    by (simp add: call_module_def output_ids_def output_of_def map_filter_simps)
  let ?b = "\<lparr>gb_primal = instrs (call_module f n),
      gb_instrs = instrs (call_module f n) @ [ConstI64 3 1, BinOp 4 BMul 3 1, BinOp 5 BMul 3 1, BinOp 6 BAdd 4 5],
      gb_next = 7, gb_grads = [2 \<mapsto> 3, 1 \<mapsto> 6], gb_leaves = [0]\<rparr>"
  have "filter (\<lambda>i. \<not> is_output_of [] i) is = is" for "is"
    by (rule filter_True) (auto simp: is_output_of_def split: instr.split)
  moreover have "engine_bound (instrs (call_module f n)) = 3"
    by (simp add: engine_bound_def call_module_def engine_dst_def)
  ultimately have c: "canonicalize_gradients oc (finish ?b) = Some \<lparr>gradient_module = call_module f n, gradients = []\<rparr>"
    by (simp add: canonicalize_gradients_def finish_def collect_grads_def map_filter_simps call_pruned [unfolded One_nat_def])
      (simp add: call_module_def)
  show ?thesis
    by (simp add: differentiate_function_def differentiate_with_options_def call_verified o call_backward c [unfolded One_nat_def])
qed

text \<open>
  C40.  The guard that bounds next_id by 1024 per input byte does not bound the module: for every
  value identifier there is an input of at most 24 bytes, one Output instruction, that parses to a
  module whose next_id is one more than that identifier; for the largest identifier the successor
  overflows, which panics in a build with overflow checks and gives next_id 0 in another.
\<close>

theorem mic3_next_id_guard:
  assumes "v < 2 ^ 64"
  shows "\<exists>bs. length bs \<le> 24 \<and> parse_mic3_body oc v04 bs =
    (if v + 1 < 2 ^ 64 then Some (Inr ((lone_output v)\<lparr>next_id := v + 1\<rparr>)) else if oc then None else Some (Inr (lone_output v)))"
  using lone_output_parsed [OF assms] lone_output_size by blast

theorem mic3_next_id_guard_witness:
  "\<exists>bs. length bs \<le> 24 \<and> parse_mic3_body True (\<lambda>_. None) bs = Some (Inr ((lone_output 1099511627776)\<lparr>next_id := 1099511627777\<rparr>))"
  using mic3_next_id_guard [of 1099511627776 True "\<lambda>_. None"] by simp

section \<open>Further facts\<close>

lemma reap_experts_not_idempotent:
  "\<exists>m' m''. canonicalize_module oc reap_module = Some m' \<and> canonicalize_module oc m' = Some m'' \<and> m' \<noteq> m''"
  by (intro exI conjI, rule reap_first_run, rule reap_second_run) (simp add: reap_once_def reap_twice_def reap_module_def expert_def)

lemma micb_decode_map_limits:
  assumes "bounded_read rd" "parse_micb rd r = Inr g"
  shows "distinct (map fst (g_map g)) \<and> map_entries_within 0 (g_map g) \<and>
    recursive_entry_count (g_map g) \<le> 5 * MAX_MAP_ENTRIES"
proof -
  obtain strings where "decoded_ok strings g" using bounded_read.parse_decoded_ok [OF assms] .
  then have "map_result_ok 0 (g_map g)" by (simp add: decoded_ok_def)
  then show ?thesis by (simp add: map_result_ok_def MAX_MAP_NESTING_def)
qed

lemma emit_micb_total: "\<exists>bs. emit_micb g = Some bs"
  unfolding emit_micb_def by (rule encode_total)

lemma emit_micb_order_insensitive:
  assumes "map_equiv (g_map g) m" "distinct_keys (g_map g)"
  shows "emit_micb (g\<lparr>g_map := m\<rparr>) = emit_micb g"
proof -
  have c: "canonicalize m = canonicalize (g_map g)" using map_equiv_canonical [OF assms] by simp
  then have "build_string_table (g\<lparr>g_map := m\<rparr>) encoder_new = build_string_table g encoder_new"
    by (simp add: build_string_table_def)
  with c show ?thesis by (simp add: emit_micb_def encode_def Let_def)
qed

lemma map_canonical_form:
  assumes "map_equiv m m'" "distinct_keys m"
  shows "canonicalize m' = canonicalize m \<and> canonicalize (canonicalize m) = canonicalize m \<and>
    sorted (map key_bytes (canonicalize m)) \<and> mset (map fst (canonicalize m)) = mset (map fst m)"
  using map_equiv_canonical [OF assms] canonicalize_idem canonicalize_sorted canonicalize_keys by metis

lemma prune_dead_safe:
  assumes "def_before_use is" "operands_below n is"
  shows "(\<forall>i \<in> set (prune_dead is n). \<forall>v \<in> set (instruction_operands i). \<forall>j \<in> set is.
      instruction_dst j = Some v \<longrightarrow> j \<in> set (prune_dead is n)) \<and>
    (\<forall>i \<in> set is. instruction_dst i = None \<longrightarrow> i \<in> set (prune_dead is n)) \<and>
    prune_dead (prune_dead is n) n = prune_dead is n"
  using prune_dead_closed [OF assms] prune_dead_keeps_effects prune_dead_idem [OF assms] by blast

lemma constant_fold_exact:
  assumes "eval_int_binop oc op l r = Some v"
  shows "fold_binop oc op l r = Some (Folded v) \<or> fold_binop oc op l r = Some Skip"
proof -
  obtain out where "fold_binop oc op l r = Some out" using fold_binop_total [OF assms] by blast
  then show ?thesis using fold_binop_sound [of oc op l r] assms by (cases out) auto
qed

lemma next_id_above_stream:
  assumes "canonicalize_module oc m = Some m'" "\<not> has_populated_canonical m"
    and "i \<in> set (instrs m')" "v \<in> stream_ids i"
  shows "v < fst (fresh m')"
proof -
  have "next_id m' = next_sequential_id m'"
    using assms(1,2) by (auto simp: canonicalize_module_def Let_def next_sequential_id_def split: bind_splits)
  with next_sequential_bound [OF assms(3,4)] show ?thesis by (simp add: fresh_def)
qed

lemma uleb128_canonical:
  "uleb128_read_minimal slice_read bs = Inr (v, rest) \<longleftrightarrow> bs = uleb128_write v @ rest"
proof
  assume "uleb128_read_minimal slice_read bs = Inr (v, rest)"
  then show "bs = uleb128_write v @ rest" using slice.minimal_canonical by simp
next
  assume "bs = uleb128_write v @ rest"
  then show "uleb128_read_minimal slice_read bs = Inr (v, rest)"
    using decodesD [OF slice.decodes_uleb128_read_minimal [of v], of bs rest] by auto
qed

lemma uleb128_size_bound:
  "length (uleb128_write v) = uleb128_size v \<and> 1 \<le> uleb128_size v \<and> uleb128_size v \<le> MAX_ULEB128_BYTES"
proof -
  have "unat v < 128 ^ Suc 9" using unat_less_u64 [of v] by simp
  from length_uleb128_write_le [OF this] have "uleb128_size v \<le> 10" by (simp add: length_uleb128_write)
  moreover have "1 \<le> uleb128_size v" by (simp add: uleb128_size.simps [of v] Let_def)
  ultimately show ?thesis by (simp add: length_uleb128_write MAX_ULEB128_BYTES_def)
qed

lemma zigzag_bijection:
  "zigzag_decode (zigzag_encode v) = v \<and> zigzag_encode (zigzag_decode u) = u \<and>
    uint (zigzag_encode v) = (if 0 \<le> sint v then 2 * sint v else - 2 * sint v - 1)"
  by (simp only: zigzag_decode_encode zigzag_encode_decode uint_zigzag_encode simp_thms)

lemma map_key_grammar: "check_map_key k = Inr () \<longleftrightarrow> map_key_ok k"
  by (rule check_map_key_iff)

lemma phf_mix_no_overflow:
  assumes "q \<le> MULT_B"
  shows "mix key q * q + unat (b :: u8) < 2 ^ 39 \<and> mix key q < MOD31"
  using mix_step_no_overflow [OF assms] mix_less by blast

lemma registers_hottest:
  assumes "slot_of (plan_module_k m k) v = Reg r" "w \<in> module_defs m" "slot_of (plan_module_k m k) w = Spill"
  shows "module_uses m w < module_uses m v \<or> module_uses m w = module_uses m v \<and> v < w"
  using register_hottest [OF assms] .

lemma reduce_keepdims_squeeze:
  assumes "length inp < 2 ^ 31" "reduce_shape inp axes True = Inr t" "axes \<noteq> []"
  shows "squeeze_shape t axes = reduce_shape inp axes False \<and> (\<exists>u. reduce_shape inp axes False = Inr u)"
proof -
  obtain u where "reduce_shape inp axes False = Inr u"
    using assms(2) by (auto simp: reduce_shape_def Let_def rbind_eq_Inr)
  then show ?thesis using reduce_squeeze [OF assms(1,2)] by simp
qed

lemma expand_dims_undone:
  assumes "length inp + 1 < 2 ^ 31" "expand_dims_shape inp axis = Inr t"
  shows "squeeze_shape t [axis] = Inr inp \<and> index_shape t axis = Inr inp"
  using expand_dims_inverse [OF assms] by simp

lemma transpose_undone:
  "transpose_shape inp perm \<noteq> None \<and>
    ((\<exists>t. transpose_shape inp perm = Some (Inr t)) \<longleftrightarrow> is_permutation perm (length inp)) \<and>
    (transpose_shape inp perm = Some (Inr t) \<longrightarrow>
      (\<exists>r. invert_permutation perm = Some r \<and> transpose_shape t r = Some (Inr inp)))"
  using transpose_shape_spec transpose_inverse by blast

lemma slice_shape_no_clamp:
  assumes "0 \<le> sint start" "sint start \<le> sint ennd" "len < 2 ^ 62"
  shows "slice_shape [Known len] 0 start ennd c = (Inr [Known (nat (sint ennd - sint start))], c) \<and>
    (sint ennd \<le> int len \<longrightarrow> slice_stride_shape [Known len] 0 start ennd 1 c = slice_shape [Known len] 0 start ennd c) \<and>
    (\<exists>n \<le> len. slice_stride_shape [Known len] 0 start ennd 1 c = (Inr [Known n], c))"
proof (intro conjI impI)
  show "slice_shape [Known len] 0 start ennd c = (Inr [Known (nat (sint ennd - sint start))], c)"
    using assms slice_len_exact [OF assms(1,2)]
    by (simp add: slice_shape_def shape_normalize_axis_spec axis_ok_def axis_pos_def dim_len_def)
next
  assume "sint ennd \<le> int len"
  then show "slice_stride_shape [Known len] 0 start ennd 1 c = slice_shape [Known len] 0 start ennd c"
    using slice_agrees [of "[Known len]" start ennd 0 len c] assms by (simp add: axis_ok_def axis_pos_def)
next
  let ?n = "card (slice_positions (int len) (sint start) (sint ennd) 1)"
  have "slice_len_with_step (Some len) start ennd 1 = Some ?n"
    using slice_len_with_step_spec [of len 1 start ennd] assms(3) by simp
  moreover have "?n \<le> len" using card_slice_le [of "int len" 1 "sint start" "sint ennd"] by simp
  ultimately show "\<exists>n \<le> len. slice_stride_shape [Known len] 0 start ennd 1 c = (Inr [Known n], c)"
    by (simp add: slice_stride_shape_def shape_normalize_axis_spec axis_ok_def axis_pos_def dim_len_def)
qed

lemma conv2d_valid_windows:
  assumes "conv2d_shape [n, Known h, Known w, Known c] [Known kh, Known kw, Known c', f] sh sw Valid ctr = (Inr (oh, ow), ctr')"
  shows "oh = Known (card {p. p * sh + kh \<le> h}) \<and> ow = Known (card {p. p * sw + kw \<le> w}) \<and> c = c' \<and> ctr' = ctr"
  using conv2d_valid [OF assms] .

lemma tensor_comparison_known_shapes:
  assumes "op \<notin> {AstAdd, AstSub, AstMul, AstDiv}"
  shows "infer_binary op (TensorTy (tensor_ty_new d (map Known xs))) (TensorTy (tensor_ty_new d (map Known ys))) sp =
      type_err (EngineMsg (binop_display op) \<lparr>ee_op = shape_op_for_binop op, ee_kind = UnknownOp\<rparr>) sp \<and>
    infer_binary op (TensorTy (tensor_ty_new d [Sym s])) (TensorTy (tensor_ty_new d [Sym s])) sp =
      Inr (TensorTy (tensor_ty_new d [Sym s]), sp) \<and>
    (\<exists>v. apply_binary is_rec op (VTensor (tensor_val_new d (map Known xs) f)) (VTensor (tensor_val_new d (map Known xs) g)) = Inr v)"
proof -
  have k: "concrete_shape (map Known zs) = Some zs" for zs by (simp add: concrete_shape_Some)
  have e: "infer_output_shape (shape_op_for_binop op) zs = Inl \<lparr>ee_op = shape_op_for_binop op, ee_kind = UnknownOp\<rparr>" for zs
    using assms by (cases op) (simp_all add: infer_output_shape_def rule_for_op_def)
  have b: "eval_broadcast_shapes zs zs = Some zs" "checker_broadcast_shapes zs zs = Some zs" for zs
    unfolding broadcast_shapes_spec by (rule dims.broadcast_same)+
  have n: "op \<noteq> AstDiv" using assms by blast
  show ?thesis
    by (simp add: infer_binary_def infer_tensor_binary_def k e b n apply_tensor_tensor_def)
qed

lemma symbolic_slice_disagrees:
  assumes "0 \<le> sint start" "sint start \<le> sint ennd"
  shows "infer_slice (TensorTy (tensor_ty_new d [Sym s])) xs 0 start ennd sp =
      Inr (TensorTy (tensor_ty_new d [Sym (''_slice_'' @ show_nat (sp_start sp) @ ''_'' @ show_nat (sp_end sp))]), sp) \<and>
    slice_tensor_preview (tensor_val_new d [Sym s] f) 0 start ennd = Inr (tensor_val_new d [Sym s] f)"
  using assms
  by (simp add: infer_slice_def with_tensor_def checker_normalize_axis_def eval_normalize_axis_def slice_tensor_preview_def
      dim_len_def checker_fresh_symbol_def Let_def del: show_nat.simps)

lemma suggestion_deterministic:
  assumes "set keys = set keys'"
  shows "closest_identifier name keys = closest_identifier name keys' \<and>
    (closest_identifier name keys = Some k \<longleftrightarrow>
      k \<in> set keys \<and> k \<noteq> name \<and> levenshtein name k \<le> suggestion_radius name \<and>
      (\<forall>k' \<in> set keys. k' \<noteq> name \<longrightarrow> levenshtein name k < levenshtein name k' \<or> levenshtein name k = levenshtein name k' \<and> k \<le> k'))"
  using closest_identifier_order [OF assms] closest_identifier_Some by blast

lemma mic2_text_reading:
  assumes "validate (graph_reading g) = Inr ()" "text_graph g" "map_within (g_map g)"
    and "\<forall>s \<in> set (map_strings (canonicalize (g_map g))). valid_string s"
    and "length (emit_mic2 g) \<le> MAX_INPUT_SIZE" "length (str_lines (emit_mic2 g)) \<le> MAX_LINE_COUNT"
  shows "parse_mic2 (emit_mic2 g) = Inr (graph_reading g)"
  using read_emit_mic2 [OF assms] .

lemma collapse_unannotated:
  assumes "\<not> module_has_collapse items"
  shows "collapse_module oc items = Some (items, [], [])"
  using rewrite_items_unannotated [OF assms] by (simp add: collapse_module_def)

lemma collapse_loop_variable:
  "\<exists>replacement ctx' v w.
     try_collapse oc [] (SFor ''i'' (nint 0) (nint 5) [SAssign ''i'' (SBinary AstAdd (nvar ''i'') (nint 1) sp0) sp0] [collapse_attr] sp0)
       collapse_ctx0 = Some (Some replacement, ctx') \<and>
     exec_stmt plain_cx (SFor ''i'' (nint 0) (nint 5) [SAssign ''i'' (SBinary AstAdd (nvar ''i'') (nint 1) sp0) sp0] [collapse_attr] sp0)
       [''i'' \<mapsto> 7] [] = Inr (v, [''i'' \<mapsto> 7], []) \<and>
     exec_stmt plain_cx replacement [''i'' \<mapsto> 7] [] = Inr (w, [''i'' \<mapsto> 12], [])"
  by (simp add: recognize_for_def body_assignment_def mk_defs bound_varies_def build_closed_form_def Let_def
      plain_cx_def eval_name_def apply_int_op_def guard_str_record_value_op_def restore_def numeral_eq_Suc
      assign_acc_plus_def checked_sub_def checked_add_def i64_fits_def closed_form_i64_def
      trunc_div_def trunc_rem_def signed_divide_int_def signed_modulo_int_def fun_eq_iff)

end
